(* ===== verification/Prelude.thy ===== *)
theory Prelude
  imports Complex_Main "HOL-Library.Char_ord" "HOL-Library.List_Lexorder" "HOL-Library.Multiset"
begin

text \<open>
  What the components share: the parts of the Go language and its standard library the server is
  written with. Signed 64-bit arithmetic (\<open>int64\<close>, \<open>time.Duration\<close>), instants (\<open>time.Time\<close>),
  double-precision coordinates, the string functions \<open>strings.TrimSpace\<close>, \<open>strconv.ParseInt\<close> and
  \<open>strconv.FormatInt\<close>, and \<open>sort.SliceStable\<close>.

  Conventions. A Go \<open>string\<close> is a list of bytes, here \<^typ>\<open>string\<close> (a \<^typ>\<open>char\<close> is one byte), and
  the order on it is the byte order. A pointer that may be nil is an \<open>option\<close>. A function that
  returns \<open>(T, error)\<close> returns a sum, with the error on the left. Two collections carry the
  component proofs: \<open>go_time\<close> for the arithmetic of instants and \<open>go_sort\<close> for sorting.
\<close>

named_theorems go_time
named_theorems go_sort

section \<open>Signed 64-bit integers\<close>

text \<open>An \<open>int64\<close> is an \<^typ>\<open>int\<close>; the results of operations that may leave the range are wrapped.\<close>

definition wrap64 :: "int \<Rightarrow> int" where
  "wrap64 x = (x + 2 ^ 63) mod 2 ^ 64 - 2 ^ 63"

definition int64 :: "int \<Rightarrow> bool" where
  "int64 x \<longleftrightarrow> - (2 ^ 63) \<le> x \<and> x < 2 ^ 63"

lemma wrap64_id: "int64 x \<Longrightarrow> wrap64 x = x"
  by (simp add: wrap64_def int64_def)

lemma wrap64_range: "int64 (wrap64 x)"
proof -
  have "0 \<le> (x + 2 ^ 63) mod 2 ^ 64" and "(x + 2 ^ 63) mod 2 ^ 64 < (2 ^ 64 :: int)"
    by simp_all
  then show ?thesis by (simp add: wrap64_def int64_def)
qed

lemma wrap64_cong: "wrap64 x mod 2 ^ 64 = x mod 2 ^ 64"
  by (simp add: wrap64_def mod_diff_left_eq)

lemma wrap64_inj: "int64 x \<Longrightarrow> wrap64 (x + c) = wrap64 (y + c) \<Longrightarrow> int64 y \<Longrightarrow> x = y"
proof -
  assume x: "int64 x" and y: "int64 y" and eq: "wrap64 (x + c) = wrap64 (y + c)"
  have "(x + c) mod 2 ^ 64 = (y + c) mod 2 ^ 64"
    using eq wrap64_cong by metis
  then have "(x + c) - (y + c) = ((x + c) - (y + c)) div 2 ^ 64 * 2 ^ 64"
    by (metis mod_eq_dvd_iff dvd_div_mult_self)
  moreover have "x + c - (y + c) = x - y" by simp
  ultimately have d: "x - y = (x - y) div 2 ^ 64 * 2 ^ 64" by metis
  have "- (2 ^ 64) < x - y" "x - y < 2 ^ 64"
    using x y by (simp_all add: int64_def)
  then have "(x - y) div 2 ^ 64 = 0" using d by auto
  then show "x = y" using d by simp
qed

text \<open>Go's integer division truncates towards zero.\<close>

definition quot :: "int \<Rightarrow> int \<Rightarrow> int" where
  "quot a b = sgn a * sgn b * (\<bar>a\<bar> div \<bar>b\<bar>)"

lemma quot_nonneg: "0 \<le> a \<Longrightarrow> 0 < b \<Longrightarrow> quot a b = a div b"
  by (cases "a = 0") (simp_all add: quot_def)

section \<open>Instants and durations\<close>

text \<open>
  A \<open>time.Time\<close> is its offset from the Unix epoch in nanoseconds; a \<open>time.Duration\<close> is a number of
  nanoseconds. \<open>time.Unix\<close> stores seconds since year 1 in an \<open>int64\<close>, so a second count near the ends
  of the range wraps; every instant is the value of such a stored second count plus a nanosecond part.
\<close>

type_synonym instant = int
type_synonym duration = int

definition second :: duration where "second = 1000000000"
definition hour :: duration where "hour = 3600 * second"
definition unix_to_internal :: int where "unix_to_internal = 62135596800"

definition Unix :: "instant \<Rightarrow> int" where "Unix t = t div second"
definition Nanosecond :: "instant \<Rightarrow> int" where "Nanosecond t = t mod second"
definition UnixMicro :: "instant \<Rightarrow> int" where "UnixMicro t = t div 1000"
definition time_UnixMicro :: "int \<Rightarrow> instant" where "time_UnixMicro us = us * 1000"
definition time_Unix :: "int \<Rightarrow> instant" where
  "time_Unix secs = (wrap64 (secs + unix_to_internal) - unix_to_internal) * second"

text \<open>The zero \<open>time.Time\<close> is the first instant of year 1.\<close>

definition zero_time :: instant where "zero_time = - unix_to_internal * second"

lemma second_pos [simp]: "0 < second" by (simp add: second_def)
lemma second_neq [simp]: "second \<noteq> 0" by (simp add: second_def)

lemma instant_split: "t = Unix t * second + Nanosecond t"
  by (simp add: Unix_def Nanosecond_def)

lemma Nanosecond_range [go_time]: "0 \<le> Nanosecond t" "Nanosecond t < second"
  by (simp_all add: Nanosecond_def)

lemma time_UnixMicro_UnixMicro: "t mod 1000 = 0 \<Longrightarrow> time_UnixMicro (UnixMicro t) = t"
  by (auto simp: time_UnixMicro_def UnixMicro_def)

lemma UnixMicro_mono: "a \<le> b \<Longrightarrow> UnixMicro a \<le> UnixMicro b"
  by (simp add: UnixMicro_def zdiv_mono1)

lemma Unix_mono: "a \<le> b \<Longrightarrow> Unix a \<le> Unix b"
  by (simp add: Unix_def zdiv_mono1)

lemma Unix_add_seconds [go_time]: "Unix (t + n * second) = Unix t + n"
  by (simp add: Unix_def)

lemma time_Unix_no_wrap:
  "int64 (s + unix_to_internal) \<Longrightarrow> time_Unix s = s * second"
  by (simp add: time_Unix_def wrap64_id)

section \<open>Coordinates\<close>

text \<open>
  A \<open>float64\<close> is a finite number (a rational), an infinity or NaN. Negative zero is identified with
  zero: the two compare equal in Go. Comparisons with NaN are false, as in Go.
\<close>

datatype float64 = Fin rat | PosInf | NegInf | NaN

fun flt :: "float64 \<Rightarrow> float64 \<Rightarrow> bool" where
  "flt (Fin a) (Fin b) = (a < b)"
| "flt (Fin a) PosInf = True"
| "flt NegInf (Fin a) = True"
| "flt NegInf PosInf = True"
| "flt _ _ = False"

definition IsNaN :: "float64 \<Rightarrow> bool" where "IsNaN x \<longleftrightarrow> x = NaN"
definition IsInf :: "float64 \<Rightarrow> bool" where "IsInf x \<longleftrightarrow> x = PosInf \<or> x = NegInf"

lemma finite_cases: "\<not> IsNaN x \<Longrightarrow> \<not> IsInf x \<Longrightarrow> \<exists>r. x = Fin r"
  by (cases x) (auto simp: IsNaN_def IsInf_def)

section \<open>Strings\<close>

text \<open>
  \<open>strings.TrimSpace\<close> removes white space in Unicode's sense from both ends. On bytes: the six ASCII
  space characters and the UTF-8 encodings of U+0085, U+00A0, U+1680, U+2000 to U+200A, U+2028,
  U+2029, U+202F, U+205F and U+3000.
\<close>

definition ascii_space :: "char \<Rightarrow> bool" where
  "ascii_space c \<longleftrightarrow> (let n = (of_char c :: nat) in n = 9 \<or> n = 10 \<or> n = 11 \<or> n = 12 \<or> n = 13 \<or> n = 32)"

definition wide_spaces :: "nat list list" where
  "wide_spaces = [[0xC2, 0x85], [0xC2, 0xA0], [0xE1, 0x9A, 0x80],
     [0xE2, 0x80, 0x80], [0xE2, 0x80, 0x81], [0xE2, 0x80, 0x82], [0xE2, 0x80, 0x83],
     [0xE2, 0x80, 0x84], [0xE2, 0x80, 0x85], [0xE2, 0x80, 0x86], [0xE2, 0x80, 0x87],
     [0xE2, 0x80, 0x88], [0xE2, 0x80, 0x89], [0xE2, 0x80, 0x8A], [0xE2, 0x80, 0xA8],
     [0xE2, 0x80, 0xA9], [0xE2, 0x80, 0xAF], [0xE2, 0x81, 0x9F], [0xE3, 0x80, 0x80]]"

definition is_wide :: "string \<Rightarrow> bool" where
  "is_wide s \<longleftrightarrow> map of_char s \<in> set wide_spaces"

lemma is_wide_Nil [simp]: "\<not> is_wide []"
  by (simp add: is_wide_def wide_spaces_def)

function trim_left :: "string \<Rightarrow> string" where
  "trim_left s =
     (if s \<noteq> [] \<and> ascii_space (hd s) then trim_left (drop 1 s)
      else if is_wide (take 2 s) then trim_left (drop 2 s)
      else if is_wide (take 3 s) then trim_left (drop 3 s)
      else s)"
  by pat_completeness auto
termination
proof (relation "measure length", goal_cases)
  case 1
  show ?case by simp
next
  case (2 s)
  then show ?case by (cases s) simp_all
next
  case (3 s)
  then show ?case by (cases s) simp_all
next
  case (4 s)
  then show ?case by (cases s) simp_all
qed

function trim_right :: "string \<Rightarrow> string" where
  "trim_right s =
     (if s \<noteq> [] \<and> ascii_space (last s) then trim_right (butlast s)
      else if is_wide (drop (length s - 2) s) then trim_right (take (length s - 2) s)
      else if is_wide (drop (length s - 3) s) then trim_right (take (length s - 3) s)
      else s)"
  by pat_completeness auto
termination
proof (relation "measure length", goal_cases)
  case 1
  show ?case by simp
next
  case (2 s)
  then show ?case by (cases s) simp_all
next
  case (3 s)
  then show ?case by (cases s) simp_all
next
  case (4 s)
  then show ?case by (cases s) simp_all
qed

declare trim_left.simps [simp del] trim_right.simps [simp del]

definition TrimSpace :: "string \<Rightarrow> string" where
  "TrimSpace s = trim_right (trim_left s)"

text \<open>A text whose first and last characters are printable ASCII is left alone.\<close>

definition visible :: "char \<Rightarrow> bool" where
  "visible c \<longleftrightarrow> 32 < (of_char c :: nat) \<and> (of_char c :: nat) < 128"

lemma visible_not_space: "visible c \<Longrightarrow> \<not> ascii_space c"
  by (auto simp: visible_def ascii_space_def Let_def)

lemma is_wide_hd: "is_wide s \<Longrightarrow> 128 \<le> (of_char (hd s) :: nat)"
  by (auto simp: is_wide_def wide_spaces_def)

lemma is_wide_last: "is_wide s \<Longrightarrow> 128 \<le> (of_char (last s) :: nat)"
  by (auto simp: is_wide_def wide_spaces_def)

lemma trim_left_visible: "visible (hd s) \<Longrightarrow> trim_left s = s"
proof -
  assume v: "visible (hd s)"
  have "\<not> is_wide (take n s)" for n
    using v is_wide_hd [of "take n s"] by (cases "n = 0") (auto simp: visible_def hd_take)
  then show ?thesis using visible_not_space [OF v] by (subst trim_left.simps) simp
qed

lemma trim_right_visible: "visible (last s) \<Longrightarrow> trim_right s = s"
proof -
  assume v: "visible (last s)"
  have "\<not> is_wide (drop n s)" for n
    using v is_wide_last [of "drop n s"] by (cases "n < length s") (auto simp: visible_def last_drop)
  then show ?thesis using visible_not_space [OF v] by (subst trim_right.simps) simp
qed

lemma trim_left_spaces: "\<forall>c \<in> set sp. ascii_space c \<Longrightarrow> trim_left (sp @ s) = trim_left s"
  by (induction sp) (simp_all add: trim_left.simps [of "_ # _"])

lemma trim_right_spaces: "\<forall>c \<in> set sp. ascii_space c \<Longrightarrow> trim_right (s @ sp) = trim_right s"
proof (induction sp arbitrary: s rule: rev_induct)
  case (snoc c sp)
  then show ?case
    by (subst append_assoc [symmetric], subst trim_right.simps) (simp add: butlast_append)
qed simp

lemma TrimSpace_padded:
  assumes "\<forall>c \<in> set sp. ascii_space c" "\<forall>c \<in> set sp'. ascii_space c"
    and "s \<noteq> []" "visible (hd s)" "visible (last s)"
  shows "TrimSpace (sp @ s @ sp') = s"
proof -
  have "trim_left (sp @ s @ sp') = s @ sp'"
    using assms by (simp add: trim_left_spaces trim_left_visible)
  then show ?thesis using assms by (simp add: TrimSpace_def trim_right_spaces trim_right_visible)
qed

lemma TrimSpace_visible: "s \<noteq> [] \<Longrightarrow> visible (hd s) \<Longrightarrow> visible (last s) \<Longrightarrow> TrimSpace s = s"
  using TrimSpace_padded [of "[]" "[]" s] by simp

lemma TrimSpace_blank: "\<forall>c \<in> set sp. ascii_space c \<Longrightarrow> TrimSpace sp = []"
proof -
  assume "\<forall>c \<in> set sp. ascii_space c"
  then have "trim_left sp = trim_left []"
    using trim_left_spaces [of sp "[]"] by simp
  then show ?thesis by (simp add: TrimSpace_def trim_left.simps trim_right.simps)
qed

text \<open>\<open>strings.ToLower\<close> and \<open>strings.EqualFold\<close> where only ASCII letters can matter.\<close>

definition ascii_lower :: "char \<Rightarrow> char" where
  "ascii_lower c = (let n = (of_char c :: nat) in if 65 \<le> n \<and> n \<le> 90 then char_of (n + 32) else c)"

definition to_lower :: "string \<Rightarrow> string" where
  "to_lower s = map ascii_lower s"

fun has_prefix :: "string \<Rightarrow> string \<Rightarrow> bool" where
  "has_prefix s [] = True"
| "has_prefix [] (p # ps) = False"
| "has_prefix (c # s) (p # ps) = (c = p \<and> has_prefix s ps)"

fun contains :: "string \<Rightarrow> string \<Rightarrow> bool" where
  "contains [] p = (p = [])"
| "contains (c # s) p = (has_prefix (c # s) p \<or> contains s p)"

text \<open>Strings are written with the text first and the pattern second, as in Go.\<close>

definition has_suffix :: "string \<Rightarrow> string \<Rightarrow> bool" where
  "has_suffix s suf \<longleftrightarrow> length suf \<le> length s \<and> drop (length s - length suf) s = suf"

text \<open>\<open>strings.ReplaceAll\<close> for a non-empty pattern.\<close>

function replace_all :: "string \<Rightarrow> string \<Rightarrow> string \<Rightarrow> string" where
  "replace_all old new s =
     (if s = [] \<or> old = [] then s
      else if has_prefix s old then new @ replace_all old new (drop (length old) s)
      else hd s # replace_all old new (tl s))"
  by pat_completeness auto
termination by (relation "measure (\<lambda>(_, _, s). length s)") auto

declare replace_all.simps [simp del]

text \<open>\<open>strings.Split\<close> at a separator character: one part more than there are separators.\<close>

fun split_at :: "char \<Rightarrow> string \<Rightarrow> string list" where
  "split_at sep [] = [[]]"
| "split_at sep (c # s) =
     (if c = sep then [] # split_at sep s else (case split_at sep s of p # ps \<Rightarrow> (c # p) # ps | [] \<Rightarrow> [[c]]))"

text \<open>\<open>strings.Join\<close>, with the separator first.\<close>

fun join :: "string \<Rightarrow> string list \<Rightarrow> string" where
  "join sep [] = []"
| "join sep [x] = x"
| "join sep (x # xs) = x @ sep @ join sep xs"

text \<open>\<open>strings.Fields\<close>: the parts between runs of white space.\<close>

fun take_field :: "string \<Rightarrow> string \<times> string" where
  "take_field [] = ([], [])"
| "take_field (c # s) =
     (if trim_left (c # s) \<noteq> c # s then ([], c # s) else case take_field s of (a, b) \<Rightarrow> (c # a, b))"

lemma trim_left_cases: "trim_left s = s \<or> (\<exists>n. trim_left s = trim_left (drop (Suc n) s)) \<and> s \<noteq> []"
  by (cases s) (simp_all add: trim_left.simps [of "[]"] trim_left.simps [of "_ # _"], metis drop_Suc_Cons drop0)

lemma trim_left_ends: "length (trim_left s) \<le> length s \<and> trim_left (trim_left s) = trim_left s"
proof (induction "length s" arbitrary: s rule: less_induct)
  case less
  consider "trim_left s = s" | n where "trim_left s = trim_left (drop (Suc n) s)" "s \<noteq> []" using trim_left_cases by blast
  then show ?case
  proof cases
    case 2
    then have "length (drop (Suc n) s) < length s" by simp
    from less [OF this] 2(1) this show ?thesis by simp
  qed simp
qed

lemma take_field_nonempty: "s \<noteq> [] \<Longrightarrow> trim_left s = s \<Longrightarrow> length (snd (take_field s)) < length s"
proof -
  have "length (snd (take_field t)) \<le> length t" for t by (induction t) (auto split: prod.splits)
  then show "s \<noteq> [] \<Longrightarrow> trim_left s = s \<Longrightarrow> ?thesis" by (cases s) (auto simp: less_Suc_eq_le split: prod.splits, metis snd_conv)
qed

function Fields :: "string \<Rightarrow> string list" where
  "Fields s = (let t = trim_left s in if t = [] then [] else case take_field t of (a, b) \<Rightarrow> a # Fields b)"
  by pat_completeness auto
termination
proof (relation "measure length", goal_cases)
  case 1
  show ?case by simp
next
  case (2 s t a b)
  then have "length b < length t" using take_field_nonempty [of t] trim_left_ends [of s] by (metis snd_conv)
  then show ?case using 2 trim_left_ends [of s] by simp
qed

declare Fields.simps [simp del]

subsection \<open>Decimal integers\<close>

text \<open>
  \<open>strconv.ParseInt(s, 10, 64)\<close>. The digit loop is \<open>ParseUint\<close>'s: it reports a range error as soon
  as the value no longer fits 64 bits, so a later stray character is not seen.
\<close>

datatype num_error = ErrSyntax | ErrRange

definition digit_val :: "char \<Rightarrow> int option" where
  "digit_val c = (let n = (of_char c :: nat) in if 48 \<le> n \<and> n \<le> 57 then Some (int (n - 48)) else None)"

fun parse_digits :: "int \<Rightarrow> string \<Rightarrow> num_error + int" where
  "parse_digits n [] = Inr n"
| "parse_digits n (c # cs) =
     (case digit_val c of
        None \<Rightarrow> Inl ErrSyntax
      | Some d \<Rightarrow>
          (if (2 ^ 64 - 1) div 10 + 1 \<le> n then Inl ErrRange
           else if 2 ^ 64 - 1 < 10 * n + d then Inl ErrRange
           else parse_digits (10 * n + d) cs))"

definition parse_uint :: "string \<Rightarrow> num_error + int" where
  "parse_uint s = (if s = [] then Inl ErrSyntax else parse_digits 0 s)"

definition ParseInt :: "string \<Rightarrow> num_error + int" where
  "ParseInt s =
     (if s = [] then Inl ErrSyntax
      else let neg = (hd s = CHR ''-'');
               rest = (if hd s = CHR ''+'' \<or> neg then tl s else s)
           in case parse_uint rest of
                Inl e \<Rightarrow> Inl e
              | Inr un \<Rightarrow>
                  (if \<not> neg \<and> 2 ^ 63 \<le> un then Inl ErrRange
                   else if neg \<and> 2 ^ 63 < un then Inl ErrRange
                   else Inr (if neg then - un else un)))"

text \<open>\<open>strconv.FormatInt(n, 10)\<close>.\<close>

definition digit_char :: "nat \<Rightarrow> char" where
  "digit_char d = char_of (48 + d)"

fun show_nat :: "nat \<Rightarrow> string" where
  "show_nat n = (if n < 10 then [digit_char n] else show_nat (n div 10) @ [digit_char (n mod 10)])"

declare show_nat.simps [simp del]

definition FormatInt :: "int \<Rightarrow> string" where
  "FormatInt n = (if n < 0 then CHR ''-'' # show_nat (nat (- n)) else show_nat (nat n))"

lemma digit_val_char: "d < 10 \<Longrightarrow> digit_val (digit_char d) = Some (int d)"
  by (simp add: digit_val_def digit_char_def)

lemma show_nat_nonempty: "show_nat n \<noteq> []"
  by (subst show_nat.simps) simp

lemma parse_digits_bound: "parse_digits n s = Inr m \<Longrightarrow> 0 \<le> n \<Longrightarrow> n < 2 ^ 64 \<Longrightarrow> 0 \<le> m \<and> m < 2 ^ 64"
proof (induction n s rule: parse_digits.induct)
  case (2 n c cs)
  then show ?case
    by (auto simp: digit_val_def Let_def split: option.splits if_splits)
qed simp

lemma parse_digits_append:
  "parse_digits n (s @ t) = (case parse_digits n s of Inl e \<Rightarrow> Inl e | Inr m \<Rightarrow> parse_digits m t)"
  by (induction n s rule: parse_digits.induct) (auto split: option.splits)

lemma parse_digits_show_nat: "int n < 2 ^ 64 \<Longrightarrow> parse_digits 0 (show_nat n) = Inr (int n)"
proof (induction n rule: show_nat.induct)
  case (1 n)
  show ?case
  proof (cases "n < 10")
    case True
    then show ?thesis by (subst show_nat.simps) (simp add: digit_val_char)
  next
    case False
    then have IH: "parse_digits 0 (show_nat (n div 10)) = Inr (int (n div 10))"
      using 1 by simp
    have small: "int (n div 10) < (2 ^ 64 - 1) div 10 + 1"
      using "1.prems" by simp
    have eq: "10 * int (n div 10) + int (n mod 10) = int n"
      by (metis mult_div_mod_eq of_nat_add of_nat_mult of_nat_numeral)
    have "n mod 10 < 10" by simp
    then have "parse_digits (int (n div 10)) [digit_char (n mod 10)] = Inr (int n)"
      using small eq "1.prems" by (simp add: digit_val_char del: of_nat_mod)
    then show ?thesis
      using False IH by (subst show_nat.simps) (simp add: parse_digits_append)
  qed
qed

lemma hd_show_nat: "\<exists>d<10. hd (show_nat n) = digit_char d"
proof (induction n rule: show_nat.induct)
  case (1 n)
  then show ?case
    by (subst show_nat.simps) (auto simp: show_nat_nonempty)
qed

lemma digit_char_not_sign: "d < 10 \<Longrightarrow> digit_char d \<noteq> CHR ''-'' \<and> digit_char d \<noteq> CHR ''+''"
proof -
  assume "d < 10"
  then have "(of_char (digit_char d) :: nat) = 48 + d" by (simp add: digit_char_def)
  moreover have "(of_char CHR ''-'' :: nat) = 45" "(of_char CHR ''+'' :: nat) = 43" by simp_all
  ultimately show ?thesis by fastforce
qed

lemma visible_digit: "d < 10 \<Longrightarrow> visible (digit_char d)"
  by (simp add: visible_def digit_char_def)

lemma last_show_nat: "\<exists>d<10. last (show_nat n) = digit_char d"
proof -
  have "last (show_nat n) = digit_char (n mod 10)" by (subst show_nat.simps) simp
  then show ?thesis by (metis mod_less_divisor zero_less_numeral)
qed

lemma visible_FormatInt: "FormatInt n \<noteq> [] \<and> visible (hd (FormatInt n)) \<and> visible (last (FormatInt n))"
  using hd_show_nat [of "nat n"] last_show_nat [of "nat n"] last_show_nat [of "nat (- n)"] visible_digit
  by (auto simp: FormatInt_def show_nat_nonempty) (simp add: visible_def)

theorem ParseInt_FormatInt: "int64 n \<Longrightarrow> ParseInt (FormatInt n) = Inr n"
proof -
  assume n: "int64 n"
  show ?thesis
  proof (cases "n < 0")
    case True
    have "parse_digits 0 (show_nat (nat (- n))) = Inr (- n)"
      using parse_digits_show_nat [of "nat (- n)"] True n by (simp add: int64_def)
    then show ?thesis
      using True n by (simp add: ParseInt_def FormatInt_def parse_uint_def show_nat_nonempty int64_def)
  next
    case False
    have "parse_digits 0 (show_nat (nat n)) = Inr n"
      using parse_digits_show_nat [of "nat n"] False n by (simp add: int64_def)
    moreover obtain d where "d < 10" "hd (show_nat (nat n)) = digit_char d"
      using hd_show_nat by blast
    ultimately show ?thesis
      using False n digit_char_not_sign [of d]
      by (simp add: ParseInt_def FormatInt_def parse_uint_def show_nat_nonempty int64_def)
  qed
qed

lemma ParseInt_range: "ParseInt s = Inr n \<Longrightarrow> int64 n"
proof -
  assume a: "ParseInt s = Inr n"
  then obtain un where "parse_uint (if hd s = CHR ''+'' \<or> hd s = CHR ''-'' then tl s else s) = Inr un"
    and n: "hd s = CHR ''-'' \<and> un \<le> 2 ^ 63 \<and> n = - un \<or> hd s \<noteq> CHR ''-'' \<and> un < 2 ^ 63 \<and> n = un"
    by (auto simp: ParseInt_def Let_def split: if_splits sum.splits)
  then have "0 \<le> un"
    by (auto simp: parse_uint_def split: if_splits dest: parse_digits_bound)
  then show ?thesis using n by (auto simp: int64_def)
qed

section \<open>Lists\<close>

lemma find_SomeD: "find P xs = Some x \<Longrightarrow> x \<in> set xs \<and> P x"
  by (auto simp: find_Some_iff)

lemma filter_ConsD: "filter P xs = x # ys \<Longrightarrow> x \<in> set xs \<and> P x"
  by (auto simp: filter_eq_Cons_iff)

lemma distinct_concat_filter:
  "distinct (map f (concat (map g xs))) \<Longrightarrow> distinct (map f (concat (map g (filter P xs))))"
  by (induction xs) auto

section \<open>Stable sorting\<close>

text \<open>
  \<open>sort.SliceStable\<close> with a \<open>less\<close> that is a strict weak order has one possible result: sorted, a
  permutation, and equivalent elements in their original order. Insertion sort computes it.
\<close>

fun insert_by :: "('a \<Rightarrow> 'a \<Rightarrow> bool) \<Rightarrow> 'a \<Rightarrow> 'a list \<Rightarrow> 'a list" where
  "insert_by lt x [] = [x]"
| "insert_by lt x (y # ys) = (if lt y x then y # insert_by lt x ys else x # y # ys)"

fun stable_sort :: "('a \<Rightarrow> 'a \<Rightarrow> bool) \<Rightarrow> 'a list \<Rightarrow> 'a list" where
  "stable_sort lt [] = []"
| "stable_sort lt (x # xs) = insert_by lt x (stable_sort lt xs)"

lemma mset_insert_by [simp]: "mset (insert_by lt x ys) = add_mset x (mset ys)"
  by (induction ys) simp_all

lemma mset_stable_sort [simp]: "mset (stable_sort lt xs) = mset xs"
  by (induction xs) simp_all

lemma set_stable_sort [simp]: "set (stable_sort lt xs) = set xs"
  by (metis mset_stable_sort set_mset_mset)

lemma length_stable_sort [simp]: "length (stable_sort lt xs) = length xs"
  by (metis mset_stable_sort size_mset)

lemma set_insert_by [simp]: "set (insert_by lt x ys) = insert x (set ys)"
  by (induction ys) auto

lemma distinct_map_stable_sort [simp]: "distinct (map f (stable_sort lt xs)) = distinct (map f xs)"
  by (metis mset_stable_sort mset_map mset_eq_imp_distinct_iff)

text \<open>A comparison function of a sort: irreflexive, transitive, and so is incomparability.\<close>

locale strict_weak_order =
  fixes lt :: "'a \<Rightarrow> 'a \<Rightarrow> bool"
  assumes asym: "lt a b \<Longrightarrow> \<not> lt b a"
    and neg_trans: "lt a c \<Longrightarrow> lt a b \<or> lt b c"
begin

lemma less_trans: "lt a b \<Longrightarrow> lt b c \<Longrightarrow> lt a c"
  using asym neg_trans by blast

lemma insert_by_sorted:
  "sorted_wrt (\<lambda>a b. \<not> lt b a) ys \<Longrightarrow> sorted_wrt (\<lambda>a b. \<not> lt b a) (insert_by lt x ys)"
proof (induction ys)
  case (Cons y ys)
  then show ?case
    using asym neg_trans by auto blast
qed simp

lemma stable_sort_sorted: "sorted_wrt (\<lambda>a b. \<not> lt b a) (stable_sort lt xs)"
  by (induction xs) (simp_all add: insert_by_sorted)

text \<open>Two sorted lists with the same elements agree when no two elements are incomparable.\<close>

lemma sorted_unique:
  assumes "mset xs = mset ys"
    and "sorted_wrt (\<lambda>a b. \<not> lt b a) xs" "sorted_wrt (\<lambda>a b. \<not> lt b a) ys"
    and "\<And>a b. a \<in> set xs \<Longrightarrow> b \<in> set xs \<Longrightarrow> \<not> lt a b \<Longrightarrow> \<not> lt b a \<Longrightarrow> a = b"
  shows "xs = ys"
  using assms
proof (induction xs arbitrary: ys)
  case Nil
  then show ?case by simp
next
  case (Cons x xs)
  then obtain y ys' where ys: "ys = y # ys'" by (cases ys) auto
  have "set ys = set (x # xs)" using Cons.prems(1) by (metis set_mset_mset)
  then have xin: "x \<in> set (y # ys')" and yin: "y \<in> set (x # xs)" using ys by auto
  have "x = y"
  proof (rule ccontr)
    assume ne: "x \<noteq> y"
    then have "\<not> lt x y" "\<not> lt y x"
      using Cons.prems(2,3) xin yin ys by auto
    then show False using Cons.prems(4) [of x y] yin ne by simp
  qed
  moreover have "xs = ys'"
    using Cons.IH [of ys'] Cons.prems calculation ys by auto
  ultimately show ?case using ys by simp
qed

lemma stable_sort_perm_invariant:
  assumes "mset xs = mset ys"
    and "\<And>a b. a \<in> set xs \<Longrightarrow> b \<in> set xs \<Longrightarrow> \<not> lt a b \<Longrightarrow> \<not> lt b a \<Longrightarrow> a = b"
  shows "stable_sort lt xs = stable_sort lt ys"
  using assms by (intro sorted_unique) (auto simp: stable_sort_sorted)

end

interpretation string_order: strict_weak_order "(<) :: string \<Rightarrow> string \<Rightarrow> bool"
  by unfold_locales auto

text \<open>\<open>sort.Strings\<close>.\<close>

definition sort_strings :: "string list \<Rightarrow> string list" where
  "sort_strings xs = stable_sort (<) xs"

end
