(* ===== verification/Calendar.thy ===== *)
theory Calendar
  imports Prelude
begin

text \<open>
  The calendar arithmetic of \<open>time.Time\<close> that partition maintenance uses, in UTC: the year and month
  of an instant, \<open>time.Date(y, m, 1, 0, 0, 0, 0, time.UTC)\<close> and \<open>AddDate(0, n, 0)\<close> from the first
  of a month. A month is numbered \<open>12 * year + (month - 1)\<close>. The lemmas show that every instant lies
  in exactly the month computed for it and that months follow each other without gap or overlap.
\<close>

definition day :: duration where "day = 86400 * second"

definition leap :: "int \<Rightarrow> bool" where
  "leap y \<longleftrightarrow> y mod 4 = 0 \<and> (y mod 100 \<noteq> 0 \<or> y mod 400 = 0)"

text \<open>Days from 1970-01-01 to the first of January of year \<open>y\<close>.\<close>

definition year_begin :: "int \<Rightarrow> int" where
  "year_begin y = 365 * (y - 1970) + (y - 1) div 4 - (y - 1) div 100 + (y - 1) div 400 - 477"

definition year_of_day :: "int \<Rightarrow> int" where
  "year_of_day d =
     (let y = 1970 + (400 * d) div 146097
      in if year_begin (y + 1) \<le> d then y + 1
         else if d < year_begin y then y - 1
         else y)"

text \<open>Days from the first of January to the first of a month (0 for January to 11 for December).\<close>

definition month_offset :: "bool \<Rightarrow> int \<Rightarrow> int" where
  "month_offset lp m =
     (if m \<le> 0 then 0 else if m = 1 then 31 else
      (if lp then 1 else 0) +
      (if m = 2 then 59 else if m = 3 then 90 else if m = 4 then 120 else if m = 5 then 151
       else if m = 6 then 181 else if m = 7 then 212 else if m = 8 then 243 else if m = 9 then 273
       else if m = 10 then 304 else if m = 11 then 334 else 365))"

definition month_of_offset :: "bool \<Rightarrow> int \<Rightarrow> int" where
  "month_of_offset lp d =
     (if d < 31 then 0 else
      (let e = d - (if lp then 1 else 0)
       in if e < 59 then 1 else if e < 90 then 2 else if e < 120 then 3 else if e < 151 then 4
          else if e < 181 then 5 else if e < 212 then 6 else if e < 243 then 7 else if e < 273 then 8
          else if e < 304 then 9 else if e < 334 then 10 else 11))"

definition month_begin_day :: "int \<Rightarrow> int" where
  "month_begin_day k = year_begin (k div 12) + month_offset (leap (k div 12)) (k mod 12)"

definition month_of_day :: "int \<Rightarrow> int" where
  "month_of_day d = (let y = year_of_day d in 12 * y + month_of_offset (leap y) (d - year_begin y))"

definition month_begin :: "int \<Rightarrow> instant" where
  "month_begin k = month_begin_day k * day"

definition month_of :: "instant \<Rightarrow> int" where
  "month_of t = month_of_day (t div day)"

lemma div_pred:
  fixes y n :: int
  assumes "0 < n"
  shows "y div n = (y - 1) div n + (if y mod n = 0 then 1 else 0)"
proof (cases "y mod n = 0")
  case True
  then have "n * (y div n) = y" using mult_div_mod_eq [of n y] by simp
  then have "y - 1 = n * (y div n - 1) + (n - 1)" by (simp add: right_diff_distrib)
  then have "(y - 1) div n = y div n - 1"
    using assms int_div_pos_eq [of "y - 1" n "y div n - 1" "n - 1"] by simp
  then show ?thesis using True by simp
next
  case False
  have "0 \<le> y mod n" "y mod n < n" using assms by simp_all
  moreover have "y - 1 = n * (y div n) + (y mod n - 1)" by simp
  ultimately have "(y - 1) div n = y div n"
    using False int_div_pos_eq [of "y - 1" n "y div n" "y mod n - 1"] by linarith
  then show ?thesis using False by simp
qed

lemma leap_count:
  assumes "P100 \<Longrightarrow> P4" "P400 \<Longrightarrow> P100"
  shows "(if P4 then 1 else 0) - (if P100 then 1 else 0) + (if P400 then 1 else 0)
    = (if P4 \<and> (\<not> P100 \<or> P400) then 1 else (0 :: int))"
  using assms by auto

lemma year_begin_Suc: "year_begin (y + 1) = year_begin y + 365 + (if leap y then 1 else 0)"
proof -
  have m: "y mod 100 = 0 \<Longrightarrow> y mod 4 = 0" "y mod 400 = 0 \<Longrightarrow> y mod 100 = 0"
    using dvd_trans [of 4 100 y] dvd_trans [of 100 400 y] by (simp_all add: dvd_eq_mod_eq_0)
  define p q r where "p = (y - 1) div 4" and "q = (y - 1) div 100" and "r = (y - 1) div 400"
  define a b c :: int where "a = (if y mod 4 = 0 then 1 else 0)" and "b = (if y mod 100 = 0 then 1 else 0)"
    and "c = (if y mod 400 = 0 then 1 else 0)"
  have d: "y div 4 = p + a" "y div 100 = q + b" "y div 400 = r + c"
    unfolding p_def q_def r_def a_def b_def c_def by (rule div_pred, simp)+
  have "year_begin (y + 1) = 365 * (y - 1969) + y div 4 - y div 100 + y div 400 - 477"
    by (simp add: year_begin_def)
  moreover have "year_begin y = 365 * (y - 1970) + p - q + r - 477"
    by (simp only: year_begin_def p_def q_def r_def)
  ultimately have "year_begin (y + 1) = year_begin y + 365 + a - b + c"
    unfolding d by simp
  moreover have "a - b + c = (if leap y then 1 else 0)"
    unfolding a_def b_def c_def leap_def using m by (rule leap_count)
  ultimately show ?thesis by simp
qed

lemma year_begin_linear:
  "146097 * (y - 1970) - 506 \<le> 400 * year_begin y" "400 * year_begin y \<le> 146097 * (y - 1970) + 589"
proof -
  define a b c where "a = (y - 1) div 4" and "b = (y - 1) div 100" and "c = (y - 1) div 400"
  have "4 * a \<le> y - 1" "y - 1 \<le> 4 * a + 3" "100 * b \<le> y - 1" "y - 1 \<le> 100 * b + 99"
    "400 * c \<le> y - 1" "y - 1 \<le> 400 * c + 399"
    unfolding a_def b_def c_def by linarith+
  moreover have "year_begin y = 365 * (y - 1970) + a - b + c - 477"
    by (simp add: year_begin_def a_def b_def c_def)
  note bounds = calculation this
  have scaled: "100 * (y - 1) - 300 \<le> 400 * a" "400 * a \<le> 100 * (y - 1)" "4 * (y - 1) - 396 \<le> 400 * b"
    "400 * b \<le> 4 * (y - 1)"
    using bounds(1-4) by simp_all
  have e: "400 * year_begin y = 146000 * (y - 1970) + 400 * a - 400 * b + 400 * c - 190800"
    using bounds(7) by simp
  show "146097 * (y - 1970) - 506 \<le> 400 * year_begin y" unfolding e using scaled bounds(5,6) by simp
  show "400 * year_begin y \<le> 146097 * (y - 1970) + 589" unfolding e using scaled bounds(5,6) by simp
qed

lemma year_of_day_bounds: "year_begin (year_of_day d) \<le> d \<and> d < year_begin (year_of_day d + 1)"
proof -
  define y where "y = 1970 + (400 * d) div 146097"
  define q where "q = (400 * d) div 146097"
  have "146097 * q \<le> 400 * d" "400 * d < 146097 * q + 146097"
    unfolding q_def by linarith+
  then have e: "146097 * (y - 1970) \<le> 400 * d" "400 * d < 146097 * (y - 1969)"
    by (simp_all add: y_def q_def)
  have "400 * year_begin (y - 1) \<le> 400 * d" using year_begin_linear(2) [of "y - 1"] e(1) by simp
  moreover have "400 * d < 400 * year_begin (y + 2)" using year_begin_linear(1) [of "y + 2"] e(2) by simp
  ultimately show ?thesis
    by (simp add: year_of_day_def y_def [symmetric] add.commute)
qed

lemma month_of_offset_bounds:
  assumes "0 \<le> d" "d < 365 + (if lp then 1 else 0)"
  shows "0 \<le> month_of_offset lp d" "month_of_offset lp d \<le> 11"
    "month_offset lp (month_of_offset lp d) \<le> d" "d < month_offset lp (month_of_offset lp d + 1)"
  using assms by (simp_all add: month_of_offset_def month_offset_def Let_def split: if_splits)

lemma month_begin_day_Suc:
  "month_begin_day (12 * y + m + 1) = year_begin y + month_offset (leap y) (m + 1)" if "0 \<le> m" "m \<le> 11"
proof (cases "m = 11")
  case True
  have "(12 * y + m + 1) div 12 = y + 1" "(12 * y + m + 1) mod 12 = 0" using True by presburger+
  then show ?thesis using True
    using year_begin_Suc [of y] by (simp add: month_begin_day_def month_offset_def add.commute)
next
  case False
  then have "(12 * y + m + 1) div 12 = y" "(12 * y + m + 1) mod 12 = m + 1" using that by presburger+
  then show ?thesis by (simp add: month_begin_day_def)
qed

lemma month_of_day_bounds: "month_begin_day (month_of_day d) \<le> d \<and> d < month_begin_day (month_of_day d + 1)"
proof -
  define y where "y = year_of_day d"
  define m where "m = month_of_offset (leap y) (d - year_begin y)"
  have y: "year_begin y \<le> d" "d < year_begin y + 365 + (if leap y then 1 else 0)"
    using year_of_day_bounds [of d] year_begin_Suc by (simp_all add: y_def)
  have m: "0 \<le> m" "m \<le> 11" "month_offset (leap y) m \<le> d - year_begin y"
    "d - year_begin y < month_offset (leap y) (m + 1)"
    using month_of_offset_bounds [of "d - year_begin y" "leap y"] y unfolding m_def by simp_all
  have k: "month_of_day d = 12 * y + m" by (simp add: month_of_day_def Let_def y_def m_def)
  have "(12 * y + m) div 12 = y" "(12 * y + m) mod 12 = m" using m by presburger+
  then have "month_begin_day (12 * y + m) = year_begin y + month_offset (leap y) m"
    by (simp add: month_begin_day_def)
  then show ?thesis using m k month_begin_day_Suc [of m y] by simp
qed

lemma month_begin_day_less: "month_begin_day k < month_begin_day (k + 1)"
proof -
  define y m where "y = k div 12" and "m = k mod 12"
  have k: "k = 12 * y + m" and m: "0 \<le> m" "m \<le> 11" unfolding y_def m_def by presburger+
  have "month_begin_day k = year_begin y + month_offset (leap y) m"
    by (simp add: month_begin_day_def y_def m_def)
  moreover have "month_begin_day (k + 1) = year_begin y + month_offset (leap y) (m + 1)"
    unfolding k using month_begin_day_Suc m by simp
  moreover have "month_offset (leap y) m < month_offset (leap y) (m + 1)"
  proof -
    have "m = 0 \<or> m = 1 \<or> m = 2 \<or> m = 3 \<or> m = 4 \<or> m = 5 \<or> m = 6 \<or> m = 7 \<or> m = 8 \<or> m = 9
        \<or> m = 10 \<or> m = 11"
      using m by presburger
    then show ?thesis by (elim disjE) (simp_all add: month_offset_def)
  qed
  ultimately show ?thesis by simp
qed

lemma month_begin_less: "month_begin k < month_begin (k + 1)"
  using month_begin_day_less [of k] by (simp add: month_begin_def day_def second_def)

lemma month_begin_mono: "k \<le> l \<Longrightarrow> month_begin k \<le> month_begin l"
proof (induction "nat (l - k)" arbitrary: l)
  case 0
  then show ?case by simp
next
  case (Suc n)
  then have "month_begin k \<le> month_begin (l - 1)" by simp
  also have "\<dots> < month_begin l" using month_begin_less [of "l - 1"] by simp
  finally show ?case by simp
qed

lemma month_of_bounds: "month_begin (month_of t) \<le> t \<and> t < month_begin (month_of t + 1)"
proof -
  have d: "t div day * day \<le> t" "t < (t div day + 1) * day"
    by (simp_all add: day_def second_def)
  have "month_begin_day (month_of t) * day \<le> t div day * day"
    using month_of_day_bounds [of "t div day"] by (simp add: month_of_def day_def second_def)
  moreover have "(t div day + 1) * day \<le> month_begin_day (month_of t + 1) * day"
    using month_of_day_bounds [of "t div day"] by (simp add: month_of_def day_def second_def)
  ultimately show ?thesis using d by (simp add: month_begin_def)
qed

lemma month_of_unique: "month_begin k \<le> t \<Longrightarrow> t < month_begin (k + 1) \<Longrightarrow> month_of t = k"
proof -
  assume a: "month_begin k \<le> t" "t < month_begin (k + 1)"
  have "\<not> month_of t < k" using month_of_bounds [of t] month_begin_mono [of "month_of t + 1" k] a by auto
  moreover have "\<not> k < month_of t" using month_of_bounds [of t] month_begin_mono [of "k + 1" "month_of t"] a by auto
  ultimately show ?thesis by simp
qed

end
