(* ===== verification/Db.thy ===== *)
theory Db
  imports Calendar
begin

text \<open>
  The database the server runs against (schema in \<open>internal/db/migrations\<close>) and partition maintenance
  (\<open>internal/db/partitions.go\<close>).

  The database is a record of tables. What PostgreSQL and PostGIS compute that the sources do not
  define (uuid input, the geography functions, \<open>lower\<close>) is a record \<open>pg\<close> of functions, an argument of
  the statements that use them. A statement is a function from the database to an error or a result
  and the new database. Statements are run by \<open>run\<close>, which consults the fault schedule: a statement is
  executed, is lost before execution, or is executed and its reply is lost. The schedule is data, so
  every theorem about a sequence of statements holds for every placement of failures.

  Instants are stored in microseconds (\<open>timestamptz\<close>), so an argument is rounded down by \<open>pg_time\<close>.
  Statements of other connections between two statements of a request are not part of the model.
\<close>

section \<open>The schema\<close>

type_synonym uuid = string

datatype pgerr = PgError (pg_code: string) (pg_message: string) | DriverError string

datatype fault = Clean | Lost pgerr | Unacked pgerr

record family_row =
  fam_id :: uuid
  fam_name :: string

record device_row =
  dev_id :: uuid
  dev_family :: uuid
  dev_name :: string
  dev_hash :: string
  dev_expires :: "instant option"

record viewer_row =
  vw_id :: uuid
  vw_family :: uuid
  vw_email :: string
  vw_display :: string
  vw_hash :: string
  vw_expires :: "instant option"

record fix_row =
  fx_device :: uuid
  fx_ts :: instant
  fx_lon :: float64
  fx_lat :: float64
  fx_accuracy :: "float64 option"
  fx_battery :: "int option"
  fx_speed :: "float64 option"
  fx_trigger :: "string option"
  fx_msg :: "string option"
  fx_received :: instant

text \<open>
  The bound of a partition in the catalog: \<open>DEFAULT\<close>, or a range from a lower bound (\<open>None\<close> for
  \<open>MINVALUE\<close>) to an upper bound (\<open>None\<close> for \<open>MAXVALUE\<close>).
\<close>

datatype pbound = Default | Range "instant option" "instant option"

record partition =
  pt_name :: string
  pt_bound :: pbound
  pt_rows :: "fix_row list"

record geofence_row =
  gf_id :: uuid
  gf_family :: uuid
  gf_name :: string
  gf_area :: string

record event_row =
  ev_id :: uuid
  ev_device :: uuid
  ev_geofence :: uuid
  ev_enter :: bool
  ev_fix_ts :: instant
  ev_created :: instant

record sub_row =
  sb_id :: uuid
  sb_viewer :: uuid
  sb_provider :: string
  sb_token :: string
  sb_created :: instant

record db =
  families :: "family_row list"
  devices :: "device_row list"
  viewers :: "viewer_row list"
  partitions :: "partition list"
  relations :: "string list"
  geofences :: "geofence_row list"
  events :: "event_row list"
  subs :: "sub_row list"
  clock :: int
  uuids :: "nat \<Rightarrow> uuid"
  drawn :: nat
  faults :: "fault list"

type_synonym 'a stmt = "db \<Rightarrow> (pgerr + 'a) \<times> db"

text \<open>What the server relies on from PostgreSQL and PostGIS.\<close>

record pg =
  uuid_in :: "string \<Rightarrow> uuid option"
  pg_lower :: "string \<Rightarrow> string"
  pg_collate :: "string \<Rightarrow> string \<Rightarrow> bool"
  geog_point :: "float64 \<Rightarrow> float64 \<Rightarrow> float64 \<times> float64"
  geog_valid :: "string \<Rightarrow> bool option"
  st_covers :: "string \<Rightarrow> float64 \<times> float64 \<Rightarrow> bool"
  st_distance :: "float64 \<times> float64 \<Rightarrow> float64 \<times> float64 \<Rightarrow> float64"
  st_dwithin :: "float64 \<times> float64 \<Rightarrow> float64 \<times> float64 \<Rightarrow> float64 \<Rightarrow> bool"
  st_asgeojson :: "string \<Rightarrow> string"

section \<open>Running statements\<close>

definition run :: "'a stmt \<Rightarrow> 'a stmt" where
  "run f d =
     (case faults d of
        [] \<Rightarrow> f d
      | Clean # fs \<Rightarrow> f (d\<lparr>faults := fs\<rparr>)
      | Lost e # fs \<Rightarrow> (Inl e, d\<lparr>faults := fs\<rparr>)
      | Unacked e # fs \<Rightarrow> (Inl e, snd (f (d\<lparr>faults := fs\<rparr>))))"

definition now :: "db \<Rightarrow> instant" where "now d = clock d * 1000"

text \<open>The value a \<open>time.Time\<close> argument has as a \<open>timestamptz\<close>.\<close>

definition pg_time :: "instant \<Rightarrow> instant" where "pg_time t = t div 1000 * 1000"

definition gen_random_uuid :: "db \<Rightarrow> uuid \<times> db" where
  "gen_random_uuid d = (uuids d (drawn d), d\<lparr>drawn := Suc (drawn d)\<rparr>)"

text \<open>\<open>length(trim(s)) > 0\<close>: \<open>trim\<close> removes spaces only. A \<open>text\<close> value holds no NUL byte.\<close>

definition pg_blank :: "string \<Rightarrow> bool" where "pg_blank s \<longleftrightarrow> (\<forall>c \<in> set s. c = CHR '' '')"
definition pg_text :: "string \<Rightarrow> bool" where "pg_text s \<longleftrightarrow> CHR 0x00 \<notin> set s"

text \<open>
  What holds of a statement of a transactional database: a statement that reports an error changes
  nothing, and no statement touches the fault schedule. Both carry over to what the caller observes
  of \<open>run\<close>, except that a lost reply is an error of a statement that was executed.
\<close>

lemma faults_self [simp]: "d\<lparr>faults := faults d\<rparr> = d"
  by simp

locale statement =
  fixes f :: "'a stmt"
  assumes atomic: "f d = (Inl e, d') \<Longrightarrow> d' = d"
    and keeps_faults: "faults (snd (f d)) = faults d"
begin

lemma run_faults: "faults (snd (run f d)) = tl (faults d)"
  by (auto simp: run_def keeps_faults split: list.splits fault.splits)

lemma run_okE:
  assumes "run f d = (Inr x, d')"
  obtains fs where "f (d\<lparr>faults := fs\<rparr>) = (Inr x, d')"
proof -
  have "f d = (Inr x, d') \<or> (\<exists>fs. f (d\<lparr>faults := fs\<rparr>) = (Inr x, d'))"
    using assms by (auto simp: run_def split: list.splits fault.splits)
  then show ?thesis using that [of "faults d"] that by auto
qed

text \<open>An error leaves the tables as they were, or as the statement left them and the reply was lost.\<close>

lemma run_errorE:
  assumes "run f d = (Inl e, d')"
  obtains (untouched) fs where "d' = d\<lparr>faults := fs\<rparr>"
    | (unacked) fs x where "f (d\<lparr>faults := fs\<rparr>) = (Inr x, d')"
proof -
  have step: thesis if f: "f (d\<lparr>faults := gs\<rparr>) = (r, d')" for gs r
  proof (cases r)
    case (Inl a)
    then show thesis using atomic [of "d\<lparr>faults := gs\<rparr>" a d'] f untouched by blast
  next
    case (Inr x)
    then show thesis using unacked f by blast
  qed
  show thesis
  proof (cases "faults d")
    case Nil
    then have "f d = (Inl e, d')" using assms by (simp add: run_def)
    then show thesis using step [of "faults d" "Inl e"] by (simp only: faults_self)
  next
    case (Cons x fs)
    obtain r d1 where r: "f (d\<lparr>faults := fs\<rparr>) = (r, d1)" by fastforce
    show thesis
    proof (cases x)
      case Clean
      then show thesis using assms Cons step [of fs "Inl e"] by (simp add: run_def)
    next
      case (Lost e')
      then show thesis using assms Cons untouched [of fs] by (simp add: run_def)
    next
      case (Unacked e')
      then show thesis using assms Cons r step [of fs r] by (simp add: run_def)
    qed
  qed
qed

text \<open>
  A relation between the tables before and after that holds when nothing happened, and when the
  statement succeeded, holds whatever the schedule did.
\<close>

lemma run_rel:
  assumes "\<And>fs. R d (d\<lparr>faults := fs\<rparr>)"
    and "\<And>fs x d'. f (d\<lparr>faults := fs\<rparr>) = (Inr x, d') \<Longrightarrow> R d d'"
  shows "R d (snd (run f d))"
proof (cases "run f d")
  case (Pair a b)
  then show ?thesis
    using assms by (cases a) (auto elim!: run_okE run_errorE)
qed

lemma run_no_faults: "faults d = [] \<Longrightarrow> run f d = f d"
  by (simp add: run_def)

end

section \<open>Partitions of \<open>fixes\<close>\<close>

fun in_bound :: "pbound \<Rightarrow> instant \<Rightarrow> bool" where
  "in_bound Default t = False"
| "in_bound (Range lo hi) t =
     ((case lo of None \<Rightarrow> True | Some l \<Rightarrow> l \<le> t) \<and> (case hi of None \<Rightarrow> True | Some h \<Rightarrow> t < h))"

fun overlaps :: "pbound \<Rightarrow> pbound \<Rightarrow> bool" where
  "overlaps (Range lo hi) (Range lo' hi') =
     ((case (lo, hi') of (Some l, Some h') \<Rightarrow> l < h' | _ \<Rightarrow> True)
      \<and> (case (lo', hi) of (Some l', Some h) \<Rightarrow> l' < h | _ \<Rightarrow> True))"
| "overlaps _ _ = False"

text \<open>
  The two readings of a bound from \<open>pg_get_expr(relpartbound)\<close>: the regular expression of
  \<open>EnsureMonthlyPartition\<close> needs both bounds as quoted literals, the one of \<open>DropPartitionsBefore\<close> only
  the upper one.
\<close>

fun readable_range :: "pbound \<Rightarrow> (instant \<times> instant) option" where
  "readable_range (Range (Some l) (Some h)) = Some (l, h)"
| "readable_range _ = None"

fun readable_upper :: "pbound \<Rightarrow> instant option" where
  "readable_upper (Range _ (Some h)) = Some h"
| "readable_upper _ = None"

definition route :: "db \<Rightarrow> instant \<Rightarrow> partition option" where
  "route d t =
     (case find (\<lambda>p. in_bound (pt_bound p) t) (partitions d) of
        Some p \<Rightarrow> Some p
      | None \<Rightarrow> find (\<lambda>p. pt_bound p = Default) (partitions d))"

definition all_fixes :: "db \<Rightarrow> fix_row list" where
  "all_fixes d = concat (map pt_rows (partitions d))"

definition relation_exists :: "db \<Rightarrow> string \<Rightarrow> bool" where
  "relation_exists d n \<longleftrightarrow> n \<in> set (relations d) \<or> n \<in> pt_name ` set (partitions d)"

text \<open>
  \<open>CREATE TABLE IF NOT EXISTS name PARTITION OF fixes FOR VALUES FROM (lo) TO (hi)\<close>: nothing when a
  relation of that name exists, an error when the range overlaps another partition or when a default
  partition holds rows of the range.
\<close>

definition create_partition_sql :: "string \<Rightarrow> instant \<Rightarrow> instant \<Rightarrow> unit stmt" where
  "create_partition_sql name lo hi d =
     (if relation_exists d name then (Inr (), d)
      else if \<exists>p \<in> set (partitions d). overlaps (pt_bound p) (Range (Some lo) (Some hi))
        then (Inl (PgError ''42P17'' (''partition \"'' @ name @ ''\" would overlap'')), d)
      else if \<exists>p \<in> set (partitions d). pt_bound p = Default \<and> (\<exists>r \<in> set (pt_rows p). lo \<le> fx_ts r \<and> fx_ts r < hi)
        then (Inl (PgError ''23514'' ''updated partition constraint for default partition would be violated''), d)
      else (Inr (), d\<lparr>partitions := partitions d @ [\<lparr>pt_name = name, pt_bound = Range (Some lo) (Some hi), pt_rows = []\<rparr>]\<rparr>))"

text \<open>The bounds of the relation of that name in the catalog; no row when there is none.\<close>

definition partition_bounds_sql :: "string \<Rightarrow> ((instant \<times> instant) option) stmt" where
  "partition_bounds_sql name d =
     (case find (\<lambda>p. pt_name p = name) (partitions d) of
        Some p \<Rightarrow> (Inr (readable_range (pt_bound p)), d)
      | None \<Rightarrow> if name \<in> set (relations d) then (Inr None, d)
                 else (Inl (DriverError ''no rows in result set''), d))"

text \<open>The children of \<open>fixes\<close> by name (the catalog's \<open>name\<close> type compares bytes), with upper bounds.\<close>

definition list_partitions_sql :: "((string \<times> instant option) list) stmt" where
  "list_partitions_sql d =
     (Inr (stable_sort (\<lambda>a b. fst a < fst b) (map (\<lambda>p. (pt_name p, readable_upper (pt_bound p))) (partitions d))), d)"

definition drop_table_sql :: "string \<Rightarrow> unit stmt" where
  "drop_table_sql name d =
     (if name \<in> pt_name ` set (partitions d)
      then (Inr (), d\<lparr>partitions := filter (\<lambda>p. pt_name p \<noteq> name) (partitions d)\<rparr>)
      else (Inl (PgError ''42P01'' (''table \"'' @ name @ ''\" does not exist'')), d))"

interpretation create_partition: statement "create_partition_sql name lo hi" for name lo hi
  by unfold_locales (auto simp: create_partition_sql_def split: if_splits)

interpretation partition_bounds: statement "partition_bounds_sql name" for name
  by unfold_locales (auto simp: partition_bounds_sql_def split: if_splits option.splits)

interpretation list_partitions: statement list_partitions_sql
  by unfold_locales (auto simp: list_partitions_sql_def)

interpretation drop_table: statement "drop_table_sql name" for name
  by unfold_locales (auto simp: drop_table_sql_def split: if_splits)

subsection \<open>The helpers of \<open>partitions.go\<close>\<close>

text \<open>
  Errors of the helpers. The sentence around a wrapped error is dropped: callers look at the chain
  (\<open>errors.Is\<close>, \<open>errors.As\<close>) only.
\<close>

datatype db_error = ErrUnrecognizedPartition string | MonthsTooSmall int | DbWrapped pgerr

definition FixesTable :: string where "FixesTable = ''fixes''"

definition monthStart :: "instant \<Rightarrow> instant" where
  "monthStart t = month_begin (month_of t)"

text \<open>\<open>time.Time.AddDate(0, n, 0)\<close> applied to the first instant of a month.\<close>

definition AddMonths :: "instant \<Rightarrow> int \<Rightarrow> instant" where
  "AddMonths t n = month_begin (month_of t + n)"

text \<open>The format verb for an integer padded with zeros to a width, the sign counted.\<close>

definition pad_int :: "nat \<Rightarrow> int \<Rightarrow> string" where
  "pad_int w n =
     (let s = show_nat (nat \<bar>n\<bar>);
          k = w - length s - (if n < 0 then 1 else 0)
      in (if n < 0 then ''-'' else []) @ replicate k (CHR ''0'') @ s)"

definition partitionName :: "instant \<Rightarrow> string" where
  "partitionName start =
     FixesTable @ ''_'' @ pad_int 4 (month_of start div 12) @ ''_'' @ pad_int 2 (month_of start mod 12 + 1)"

definition EnsureMonthlyPartition :: "instant \<Rightarrow> db \<Rightarrow> (db_error + string) \<times> db" where
  "EnsureMonthlyPartition month d =
     (let start = monthStart month;
          end = AddMonths start 1;
          name = partitionName start
      in case run (create_partition_sql name start end) d of
           (Inl e, d1) \<Rightarrow> (Inl (DbWrapped e), d1)
         | (Inr _, d1) \<Rightarrow>
             (case run (partition_bounds_sql name) d1 of
                (Inl e, d2) \<Rightarrow> (Inl (DbWrapped e), d2)
              | (Inr None, d2) \<Rightarrow> (Inl (ErrUnrecognizedPartition name), d2)
              | (Inr (Some (lower, upper)), d2) \<Rightarrow>
                  (if lower \<noteq> start \<or> upper \<noteq> end then (Inl (ErrUnrecognizedPartition name), d2)
                   else (Inr name, d2))))"

fun ensure_months :: "instant \<Rightarrow> int \<Rightarrow> nat \<Rightarrow> db \<Rightarrow> (db_error + string list) \<times> db" where
  "ensure_months start i 0 d = (Inr [], d)"
| "ensure_months start i (Suc n) d =
     (case EnsureMonthlyPartition (AddMonths start i) d of
        (Inl e, d1) \<Rightarrow> (Inl e, d1)
      | (Inr name, d1) \<Rightarrow>
          (case ensure_months start (i + 1) n d1 of
             (Inl e, d2) \<Rightarrow> (Inl e, d2)
           | (Inr names, d2) \<Rightarrow> (Inr (name # names), d2)))"

definition EnsurePartitions :: "instant \<Rightarrow> int \<Rightarrow> db \<Rightarrow> (db_error + string list) \<times> db" where
  "EnsurePartitions from months d =
     (if months < 1 then (Inl (MonthsTooSmall months), d)
      else ensure_months (monthStart from) 0 (nat months) d)"

text \<open>
  The drop loop. Both halves of the Go result are kept: the names dropped so far are returned
  together with the error that stopped the loop.
\<close>

fun drop_loop :: "instant \<Rightarrow> (string \<times> instant option) list \<Rightarrow> db \<Rightarrow> (string list \<times> db_error option) \<times> db" where
  "drop_loop cutoff [] d = (([], None), d)"
| "drop_loop cutoff ((name, upper) # cs) d =
     (case upper of
        None \<Rightarrow> (([], Some (ErrUnrecognizedPartition name)), d)
      | Some u \<Rightarrow>
          (if cutoff < u then drop_loop cutoff cs d
           else case run (drop_table_sql name) d of
                  (Inl e, d1) \<Rightarrow> (([], Some (DbWrapped e)), d1)
                | (Inr _, d1) \<Rightarrow>
                    (case drop_loop cutoff cs d1 of
                       ((dropped, err), d2) \<Rightarrow> ((name # dropped, err), d2))))"

definition DropPartitionsBefore :: "instant \<Rightarrow> db \<Rightarrow> (string list \<times> db_error option) \<times> db" where
  "DropPartitionsBefore cutoff d =
     (case run list_partitions_sql d of
        (Inl e, d1) \<Rightarrow> (([], Some (DbWrapped e)), d1)
      | (Inr children, d1) \<Rightarrow> drop_loop cutoff children d1)"

section \<open>Well-formed partitions\<close>

text \<open>
  What PostgreSQL maintains of a partitioned table: distinct names, ranges that do not overlap, at
  most one default partition, every row in the partition its timestamp is routed to, and
  \<open>(device_id, ts)\<close> unique.
\<close>

definition fix_key :: "fix_row \<Rightarrow> uuid \<times> instant" where "fix_key r = (fx_device r, fx_ts r)"

definition row_home :: "db \<Rightarrow> partition \<Rightarrow> fix_row \<Rightarrow> bool" where
  "row_home d p r \<longleftrightarrow> in_bound (pt_bound p) (fx_ts r)
     \<or> pt_bound p = Default \<and> (\<forall>q \<in> set (partitions d). \<not> in_bound (pt_bound q) (fx_ts r))"

definition parts_ok :: "db \<Rightarrow> bool" where
  "parts_ok d \<longleftrightarrow>
     distinct (map pt_name (partitions d))
     \<and> set (relations d) \<inter> pt_name ` set (partitions d) = {}
     \<and> (\<forall>p \<in> set (partitions d). \<forall>q \<in> set (partitions d).
          p \<noteq> q \<longrightarrow> \<not> overlaps (pt_bound p) (pt_bound q) \<and> \<not> (pt_bound p = Default \<and> pt_bound q = Default))
     \<and> (\<forall>p \<in> set (partitions d). \<forall>r \<in> set (pt_rows p). row_home d p r)
     \<and> distinct (map fix_key (all_fixes d))"

lemma parts_okD:
  assumes "parts_ok d"
  shows "distinct (map pt_name (partitions d))"
    "p \<in> set (partitions d) \<Longrightarrow> q \<in> set (partitions d) \<Longrightarrow> p \<noteq> q \<Longrightarrow> \<not> overlaps (pt_bound p) (pt_bound q)"
    "p \<in> set (partitions d) \<Longrightarrow> r \<in> set (pt_rows p) \<Longrightarrow> row_home d p r"
    "distinct (map fix_key (all_fixes d))"
    "set (relations d) \<inter> pt_name ` set (partitions d) = {}"
    "p \<in> set (partitions d) \<Longrightarrow> q \<in> set (partitions d) \<Longrightarrow> pt_bound p = Default \<Longrightarrow> pt_bound q = Default \<Longrightarrow> p = q"
  using assms by (auto simp: parts_ok_def)

lemma in_both_overlaps: "in_bound b t \<Longrightarrow> in_bound c t \<Longrightarrow> overlaps b c"
  by (cases b; cases c) (auto split: option.splits)

lemma in_bound_not_default: "in_bound b t \<Longrightarrow> b \<noteq> Default"
  by auto

lemma readable_upper_bound: "readable_upper b = Some u \<Longrightarrow> in_bound b t \<Longrightarrow> t < u"
  by (cases b rule: readable_upper.cases) auto

lemma readable_range_bound: "readable_range b = Some (l, h) \<Longrightarrow> b = Range (Some l) (Some h)"
  by (cases b rule: readable_range.cases) auto

lemma route_Some_iff_covered:
  "parts_ok d \<Longrightarrow> p \<in> set (partitions d) \<Longrightarrow> in_bound (pt_bound p) t \<Longrightarrow> route d t = Some p"
proof -
  assume a: "parts_ok d" "p \<in> set (partitions d)" "in_bound (pt_bound p) t"
  then obtain q where q: "find (\<lambda>p. in_bound (pt_bound p) t) (partitions d) = Some q"
    using find_None_iff [of "\<lambda>p. in_bound (pt_bound p) t" "partitions d"] by (cases "find (\<lambda>p. in_bound (pt_bound p) t) (partitions d)") auto
  then have "q \<in> set (partitions d)" "in_bound (pt_bound q) t"
    by (auto simp: find_Some_iff)
  then have "q = p" using parts_okD(2) [of d q p] a in_both_overlaps by blast
  then show ?thesis using q by (simp add: route_def)
qed

lemma set_all_fixes: "set (all_fixes d) = (\<Union>p \<in> set (partitions d). set (pt_rows p))"
  by (simp add: all_fixes_def)

lemma all_fixes_faults [simp]: "all_fixes (d\<lparr>faults := fs\<rparr>) = all_fixes d"
  by (simp add: all_fixes_def)

lemma parts_ok_faults [simp]: "parts_ok (d\<lparr>faults := fs\<rparr>) = parts_ok d"
  by (simp add: parts_ok_def all_fixes_def row_home_def)

text \<open>Only the partitions and relation names matter.\<close>

lemma parts_ok_cong: "partitions d = partitions d' \<Longrightarrow> relations d = relations d' \<Longrightarrow> parts_ok d = parts_ok d'"
  by (simp add: parts_ok_def all_fixes_def row_home_def)

lemma overlaps_sym: "overlaps b c = overlaps c b"
  by (cases b; cases c) auto

lemma create_partition_ok:
  assumes "parts_ok d" "create_partition_sql name lo hi d = (Inr (), d')"
  shows "parts_ok d'" "all_fixes d' = all_fixes d"
proof -
  have same: "d' = d \<or> (\<not> relation_exists d name
    \<and> (\<forall>p \<in> set (partitions d). \<not> overlaps (pt_bound p) (Range (Some lo) (Some hi)))
    \<and> (\<forall>p \<in> set (partitions d). pt_bound p = Default \<longrightarrow> (\<forall>r \<in> set (pt_rows p). \<not> (lo \<le> fx_ts r \<and> fx_ts r < hi)))
    \<and> d' = d\<lparr>partitions := partitions d @ [\<lparr>pt_name = name, pt_bound = Range (Some lo) (Some hi), pt_rows = []\<rparr>]\<rparr>)"
    using assms(2) by (auto simp: create_partition_sql_def split: if_splits)
  then show "all_fixes d' = all_fixes d" by (auto simp: all_fixes_def)
  from same show "parts_ok d'"
  proof (elim disjE conjE)
    assume "d' = d"
    then show ?thesis using assms(1) by simp
  next
    assume n: "\<not> relation_exists d name"
      and o: "\<forall>p \<in> set (partitions d). \<not> overlaps (pt_bound p) (Range (Some lo) (Some hi))"
      and r: "\<forall>p \<in> set (partitions d). pt_bound p = Default \<longrightarrow> (\<forall>r \<in> set (pt_rows p). \<not> (lo \<le> fx_ts r \<and> fx_ts r < hi))"
      and d': "d' = d\<lparr>partitions := partitions d @ [\<lparr>pt_name = name, pt_bound = Range (Some lo) (Some hi), pt_rows = []\<rparr>]\<rparr>"
    have "row_home d' p x" if "p \<in> set (partitions d)" "x \<in> set (pt_rows p)" for p x
      using parts_okD(3) [OF assms(1) that] r that by (auto simp: row_home_def d')
    then show ?thesis
      using assms(1) n o by (auto simp: parts_ok_def d' relation_exists_def all_fixes_def overlaps_sym)
  qed
qed

lemma drop_table_ok:
  assumes "parts_ok d" "drop_table_sql name d = (Inr (), d')"
  shows "parts_ok d'"
proof -
  have d': "d' = d\<lparr>partitions := filter (\<lambda>p. pt_name p \<noteq> name) (partitions d)\<rparr>"
    using assms(2) by (auto simp: drop_table_sql_def split: if_splits)
  have "distinct (map fix_key (all_fixes d'))"
    using parts_okD(4) [OF assms(1)] by (simp add: d' all_fixes_def distinct_concat_filter)
  moreover have "row_home d' p r" if "p \<in> set (partitions d')" "r \<in> set (pt_rows p)" for p r
    using parts_okD(3) [OF assms(1), of p r] that unfolding row_home_def d' by auto
  ultimately show ?thesis
    using assms(1) unfolding parts_ok_def by (simp add: d' distinct_map_filter) blast
qed

section \<open>Provisioning\<close>

lemma monthStart_bounds: "monthStart t \<le> t" "t < AddMonths (monthStart t) 1"
proof -
  have "month_of (monthStart t) = month_of t"
    unfolding monthStart_def by (rule month_of_unique) (simp_all add: month_begin_less)
  then show "t < AddMonths (monthStart t) 1"
    using month_of_bounds [of t] by (simp add: AddMonths_def)
  show "monthStart t \<le> t" using month_of_bounds [of t] by (simp add: monthStart_def)
qed

lemma month_of_begin [simp]: "month_of (month_begin k) = k"
  by (rule month_of_unique) (simp_all add: month_begin_less)

lemma ensure_caseE:
  assumes "(case x of (Inl e, d1) \<Rightarrow> (Inl (f e), d1)
      | (Inr _, d1) \<Rightarrow> (case g d1 of (Inl e, d2) \<Rightarrow> (Inl (f e), d2) | (Inr None, d2) \<Rightarrow> (Inl n, d2)
         | (Inr (Some (l, u)), d2) \<Rightarrow> k l u d2)) = r"
  obtains (create) e d1 where "x = (Inl e, d1)" "r = (Inl (f e), d1)"
    | (query) u d1 e d2 where "x = (Inr u, d1)" "g d1 = (Inl e, d2)" "r = (Inl (f e), d2)"
    | (unreadable) u d1 d2 where "x = (Inr u, d1)" "g d1 = (Inr None, d2)" "r = (Inl n, d2)"
    | (bounds) v d1 l u d2 where "x = (Inr v, d1)" "g d1 = (Inr (Some (l, u)), d2)" "r = k l u d2"
proof (cases x)
  case (Pair a d1)
  show ?thesis
  proof (cases a)
    case (Inl e)
    then show ?thesis using assms Pair create by simp
  next
    case (Inr v)
    obtain b d2 where g: "g d1 = (b, d2)" by fastforce
    show ?thesis
      using assms Pair Inr g query unreadable bounds
      by (cases b; cases "projr b") (auto split: option.splits)
  qed
qed

lemma EnsureMonthlyPartition_success:
  assumes "EnsureMonthlyPartition month d = (Inr name, d')"
  shows "\<exists>p \<in> set (partitions d'). pt_name p = name
    \<and> pt_bound p = Range (Some (monthStart month)) (Some (AddMonths (monthStart month) 1))"
    "name = partitionName (monthStart month)"
proof -
  obtain d1 where r: "run (partition_bounds_sql (partitionName (monthStart month))) d1
      = (Inr (Some (monthStart month, AddMonths (monthStart month) 1)), d')"
    and n: "name = partitionName (monthStart month)"
    using assms unfolding EnsureMonthlyPartition_def Let_def
    by (elim ensure_caseE) (auto split: if_splits)
  obtain fs where "partition_bounds_sql name (d1\<lparr>faults := fs\<rparr>)
      = (Inr (Some (monthStart month, AddMonths (monthStart month) 1)), d')"
    using r n by (auto elim: partition_bounds.run_okE)
  then obtain p where f: "find (\<lambda>p. pt_name p = name) (partitions d1) = Some p"
    and b: "readable_range (pt_bound p) = Some (monthStart month, AddMonths (monthStart month) 1)"
    and d': "d1\<lparr>faults := fs\<rparr> = d'"
    by (auto simp: partition_bounds_sql_def split: option.splits if_splits)
  moreover have "partitions d1 = partitions d'" by (subst d' [symmetric]) simp
  ultimately show "\<exists>p \<in> set (partitions d'). pt_name p = name
      \<and> pt_bound p = Range (Some (monthStart month)) (Some (AddMonths (monthStart month) 1))"
    using find_SomeD [OF f] readable_range_bound [OF b] by auto
  show "name = partitionName (monthStart month)" by (rule n)
qed

text \<open>What one statement of partition maintenance may do to the catalog.\<close>

definition extends_parts :: "db \<Rightarrow> db \<Rightarrow> bool" where
  "extends_parts d d' \<longleftrightarrow> (parts_ok d \<longrightarrow> parts_ok d') \<and> all_fixes d' = all_fixes d
     \<and> (\<exists>ps. partitions d' = partitions d @ ps)
     \<and> d'\<lparr>partitions := [], faults := []\<rparr> = d\<lparr>partitions := [], faults := []\<rparr>"

lemma extends_parts_refl: "extends_parts d (d\<lparr>faults := fs\<rparr>)"
  by (simp add: extends_parts_def)

lemma extends_parts_trans: "extends_parts d d1 \<Longrightarrow> extends_parts d1 d2 \<Longrightarrow> extends_parts d d2"
  by (auto simp: extends_parts_def)

lemma create_partition_extends: "extends_parts d (snd (run (create_partition_sql name lo hi) d))"
proof (rule create_partition.run_rel)
  show "extends_parts d (d\<lparr>faults := fs\<rparr>)" for fs by (rule extends_parts_refl)
  fix fs d' and x :: unit
  assume c: "create_partition_sql name lo hi (d\<lparr>faults := fs\<rparr>) = (Inr x, d')"
  then have "\<exists>ps. partitions d' = partitions d @ ps"
    "d'\<lparr>partitions := [], faults := []\<rparr> = d\<lparr>partitions := [], faults := []\<rparr>"
    by (auto simp: create_partition_sql_def split: if_splits)
  then show "extends_parts d d'"
    using create_partition_ok [of "d\<lparr>faults := fs\<rparr>" name lo hi d'] c
    by (auto simp: extends_parts_def all_fixes_def create_partition_sql_def split: if_splits)
qed

lemma partition_bounds_extends: "extends_parts d (snd (run (partition_bounds_sql name) d))"
  by (rule partition_bounds.run_rel)
    (auto simp: extends_parts_refl partition_bounds_sql_def split: option.splits if_splits)

lemma EnsureMonthlyPartition_extends: "extends_parts d (snd (EnsureMonthlyPartition month d))"
proof -
  define n lo hi where "n = partitionName (monthStart month)" and "lo = monthStart month"
    and "hi = AddMonths (monthStart month) 1"
  define d1 where "d1 = snd (run (create_partition_sql n lo hi) d)"
  define r where "r = EnsureMonthlyPartition month d"
  have "snd r \<in> {d1, snd (run (partition_bounds_sql n) d1)}"
    using r_def [symmetric]
    unfolding EnsureMonthlyPartition_def Let_def
    by (elim ensure_caseE) (simp_all add: d1_def n_def hi_def lo_def split: if_splits)
  moreover have "extends_parts d d1" unfolding d1_def by (rule create_partition_extends)
  ultimately show ?thesis
    using partition_bounds_extends [of d1 n] extends_parts_trans [of d d1] unfolding r_def by auto
qed

lemma run_clean: "faults d = [] \<Longrightarrow> run f d = f d"
  by (simp add: run_def)

text \<open>When a month can be provisioned, and that provisioning it then succeeds and is idempotent.\<close>

definition month_provisioned :: "db \<Rightarrow> instant \<Rightarrow> bool" where
  "month_provisioned d start \<longleftrightarrow>
     (case find (\<lambda>p. pt_name p = partitionName start) (partitions d) of
        None \<Rightarrow> False
      | Some p \<Rightarrow> pt_bound p = Range (Some start) (Some (AddMonths start 1)))"

definition month_free :: "db \<Rightarrow> instant \<Rightarrow> bool" where
  "month_free d start \<longleftrightarrow>
     \<not> relation_exists d (partitionName start)
     \<and> (\<forall>p \<in> set (partitions d). \<not> overlaps (pt_bound p) (Range (Some start) (Some (AddMonths start 1))))
     \<and> (\<forall>p \<in> set (partitions d). pt_bound p = Default \<longrightarrow>
          (\<forall>r \<in> set (pt_rows p). \<not> (start \<le> fx_ts r \<and> fx_ts r < AddMonths start 1)))"

lemma find_name_Some:
  "find (\<lambda>p. pt_name p = n) ps = None \<longleftrightarrow> n \<notin> pt_name ` set ps"
  by (auto simp: find_None_iff)

lemma find_append_None: "find P xs = None \<Longrightarrow> find P (xs @ ys) = find P ys"
  by (induction xs) (auto split: if_splits)

lemma readable_range_iff: "readable_range b = Some (l, h) \<longleftrightarrow> b = Range (Some l) (Some h)"
  using readable_range_bound by auto

lemma EnsureMonthlyPartition_provisioned:
  assumes "faults d = []" "month_provisioned d (monthStart month)"
  shows "EnsureMonthlyPartition month d = (Inr (partitionName (monthStart month)), d)"
proof -
  obtain p where p: "find (\<lambda>p. pt_name p = partitionName (monthStart month)) (partitions d) = Some p"
    "pt_bound p = Range (Some (monthStart month)) (Some (AddMonths (monthStart month) 1))"
    using assms(2) by (auto simp: month_provisioned_def split: option.splits)
  then have "relation_exists d (partitionName (monthStart month))"
    using find_SomeD [OF p(1)] unfolding relation_exists_def by (metis imageI)
  then show ?thesis
    using assms(1) p
    by (simp add: EnsureMonthlyPartition_def run_clean create_partition_sql_def partition_bounds_sql_def)
qed

lemma EnsureMonthlyPartition_free:
  assumes "faults d = []" "month_free d (monthStart month)"
  shows "EnsureMonthlyPartition month d = (Inr (partitionName (monthStart month)),
    d\<lparr>partitions := partitions d @ [\<lparr>pt_name = partitionName (monthStart month),
        pt_bound = Range (Some (monthStart month)) (Some (AddMonths (monthStart month) 1)), pt_rows = []\<rparr>]\<rparr>)"
proof -
  let ?n = "partitionName (monthStart month)"
  have "find (\<lambda>p. pt_name p = ?n) (partitions d) = None"
    using assms(2) by (simp add: month_free_def relation_exists_def find_name_Some)
  moreover have "create_partition_sql ?n (monthStart month) (AddMonths (monthStart month) 1) d = (Inr (),
    d\<lparr>partitions := partitions d @ [\<lparr>pt_name = ?n,
        pt_bound = Range (Some (monthStart month)) (Some (AddMonths (monthStart month) 1)), pt_rows = []\<rparr>]\<rparr>)"
    using assms(2) unfolding month_free_def create_partition_sql_def by auto
  ultimately show ?thesis
    using assms(1)
    by (simp add: EnsureMonthlyPartition_def run_clean partition_bounds_sql_def find_append_None Let_def)
qed

lemma EnsureMonthlyPartition_blocked:
  assumes "faults d = []" "\<not> month_provisioned d (monthStart month)" "\<not> month_free d (monthStart month)"
  shows "\<exists>e. EnsureMonthlyPartition month d = (Inl e, d)"
proof -
  let ?n = "partitionName (monthStart month)" and ?s = "monthStart month"
  show ?thesis
  proof (cases "relation_exists d ?n")
    case False
    then have "\<exists>e. create_partition_sql ?n ?s (AddMonths ?s 1) d = (Inl e, d)"
      using assms(3) unfolding month_free_def create_partition_sql_def by auto
    then show ?thesis using assms(1) by (auto simp: EnsureMonthlyPartition_def run_clean)
  next
    case True
    then have c: "create_partition_sql ?n ?s (AddMonths ?s 1) d = (Inr (), d)"
      by (simp add: create_partition_sql_def)
    show ?thesis
    proof (cases "find (\<lambda>p. pt_name p = ?n) (partitions d)")
      case None
      then show ?thesis using assms(1) True c
        by (auto simp: EnsureMonthlyPartition_def run_clean partition_bounds_sql_def Let_def)
    next
      case (Some p)
      then have "readable_range (pt_bound p) \<noteq> Some (?s, AddMonths ?s 1)"
        using assms(2) by (simp add: month_provisioned_def readable_range_iff)
      then show ?thesis using assms(1) c Some
        by (cases "readable_range (pt_bound p)")
          (auto simp: EnsureMonthlyPartition_def run_clean partition_bounds_sql_def Let_def)
    qed
  qed
qed

text \<open>
  Under every schedule of failures, when \<open>EnsureMonthlyPartition\<close> reports success, every instant
  of the month is routed to the partition it names, whose range is exactly that month, no stored fix
  was touched, and the catalog is well-formed. So the server never reports a month as provisioned when
  an INSERT for it would be rejected.
\<close>

theorem EnsureMonthlyPartition_provisions:
  assumes "parts_ok d"
    and "EnsureMonthlyPartition month d = (Inr name, d')"
    and "month_of t = month_of month"
  shows "\<exists>p. route d' t = Some p \<and> pt_name p = name
      \<and> pt_bound p = Range (Some (month_begin (month_of t))) (Some (month_begin (month_of t + 1)))
      \<and> all_fixes d' = all_fixes d \<and> parts_ok d'"
proof -
  have x: "extends_parts d d'" using EnsureMonthlyPartition_extends [of d month] assms(2) by simp
  obtain p where p: "p \<in> set (partitions d')" "pt_name p = name"
    "pt_bound p = Range (Some (monthStart month)) (Some (AddMonths (monthStart month) 1))"
    using EnsureMonthlyPartition_success(1) [OF assms(2)] by blast
  have b: "pt_bound p = Range (Some (month_begin (month_of t))) (Some (month_begin (month_of t + 1)))"
    using p(3) assms(3) by (simp add: monthStart_def AddMonths_def)
  have "in_bound (pt_bound p) t" using b month_of_bounds [of t] by simp
  then have "route d' t = Some p" using route_Some_iff_covered p(1) x assms(1) by (simp add: extends_parts_def)
  then show ?thesis using p b x assms(1) by (auto simp: extends_parts_def)
qed

text \<open>
  Without failures, provisioning a month succeeds exactly when its partition already covers that
  month or nothing is in its way; when it fails the database is unchanged, and when it succeeds a
  second call returns the same name and changes nothing.
\<close>

theorem EnsureMonthlyPartition_exact:
  assumes "faults d = []"
  shows "if month_provisioned d (monthStart month) \<or> month_free d (monthStart month)
     then \<exists>d'. EnsureMonthlyPartition month d = (Inr (partitionName (monthStart month)), d')
        \<and> EnsureMonthlyPartition month d' = (Inr (partitionName (monthStart month)), d')
     else \<exists>e. EnsureMonthlyPartition month d = (Inl e, d)"
proof -
  let ?s = "monthStart month"
  let ?d = "d\<lparr>partitions := partitions d @ [\<lparr>pt_name = partitionName ?s,
        pt_bound = Range (Some ?s) (Some (AddMonths ?s 1)), pt_rows = []\<rparr>]\<rparr>"
  have "month_provisioned ?d ?s" if "month_free d ?s"
    using that by (simp add: month_provisioned_def month_free_def relation_exists_def find_append_None find_name_Some)
  then show ?thesis
    using EnsureMonthlyPartition_provisioned [of d month] EnsureMonthlyPartition_provisioned [of ?d month]
      EnsureMonthlyPartition_free [of d month] EnsureMonthlyPartition_blocked [of d month] assms
    by auto
qed

text \<open>A freshly migrated database, on which the witnesses evaluate.\<close>

definition empty_db :: db where
  "empty_db = \<lparr>families = [], devices = [], viewers = [], partitions = [], relations = [FixesTable],
     geofences = [], events = [], subs = [], clock = 0, uuids = show_nat, drawn = 0, faults = []\<rparr>"

lemma empty_db_ok: "parts_ok empty_db" "faults empty_db = []" "month_free empty_db (monthStart t)"
  by (simp_all add: parts_ok_def empty_db_def all_fixes_def month_free_def relation_exists_def partitionName_def FixesTable_def)

theorem EnsureMonthlyPartition_provisions_witness:
  "\<exists>d'. EnsureMonthlyPartition 0 empty_db = (Inr ''fixes_1970_01'', d')
     \<and> (\<exists>p. route d' (5 * day) = Some p \<and> pt_name p = ''fixes_1970_01'')"
proof -
  have n: "partitionName (monthStart 0) = ''fixes_1970_01''" by code_simp
  obtain d' where d': "EnsureMonthlyPartition 0 empty_db = (Inr ''fixes_1970_01'', d')"
    using EnsureMonthlyPartition_free [OF empty_db_ok(2,3), of 0] n by simp
  have "month_of (5 * day) = month_of 0" by code_simp
  then show ?thesis
    using EnsureMonthlyPartition_provisions [OF empty_db_ok(1) d', of "5 * day"] d' by blast
qed

theorem EnsureMonthlyPartition_exact_witness:
  "\<exists>d'. EnsureMonthlyPartition 0 empty_db = (Inr (partitionName (monthStart 0)), d')
     \<and> EnsureMonthlyPartition 0 d' = (Inr (partitionName (monthStart 0)), d')"
  using EnsureMonthlyPartition_exact [OF empty_db_ok(2), of 0] empty_db_ok(3) by simp

lemma extends_parts_covered:
  "extends_parts d d' \<Longrightarrow> p \<in> set (partitions d) \<Longrightarrow> p \<in> set (partitions d')"
  by (auto simp: extends_parts_def)

lemma ensure_months_extends: "extends_parts d (snd (ensure_months start i n d))"
proof (induction start i n d rule: ensure_months.induct)
  case (1 start i d)
  then show ?case by (simp add: extends_parts_def)
next
  case (2 start i n d)
  obtain r d1 where e: "EnsureMonthlyPartition (AddMonths start i) d = (r, d1)" by fastforce
  then have x: "extends_parts d d1" using EnsureMonthlyPartition_extends [of d "AddMonths start i"] by simp
  show ?case
  proof (cases r)
    case (Inl a)
    then show ?thesis using e x by simp
  next
    case (Inr name)
    then show ?thesis
      using e x "2" [of r d1 name] extends_parts_trans [OF x]
      by (auto split: prod.splits sum.splits)
  qed
qed

lemma ensure_months_success:
  assumes "ensure_months start i n d = (Inr names, d')" "i \<le> k" "k < i + int n"
  shows "\<exists>p \<in> set (partitions d').
      pt_bound p = Range (Some (month_begin (month_of start + k))) (Some (month_begin (month_of start + k + 1)))"
  using assms
proof (induction start i n d arbitrary: names d' rule: ensure_months.induct)
  case (1 start i d)
  then show ?case by simp
next
  case (2 start i n d)
  then obtain name d1 ns where e: "EnsureMonthlyPartition (AddMonths start i) d = (Inr name, d1)"
    and r: "ensure_months start (i + 1) n d1 = (Inr ns, d')"
    by (auto split: prod.splits sum.splits)
  show ?case
  proof (cases "k = i")
    case True
    then obtain p where "p \<in> set (partitions d1)"
      "pt_bound p = Range (Some (month_begin (month_of start + k))) (Some (month_begin (month_of start + k + 1)))"
      using EnsureMonthlyPartition_success(1) [OF e] by (auto simp: AddMonths_def monthStart_def)
    then show ?thesis
      using extends_parts_covered [OF ensure_months_extends [of d1 start "i + 1" n]] r by auto
  next
    case False
    then show ?thesis using "2.IH" [OF e [symmetric] refl r] "2.prems" by simp
  qed
qed

text \<open>
  When start-up provisioning succeeds, every instant from the first of the current month to the
  end of the lookahead is routed to the partition of its own month, whatever the catalog held before
  and however statements failed on the way.
\<close>

theorem EnsurePartitions_lookahead:
  assumes "parts_ok d"
    and "EnsurePartitions from months d = (Inr names, d')"
    and "month_of from \<le> month_of t" "month_of t < month_of from + months"
  shows "\<exists>p. route d' t = Some p
      \<and> pt_bound p = Range (Some (month_begin (month_of t))) (Some (month_begin (month_of t + 1)))"
proof -
  have e: "ensure_months (monthStart from) 0 (nat months) d = (Inr names, d')" and m: "1 \<le> months"
    using assms(2) by (auto simp: EnsurePartitions_def split: if_splits)
  have x: "parts_ok d'"
    using ensure_months_extends [of d "monthStart from" 0 "nat months"] e assms(1) by (simp add: extends_parts_def)
  obtain p where p: "p \<in> set (partitions d')"
    "pt_bound p = Range (Some (month_begin (month_of t))) (Some (month_begin (month_of t + 1)))"
    using ensure_months_success [OF e, of "month_of t - month_of from"] assms(3,4) m
    by (auto simp: monthStart_def)
  have "route d' t = Some p"
    using route_Some_iff_covered [OF x p(1)] p(2) month_of_bounds [of t] by simp
  then show ?thesis using p(2) by blast
qed

theorem EnsurePartitions_lookahead_witness:
  "case EnsurePartitions 0 3 empty_db of
     (Inl _, _) \<Rightarrow> False
   | (Inr names, d') \<Rightarrow> names = [''fixes_1970_01'', ''fixes_1970_02'', ''fixes_1970_03'']
       \<and> (\<exists>p. route d' (80 * day) = Some p
            \<and> pt_bound p = Range (Some (month_begin (month_of (80 * day)))) (Some (month_begin (month_of (80 * day) + 1))))"
proof -
  obtain r d' where e: "EnsurePartitions 0 3 empty_db = (r, d')" by fastforce
  have "fst (EnsurePartitions 0 3 empty_db) = Inr [''fixes_1970_01'', ''fixes_1970_02'', ''fixes_1970_03'']"
    by code_simp
  then have e': "EnsurePartitions 0 3 empty_db = (Inr [''fixes_1970_01'', ''fixes_1970_02'', ''fixes_1970_03''], d')"
    using e by simp
  have "month_of 0 \<le> month_of (80 * day)" "month_of (80 * day) < month_of 0 + 3" by code_simp+
  then show ?thesis
    using EnsurePartitions_lookahead [OF empty_db_ok(1) e', of "80 * day"] e' by simp
qed

section \<open>Purging\<close>

text \<open>
  A purge takes whole partitions whose upper bound is known and not after the cutoff, and touches
  nothing else.
\<close>

definition purged :: "instant \<Rightarrow> db \<Rightarrow> db \<Rightarrow> bool" where
  "purged cutoff d d' \<longleftrightarrow>
     (\<exists>P. partitions d' = filter P (partitions d)
        \<and> (\<forall>p \<in> set (partitions d). \<not> P p \<longrightarrow> (\<exists>u. readable_upper (pt_bound p) = Some u \<and> u \<le> cutoff)))
     \<and> d'\<lparr>partitions := [], faults := []\<rparr> = d\<lparr>partitions := [], faults := []\<rparr>"

lemma purged_refl: "purged cutoff d (d\<lparr>faults := fs\<rparr>)"
  unfolding purged_def by (auto intro!: exI [of _ "\<lambda>_. True"])

lemma purged_trans: "purged c d d1 \<Longrightarrow> purged c d1 d2 \<Longrightarrow> purged c d d2"
proof -
  assume a: "purged c d d1" "purged c d1 d2"
  then obtain P Q where P: "partitions d1 = filter P (partitions d)"
      "\<forall>p \<in> set (partitions d). \<not> P p \<longrightarrow> (\<exists>u. readable_upper (pt_bound p) = Some u \<and> u \<le> c)"
    and Q: "partitions d2 = filter Q (partitions d1)"
      "\<forall>p \<in> set (partitions d1). \<not> Q p \<longrightarrow> (\<exists>u. readable_upper (pt_bound p) = Some u \<and> u \<le> c)"
    unfolding purged_def by blast
  have "partitions d2 = filter (\<lambda>p. P p \<and> Q p) (partitions d)" using P Q by (simp add: conj_commute)
  moreover have "\<forall>p \<in> set (partitions d). \<not> (P p \<and> Q p) \<longrightarrow> (\<exists>u. readable_upper (pt_bound p) = Some u \<and> u \<le> c)"
    using P Q by auto
  moreover have "d2\<lparr>partitions := [], faults := []\<rparr> = d\<lparr>partitions := [], faults := []\<rparr>"
    using a by (simp add: purged_def)
  ultimately show ?thesis unfolding purged_def by blast
qed

lemma purged_subset: "purged c d d' \<Longrightarrow> set (partitions d') \<subseteq> set (partitions d)"
  by (auto simp: purged_def)

lemma drop_table_purges:
  assumes "\<forall>p \<in> set (partitions d). pt_name p = name \<longrightarrow> readable_upper (pt_bound p) = Some u" "u \<le> cutoff"
  shows "purged cutoff d (snd (run (drop_table_sql name) d))"
proof (rule drop_table.run_rel)
  show "purged cutoff d (d\<lparr>faults := fs\<rparr>)" for fs by (rule purged_refl)
  fix fs d' and x :: unit
  assume "drop_table_sql name (d\<lparr>faults := fs\<rparr>) = (Inr x, d')"
  then have "d' = d\<lparr>faults := fs, partitions := filter (\<lambda>p. pt_name p \<noteq> name) (partitions d)\<rparr>"
    by (auto simp: drop_table_sql_def split: if_splits)
  then show "purged cutoff d d'"
    using assms unfolding purged_def by (auto intro!: exI [of _ "\<lambda>p. pt_name p \<noteq> name"])
qed

lemma drop_table_gone:
  "run (drop_table_sql name) d = (Inr x, d') \<Longrightarrow> name \<notin> pt_name ` set (partitions d')"
  by (erule drop_table.run_okE) (auto simp: drop_table_sql_def split: if_splits)

text \<open>The list the loop works on agrees with the catalog.\<close>

definition listed :: "(string \<times> instant option) list \<Rightarrow> db \<Rightarrow> bool" where
  "listed cs d \<longleftrightarrow> (\<forall>(n, u) \<in> set cs. \<forall>p \<in> set (partitions d). pt_name p = n \<longrightarrow> readable_upper (pt_bound p) = u)"

lemma listed_mono: "listed cs d \<Longrightarrow> set (partitions d') \<subseteq> set (partitions d) \<Longrightarrow> listed cs d'"
  unfolding listed_def by blast

lemma drop_loop_purges:
  assumes "listed cs d" "drop_loop cutoff cs d = ((dropped, err), d')"
  shows "purged cutoff d d'" "set dropped \<inter> pt_name ` set (partitions d') = {}"
    "err = None \<Longrightarrow> (\<forall>(n, u) \<in> set cs. n \<in> pt_name ` set (partitions d') \<longrightarrow> (\<exists>h. u = Some h \<and> cutoff < h))"
    "set dropped \<subseteq> {n. \<exists>u. (n, Some u) \<in> set cs \<and> u \<le> cutoff}"
proof -
  have "purged cutoff d d' \<and> set dropped \<inter> pt_name ` set (partitions d') = {}
    \<and> (err = None \<longrightarrow> (\<forall>(n, u) \<in> set cs. n \<in> pt_name ` set (partitions d') \<longrightarrow> (\<exists>h. u = Some h \<and> cutoff < h)))
    \<and> set dropped \<subseteq> {n. \<exists>u. (n, Some u) \<in> set cs \<and> u \<le> cutoff}"
    using assms
  proof (induction cutoff cs d arbitrary: dropped err d' rule: drop_loop.induct)
    case (1 cutoff d)
    then show ?case using purged_refl [of cutoff d "faults d"] by simp
  next
    case (2 cutoff name upper cs d)
    have l: "listed cs d" using "2.prems"(1) by (auto simp: listed_def)
    show ?case
    proof (cases upper)
      case None
      then show ?thesis using "2.prems" purged_refl [of cutoff d "faults d"] by auto
    next
      case (Some u)
      show ?thesis
      proof (cases "cutoff < u")
        case True
        then show ?thesis using "2.IH"(1) [OF Some True l] "2.prems"(2) Some by auto
      next
        case False
        obtain r d1 where r: "run (drop_table_sql name) d = (r, d1)" by fastforce
        have p1: "purged cutoff d d1"
          using drop_table_purges [of d name u cutoff] "2.prems"(1) Some False r by (auto simp: listed_def)
        show ?thesis
        proof (cases r)
          case (Inl e)
          then show ?thesis using "2.prems"(2) Some False r p1 by auto
        next
          case (Inr x)
          obtain ds er d2 where r2: "drop_loop cutoff cs d1 = ((ds, er), d2)" by (metis surj_pair)
          have IH: "purged cutoff d1 d2 \<and> set ds \<inter> pt_name ` set (partitions d2) = {}
            \<and> (er = None \<longrightarrow> (\<forall>(n, u) \<in> set cs. n \<in> pt_name ` set (partitions d2) \<longrightarrow> (\<exists>h. u = Some h \<and> cutoff < h)))
            \<and> set ds \<subseteq> {n. \<exists>u. (n, Some u) \<in> set cs \<and> u \<le> cutoff}"
            using "2.IH"(2) [OF Some False r [symmetric] Inr _ r2] listed_mono [OF l purged_subset [OF p1]]
            by simp
          have "name \<notin> pt_name ` set (partitions d2)"
            using drop_table_gone [of name d x d1] r Inr purged_subset [of cutoff d1 d2] IH by auto
          moreover have "dropped = name # ds" "err = er" "d' = d2"
            using "2.prems"(2) Some False r Inr r2 by auto
          ultimately show ?thesis using IH p1 purged_trans [OF p1] Some False by auto
        qed
      qed
    qed
  qed
  then show "purged cutoff d d'" "set dropped \<inter> pt_name ` set (partitions d') = {}"
    "err = None \<Longrightarrow> (\<forall>(n, u) \<in> set cs. n \<in> pt_name ` set (partitions d') \<longrightarrow> (\<exists>h. u = Some h \<and> cutoff < h))"
    "set dropped \<subseteq> {n. \<exists>u. (n, Some u) \<in> set cs \<and> u \<le> cutoff}"
    by blast+
qed

lemma DropPartitionsBefore_facts:
  assumes "parts_ok d" "DropPartitionsBefore cutoff d = ((dropped, err), d')"
  shows "purged cutoff d d'" "set dropped \<inter> pt_name ` set (partitions d') = {}"
    "err = None \<Longrightarrow> p \<in> set (partitions d') \<Longrightarrow> \<exists>u. readable_upper (pt_bound p) = Some u \<and> cutoff < u"
    "n \<in> set dropped \<Longrightarrow> \<exists>p \<in> set (partitions d). pt_name p = n"
proof -
  obtain r d1 where l: "run list_partitions_sql d = (r, d1)" by fastforce
  have "\<exists>fs. d1 = d\<lparr>faults := fs\<rparr>"
    using l by (cases r) (auto elim!: list_partitions.run_okE list_partitions.run_errorE simp: list_partitions_sql_def)
  then have p0: "purged cutoff d d1" and parts: "partitions d1 = partitions d" using purged_refl by auto
  have "purged cutoff d d' \<and> set dropped \<inter> pt_name ` set (partitions d') = {}
      \<and> (err = None \<longrightarrow> p \<in> set (partitions d') \<longrightarrow> (\<exists>u. readable_upper (pt_bound p) = Some u \<and> cutoff < u))
      \<and> (n \<in> set dropped \<longrightarrow> (\<exists>p \<in> set (partitions d). pt_name p = n))"
  proof (cases r)
    case (Inl e)
    then show ?thesis using assms(2) l p0 by (auto simp: DropPartitionsBefore_def)
  next
    case (Inr cs)
    then have cs: "set cs = (\<lambda>p. (pt_name p, readable_upper (pt_bound p))) ` set (partitions d)"
      using l by (auto elim!: list_partitions.run_okE simp: list_partitions_sql_def)
    have l1: "listed cs d1"
      using parts_okD(1) [OF assms(1)] unfolding listed_def cs parts by (auto simp: distinct_map dest: inj_onD)
    have l2: "drop_loop cutoff cs d1 = ((dropped, err), d')"
      using assms(2) l Inr by (simp add: DropPartitionsBefore_def)
    have f: "purged cutoff d1 d'" "set dropped \<inter> pt_name ` set (partitions d') = {}"
      "err = None \<Longrightarrow> (\<forall>(n, u) \<in> set cs. n \<in> pt_name ` set (partitions d') \<longrightarrow> (\<exists>h. u = Some h \<and> cutoff < h))"
      "set dropped \<subseteq> {n. \<exists>u. (n, Some u) \<in> set cs \<and> u \<le> cutoff}"
      by (rule drop_loop_purges [OF l1 l2], assumption?)+
    have "p \<in> set (partitions d') \<Longrightarrow> (pt_name p, readable_upper (pt_bound p)) \<in> set cs"
      using purged_subset [OF f(1)] cs parts by auto
    then have "err = None \<longrightarrow> p \<in> set (partitions d') \<longrightarrow> (\<exists>u. readable_upper (pt_bound p) = Some u \<and> cutoff < u)"
      using f(3) by fastforce
    then show ?thesis using purged_trans [OF p0 f(1)] f(2,4) cs by auto
  qed
  then show "purged cutoff d d'" "set dropped \<inter> pt_name ` set (partitions d') = {}"
    "err = None \<Longrightarrow> p \<in> set (partitions d') \<Longrightarrow> \<exists>u. readable_upper (pt_bound p) = Some u \<and> cutoff < u"
    "n \<in> set dropped \<Longrightarrow> \<exists>p \<in> set (partitions d). pt_name p = n"
    by blast+
qed

lemma filter_concat_purge:
  assumes "\<forall>p \<in> set ps. \<not> P p \<longrightarrow> (\<forall>r \<in> set (pt_rows p). \<not> Q r)"
  shows "filter Q (concat (map pt_rows (filter P ps))) = filter Q (concat (map pt_rows ps))"
  using assms by (induction ps) (auto simp: filter_empty_conv)

lemma purged_keeps:
  assumes "parts_ok d" "purged cutoff d d'"
  shows "filter (\<lambda>r. cutoff \<le> fx_ts r) (all_fixes d') = filter (\<lambda>r. cutoff \<le> fx_ts r) (all_fixes d)"
proof -
  obtain P where P: "partitions d' = filter P (partitions d)"
    "\<forall>p \<in> set (partitions d). \<not> P p \<longrightarrow> (\<exists>u. readable_upper (pt_bound p) = Some u \<and> u \<le> cutoff)"
    using assms(2) by (auto simp: purged_def)
  have "\<not> cutoff \<le> fx_ts r" if p: "p \<in> set (partitions d)" "\<not> P p" "r \<in> set (pt_rows p)" for p r
  proof -
    obtain u where u: "readable_upper (pt_bound p) = Some u" "u \<le> cutoff" using P(2) p(1,2) by blast
    then have "pt_bound p \<noteq> Default" by auto
    then have "in_bound (pt_bound p) (fx_ts r)"
      using parts_okD(3) [OF assms(1) p(1,3)] by (simp add: row_home_def)
    then show ?thesis using readable_upper_bound [OF u(1)] u(2) by fastforce
  qed
  then show ?thesis unfolding all_fixes_def P(1) by (intro filter_concat_purge) blast
qed

text \<open>
  C2: Under every schedule of failures a purge is safe: no fix at or after the cutoff is lost, only
  the partitions table changes, the partitions reported as dropped existed and are gone, and every
  partition that is gone had a readable upper bound not after the cutoff.
\<close>

theorem DropPartitionsBefore_safe:
  assumes "parts_ok d" "DropPartitionsBefore cutoff d = ((dropped, err), d')"
  shows "filter (\<lambda>r. cutoff \<le> fx_ts r) (all_fixes d') = filter (\<lambda>r. cutoff \<le> fx_ts r) (all_fixes d)
    \<and> d'\<lparr>partitions := [], faults := []\<rparr> = d\<lparr>partitions := [], faults := []\<rparr>
    \<and> (\<forall>n \<in> set dropped. n \<in> pt_name ` set (partitions d) \<and> n \<notin> pt_name ` set (partitions d'))
    \<and> (\<forall>p \<in> set (partitions d) - set (partitions d'). \<exists>u. readable_upper (pt_bound p) = Some u \<and> u \<le> cutoff)"
proof -
  note f = DropPartitionsBefore_facts [OF assms]
  obtain P where "partitions d' = filter P (partitions d)"
    "\<forall>p \<in> set (partitions d). \<not> P p \<longrightarrow> (\<exists>u. readable_upper (pt_bound p) = Some u \<and> u \<le> cutoff)"
    using f(1) by (auto simp: purged_def)
  then have "\<forall>p \<in> set (partitions d) - set (partitions d'). \<exists>u. readable_upper (pt_bound p) = Some u \<and> u \<le> cutoff"
    by auto
  moreover have "d'\<lparr>partitions := [], faults := []\<rparr> = d\<lparr>partitions := [], faults := []\<rparr>"
    using f(1) by (simp add: purged_def)
  ultimately show ?thesis using purged_keeps [OF assms(1) f(1)] f(2,4) by blast
qed

text \<open>Two months, the older one with a fix, and the loss of the reply to the first statement.\<close>

definition two_months :: db where
  "two_months = empty_db\<lparr>partitions :=
     [\<lparr>pt_name = ''fixes_1970_01'', pt_bound = Range (Some 0) (Some (31 * day)),
       pt_rows = [\<lparr>fx_device = ''a'', fx_ts = day, fx_lon = Fin 1, fx_lat = Fin 2, fx_accuracy = None,
         fx_battery = None, fx_speed = None, fx_trigger = None, fx_msg = None, fx_received = day\<rparr>]\<rparr>,
      \<lparr>pt_name = ''fixes_1970_02'', pt_bound = Range (Some (31 * day)) (Some (59 * day)),
       pt_rows = [\<lparr>fx_device = ''a'', fx_ts = 40 * day, fx_lon = Fin 1, fx_lat = Fin 2, fx_accuracy = None,
         fx_battery = None, fx_speed = None, fx_trigger = None, fx_msg = None, fx_received = 40 * day\<rparr>]\<rparr>]\<rparr>"

lemma two_months_ok: "parts_ok two_months"
  by (auto simp: parts_ok_def two_months_def empty_db_def FixesTable_def all_fixes_def fix_key_def row_home_def
      day_def second_def)

theorem DropPartitionsBefore_safe_witness:
  "case DropPartitionsBefore (35 * day) two_months of ((dropped, err), d') \<Rightarrow>
     dropped = [''fixes_1970_01'']
     \<and> filter (\<lambda>r. 35 * day \<le> fx_ts r) (all_fixes d') = filter (\<lambda>r. 35 * day \<le> fx_ts r) (all_fixes two_months)"
proof -
  obtain dr e d' where r: "DropPartitionsBefore (35 * day) two_months = ((dr, e), d')" by (metis surj_pair)
  have "fst (fst (DropPartitionsBefore (35 * day) two_months)) = [''fixes_1970_01'']" by code_simp
  then show ?thesis using DropPartitionsBefore_safe [OF two_months_ok r] r by simp
qed

text \<open>
  C20: A purge that reports success left no expired partition behind: every remaining partition has a
  readable upper bound after the cutoff. In particular a default partition, or any bound that cannot be
  read, makes the purge report an error rather than success over a partial job.
\<close>

theorem DropPartitionsBefore_complete:
  assumes "parts_ok d" "DropPartitionsBefore cutoff d = ((dropped, None), d')"
  shows "\<forall>p \<in> set (partitions d'). \<exists>u. readable_upper (pt_bound p) = Some u \<and> cutoff < u"
  using DropPartitionsBefore_facts(3) [OF assms] by blast

theorem DropPartitionsBefore_complete_witness:
  "case DropPartitionsBefore (35 * day) two_months of ((dropped, err), d') \<Rightarrow>
     err = None \<and> (\<forall>p \<in> set (partitions d'). \<exists>u. readable_upper (pt_bound p) = Some u \<and> 35 * day < u)"
proof -
  obtain dr e d' where r: "DropPartitionsBefore (35 * day) two_months = ((dr, e), d')" by (metis surj_pair)
  have "snd (fst (DropPartitionsBefore (35 * day) two_months)) = None" by code_simp
  then have "e = None" using r by simp
  then show ?thesis using DropPartitionsBefore_complete [OF two_months_ok] r by simp
qed

end
