(* ===== verification/Fixes.thy ===== *)
theory Fixes
  imports Db
begin

text \<open>
  Ingesting fixes (\<open>internal/store/store.go\<close>): validation of coordinates and timestamps, the
  idempotent insert, and the partition-healing retry of \<open>IngestFix\<close>. The theorems cover every
  schedule of statement failures.
\<close>

section \<open>Errors of the data-access layer\<close>

text \<open>
  The typed errors of \<open>internal/store\<close>, and the two ways an error of a lower layer is wrapped. As for
  partitions the surrounding sentence is dropped.
\<close>

datatype store_error =
    ErrCoordinateOutOfRange
  | ErrTimestampOutOfWindow
  | ErrInvalidTokenHash
  | ErrUnknownToken
  | ErrUnknownDevice
  | ErrUnknownGeofence
  | ErrInvalidGeofence
  | ErrInvalidPushProvider
  | RadiusNotFinite
  | StDb db_error
  | StPg pgerr

text \<open>\<open>errors.As\<close> for \<open>*pgconn.PgError\<close>.\<close>

fun db_as_pg :: "db_error \<Rightarrow> (string \<times> string) option" where
  "db_as_pg (DbWrapped (PgError c m)) = Some (c, m)"
| "db_as_pg _ = None"

fun as_pg :: "store_error \<Rightarrow> (string \<times> string) option" where
  "as_pg (StPg (PgError c m)) = Some (c, m)"
| "as_pg (StDb e) = db_as_pg e"
| "as_pg _ = None"

definition isMissingPartitionErr :: "store_error \<Rightarrow> bool" where
  "isMissingPartitionErr e = (case as_pg e of None \<Rightarrow> False | Some (_, m) \<Rightarrow> contains m ''no partition of relation'')"

definition isDuplicateRelationErr :: "db_error \<Rightarrow> bool" where
  "isDuplicateRelationErr e = (case db_as_pg e of None \<Rightarrow> False | Some (c, _) \<Rightarrow> c = ''42P07'')"

section \<open>Validation\<close>

definition ValidateLonLat :: "float64 \<Rightarrow> float64 \<Rightarrow> store_error option" where
  "ValidateLonLat lon lat =
     (if IsNaN lon \<or> IsNaN lat \<or> IsInf lon \<or> IsInf lat then Some ErrCoordinateOutOfRange
      else if flt lon (Fin (- 180)) \<or> flt (Fin 180) lon then Some ErrCoordinateOutOfRange
      else if flt lat (Fin (- 90)) \<or> flt (Fin 90) lat then Some ErrCoordinateOutOfRange
      else None)"

definition in_range :: "float64 \<Rightarrow> float64 \<Rightarrow> bool" where
  "in_range lon lat \<longleftrightarrow> (\<exists>x y. lon = Fin x \<and> lat = Fin y \<and> \<bar>x\<bar> \<le> 180 \<and> \<bar>y\<bar> \<le> 90)"

lemma ValidateLonLat_iff: "ValidateLonLat lon lat = None \<longleftrightarrow> in_range lon lat"
  by (cases lon; cases lat) (auto simp: ValidateLonLat_def in_range_def IsNaN_def IsInf_def)

lemma ValidateLonLat_error: "ValidateLonLat lon lat = Some e \<Longrightarrow> e = ErrCoordinateOutOfRange"
  by (simp add: ValidateLonLat_def split: if_splits)

definition MaxIngestFutureSkew :: duration where "MaxIngestFutureSkew = 24 * hour"
definition MaxIngestBacklog :: duration where "MaxIngestBacklog = 90 * 24 * hour"

definition validateFixTimestamp :: "instant \<Rightarrow> instant \<Rightarrow> store_error option" where
  "validateFixTimestamp ts t =
     (if t + MaxIngestFutureSkew < ts then Some ErrTimestampOutOfWindow
      else if ts < t + - MaxIngestBacklog then Some ErrTimestampOutOfWindow
      else None)"

section \<open>Storing a fix\<close>

record Fix =
  DeviceID :: string
  TS :: instant
  Lon :: float64
  Lat :: float64
  AccuracyM :: "float64 option"
  BatteryPct :: "int option"
  SpeedMPS :: "float64 option"
  TriggerReason :: "string option"
  MsgID :: "string option"

text \<open>PostgreSQL orders NaN above every number, so only a negative number fails \<open>>= 0\<close>.\<close>

definition pg_nonneg :: "float64 option \<Rightarrow> bool" where
  "pg_nonneg x = (case x of None \<Rightarrow> True | Some v \<Rightarrow> \<not> flt v (Fin 0))"

definition fix_checks :: "Fix \<Rightarrow> bool" where
  "fix_checks f \<longleftrightarrow> pg_nonneg (AccuracyM f) \<and> pg_nonneg (SpeedMPS f)
     \<and> (case BatteryPct f of None \<Rightarrow> True | Some b \<Rightarrow> 0 \<le> b \<and> b \<le> 100)"

definition fix_text :: "Fix \<Rightarrow> bool" where
  "fix_text f \<longleftrightarrow> pred_option pg_text (TriggerReason f) \<and> pred_option pg_text (MsgID f)"

definition fix_to_row :: "pg \<Rightarrow> uuid \<Rightarrow> Fix \<Rightarrow> db \<Rightarrow> fix_row" where
  "fix_to_row pg dev f d =
     \<lparr>fx_device = dev, fx_ts = pg_time (TS f),
      fx_lon = fst (geog_point pg (Lon f) (Lat f)), fx_lat = snd (geog_point pg (Lon f) (Lat f)),
      fx_accuracy = AccuracyM f, fx_battery = BatteryPct f, fx_speed = SpeedMPS f,
      fx_trigger = TriggerReason f, fx_msg = MsgID f, fx_received = now d\<rparr>"

definition add_row :: "partition \<Rightarrow> fix_row \<Rightarrow> db \<Rightarrow> db" where
  "add_row p r d = d\<lparr>partitions :=
     map (\<lambda>q. if pt_name q = pt_name p then q\<lparr>pt_rows := pt_rows q @ [r]\<rparr> else q) (partitions d)\<rparr>"

text \<open>
  \<open>upsertFixSQL\<close>, in PostgreSQL's order: argument decoding, tuple routing, table constraints,
  conflict on the primary key, foreign key. The result is the number of rows affected.
\<close>

definition upsertFixSQL :: "pg \<Rightarrow> Fix \<Rightarrow> int stmt" where
  "upsertFixSQL pg f d =
     (case uuid_in pg (DeviceID f) of
        None \<Rightarrow> (Inl (DriverError ''cannot encode uuid''), d)
      | Some dev \<Rightarrow>
          if \<not> fix_text f then (Inl (PgError ''22021'' ''invalid byte sequence for encoding''), d)
          else case route d (pg_time (TS f)) of
                 None \<Rightarrow> (Inl (PgError ''23514'' ''no partition of relation fixes found for row''), d)
               | Some p \<Rightarrow>
                   if \<not> fix_checks f
                   then (Inl (PgError ''23514'' (''new row for relation '' @ pt_name p @ '' violates check constraint'')), d)
                   else if \<exists>r \<in> set (pt_rows p). fix_key r = (dev, pg_time (TS f)) then (Inr 0, d)
                   else if dev \<notin> dev_id ` set (devices d)
                   then (Inl (PgError ''23503'' ''insert or update violates foreign key constraint''), d)
                   else (Inr 1, add_row p (fix_to_row pg dev f d) d))"

interpretation upsert_fix: statement "upsertFixSQL pg f" for pg f
  by unfold_locales (auto simp: upsertFixSQL_def add_row_def split: option.splits if_splits)

definition UpsertFix :: "pg \<Rightarrow> Fix \<Rightarrow> db \<Rightarrow> (store_error + bool) \<times> db" where
  "UpsertFix pg f d =
     (case ValidateLonLat (Lon f) (Lat f) of
        Some e \<Rightarrow> (Inl e, d)
      | None \<Rightarrow>
          (case run (upsertFixSQL pg f) d of
             (Inl e, d1) \<Rightarrow> (Inl (StPg e), d1)
           | (Inr n, d1) \<Rightarrow> (Inr (n = 1), d1)))"

definition IngestFix :: "pg \<Rightarrow> Fix \<Rightarrow> instant \<Rightarrow> db \<Rightarrow> (store_error + bool) \<times> db" where
  "IngestFix pg f t d =
     (case validateFixTimestamp (TS f) t of
        Some e \<Rightarrow> (Inl e, d)
      | None \<Rightarrow>
          (case UpsertFix pg f d of
             (Inr inserted, d1) \<Rightarrow> (Inr inserted, d1)
           | (Inl err, d1) \<Rightarrow>
               if isMissingPartitionErr err
               then (case EnsureMonthlyPartition (TS f) d1 of
                       (Inr _, d2) \<Rightarrow> UpsertFix pg f d2
                     | (Inl perr, d2) \<Rightarrow>
                         if \<not> isDuplicateRelationErr perr then (Inl (StDb perr), d2)
                         else UpsertFix pg f d2)
               else (Inl err, d1)))"

text \<open>
  A deployment the witnesses evaluate on: PostGIS with exact points, one family with a phone and a
  watcher, and a database that fails as its schedule says.
\<close>

definition sample_pg :: pg where
  "sample_pg = \<lparr>uuid_in = Some, pg_lower = to_lower, pg_collate = (<), geog_point = Pair, geog_valid = (\<lambda>_. Some True),
     st_covers = (\<lambda>_ (lon, lat). \<not> flt lon (Fin 0)), st_distance = (\<lambda>_ _. Fin 0), st_dwithin = (\<lambda>_ _ _. True),
     st_asgeojson = (\<lambda>a. a)\<rparr>"

definition sample_hash :: string where "sample_hash = replicate 32 (CHR ''a'')"

definition sample_db :: "fault list \<Rightarrow> db" where
  "sample_db fs = empty_db\<lparr>families := [\<lparr>fam_id = ''f1'', fam_name = ''Smith''\<rparr>],
     devices := [\<lparr>dev_id = ''d1'', dev_family = ''f1'', dev_name = ''phone'', dev_hash = sample_hash, dev_expires = None\<rparr>],
     viewers := [\<lparr>vw_id = ''v1'', vw_family = ''f1'', vw_email = ''a'', vw_display = ''A'',
       vw_hash = replicate 32 (CHR ''b''), vw_expires = None\<rparr>],
     clock := 86400000000, faults := fs\<rparr>"

definition sample_fix :: Fix where
  "sample_fix = \<lparr>DeviceID = ''d1'', TS = day, Lon = Fin 5, Lat = Fin 6, AccuracyM = None, BatteryPct = Some 50,
     SpeedMPS = None, TriggerReason = None, MsgID = None\<rparr>"

lemma sample_ok:
  "parts_ok (sample_db fs)" "uuid_in sample_pg s = Some s" "geog_point sample_pg = Pair" "faults (sample_db fs) = fs"
  "month_free (sample_db fs) (monthStart t)"
  using empty_db_ok parts_ok_cong [of "sample_db fs" empty_db]
  by (simp_all add: sample_db_def empty_db_def sample_pg_def month_free_def relation_exists_def partitionName_def FixesTable_def)

lemma sample_fix_ok:
  "fix_text sample_fix" "fix_checks sample_fix" "in_range (Lon sample_fix) (Lat sample_fix)"
  "uuid_in sample_pg (DeviceID sample_fix) = Some ''d1''" "''d1'' \<in> dev_id ` set (devices (sample_db fs))" "TS sample_fix = day"
  by (simp_all add: sample_fix_def fix_text_def fix_checks_def pg_nonneg_def in_range_def sample_pg_def sample_db_def)

section \<open>What one ingest may do to the table\<close>

text \<open>
  Under every schedule of failures, an insert of a fix leaves the rows alone or adds one row with the
  fix's key, its values and the database's clock. Nothing but partitions and their rows changes.
\<close>

definition stores_at_most :: "pg \<Rightarrow> Fix \<Rightarrow> db \<Rightarrow> db \<Rightarrow> bool" where
  "stores_at_most pg f d d' \<longleftrightarrow>
     (mset (all_fixes d') = mset (all_fixes d)
      \<or> (\<exists>dev. uuid_in pg (DeviceID f) = Some dev \<and> dev \<in> dev_id ` set (devices d) \<and> fix_checks f
           \<and> (dev, pg_time (TS f)) \<notin> fix_key ` set (all_fixes d)
           \<and> mset (all_fixes d') = add_mset (fix_to_row pg dev f d) (mset (all_fixes d))))
     \<and> d'\<lparr>partitions := [], faults := []\<rparr> = d\<lparr>partitions := [], faults := []\<rparr>
     \<and> (parts_ok d \<longrightarrow> parts_ok d')"

text \<open>The row a fix becomes depends on the clock only.\<close>

lemma fix_to_row_cong: "clock d = clock d' \<Longrightarrow> fix_to_row pg dev f d = fix_to_row pg dev f d'"
  by (simp add: fix_to_row_def now_def)

lemma fix_key_to_row [simp]: "fix_key (fix_to_row pg dev f d) = (dev, pg_time (TS f))"
  by (simp add: fix_key_def fix_to_row_def)

lemma set_all_fixes_mset: "set (all_fixes d) = set_mset (mset (all_fixes d))"
  by simp

lemma mset_add_row_list:
  assumes "distinct (map pt_name ps)" "p \<in> set ps"
  shows "mset (concat (map pt_rows (map (\<lambda>q. if pt_name q = pt_name p then q\<lparr>pt_rows := pt_rows q @ [r]\<rparr> else q) ps)))
       = add_mset r (mset (concat (map pt_rows ps)))"
  using assms
proof (induction ps)
  case (Cons q ps)
  have other: "map (\<lambda>q. if pt_name q = pt_name p then q\<lparr>pt_rows := pt_rows q @ [r]\<rparr> else q) ps = ps"
    if "pt_name p \<notin> pt_name ` set ps"
    using that by (intro map_idI) (metis imageI)
  show ?case
  proof (cases "pt_name q = pt_name p")
    case True
    then have "pt_name p \<notin> pt_name ` set ps" using Cons.prems(1) by auto
    then show ?thesis using other True by simp
  next
    case False
    then show ?thesis using Cons by auto
  qed
qed simp

lemma mset_add_row:
  "parts_ok d \<Longrightarrow> p \<in> set (partitions d) \<Longrightarrow> mset (all_fixes (add_row p r d)) = add_mset r (mset (all_fixes d))"
  using mset_add_row_list [OF parts_okD(1), of d p r] by (simp add: all_fixes_def add_row_def)

lemma route_in: "route d t = Some p \<Longrightarrow> p \<in> set (partitions d)"
  by (auto simp: route_def split: option.splits dest: find_SomeD)

lemma route_home:
  assumes "route d t = Some p"
  shows "in_bound (pt_bound p) t \<or> pt_bound p = Default \<and> (\<forall>q \<in> set (partitions d). \<not> in_bound (pt_bound q) t)"
  using assms by (auto simp: route_def find_None_iff split: option.splits dest: find_SomeD)

text \<open>Two rows with the same timestamp live in the same partition, so the routed one is enough.\<close>

lemma key_in_routed:
  assumes "parts_ok d" "route d t = Some p" "(dev, t) \<in> fix_key ` set (all_fixes d)"
  shows "\<exists>r \<in> set (pt_rows p). fix_key r = (dev, t)"
proof -
  obtain q r where q: "q \<in> set (partitions d)" "r \<in> set (pt_rows q)" "fix_key r = (dev, t)"
    using assms(3) by (auto simp: set_all_fixes)
  then have t: "fx_ts r = t" by (simp add: fix_key_def)
  have "row_home d q r" using parts_okD(3) [OF assms(1) q(1,2)] .
  then have "q = p"
    using route_home [OF assms(2)] route_in [OF assms(2)] q(1) t parts_okD(2) [OF assms(1), of q p]
      parts_okD(6) [OF assms(1), of q p] in_both_overlaps
    unfolding row_home_def by blast
  then show ?thesis using q by blast
qed

lemma add_row_ok:
  assumes "parts_ok d" "route d (fx_ts r) = Some p" "fix_key r \<notin> fix_key ` set (all_fixes d)"
  shows "parts_ok (add_row p r d)"
proof -
  let ?up = "\<lambda>q. if pt_name q = pt_name p then q\<lparr>pt_rows := pt_rows q @ [r]\<rparr> else q"
  let ?d = "add_row p r d"
  have parts: "partitions ?d = map ?up (partitions d)" "relations ?d = relations d" by (simp_all add: add_row_def)
  have names: "map pt_name (partitions ?d) = map pt_name (partitions d)" unfolding parts by simp
  have nset: "pt_name ` set (partitions ?d) = pt_name ` set (partitions d)"
    using arg_cong [OF names, of set] by simp
  have bnd: "pt_bound (?up q) = pt_bound q" for q by simp
  have pin: "p \<in> set (partitions d)" using route_in [OF assms(2)] .
  have uniq: "q \<in> set (partitions d) \<Longrightarrow> pt_name q = pt_name p \<Longrightarrow> q = p" for q
    using parts_okD(1) [OF assms(1)] pin by (auto simp: distinct_map dest: inj_onD)
  have home: "row_home ?d q x" if q: "q \<in> set (partitions ?d)" "x \<in> set (pt_rows q)" for q x
  proof -
    obtain q0 where q0: "q0 \<in> set (partitions d)" "q = ?up q0" using q(1) unfolding parts(1) by auto
    have b: "pt_bound q = pt_bound q0" using q0(2) by simp
    have in_b: "(\<exists>q' \<in> set (partitions ?d). in_bound (pt_bound q') s) = (\<exists>q' \<in> set (partitions d). in_bound (pt_bound q') s)" for s
    proof -
      have "map pt_bound (partitions ?d) = map pt_bound (partitions d)" unfolding parts by simp
      then have "pt_bound ` set (partitions ?d) = pt_bound ` set (partitions d)" by (metis set_map)
      then show ?thesis by (metis (no_types, lifting) imageE imageI)
    qed
    show ?thesis
    proof (cases "x \<in> set (pt_rows q0)")
      case True
      then show ?thesis using parts_okD(3) [OF assms(1) q0(1)] in_b b unfolding row_home_def by metis
    next
      case False
      then have "x = r" "q0 = p" using q(2) q0 uniq by (auto split: if_splits)
      then show ?thesis using route_home [OF assms(2)] in_b b unfolding row_home_def by metis
    qed
  qed
  have "mset (map fix_key (all_fixes ?d)) = mset (fix_key r # map fix_key (all_fixes d))"
    using mset_add_row [OF assms(1) pin, of r] by simp
  then have dist: "distinct (map fix_key (all_fixes ?d))"
    using parts_okD(4) [OF assms(1)] assms(3) mset_eq_imp_distinct_iff by fastforce
  have over: "\<not> overlaps (pt_bound q) (pt_bound q') \<and> \<not> (pt_bound q = Default \<and> pt_bound q' = Default)"
    if q: "q \<in> set (partitions ?d)" "q' \<in> set (partitions ?d)" "q \<noteq> q'" for q q'
  proof -
    obtain a b where ab: "a \<in> set (partitions d)" "q = ?up a" "b \<in> set (partitions d)" "q' = ?up b"
      using q(1,2) unfolding parts(1) by auto
    then have "a \<noteq> b" using q(3) by blast
    moreover have "pt_bound q = pt_bound a" "pt_bound q' = pt_bound b" unfolding ab(2,4) by (rule bnd)+
    ultimately show ?thesis using parts_okD(2,6) [OF assms(1) ab(1,3)] by auto
  qed
  show ?thesis
    unfolding parts_ok_def
  proof (intro conjI ballI impI)
    show "distinct (map pt_name (partitions ?d))" unfolding names by (rule parts_okD(1) [OF assms(1)])
    show "set (relations ?d) \<inter> pt_name ` set (partitions ?d) = {}"
      unfolding nset parts(2) by (rule parts_okD(5) [OF assms(1)])
    show "distinct (map fix_key (all_fixes ?d))" by (rule dist)
    show "row_home ?d q x" if "q \<in> set (partitions ?d)" "x \<in> set (pt_rows q)" for q x
      using that by (rule home)
    fix q q' assume "q \<in> set (partitions ?d)" "q' \<in> set (partitions ?d)" "q \<noteq> q'"
    then show "\<not> overlaps (pt_bound q) (pt_bound q')" "\<not> (pt_bound q = Default \<and> pt_bound q' = Default)"
      using over by blast+
  qed
qed

lemma stores_refl: "stores_at_most pg f d (d\<lparr>faults := fs\<rparr>)"
  by (simp add: stores_at_most_def)

lemma stores_extends: "extends_parts d d1 \<Longrightarrow> stores_at_most pg f d d1"
  by (simp add: stores_at_most_def extends_parts_def)

lemma same_tables:
  assumes "d'\<lparr>partitions := [], faults := []\<rparr> = d\<lparr>partitions := [], faults := []\<rparr>"
  shows "devices d' = devices d" "clock d' = clock d" "viewers d' = viewers d" "geofences d' = geofences d"
    "families d' = families d" "subs d' = subs d" "events d' = events d" "relations d' = relations d"
  using assms by (cases d; cases d'; simp)+

text \<open>Provisioning and then inserting, or inserting twice, is again at most one insert.\<close>

lemma stores_trans:
  assumes "stores_at_most pg f d d1" "stores_at_most pg f d1 d2"
  shows "stores_at_most pg f d d2"
proof -
  have s: "d1\<lparr>partitions := [], faults := []\<rparr> = d\<lparr>partitions := [], faults := []\<rparr>"
    using assms(1) by (simp add: stores_at_most_def)
  note t = same_tables [OF s]
  have r: "fix_to_row pg dev f d1 = fix_to_row pg dev f d" for dev using t by (intro fix_to_row_cong) simp
  have "mset (all_fixes d2) = mset (all_fixes d)
      \<or> (\<exists>dev. uuid_in pg (DeviceID f) = Some dev \<and> dev \<in> dev_id ` set (devices d) \<and> fix_checks f
           \<and> (dev, pg_time (TS f)) \<notin> fix_key ` set (all_fixes d)
           \<and> mset (all_fixes d2) = add_mset (fix_to_row pg dev f d) (mset (all_fixes d)))"
    using assms unfolding stores_at_most_def r t(1) set_all_fixes_mset
    by (elim conjE disjE exE) auto
  then show ?thesis using assms s unfolding stores_at_most_def by simp
qed

lemma stores_subset: "stores_at_most pg f d e \<Longrightarrow> set (all_fixes d) \<subseteq> set (all_fixes e)"
proof -
  assume "stores_at_most pg f d e"
  then have "mset (all_fixes d) \<subseteq># mset (all_fixes e)"
    unfolding stores_at_most_def by (elim conjE disjE exE) simp_all
  then show ?thesis using set_mset_mono by fastforce
qed

lemma upsertFixSQL_ok:
  assumes "parts_ok d" "upsertFixSQL pg f d = (Inr n, d')"
  shows "stores_at_most pg f d d' \<and> (n = 0 \<or> n = 1)
     \<and> (n = 1 \<longleftrightarrow> mset (all_fixes d') \<noteq> mset (all_fixes d))
     \<and> (\<exists>dev. uuid_in pg (DeviceID f) = Some dev \<and> (dev, pg_time (TS f)) \<in> fix_key ` set (all_fixes d'))"
proof -
  obtain dev p where u: "uuid_in pg (DeviceID f) = Some dev" "route d (pg_time (TS f)) = Some p" "fix_checks f"
    and c: "n = 0 \<and> d' = d \<and> (\<exists>r \<in> set (pt_rows p). fix_key r = (dev, pg_time (TS f)))
      \<or> n = 1 \<and> d' = add_row p (fix_to_row pg dev f d) d \<and> dev \<in> dev_id ` set (devices d)
        \<and> \<not> (\<exists>r \<in> set (pt_rows p). fix_key r = (dev, pg_time (TS f)))"
    using assms(2) by (auto simp: upsertFixSQL_def split: option.splits if_splits)
  have pin: "p \<in> set (partitions d)" using route_in u(2) .
  from c show ?thesis
  proof (elim disjE conjE)
    assume n: "n = 0" "d' = d" and ex: "\<exists>r \<in> set (pt_rows p). fix_key r = (dev, pg_time (TS f))"
    have "(dev, pg_time (TS f)) \<in> fix_key ` set (all_fixes d)"
      using ex pin by (force simp: set_all_fixes image_iff)
    then show ?thesis using n u stores_refl [of pg f d "faults d"] by simp
  next
    assume n: "n = 1" "d' = add_row p (fix_to_row pg dev f d) d" and dev: "dev \<in> dev_id ` set (devices d)"
      and no: "\<not> (\<exists>r \<in> set (pt_rows p). fix_key r = (dev, pg_time (TS f)))"
    have fresh: "(dev, pg_time (TS f)) \<notin> fix_key ` set (all_fixes d)"
      using key_in_routed [OF assms(1) u(2)] no by blast
    have m: "mset (all_fixes d') = add_mset (fix_to_row pg dev f d) (mset (all_fixes d))"
      using mset_add_row [OF assms(1) pin] n by simp
    have "fx_ts (fix_to_row pg dev f d) = pg_time (TS f)" by (simp add: fix_to_row_def)
    then have "parts_ok d'" using add_row_ok [OF assms(1)] u(2) fresh n by simp
    moreover have "d'\<lparr>partitions := [], faults := []\<rparr> = d\<lparr>partitions := [], faults := []\<rparr>"
      using n by (simp add: add_row_def)
    ultimately have "stores_at_most pg f d d'"
      using m u dev fresh unfolding stores_at_most_def by auto
    moreover have "(dev, pg_time (TS f)) \<in> fix_key ` set (all_fixes d')"
      unfolding set_all_fixes_mset m by simp
    ultimately show ?thesis using n u m by simp
  qed
qed

lemma UpsertFix_stores: "parts_ok d \<Longrightarrow> stores_at_most pg f d (snd (UpsertFix pg f d))"
proof -
  assume ok: "parts_ok d"
  have "stores_at_most pg f d (snd (run (upsertFixSQL pg f) d))"
  proof (rule upsert_fix.run_rel)
    show "stores_at_most pg f d (d\<lparr>faults := fs\<rparr>)" for fs by (rule stores_refl)
    fix fs x d' assume "upsertFixSQL pg f (d\<lparr>faults := fs\<rparr>) = (Inr x, d')"
    then have "stores_at_most pg f (d\<lparr>faults := fs\<rparr>) d'" using upsertFixSQL_ok [of "d\<lparr>faults := fs\<rparr>"] ok by simp
    then show "stores_at_most pg f d d'" using stores_trans stores_refl by blast
  qed
  then show ?thesis
    using stores_refl [of pg f d "faults d"]
    by (auto simp: UpsertFix_def split: option.splits prod.splits sum.splits)
qed

lemma stores_parts_ok: "stores_at_most pg f d d' \<Longrightarrow> parts_ok d \<Longrightarrow> parts_ok d'"
  by (simp add: stores_at_most_def)

lemma IngestFix_stores:
  assumes "parts_ok d"
  shows "stores_at_most pg f d (snd (IngestFix pg f t d))"
proof -
  define d1 where "d1 = snd (UpsertFix pg f d)"
  define d2 where "d2 = snd (EnsureMonthlyPartition (TS f) d1)"
  have s1: "stores_at_most pg f d d1" unfolding d1_def by (rule UpsertFix_stores [OF assms])
  have s2: "stores_at_most pg f d1 d2"
    unfolding d2_def by (rule stores_extends [OF EnsureMonthlyPartition_extends])
  have ok2: "parts_ok d2" using stores_parts_ok s1 s2 assms by blast
  have s3: "stores_at_most pg f d2 (snd (UpsertFix pg f d2))" by (rule UpsertFix_stores [OF ok2])
  obtain r1 r2 where r: "UpsertFix pg f d = (r1, d1)" "EnsureMonthlyPartition (TS f) d1 = (r2, d2)"
    unfolding d1_def d2_def by (metis prod.collapse)
  have "snd (IngestFix pg f t d) \<in> {d\<lparr>faults := faults d\<rparr>, d1, d2, snd (UpsertFix pg f d2)}"
    using r by (cases r1; cases r2) (simp_all add: IngestFix_def split: option.split)
  moreover have "stores_at_most pg f d d2" using s1 s2 by (rule stores_trans)
  moreover from this s3 have "stores_at_most pg f d (snd (UpsertFix pg f d2))" by (rule stores_trans)
  ultimately show ?thesis using s1 stores_refl [of pg f d "faults d"] by (elim insertE emptyE) simp_all
qed

section \<open>Success, replay and healing\<close>

lemma run_Inr_stored:
  assumes "parts_ok d" "run (upsertFixSQL pg f) d = (Inr n, d')"
  shows "(n = 1 \<longleftrightarrow> mset (all_fixes d') \<noteq> mset (all_fixes d))
     \<and> (\<exists>dev. uuid_in pg (DeviceID f) = Some dev \<and> (dev, pg_time (TS f)) \<in> fix_key ` set (all_fixes d'))"
proof -
  obtain fs where "upsertFixSQL pg f (d\<lparr>faults := fs\<rparr>) = (Inr n, d')" using assms(2) by (rule upsert_fix.run_okE)
  then show ?thesis using upsertFixSQL_ok [of "d\<lparr>faults := fs\<rparr>" pg f n d'] assms(1) by simp
qed

lemma UpsertFix_Inr:
  assumes "parts_ok d" "UpsertFix pg f d = (Inr b, d')"
  shows "(b \<longleftrightarrow> mset (all_fixes d') \<noteq> mset (all_fixes d)) \<and> in_range (Lon f) (Lat f)
     \<and> (\<exists>dev. uuid_in pg (DeviceID f) = Some dev \<and> (dev, pg_time (TS f)) \<in> fix_key ` set (all_fixes d'))"
proof -
  obtain n where "run (upsertFixSQL pg f) d = (Inr n, d')" "b = (n = 1)" "in_range (Lon f) (Lat f)"
    using assms(2) by (auto simp: UpsertFix_def ValidateLonLat_iff [symmetric] split: option.splits prod.splits sum.splits)
  then show ?thesis using run_Inr_stored [OF assms(1)] by blast
qed

lemma UpsertFix_invalid: "\<not> in_range (Lon f) (Lat f) \<Longrightarrow> UpsertFix pg f d = (Inl ErrCoordinateOutOfRange, d)"
  using ValidateLonLat_iff [of "Lon f" "Lat f"] ValidateLonLat_error
  by (cases "ValidateLonLat (Lon f) (Lat f)") (auto simp: UpsertFix_def)

lemma validateFixTimestamp_iff:
  "validateFixTimestamp ts t = (if ts - t \<le> 24 * hour \<and> t - ts \<le> 90 * 24 * hour then None else Some ErrTimestampOutOfWindow)"
  by (auto simp: validateFixTimestamp_def MaxIngestFutureSkew_def MaxIngestBacklog_def)

text \<open>
  Whatever statements fail, one call of \<open>IngestFix\<close> leaves the stored fixes alone or adds exactly
  one row: the reporting device's, at the reported microsecond, at the reported coordinates (which
  were in range), stamped with the database's clock, under a key that was not stored before. No other
  row, table or account changes, and the table stays well-formed. PostGIS is assumed to store an
  in-range coordinate unchanged.
\<close>

theorem IngestFix_writes_one_row:
  assumes "parts_ok d"
    and "\<And>lon lat. in_range lon lat \<Longrightarrow> geog_point pg lon lat = (lon, lat)"
    and "IngestFix pg f t d = (r, d')"
  shows "parts_ok d' \<and> d'\<lparr>partitions := [], faults := []\<rparr> = d\<lparr>partitions := [], faults := []\<rparr>
    \<and> (mset (all_fixes d') = mset (all_fixes d)
       \<or> in_range (Lon f) (Lat f) \<and> (\<exists>row. mset (all_fixes d') = add_mset row (mset (all_fixes d))
           \<and> Some (fx_device row) = uuid_in pg (DeviceID f) \<and> fx_ts row = pg_time (TS f)
           \<and> fx_lon row = Lon f \<and> fx_lat row = Lat f \<and> fx_received row = now d
           \<and> fix_key row \<notin> fix_key ` set (all_fixes d)))"
proof -
  have s: "stores_at_most pg f d d'" using IngestFix_stores [OF assms(1), of pg f t] assms(3) by simp
  show ?thesis
  proof (cases "in_range (Lon f) (Lat f)")
    case True
    then have "geog_point pg (Lon f) (Lat f) = (Lon f, Lat f)" by (rule assms(2))
    then show ?thesis using s assms(1) True unfolding stores_at_most_def
      by (auto simp: fix_to_row_def fix_key_def)
  next
    case False
    then have "UpsertFix pg f e = (Inl ErrCoordinateOutOfRange, e)" for e by (rule UpsertFix_invalid)
    then have "d' = d"
      using assms(3) by (auto simp: IngestFix_def isMissingPartitionErr_def split: option.splits)
    then show ?thesis using assms(1) by simp
  qed
qed

theorem IngestFix_writes_one_row_witness:
  "\<exists>r d'. IngestFix sample_pg sample_fix day (sample_db [Unacked (PgError ''57P01'' ''shutdown'')]) = (r, d') \<and> parts_ok d'"
proof -
  let ?d = "sample_db [Unacked (PgError ''57P01'' ''shutdown'')]"
  obtain r d' where i: "IngestFix sample_pg sample_fix day ?d = (r, d')" by fastforce
  then have "parts_ok d'"
    using IngestFix_writes_one_row [OF sample_ok(1) _ i] by (simp add: sample_ok(3))
  then show ?thesis using i by blast
qed

text \<open>
  C19: A fix whose timestamp is more than 24 hours ahead of or more than 90 days behind the server's
  clock, or whose coordinates are not a point of the globe, is refused with its typed error before any
  statement is sent: the database is unchanged.
\<close>

theorem IngestFix_rejects:
  "(24 * hour < TS f - t \<or> 90 * 24 * hour < t - TS f \<longrightarrow> IngestFix pg f t d = (Inl ErrTimestampOutOfWindow, d))
   \<and> (TS f - t \<le> 24 * hour \<and> t - TS f \<le> 90 * 24 * hour \<and> \<not> in_range (Lon f) (Lat f)
       \<longrightarrow> IngestFix pg f t d = (Inl ErrCoordinateOutOfRange, d))"
  by (auto simp: IngestFix_def validateFixTimestamp_iff UpsertFix_invalid isMissingPartitionErr_def)

theorem IngestFix_rejects_witness:
  "IngestFix sample_pg sample_fix (- 1) (sample_db []) = (Inl ErrTimestampOutOfWindow, sample_db [])
   \<and> IngestFix sample_pg (sample_fix\<lparr>Lat := NaN\<rparr>) day (sample_db []) = (Inl ErrCoordinateOutOfRange, sample_db [])"
proof (intro conjI)
  show "IngestFix sample_pg sample_fix (- 1) (sample_db []) = (Inl ErrTimestampOutOfWindow, sample_db [])"
    using IngestFix_rejects [of sample_fix "- 1"] by (simp add: sample_fix_ok day_def hour_def second_def)
  show "IngestFix sample_pg (sample_fix\<lparr>Lat := NaN\<rparr>) day (sample_db []) = (Inl ErrCoordinateOutOfRange, sample_db [])"
    using IngestFix_rejects [of "sample_fix\<lparr>Lat := NaN\<rparr>" day]
    by (simp add: sample_fix_def day_def hour_def second_def in_range_def)
qed

lemma UpsertFix_stored:
  assumes "parts_ok d" "UpsertFix pg f d = (Inr b, d')"
  shows "parts_ok d' \<and> (\<exists>dev. uuid_in pg (DeviceID f) = Some dev \<and> (dev, pg_time (TS f)) \<in> fix_key ` set (all_fixes d'))
    \<and> (b \<longrightarrow> mset (all_fixes d') \<noteq> mset (all_fixes d))"
  using UpsertFix_Inr [OF assms] stores_parts_ok [OF UpsertFix_stores] assms by (metis snd_conv)

lemma distinct_count_key:
  assumes "distinct (map f xs)" "k \<in> f ` set xs"
  shows "length (filter (\<lambda>x. f x = k) xs) = 1"
  using assms
proof (induction xs)
  case (Cons x xs)
  have "filter (\<lambda>x. f x = k) xs = []" if "f x = k" using that Cons.prems(1) by (auto simp: filter_empty_conv) (metis imageI)
  then show ?case using Cons by auto
qed simp

lemma IngestFix_split:
  assumes "parts_ok d" "IngestFix pg f t d = (Inr inserted, d')"
  obtains e where "UpsertFix pg f e = (Inr inserted, d')" "stores_at_most pg f d e" "parts_ok e"
proof -
  define d1 where "d1 = snd (UpsertFix pg f d)"
  define d2 where "d2 = snd (EnsureMonthlyPartition (TS f) d1)"
  obtain r1 r2 where r: "UpsertFix pg f d = (r1, d1)" "EnsureMonthlyPartition (TS f) d1 = (r2, d2)"
    unfolding d1_def d2_def by (metis prod.collapse)
  have "stores_at_most pg f d d1" unfolding d1_def by (rule UpsertFix_stores [OF assms(1)])
  moreover have "stores_at_most pg f d1 d2"
    unfolding d2_def by (rule stores_extends [OF EnsureMonthlyPartition_extends])
  ultimately have s2: "stores_at_most pg f d d2" by (rule stores_trans)
  have "UpsertFix pg f d = (Inr inserted, d') \<or> UpsertFix pg f d2 = (Inr inserted, d')"
    using assms(2) r by (cases r1; cases r2) (simp_all add: IngestFix_def split: option.splits if_splits)
  then show thesis
    using s2 stores_refl [of pg f d "faults d"] assms(1) stores_parts_ok [OF s2] that by auto
qed

lemma IngestFix_key:
  assumes "parts_ok d" "IngestFix pg f t d = (Inr inserted, d')"
  shows "\<exists>dev. uuid_in pg (DeviceID f) = Some dev \<and> (dev, pg_time (TS f)) \<in> fix_key ` set (all_fixes d')"
  using assms by (rule IngestFix_split) (use UpsertFix_stored in blast)

lemma IngestFix_stored_once:
  assumes "parts_ok d" "IngestFix pg f t d = (Inr inserted, d')"
  shows "\<exists>dev. uuid_in pg (DeviceID f) = Some dev
    \<and> length (filter (\<lambda>r. fix_key r = (dev, pg_time (TS f))) (all_fixes d')) = 1
    \<and> (inserted \<longrightarrow> (dev, pg_time (TS f)) \<notin> fix_key ` set (all_fixes d))"
proof -
  have s: "stores_at_most pg f d d'" using IngestFix_stores [OF assms(1), of pg f t] assms(2) by simp
  obtain e where e: "UpsertFix pg f e = (Inr inserted, d')" "stores_at_most pg f d e" "parts_ok e"
    using assms by (rule IngestFix_split)
  then obtain dev where dev: "uuid_in pg (DeviceID f) = Some dev" "(dev, pg_time (TS f)) \<in> fix_key ` set (all_fixes d')"
    and new: "inserted \<longrightarrow> mset (all_fixes d') \<noteq> mset (all_fixes e)"
    using UpsertFix_stored [OF e(3,1)] by blast
  have se: "stores_at_most pg f e d'"
    using UpsertFix_stores [OF e(3), of pg f] e(1) by simp
  have "(dev, pg_time (TS f)) \<notin> fix_key ` set (all_fixes d)" if inserted
  proof -
    have "(dev, pg_time (TS f)) \<notin> fix_key ` set (all_fixes e)"
      using se new that dev(1) by (auto simp: stores_at_most_def)
    moreover have "set (all_fixes d) \<subseteq> set (all_fixes e)" using e(2) by (rule stores_subset)
    ultimately show ?thesis by blast
  qed
  moreover have "distinct (map fix_key (all_fixes d'))" using parts_okD(4) stores_parts_ok [OF s assms(1)] by blast
  from distinct_count_key [OF this dev(2)]
  have "length (filter (\<lambda>r. fix_key r = (dev, pg_time (TS f))) (all_fixes d')) = 1" .
  ultimately show ?thesis using dev(1) by blast
qed

text \<open>
  C1: An acknowledged fix is stored exactly once, under every schedule of failures: when \<open>IngestFix\<close>
  returns without an error, exactly one row has the device and microsecond of the report; when it
  reports an insertion, that row was not there before.
\<close>

theorem IngestFix_acknowledged:
  assumes "parts_ok d" "IngestFix pg f t d = (Inr inserted, d')"
  shows "\<exists>dev. uuid_in pg (DeviceID f) = Some dev
    \<and> length (filter (\<lambda>r. fix_key r = (dev, pg_time (TS f))) (all_fixes d')) = 1
    \<and> (inserted \<longrightarrow> (dev, pg_time (TS f)) \<notin> fix_key ` set (all_fixes d))"
  using assms by (rule IngestFix_stored_once)

lemma month_begin_micro: "month_begin k mod 1000 = 0"
  by (simp add: month_begin_def day_def second_def)

lemma pg_time_bounds: "pg_time t \<le> t" "t < pg_time t + 1000"
  unfolding pg_time_def by linarith+

lemma month_of_pg_time [simp]: "month_of (pg_time t) = month_of t"
proof (rule month_of_unique)
  have "month_begin (month_of t) \<le> t" using month_of_bounds by blast
  then have "month_begin (month_of t) div 1000 \<le> t div 1000" by (rule zdiv_mono1) simp
  then show "month_begin (month_of t) \<le> pg_time t"
    using month_begin_micro [of "month_of t"] unfolding pg_time_def by (auto simp: mod_eq_0_iff_dvd elim!: dvdE)
  show "pg_time t < month_begin (month_of t + 1)"
    using month_of_bounds [of t] pg_time_bounds(1) [of t] by linarith
qed

lemma upsert_clean:
  assumes "parts_ok d" "route d (pg_time (TS f)) = Some p" "uuid_in pg (DeviceID f) = Some dev"
    and "dev \<in> dev_id ` set (devices d)" "fix_text f" "fix_checks f" "in_range (Lon f) (Lat f)" "faults d = []"
  shows "\<exists>d'. UpsertFix pg f d = (Inr ((dev, pg_time (TS f)) \<notin> fix_key ` set (all_fixes d)), d')
      \<and> ((dev, pg_time (TS f)) \<in> fix_key ` set (all_fixes d) \<longrightarrow> d' = d) \<and> faults d' = []"
proof -
  have k: "(\<exists>r \<in> set (pt_rows p). fix_key r = (dev, pg_time (TS f))) \<longleftrightarrow> (dev, pg_time (TS f)) \<in> fix_key ` set (all_fixes d)"
    using key_in_routed [OF assms(1,2)] route_in [OF assms(2)] unfolding set_all_fixes image_iff by (metis UN_I)
  show ?thesis
    using assms(2-) k ValidateLonLat_iff [of "Lon f" "Lat f"]
    by (auto simp: UpsertFix_def run_clean upsertFixSQL_def add_row_def)
qed

lemma upsert_unrouted:
  assumes "route d (pg_time (TS f)) = None" "uuid_in pg (DeviceID f) = Some dev"
    and "fix_text f" "in_range (Lon f) (Lat f)" "faults d = []"
  shows "\<exists>e. UpsertFix pg f d = (Inl e, d) \<and> isMissingPartitionErr e"
proof -
  have "contains ''no partition of relation fixes found for row'' ''no partition of relation''" by simp
  then show ?thesis
    using assms ValidateLonLat_iff [of "Lon f" "Lat f"]
    by (auto simp: UpsertFix_def run_clean upsertFixSQL_def isMissingPartitionErr_def)
qed

lemma route_cover:
  assumes "p \<in> set (partitions d)" "in_bound (pt_bound p) t \<or> pt_bound p = Default"
  shows "route d t \<noteq> None"
proof (cases "find (\<lambda>p. in_bound (pt_bound p) t) (partitions d)")
  case None
  then have "find (\<lambda>p. pt_bound p = Default) (partitions d) \<noteq> None"
    using assms unfolding find_None_iff by blast
  then show ?thesis using None by (simp add: route_def)
qed (simp add: route_def)

text \<open>A stored row's timestamp is routed.\<close>

lemma UpsertFix_route:
  assumes "parts_ok d" "UpsertFix pg f d = (Inr b, d')"
  shows "route d' (pg_time (TS f)) \<noteq> None"
proof -
  have ok: "parts_ok d'" and "\<exists>dev. (dev, pg_time (TS f)) \<in> fix_key ` set (all_fixes d')"
    using UpsertFix_stored [OF assms] by blast+
  then obtain q r where q: "q \<in> set (partitions d')" "r \<in> set (pt_rows q)" "fx_ts r = pg_time (TS f)"
    by (auto simp: set_all_fixes fix_key_def)
  then show ?thesis using parts_okD(3) [OF ok q(1,2)] route_cover [OF q(1)] by (auto simp: row_home_def)
qed

lemma EnsureMonthly_routes:
  assumes "parts_ok d'" "EnsureMonthlyPartition month d = (Inr name, d')" "month_of t = month_of month"
  shows "\<exists>p. route d' t = Some p"
proof -
  obtain p where p: "p \<in> set (partitions d')"
    "pt_bound p = Range (Some (monthStart month)) (Some (AddMonths (monthStart month) 1))"
    using EnsureMonthlyPartition_success(1) [OF assms(2)] by blast
  then have "in_bound (pt_bound p) t"
    using month_of_bounds [of t] assms(3) by (simp add: monthStart_def AddMonths_def)
  then show ?thesis using route_cover [OF p(1)] by blast
qed

lemma ingest_heals:
  assumes "parts_ok d" "faults d = []"
    and "uuid_in pg (DeviceID f) = Some dev" "dev \<in> dev_id ` set (devices d)"
    and "fix_text f" "fix_checks f" "in_range (Lon f) (Lat f)"
    and "route d (pg_time (TS f)) \<noteq> None \<or> month_free d (monthStart (TS f))"
    and "TS f - t \<le> 24 * hour" "t - TS f \<le> 90 * 24 * hour"
    and "TS f - t' \<le> 24 * hour" "t' - TS f \<le> 90 * 24 * hour"
  shows "\<exists>d'. IngestFix pg f t d = (Inr ((dev, pg_time (TS f)) \<notin> fix_key ` set (all_fixes d)), d')
      \<and> IngestFix pg f t' d' = (Inr False, d')"
proof -
  let ?new = "(dev, pg_time (TS f)) \<notin> fix_key ` set (all_fixes d)"
  have v: "validateFixTimestamp (TS f) t = None" "validateFixTimestamp (TS f) t' = None"
    using assms(9-12) by (simp_all add: validateFixTimestamp_iff)
  have replay: "IngestFix pg f t' d' = (Inr False, d')"
    if i: "IngestFix pg f t d = (Inr b, d')" "faults d' = []" "route d' (pg_time (TS f)) \<noteq> None" for b d'
  proof -
    have s: "stores_at_most pg f d d'" using IngestFix_stores [OF assms(1), of pg f t] i by simp
    have dv: "devices d' = devices d" using s same_tables(1) [of d' d] by (simp add: stores_at_most_def)
    obtain q where q: "route d' (pg_time (TS f)) = Some q" using i(3) by blast
    have "(dev, pg_time (TS f)) \<in> fix_key ` set (all_fixes d')"
      using IngestFix_key [OF assms(1) i(1)] assms(3) by simp
    then have "UpsertFix pg f d' = (Inr False, d')"
      using upsert_clean [OF stores_parts_ok [OF s assms(1)] q assms(3)] assms(4-7) i(2) dv by auto
    then show ?thesis using v by (simp add: IngestFix_def)
  qed
  have direct: ?thesis if p: "route d (pg_time (TS f)) = Some p" for p
  proof -
    obtain d' where d': "UpsertFix pg f d = (Inr ?new, d')" "faults d' = []"
      using upsert_clean [OF assms(1) p assms(3)] assms by blast
    then have "IngestFix pg f t d = (Inr ?new, d')" using v by (simp add: IngestFix_def)
    moreover have "route d' (pg_time (TS f)) \<noteq> None" using UpsertFix_route [OF assms(1) d'(1)] .
    ultimately show ?thesis using replay d'(2) by blast
  qed
  have heal: ?thesis if n: "route d (pg_time (TS f)) = None" "month_free d (monthStart (TS f))"
  proof -
    obtain e where e: "UpsertFix pg f d = (Inl e, d)" "isMissingPartitionErr e"
      using upsert_unrouted [OF n(1) assms(3)] assms by blast
    obtain d2 where d2: "EnsureMonthlyPartition (TS f) d = (Inr (partitionName (monthStart (TS f))), d2)"
      and same: "all_fixes d2 = all_fixes d" "faults d2 = []" "devices d2 = devices d"
      using EnsureMonthlyPartition_free [OF assms(2) n(2)] assms(2) by (auto simp: all_fixes_def)
    have ok2: "parts_ok d2" using EnsureMonthlyPartition_extends [of d "TS f"] d2 assms(1) by (simp add: extends_parts_def)
    obtain p where p: "route d2 (pg_time (TS f)) = Some p"
      using EnsureMonthly_routes [OF ok2 d2, of "pg_time (TS f)"] by auto
    obtain d' where d': "UpsertFix pg f d2 = (Inr ?new, d')" "faults d' = []"
      using upsert_clean [OF ok2 p assms(3)] assms(4-7) same by auto
    then have "IngestFix pg f t d = (Inr ?new, d')" using v e d2 by (simp add: IngestFix_def)
    moreover have "route d' (pg_time (TS f)) \<noteq> None" using UpsertFix_route [OF ok2 d'(1)] .
    ultimately show ?thesis using replay d'(2) by blast
  qed
  show ?thesis using direct heal assms(8) by (cases "route d (pg_time (TS f))") auto
qed

text \<open>
  C8: The server heals a missing month. With no failing statement, a valid fix of an enrolled device
  inside the window is accepted whenever its month has a partition or could be given one; the result
  says whether the fix was new, and a replay at any later clock inside the window is accepted, reports
  no insertion and changes nothing.
\<close>

theorem IngestFix_heals_and_replays:
  assumes "parts_ok d" "faults d = []"
    and "uuid_in pg (DeviceID f) = Some dev" "dev \<in> dev_id ` set (devices d)"
    and "fix_text f" "fix_checks f" "in_range (Lon f) (Lat f)"
    and "route d (pg_time (TS f)) \<noteq> None \<or> month_free d (monthStart (TS f))"
    and "TS f - t \<le> 24 * hour" "t - TS f \<le> 90 * 24 * hour"
    and "TS f - t' \<le> 24 * hour" "t' - TS f \<le> 90 * 24 * hour"
  shows "\<exists>d'. IngestFix pg f t d = (Inr ((dev, pg_time (TS f)) \<notin> fix_key ` set (all_fixes d)), d')
      \<and> IngestFix pg f t' d' = (Inr False, d')"
  using assms by (rule ingest_heals)

theorem IngestFix_heals_and_replays_witness:
  "\<exists>d'. IngestFix sample_pg sample_fix day (sample_db []) = (Inr True, d')
     \<and> IngestFix sample_pg sample_fix (3 * day) d' = (Inr False, d')"
proof -
  have "(''d1'', pg_time (TS sample_fix)) \<notin> fix_key ` set (all_fixes (sample_db []))"
    by (simp add: sample_db_def empty_db_def all_fixes_def)
  then show ?thesis
    using IngestFix_heals_and_replays [of "sample_db []" sample_pg sample_fix "''d1''" day "3 * day"]
      sample_ok sample_fix_ok by (simp add: day_def hour_def second_def)
qed

theorem IngestFix_acknowledged_witness:
  "case IngestFix sample_pg sample_fix day (sample_db []) of
     (Inl _, _) \<Rightarrow> False
   | (Inr inserted, d') \<Rightarrow> length (filter (\<lambda>r. fix_key r = (''d1'', day)) (all_fixes d')) = 1"
proof -
  obtain r d' where i: "IngestFix sample_pg sample_fix day (sample_db []) = (r, d')" by fastforce
  obtain b where r: "r = Inr b"
    using ingest_heals [of "sample_db []" sample_pg sample_fix "''d1''" day day] i
      sample_ok sample_fix_ok by (auto simp: day_def hour_def second_def)
  have "pg_time (TS sample_fix) = day" by code_simp
  then show ?thesis
    using IngestFix_acknowledged [OF sample_ok(1) i [unfolded r]] i r sample_fix_ok(4) by auto
qed

end
