(* ===== verification/Requests.thy ===== *)
theory Requests
  imports Fixes
begin

text \<open>
  What the handlers of \<open>internal/server\<close> read from a request: JSON bodies, strictly or leniently
  decoded, and query parameters. Scanning bytes into a JSON value is the parameter
  \<open>json_parse\<close>; how \<open>encoding/json\<close> fills a struct from that value is modelled: field names match
  exactly or up to case, unknown fields are refused in strict mode, \<open>null\<close> clears an optional field,
  the last of several equal keys wins, and a value of the wrong kind or out of range is an error.
\<close>

section \<open>JSON\<close>

datatype json = JNull | JBool bool | JNumber string | JString string | JArray "json list" | JObject "(string \<times> json) list"

text \<open>
  What the handlers take from the runtime: the scanner (the value and what follows it in the bytes it
  was given, or an error), \<open>strconv.ParseFloat\<close>, the rounded
  quotient by 3.6, \<open>strings.ToLower\<close> and \<open>uuid.Parse\<close>.
\<close>

record runtime =
  json_parse :: "string \<Rightarrow> (json \<times> string) option"
  parse_float :: "string \<Rightarrow> float64 option"
  per_3_6 :: "float64 \<Rightarrow> float64"
  unicode_lower :: "string \<Rightarrow> string"
  uuid_parse :: "string \<Rightarrow> bool"

record request =
  rq_authorization :: string
  rq_query :: "string \<Rightarrow> string"
  rq_id :: string
  rq_body :: string

text \<open>
  \<open>encoding/json\<close> folds a key by mapping every rune to the least rune of its simple-folding orbit. Among
  non-ASCII runes only the long s and the Kelvin sign fold to an ASCII letter.
\<close>

fun fold_name :: "string \<Rightarrow> string" where
  "fold_name (a # b # c # s) =
     (if a = CHR 0xC5 \<and> b = CHR 0xBF then CHR ''s'' # fold_name (c # s)
      else if a = CHR 0xE2 \<and> b = CHR 0x84 \<and> c = CHR 0xAA then CHR ''k'' # fold_name s
      else ascii_lower a # fold_name (b # c # s))"
| "fold_name [a, b] = (if a = CHR 0xC5 \<and> b = CHR 0xBF then ''s'' else [ascii_lower a, ascii_lower b])"
| "fold_name [a] = [ascii_lower a]"
| "fold_name [] = []"

definition lookup_field :: "string list \<Rightarrow> string \<Rightarrow> string option" where
  "lookup_field names key =
     (if key \<in> set names then Some key else find (\<lambda>n. fold_name n = fold_name key) names)"

fun decode_fields :: "bool \<Rightarrow> string list \<Rightarrow> (string \<Rightarrow> json \<Rightarrow> 'a \<Rightarrow> 'a option) \<Rightarrow> (string \<times> json) list \<Rightarrow> 'a \<Rightarrow> 'a option" where
  "decode_fields strict names put [] r = Some r"
| "decode_fields strict names put ((k, v) # kvs) r =
     (case lookup_field names k of
        None \<Rightarrow> if strict then None else decode_fields strict names put kvs r
      | Some n \<Rightarrow> (case put n v r of None \<Rightarrow> None | Some r' \<Rightarrow> decode_fields strict names put kvs r'))"

definition decode_struct :: "bool \<Rightarrow> string list \<Rightarrow> (string \<Rightarrow> json \<Rightarrow> 'a \<Rightarrow> 'a option) \<Rightarrow> json \<Rightarrow> 'a \<Rightarrow> 'a option" where
  "decode_struct strict names put v r =
     (case v of JObject kvs \<Rightarrow> decode_fields strict names put kvs r | JNull \<Rightarrow> Some r | _ \<Rightarrow> None)"

text \<open>The pointer fields: \<open>*float64\<close>, \<open>*int64\<close>, \<open>*int16\<close> and \<open>*string\<close>.\<close>

definition get_float :: "runtime \<Rightarrow> json \<Rightarrow> float64 option option" where
  "get_float rt v = (case v of JNull \<Rightarrow> Some None | JNumber n \<Rightarrow> map_option Some (parse_float rt n) | _ \<Rightarrow> None)"

definition get_int :: "int \<Rightarrow> int \<Rightarrow> json \<Rightarrow> int option option" where
  "get_int lo hi v =
     (case v of
        JNull \<Rightarrow> Some None
      | JNumber n \<Rightarrow> (case ParseInt n of Inr i \<Rightarrow> if lo \<le> i \<and> i \<le> hi then Some (Some i) else None | Inl _ \<Rightarrow> None)
      | _ \<Rightarrow> None)"

definition get_int64 :: "json \<Rightarrow> int option option" where "get_int64 = get_int (- (2 ^ 63)) (2 ^ 63 - 1)"
definition get_int16 :: "json \<Rightarrow> int option option" where "get_int16 = get_int (- (2 ^ 15)) (2 ^ 15 - 1)"

definition get_string :: "json \<Rightarrow> string option option" where
  "get_string v = (case v of JNull \<Rightarrow> Some None | JString s \<Rightarrow> Some (Some s) | _ \<Rightarrow> None)"

text \<open>A string field of a struct: \<open>null\<close> leaves it as it is.\<close>

definition set_string :: "(string \<Rightarrow> 'a \<Rightarrow> 'a) \<Rightarrow> json \<Rightarrow> 'a \<Rightarrow> 'a option" where
  "set_string upd v r = map_option (\<lambda>x. case x of None \<Rightarrow> r | Some s \<Rightarrow> upd s r) (get_string v)"

text \<open>
  \<open>Decoder.More\<close>: another value seems to follow. A closing bracket or brace is the end of an enclosing
  value for it, not more input.
\<close>

definition json_space :: "char \<Rightarrow> bool" where "json_space c \<longleftrightarrow> c \<in> {CHR '' '', CHR 0x09, CHR 0x0A, CHR 0x0D}"

definition decoder_more :: "string \<Rightarrow> bool" where
  "decoder_more rest = (case dropWhile json_space rest of [] \<Rightarrow> False | c # _ \<Rightarrow> c \<noteq> CHR '']'' \<and> c \<noteq> CHR ''}'')"

text \<open>
  \<open>http.MaxBytesReader\<close> lets 64 KiB through and then fails. The decoder notices an object or array end by
  itself; any other value ends only with the byte after it or with the end of the input, which a body
  over the cap does not have. \<open>More\<close> takes the failure for the end.
\<close>

definition maxBodyBytes :: nat where "maxBodyBytes = 65536"

definition needs_end :: "json \<Rightarrow> bool" where
  "needs_end v \<longleftrightarrow> (case v of JObject _ \<Rightarrow> False | JArray _ \<Rightarrow> False | _ \<Rightarrow> True)"

definition read_value :: "runtime \<Rightarrow> string \<Rightarrow> (json \<times> string) option" where
  "read_value rt body =
     (case json_parse rt (take maxBodyBytes body) of
        None \<Rightarrow> None
      | Some (v, rest) \<Rightarrow> if maxBodyBytes < length body \<and> rest = [] \<and> needs_end v then None else Some (v, rest))"

lemma read_value_small: "length body \<le> maxBodyBytes \<Longrightarrow> read_value rt body = json_parse rt body"
  by (auto simp: read_value_def split: option.splits)

definition decodeStrict :: "runtime \<Rightarrow> string list \<Rightarrow> (string \<Rightarrow> json \<Rightarrow> 'a \<Rightarrow> 'a option) \<Rightarrow> 'a \<Rightarrow> string \<Rightarrow> 'a option" where
  "decodeStrict rt names put r0 body =
     (case read_value rt body of
        None \<Rightarrow> None
      | Some (v, rest) \<Rightarrow>
          (case decode_struct True names put v r0 of
             None \<Rightarrow> None
           | Some r \<Rightarrow> if decoder_more rest then None else Some r))"

section \<open>The bodies\<close>

record fixRequest =
  fq_lat :: "float64 option"
  fq_lon :: "float64 option"
  fq_ts :: "int option"
  fq_accuracy :: "float64 option"
  fq_battery :: "int option"
  fq_speed :: "float64 option"
  fq_trigger :: "string option"
  fq_msg_id :: "string option"

definition fix_names :: "string list" where
  "fix_names = [''lat'', ''lon'', ''ts'', ''accuracy'', ''battery'', ''speed'', ''trigger'', ''msg_id'']"

definition put_fix :: "runtime \<Rightarrow> string \<Rightarrow> json \<Rightarrow> fixRequest \<Rightarrow> fixRequest option" where
  "put_fix rt n v r =
     (if n = ''lat'' then map_option (\<lambda>x. r\<lparr>fq_lat := x\<rparr>) (get_float rt v)
      else if n = ''lon'' then map_option (\<lambda>x. r\<lparr>fq_lon := x\<rparr>) (get_float rt v)
      else if n = ''ts'' then map_option (\<lambda>x. r\<lparr>fq_ts := x\<rparr>) (get_int64 v)
      else if n = ''accuracy'' then map_option (\<lambda>x. r\<lparr>fq_accuracy := x\<rparr>) (get_float rt v)
      else if n = ''battery'' then map_option (\<lambda>x. r\<lparr>fq_battery := x\<rparr>) (get_int16 v)
      else if n = ''speed'' then map_option (\<lambda>x. r\<lparr>fq_speed := x\<rparr>) (get_float rt v)
      else if n = ''trigger'' then map_option (\<lambda>x. r\<lparr>fq_trigger := x\<rparr>) (get_string v)
      else map_option (\<lambda>x. r\<lparr>fq_msg_id := x\<rparr>) (get_string v))"

definition no_fix_request :: fixRequest where
  "no_fix_request = \<lparr>fq_lat = None, fq_lon = None, fq_ts = None, fq_accuracy = None, fq_battery = None, fq_speed = None,
     fq_trigger = None, fq_msg_id = None\<rparr>"

record owntracksRequest =
  ot_type :: "string option"
  ot_lat :: "float64 option"
  ot_lon :: "float64 option"
  ot_tst :: "int option"
  ot_acc :: "float64 option"
  ot_batt :: "int option"
  ot_vel :: "float64 option"
  ot_t :: "string option"

definition owntracks_names :: "string list" where
  "owntracks_names = [''_type'', ''lat'', ''lon'', ''tst'', ''acc'', ''batt'', ''vel'', ''t'']"

definition put_owntracks :: "runtime \<Rightarrow> string \<Rightarrow> json \<Rightarrow> owntracksRequest \<Rightarrow> owntracksRequest option" where
  "put_owntracks rt n v r =
     (if n = ''_type'' then map_option (\<lambda>x. r\<lparr>ot_type := x\<rparr>) (get_string v)
      else if n = ''lat'' then map_option (\<lambda>x. r\<lparr>ot_lat := x\<rparr>) (get_float rt v)
      else if n = ''lon'' then map_option (\<lambda>x. r\<lparr>ot_lon := x\<rparr>) (get_float rt v)
      else if n = ''tst'' then map_option (\<lambda>x. r\<lparr>ot_tst := x\<rparr>) (get_int64 v)
      else if n = ''acc'' then map_option (\<lambda>x. r\<lparr>ot_acc := x\<rparr>) (get_float rt v)
      else if n = ''batt'' then map_option (\<lambda>x. r\<lparr>ot_batt := x\<rparr>) (get_int16 v)
      else if n = ''vel'' then map_option (\<lambda>x. r\<lparr>ot_vel := x\<rparr>) (get_float rt v)
      else map_option (\<lambda>x. r\<lparr>ot_t := x\<rparr>) (get_string v))"

definition no_owntracks_request :: owntracksRequest where
  "no_owntracks_request = \<lparr>ot_type = None, ot_lat = None, ot_lon = None, ot_tst = None, ot_acc = None, ot_batt = None,
     ot_vel = None, ot_t = None\<rparr>"

record pushSubscriptionRequest =
  sq_provider :: "string option"
  sq_token :: "string option"
  sq_replaces :: "string option"

definition push_names :: "string list" where
  "push_names = [''provider'', ''token'', ''replaces_token'']"

definition put_push :: "string \<Rightarrow> json \<Rightarrow> pushSubscriptionRequest \<Rightarrow> pushSubscriptionRequest option" where
  "put_push n v r =
     (if n = ''provider'' then map_option (\<lambda>x. r\<lparr>sq_provider := x\<rparr>) (get_string v)
      else if n = ''token'' then map_option (\<lambda>x. r\<lparr>sq_token := x\<rparr>) (get_string v)
      else map_option (\<lambda>x. r\<lparr>sq_replaces := x\<rparr>) (get_string v))"

definition no_push_request :: pushSubscriptionRequest where
  "no_push_request = \<lparr>sq_provider = None, sq_token = None, sq_replaces = None\<rparr>"

section \<open>Query parameters\<close>

text \<open>\<open>strconv.Atoi\<close> on a 64-bit platform agrees with \<open>ParseInt\<close> in base 10.\<close>

definition epochParam :: "request \<Rightarrow> string \<Rightarrow> instant option" where
  "epochParam r name =
     (let s = rq_query r name
      in if s = [] then Some zero_time
         else case ParseInt s of Inl _ \<Rightarrow> None | Inr secs \<Rightarrow> Some (time_Unix secs))"

definition parseWindow :: "request \<Rightarrow> (instant \<times> instant) option" where
  "parseWindow r =
     (case epochParam r ''from'' of
        None \<Rightarrow> None
      | Some f \<Rightarrow> (case epochParam r ''to'' of None \<Rightarrow> None | Some t \<Rightarrow> Some (f, t)))"

definition defaultHistoryLimit :: int where "defaultHistoryLimit = 100"

definition int_param :: "request \<Rightarrow> string \<Rightarrow> int \<Rightarrow> int option" where
  "int_param r name def =
     (let s = rq_query r name in if s = [] then Some def else case ParseInt s of Inl _ \<Rightarrow> None | Inr n \<Rightarrow> Some n)"

definition parsePage :: "request \<Rightarrow> (int \<times> int) option" where
  "parsePage r =
     (case int_param r ''limit'' defaultHistoryLimit of
        None \<Rightarrow> None
      | Some l \<Rightarrow> (case int_param r ''offset'' 0 of None \<Rightarrow> None | Some off \<Rightarrow> Some (l, off)))"

definition floatParam :: "runtime \<Rightarrow> request \<Rightarrow> string \<Rightarrow> float64 option" where
  "floatParam rt r name = (let s = rq_query r name in if s = [] then None else parse_float rt s)"

definition isNotFinite :: "float64 \<Rightarrow> bool" where
  "isNotFinite x \<longleftrightarrow> IsNaN x \<or> IsInf x"

definition bad_metric :: "float64 option \<Rightarrow> bool" where
  "bad_metric x = (case x of None \<Rightarrow> False | Some v \<Rightarrow> flt v (Fin 0) \<or> isNotFinite v)"

text \<open>\<open>True\<close> when the metrics are acceptable.\<close>

definition validateOptionalMetrics :: "float64 option \<Rightarrow> int option \<Rightarrow> float64 option \<Rightarrow> bool" where
  "validateOptionalMetrics accuracy battery speed \<longleftrightarrow>
     \<not> bad_metric accuracy \<and> \<not> bad_metric speed \<and> (case battery of None \<Rightarrow> True | Some b \<Rightarrow> 0 \<le> b \<and> b \<le> 100)"

end
