(* ===== verification/Accounts.thy ===== *)
theory Accounts
  imports Fixes
begin

text \<open>
  Families, devices and viewers (\<open>internal/store/entities.go\<close>): enrolment, the credential lookups and
  token rotation. Devices and viewers are two tables with the same credential shape; what is proved of
  a credential table is proved once, in the locale \<open>credential_table\<close>, and interpreted for both.
\<close>

section \<open>Statements\<close>

definition TokenHashLen :: nat where "TokenHashLen = 32"

text \<open>The rows affected, or returned, by the statements of \<open>entities.go\<close>.\<close>

definition insert_family_sql :: "string \<Rightarrow> uuid stmt" where
  "insert_family_sql name d =
     (case gen_random_uuid d of (i, d1) \<Rightarrow>
        if \<not> pg_text name then (Inl (PgError ''22021'' ''invalid byte sequence for encoding''), d)
        else if pg_blank name then (Inl (PgError ''23514'' ''families_name_check''), d)
        else if i \<in> fam_id ` set (families d) then (Inl (PgError ''23505'' ''families_pkey''), d)
        else (Inr i, d1\<lparr>families := families d @ [\<lparr>fam_id = i, fam_name = name\<rparr>]\<rparr>))"

definition insert_device_sql :: "pg \<Rightarrow> string \<Rightarrow> string \<Rightarrow> string \<Rightarrow> uuid stmt" where
  "insert_device_sql pg familyID name hash d =
     (case gen_random_uuid d of (i, d1) \<Rightarrow>
        case uuid_in pg familyID of
          None \<Rightarrow> (Inl (DriverError ''cannot encode uuid''), d)
        | Some fam \<Rightarrow>
            if \<not> pg_text name then (Inl (PgError ''22021'' ''invalid byte sequence for encoding''), d)
            else if pg_blank name \<or> length hash \<noteq> 32 then (Inl (PgError ''23514'' ''devices check''), d)
            else if i \<in> dev_id ` set (devices d) \<or> hash \<in> dev_hash ` set (devices d)
            then (Inl (PgError ''23505'' ''devices unique''), d)
            else if fam \<notin> fam_id ` set (families d) then (Inl (PgError ''23503'' ''devices_family_id_fkey''), d)
            else (Inr i, d1\<lparr>devices := devices d @ [\<lparr>dev_id = i, dev_family = fam, dev_name = name,
                    dev_hash = hash, dev_expires = None\<rparr>]\<rparr>))"

definition insert_viewer_sql :: "pg \<Rightarrow> string \<Rightarrow> string \<Rightarrow> string \<Rightarrow> string \<Rightarrow> uuid stmt" where
  "insert_viewer_sql pg familyID email displayName hash d =
     (case gen_random_uuid d of (i, d1) \<Rightarrow>
        case uuid_in pg familyID of
          None \<Rightarrow> (Inl (DriverError ''cannot encode uuid''), d)
        | Some fam \<Rightarrow>
            if \<not> pg_text email \<or> \<not> pg_text displayName then (Inl (PgError ''22021'' ''invalid byte sequence for encoding''), d)
            else if pg_blank email \<or> pg_blank displayName \<or> length hash \<noteq> 32 then (Inl (PgError ''23514'' ''viewers check''), d)
            else if i \<in> vw_id ` set (viewers d) \<or> hash \<in> vw_hash ` set (viewers d)
              \<or> pg_lower pg email \<in> (\<lambda>v. pg_lower pg (vw_email v)) ` set (viewers d)
            then (Inl (PgError ''23505'' ''viewers unique''), d)
            else if fam \<notin> fam_id ` set (families d) then (Inl (PgError ''23503'' ''viewers_family_id_fkey''), d)
            else (Inr i, d1\<lparr>viewers := viewers d @ [\<lparr>vw_id = i, vw_family = fam, vw_email = email,
                    vw_display = displayName, vw_hash = hash, vw_expires = None\<rparr>]\<rparr>))"

text \<open>\<open>expires_at IS NULL OR expires_at > now()\<close>.\<close>

definition unexpired :: "instant option \<Rightarrow> db \<Rightarrow> bool" where
  "unexpired e d = (case e of None \<Rightarrow> True | Some t \<Rightarrow> now d < t)"

lemma unexpired_clock: "clock d = clock d' \<Longrightarrow> unexpired e d = unexpired e d'"
  by (simp add: unexpired_def now_def split: option.splits)

lemma unexpired_faults [simp]: "unexpired e (d\<lparr>faults := fs\<rparr>) = unexpired e d"
  by (rule unexpired_clock) simp

definition device_by_hash_sql :: "string \<Rightarrow> device_row list stmt" where
  "device_by_hash_sql h d = (Inr (filter (\<lambda>r. dev_hash r = h \<and> unexpired (dev_expires r) d) (devices d)), d)"

definition viewer_by_hash_sql :: "string \<Rightarrow> viewer_row list stmt" where
  "viewer_by_hash_sql h d = (Inr (filter (\<lambda>r. vw_hash r = h \<and> unexpired (vw_expires r) d) (viewers d)), d)"

definition device_by_id_sql :: "pg \<Rightarrow> string \<Rightarrow> device_row list stmt" where
  "device_by_id_sql pg i d =
     (case uuid_in pg i of
        None \<Rightarrow> (Inl (DriverError ''cannot encode uuid''), d)
      | Some u \<Rightarrow> (Inr (filter (\<lambda>r. dev_id r = u) (devices d)), d))"

definition set_device_token :: "string \<Rightarrow> instant option \<Rightarrow> device_row \<Rightarrow> device_row" where
  "set_device_token h e r = r\<lparr>dev_hash := h, dev_expires := map_option pg_time e\<rparr>"

definition set_viewer_token :: "string \<Rightarrow> instant option \<Rightarrow> viewer_row \<Rightarrow> viewer_row" where
  "set_viewer_token h e r = r\<lparr>vw_hash := h, vw_expires := map_option pg_time e\<rparr>"

definition rotate_device_sql :: "pg \<Rightarrow> string \<Rightarrow> string \<Rightarrow> instant option \<Rightarrow> nat stmt" where
  "rotate_device_sql pg i h e d =
     (case uuid_in pg i of
        None \<Rightarrow> (Inl (DriverError ''cannot encode uuid''), d)
      | Some u \<Rightarrow>
          let n = length (filter (\<lambda>r. dev_id r = u) (devices d))
          in if n = 0 then (Inr 0, d)
             else if length h \<noteq> 32 then (Inl (PgError ''23514'' ''devices check''), d)
             else if \<exists>r \<in> set (devices d). dev_id r \<noteq> u \<and> dev_hash r = h then (Inl (PgError ''23505'' ''devices unique''), d)
             else (Inr n, d\<lparr>devices := map (\<lambda>r. if dev_id r = u then set_device_token h e r else r) (devices d)\<rparr>))"

definition rotate_viewer_sql :: "pg \<Rightarrow> string \<Rightarrow> string \<Rightarrow> instant option \<Rightarrow> nat stmt" where
  "rotate_viewer_sql pg i h e d =
     (case uuid_in pg i of
        None \<Rightarrow> (Inl (DriverError ''cannot encode uuid''), d)
      | Some u \<Rightarrow>
          let n = length (filter (\<lambda>r. vw_id r = u) (viewers d))
          in if n = 0 then (Inr 0, d)
             else if length h \<noteq> 32 then (Inl (PgError ''23514'' ''viewers check''), d)
             else if \<exists>r \<in> set (viewers d). vw_id r \<noteq> u \<and> vw_hash r = h then (Inl (PgError ''23505'' ''viewers unique''), d)
             else (Inr n, d\<lparr>viewers := map (\<lambda>r. if vw_id r = u then set_viewer_token h e r else r) (viewers d)\<rparr>))"

interpretation insert_family: statement "insert_family_sql name" for name
  by unfold_locales (auto simp: insert_family_sql_def gen_random_uuid_def split: if_splits)

interpretation insert_device: statement "insert_device_sql pg fam name h" for pg fam name h
  by unfold_locales (auto simp: insert_device_sql_def gen_random_uuid_def split: if_splits option.splits)

interpretation insert_viewer: statement "insert_viewer_sql pg fam email name h" for pg fam email name h
  by unfold_locales (auto simp: insert_viewer_sql_def gen_random_uuid_def split: if_splits option.splits)

interpretation device_by_hash: statement "device_by_hash_sql h" for h
  by unfold_locales (auto simp: device_by_hash_sql_def)

interpretation viewer_by_hash: statement "viewer_by_hash_sql h" for h
  by unfold_locales (auto simp: viewer_by_hash_sql_def)

interpretation device_by_id: statement "device_by_id_sql pg i" for pg i
  by unfold_locales (auto simp: device_by_id_sql_def split: option.splits)

interpretation rotate_device: statement "rotate_device_sql pg i h e" for pg i h e
  by unfold_locales (auto simp: rotate_device_sql_def Let_def split: if_splits option.splits)

interpretation rotate_viewer: statement "rotate_viewer_sql pg i h e" for pg i h e
  by unfold_locales (auto simp: rotate_viewer_sql_def Let_def split: if_splits option.splits)

section \<open>Operations\<close>

record Device =
  Device_ID :: string
  Device_FamilyID :: string
  Device_Name :: string

record Viewer =
  Viewer_ID :: string
  Viewer_FamilyID :: string
  Viewer_Email :: string
  Viewer_DisplayName :: string

definition to_Device :: "device_row \<Rightarrow> Device" where
  "to_Device r = \<lparr>Device_ID = dev_id r, Device_FamilyID = dev_family r, Device_Name = dev_name r\<rparr>"

definition to_Viewer :: "viewer_row \<Rightarrow> Viewer" where
  "to_Viewer r = \<lparr>Viewer_ID = vw_id r, Viewer_FamilyID = vw_family r, Viewer_Email = vw_email r,
     Viewer_DisplayName = vw_display r\<rparr>"

definition CreateFamily :: "string \<Rightarrow> db \<Rightarrow> (store_error + string) \<times> db" where
  "CreateFamily name d =
     (case run (insert_family_sql name) d of (Inl e, d1) \<Rightarrow> (Inl (StPg e), d1) | (Inr i, d1) \<Rightarrow> (Inr i, d1))"

definition CreateDevice :: "pg \<Rightarrow> string \<Rightarrow> string \<Rightarrow> string \<Rightarrow> db \<Rightarrow> (store_error + string) \<times> db" where
  "CreateDevice pg familyID name tokenHash d =
     (if length tokenHash \<noteq> TokenHashLen then (Inl ErrInvalidTokenHash, d)
      else case run (insert_device_sql pg familyID name tokenHash) d of
             (Inl e, d1) \<Rightarrow> (Inl (StPg e), d1)
           | (Inr i, d1) \<Rightarrow> (Inr i, d1))"

text \<open>\<open>QueryRow\<close> reads the first row; no row is \<open>pgx.ErrNoRows\<close>.\<close>

definition AuthenticateDevice :: "string \<Rightarrow> db \<Rightarrow> (store_error + Device) \<times> db" where
  "AuthenticateDevice tokenHash d =
     (if length tokenHash \<noteq> TokenHashLen then (Inl ErrInvalidTokenHash, d)
      else case run (device_by_hash_sql tokenHash) d of
             (Inl e, d1) \<Rightarrow> (Inl (StPg e), d1)
           | (Inr [], d1) \<Rightarrow> (Inl ErrUnknownToken, d1)
           | (Inr (r # _), d1) \<Rightarrow> (Inr (to_Device r), d1))"

definition RotateDeviceToken :: "pg \<Rightarrow> string \<Rightarrow> string \<Rightarrow> instant option \<Rightarrow> db \<Rightarrow> (store_error + bool) \<times> db" where
  "RotateDeviceToken pg deviceID newHash expiresAt d =
     (if length newHash \<noteq> TokenHashLen then (Inl ErrInvalidTokenHash, d)
      else case run (rotate_device_sql pg deviceID newHash expiresAt) d of
             (Inl e, d1) \<Rightarrow> (Inl (StPg e), d1)
           | (Inr n, d1) \<Rightarrow> (Inr (0 < n), d1))"

definition DeviceByID :: "pg \<Rightarrow> string \<Rightarrow> db \<Rightarrow> (store_error + Device) \<times> db" where
  "DeviceByID pg deviceID d =
     (case run (device_by_id_sql pg deviceID) d of
        (Inl e, d1) \<Rightarrow> (Inl (StPg e), d1)
      | (Inr [], d1) \<Rightarrow> (Inl ErrUnknownDevice, d1)
      | (Inr (r # _), d1) \<Rightarrow> (Inr (to_Device r), d1))"

definition CreateViewer :: "pg \<Rightarrow> string \<Rightarrow> string \<Rightarrow> string \<Rightarrow> string \<Rightarrow> db \<Rightarrow> (store_error + string) \<times> db" where
  "CreateViewer pg familyID email displayName tokenHash d =
     (if length tokenHash \<noteq> TokenHashLen then (Inl ErrInvalidTokenHash, d)
      else case run (insert_viewer_sql pg familyID email displayName tokenHash) d of
             (Inl e, d1) \<Rightarrow> (Inl (StPg e), d1)
           | (Inr i, d1) \<Rightarrow> (Inr i, d1))"

definition AuthenticateViewer :: "string \<Rightarrow> db \<Rightarrow> (store_error + Viewer) \<times> db" where
  "AuthenticateViewer tokenHash d =
     (if length tokenHash \<noteq> TokenHashLen then (Inl ErrInvalidTokenHash, d)
      else case run (viewer_by_hash_sql tokenHash) d of
             (Inl e, d1) \<Rightarrow> (Inl (StPg e), d1)
           | (Inr [], d1) \<Rightarrow> (Inl ErrUnknownToken, d1)
           | (Inr (r # _), d1) \<Rightarrow> (Inr (to_Viewer r), d1))"

definition RotateViewerToken :: "pg \<Rightarrow> string \<Rightarrow> string \<Rightarrow> instant option \<Rightarrow> db \<Rightarrow> (store_error + bool) \<times> db" where
  "RotateViewerToken pg viewerID newHash expiresAt d =
     (if length newHash \<noteq> TokenHashLen then (Inl ErrInvalidTokenHash, d)
      else case run (rotate_viewer_sql pg viewerID newHash expiresAt) d of
             (Inl e, d1) \<Rightarrow> (Inl (StPg e), d1)
           | (Inr n, d1) \<Rightarrow> (Inr (0 < n), d1))"

section \<open>What a credential table promises\<close>

locale credential_table =
  fixes rows :: "db \<Rightarrow> 'r list"
    and rid :: "'r \<Rightarrow> uuid" and rhash :: "'r \<Rightarrow> string" and rexp :: "'r \<Rightarrow> instant option"
    and view :: "'r \<Rightarrow> 'a"
    and set_token :: "string \<Rightarrow> instant option \<Rightarrow> 'r \<Rightarrow> 'r"
    and lookup :: "string \<Rightarrow> db \<Rightarrow> (store_error + 'a) \<times> db"
    and rotate :: "pg \<Rightarrow> string \<Rightarrow> string \<Rightarrow> instant option \<Rightarrow> db \<Rightarrow> (store_error + bool) \<times> db"
  assumes set_token: "rid (set_token h e r) = rid r" "rhash (set_token h e r) = h"
      "rexp (set_token h e r) = map_option pg_time e"
    and lookup_clean: "faults d = [] \<Longrightarrow> length h = TokenHashLen \<Longrightarrow> lookup h d =
      (case filter (\<lambda>r. rhash r = h \<and> unexpired (rexp r) d) (rows d) of
         [] \<Rightarrow> (Inl ErrUnknownToken, d) | r # _ \<Rightarrow> (Inr (view r), d))"
    and lookup_ok: "lookup h d = (Inr x, d') \<Longrightarrow>
      \<exists>r \<in> set (rows d). x = view r \<and> rhash r = h \<and> unexpired (rexp r) d"
    and lookup_reads: "\<exists>fs. snd (lookup h d) = d\<lparr>faults := fs\<rparr>"
    and rotate_ok: "rotate pg i h e d = (Inr True, d') \<Longrightarrow> length h = TokenHashLen \<and> clock d' = clock d \<and>
      (\<exists>u. uuid_in pg i = Some u \<and> u \<in> rid ` set (rows d) \<and> (\<forall>r \<in> set (rows d). rid r \<noteq> u \<longrightarrow> rhash r \<noteq> h)
         \<and> rows d' = map (\<lambda>r. if rid r = u then set_token h e r else r) (rows d))"
begin

definition well_keyed :: "db \<Rightarrow> bool" where
  "well_keyed d \<longleftrightarrow> distinct (map rid (rows d)) \<and> distinct (map rhash (rows d))"

lemma lookup_unique:
  assumes "well_keyed d" "faults d = []" "r \<in> set (rows d)" "unexpired (rexp r) d" "length (rhash r) = TokenHashLen"
  shows "lookup (rhash r) d = (Inr (view r), d)"
proof -
  have "filter (\<lambda>x. rhash x = rhash r \<and> unexpired (rexp x) d) (rows d) \<noteq> []"
    using assms(3,4) by (auto simp: filter_empty_conv)
  moreover have "x = r" if "x \<in> set (filter (\<lambda>x. rhash x = rhash r \<and> unexpired (rexp x) d) (rows d))" for x
    using that assms(1,3) by (auto simp: well_keyed_def distinct_map dest: inj_onD)
  ultimately show ?thesis
    using lookup_clean [OF assms(2,5)] by (cases "filter (\<lambda>x. rhash x = rhash r \<and> unexpired (rexp x) d) (rows d)") auto
qed

text \<open>After a rotation the old token is dead, whatever fails, and the new one lives until its expiry.\<close>

lemma rotate_no_old:
  assumes "well_keyed d" "rotate pg i h e d = (Inr True, d')" "uuid_in pg i = Some (rid r)"
    and "r \<in> set (rows d)" "rhash r \<noteq> h"
  shows "q \<in> set (rows d') \<Longrightarrow> rhash q \<noteq> rhash r"
proof
  assume q: "q \<in> set (rows d')" "rhash q = rhash r"
  have "rows d' = map (\<lambda>x. if rid x = rid r then set_token h e x else x) (rows d)"
    using rotate_ok [OF assms(2)] assms(3) by auto
  then obtain p where p: "p \<in> set (rows d)" "q = (if rid p = rid r then set_token h e p else p)"
    using q(1) by auto
  show False
  proof (cases "rid p = rid r")
    case True
    then show False using p q(2) assms(5) set_token(2) by simp
  next
    case False
    then have "p = r" using p q(2) assms(1,4) by (auto simp: well_keyed_def distinct_map dest: inj_onD)
    then show False using False by simp
  qed
qed

lemma rotate_kills_old:
  assumes "well_keyed d" "rotate pg i h e d = (Inr True, d')" "uuid_in pg i = Some (rid r)"
    and "r \<in> set (rows d)" "rhash r \<noteq> h" "rows d2 = rows d'"
  shows "fst (lookup (rhash r) d2) \<noteq> Inr x"
proof
  assume "fst (lookup (rhash r) d2) = Inr x"
  then obtain d3 where "lookup (rhash r) d2 = (Inr x, d3)" by (metis prod.collapse)
  then show False using lookup_ok rotate_no_old [OF assms(1-5)] assms(6) by metis
qed

lemma rotate_new_works:
  assumes "well_keyed d" "rotate pg i h e d = (Inr True, d')" "uuid_in pg i = Some (rid r)"
    and "r \<in> set (rows d)" "faults d2 = []" "rows d2 = rows d'"
  shows "lookup h d2 = (if unexpired (map_option pg_time e) d2 then (Inr (view (set_token h e r)), d2)
                        else (Inl ErrUnknownToken, d2))"
proof -
  have ro: "length h = TokenHashLen" "clock d' = clock d" "\<forall>x \<in> set (rows d). rid x \<noteq> rid r \<longrightarrow> rhash x \<noteq> h"
    "rows d2 = map (\<lambda>x. if rid x = rid r then set_token h e x else x) (rows d)"
    using rotate_ok [OF assms(2)] assms(3,6) by auto
  have only: "x = set_token h e r" if x: "x \<in> set (rows d2)" "rhash x = h" for x
  proof -
    obtain p where p: "p \<in> set (rows d)" "x = (if rid p = rid r then set_token h e p else p)"
      using x(1) ro(4) by auto
    then have "rid p = rid r" using x(2) ro(3) by (cases "rid p = rid r") auto
    moreover from this have "p = r" using p(1) assms(1,4) by (auto simp: well_keyed_def distinct_map dest: inj_onD)
    ultimately show ?thesis using p by simp
  qed
  have mem: "set_token h e r \<in> set (rows d2)" using assms(4) unfolding ro(4) by force
  define F where "F = filter (\<lambda>x. rhash x = h \<and> unexpired (rexp x) d2) (rows d2)"
  have all: "x = set_token h e r \<and> unexpired (map_option pg_time e) d2" if "x \<in> set F" for x
    using that only set_token(3) [of h e r] by (auto simp: F_def)
  have "F \<noteq> [] \<longleftrightarrow> unexpired (map_option pg_time e) d2"
  proof
    assume "F \<noteq> []"
    then show "unexpired (map_option pg_time e) d2" using all by (cases F) auto
  next
    assume "unexpired (map_option pg_time e) d2"
    then have "set_token h e r \<in> set F" using mem set_token(2,3) [of h e r] by (simp add: F_def)
    then show "F \<noteq> []" by auto
  qed
  then show ?thesis
    unfolding lookup_clean [OF assms(5) ro(1)] F_def [symmetric] using all by (cases F) auto
qed

end

interpretation dev_cred: credential_table devices dev_id dev_hash dev_expires to_Device set_device_token
  AuthenticateDevice RotateDeviceToken
proof
  show "dev_id (set_device_token h e r) = dev_id r" "dev_hash (set_device_token h e r) = h"
    "dev_expires (set_device_token h e r) = map_option pg_time e" for h e r
    by (simp_all add: set_device_token_def)
  show "AuthenticateDevice h d = (case filter (\<lambda>r. dev_hash r = h \<and> unexpired (dev_expires r) d) (devices d) of
      [] \<Rightarrow> (Inl ErrUnknownToken, d) | r # _ \<Rightarrow> (Inr (to_Device r), d))"
    if "faults d = []" "length h = TokenHashLen" for d h
    using that by (simp add: AuthenticateDevice_def run_clean device_by_hash_sql_def split: list.splits)
  show "\<exists>r \<in> set (devices d). x = to_Device r \<and> dev_hash r = h \<and> unexpired (dev_expires r) d"
    if a: "AuthenticateDevice h d = (Inr x, d')" for h d x d'
  proof -
    obtain r rs where r: "run (device_by_hash_sql h) d = (Inr (r # rs), d')" "x = to_Device r"
      using a by (auto simp: AuthenticateDevice_def split: if_splits prod.splits sum.splits list.splits)
    from r(1) obtain fs where "device_by_hash_sql h (d\<lparr>faults := fs\<rparr>) = (Inr (r # rs), d')"
      by (rule device_by_hash.run_okE)
    then have "filter (\<lambda>r. dev_hash r = h \<and> unexpired (dev_expires r) (d\<lparr>faults := fs\<rparr>)) (devices d) = r # rs"
      by (auto simp: device_by_hash_sql_def)
    from filter_ConsD [OF this] show ?thesis using r(2) by auto
  qed
  show "\<exists>fs. snd (AuthenticateDevice h d) = d\<lparr>faults := fs\<rparr>" for h d
  proof -
    have "\<exists>fs. snd (run (device_by_hash_sql h) d) = d\<lparr>faults := fs\<rparr>"
      by (rule device_by_hash.run_rel) (auto simp: device_by_hash_sql_def)
    moreover have "snd (AuthenticateDevice h d) \<in> {d\<lparr>faults := faults d\<rparr>, snd (run (device_by_hash_sql h) d)}"
      by (auto simp: AuthenticateDevice_def split: prod.splits sum.splits list.splits)
    ultimately show ?thesis by (elim insertE emptyE) (blast, simp)
  qed
  show "length h = TokenHashLen \<and> clock d' = clock d \<and>
      (\<exists>u. uuid_in pg i = Some u \<and> u \<in> dev_id ` set (devices d) \<and> (\<forall>r \<in> set (devices d). dev_id r \<noteq> u \<longrightarrow> dev_hash r \<noteq> h)
         \<and> devices d' = map (\<lambda>r. if dev_id r = u then set_device_token h e r else r) (devices d))"
    if a: "RotateDeviceToken pg i h e d = (Inr True, d')" for pg i h e d d'
  proof -
    obtain n where n: "run (rotate_device_sql pg i h e) d = (Inr n, d')" "0 < n" "length h = TokenHashLen"
      using a by (auto simp: RotateDeviceToken_def split: if_splits prod.splits sum.splits)
    from n(1) obtain fs where "rotate_device_sql pg i h e (d\<lparr>faults := fs\<rparr>) = (Inr n, d')"
      by (rule rotate_device.run_okE)
    then show ?thesis using n(2,3)
      by (auto simp: rotate_device_sql_def Let_def filter_empty_conv split: option.splits if_splits)
  qed
qed

interpretation vw_cred: credential_table viewers vw_id vw_hash vw_expires to_Viewer set_viewer_token
  AuthenticateViewer RotateViewerToken
proof
  show "vw_id (set_viewer_token h e r) = vw_id r" "vw_hash (set_viewer_token h e r) = h"
    "vw_expires (set_viewer_token h e r) = map_option pg_time e" for h e r
    by (simp_all add: set_viewer_token_def)
  show "AuthenticateViewer h d = (case filter (\<lambda>r. vw_hash r = h \<and> unexpired (vw_expires r) d) (viewers d) of
      [] \<Rightarrow> (Inl ErrUnknownToken, d) | r # _ \<Rightarrow> (Inr (to_Viewer r), d))"
    if "faults d = []" "length h = TokenHashLen" for d h
    using that by (simp add: AuthenticateViewer_def run_clean viewer_by_hash_sql_def split: list.splits)
  show "\<exists>r \<in> set (viewers d). x = to_Viewer r \<and> vw_hash r = h \<and> unexpired (vw_expires r) d"
    if a: "AuthenticateViewer h d = (Inr x, d')" for h d x d'
  proof -
    obtain r rs where r: "run (viewer_by_hash_sql h) d = (Inr (r # rs), d')" "x = to_Viewer r"
      using a by (auto simp: AuthenticateViewer_def split: if_splits prod.splits sum.splits list.splits)
    from r(1) obtain fs where "viewer_by_hash_sql h (d\<lparr>faults := fs\<rparr>) = (Inr (r # rs), d')"
      by (rule viewer_by_hash.run_okE)
    then have "filter (\<lambda>r. vw_hash r = h \<and> unexpired (vw_expires r) (d\<lparr>faults := fs\<rparr>)) (viewers d) = r # rs"
      by (auto simp: viewer_by_hash_sql_def)
    from filter_ConsD [OF this] show ?thesis using r(2) by auto
  qed
  show "\<exists>fs. snd (AuthenticateViewer h d) = d\<lparr>faults := fs\<rparr>" for h d
  proof -
    have "\<exists>fs. snd (run (viewer_by_hash_sql h) d) = d\<lparr>faults := fs\<rparr>"
      by (rule viewer_by_hash.run_rel) (auto simp: viewer_by_hash_sql_def)
    moreover have "snd (AuthenticateViewer h d) \<in> {d\<lparr>faults := faults d\<rparr>, snd (run (viewer_by_hash_sql h) d)}"
      by (auto simp: AuthenticateViewer_def split: prod.splits sum.splits list.splits)
    ultimately show ?thesis by (elim insertE emptyE) (blast, simp)
  qed
  show "length h = TokenHashLen \<and> clock d' = clock d \<and>
      (\<exists>u. uuid_in pg i = Some u \<and> u \<in> vw_id ` set (viewers d) \<and> (\<forall>r \<in> set (viewers d). vw_id r \<noteq> u \<longrightarrow> vw_hash r \<noteq> h)
         \<and> viewers d' = map (\<lambda>r. if vw_id r = u then set_viewer_token h e r else r) (viewers d))"
    if a: "RotateViewerToken pg i h e d = (Inr True, d')" for pg i h e d d'
  proof -
    obtain n where n: "run (rotate_viewer_sql pg i h e) d = (Inr n, d')" "0 < n" "length h = TokenHashLen"
      using a by (auto simp: RotateViewerToken_def split: if_splits prod.splits sum.splits)
    from n(1) obtain fs where "rotate_viewer_sql pg i h e (d\<lparr>faults := fs\<rparr>) = (Inr n, d')"
      by (rule rotate_viewer.run_okE)
    then show ?thesis using n(2,3)
      by (auto simp: rotate_viewer_sql_def Let_def filter_empty_conv split: option.splits if_splits)
  qed
qed

section \<open>The account invariant\<close>

text \<open>
  Identifiers and credential digests are unique per table, digests are 32 bytes, every account belongs
  to a family that exists, and identifiers are in canonical form.
\<close>

definition accounts_ok :: "pg \<Rightarrow> db \<Rightarrow> bool" where
  "accounts_ok pg d \<longleftrightarrow>
     distinct (map dev_id (devices d)) \<and> distinct (map dev_hash (devices d))
     \<and> distinct (map vw_id (viewers d)) \<and> distinct (map vw_hash (viewers d))
     \<and> (\<forall>r \<in> set (devices d). length (dev_hash r) = 32 \<and> dev_family r \<in> fam_id ` set (families d)
          \<and> uuid_in pg (dev_id r) = Some (dev_id r) \<and> uuid_in pg (dev_family r) = Some (dev_family r))
     \<and> (\<forall>r \<in> set (viewers d). length (vw_hash r) = 32 \<and> vw_family r \<in> fam_id ` set (families d)
          \<and> uuid_in pg (vw_id r) = Some (vw_id r) \<and> uuid_in pg (vw_family r) = Some (vw_family r))
     \<and> (\<forall>r \<in> set (families d). uuid_in pg (fam_id r) = Some (fam_id r))
     \<and> (\<forall>n. uuid_in pg (uuids d n) = Some (uuids d n))"

lemma accounts_ok_cong:
  "devices d = devices d' \<Longrightarrow> viewers d = viewers d' \<Longrightarrow> families d = families d' \<Longrightarrow> uuids d = uuids d' \<Longrightarrow>
     accounts_ok pg d = accounts_ok pg d'"
  by (simp add: accounts_ok_def)

lemma accounts_ok_faults [simp]: "accounts_ok pg (d\<lparr>faults := fs\<rparr>) = accounts_ok pg d"
  by (rule accounts_ok_cong) simp_all

lemma accounts_okD:
  assumes "accounts_ok pg d"
  shows "dev_cred.well_keyed d" "vw_cred.well_keyed d"
    "r \<in> set (devices d) \<Longrightarrow> length (dev_hash r) = TokenHashLen \<and> uuid_in pg (dev_id r) = Some (dev_id r)
      \<and> uuid_in pg (dev_family r) = Some (dev_family r)"
    "v \<in> set (viewers d) \<Longrightarrow> length (vw_hash v) = TokenHashLen \<and> uuid_in pg (vw_id v) = Some (vw_id v)
      \<and> uuid_in pg (vw_family v) = Some (vw_family v)"
  using assms by (auto simp: accounts_ok_def dev_cred.well_keyed_def vw_cred.well_keyed_def TokenHashLen_def)

lemma insert_family_keeps: "accounts_ok pg d \<Longrightarrow> insert_family_sql name d = (Inr i, d') \<Longrightarrow> accounts_ok pg d'"
  by (auto simp: insert_family_sql_def gen_random_uuid_def accounts_ok_def split: if_splits)

lemma insert_device_keeps:
  "accounts_ok pg d \<Longrightarrow> insert_device_sql pg fam name h d = (Inr i, d') \<Longrightarrow> accounts_ok pg d'"
  by (auto simp: insert_device_sql_def gen_random_uuid_def accounts_ok_def split: if_splits option.splits)

lemma insert_viewer_keeps:
  "accounts_ok pg d \<Longrightarrow> insert_viewer_sql pg fam email name h d = (Inr i, d') \<Longrightarrow> accounts_ok pg d'"
  by (auto simp: insert_viewer_sql_def gen_random_uuid_def accounts_ok_def split: if_splits option.splits)

lemma distinct_map_update:
  assumes "distinct (map k xs)" "distinct (map f xs)" "\<And>x. x \<in> set xs \<Longrightarrow> k x \<noteq> u \<Longrightarrow> f x \<noteq> h" "\<And>x. f (g x) = h"
  shows "distinct (map f (map (\<lambda>x. if k x = u then g x else x) xs))"
  using assms(1-3)
proof (induction xs)
  case (Cons x xs)
  have IH: "distinct (map f (map (\<lambda>x. if k x = u then g x else x) xs))" using Cons by simp
  have "f x \<notin> f ` set xs" using Cons.prems(2) by simp
  then have old: "f y \<noteq> f x" if "y \<in> set xs" for y using that by (metis imageI)
  show ?case
  proof (cases "k x = u")
    case True
    then have "\<forall>y \<in> set xs. k y \<noteq> u" using Cons.prems(1) by simp (metis imageI)
    then have "\<forall>y \<in> set xs. f (if k y = u then g y else y) \<noteq> h" using Cons.prems(3) by auto
    then show ?thesis using IH True assms(4) by auto
  next
    case False
    then have "\<forall>y \<in> set xs. f (if k y = u then g y else y) \<noteq> f x"
      using old Cons.prems(3) [of x] assms(4) by auto
    then show ?thesis using IH False by auto
  qed
qed simp

lemma rotate_device_keeps:
  assumes "accounts_ok pg d" "rotate_device_sql pg i h e d = (Inr n, d')"
  shows "accounts_ok pg d'"
proof -
  consider "d' = d"
    | u where "d' = d\<lparr>devices := map (\<lambda>r. if dev_id r = u then set_device_token h e r else r) (devices d)\<rparr>"
      "length h = 32" "\<forall>r \<in> set (devices d). dev_id r \<noteq> u \<longrightarrow> dev_hash r \<noteq> h"
    using assms(2) by (auto simp: rotate_device_sql_def Let_def split: option.splits if_splits)
  then show ?thesis
  proof cases
    case 1
    then show ?thesis using assms(1) by simp
  next
    case 2
    have ids: "map dev_id (devices d') = map dev_id (devices d)" unfolding 2(1) by (simp add: set_device_token_def)
    have hashes: "distinct (map dev_hash (devices d'))"
      using distinct_map_update [of dev_id "devices d" dev_hash u h "set_device_token h e"] assms(1) 2(3)
      unfolding 2(1) by (simp add: accounts_ok_def set_device_token_def)
    have rows: "\<forall>r \<in> set (devices d'). length (dev_hash r) = 32 \<and> dev_family r \<in> fam_id ` set (families d)
          \<and> uuid_in pg (dev_id r) = Some (dev_id r) \<and> uuid_in pg (dev_family r) = Some (dev_family r)"
      using assms(1) 2(2) unfolding 2(1) by (auto simp: accounts_ok_def set_device_token_def)
    have "viewers d' = viewers d" "families d' = families d" "uuids d' = uuids d" unfolding 2(1) by simp_all
    then show ?thesis using assms(1) ids hashes rows unfolding accounts_ok_def by simp
  qed
qed

lemma rotate_viewer_keeps:
  assumes "accounts_ok pg d" "rotate_viewer_sql pg i h e d = (Inr n, d')"
  shows "accounts_ok pg d'"
proof -
  consider "d' = d"
    | u where "d' = d\<lparr>viewers := map (\<lambda>r. if vw_id r = u then set_viewer_token h e r else r) (viewers d)\<rparr>"
      "length h = 32" "\<forall>r \<in> set (viewers d). vw_id r \<noteq> u \<longrightarrow> vw_hash r \<noteq> h"
    using assms(2) by (auto simp: rotate_viewer_sql_def Let_def split: option.splits if_splits)
  then show ?thesis
  proof cases
    case 1
    then show ?thesis using assms(1) by simp
  next
    case 2
    have ids: "map vw_id (viewers d') = map vw_id (viewers d)" unfolding 2(1) by (simp add: set_viewer_token_def)
    have hashes: "distinct (map vw_hash (viewers d'))"
      using distinct_map_update [of vw_id "viewers d" vw_hash u h "set_viewer_token h e"] assms(1) 2(3)
      unfolding 2(1) by (simp add: accounts_ok_def set_viewer_token_def)
    have rows: "\<forall>r \<in> set (viewers d'). length (vw_hash r) = 32 \<and> vw_family r \<in> fam_id ` set (families d)
          \<and> uuid_in pg (vw_id r) = Some (vw_id r) \<and> uuid_in pg (vw_family r) = Some (vw_family r)"
      using assms(1) 2(2) unfolding 2(1) by (auto simp: accounts_ok_def set_viewer_token_def)
    have "devices d' = devices d" "families d' = families d" "uuids d' = uuids d" unfolding 2(1) by simp_all
    then show ?thesis using assms(1) ids hashes rows unfolding accounts_ok_def by simp
  qed
qed

text \<open>Every operation keeps the account invariant, whatever fails.\<close>

lemma run_keeps_accounts:
  assumes "statement f" "accounts_ok pg d" "\<And>e x e'. accounts_ok pg e \<Longrightarrow> f e = (Inr x, e') \<Longrightarrow> accounts_ok pg e'"
  shows "accounts_ok pg (snd (run f d))"
proof -
  have "accounts_ok pg d \<longrightarrow> accounts_ok pg (snd (run f d))"
  proof (rule statement.run_rel [OF assms(1)])
    show "accounts_ok pg d \<longrightarrow> accounts_ok pg (d\<lparr>faults := fs\<rparr>)" for fs by simp
    show "accounts_ok pg d \<longrightarrow> accounts_ok pg d'" if "f (d\<lparr>faults := fs\<rparr>) = (Inr x, d')" for fs x d'
      using that assms(3) [of "d\<lparr>faults := fs\<rparr>"] by simp
  qed
  then show ?thesis using assms(2) by blast
qed

lemma snd_wrap: "snd (case r of (Inl e, d1) \<Rightarrow> (Inl (f e), d1) | (Inr x, d1) \<Rightarrow> (Inr (g x), d1)) = snd r"
  by (auto split: prod.splits sum.splits)

lemmas account_statements = insert_family.statement_axioms insert_device.statement_axioms
  insert_viewer.statement_axioms rotate_device.statement_axioms rotate_viewer.statement_axioms

lemmas account_keeps = insert_family_keeps insert_device_keeps insert_viewer_keeps
  rotate_device_keeps rotate_viewer_keeps

text \<open>
  C21: Enrolment and rotation keep the accounts well-formed under every schedule of failures: ids and
  credential digests stay unique within each table, every digest is 32 bytes, and every account
  belongs to an existing family.
\<close>

theorem accounts_invariant:
  assumes "accounts_ok pg d"
  shows "accounts_ok pg (snd (CreateFamily name d))
    \<and> accounts_ok pg (snd (CreateDevice pg fam name h d))
    \<and> accounts_ok pg (snd (CreateViewer pg fam email name h d))
    \<and> accounts_ok pg (snd (RotateDeviceToken pg i h e d))
    \<and> accounts_ok pg (snd (RotateViewerToken pg i h e d))"
proof -
  have "accounts_ok pg (snd (run (insert_family_sql name) d))"
    by (rule run_keeps_accounts [OF account_statements(1) assms account_keeps(1)])
  moreover have "accounts_ok pg (snd (run (insert_device_sql pg fam name h) d))"
    by (rule run_keeps_accounts [OF account_statements(2) assms account_keeps(2)])
  moreover have "accounts_ok pg (snd (run (insert_viewer_sql pg fam email name h) d))"
    by (rule run_keeps_accounts [OF account_statements(3) assms account_keeps(3)])
  moreover have "accounts_ok pg (snd (run (rotate_device_sql pg i h e) d))"
    by (rule run_keeps_accounts [OF account_statements(4) assms account_keeps(4)])
  moreover have "accounts_ok pg (snd (run (rotate_viewer_sql pg i h e) d))"
    by (rule run_keeps_accounts [OF account_statements(5) assms account_keeps(5)])
  ultimately show ?thesis
    using assms by (simp add: CreateFamily_def CreateDevice_def CreateViewer_def RotateDeviceToken_def
        RotateViewerToken_def snd_wrap [where g = "\<lambda>x. x"] snd_wrap)
qed

lemma sample_accounts: "accounts_ok sample_pg (sample_db fs)"
  by (simp add: accounts_ok_def sample_db_def empty_db_def sample_pg_def sample_hash_def)

theorem accounts_invariant_witness:
  "accounts_ok sample_pg (snd (CreateDevice sample_pg ''f1'' ''watch'' (replicate 32 (CHR ''c''))
     (sample_db [Unacked (DriverError ''timeout'')])))"
  using accounts_invariant [OF sample_accounts] by blast

lemma CreateDevice_row:
  assumes "CreateDevice pg fam name h d = (Inr i, d')"
  shows "length h = TokenHashLen" "\<exists>f. uuid_in pg fam = Some f \<and> devices d' = devices d @ [\<lparr>dev_id = i, dev_family = f,
      dev_name = name, dev_hash = h, dev_expires = None\<rparr>]"
proof -
  have "run (insert_device_sql pg fam name h) d = (Inr i, d')" and l: "length h = TokenHashLen"
    using assms by (auto simp: CreateDevice_def split: if_splits prod.splits sum.splits)
  then obtain fs where "insert_device_sql pg fam name h (d\<lparr>faults := fs\<rparr>) = (Inr i, d')"
    by (auto elim: insert_device.run_okE)
  then show "\<exists>f. uuid_in pg fam = Some f \<and> devices d' = devices d @ [\<lparr>dev_id = i, dev_family = f,
      dev_name = name, dev_hash = h, dev_expires = None\<rparr>]"
    by (auto simp: insert_device_sql_def gen_random_uuid_def split: if_splits option.splits)
  show "length h = TokenHashLen" by (rule l)
qed

lemma CreateDevice_keeps: "accounts_ok pg d \<Longrightarrow> accounts_ok pg (snd (CreateDevice pg fam name h d))"
proof -
  assume ok: "accounts_ok pg d"
  have "accounts_ok pg (snd (run (insert_device_sql pg fam name h) d))"
    by (rule run_keeps_accounts [OF account_statements(2) ok account_keeps(2)])
  then show ?thesis using ok by (simp add: CreateDevice_def snd_wrap [where g = "\<lambda>x. x"])
qed

text \<open>
  A phone that was enrolled authenticates: whatever happened to other requests before, once
  \<open>CreateDevice\<close> returned an id, looking up the digest of its token yields the device with that id, the
  requested family and name.
\<close>

theorem enrolled_device_authenticates:
  assumes "accounts_ok pg d" "CreateDevice pg fam name h d = (Inr i, d')" "faults d' = []"
  shows "\<exists>f. uuid_in pg fam = Some f
    \<and> AuthenticateDevice h d' = (Inr \<lparr>Device_ID = i, Device_FamilyID = f, Device_Name = name\<rparr>, d')"
proof -
  obtain f where f: "uuid_in pg fam = Some f" "devices d' = devices d @ [\<lparr>dev_id = i, dev_family = f,
      dev_name = name, dev_hash = h, dev_expires = None\<rparr>]"
    using CreateDevice_row [OF assms(2)] by blast
  define r where "r = \<lparr>dev_id = i, dev_family = f, dev_name = name, dev_hash = h, dev_expires = None\<rparr>"
  have "accounts_ok pg d'" using CreateDevice_keeps [OF assms(1), of fam name h] assms(2) by simp
  then have "AuthenticateDevice (dev_hash r) d' = (Inr (to_Device r), d')"
    using f(2) CreateDevice_row(1) [OF assms(2)] assms(3) accounts_okD(1)
    by (intro dev_cred.lookup_unique) (simp_all add: r_def unexpired_def)
  then show ?thesis using f(1) by (simp add: r_def to_Device_def)
qed

theorem enrolled_device_authenticates_witness:
  "case CreateDevice sample_pg ''f1'' ''watch'' (replicate 32 (CHR ''c'')) (sample_db []) of
     (Inl _, _) \<Rightarrow> False
   | (Inr i, d') \<Rightarrow> AuthenticateDevice (replicate 32 (CHR ''c'')) d'
       = (Inr \<lparr>Device_ID = i, Device_FamilyID = ''f1'', Device_Name = ''watch''\<rparr>, d')"
proof -
  obtain r d' where c: "CreateDevice sample_pg ''f1'' ''watch'' (replicate 32 (CHR ''c'')) (sample_db []) = (r, d')" by fastforce
  have s: "\<exists>i. r = Inr i" "faults d' = []"
    using c by (auto simp: CreateDevice_def TokenHashLen_def run_clean sample_db_def empty_db_def insert_device_sql_def
        gen_random_uuid_def sample_pg_def pg_text_def pg_blank_def sample_hash_def show_nat.simps digit_char_def)
  then obtain i where i: "r = Inr i" by blast
  show ?thesis
    using enrolled_device_authenticates [OF sample_accounts c [unfolded i] s(2)] c i by (simp add: sample_ok)
qed

text \<open>
  C5: Rotating a device's token takes effect at once. When \<open>RotateDeviceToken\<close> reports that it found
  the device, the old token authenticates nothing from then on (under every schedule of failures), and
  the new token authenticates that device exactly while its expiry, if any, is still in the future on
  the database's clock.
\<close>

theorem rotation_replaces_credential:
  assumes "accounts_ok pg d" "r \<in> set (devices d)" "dev_hash r \<noteq> h"
    and "RotateDeviceToken pg (dev_id r) h e d = (Inr True, d')"
  shows "(\<forall>dev fs. fst (AuthenticateDevice (dev_hash r) (d'\<lparr>faults := fs\<rparr>)) \<noteq> Inr dev)
    \<and> fst (AuthenticateDevice h (d'\<lparr>faults := []\<rparr>)) =
        (if unexpired (map_option pg_time e) d' then Inr (to_Device r) else Inl ErrUnknownToken)"
proof -
  note wk = accounts_okD(1) [OF assms(1)]
  have u: "uuid_in pg (dev_id r) = Some (dev_id r)" using accounts_okD(3) assms(1,2) by blast
  have old: "fst (AuthenticateDevice (dev_hash r) (d'\<lparr>faults := fs\<rparr>)) \<noteq> Inr dev" for dev fs
    by (rule dev_cred.rotate_kills_old [OF wk assms(4) u assms(2,3)]) simp
  have "fst (AuthenticateDevice h (d'\<lparr>faults := []\<rparr>)) =
      (if unexpired (map_option pg_time e) d' then Inr (to_Device r) else Inl ErrUnknownToken)"
    using dev_cred.rotate_new_works [OF wk assms(4) u assms(2), of "d'\<lparr>faults := []\<rparr>"]
    by (simp add: to_Device_def set_device_token_def)
  then show ?thesis using old by blast
qed

definition sample_device :: device_row where
  "sample_device = \<lparr>dev_id = ''d1'', dev_family = ''f1'', dev_name = ''phone'', dev_hash = sample_hash, dev_expires = None\<rparr>"

theorem rotation_replaces_credential_witness:
  "case RotateDeviceToken sample_pg ''d1'' (replicate 32 (CHR ''c'')) (Some (2 * day)) (sample_db []) of
     (r, d') \<Rightarrow> r = Inr True
       \<and> fst (AuthenticateDevice (replicate 32 (CHR ''c'')) (d'\<lparr>faults := []\<rparr>)) = Inr (to_Device sample_device)
       \<and> (\<forall>dev fs. fst (AuthenticateDevice sample_hash (d'\<lparr>faults := fs\<rparr>)) \<noteq> Inr dev)"
proof -
  obtain r d' where c: "RotateDeviceToken sample_pg ''d1'' (replicate 32 (CHR ''c'')) (Some (2 * day)) (sample_db []) = (r, d')"
    by fastforce
  have s: "r = Inr True" "clock d' = 86400000000"
    using c by (auto simp: RotateDeviceToken_def TokenHashLen_def run_clean sample_db_def empty_db_def
        rotate_device_sql_def sample_pg_def Let_def)
  have "unexpired (map_option pg_time (Some (2 * day))) d'"
    using s(2) by (simp add: unexpired_def now_def pg_time_def day_def second_def)
  moreover have "sample_device \<in> set (devices (sample_db []))" "dev_hash sample_device \<noteq> replicate 32 (CHR ''c'')"
    by (simp_all add: sample_db_def sample_device_def sample_hash_def)
  moreover have "dev_id sample_device = ''d1''" "dev_hash sample_device = sample_hash"
    by (simp_all add: sample_device_def)
  ultimately show ?thesis
    using rotation_replaces_credential [OF sample_accounts, of sample_device "[]" "replicate 32 (CHR ''c'')" "Some (2 * day)" d'] c s
    by simp
qed

end
