(* ===== verification/Reads.thy ===== *)
theory Reads
  imports Accounts
begin

text \<open>
  The family-scoped reads: \<open>internal/store/presentation.go\<close> (current position and last contact of every
  device), \<open>internal/store/read.go\<close> (history) and the proximity query of \<open>internal/store/store.go\<close>. The
  theorems show that what a family reads is a function of that family's devices and fixes alone, that
  the current position is the newest by the device's clock and last contact the newest by the server's,
  and that history pages and windows tile.
\<close>

section \<open>Joins\<close>

definition family_devices :: "uuid \<Rightarrow> db \<Rightarrow> device_row list" where
  "family_devices fam d = filter (\<lambda>r. dev_family r = fam) (devices d)"

definition device_fixes :: "uuid \<Rightarrow> db \<Rightarrow> fix_row list" where
  "device_fixes dev d = filter (\<lambda>f. fx_device f = dev) (all_fixes d)"

text \<open>\<open>fixes f JOIN devices d ON d.id = f.device_id WHERE d.family_id = fam\<close>.\<close>

definition join_fixes :: "uuid \<Rightarrow> db \<Rightarrow> (fix_row \<times> device_row) list" where
  "join_fixes fam d =
     concat (map (\<lambda>f. map (Pair f) (filter (\<lambda>r. dev_id r = fx_device f \<and> dev_family r = fam) (devices d))) (all_fixes d))"

text \<open>A \<open>uuid\<close> argument that cannot be encoded is an error of the driver.\<close>

definition with_uuid :: "pg \<Rightarrow> string \<Rightarrow> (uuid \<Rightarrow> 'a stmt) \<Rightarrow> 'a stmt" where
  "with_uuid pg s k d =
     (case uuid_in pg s of None \<Rightarrow> (Inl (DriverError ''cannot encode uuid''), d) | Some u \<Rightarrow> k u d)"

section \<open>Device states\<close>

record Position =
  Pos_DeviceID :: string
  Pos_DeviceName :: string
  Pos_TS :: instant
  Pos_Lon :: float64
  Pos_Lat :: float64
  Pos_ReceivedAt :: instant

record DeviceState =
  St_DeviceID :: string
  St_DeviceName :: string
  St_Current :: "Position option"
  St_LastContact :: "instant option"

text \<open>\<open>ORDER BY f.ts DESC LIMIT 1\<close> and \<open>max(f.received_at)\<close>.\<close>

definition newest_fix :: "fix_row list \<Rightarrow> fix_row option" where
  "newest_fix fs = (case stable_sort (\<lambda>a b. fx_ts b < fx_ts a) fs of [] \<Rightarrow> None | f # _ \<Rightarrow> Some f)"

definition max_received :: "fix_row list \<Rightarrow> instant option" where
  "max_received fs = (case map fx_received fs of [] \<Rightarrow> None | t # ts \<Rightarrow> Some (fold max ts t))"

definition familyDeviceStatesSQL :: "pg \<Rightarrow> string \<Rightarrow> (device_row \<times> fix_row option \<times> instant option) list stmt" where
  "familyDeviceStatesSQL pg familyID = with_uuid pg familyID (\<lambda>fam d.
     (Inr (map (\<lambda>r. (r, newest_fix (device_fixes (dev_id r) d), max_received (device_fixes (dev_id r) d)))
        (family_devices fam d)), d))"

definition to_state :: "device_row \<times> fix_row option \<times> instant option \<Rightarrow> DeviceState" where
  "to_state row = (case row of (r, cur, lc) \<Rightarrow>
     \<lparr>St_DeviceID = dev_id r, St_DeviceName = dev_name r,
      St_Current = map_option (\<lambda>f. \<lparr>Pos_DeviceID = dev_id r, Pos_DeviceName = dev_name r, Pos_TS = fx_ts f,
        Pos_Lon = fx_lon f, Pos_Lat = fx_lat f, Pos_ReceivedAt = fx_received f\<rparr>) cur,
      St_LastContact = lc\<rparr>)"

definition FamilyDeviceStates :: "pg \<Rightarrow> string \<Rightarrow> db \<Rightarrow> (store_error + DeviceState list) \<times> db" where
  "FamilyDeviceStates pg familyID d =
     (case run (familyDeviceStatesSQL pg familyID) d of
        (Inl e, d1) \<Rightarrow> (Inl (StPg e), d1)
      | (Inr rows, d1) \<Rightarrow> (Inr (map to_state rows), d1))"

text \<open>
  \<open>familyLastContactAsOfSQL\<close>: one row per device that had a fix by the instant. The Go map is an
  association list here; the query groups by device, so keys are distinct.
\<close>

definition familyLastContactAsOfSQL :: "pg \<Rightarrow> string \<Rightarrow> instant \<Rightarrow> (uuid \<times> instant) list stmt" where
  "familyLastContactAsOfSQL pg familyID t = with_uuid pg familyID (\<lambda>fam d.
     (let fs = filter (\<lambda>f. fx_received f \<le> pg_time t) (map fst (join_fixes fam d))
      in (Inr (map (\<lambda>dev. (dev, the (max_received (filter (\<lambda>f. fx_device f = dev) fs)))) (remdups (map fx_device fs))), d)))"

definition FamilyLastContactAsOf :: "pg \<Rightarrow> string \<Rightarrow> instant \<Rightarrow> db \<Rightarrow> (store_error + (uuid \<rightharpoonup> instant)) \<times> db" where
  "FamilyLastContactAsOf pg familyID t d =
     (case run (familyLastContactAsOfSQL pg familyID t) d of
        (Inl e, d1) \<Rightarrow> (Inl (StPg e), d1)
      | (Inr rows, d1) \<Rightarrow> (Inr (map_of rows), d1))"

section \<open>History\<close>

record HistoryFix =
  Hist_TS :: instant
  Hist_Lon :: float64
  Hist_Lat :: float64
  Hist_AccuracyM :: "float64 option"
  Hist_BatteryPct :: "int option"
  Hist_SpeedMPS :: "float64 option"
  Hist_TriggerReason :: "string option"
  Hist_ReceivedAt :: instant

definition to_history :: "fix_row \<Rightarrow> HistoryFix" where
  "to_history f = \<lparr>Hist_TS = fx_ts f, Hist_Lon = fx_lon f, Hist_Lat = fx_lat f, Hist_AccuracyM = fx_accuracy f,
     Hist_BatteryPct = fx_battery f, Hist_SpeedMPS = fx_speed f, Hist_TriggerReason = fx_trigger f,
     Hist_ReceivedAt = fx_received f\<rparr>"

definition MaxHistoryLimit :: int where "MaxHistoryLimit = 1000"

text \<open>The rows of \<open>deviceHistorySQL\<close> before \<open>LIMIT\<close> and \<open>OFFSET\<close>.\<close>

definition history_rows :: "uuid \<Rightarrow> uuid \<Rightarrow> instant option \<Rightarrow> instant option \<Rightarrow> db \<Rightarrow> fix_row list" where
  "history_rows fam dev from to d =
     stable_sort (\<lambda>a b. fx_ts b < fx_ts a)
       (filter (\<lambda>f. fx_device f = dev \<and> (case from of None \<Rightarrow> True | Some t \<Rightarrow> pg_time t \<le> fx_ts f)
                     \<and> (case to of None \<Rightarrow> True | Some t \<Rightarrow> fx_ts f < pg_time t))
          (map fst (join_fixes fam d)))"

definition deviceHistorySQL :: "pg \<Rightarrow> string \<Rightarrow> string \<Rightarrow> instant option \<Rightarrow> instant option \<Rightarrow> int \<Rightarrow> int \<Rightarrow> fix_row list stmt" where
  "deviceHistorySQL pg familyID deviceID from to limit offset =
     with_uuid pg familyID (\<lambda>fam. with_uuid pg deviceID (\<lambda>dev d.
       (Inr (take (nat limit) (drop (nat offset) (history_rows fam dev from to d))), d)))"

definition DeviceHistory ::
  "pg \<Rightarrow> string \<Rightarrow> string \<Rightarrow> instant \<Rightarrow> instant \<Rightarrow> int \<Rightarrow> int \<Rightarrow> db \<Rightarrow> (store_error + HistoryFix list) \<times> db" where
  "DeviceHistory pg familyID deviceID from to limit offset d =
     (let limit = (if limit < 1 then 1 else if MaxHistoryLimit < limit then MaxHistoryLimit else limit);
          offset = (if offset < 0 then 0 else offset);
          fromArg = (if from = zero_time then None else Some from);
          toArg = (if to = zero_time then None else Some to)
      in case run (deviceHistorySQL pg familyID deviceID fromArg toArg limit offset) d of
           (Inl e, d1) \<Rightarrow> (Inl (StPg e), d1)
         | (Inr rows, d1) \<Rightarrow> (Inr (map to_history rows), d1))"

section \<open>Proximity\<close>

record NearbyFix =
  Near_DeviceID :: string
  Near_DeviceName :: string
  Near_TS :: instant
  Near_Lon :: float64
  Near_Lat :: float64
  Near_DistanceM :: float64

definition fixesNearSQL :: "pg \<Rightarrow> string \<Rightarrow> float64 \<Rightarrow> float64 \<Rightarrow> float64 \<Rightarrow> NearbyFix list stmt" where
  "fixesNearSQL pg familyID lon lat radius = with_uuid pg familyID (\<lambda>fam d.
     (let p = geog_point pg lon lat;
          hits = filter (\<lambda>(f, r). st_dwithin pg (fx_lon f, fx_lat f) p radius) (join_fixes fam d)
      in (Inr (stable_sort (\<lambda>a b. flt (Near_DistanceM a) (Near_DistanceM b))
           (map (\<lambda>(f, r). \<lparr>Near_DeviceID = fx_device f, Near_DeviceName = dev_name r, Near_TS = fx_ts f,
              Near_Lon = fx_lon f, Near_Lat = fx_lat f,
              Near_DistanceM = st_distance pg (fx_lon f, fx_lat f) p\<rparr>) hits)), d)))"

definition FixesNear :: "pg \<Rightarrow> string \<Rightarrow> float64 \<Rightarrow> float64 \<Rightarrow> float64 \<Rightarrow> db \<Rightarrow> (store_error + NearbyFix list) \<times> db" where
  "FixesNear pg familyID lon lat radiusM d =
     (case ValidateLonLat lon lat of
        Some e \<Rightarrow> (Inl e, d)
      | None \<Rightarrow>
          if flt radiusM (Fin 0) \<or> IsNaN radiusM \<or> IsInf radiusM then (Inl RadiusNotFinite, d)
          else case run (fixesNearSQL pg familyID lon lat radiusM) d of
                 (Inl e, d1) \<Rightarrow> (Inl (StPg e), d1)
               | (Inr rows, d1) \<Rightarrow> (Inr rows, d1))"

section \<open>Reads change nothing\<close>

text \<open>A query returns without touching the database, whatever it returns.\<close>

locale query =
  fixes f :: "'a stmt"
  assumes reads: "snd (f d) = d"

sublocale query \<subseteq> statement f
  by unfold_locales (metis reads snd_conv, simp add: reads)

context query
begin

lemma run_reads: "\<exists>fs. snd (run f d) = d\<lparr>faults := fs\<rparr>"
  by (rule run_rel) (metis, metis reads snd_conv)

lemma run_query_ok: "run f d = (Inr x, d') \<Longrightarrow> \<exists>fs. d' = d\<lparr>faults := fs\<rparr> \<and> fst (f (d\<lparr>faults := fs\<rparr>)) = Inr x"
  by (erule run_okE) (metis fst_conv reads snd_conv)

end

lemma with_uuid_query: "(\<And>u. query (k u)) \<Longrightarrow> query (with_uuid pg s k)"
  by (auto simp: query_def with_uuid_def split: option.splits)

interpretation states_query: query "familyDeviceStatesSQL pg fam" for pg fam
  unfolding familyDeviceStatesSQL_def by (rule with_uuid_query) (simp add: query_def)

interpretation contact_query: query "familyLastContactAsOfSQL pg fam t" for pg fam t
  unfolding familyLastContactAsOfSQL_def by (rule with_uuid_query) (simp add: query_def Let_def)

interpretation history_query: query "deviceHistorySQL pg fam dev from to l off" for pg fam dev "from" to l off
  unfolding deviceHistorySQL_def by (intro with_uuid_query) (simp add: query_def)

interpretation near_query: query "fixesNearSQL pg fam lon lat r" for pg fam lon lat r
  unfolding fixesNearSQL_def by (rule with_uuid_query) (simp add: query_def Let_def)

section \<open>Newest fix and last contact\<close>

interpretation newest_first: strict_weak_order "\<lambda>a b. fx_ts b < fx_ts a"
  by unfold_locales auto

lemma newest_fix_None [simp]: "newest_fix fs = None \<longleftrightarrow> fs = []"
proof -
  have "length (stable_sort (\<lambda>a b. fx_ts b < fx_ts a) fs) = length fs" by simp
  then show ?thesis by (cases "stable_sort (\<lambda>a b. fx_ts b < fx_ts a) fs") (auto simp: newest_fix_def)
qed

lemma newest_fix_Some:
  assumes "newest_fix fs = Some f"
  shows "f \<in> set fs \<and> (\<forall>g \<in> set fs. fx_ts g \<le> fx_ts f)"
proof -
  obtain gs where s: "stable_sort (\<lambda>a b. fx_ts b < fx_ts a) fs = f # gs"
    using assms by (auto simp: newest_fix_def split: list.splits)
  have set: "set fs = insert f (set gs)" using set_stable_sort [of "\<lambda>a b. fx_ts b < fx_ts a" fs] s by simp
  have "sorted_wrt (\<lambda>a b. \<not> fx_ts a < fx_ts b) (f # gs)"
    using newest_first.stable_sort_sorted [of fs] s by simp
  then show ?thesis using set by auto
qed

lemma fold_max: "fold max ts (t :: int) = Max (set (t # ts))"
proof (induction ts arbitrary: t)
  case (Cons a ts)
  then show ?case by (cases "ts = []") (simp_all add: max.left_commute max.commute)
qed simp

lemma max_received_None [simp]: "max_received fs = None \<longleftrightarrow> fs = []"
  by (cases fs) (simp_all add: max_received_def)

lemma max_received_Max: "fs \<noteq> [] \<Longrightarrow> max_received fs = Some (Max (fx_received ` set fs))"
  by (cases fs) (simp_all add: max_received_def fold_max)

lemma FamilyDeviceStates_clean:
  assumes "faults d = []" "uuid_in pg familyID = Some fam"
  shows "FamilyDeviceStates pg familyID d =
    (Inr (map (\<lambda>r. to_state (r, newest_fix (device_fixes (dev_id r) d), max_received (device_fixes (dev_id r) d)))
       (family_devices fam d)), d)"
  using assms by (simp add: FamilyDeviceStates_def run_clean familyDeviceStatesSQL_def with_uuid_def comp_def)

lemma FamilyDeviceStates_ok:
  assumes "FamilyDeviceStates pg familyID d = (Inr sts, d')"
  shows "\<exists>fam fs. uuid_in pg familyID = Some fam \<and> d' = d\<lparr>faults := fs\<rparr>
    \<and> sts = map (\<lambda>r. to_state (r, newest_fix (device_fixes (dev_id r) d), max_received (device_fixes (dev_id r) d)))
       (family_devices fam d)"
proof -
  obtain rows where r: "run (familyDeviceStatesSQL pg familyID) d = (Inr rows, d')" "sts = map to_state rows"
    using assms by (auto simp: FamilyDeviceStates_def split: prod.splits sum.splits)
  obtain fs where "d' = d\<lparr>faults := fs\<rparr>" "fst (familyDeviceStatesSQL pg familyID (d\<lparr>faults := fs\<rparr>)) = Inr rows"
    using states_query.run_query_ok [OF r(1)] by blast
  then show ?thesis
    using r(2) by (auto simp: familyDeviceStatesSQL_def with_uuid_def family_devices_def device_fixes_def
        split: option.splits)
qed

text \<open>
  C22: Whatever fails, a successful read of a family's devices has one entry per device of that family
  and none of another family. A device without fixes has neither position nor last contact; otherwise
  its position is a stored fix of that device with the newest device timestamp, and its last contact is
  the largest receive time over all its fixes. The database is not changed.
\<close>

theorem FamilyDeviceStates_correct:
  assumes "FamilyDeviceStates pg familyID d = (Inr sts, d')"
  shows "\<exists>fam fs. uuid_in pg familyID = Some fam \<and> d' = d\<lparr>faults := fs\<rparr>
    \<and> map (\<lambda>s. (St_DeviceID s, St_DeviceName s)) sts
        = map (\<lambda>r. (dev_id r, dev_name r)) (filter (\<lambda>r. dev_family r = fam) (devices d))
    \<and> (\<forall>s \<in> set sts. let fixes = filter (\<lambda>f. fx_device f = St_DeviceID s) (all_fixes d) in
         (fixes = [] \<longrightarrow> St_Current s = None \<and> St_LastContact s = None)
         \<and> (fixes \<noteq> [] \<longrightarrow> St_LastContact s = Some (Max (fx_received ` set fixes))
              \<and> (\<exists>f \<in> set fixes. (\<forall>g \<in> set fixes. fx_ts g \<le> fx_ts f)
                   \<and> St_Current s = Some \<lparr>Pos_DeviceID = St_DeviceID s, Pos_DeviceName = St_DeviceName s,
                        Pos_TS = fx_ts f, Pos_Lon = fx_lon f, Pos_Lat = fx_lat f, Pos_ReceivedAt = fx_received f\<rparr>)))"
proof -
  obtain fam fs where f: "uuid_in pg familyID = Some fam" "d' = d\<lparr>faults := fs\<rparr>"
    "sts = map (\<lambda>r. to_state (r, newest_fix (device_fixes (dev_id r) d), max_received (device_fixes (dev_id r) d)))
       (family_devices fam d)"
    using FamilyDeviceStates_ok [OF assms] by blast
  have names: "map (\<lambda>s. (St_DeviceID s, St_DeviceName s)) sts
        = map (\<lambda>r. (dev_id r, dev_name r)) (filter (\<lambda>r. dev_family r = fam) (devices d))"
    by (simp add: f(3) to_state_def family_devices_def comp_def)
  have "let fixes = filter (\<lambda>f. fx_device f = St_DeviceID s) (all_fixes d) in
         (fixes = [] \<longrightarrow> St_Current s = None \<and> St_LastContact s = None)
         \<and> (fixes \<noteq> [] \<longrightarrow> St_LastContact s = Some (Max (fx_received ` set fixes))
              \<and> (\<exists>f \<in> set fixes. (\<forall>g \<in> set fixes. fx_ts g \<le> fx_ts f)
                   \<and> St_Current s = Some \<lparr>Pos_DeviceID = St_DeviceID s, Pos_DeviceName = St_DeviceName s,
                        Pos_TS = fx_ts f, Pos_Lon = fx_lon f, Pos_Lat = fx_lat f, Pos_ReceivedAt = fx_received f\<rparr>))"
    if s: "s \<in> set sts" for s
  proof -
    obtain r where r: "s = to_state (r, newest_fix (device_fixes (dev_id r) d), max_received (device_fixes (dev_id r) d))"
      using s f(3) by auto
    define F where "F = device_fixes (dev_id r) d"
    have F: "filter (\<lambda>f. fx_device f = St_DeviceID s) (all_fixes d) = F"
      by (simp add: F_def r to_state_def device_fixes_def)
    show ?thesis
    proof (cases "newest_fix F")
      case None
      then have "F = []" by simp
      moreover from this have "max_received F = None" by simp
      ultimately show ?thesis unfolding F using r None by (simp add: F_def [symmetric] to_state_def)
    next
      case (Some g)
      then have "F \<noteq> []" using newest_fix_None [of F] by auto
      then show ?thesis unfolding F using r Some newest_fix_Some [OF Some] max_received_Max [of F]
        by (auto simp: F_def [symmetric] to_state_def Let_def)
    qed
  qed
  then show ?thesis using f(1,2) names by blast
qed

definition with_fixes :: "fix_row list \<Rightarrow> db \<Rightarrow> db" where
  "with_fixes fs d = d\<lparr>partitions := [\<lparr>pt_name = ''fixes_1970_01'', pt_bound = Range (Some 0) (Some (31 * day)), pt_rows = fs\<rparr>]\<rparr>"

definition sample_row :: "uuid \<Rightarrow> instant \<Rightarrow> instant \<Rightarrow> fix_row" where
  "sample_row dev ts recv = \<lparr>fx_device = dev, fx_ts = ts, fx_lon = Fin 1, fx_lat = Fin 2, fx_accuracy = None,
     fx_battery = None, fx_speed = None, fx_trigger = None, fx_msg = None, fx_received = recv\<rparr>"

text \<open>A backlog: the newest fix arrived first, an older one was received later.\<close>

definition backlog_db :: db where
  "backlog_db = with_fixes [sample_row ''d1'' (3 * hour) (3 * hour), sample_row ''d1'' (1 * hour) (4 * hour),
     sample_row ''zz'' (9 * hour) (9 * hour)] (sample_db [])"

theorem FamilyDeviceStates_correct_witness:
  "\<exists>s. FamilyDeviceStates sample_pg ''f1'' backlog_db = (Inr [s], backlog_db)
     \<and> St_LastContact s = Some (4 * hour) \<and> map_option Pos_TS (St_Current s) = Some (3 * hour)"
proof -
  have fam: "family_devices ''f1'' backlog_db = [sample_device]"
    by (simp add: family_devices_def backlog_db_def with_fixes_def sample_db_def sample_device_def)
  have clean: "faults backlog_db = []" by (simp add: backlog_db_def with_fixes_def sample_ok)
  define s where "s = to_state (sample_device, newest_fix (device_fixes ''d1'' backlog_db), max_received (device_fixes ''d1'' backlog_db))"
  have r: "FamilyDeviceStates sample_pg ''f1'' backlog_db = (Inr [s], backlog_db)"
    unfolding FamilyDeviceStates_clean [OF clean sample_ok(2)] fam s_def by (simp add: sample_device_def)
  have fx: "filter (\<lambda>f. fx_device f = ''d1'') (all_fixes backlog_db)
      = [sample_row ''d1'' (3 * hour) (3 * hour), sample_row ''d1'' (1 * hour) (4 * hour)]"
    by (simp add: all_fixes_def backlog_db_def with_fixes_def sample_row_def)
  have "St_DeviceID s = ''d1''" by (simp add: s_def to_state_def sample_device_def)
  then show ?thesis
    using FamilyDeviceStates_correct [OF r] r fx
    by (auto simp: Let_def sample_row_def hour_def second_def)
qed

section \<open>Family scope\<close>

text \<open>Two databases that agree on what belongs to a family.\<close>

definition same_family :: "uuid \<Rightarrow> db \<Rightarrow> db \<Rightarrow> bool" where
  "same_family fam d d' \<longleftrightarrow>
     family_devices fam d = family_devices fam d'
     \<and> filter (\<lambda>f. fx_device f \<in> dev_id ` set (family_devices fam d)) (all_fixes d)
       = filter (\<lambda>f. fx_device f \<in> dev_id ` set (family_devices fam d)) (all_fixes d')"

lemma join_fixes_family:
  "join_fixes fam d = concat (map (\<lambda>f. map (Pair f) (filter (\<lambda>r. dev_id r = fx_device f) (family_devices fam d)))
     (filter (\<lambda>f. fx_device f \<in> dev_id ` set (family_devices fam d)) (all_fixes d)))"
proof -
  have e: "filter (\<lambda>r. dev_id r = fx_device f \<and> dev_family r = fam) (devices d)
      = filter (\<lambda>r. dev_id r = fx_device f) (family_devices fam d)" for f
    by (simp add: family_devices_def conj_commute)
  have drop_empty: "concat (map g xs) = concat (map g (filter P xs))" if "\<And>x. \<not> P x \<Longrightarrow> g x = []"
    for g :: "fix_row \<Rightarrow> (fix_row \<times> device_row) list" and P xs
    using that by (induction xs) auto
  show ?thesis
    unfolding join_fixes_def e by (rule drop_empty) (simp add: filter_empty_conv, metis imageI)
qed

lemma same_family_join: "same_family fam d d' \<Longrightarrow> join_fixes fam d = join_fixes fam d'"
proof -
  assume "same_family fam d d'"
  then have a: "family_devices fam d' = family_devices fam d"
    and b: "filter (\<lambda>f. fx_device f \<in> dev_id ` set (family_devices fam d)) (all_fixes d')
      = filter (\<lambda>f. fx_device f \<in> dev_id ` set (family_devices fam d)) (all_fixes d)"
    by (auto simp: same_family_def)
  show ?thesis unfolding join_fixes_family a b by simp
qed

lemma device_fixes_family:
  assumes "same_family fam d d'" "dev \<in> dev_id ` set (family_devices fam d)"
  shows "device_fixes dev d = device_fixes dev d'"
proof -
  have "device_fixes dev e = filter (\<lambda>f. fx_device f = dev)
      (filter (\<lambda>f. fx_device f \<in> dev_id ` set (family_devices fam d)) (all_fixes e))" for e
    using assms(2) unfolding device_fixes_def filter_filter by (metis (no_types, lifting))
  moreover have "filter (\<lambda>f. fx_device f \<in> dev_id ` set (family_devices fam d)) (all_fixes d')
      = filter (\<lambda>f. fx_device f \<in> dev_id ` set (family_devices fam d)) (all_fixes d)"
    using assms(1) unfolding same_family_def by metis
  ultimately show ?thesis by metis
qed

text \<open>
  C11: What a family reads depends on that family's own devices and fixes only. Take any two databases
  that agree on one family and differ arbitrarily elsewhere; every read scoped to the family (device
  states, last contact at a past instant, history of any device id, proximity) has the same result on
  both. So no read of one family reveals anything about another.
\<close>

theorem reads_are_family_scoped:
  assumes "same_family fam d d'" "uuid_in pg familyID = Some fam" "faults d = []" "faults d' = []"
  shows "fst (FamilyDeviceStates pg familyID d) = fst (FamilyDeviceStates pg familyID d')
    \<and> fst (FamilyLastContactAsOf pg familyID t d) = fst (FamilyLastContactAsOf pg familyID t d')
    \<and> fst (DeviceHistory pg familyID dev from to limit offset d) = fst (DeviceHistory pg familyID dev from to limit offset d')
    \<and> fst (FixesNear pg familyID lon lat radius d) = fst (FixesNear pg familyID lon lat radius d')"
proof -
  note j = same_family_join [OF assms(1)]
  have "family_devices fam d = family_devices fam d'" using assms(1) by (simp add: same_family_def)
  then have 1: "fst (FamilyDeviceStates pg familyID d) = fst (FamilyDeviceStates pg familyID d')"
    using device_fixes_family [OF assms(1)]
    by (simp add: FamilyDeviceStates_clean [OF _ assms(2)] assms(3,4))
  have 2: "fst (FamilyLastContactAsOf pg familyID t d) = fst (FamilyLastContactAsOf pg familyID t d')"
    using assms(2-4) j by (simp add: FamilyLastContactAsOf_def run_clean familyLastContactAsOfSQL_def with_uuid_def Let_def)
  have 3: "fst (DeviceHistory pg familyID dev from to limit offset d) = fst (DeviceHistory pg familyID dev from to limit offset d')"
    using assms(2-4) j
    by (cases "uuid_in pg dev") (simp_all add: DeviceHistory_def run_clean deviceHistorySQL_def with_uuid_def history_rows_def)
  have 4: "fst (FixesNear pg familyID lon lat radius d) = fst (FixesNear pg familyID lon lat radius d')"
    using assms(2-4) j
    by (simp add: FixesNear_def run_clean fixesNearSQL_def with_uuid_def Let_def split: option.split)
  show ?thesis using 1 2 3 4 by blast
qed

theorem reads_are_family_scoped_witness:
  "fst (FixesNear sample_pg ''f1'' (Fin 0) (Fin 0) (Fin 10) backlog_db)
     = fst (FixesNear sample_pg ''f1'' (Fin 0) (Fin 0) (Fin 10)
         (with_fixes [sample_row ''d1'' (3 * hour) (3 * hour), sample_row ''d1'' (1 * hour) (4 * hour)] (sample_db [])))"
proof -
  let ?d = "with_fixes [sample_row ''d1'' (3 * hour) (3 * hour), sample_row ''d1'' (1 * hour) (4 * hour)] (sample_db [])"
  have "same_family ''f1'' backlog_db ?d"
    by (simp add: same_family_def family_devices_def all_fixes_def backlog_db_def with_fixes_def sample_db_def sample_row_def)
  then show ?thesis
    using reads_are_family_scoped [of "''f1''" backlog_db ?d sample_pg "''f1''"]
    by (simp add: sample_ok backlog_db_def with_fixes_def)
qed

section \<open>History pages\<close>

lemma DeviceHistory_clean:
  assumes "faults d = []" "uuid_in pg familyID = Some fam" "uuid_in pg deviceID = Some dev"
  shows "DeviceHistory pg familyID deviceID from to limit offset d =
    (Inr (map to_history (take (nat (max 1 (min limit 1000))) (drop (nat (max 0 offset))
       (history_rows fam dev (if from = zero_time then None else Some from) (if to = zero_time then None else Some to) d)))), d)"
proof -
  have "(if limit < 1 then 1 else if MaxHistoryLimit < limit then MaxHistoryLimit else limit) = max 1 (min limit 1000)"
    "(if offset < 0 then 0 else offset) = max 0 offset"
    by (auto simp: MaxHistoryLimit_def)
  then show ?thesis
    using assms by (simp add: DeviceHistory_def run_clean deviceHistorySQL_def with_uuid_def)
qed

lemma stable_sort_split:
  assumes "\<And>x. x \<in> set xs \<Longrightarrow> P x \<noteq> Q x" "\<And>x y. x \<in> set xs \<Longrightarrow> y \<in> set xs \<Longrightarrow> P x \<Longrightarrow> Q y \<Longrightarrow> lt x y" "strict_weak_order lt"
  shows "stable_sort lt xs = stable_sort lt (filter P xs) @ stable_sort lt (filter Q xs)"
  using assms(1,2)
proof (induction xs)
  case (Cons x xs)
  have asym: "\<not> lt y x" if "lt x y" for y using strict_weak_order.asym [OF assms(3) that] .
  have low: "insert_by lt x (as @ bs) = insert_by lt x as @ bs" if "\<forall>b \<in> set bs. lt x b" for as bs
    using that asym by (induction as) (auto simp: neq_Nil_conv, (cases bs; auto))
  have high: "insert_by lt x (as @ bs) = as @ insert_by lt x bs" if "\<forall>a \<in> set as. lt a x" for as bs
    using that by (induction as) auto
  have IH: "stable_sort lt xs = stable_sort lt (filter P xs) @ stable_sort lt (filter Q xs)" using Cons by auto
  show ?case
  proof (cases "P x")
    case True
    then have "\<not> Q x" using Cons.prems(1) by auto
    moreover have "\<forall>b \<in> set (stable_sort lt (filter Q xs)). lt x b" using True Cons.prems(2) by auto
    ultimately show ?thesis using True IH low by simp
  next
    case False
    then have "Q x" using Cons.prems(1) by auto
    moreover have "\<forall>a \<in> set (stable_sort lt (filter P xs)). lt a x" using calculation Cons.prems(2) by auto
    ultimately show ?thesis using False IH high by simp
  qed
qed simp

lemma history_rows_tile:
  assumes "pg_time a \<le> pg_time b" "pg_time b \<le> pg_time c"
  shows "history_rows fam dev (Some a) (Some c) d = history_rows fam dev (Some b) (Some c) d @ history_rows fam dev (Some a) (Some b) d"
proof -
  define xs where "xs = filter (\<lambda>f. fx_device f = dev \<and> pg_time a \<le> fx_ts f \<and> fx_ts f < pg_time c) (map fst (join_fixes fam d))"
  have "stable_sort (\<lambda>a b. fx_ts b < fx_ts a) xs = stable_sort (\<lambda>a b. fx_ts b < fx_ts a) (filter (\<lambda>f. pg_time b \<le> fx_ts f) xs)
      @ stable_sort (\<lambda>a b. fx_ts b < fx_ts a) (filter (\<lambda>f. fx_ts f < pg_time b) xs)"
    by (rule stable_sort_split) (auto simp: newest_first.strict_weak_order_axioms)
  moreover have "filter (\<lambda>f. pg_time b \<le> fx_ts f) xs
      = filter (\<lambda>f. fx_device f = dev \<and> pg_time b \<le> fx_ts f \<and> fx_ts f < pg_time c) (map fst (join_fixes fam d))"
    unfolding xs_def filter_filter using assms(1) by (intro filter_cong) auto
  moreover have "filter (\<lambda>f. fx_ts f < pg_time b) xs
      = filter (\<lambda>f. fx_device f = dev \<and> pg_time a \<le> fx_ts f \<and> fx_ts f < pg_time b) (map fst (join_fixes fam d))"
    unfolding xs_def filter_filter using assms(2) by (intro filter_cong) auto
  ultimately show ?thesis by (simp add: history_rows_def xs_def)
qed

lemma filter_id_short: "distinct (map dev_id rs) \<Longrightarrow> length (filter (\<lambda>r. dev_id r = i \<and> P r) rs) \<le> 1"
proof (induction rs)
  case (Cons r rs)
  then show ?case
    by (cases "dev_id r = i") (auto simp: image_iff filter_empty_conv intro!: le_SucI)
qed simp

lemma join_fixes_length:
  assumes "distinct (map dev_id (devices d))"
  shows "length (join_fixes fam d) \<le> length (all_fixes d)"
proof -
  have "length (concat (map (\<lambda>f. map (Pair f) (filter (\<lambda>r. dev_id r = fx_device f \<and> dev_family r = fam) (devices d))) fs))
      \<le> length fs" for fs
  proof (induction fs)
    case (Cons f fs)
    then show ?case
      using filter_id_short [OF assms, of "fx_device f" "\<lambda>r. dev_family r = fam"] by simp
  qed simp
  then show ?thesis by (simp add: join_fixes_def)
qed

lemma length_history: "length (history_rows fam dev x y d) \<le> length (join_fixes fam d)"
  by (simp add: history_rows_def le_trans [OF length_filter_le])

text \<open>
  Adjacent history windows tile. When the window \<open>[a, c)\<close> fits one page, reading \<open>[b, c)\<close> and
  then \<open>[a, b)\<close> yields exactly the fixes of \<open>[a, c)\<close>, newest first, each once; and within one window
  the page at offset \<open>n\<close> continues the page of the first \<open>n\<close>.
\<close>

theorem DeviceHistory_tiles:
  assumes "faults d = []" "uuid_in pg familyID = Some fam" "uuid_in pg deviceID = Some dev"
    and "zero_time < a" "a \<le> b" "b \<le> c" "length (all_fixes d) \<le> 1000" "distinct (map dev_id (devices d))"
    and "0 \<le> n" "n \<le> 1000"
  shows "\<exists>whole newer older first rest.
      fst (DeviceHistory pg familyID deviceID a c 1000 0 d) = Inr whole
      \<and> fst (DeviceHistory pg familyID deviceID b c 1000 0 d) = Inr newer
      \<and> fst (DeviceHistory pg familyID deviceID a b 1000 0 d) = Inr older
      \<and> fst (DeviceHistory pg familyID deviceID a c n 0 d) = Inr first
      \<and> fst (DeviceHistory pg familyID deviceID a c 1000 n d) = Inr rest
      \<and> whole = newer @ older \<and> (1 \<le> n \<longrightarrow> whole = first @ rest)"
proof -
  have le: "length (join_fixes fam d) \<le> 1000"
    using join_fixes_length [OF assms(8), of fam] assms(7) by simp
  have short: "length (history_rows fam dev x y d) \<le> 1000" for x y
    using length_history [of fam dev x y d] le by simp
  have m: "pg_time a \<le> pg_time b" "pg_time b \<le> pg_time c" using assms(5,6) by (simp_all add: pg_time_def zdiv_mono1)
  have nz: "a \<noteq> zero_time" "b \<noteq> zero_time" "c \<noteq> zero_time" using assms(4-6) by simp_all
  note page = DeviceHistory_clean [OF assms(1-3)]
  have t: "history_rows fam dev (Some a) (Some c) d = history_rows fam dev (Some b) (Some c) d @ history_rows fam dev (Some a) (Some b) d"
    using m by (rule history_rows_tile)
  define W where "W = history_rows fam dev (Some a) (Some c) d"
  define N where "N = history_rows fam dev (Some b) (Some c) d"
  define L where "L = history_rows fam dev (Some a) (Some b) d"
  have W: "W = N @ L" using t by (simp add: W_def N_def L_def)
  have len: "length W \<le> 1000" "length N \<le> 1000" "length L \<le> 1000" unfolding W_def N_def L_def by (rule short)+
  have "W = take (nat n) W @ drop (nat n) W" by simp
  then have split: "map to_history W = map to_history (take (nat n) W) @ map to_history (drop (nat n) W)"
    by (metis map_append)
  show ?thesis
  proof (intro exI conjI)
    show "fst (DeviceHistory pg familyID deviceID a c 1000 0 d) = Inr (map to_history W)"
      "fst (DeviceHistory pg familyID deviceID b c 1000 0 d) = Inr (map to_history N)"
      "fst (DeviceHistory pg familyID deviceID a b 1000 0 d) = Inr (map to_history L)"
      unfolding page using nz len by (simp_all add: W_def [symmetric] N_def [symmetric] L_def [symmetric])
    show "fst (DeviceHistory pg familyID deviceID a c n 0 d) = Inr (map to_history (take (nat (max 1 (min n 1000))) W))"
      unfolding page using nz by (simp add: W_def [symmetric])
    show "fst (DeviceHistory pg familyID deviceID a c 1000 n d) = Inr (map to_history (drop (nat n) W))"
      unfolding page using nz len assms(9) by (simp add: W_def [symmetric])
    show "map to_history W = map to_history N @ map to_history L" by (simp add: W)
    show "1 \<le> n \<longrightarrow> map to_history W = map to_history (take (nat (max 1 (min n 1000))) W) @ map to_history (drop (nat n) W)"
      using split assms(10) by (auto simp: max_def)
  qed
qed

theorem DeviceHistory_tiles_witness:
  "\<exists>newer older. fst (DeviceHistory sample_pg ''f1'' ''d1'' (hour div 2) (5 * hour) 1000 0 backlog_db) = Inr (newer @ older)
     \<and> fst (DeviceHistory sample_pg ''f1'' ''d1'' (2 * hour) (5 * hour) 1000 0 backlog_db) = Inr newer
     \<and> fst (DeviceHistory sample_pg ''f1'' ''d1'' (hour div 2) (2 * hour) 1000 0 backlog_db) = Inr older"
proof -
  have "faults backlog_db = []" "length (all_fixes backlog_db) \<le> 1000" "distinct (map dev_id (devices backlog_db))"
    by (simp_all add: backlog_db_def with_fixes_def all_fixes_def sample_db_def)
  moreover have "zero_time < hour div 2" "hour div 2 \<le> 2 * hour" "2 * hour \<le> 5 * hour"
    by (simp_all add: zero_time_def unix_to_internal_def hour_def second_def)
  ultimately show ?thesis
    using DeviceHistory_tiles [of backlog_db sample_pg "''f1''" "''f1''" "''d1''" "''d1''" "hour div 2" "2 * hour" "5 * hour" 1]
    by (auto simp: sample_ok(2))
qed

end
