(* ===== verification/Presentation.thy ===== *)
theory Presentation
  imports Prelude
begin

text \<open>
  \<open>internal/presentation/presentation.go\<close>: the one word published for a device, from the evaluation
  instant, the last contact and the two configured windows. The lemmas relate \<open>AgeSeconds\<close>, which
  borrows between second and nanosecond fields, to truncation of the exact difference, show that
  \<open>Evaluate\<close> only moves forward as time passes, and that a sweep every \<open>SweepBound\<close> seconds cannot
  step over the \<open>recent\<close> band.
\<close>

datatype Value = NoPosition | Live | Recent | Stale

fun Value_token :: "Value \<Rightarrow> string" where
  "Value_token NoPosition = ''no-position''"
| "Value_token Live = ''live''"
| "Value_token Recent = ''recent''"
| "Value_token Stale = ''stale''"

definition Values :: "Value list" where
  "Values = [NoPosition, Live, Recent, Stale]"

definition Valid :: "string \<Rightarrow> bool" where
  "Valid v \<longleftrightarrow> v \<in> set (map Value_token Values)"

record Windows =
  LiveSeconds :: int
  StaleSeconds :: int

definition AgeSeconds :: "instant \<Rightarrow> instant \<Rightarrow> int" where
  "AgeSeconds evaluationInstant lastContact =
     (let secs = wrap64 (Unix evaluationInstant - Unix lastContact);
          secs = (if Nanosecond evaluationInstant - Nanosecond lastContact < 0 then wrap64 (secs - 1) else secs)
      in if secs < 0 then 0 else secs)"

definition Evaluate :: "instant \<Rightarrow> instant option \<Rightarrow> Windows \<Rightarrow> Value" where
  "Evaluate evaluationInstant lastContact w =
     (case lastContact of
        None \<Rightarrow> NoPosition
      | Some lc \<Rightarrow>
          (let age = AgeSeconds evaluationInstant lc
           in if age \<le> LiveSeconds w then Live
              else if age \<le> StaleSeconds w then Recent
              else Stale))"

definition SweepBound :: "Windows \<Rightarrow> int" where
  "SweepBound w =
     (let band = wrap64 (StaleSeconds w - LiveSeconds w);
          smaller = (if band < LiveSeconds w then band else LiveSeconds w);
          b = quot smaller 2
      in if b > 1 then b else 1)"

section \<open>Properties\<close>

text \<open>
  Instants for which the second counts can be subtracted without leaving \<open>int64\<close>: within
  \<open>2 ^ 62\<close> seconds of the epoch, far beyond what a clock or a timestamp column produces.
\<close>

definition clock_range :: "instant \<Rightarrow> bool" where
  "clock_range t \<longleftrightarrow> - (2 ^ 62) < Unix t \<and> Unix t < 2 ^ 62"

text \<open>What \<open>config.Load\<close> guarantees of the windows.\<close>

definition windows_ok :: "Windows \<Rightarrow> bool" where
  "windows_ok w \<longleftrightarrow> 1 \<le> LiveSeconds w \<and> LiveSeconds w < StaleSeconds w \<and> StaleSeconds w < 2 ^ 63"

lemma div_borrow:
  fixes a b m n s :: int
  assumes "0 \<le> m" "m < s" "0 \<le> n" "n < s"
  shows "((a * s + m) - (b * s + n)) div s = a - b - (if m < n then 1 else 0)"
proof -
  have eq: "(a * s + m) - (b * s + n) = (m - n) + (a - b) * s" by (simp add: algebra_simps)
  have s: "s \<noteq> 0" using assms by linarith
  have "(m - n) div s = (if m < n then -1 else 0)"
    using assms int_div_pos_eq [of "m - n" s "-1" "m - n + s"] by auto
  then show ?thesis unfolding eq using s by (simp add: div_mult_self1)
qed

lemma AgeSeconds_eq:
  assumes "clock_range e" "clock_range l"
  shows "AgeSeconds e l = max 0 ((e - l) div second)"
proof -
  have d: "(e - l) div second
      = Unix e - Unix l - (if Nanosecond e < Nanosecond l then 1 else 0)"
    using div_borrow [of "Nanosecond e" second "Nanosecond l" "Unix e" "Unix l"]
      instant_split [of e] instant_split [of l] Nanosecond_range by simp
  have "wrap64 (Unix e - Unix l) = Unix e - Unix l"
    using assms by (intro wrap64_id) (simp add: int64_def clock_range_def)
  moreover have "wrap64 (Unix e - Unix l - 1) = Unix e - Unix l - 1"
    using assms by (intro wrap64_id) (simp add: int64_def clock_range_def)
  ultimately show ?thesis unfolding d by (simp add: AgeSeconds_def Let_def)
qed

lemma AgeSeconds_nonneg: "0 \<le> AgeSeconds e l"
  by (simp add: AgeSeconds_def Let_def)

lemma AgeSeconds_mono:
  assumes "clock_range e" "clock_range e'" "clock_range l" "e \<le> e'"
  shows "AgeSeconds e l \<le> AgeSeconds e' l"
  using assms by (simp add: AgeSeconds_eq zdiv_mono1 max.coboundedI2)

lemma AgeSeconds_step:
  assumes "clock_range e" "clock_range e'" "clock_range l" "e' \<le> e + n * second" "0 \<le> n"
  shows "AgeSeconds e' l \<le> AgeSeconds e l + n"
proof -
  have "(e' - l) div second \<le> (e - l + n * second) div second"
    using assms(4) by (intro zdiv_mono1) simp_all
  also have "\<dots> = (e - l) div second + n" by simp
  finally show ?thesis using assms by (simp add: AgeSeconds_eq)
qed

lemma Evaluate_NoPosition: "Evaluate e lc w = NoPosition \<longleftrightarrow> lc = None"
  by (auto simp: Evaluate_def Let_def split: option.splits)

text \<open>The order in which a device ages.\<close>

fun staleness :: "Value \<Rightarrow> nat" where
  "staleness NoPosition = 0"
| "staleness Live = 1"
| "staleness Recent = 2"
| "staleness Stale = 3"

text \<open>the classification. With contact at \<open>lc\<close>, the value is decided by the exact elapsed time,
  truncated to whole seconds and floored at zero, against the two windows, both boundaries counting
  as fresh; without contact it is \<open>no-position\<close> whatever the clock says.\<close>

theorem Evaluate_spec:
  assumes "clock_range e" "\<forall>l. lc = Some l \<longrightarrow> clock_range l"
  shows "Evaluate e lc w =
    (case lc of None \<Rightarrow> NoPosition
     | Some l \<Rightarrow>
         (let age = max 0 ((e - l) div second)
          in if age \<le> LiveSeconds w then Live
             else if age \<le> StaleSeconds w then Recent else Stale))"
  using assms by (auto simp: Evaluate_def AgeSeconds_eq split: option.splits)

theorem Evaluate_spec_witness:
  "map (\<lambda>n. Evaluate (n * second + 400000000) (Some 0) \<lparr>LiveSeconds = 120, StaleSeconds = 900\<rparr>)
     [0, 120, 121, 900, 901] = [Live, Live, Recent, Recent, Stale]"
proof -
  have c: "clock_range n" if "0 \<le> n" "n \<le> 10 ^ 12" for n
    using that zdiv_mono1 [of n "10 ^ 12" "10 ^ 9"] pos_imp_zdiv_nonneg_iff [of "10 ^ 9" n]
    by (simp add: clock_range_def Unix_def second_def)
  show ?thesis by (simp add: Evaluate_spec c second_def)
qed

text \<open>ageing. For a fixed last contact a later evaluation never gives a fresher value.\<close>

theorem Evaluate_ages:
  assumes "clock_range e" "clock_range e'" "clock_range l" "e \<le> e'"
  shows "staleness (Evaluate e (Some l) w) \<le> staleness (Evaluate e' (Some l) w)"
  using AgeSeconds_mono [OF assms] by (simp add: Evaluate_def Let_def)

theorem Evaluate_ages_witness:
  "staleness (Evaluate 0 (Some 0) \<lparr>LiveSeconds = 1, StaleSeconds = 2\<rparr>)
   \<le> staleness (Evaluate (3 * second) (Some 0) \<lparr>LiveSeconds = 1, StaleSeconds = 2\<rparr>)"
  by (rule Evaluate_ages) (simp_all add: clock_range_def Unix_def second_def)

lemma SweepBound_eq:
  assumes "windows_ok w"
  shows "SweepBound w = max 1 (min (LiveSeconds w) (StaleSeconds w - LiveSeconds w) div 2)"
proof -
  have "wrap64 (StaleSeconds w - LiveSeconds w) = StaleSeconds w - LiveSeconds w"
    using assms by (intro wrap64_id) (simp add: int64_def windows_ok_def)
  then show ?thesis
    using assms by (auto simp: SweepBound_def Let_def windows_ok_def quot_nonneg)
qed

lemma SweepBound_le_band:
  assumes "windows_ok w"
  shows "1 \<le> SweepBound w \<and> SweepBound w \<le> StaleSeconds w - LiveSeconds w"
proof -
  let ?m = "min (LiveSeconds w) (StaleSeconds w - LiveSeconds w)"
  have "1 \<le> ?m" using assms by (simp add: windows_ok_def)
  then have "?m div 2 \<le> ?m" by linarith
  then show ?thesis using assms by (auto simp: SweepBound_eq windows_ok_def)
qed

text \<open>the sweep bound. Under validated windows, a device that is \<open>live\<close> at one sweep cannot be
  \<open>stale\<close> at the next when the two are at most \<open>SweepBound\<close> seconds apart: the \<open>recent\<close> state is
  never stepped over.\<close>

theorem sweep_never_skips_recent:
  assumes "windows_ok w" "clock_range e" "clock_range e'" "clock_range l"
    and "e' \<le> e + SweepBound w * second"
    and "Evaluate e (Some l) w = Live"
  shows "Evaluate e' (Some l) w \<noteq> Stale"
proof -
  have "AgeSeconds e l \<le> LiveSeconds w"
    using assms(6) by (auto simp: Evaluate_def Let_def split: if_splits)
  moreover have "AgeSeconds e' l \<le> AgeSeconds e l + SweepBound w"
    using assms SweepBound_le_band [OF assms(1)] by (intro AgeSeconds_step) simp_all
  moreover have "SweepBound w \<le> StaleSeconds w - LiveSeconds w"
    using SweepBound_le_band [OF assms(1)] by simp
  ultimately have "AgeSeconds e' l \<le> StaleSeconds w" by linarith
  then show ?thesis by (simp add: Evaluate_def Let_def)
qed

theorem sweep_never_skips_recent_witness:
  "Evaluate (7 * second) (Some 0) \<lparr>LiveSeconds = 5, StaleSeconds = 10\<rparr> \<noteq> Stale"
proof (rule sweep_never_skips_recent [where e = "5 * second"])
  show "windows_ok \<lparr>LiveSeconds = 5, StaleSeconds = 10\<rparr>" by (simp add: windows_ok_def)
  show "7 * second \<le> 5 * second + SweepBound \<lparr>LiveSeconds = 5, StaleSeconds = 10\<rparr> * second"
    by (simp add: SweepBound_eq windows_ok_def second_def)
  show "Evaluate (5 * second) (Some 0) \<lparr>LiveSeconds = 5, StaleSeconds = 10\<rparr> = Live"
    by (simp add: Evaluate_def AgeSeconds_eq clock_range_def Unix_def second_def)
qed (simp_all add: clock_range_def Unix_def second_def)

end
