(* ===== verification/Views.thy ===== *)
theory Views
  imports Reads Presentation
begin

text \<open>
  The wire shapes of a device (\<open>internal/server/presentation.go\<close>): the entry both \<open>GET /v1/positions\<close>
  and the stream's \<open>position\<close> event carry, the payload of a \<open>presentation\<close> event, and the two orders
  devices are served in. \<open>strings.ToLower\<close> over Unicode is the parameter \<open>lower\<close>.
\<close>

section \<open>Entries\<close>

record positionResponse =
  pr_device_id :: string
  pr_device_name :: string
  pr_lat :: float64
  pr_lon :: float64
  pr_ts :: int
  pr_received_at :: int
  pr_presentation :: Value
  pr_last_contact_at :: int

record unlocatedEntry =
  un_device_id :: string
  un_device_name :: string
  un_presentation :: Value

record presentationUpdate =
  pu_device_id :: string
  pu_device_name :: string
  pu_presentation :: Value
  pu_last_contact_at :: int

datatype entry = Located positionResponse | Unlocated unlocatedEntry | Updated presentationUpdate

text \<open>
  \<open>s.LastContact.Unix()\<close> is reached only when the value is not \<open>no-position\<close>, that is, when there was
  contact; the pattern below makes that visible.
\<close>

definition unlocated_for :: "DeviceState \<Rightarrow> entry" where
  "unlocated_for s = Unlocated \<lparr>un_device_id = St_DeviceID s, un_device_name = St_DeviceName s, un_presentation = NoPosition\<rparr>"

definition entryFor :: "DeviceState \<Rightarrow> instant \<Rightarrow> Windows \<Rightarrow> entry" where
  "entryFor s inst w =
     (let v = Evaluate inst (St_LastContact s) w
      in case (St_Current s, St_LastContact s) of
           (Some cur, Some lc) \<Rightarrow>
             if v = NoPosition then unlocated_for s
             else Located \<lparr>pr_device_id = St_DeviceID s, pr_device_name = St_DeviceName s, pr_lat = Pos_Lat cur, pr_lon = Pos_Lon cur,
                    pr_ts = Unix (Pos_TS cur), pr_received_at = Unix (Pos_ReceivedAt cur), pr_presentation = v, pr_last_contact_at = Unix lc\<rparr>
         | _ \<Rightarrow> unlocated_for s)"

definition presentationPayloadFor :: "DeviceState \<Rightarrow> instant \<Rightarrow> Windows \<Rightarrow> entry" where
  "presentationPayloadFor s inst w =
     (let v = Evaluate inst (St_LastContact s) w
      in case (St_Current s, St_LastContact s) of
           (Some cur, Some lc) \<Rightarrow>
             if v = NoPosition then unlocated_for s
             else Updated \<lparr>pu_device_id = St_DeviceID s, pu_device_name = St_DeviceName s, pu_presentation = v, pu_last_contact_at = Unix lc\<rparr>
         | _ \<Rightarrow> unlocated_for s)"

section \<open>Orders\<close>

definition device_before :: "(string \<Rightarrow> string) \<Rightarrow> DeviceState \<Rightarrow> DeviceState \<Rightarrow> bool" where
  "device_before lower a b =
     (if lower (St_DeviceName a) \<noteq> lower (St_DeviceName b) then lower (St_DeviceName a) < lower (St_DeviceName b)
      else if St_DeviceName a \<noteq> St_DeviceName b then St_DeviceName a < St_DeviceName b
      else St_DeviceID a < St_DeviceID b)"

definition sortDeviceStates :: "(string \<Rightarrow> string) \<Rightarrow> DeviceState list \<Rightarrow> DeviceState list" where
  "sortDeviceStates lower states = stable_sort (device_before lower) states"

definition arrival_before :: "DeviceState \<Rightarrow> DeviceState \<Rightarrow> bool" where
  "arrival_before a b =
     (case (St_Current a, St_Current b) of
        (None, None) \<Rightarrow> St_DeviceID a < St_DeviceID b
      | (None, Some _) \<Rightarrow> True
      | (Some _, None) \<Rightarrow> False
      | (Some p, Some q) \<Rightarrow>
          if Pos_ReceivedAt p \<noteq> Pos_ReceivedAt q then Pos_ReceivedAt p < Pos_ReceivedAt q
          else St_DeviceID a < St_DeviceID b)"

definition sortByArrival :: "DeviceState list \<Rightarrow> DeviceState list" where
  "sortByArrival states = stable_sort arrival_before states"

interpretation device_order: strict_weak_order "device_before lower" for lower
  by unfold_locales (auto simp: device_before_def split: if_splits)

interpretation arrival_order: strict_weak_order arrival_before
  by unfold_locales (auto simp: arrival_before_def split: if_splits option.splits)

lemma device_before_total: "\<not> device_before lower a b \<Longrightarrow> \<not> device_before lower b a \<Longrightarrow> St_DeviceID a = St_DeviceID b"
  by (auto simp: device_before_def split: if_splits)

lemma arrival_before_total: "\<not> arrival_before a b \<Longrightarrow> \<not> arrival_before b a \<Longrightarrow> St_DeviceID a = St_DeviceID b"
  by (auto simp: arrival_before_def split: if_splits option.splits)

lemma id_injective: "distinct (map St_DeviceID ss) \<Longrightarrow> a \<in> set ss \<Longrightarrow> b \<in> set ss \<Longrightarrow> St_DeviceID a = St_DeviceID b \<Longrightarrow> a = b"
  by (metis distinct_map inj_on_eq_iff)

text \<open>
  The order of the response does not depend on the order of the rows. Two reads of the same devices
  give the same list, whatever the query planner returned first; the list has every device once and is
  sorted by folded name, then name, then id.
\<close>

theorem served_order_canonical:
  assumes "mset ss = mset ss'" "distinct (map St_DeviceID ss)"
  shows "sortDeviceStates lower ss = sortDeviceStates lower ss'
    \<and> mset (sortDeviceStates lower ss) = mset ss
    \<and> sorted_wrt (\<lambda>a b. device_before lower a b \<or> St_DeviceID a = St_DeviceID b) (sortDeviceStates lower ss)"
proof -
  have "stable_sort (device_before lower) ss = stable_sort (device_before lower) ss'"
    using assms(2) by (intro device_order.stable_sort_perm_invariant [OF assms(1)]) (metis device_before_total id_injective)
  moreover have "sorted_wrt (\<lambda>a b. device_before lower a b \<or> St_DeviceID a = St_DeviceID b) (stable_sort (device_before lower) ss)"
    using device_order.stable_sort_sorted by (rule sorted_wrt_mono_rel [rotated]) (metis device_before_total)
  ultimately show ?thesis using assms(1) by (simp add: sortDeviceStates_def)
qed

theorem served_order_canonical_witness:
  "sortDeviceStates to_lower
     [\<lparr>St_DeviceID = ''1'', St_DeviceName = ''apple'', St_Current = None, St_LastContact = None\<rparr>,
      \<lparr>St_DeviceID = ''2'', St_DeviceName = ''APPLE'', St_Current = None, St_LastContact = None\<rparr>]
   = sortDeviceStates to_lower
     [\<lparr>St_DeviceID = ''2'', St_DeviceName = ''APPLE'', St_Current = None, St_LastContact = None\<rparr>,
      \<lparr>St_DeviceID = ''1'', St_DeviceName = ''apple'', St_Current = None, St_LastContact = None\<rparr>]"
  by (rule served_order_canonical [THEN conjunct1]) simp_all

section \<open>No fabricated positions\<close>

text \<open>
  What the wire says of a device is exactly what is known of it. A device with a current position
  and a recorded contact is described with that position and the freshness of that contact, on both
  surfaces; every other device gets the entry without coordinates on both surfaces, and a located
  entry never claims \<open>no-position\<close>.
\<close>

theorem entries_agree:
  "(case (St_Current s, St_LastContact s) of
      (Some cur, Some lc) \<Rightarrow>
        (\<exists>p u. entryFor s inst w = Located p \<and> presentationPayloadFor s inst w = Updated u
          \<and> pr_device_id p = St_DeviceID s \<and> pu_device_id u = St_DeviceID s
          \<and> pr_lat p = Pos_Lat cur \<and> pr_lon p = Pos_Lon cur \<and> pr_ts p = Unix (Pos_TS cur)
          \<and> pr_presentation p = Evaluate inst (Some lc) w \<and> pr_presentation p \<noteq> NoPosition
          \<and> pu_presentation u = pr_presentation p \<and> pu_last_contact_at u = pr_last_contact_at p \<and> pr_last_contact_at p = Unix lc)
    | _ \<Rightarrow> entryFor s inst w = unlocated_for s \<and> presentationPayloadFor s inst w = unlocated_for s)"
proof -
  have "Evaluate inst (Some lc) w \<noteq> NoPosition" for lc by (simp add: Evaluate_def Let_def)
  then show ?thesis by (auto simp: entryFor_def presentationPayloadFor_def split: option.splits)
qed

end
