(* ===== verification/Geofence.thy ===== *)
theory Geofence
  imports Reads
begin

text \<open>
  Places (\<open>internal/store/geofence.go\<close>, and \<open>CreateGeofence\<close>, \<open>polygonWKT\<close> and \<open>GeofencesContaining\<close>
  from \<open>entities.go\<close> and \<open>store.go\<close>): the debounced enter/exit state machine, the evaluator that appends
  to the event log, and the management of Places. \<open>strconv.FormatFloat\<close> is a parameter.
\<close>

section \<open>The dwell state machine\<close>

record reading =
  rd_ts :: instant
  rd_inside :: bool

record transition =
  tr_ts :: instant
  tr_enter :: bool

definition GeofenceDebounce :: duration where "GeofenceDebounce = 90 * second"
definition geofenceEvalNeighbours :: nat where "geofenceEvalNeighbours = 128"

text \<open>The inner loop: does the run of readings from the onset reach \<open>onset + debounce\<close>?\<close>

fun dwell_met :: "reading list \<Rightarrow> bool \<Rightarrow> instant \<Rightarrow> duration \<Rightarrow> bool" where
  "dwell_met [] newState onset debounce = False"
| "dwell_met (r # rs) newState onset debounce =
     (if rd_inside r = newState
      then (if \<not> rd_ts r < onset + debounce then True else dwell_met rs newState onset debounce)
      else False)"

fun confirm_loop :: "reading list \<Rightarrow> bool \<Rightarrow> bool \<Rightarrow> duration \<Rightarrow> transition list" where
  "confirm_loop [] state observed debounce = []"
| "confirm_loop (r # rs) state observed debounce =
     (if rd_inside r = state then confirm_loop rs state True debounce
      else if \<not> observed then confirm_loop rs state observed debounce
      else if dwell_met (r # rs) (rd_inside r) (rd_ts r) debounce
      then \<lparr>tr_ts = rd_ts r, tr_enter = rd_inside r\<rparr> # confirm_loop rs (rd_inside r) True debounce
      else confirm_loop rs state observed debounce)"

definition confirmTransitions :: "reading list \<Rightarrow> bool \<Rightarrow> bool \<Rightarrow> duration \<Rightarrow> transition list" where
  "confirmTransitions readings seedInside haveSeedEvidence debounce =
     confirm_loop readings seedInside haveSeedEvidence debounce"

section \<open>The evaluator\<close>

record GeofenceEvent =
  GE_DeviceID :: string
  GE_GeofenceID :: string
  GE_GeofenceName :: string
  GE_Transition :: string
  GE_FixTS :: instant

text \<open>\<open>geofences g JOIN devices d ON d.family_id = g.family_id WHERE d.id = dev ORDER BY g.id\<close>; uuids compare as bytes.\<close>

definition places_sql :: "pg \<Rightarrow> string \<Rightarrow> (uuid \<times> string) list stmt" where
  "places_sql pg deviceID = with_uuid pg deviceID (\<lambda>dev d.
     (Inr (stable_sort (\<lambda>a b. fst a < fst b)
        (concat (map (\<lambda>g. map (\<lambda>_. (gf_id g, gf_name g)) (filter (\<lambda>r. dev_id r = dev \<and> dev_family r = gf_family g) (devices d)))
           (geofences d)))), d))"

definition last_event_sql :: "pg \<Rightarrow> string \<Rightarrow> string \<Rightarrow> event_row list stmt" where
  "last_event_sql pg deviceID geofenceID = with_uuid pg deviceID (\<lambda>dev. with_uuid pg geofenceID (\<lambda>gf d.
     (Inr (take 1 (stable_sort (\<lambda>a b. ev_fix_ts b < ev_fix_ts a)
        (filter (\<lambda>e. ev_device e = dev \<and> ev_geofence e = gf) (events d)))), d)))"

text \<open>
  The neighbourhood query: the fixes after the floor, at most \<open>n\<close> of them at or before \<open>around\<close>
  (the latest ones) and at most \<open>n\<close> after it (the earliest ones), in timestamp order.
\<close>

definition neighbourhood_sql :: "pg \<Rightarrow> string \<Rightarrow> string \<Rightarrow> instant \<Rightarrow> instant \<Rightarrow> nat \<Rightarrow> reading list stmt" where
  "neighbourhood_sql pg deviceID geofenceID flr around n = with_uuid pg deviceID (\<lambda>dev. with_uuid pg geofenceID (\<lambda>gf d.
     (let rows = concat (map (\<lambda>f. map (\<lambda>g. \<lparr>rd_ts = fx_ts f, rd_inside = st_covers pg (gf_area g) (fx_lon f, fx_lat f)\<rparr>)
                    (filter (\<lambda>g. gf_id g = gf) (geofences d)))
                  (filter (\<lambda>f. pg_time flr < fx_ts f) (device_fixes dev d)));
          before = take n (stable_sort (\<lambda>a b. rd_ts b < rd_ts a) (filter (\<lambda>r. rd_ts r \<le> pg_time around) rows));
          after = take n (stable_sort (\<lambda>a b. rd_ts a < rd_ts b) (filter (\<lambda>r. pg_time around < rd_ts r) rows))
      in (Inr (stable_sort (\<lambda>a b. rd_ts a < rd_ts b) (before @ after)), d))))"

definition append_event_sql :: "pg \<Rightarrow> string \<Rightarrow> string \<Rightarrow> bool \<Rightarrow> instant \<Rightarrow> int stmt" where
  "append_event_sql pg deviceID geofenceID enter ts = with_uuid pg deviceID (\<lambda>dev. with_uuid pg geofenceID (\<lambda>gf d.
     (case gen_random_uuid d of (i, d1) \<Rightarrow>
        if \<exists>e \<in> set (events d). ev_device e = dev \<and> ev_geofence e = gf \<and> ev_fix_ts e = pg_time ts then (Inr 0, d)
        else if i \<in> ev_id ` set (events d) then (Inl (PgError ''23505'' ''geofence_events_pkey''), d)
        else if dev \<notin> dev_id ` set (devices d) \<or> gf \<notin> gf_id ` set (geofences d)
        then (Inl (PgError ''23503'' ''geofence_events foreign key''), d)
        else (Inr 1, d1\<lparr>events := events d @ [\<lparr>ev_id = i, ev_device = dev, ev_geofence = gf, ev_enter = enter,
               ev_fix_ts = pg_time ts, ev_created = now d\<rparr>]\<rparr>))))"

text \<open>
  Appending the confirmed transitions. As in Go both results are kept: the events appended so far and
  the error that stopped the loop.
\<close>

fun append_loop :: "pg \<Rightarrow> string \<Rightarrow> string \<Rightarrow> string \<Rightarrow> transition list \<Rightarrow> db \<Rightarrow> (GeofenceEvent list \<times> store_error option) \<times> db" where
  "append_loop pg deviceID geofenceID geofenceName [] d = (([], None), d)"
| "append_loop pg deviceID geofenceID geofenceName (tr # trs) d =
     (case run (append_event_sql pg deviceID geofenceID (tr_enter tr) (tr_ts tr)) d of
        (Inl e, d1) \<Rightarrow> (([], Some (StPg e)), d1)
      | (Inr n, d1) \<Rightarrow>
          (case append_loop pg deviceID geofenceID geofenceName trs d1 of
             ((evs, err), d2) \<Rightarrow>
               ((if n = 1
                 then \<lparr>GE_DeviceID = deviceID, GE_GeofenceID = geofenceID, GE_GeofenceName = geofenceName,
                        GE_Transition = (if tr_enter tr then ''enter'' else ''exit''), GE_FixTS = tr_ts tr\<rparr> # evs
                 else evs, err), d2)))"

definition evaluateOneGeofence ::
  "pg \<Rightarrow> string \<Rightarrow> string \<Rightarrow> string \<Rightarrow> instant \<Rightarrow> duration \<Rightarrow> db \<Rightarrow> (GeofenceEvent list \<times> store_error option) \<times> db" where
  "evaluateOneGeofence pg deviceID geofenceID geofenceName around debounce d =
     (case run (last_event_sql pg deviceID geofenceID) d of
        (Inl e, d1) \<Rightarrow> (([], Some (StPg e)), d1)
      | (Inr evs, d1) \<Rightarrow>
          let haveEvent = (evs \<noteq> []);
              lastTS = (case evs of [] \<Rightarrow> zero_time | e # _ \<Rightarrow> ev_fix_ts e);
              seedInside = (case evs of [] \<Rightarrow> False | e # _ \<Rightarrow> ev_enter e)
          in case run (neighbourhood_sql pg deviceID geofenceID lastTS around geofenceEvalNeighbours) d1 of
               (Inl e, d2) \<Rightarrow> (([], Some (StPg e)), d2)
             | (Inr readings, d2) \<Rightarrow>
                 append_loop pg deviceID geofenceID geofenceName
                   (confirmTransitions readings seedInside haveEvent debounce) d2)"

fun evaluate_places ::
  "pg \<Rightarrow> string \<Rightarrow> instant \<Rightarrow> duration \<Rightarrow> (uuid \<times> string) list \<Rightarrow> db \<Rightarrow> (GeofenceEvent list \<times> store_error option) \<times> db" where
  "evaluate_places pg deviceID around debounce [] d = (([], None), d)"
| "evaluate_places pg deviceID around debounce ((i, n) # ps) d =
     (case evaluateOneGeofence pg deviceID i n around debounce d of
        ((evs, Some e), d1) \<Rightarrow> (([], Some e), d1)
      | ((evs, None), d1) \<Rightarrow>
          (case evaluate_places pg deviceID around debounce ps d1 of
             ((evs', err), d2) \<Rightarrow> ((evs @ evs', err), d2)))"

definition EvaluateDeviceGeofences ::
  "pg \<Rightarrow> string \<Rightarrow> instant \<Rightarrow> duration \<Rightarrow> db \<Rightarrow> (GeofenceEvent list \<times> store_error option) \<times> db" where
  "EvaluateDeviceGeofences pg deviceID around debounce d =
     (case run (places_sql pg deviceID) d of
        (Inl e, d1) \<Rightarrow> (([], Some (StPg e)), d1)
      | (Inr ps, d1) \<Rightarrow> evaluate_places pg deviceID around debounce ps d1)"

section \<open>A reference for the state machine\<close>

text \<open>
  The readings as stays: maximal runs of equal containment with the first and the last timestamp. A
  stay becomes a transition when it changes the confirmed state, the state it leaves has been observed,
  and it lasts the dwell; the transition carries the timestamp of the stay's first reading.
\<close>

fun stays :: "reading list \<Rightarrow> (bool \<times> instant \<times> instant) list" where
  "stays [] = []"
| "stays (r # rs) =
     (case stays rs of
        [] \<Rightarrow> [(rd_inside r, rd_ts r, rd_ts r)]
      | (b, t0, t1) # ss \<Rightarrow>
          (if b = rd_inside r then (b, rd_ts r, t1) # ss
           else (rd_inside r, rd_ts r, rd_ts r) # (b, t0, t1) # ss))"

fun confirm_stays :: "(bool \<times> instant \<times> instant) list \<Rightarrow> bool \<Rightarrow> bool \<Rightarrow> duration \<Rightarrow> transition list" where
  "confirm_stays [] state observed debounce = []"
| "confirm_stays ((b, t0, t1) # ss) state observed debounce =
     (if b = state then confirm_stays ss state True debounce
      else if observed \<and> t0 + debounce \<le> t1
      then \<lparr>tr_ts = t0, tr_enter = b\<rparr> # confirm_stays ss b True debounce
      else confirm_stays ss state observed debounce)"

abbreviation ts_sorted :: "reading list \<Rightarrow> bool" where
  "ts_sorted rs \<equiv> sorted_wrt (\<lambda>a b. rd_ts a \<le> rd_ts b) rs"

lemma stays_Nil [simp]: "stays rs = [] \<longleftrightarrow> rs = []"
  by (cases rs) (auto split: list.splits)

lemma stays_hd:
  "stays (r # rs) = (b, t0, t1) # ss \<Longrightarrow> b = rd_inside r \<and> t0 = rd_ts r"
  by (auto split: list.splits if_splits)

lemma stays_last_ge:
  "ts_sorted rs \<Longrightarrow> stays rs = (b, t0, t1) # ss \<Longrightarrow> t0 \<le> t1"
proof (induction rs arbitrary: b t0 t1 ss)
  case (Cons r rs)
  show ?case
  proof (cases rs)
    case Nil
    then show ?thesis using Cons.prems by simp
  next
    case (Cons q qs)
    obtain b' f' l' ss' where s: "stays rs = (b', f', l') # ss'" using Cons by (metis neq_Nil_conv prod_cases3 stays_Nil list.distinct(1))
    have "f' = rd_ts q" using stays_hd s Cons by blast
    moreover have "f' \<le> l'" using Cons.IH [OF _ s] Cons.prems(1) by simp
    ultimately show ?thesis using Cons.prems s Cons by (auto split: if_splits)
  qed
qed simp

text \<open>The inner loop looks at the first stay only.\<close>

lemma dwell_met_stay:
  assumes "ts_sorted rs" "stays rs = (b, t0, t1) # ss"
  shows "dwell_met rs b onset debounce \<longleftrightarrow> onset + debounce \<le> t1"
  using assms
proof (induction rs arbitrary: b t0 t1 ss)
  case (Cons r rs)
  have b: "b = rd_inside r" "t0 = rd_ts r" using stays_hd Cons.prems(2) by blast+
  show ?case
  proof (cases "stays rs")
    case Nil
    then show ?thesis using Cons.prems(2) b by auto
  next
    case (Cons s ss')
    obtain b' f' l' where s: "s = (b', f', l')" by (cases s)
    have le: "t0 \<le> t1" using stays_last_ge [OF Cons.prems] .
    show ?thesis
    proof (cases "b' = rd_inside r")
      case True
      then have "t1 = l'" using Cons.prems(2) Cons s by simp
      moreover have "dwell_met rs b' onset debounce \<longleftrightarrow> onset + debounce \<le> l'"
        using Cons.IH [of b' f' l' ss'] Cons.prems(1) Cons s by simp
      ultimately show ?thesis using True b le by auto
    next
      case False
      then have "t1 = rd_ts r" using Cons.prems(2) Cons s by simp
      moreover have "\<not> dwell_met rs b onset debounce"
      proof (cases rs)
        case (Cons q qs)
        then have "rd_inside q = b'" using stays_hd \<open>stays rs = s # ss'\<close> s by blast
        then show ?thesis using False b Cons by simp
      qed simp
      ultimately show ?thesis using b by simp
    qed
  qed
qed simp

lemma confirm_loop_step:
  assumes "dwell_met (r # rs) (rd_inside r) (rd_ts r) db = D"
  shows "confirm_loop (r # rs) st ob db =
    (if rd_inside r = st then confirm_loop rs st True db
     else if ob \<and> D then \<lparr>tr_ts = rd_ts r, tr_enter = rd_inside r\<rparr> # confirm_loop rs (rd_inside r) True db
     else confirm_loop rs st ob db)"
  unfolding confirm_loop.simps assms by simp

declare confirm_loop.simps(2) [simp del]

lemma confirm_loop_cases:
  obtains (same) ob' where "confirm_loop (r # rs) st ob db = confirm_loop rs st ob' db"
  | (emit) "rd_inside r \<noteq> st"
      "confirm_loop (r # rs) st ob db = \<lparr>tr_ts = rd_ts r, tr_enter = rd_inside r\<rparr> # confirm_loop rs (rd_inside r) True db"
  unfolding confirm_loop_step [OF refl] by (metis (full_types))

text \<open>Inside a stay that is not confirmed, no later reading of it is confirmed either.\<close>

lemma confirm_loop_stays:
  assumes "ts_sorted rs"
  shows "confirm_loop rs state observed debounce = confirm_stays (stays rs) state observed debounce"
  using assms
proof (induction rs arbitrary: state observed)
  case (Cons r rs)
  have IH: "confirm_loop rs st ob debounce = confirm_stays (stays rs) st ob debounce" for st ob
    using Cons by simp
  obtain s0 ss where s0: "stays (r # rs) = s0 # ss" using stays_Nil [of "r # rs"] by (cases "stays (r # rs)") blast+
  obtain b t0 t1 where "s0 = (b, t0, t1)" by (cases s0)
  then have st: "stays (r # rs) = (rd_inside r, t0, t1) # ss" and f: "t0 = rd_ts r" using stays_hd s0 by auto
  note step = confirm_loop_step [OF dwell_met_stay [OF Cons.prems st, of "rd_ts r" debounce]]
  show ?case
  proof (cases "stays rs")
    case Nil
    then show ?thesis using st f step IH by auto
  next
    case (Cons s ss')
    obtain b' f' l' where s: "s = (b', f', l')" by (cases s)
    have fl: "rd_ts r \<le> f'"
    proof -
      obtain q qs where "rs = q # qs" using Cons stays_Nil by (metis neq_Nil_conv list.distinct(1))
      then show ?thesis using Cons.prems stays_hd [of q qs] Cons s by simp
    qed
    show ?thesis
    proof (cases "b' = rd_inside r")
      case True
      then have "t1 = l'" "ss = ss'" using st Cons s by auto
      then show ?thesis using True st f step fl IH Cons s by auto
    next
      case False
      then have "t1 = rd_ts r" "ss = s # ss'" using st Cons s by auto
      then show ?thesis using False st f step IH Cons s by auto
    qed
  qed
qed simp

text \<open>
  C13: The dwell machine emits exactly one transition for every stay that changes the confirmed state,
  leaves a state that was observed, and lasts at least the debounce, stamped with the first reading of
  that stay; shorter stays (jitter) and stays that are still too short (pending) emit nothing.
\<close>

theorem confirmTransitions_stays:
  assumes "sorted_wrt (\<lambda>a b. rd_ts a \<le> rd_ts b) readings"
  shows "confirmTransitions readings seedInside haveSeedEvidence debounce
       = confirm_stays (stays readings) seedInside haveSeedEvidence debounce"
  unfolding confirmTransitions_def using assms by (rule confirm_loop_stays)

definition sample_readings :: "reading list" where
  "sample_readings = map (\<lambda>(t, b). \<lparr>rd_ts = t * second, rd_inside = b\<rparr>)
     [(0, False), (10, True), (20, False), (30, True), (130, True), (140, False), (300, True), (310, True)]"

text \<open>A flap at 10 s, an arrival at 30 s confirmed at 130 s, a flap out at 140 s.\<close>

theorem confirmTransitions_stays_witness:
  "confirmTransitions sample_readings False False GeofenceDebounce = confirm_stays (stays sample_readings) False False GeofenceDebounce
   \<and> confirmTransitions sample_readings False False GeofenceDebounce = [\<lparr>tr_ts = 30 * second, tr_enter = True\<rparr>]"
proof -
  have "sorted_wrt (\<lambda>a b. rd_ts a \<le> rd_ts b) sample_readings" by (simp add: sample_readings_def second_def)
  moreover have "confirm_stays (stays sample_readings) False False GeofenceDebounce = [\<lparr>tr_ts = 30 * second, tr_enter = True\<rparr>]"
    by (simp add: sample_readings_def second_def GeofenceDebounce_def)
  ultimately show ?thesis using confirmTransitions_stays by metis
qed

section \<open>What the log can contain\<close>

fun alternating :: "bool \<Rightarrow> transition list \<Rightarrow> bool" where
  "alternating st [] = True"
| "alternating st (t # ts) = (tr_enter t \<noteq> st \<and> alternating (tr_enter t) ts)"

fun final_state :: "bool \<Rightarrow> transition list \<Rightarrow> bool" where
  "final_state st [] = st"
| "final_state st (t # ts) = final_state (tr_enter t) ts"

lemma confirm_loop_alternating: "alternating st (confirm_loop rs st ob db)"
proof (induction rs arbitrary: st ob)
  case (Cons r rs)
  then show ?case by (cases rule: confirm_loop_cases [of r rs st ob db]) auto
qed simp

lemma confirm_loop_ts: "set (map tr_ts (confirm_loop rs st ob db)) \<subseteq> rd_ts ` set rs"
proof (induction rs arbitrary: st ob)
  case (Cons r rs)
  show ?case
  proof (cases rule: confirm_loop_cases [of r rs st ob db])
    case (same ob')
    then show ?thesis using Cons [of st ob'] by auto
  next
    case emit
    then show ?thesis using Cons [of "rd_inside r" True] by auto
  qed
qed simp

lemma confirm_loop_increasing:
  "sorted_wrt (\<lambda>a b. rd_ts a < rd_ts b) rs \<Longrightarrow> sorted_wrt (\<lambda>a b. tr_ts a < tr_ts b) (confirm_loop rs st ob db)"
proof (induction rs arbitrary: st ob)
  case (Cons r rs)
  have "rd_ts r < tr_ts t" if "t \<in> set (confirm_loop rs (rd_inside r) True db)" for t
    using that confirm_loop_ts [of rs "rd_inside r" True db] Cons.prems by auto
  then show ?case using Cons by (cases rule: confirm_loop_cases [of r rs st ob db]) auto
qed simp

text \<open>Nothing is emitted after the last transition: continuing from it emits nothing.\<close>

lemma confirm_loop_after_last:
  assumes "sorted_wrt (\<lambda>a b. rd_ts a < rd_ts b) rs" "confirm_loop rs st ob db \<noteq> []"
  shows "confirm_loop (filter (\<lambda>r. tr_ts (last (confirm_loop rs st ob db)) < rd_ts r) rs)
    (tr_enter (last (confirm_loop rs st ob db))) True db = []"
  using assms
proof (induction rs arbitrary: st ob)
  case (Cons r rs)
  have s: "sorted_wrt (\<lambda>a b. rd_ts a < rd_ts b) rs" using Cons.prems by simp
  have skip: "filter (\<lambda>q. tr_ts (last out) < rd_ts q) (r # rs) = filter (\<lambda>q. tr_ts (last out) < rd_ts q) rs"
    if out: "out \<noteq> []" "set (map tr_ts out) \<subseteq> rd_ts ` set (r # rs)" for out
  proof -
    have "tr_ts (last out) \<in> rd_ts ` set (r # rs)" using out by (metis imageI last_in_set list.set_map subsetD)
    then have "rd_ts r \<le> tr_ts (last out)" using Cons.prems(1) by auto
    then show ?thesis by simp
  qed
  have all: "set (map tr_ts (confirm_loop (r # rs) st ob db)) \<subseteq> rd_ts ` set (r # rs)" by (rule confirm_loop_ts)
  show ?case
  proof (cases rule: confirm_loop_cases [of r rs st ob db])
    case (same ob')
    then show ?thesis using Cons.IH [OF s] skip [OF Cons.prems(2) all] Cons.prems(2) by simp
  next
    case emit
    define out where "out = confirm_loop rs (rd_inside r) True db"
    show ?thesis
    proof (cases "out = []")
      case True
      have "filter (\<lambda>q. rd_ts r < rd_ts q) rs = rs" using Cons.prems(1) by (intro filter_True) simp
      then show ?thesis using emit True by (simp add: out_def)
    next
      case False
      then have l: "last (confirm_loop (r # rs) st ob db) = last out" using emit(2) by (simp add: out_def)
      show ?thesis
        unfolding skip [OF Cons.prems(2) all] unfolding l
        using Cons.IH [OF s, of "rd_inside r" True, folded out_def] False by simp
    qed
  qed
qed simp

section \<open>The event log\<close>

interpretation places_query: query "places_sql pg dev" for pg dev
  unfolding places_sql_def by (rule with_uuid_query) (simp add: query_def)

interpretation last_event_query: query "last_event_sql pg dev gf" for pg dev gf
  unfolding last_event_sql_def by (intro with_uuid_query) (simp add: query_def)

interpretation neighbourhood_query: query "neighbourhood_sql pg dev gf flr around n" for pg dev gf flr around n
  unfolding neighbourhood_sql_def by (intro with_uuid_query) (simp add: query_def Let_def)

lemma with_uuid_statement: "(\<And>u. statement (k u)) \<Longrightarrow> statement (with_uuid pg s k)"
  unfolding statement_def with_uuid_def by (auto split: option.splits)

interpretation append_event: statement "append_event_sql pg dev gf enter ts" for pg dev gf enter ts
  unfolding append_event_sql_def
  by (intro with_uuid_statement) (unfold_locales; auto simp: gen_random_uuid_def split: if_splits)

text \<open>
  The crossings of one device and one Place, in the order they were appended. The log is well-formed
  when for each pair they are in strictly increasing event time and alternate, starting with an enter.
\<close>

definition crossings :: "uuid \<Rightarrow> uuid \<Rightarrow> db \<Rightarrow> transition list" where
  "crossings dev gf d = map (\<lambda>e. \<lparr>tr_ts = ev_fix_ts e, tr_enter = ev_enter e\<rparr>)
     (filter (\<lambda>e. ev_device e = dev \<and> ev_geofence e = gf) (events d))"

definition log_ok :: "db \<Rightarrow> bool" where
  "log_ok d \<longleftrightarrow> (\<forall>dev gf. sorted_wrt (\<lambda>a b. tr_ts a < tr_ts b) (crossings dev gf d) \<and> alternating False (crossings dev gf d))"

text \<open>Timestamps of rows are whole microseconds.\<close>

definition micro :: "instant \<Rightarrow> bool" where "micro t \<longleftrightarrow> pg_time t = t"

lemma micro_pg_time [simp]: "micro (pg_time t)" by (simp add: micro_def pg_time_def)

definition fixes_micro :: "db \<Rightarrow> bool" where "fixes_micro d \<longleftrightarrow> (\<forall>f \<in> set (all_fixes d). micro (fx_ts f))"

lemma alternating_snoc:
  "alternating st (xs @ [t]) \<longleftrightarrow> alternating st xs \<and> tr_enter t \<noteq> final_state st xs"
  by (induction st xs rule: alternating.induct) auto

lemma final_state_last: "xs \<noteq> [] \<Longrightarrow> final_state st xs = tr_enter (last xs)"
  by (induction st xs rule: final_state.induct) auto

lemma stable_sort_rev:
  assumes "strict_weak_order (\<lambda>a b. f b < (f a :: int))" "sorted_wrt (\<lambda>a b. f a < f b) xs"
  shows "stable_sort (\<lambda>a b. f b < f a) xs = rev xs"
  using assms(2)
proof (induction xs)
  case (Cons x xs)
  have "insert_by (\<lambda>a b. f b < f a) x ys = ys @ [x]" if "\<forall>y \<in> set ys. f x < f y" for ys
    using that by (induction ys) auto
  then show ?case using Cons by simp
qed simp

lemma last_event_clean:
  assumes "log_ok d" "uuid_in pg deviceID = Some dev" "uuid_in pg geofenceID = Some gf"
    and "fst (last_event_sql pg deviceID geofenceID d) = Inr evs"
  shows "case evs of [] \<Rightarrow> crossings dev gf d = []
    | e # _ \<Rightarrow> crossings dev gf d \<noteq> [] \<and> last (crossings dev gf d) = \<lparr>tr_ts = ev_fix_ts e, tr_enter = ev_enter e\<rparr>"
proof -
  define es where "es = filter (\<lambda>e. ev_device e = dev \<and> ev_geofence e = gf) (events d)"
  have c: "crossings dev gf d = map (\<lambda>e. \<lparr>tr_ts = ev_fix_ts e, tr_enter = ev_enter e\<rparr>) es"
    by (simp add: crossings_def es_def)
  have "sorted_wrt (\<lambda>a b. ev_fix_ts a < ev_fix_ts b) es"
    using assms(1) [unfolded log_ok_def, rule_format, of dev gf] unfolding c sorted_wrt_map by simp
  then have "stable_sort (\<lambda>a b. ev_fix_ts b < ev_fix_ts a) es = rev es"
    by (intro stable_sort_rev) (unfold_locales, auto)
  then have "evs = take 1 (rev es)"
    using assms(2-4) by (simp add: last_event_sql_def with_uuid_def es_def)
  then show ?thesis using c by (cases es rule: rev_cases) auto
qed

text \<open>One append keeps the log well-formed when it continues the crossings of its pair.\<close>

lemma crossings_faults [simp]: "crossings dev gf (d\<lparr>faults := fs\<rparr>) = crossings dev gf d"
  by (simp add: crossings_def)

lemma append_event_crossings:
  assumes "append_event_sql pg deviceID geofenceID enter ts d = (Inr n, d')"
    and "uuid_in pg deviceID = Some dev" "uuid_in pg geofenceID = Some gf"
  shows "n = 0 \<and> d' = d \<and> (\<exists>t \<in> set (crossings dev gf d). tr_ts t = pg_time ts)
    \<or> n = 1 \<and> crossings dev gf d' = crossings dev gf d @ [\<lparr>tr_ts = pg_time ts, tr_enter = enter\<rparr>]
      \<and> (\<forall>dv g. (dv, g) \<noteq> (dev, gf) \<longrightarrow> crossings dv g d' = crossings dv g d) \<and> all_fixes d' = all_fixes d
      \<and> devices d' = devices d \<and> geofences d' = geofences d"
  using assms
  by (auto simp: append_event_sql_def with_uuid_def gen_random_uuid_def crossings_def all_fixes_def split: if_splits)

text \<open>Transitions that continue the log of a pair.\<close>

definition continues :: "transition list \<Rightarrow> transition list \<Rightarrow> bool" where
  "continues lg trs \<longleftrightarrow> alternating (final_state False lg) trs \<and> sorted_wrt (\<lambda>a b. tr_ts a < tr_ts b) (lg @ trs)
     \<and> (\<forall>t \<in> set trs. micro (tr_ts t))"

lemma continues_step: "continues lg (t # trs) \<Longrightarrow> continues (lg @ [t]) trs"
  by (induction lg) (auto simp: continues_def final_state_last)

lemma final_state_append: "final_state st (xs @ ys) = final_state (final_state st xs) ys"
  by (induction st xs rule: final_state.induct) auto

lemma log_ok_append:
  assumes "log_ok d" "continues (crossings dev gf d) (t # trs)"
    and "crossings dev gf d' = crossings dev gf d @ [t]" "\<And>dv g. (dv, g) \<noteq> (dev, gf) \<Longrightarrow> crossings dv g d' = crossings dv g d"
  shows "log_ok d' \<and> continues (crossings dev gf d') trs"
proof -
  have "sorted_wrt (\<lambda>a b. tr_ts a < tr_ts b) (crossings dev gf d @ [t])"
    "alternating False (crossings dev gf d @ [t])"
    using assms(1,2) by (auto simp: continues_def log_ok_def sorted_wrt_append alternating_snoc)
  then have "sorted_wrt (\<lambda>a b. tr_ts a < tr_ts b) (crossings dv g d') \<and> alternating False (crossings dv g d')" for dv g
    using assms(1,3,4) by (cases "(dv, g) = (dev, gf)") (auto simp: log_ok_def)
  then show ?thesis using assms(2,3) continues_step by (simp add: log_ok_def)
qed

lemma transition_eta [simp]: "\<lparr>tr_ts = tr_ts t, tr_enter = tr_enter t\<rparr> = t"
  by simp

lemma append_loop_log:
  assumes "log_ok d" "continues (crossings dev gf d) trs"
    and "uuid_in pg deviceID = Some dev" "uuid_in pg geofenceID = Some gf"
  shows "log_ok (snd (append_loop pg deviceID geofenceID name trs d))"
  using assms(1,2)
proof (induction trs arbitrary: d)
  case (Cons t trs)
  let ?sql = "append_event_sql pg deviceID geofenceID (tr_enter t) (tr_ts t)"
  obtain r d1 where r: "run ?sql d = (r, d1)" by fastforce
  have fresh: "\<not> (\<exists>q \<in> set (crossings dev gf d). tr_ts q = pg_time (tr_ts t))" and tm: "pg_time (tr_ts t) = tr_ts t"
    using Cons.prems(2) by (auto simp: continues_def sorted_wrt_append micro_def)
  have stored: "log_ok e \<and> continues (crossings dev gf e) trs" if "?sql (d\<lparr>faults := fs\<rparr>) = (Inr n, e)" for fs n e
    using append_event_crossings [OF that assms(3,4)] fresh tm log_ok_append [OF Cons.prems(1,2), of e] by simp
  show ?case
  proof (cases r)
    case (Inl x)
    from r [unfolded this] have "log_ok d1"
    proof (cases rule: append_event.run_errorE)
      case (untouched fs)
      then show ?thesis using Cons.prems(1) by (simp add: log_ok_def)
    next
      case (unacked fs n)
      then show ?thesis using stored by blast
    qed
    then show ?thesis using r Inl by simp
  next
    case (Inr n)
    then have "log_ok d1 \<and> continues (crossings dev gf d1) trs"
      using r stored by (auto elim: append_event.run_okE)
    then have "log_ok (snd (append_loop pg deviceID geofenceID name trs d1))" using Cons.IH by blast
    then show ?thesis using r Inr by (auto split: prod.splits)
  qed
qed simp

text \<open>The readings the evaluator works on: after the floor, strictly increasing, whole microseconds.\<close>

interpretation oldest_first: strict_weak_order "\<lambda>a b. rd_ts a < rd_ts b"
  by unfold_locales auto

lemma sorted_distinct_strict:
  assumes "sorted_wrt (\<lambda>a b. \<not> rd_ts b < rd_ts a) rs" "distinct (map rd_ts rs)"
  shows "sorted_wrt (\<lambda>a b. rd_ts a < rd_ts b) rs"
  using assms by (induction rs) (auto simp: image_iff order.order_iff_strict not_less)

definition place_rows :: "pg \<Rightarrow> uuid \<Rightarrow> uuid \<Rightarrow> instant \<Rightarrow> db \<Rightarrow> reading list" where
  "place_rows pg dev gf flr d =
     concat (map (\<lambda>f. map (\<lambda>g. \<lparr>rd_ts = fx_ts f, rd_inside = st_covers pg (gf_area g) (fx_lon f, fx_lat f)\<rparr>)
                    (filter (\<lambda>g. gf_id g = gf) (geofences d)))
                  (filter (\<lambda>f. pg_time flr < fx_ts f) (device_fixes dev d)))"

definition window :: "nat \<Rightarrow> instant \<Rightarrow> reading list \<Rightarrow> reading list" where
  "window n around rows = stable_sort (\<lambda>a b. rd_ts a < rd_ts b)
     (take n (stable_sort (\<lambda>a b. rd_ts b < rd_ts a) (filter (\<lambda>r. rd_ts r \<le> pg_time around) rows))
      @ take n (stable_sort (\<lambda>a b. rd_ts a < rd_ts b) (filter (\<lambda>r. pg_time around < rd_ts r) rows)))"

lemma neighbourhood_window:
  assumes "uuid_in pg deviceID = Some dev" "uuid_in pg geofenceID = Some gf"
  shows "neighbourhood_sql pg deviceID geofenceID flr around n d = (Inr (window n around (place_rows pg dev gf flr d)), d)"
  using assms by (simp add: neighbourhood_sql_def with_uuid_def window_def place_rows_def Let_def)

lemma set_window: "set (window n around rows) \<subseteq> set rows"
  unfolding window_def by (auto dest!: in_set_takeD)

lemma distinct_window:
  assumes "distinct (map rd_ts rows)"
  shows "distinct (map rd_ts (window n around rows))"
proof -
  have d: "distinct (map rd_ts (take n (stable_sort lt (filter P rows))))" for lt P
    using assms by (simp add: take_map [symmetric] distinct_take distinct_map_filter)
  define A where "A = take n (stable_sort (\<lambda>a b. rd_ts b < rd_ts a) (filter (\<lambda>r. rd_ts r \<le> pg_time around) rows))"
  define B where "B = take n (stable_sort (\<lambda>a b. rd_ts a < rd_ts b) (filter (\<lambda>r. pg_time around < rd_ts r) rows))"
  have "\<forall>x \<in> set A. rd_ts x \<le> pg_time around" "\<forall>x \<in> set B. pg_time around < rd_ts x"
    unfolding A_def B_def by (auto dest!: in_set_takeD)
  then have "rd_ts ` set A \<inter> rd_ts ` set B = {}" by force
  moreover have "distinct (map rd_ts A)" "distinct (map rd_ts B)" unfolding A_def B_def by (rule d)+
  ultimately have "distinct (map rd_ts (A @ B))" by simp
  then show ?thesis unfolding window_def A_def [symmetric] B_def [symmetric] by simp
qed

lemma window_increasing:
  "distinct (map rd_ts rows) \<Longrightarrow> sorted_wrt (\<lambda>a b. rd_ts a < rd_ts b) (window n around rows)"
  using sorted_distinct_strict [OF _ distinct_window] oldest_first.stable_sort_sorted unfolding window_def by blast

definition geo_ok :: "db \<Rightarrow> bool" where
  "geo_ok d \<longleftrightarrow> parts_ok d \<and> fixes_micro d \<and> distinct (map gf_id (geofences d)) \<and> (\<forall>e \<in> set (events d). micro (ev_fix_ts e))"

text \<open>What the evaluator may change: the event log.\<close>

definition logs_only :: "db \<Rightarrow> db \<Rightarrow> bool" where
  "logs_only d d' \<longleftrightarrow> d'\<lparr>events := [], drawn := 0, faults := []\<rparr> = d\<lparr>events := [], drawn := 0, faults := []\<rparr>
     \<and> (geo_ok d \<longrightarrow> geo_ok d')"

lemma geo_ok_faults [simp]: "geo_ok (d\<lparr>faults := fs\<rparr>) = geo_ok d"
  by (simp add: geo_ok_def fixes_micro_def)

lemma log_ok_faults [simp]: "log_ok (d\<lparr>faults := fs\<rparr>) = log_ok d"
  by (simp add: log_ok_def)

lemma logs_only_refl: "logs_only d (d\<lparr>faults := fs\<rparr>)" by (simp add: logs_only_def)

lemma logs_only_trans: "logs_only d d1 \<Longrightarrow> logs_only d1 d2 \<Longrightarrow> logs_only d d2" by (simp add: logs_only_def)

lemma append_event_logs: "logs_only d (snd (run (append_event_sql pg dev gf enter ts) d))"
proof (rule append_event.run_rel)
  show "logs_only d (d\<lparr>faults := fs\<rparr>)" for fs by (rule logs_only_refl)
  fix fs n d' assume a: "append_event_sql pg dev gf enter ts (d\<lparr>faults := fs\<rparr>) = (Inr n, d')"
  then have "d' = d\<lparr>faults := fs\<rparr> \<or> (\<exists>e. d' = d\<lparr>faults := fs, drawn := Suc (drawn d), events := events d @ [e]\<rparr> \<and> micro (ev_fix_ts e))"
    by (auto simp: append_event_sql_def with_uuid_def gen_random_uuid_def split: option.splits if_splits)
  then show "logs_only d d'"
  proof (elim disjE exE conjE)
    fix e assume d': "d' = d\<lparr>faults := fs, drawn := Suc (drawn d), events := events d @ [e]\<rparr>" and m: "micro (ev_fix_ts e)"
    have "parts_ok d' = parts_ok d" "all_fixes d' = all_fixes d"
      using parts_ok_cong [of d' d] by (simp_all add: d' all_fixes_def)
    then show ?thesis using m by (auto simp: logs_only_def d' geo_ok_def fixes_micro_def)
  qed (simp add: logs_only_refl)
qed

lemma append_loop_logs: "logs_only d (snd (append_loop pg dev gf name trs d))"
proof (induction trs arbitrary: d)
  case Nil
  then show ?case using logs_only_refl [of d "faults d"] by simp
next
  case (Cons t trs)
  obtain r d1 where r: "run (append_event_sql pg dev gf (tr_enter t) (tr_ts t)) d = (r, d1)" by fastforce
  then have "logs_only d d1" using append_event_logs [of d pg dev gf "tr_enter t" "tr_ts t"] by simp
  then show ?case using r Cons [of d1] logs_only_trans by (cases r) (auto split: prod.splits)
qed

lemma distinct_key_short: "distinct (map k xs) \<Longrightarrow> length (filter (\<lambda>x. k x = i) xs) \<le> 1"
proof (induction xs)
  case (Cons x xs)
  have "filter (\<lambda>y. k y = i) xs = []" if "k x = i" using that Cons.prems by (simp add: filter_empty_conv) (metis imageI)
  then show ?case using Cons by auto
qed simp

lemma distinct_concat_single:
  assumes "distinct (map k xs)" "\<And>x. length (g x) \<le> 1" "\<And>x y. y \<in> set (g x) \<Longrightarrow> h y = k x"
  shows "distinct (map h (concat (map g xs)))"
  using assms(1)
proof (induction xs)
  case (Cons x xs)
  have "distinct (map h (g x))" using assms(2) [of x] by (cases "g x") auto
  moreover have "h y \<noteq> h z" if "y \<in> set (g x)" "z \<in> set (concat (map g xs))" for y z
    using that Cons.prems assms(3) by (auto simp: image_iff)
  ultimately have "h ` set (g x) \<inter> h ` set (concat (map g xs)) = {}" by blast
  then show ?case using Cons \<open>distinct (map h (g x))\<close> by simp
qed simp

lemma place_rows_distinct:
  assumes "geo_ok d"
  shows "distinct (map rd_ts (place_rows pg dev gf flr d))"
proof -
  define fs where "fs = filter (\<lambda>f. pg_time flr < fx_ts f) (device_fixes dev d)"
  have "inj_on fx_ts (set (device_fixes dev d))" "distinct (device_fixes dev d)"
    using assms parts_okD(4) [of d] unfolding geo_ok_def
    by (auto simp: device_fixes_def fix_key_def distinct_map inj_on_def)
  then have ts: "distinct (map fx_ts fs)" by (auto simp: fs_def distinct_map inj_on_def)
  have "length (filter (\<lambda>g. gf_id g = gf) (geofences d)) \<le> 1"
    using assms distinct_key_short [of gf_id "geofences d" gf] by (simp add: geo_ok_def)
  then show ?thesis
    unfolding place_rows_def fs_def [symmetric] by (intro distinct_concat_single [OF ts]) auto
qed

lemma place_rows_after:
  assumes "r \<in> set (place_rows pg dev gf flr d)"
  shows "pg_time flr < rd_ts r \<and> (\<exists>f \<in> set (all_fixes d). fx_ts f = rd_ts r)"
  using assms by (auto simp: place_rows_def device_fixes_def)

lemma sorted_last_max:
  "sorted_wrt (\<lambda>a b. tr_ts a < tr_ts b) xs \<Longrightarrow> t \<in> set xs \<Longrightarrow> tr_ts t \<le> tr_ts (last xs)"
proof (induction xs)
  case (Cons x xs)
  then show ?case by (cases "xs = []") (auto intro: order.strict_implies_order)
qed simp

lemma evaluateOne_continues:
  assumes "log_ok d" "geo_ok d" "uuid_in pg deviceID = Some dev" "uuid_in pg geofenceID = Some gf"
    and "fst (last_event_sql pg deviceID geofenceID d) = Inr evs"
    and "flr = (case evs of [] \<Rightarrow> zero_time | e # _ \<Rightarrow> ev_fix_ts e)"
    and "seed = (case evs of [] \<Rightarrow> False | e # _ \<Rightarrow> ev_enter e)"
  shows "continues (crossings dev gf d) (confirmTransitions (window n around (place_rows pg dev gf flr d)) seed ob db)"
proof -
  define R where "R = window n around (place_rows pg dev gf flr d)"
  define trs where "trs = confirm_loop R seed ob db"
  have last: "case evs of [] \<Rightarrow> crossings dev gf d = []
    | e # _ \<Rightarrow> crossings dev gf d \<noteq> [] \<and> last (crossings dev gf d) = \<lparr>tr_ts = ev_fix_ts e, tr_enter = ev_enter e\<rparr>"
    using last_event_clean [OF assms(1,3-5)] .
  have seed: "seed = final_state False (crossings dev gf d)"
    using last assms(7) by (cases evs) (auto simp: final_state_last)
  have sorted: "sorted_wrt (\<lambda>a b. tr_ts a < tr_ts b) (crossings dev gf d)" using assms(1) by (simp add: log_ok_def)
  have flr_ge: "tr_ts t \<le> flr" if "t \<in> set (crossings dev gf d)" for t
    using last assms(6) sorted_last_max [OF sorted that] that by (cases evs) simp_all
  have flr_micro: "pg_time flr = flr"
  proof (cases evs)
    case Nil
    then show ?thesis using assms(6) by (simp add: zero_time_def unix_to_internal_def second_def pg_time_def)
  next
    case (Cons e es)
    then have "e \<in> set (events d)"
      using assms(3-5) by (auto simp: last_event_sql_def with_uuid_def dest!: arg_cong [where f = set] in_set_takeD)
    then show ?thesis using assms(2,6) Cons by (simp add: geo_ok_def micro_def)
  qed
  have inc: "sorted_wrt (\<lambda>a b. rd_ts a < rd_ts b) R"
    unfolding R_def by (rule window_increasing [OF place_rows_distinct [OF assms(2)]])
  have R: "flr < rd_ts r \<and> micro (rd_ts r)" if "r \<in> set R" for r
  proof -
    have "r \<in> set (place_rows pg dev gf flr d)" using that set_window unfolding R_def by blast
    then show ?thesis using place_rows_after assms(2) flr_micro by (fastforce simp: geo_ok_def fixes_micro_def)
  qed
  have T: "flr < tr_ts t \<and> micro (tr_ts t)" if "t \<in> set trs" for t
  proof -
    have "tr_ts t \<in> rd_ts ` set R" using confirm_loop_ts [of R seed ob db] that by (auto simp: trs_def)
    then show ?thesis using R by auto
  qed
  have "sorted_wrt (\<lambda>a b. tr_ts a < tr_ts b) (crossings dev gf d @ trs)"
    using assms(1) confirm_loop_increasing [OF inc, of seed ob db] flr_ge T
    by (auto simp: sorted_wrt_append log_ok_def trs_def [symmetric]) (meson order.strict_trans1)
  moreover have "alternating (final_state False (crossings dev gf d)) trs"
    unfolding seed [symmetric] trs_def by (rule confirm_loop_alternating)
  ultimately show ?thesis
    using T by (simp add: continues_def confirmTransitions_def R_def [symmetric] trs_def [symmetric])
qed

lemma evaluateOne_log:
  assumes "log_ok d" "geo_ok d" "d' = snd (evaluateOneGeofence pg deviceID geofenceID name around db d)"
  shows "log_ok d' \<and> logs_only d d'"
proof -
  obtain r1 d1 where r1: "run (last_event_sql pg deviceID geofenceID) d = (r1, d1)" by fastforce
  obtain fs1 where d1: "d1 = d\<lparr>faults := fs1\<rparr>" using last_event_query.run_reads [of pg deviceID geofenceID d] r1 by auto
  show ?thesis
  proof (cases r1)
    case (Inl e)
    then show ?thesis using assms(1,3) r1 d1 logs_only_refl by (simp add: evaluateOneGeofence_def)
  next
    case (Inr evs)
    obtain gs where gs: "d1 = d\<lparr>faults := gs\<rparr>" "fst (last_event_sql pg deviceID geofenceID (d\<lparr>faults := gs\<rparr>)) = Inr evs"
      using last_event_query.run_query_ok r1 Inr by blast
    then obtain dev gf where u: "uuid_in pg deviceID = Some dev" "uuid_in pg geofenceID = Some gf"
      by (auto simp: last_event_sql_def with_uuid_def split: option.splits)
    define flr where "flr = (case evs of [] \<Rightarrow> zero_time | e # _ \<Rightarrow> ev_fix_ts e)"
    define seed where "seed = (case evs of [] \<Rightarrow> False | e # _ \<Rightarrow> ev_enter e)"
    obtain r2 d2 where r2: "run (neighbourhood_sql pg deviceID geofenceID flr around geofenceEvalNeighbours) d1 = (r2, d2)" by fastforce
    obtain fs2 where d2: "d2 = d1\<lparr>faults := fs2\<rparr>"
      using neighbourhood_query.run_reads [of pg deviceID geofenceID flr around geofenceEvalNeighbours d1] r2 by auto
    have ok: "log_ok d2" "geo_ok d2" "logs_only d d2" using d1 d2 assms(1,2) logs_only_refl by simp_all
    show ?thesis
    proof (cases r2)
      case (Inl e)
      then show ?thesis
        using assms(3) r1 Inr r2 ok by (simp add: evaluateOneGeofence_def Let_def flr_def [symmetric])
    next
      case (Inr readings)
      then obtain hs where "fst (neighbourhood_sql pg deviceID geofenceID flr around geofenceEvalNeighbours (d1\<lparr>faults := hs\<rparr>)) = Inr readings"
        using neighbourhood_query.run_query_ok r2 by blast
      then have rd: "readings = window geofenceEvalNeighbours around (place_rows pg dev gf flr d2)"
        using neighbourhood_window [OF u] d2 by (simp add: place_rows_def device_fixes_def)
      have "fst (last_event_sql pg deviceID geofenceID d2) = Inr evs"
        using gs(2) u d2 d1 by (simp add: last_event_sql_def with_uuid_def)
      then have "continues (crossings dev gf d2) (confirmTransitions readings seed (evs \<noteq> []) db)"
        unfolding rd by (intro evaluateOne_continues [OF ok(1,2) u _ flr_def seed_def])
      then have "log_ok (snd (append_loop pg deviceID geofenceID name (confirmTransitions readings seed (evs \<noteq> []) db) d2))"
        using append_loop_log [OF ok(1) _ u] by blast
      moreover have "d' = snd (append_loop pg deviceID geofenceID name (confirmTransitions readings seed (evs \<noteq> []) db) d2)"
        using assms(3) r1 \<open>r1 = Inr evs\<close> r2 Inr
        by (simp add: evaluateOneGeofence_def Let_def flr_def [symmetric] seed_def [symmetric])
      ultimately show ?thesis using logs_only_trans [OF ok(3) append_loop_logs] by simp
    qed
  qed
qed

lemma evaluate_places_log:
  "log_ok d \<Longrightarrow> geo_ok d \<Longrightarrow> log_ok (snd (evaluate_places pg deviceID around db ps d))
     \<and> logs_only d (snd (evaluate_places pg deviceID around db ps d))"
proof (induction ps arbitrary: d)
  case Nil
  then show ?case using logs_only_refl [of d "faults d"] by simp
next
  case (Cons p ps)
  obtain i n where p: "p = (i, n)" by (cases p)
  obtain evs err d1 where e: "evaluateOneGeofence pg deviceID i n around db d = ((evs, err), d1)" by (metis surj_pair)
  have o: "log_ok d1" "logs_only d d1" using evaluateOne_log [OF Cons.prems, of d1 pg deviceID i n around db] e by simp_all
  then have "geo_ok d1" using Cons.prems(2) by (simp add: logs_only_def)
  then show ?case
    using Cons.IH [OF o(1)] o logs_only_trans [OF o(2)] e p by (cases err) (auto split: prod.splits)
qed

text \<open>
  C3: The event log stays well-formed under every schedule of failures: after any evaluation, for every
  device and Place the recorded crossings are in strictly increasing event time and alternate enter,
  exit, enter and so on. Nothing but the event log changes.
\<close>

theorem log_alternates:
  assumes "log_ok d" "geo_ok d" "EvaluateDeviceGeofences pg deviceID around debounce d = (r, d')"
  shows "log_ok d' \<and> geo_ok d'
    \<and> d'\<lparr>events := [], drawn := 0, faults := []\<rparr> = d\<lparr>events := [], drawn := 0, faults := []\<rparr>"
proof -
  obtain q d1 where q: "run (places_sql pg deviceID) d = (q, d1)" by fastforce
  obtain fs where "d1 = d\<lparr>faults := fs\<rparr>" using places_query.run_reads [of pg deviceID d] q by auto
  then have o: "log_ok d1" "geo_ok d1" "logs_only d d1" using assms(1,2) logs_only_refl by simp_all
  have "log_ok d' \<and> logs_only d d'"
  proof (cases q)
    case (Inl e)
    then show ?thesis using assms(3) q o by (simp add: EvaluateDeviceGeofences_def)
  next
    case (Inr ps)
    then show ?thesis
      using assms(3) q o evaluate_places_log [OF o(1,2), of pg deviceID around debounce ps] logs_only_trans [OF o(3)]
      by (simp add: EvaluateDeviceGeofences_def)
  qed
  then show ?thesis using assms(2) by (simp add: logs_only_def)
qed

section \<open>Re-evaluation\<close>

lemma stable_sort_filter:
  assumes "distinct (map rd_ts xs)"
  shows "stable_sort (\<lambda>a b. rd_ts a < rd_ts b) (filter P xs) = filter P (stable_sort (\<lambda>a b. rd_ts a < rd_ts b) xs)"
proof (rule oldest_first.sorted_unique)
  show "mset (stable_sort (\<lambda>a b. rd_ts a < rd_ts b) (filter P xs)) = mset (filter P (stable_sort (\<lambda>a b. rd_ts a < rd_ts b) xs))"
    by simp
  show "sorted_wrt (\<lambda>a b. \<not> rd_ts b < rd_ts a) (filter P (stable_sort (\<lambda>a b. rd_ts a < rd_ts b) xs))"
    by (rule sorted_wrt_filter [OF oldest_first.stable_sort_sorted])
  show "a = b" if "a \<in> set (stable_sort (\<lambda>a b. rd_ts a < rd_ts b) (filter P xs))"
    "b \<in> set (stable_sort (\<lambda>a b. rd_ts a < rd_ts b) (filter P xs))" "\<not> rd_ts a < rd_ts b" "\<not> rd_ts b < rd_ts a" for a b
    using that assms by (auto simp: distinct_map inj_on_def)
qed (rule oldest_first.stable_sort_sorted)

lemma window_all:
  assumes "distinct (map rd_ts rows)" "length rows \<le> n"
  shows "window n around rows = stable_sort (\<lambda>a b. rd_ts a < rd_ts b) rows"
proof -
  have "length (stable_sort lt (filter P rows)) \<le> n" for lt P
    using assms(2) by (simp add: le_trans [OF length_filter_le])
  then have w: "window n around rows = stable_sort (\<lambda>a b. rd_ts a < rd_ts b)
      (stable_sort (\<lambda>a b. rd_ts b < rd_ts a) (filter (\<lambda>r. rd_ts r \<le> pg_time around) rows)
       @ stable_sort (\<lambda>a b. rd_ts a < rd_ts b) (filter (\<lambda>r. pg_time around < rd_ts r) rows))"
    by (simp add: window_def)
  have "mset (filter (\<lambda>r. rd_ts r \<le> pg_time around) rows) + mset (filter (\<lambda>r. pg_time around < rd_ts r) rows) = mset rows"
    using multiset_partition [of "mset rows" "\<lambda>r. rd_ts r \<le> pg_time around"] by (simp add: not_le)
  then show ?thesis
    unfolding w using assms(1) by (intro oldest_first.stable_sort_perm_invariant) (auto simp: distinct_map inj_on_def)
qed

lemma concat_floor:
  fixes c c' :: int
  assumes "c \<le> c'" "\<And>f r. r \<in> set (g f) \<Longrightarrow> rd_ts r = fx_ts f"
  shows "concat (map g (filter (\<lambda>f. c' < fx_ts f) fs)) = filter (\<lambda>r. c' < rd_ts r) (concat (map g (filter (\<lambda>f. c < fx_ts f) fs)))"
proof (induction fs)
  case (Cons f fs)
  have "filter (\<lambda>r. c' < rd_ts r) (g f) = (if c' < fx_ts f then g f else [])"
    using assms(2) by (auto simp: filter_empty_conv intro: filter_True)
  then show ?case using Cons assms(1) by auto
qed simp

lemma place_rows_floor:
  assumes "pg_time flr \<le> pg_time flr'"
  shows "place_rows pg dev gf flr' d = filter (\<lambda>r. pg_time flr' < rd_ts r) (place_rows pg dev gf flr d)"
  unfolding place_rows_def using assms by (rule concat_floor) auto

text \<open>What an evaluation of one Place would record, as a function of the database.\<close>

definition pending :: "pg \<Rightarrow> uuid \<Rightarrow> uuid \<Rightarrow> instant \<Rightarrow> duration \<Rightarrow> db \<Rightarrow> transition list" where
  "pending pg dev gf around db d =
     (let lg = crossings dev gf d;
          flr = (if lg = [] then zero_time else tr_ts (last lg));
          seed = (if lg = [] then False else tr_enter (last lg))
      in confirmTransitions (window geofenceEvalNeighbours around (place_rows pg dev gf flr d)) seed (lg \<noteq> []) db)"

lemma evaluateOne_clean:
  assumes "log_ok d" "faults d = []" "uuid_in pg deviceID = Some dev" "uuid_in pg geofenceID = Some gf"
  shows "evaluateOneGeofence pg deviceID geofenceID name around db d
       = append_loop pg deviceID geofenceID name (pending pg dev gf around db d) d"
proof -
  obtain evs where e: "last_event_sql pg deviceID geofenceID d = (Inr evs, d)"
    using assms(3,4) by (simp add: last_event_sql_def with_uuid_def)
  have "case evs of [] \<Rightarrow> crossings dev gf d = []
    | e # _ \<Rightarrow> crossings dev gf d \<noteq> [] \<and> last (crossings dev gf d) = \<lparr>tr_ts = ev_fix_ts e, tr_enter = ev_enter e\<rparr>"
    using last_event_clean [OF assms(1,3,4)] e by simp
  then show ?thesis
    using assms(2) e neighbourhood_window [OF assms(3,4)]
    by (cases evs) (simp_all add: evaluateOneGeofence_def run_clean pending_def Let_def)
qed

lemma place_rows_length:
  assumes "geo_ok d"
  shows "length (place_rows pg dev gf flr d) \<le> length (device_fixes dev d)"
proof -
  have one: "length (filter (\<lambda>g. gf_id g = gf) (geofences d)) \<le> 1"
    using assms distinct_key_short [of gf_id "geofences d" gf] by (simp add: geo_ok_def)
  have "length (concat (map (\<lambda>f. map (h f) (filter (\<lambda>g. gf_id g = gf) (geofences d))) fs)) \<le> length fs"
    for h :: "fix_row \<Rightarrow> geofence_row \<Rightarrow> reading" and fs
    using one by (induction fs) auto
  then show ?thesis unfolding place_rows_def by (rule le_trans) simp
qed

lemma append_loop_clean:
  assumes "append_loop pg deviceID geofenceID name trs d = ((evs, None), d')" "faults d = []" "log_ok d"
    and "continues (crossings dev gf d) trs" "uuid_in pg deviceID = Some dev" "uuid_in pg geofenceID = Some gf"
  shows "faults d' = [] \<and> crossings dev gf d' = crossings dev gf d @ trs
    \<and> (\<forall>dv g. (dv, g) \<noteq> (dev, gf) \<longrightarrow> crossings dv g d' = crossings dv g d)
    \<and> all_fixes d' = all_fixes d \<and> devices d' = devices d \<and> geofences d' = geofences d \<and> length evs = length trs"
  using assms(1-4)
proof (induction trs arbitrary: d evs)
  case (Cons t trs)
  let ?sql = "append_event_sql pg deviceID geofenceID (tr_enter t) (tr_ts t)"
  have fresh: "\<not> (\<exists>q \<in> set (crossings dev gf d). tr_ts q = pg_time (tr_ts t))" and tm: "pg_time (tr_ts t) = tr_ts t"
    using Cons.prems(4) by (auto simp: continues_def sorted_wrt_append micro_def)
  obtain n d1 evs1 where r: "?sql d = (Inr n, d1)" "append_loop pg deviceID geofenceID name trs d1 = ((evs1, None), d')"
    and e: "length evs = (if n = 1 then Suc (length evs1) else length evs1)"
    using Cons.prems(1,2) by (auto simp: run_clean split: prod.splits sum.splits if_splits)
  have a: "n = 1" "crossings dev gf d1 = crossings dev gf d @ [t]"
    "\<forall>dv g. (dv, g) \<noteq> (dev, gf) \<longrightarrow> crossings dv g d1 = crossings dv g d"
    "all_fixes d1 = all_fixes d" "devices d1 = devices d" "geofences d1 = geofences d"
    using append_event_crossings [OF r(1) assms(5,6)] fresh tm by auto
  have f: "faults d1 = []" using append_event.keeps_faults [of pg deviceID geofenceID "tr_enter t" "tr_ts t" d] r(1) Cons.prems(2) by simp
  have "log_ok d1 \<and> continues (crossings dev gf d1) trs"
    using log_ok_append [OF Cons.prems(3,4) a(2)] a(3) by blast
  then show ?case using Cons.IH [OF r(2) f] a e by auto
qed simp

lemma pending_after:
  assumes "geo_ok d" "log_ok d" "length (device_fixes dev d) \<le> geofenceEvalNeighbours"
    and "continues (crossings dev gf d) (pending pg dev gf around db d)"
    and "crossings dev gf d' = crossings dev gf d @ pending pg dev gf around db d"
    and "all_fixes d' = all_fixes d" "geofences d' = geofences d"
  shows "pending pg dev gf around db d' = []"
proof -
  define lg flr seed where "lg = crossings dev gf d" and "flr = (if lg = [] then zero_time else tr_ts (last lg))"
    and "seed = (if lg = [] then False else tr_enter (last lg))"
  define rows where "rows = place_rows pg dev gf flr d"
  define trs where "trs = pending pg dev gf around db d"
  have rows': "place_rows pg dev gf f d' = place_rows pg dev gf f d" for f
    using assms(6,7) by (simp add: place_rows_def device_fixes_def)
  have dist: "distinct (map rd_ts (place_rows pg dev gf f d))" for f by (rule place_rows_distinct [OF assms(1)])
  have short: "length (place_rows pg dev gf f d) \<le> geofenceEvalNeighbours" for f
    using place_rows_length [OF assms(1), of pg dev gf f] assms(3) by simp
  note win = window_all [OF dist short]
  have trs: "trs = confirm_loop (stable_sort (\<lambda>a b. rd_ts a < rd_ts b) rows) seed (lg \<noteq> []) db"
    by (simp add: trs_def pending_def Let_def lg_def [symmetric] flr_def [symmetric] seed_def [symmetric] rows_def
        confirmTransitions_def win)
  show ?thesis
  proof (cases "trs = []")
    case True
    then have "crossings dev gf d' = crossings dev gf d" using assms(5) by (simp add: trs_def)
    then have "pending pg dev gf around db d' = trs" by (simp add: pending_def trs_def rows')
    then show ?thesis using True by simp
  next
    case False
    have lst: "crossings dev gf d' \<noteq> []" "last (crossings dev gf d') = last trs"
      using assms(5) False by (simp_all add: trs_def)
    have "last trs \<in> set trs" using False by simp
    then have m: "pg_time (tr_ts (last trs)) = tr_ts (last trs)" and gt: "\<forall>t \<in> set lg. tr_ts t < tr_ts (last trs)"
      using assms(4) by (auto simp: continues_def sorted_wrt_append micro_def trs_def lg_def)
    have in_rows: "tr_ts (last trs) \<in> rd_ts ` set rows"
      using confirm_loop_ts [of "stable_sort (\<lambda>a b. rd_ts a < rd_ts b) rows" seed "lg \<noteq> []" db] \<open>last trs \<in> set trs\<close>
      by (auto simp: trs)
    then have "pg_time flr < tr_ts (last trs)" using place_rows_after unfolding rows_def by fastforce
    then have "place_rows pg dev gf (tr_ts (last trs)) d = filter (\<lambda>r. tr_ts (last trs) < rd_ts r) rows"
      using place_rows_floor [of flr "tr_ts (last trs)"] m unfolding rows_def by simp
    then have "pending pg dev gf around db d'
        = confirm_loop (filter (\<lambda>r. tr_ts (last trs) < rd_ts r) (stable_sort (\<lambda>a b. rd_ts a < rd_ts b) rows)) (tr_enter (last trs)) True db"
      using lst dist [of flr]
      by (simp add: pending_def Let_def rows' win confirmTransitions_def stable_sort_filter rows_def [symmetric])
    moreover have "sorted_wrt (\<lambda>a b. rd_ts a < rd_ts b) (stable_sort (\<lambda>a b. rd_ts a < rd_ts b) rows)"
      using dist [of flr] oldest_first.stable_sort_sorted by (intro sorted_distinct_strict) (simp_all add: rows_def)
    ultimately show ?thesis using confirm_loop_after_last False unfolding trs by metis
  qed
qed

lemma pending_cong:
  "crossings dev gf d = crossings dev gf d' \<Longrightarrow> all_fixes d = all_fixes d' \<Longrightarrow> geofences d = geofences d' \<Longrightarrow>
     pending pg dev gf around db d = pending pg dev gf around db d'"
  by (simp add: pending_def place_rows_def device_fixes_def)

lemma pending_continues:
  assumes "log_ok d" "geo_ok d" "uuid_in pg deviceID = Some dev" "uuid_in pg geofenceID = Some gf"
  shows "continues (crossings dev gf d) (pending pg dev gf around db d)"
proof -
  obtain evs where e: "fst (last_event_sql pg deviceID geofenceID d) = Inr evs"
    using assms(3,4) by (simp add: last_event_sql_def with_uuid_def)
  have l: "case evs of [] \<Rightarrow> crossings dev gf d = []
    | e # _ \<Rightarrow> crossings dev gf d \<noteq> [] \<and> last (crossings dev gf d) = \<lparr>tr_ts = ev_fix_ts e, tr_enter = ev_enter e\<rparr>"
    using last_event_clean [OF assms(1,3,4) e] .
  show ?thesis
    using evaluateOne_continues [OF assms e refl refl, of geofenceEvalNeighbours around "crossings dev gf d \<noteq> []" db] l
    by (cases evs) (simp_all add: pending_def Let_def)
qed

lemma evaluate_places_clean:
  assumes "evaluate_places pg deviceID around db ps d = ((evs, None), d')" "faults d = []" "log_ok d" "geo_ok d"
    and "uuid_in pg deviceID = Some dev" "distinct (map fst ps)" "\<forall>i \<in> fst ` set ps. uuid_in pg i = Some i"
  shows "faults d' = [] \<and> log_ok d' \<and> geo_ok d' \<and> all_fixes d' = all_fixes d \<and> devices d' = devices d \<and> geofences d' = geofences d
    \<and> (\<forall>i. crossings dev i d' = crossings dev i d @ (if i \<in> fst ` set ps then pending pg dev i around db d else []))"
  using assms(1-4,6,7)
proof (induction ps arbitrary: d evs)
  case (Cons p ps)
  obtain i n where p: "p = (i, n)" by (cases p)
  have u: "uuid_in pg i = Some i" using Cons.prems(6) p by simp
  obtain ev1 d1 ev2 where e1: "evaluateOneGeofence pg deviceID i n around db d = ((ev1, None), d1)"
    and e2: "evaluate_places pg deviceID around db ps d1 = ((ev2, None), d')"
    using Cons.prems(1) p by (auto split: prod.splits option.splits)
  have ap: "append_loop pg deviceID i n (pending pg dev i around db d) d = ((ev1, None), d1)"
    using evaluateOne_clean [OF Cons.prems(3,2) assms(5) u] e1 by simp
  note c = append_loop_clean [OF ap Cons.prems(2,3) pending_continues [OF Cons.prems(3,4) assms(5) u] assms(5) u]
  have o: "log_ok d1" "geo_ok d1"
    using evaluateOne_log [OF Cons.prems(3,4), of d1 pg deviceID i n around db] e1 Cons.prems(4) by (simp_all add: logs_only_def)
  have ni: "i \<notin> fst ` set ps" "distinct (map fst ps)" "\<forall>i \<in> fst ` set ps. uuid_in pg i = Some i"
    using Cons.prems(5,6) p by auto
  have f1: "faults d1 = []" using c by blast
  note r = Cons.IH [OF e2 f1 o ni(2,3)]
  have same: "pending pg dev j around db d1 = pending pg dev j around db d" if "j \<noteq> i" for j
    using that c by (intro pending_cong) auto
  have "crossings dev j d' = crossings dev j d @ (if j \<in> fst ` set (p # ps) then pending pg dev j around db d else [])" for j
  proof (cases "j = i")
    case True
    then show ?thesis using r c ni(1) p by simp
  next
    case False
    then have "crossings dev j d1 = crossings dev j d" using c by blast
    then show ?thesis using r same [OF False] False p by auto
  qed
  then show ?case using r c by simp
qed simp

lemma evaluate_places_nothing:
  assumes "faults d = []" "log_ok d" "uuid_in pg deviceID = Some dev"
    and "\<forall>i \<in> fst ` set ps. uuid_in pg i = Some i \<and> pending pg dev i around db d = []"
  shows "evaluate_places pg deviceID around db ps d = (([], None), d)"
  using assms(4)
proof (induction ps)
  case (Cons p ps)
  then show ?case using evaluateOne_clean [OF assms(2,1,3)] by (cases p) auto
qed simp

text \<open>The Places of the device's family, each once.\<close>

definition places_ok :: "pg \<Rightarrow> db \<Rightarrow> bool" where
  "places_ok pg d \<longleftrightarrow> distinct (map dev_id (devices d)) \<and> (\<forall>g \<in> set (geofences d). uuid_in pg (gf_id g) = Some (gf_id g))"

lemma places_distinct:
  assumes "geo_ok d" "places_ok pg d" "places_sql pg deviceID d = (Inr ps, d')"
  shows "distinct (map fst ps) \<and> (\<forall>i \<in> fst ` set ps. uuid_in pg i = Some i) \<and> d' = d"
proof -
  obtain dev where dev: "uuid_in pg deviceID = Some dev" using assms(3) by (auto simp: places_sql_def with_uuid_def split: option.splits)
  define qs where "qs = concat (map (\<lambda>g. map (\<lambda>_. (gf_id g, gf_name g)) (filter (\<lambda>r. dev_id r = dev \<and> dev_family r = gf_family g) (devices d)))
           (geofences d))"
  have ps: "ps = stable_sort (\<lambda>a b. fst a < fst b) qs" "d' = d" using assms(3) dev by (auto simp: places_sql_def with_uuid_def qs_def)
  have "length (filter (\<lambda>r. dev_id r = dev \<and> dev_family r = f) (devices d)) \<le> 1" for f
    using filter_id_short [of "devices d" dev "\<lambda>r. dev_family r = f"] assms(2) by (simp add: places_ok_def)
  then have "distinct (map fst qs)"
    unfolding qs_def using assms(1) by (intro distinct_concat_single [of gf_id]) (auto simp: geo_ok_def)
  moreover have "set qs \<subseteq> (\<lambda>g. (gf_id g, gf_name g)) ` set (geofences d)" by (auto simp: qs_def)
  ultimately show ?thesis using ps assms(2) by (auto simp: places_ok_def)
qed

text \<open>
  C12: Evaluation is idempotent as long as the device's fixes fit the evaluator's window: after an
  evaluation that reported no error, evaluating again around the same fix records nothing, returns
  nothing to push, and changes nothing.
\<close>

theorem evaluation_idempotent:
  assumes "log_ok d" "geo_ok d" "places_ok pg d" "faults d = []" "uuid_in pg deviceID = Some dev"
    and "length (filter (\<lambda>f. fx_device f = dev) (all_fixes d)) \<le> 128"
    and "EvaluateDeviceGeofences pg deviceID around debounce d = ((evs, None), d')"
  shows "EvaluateDeviceGeofences pg deviceID around debounce d' = (([], None), d')"
proof -
  obtain ps where ps: "places_sql pg deviceID d = (Inr ps, d)" "evaluate_places pg deviceID around debounce ps d = ((evs, None), d')"
    using assms(4,5,7) by (auto simp: EvaluateDeviceGeofences_def run_clean places_sql_def with_uuid_def)
  note p = places_distinct [OF assms(2,3) ps(1)]
  have c: "faults d' = []" "log_ok d'" "geo_ok d'" "all_fixes d' = all_fixes d" "devices d' = devices d" "geofences d' = geofences d"
    "\<forall>i. crossings dev i d' = crossings dev i d @ (if i \<in> fst ` set ps then pending pg dev i around debounce d else [])"
    using evaluate_places_clean [OF ps(2) assms(4,1,2,5)] p by auto
  have "pending pg dev i around debounce d' = []" if i: "i \<in> fst ` set ps" for i
  proof (rule pending_after [OF assms(2,1)])
    show "length (device_fixes dev d) \<le> geofenceEvalNeighbours"
      using assms(6) by (simp add: device_fixes_def geofenceEvalNeighbours_def)
    show "continues (crossings dev i d) (pending pg dev i around debounce d)"
      using pending_continues [OF assms(1,2,5)] p i by blast
  qed (use c i in auto)
  then have "evaluate_places pg deviceID around debounce ps d' = (([], None), d')"
    by (intro evaluate_places_nothing [OF c(1,2) assms(5)]) (use p in blast)
  moreover have "places_sql pg deviceID d' = (Inr ps, d')"
    using ps(1) c(5,6) assms(5) by (simp add: places_sql_def with_uuid_def)
  ultimately show ?thesis using c(1) by (simp add: EvaluateDeviceGeofences_def run_clean)
qed

text \<open>
  A phone outside at 0 s, at the Place from 100 s to 300 s, and outside from 400 s to 600 s: two
  crossings, found by one evaluation.
\<close>

definition crossing_db :: "fault list \<Rightarrow> db" where
  "crossing_db fs = with_fixes
     (map (\<lambda>(t, x). (sample_row ''d1'' (t * second) (t * second))\<lparr>fx_lon := Fin x\<rparr>)
        [(0, - 1), (100, 1), (300, 1), (400, - 1), (600, - 1)]) (sample_db fs)
     \<lparr>geofences := [\<lparr>gf_id = ''g1'', gf_family = ''f1'', gf_name = ''School'', gf_area = ''A''\<rparr>]\<rparr>"

lemma crossing_ok:
  "log_ok (crossing_db fs)" "geo_ok (crossing_db fs)" "places_ok sample_pg (crossing_db fs)" "faults (crossing_db fs) = fs"
  "uuid_in sample_pg ''d1'' = Some ''d1''" "length (filter (\<lambda>f. fx_device f = ''d1'') (all_fixes (crossing_db fs))) \<le> 128"
  by (simp_all add: crossing_db_def with_fixes_def sample_db_def empty_db_def log_ok_def crossings_def geo_ok_def parts_ok_def
      fixes_micro_def micro_def pg_time_def all_fixes_def fix_key_def row_home_def sample_row_def second_def day_def
      places_ok_def sample_pg_def FixesTable_def)

lemma crossing_pending:
  "pending sample_pg ''d1'' ''g1'' (600 * second) GeofenceDebounce (crossing_db fs)
     = [\<lparr>tr_ts = 100 * second, tr_enter = True\<rparr>, \<lparr>tr_ts = 400 * second, tr_enter = False\<rparr>]"
proof -
  have "place_rows sample_pg ''d1'' ''g1'' zero_time (crossing_db fs)
    = map (\<lambda>(t, b). \<lparr>rd_ts = t * second, rd_inside = b\<rparr>) [(0, False), (100, True), (300, True), (400, False), (600, False)]"
    by (simp add: place_rows_def device_fixes_def crossing_db_def with_fixes_def sample_db_def empty_db_def all_fixes_def
        sample_row_def second_def sample_pg_def zero_time_def unix_to_internal_def pg_time_def)
  moreover have "crossings ''d1'' ''g1'' (crossing_db fs) = []"
    by (simp add: crossings_def crossing_db_def with_fixes_def sample_db_def empty_db_def)
  ultimately show ?thesis
    by (simp add: pending_def window_def second_def pg_time_def geofenceEvalNeighbours_def confirmTransitions_def
        confirm_loop.simps GeofenceDebounce_def)
qed

theorem evaluation_idempotent_witness:
  "\<exists>e1 e2 d'. EvaluateDeviceGeofences sample_pg ''d1'' (600 * second) GeofenceDebounce (crossing_db []) = (([e1, e2], None), d')
     \<and> EvaluateDeviceGeofences sample_pg ''d1'' (600 * second) GeofenceDebounce d' = (([], None), d')"
proof -
  have "places_sql sample_pg ''d1'' (crossing_db []) = (Inr [(''g1'', ''School'')], crossing_db [])"
    by (simp add: places_sql_def with_uuid_def crossing_db_def with_fixes_def sample_db_def sample_pg_def)
  then have "EvaluateDeviceGeofences sample_pg ''d1'' (600 * second) GeofenceDebounce (crossing_db [])
      = (case append_loop sample_pg ''d1'' ''g1'' ''School'' (pending sample_pg ''d1'' ''g1'' (600 * second) GeofenceDebounce (crossing_db [])) (crossing_db []) of
           ((evs, Some e), d1) \<Rightarrow> (([], Some e), d1) | ((evs, None), d1) \<Rightarrow> ((evs, None), d1))"
    using evaluateOne_clean [OF crossing_ok(1) _ crossing_ok(5), of "[]" "''g1''" "''g1''"]
    by (simp add: EvaluateDeviceGeofences_def run_clean crossing_ok sample_ok split: prod.splits option.splits)
  then obtain e1 e2 d' where "EvaluateDeviceGeofences sample_pg ''d1'' (600 * second) GeofenceDebounce (crossing_db []) = (([e1, e2], None), d')"
    unfolding crossing_pending
    by (simp add: append_event_sql_def with_uuid_def run_clean gen_random_uuid_def crossing_db_def with_fixes_def sample_db_def
        empty_db_def sample_pg_def show_nat.simps digit_char_def second_def pg_time_def)
  then show ?thesis
    using evaluation_idempotent [OF crossing_ok(1,2,3) _ crossing_ok(5,6)] by (simp add: crossing_ok)
qed

theorem log_alternates_witness:
  "case EvaluateDeviceGeofences sample_pg ''d1'' (600 * second) GeofenceDebounce (crossing_db [Clean, Clean, Clean, Clean, Lost (DriverError ''gone'')]) of
     (r, d') \<Rightarrow> log_ok d' \<and> geo_ok d'"
proof -
  obtain r d' where e: "EvaluateDeviceGeofences sample_pg ''d1'' (600 * second) GeofenceDebounce
    (crossing_db [Clean, Clean, Clean, Clean, Lost (DriverError ''gone'')]) = (r, d')" by fastforce
  then show ?thesis using log_alternates [OF crossing_ok(1,2) e] by simp
qed


end
