(* ===== verification/Places.thy ===== *)
theory Places
  imports Geofence
begin

text \<open>
  Managing Places: \<open>polygonWKT\<close> and \<open>CreateGeofence\<close> (\<open>internal/store/entities.go\<close>), the update, delete
  and list operations of \<open>internal/store/geofence.go\<close>, and \<open>GeofencesContaining\<close> of
  \<open>internal/store/store.go\<close>. The rendering of a coordinate (\<open>strconv.FormatFloat\<close>) is the parameter
  \<open>ff\<close>; whether a polygon text is valid is PostGIS's answer \<open>geog_valid\<close>.
\<close>

section \<open>Rings\<close>

record Point =
  Pt_Lon :: float64
  Pt_Lat :: float64

text \<open>Go's \<open>==\<close> on points: every coordinate here was range-checked, so none is NaN.\<close>

fun first_invalid :: "Point list \<Rightarrow> bool" where
  "first_invalid [] = False"
| "first_invalid (p # ps) = (if ValidateLonLat (Pt_Lon p) (Pt_Lat p) \<noteq> None then True else first_invalid ps)"

definition open_ring :: "Point list \<Rightarrow> Point list" where
  "open_ring ring = (if 1 < length ring \<and> hd ring = last ring then butlast ring else ring)"

definition closed_ring :: "Point list \<Rightarrow> Point list" where
  "closed_ring ring = (if hd ring \<noteq> last ring then ring @ [hd ring] else ring)"

fun join_strings :: "string \<Rightarrow> string list \<Rightarrow> string" where
  "join_strings sep [] = []"
| "join_strings sep [s] = s"
| "join_strings sep (s # t # ts) = s @ sep @ join_strings sep (t # ts)"

definition polygonWKT :: "(float64 \<Rightarrow> string) \<Rightarrow> Point list \<Rightarrow> store_error + string" where
  "polygonWKT ff ring =
     (if first_invalid ring then Inl ErrCoordinateOutOfRange
      else if card (set (open_ring ring)) < 3 then Inl ErrInvalidGeofence
      else Inr (''SRID=4326;POLYGON(('' @
             join_strings '', '' (map (\<lambda>p. ff (Pt_Lon p) @ '' '' @ ff (Pt_Lat p)) (closed_ring ring)) @ ''))''))"

section \<open>Statements\<close>

definition check_valid_sql :: "pg \<Rightarrow> string \<Rightarrow> bool stmt" where
  "check_valid_sql pg wkt d =
     (case geog_valid pg wkt of None \<Rightarrow> (Inl (PgError ''XX000'' ''parse error - invalid geometry''), d) | Some v \<Rightarrow> (Inr v, d))"

definition insert_geofence_sql :: "pg \<Rightarrow> string \<Rightarrow> string \<Rightarrow> string \<Rightarrow> uuid stmt" where
  "insert_geofence_sql pg familyID name wkt = with_uuid pg familyID (\<lambda>fam d.
     (case gen_random_uuid d of (i, d1) \<Rightarrow>
        if \<not> pg_text name then (Inl (PgError ''22021'' ''invalid byte sequence for encoding''), d)
        else if geog_valid pg wkt = None then (Inl (PgError ''XX000'' ''parse error - invalid geometry''), d)
        else if pg_blank name \<or> geog_valid pg wkt \<noteq> Some True then (Inl (PgError ''23514'' ''geofences check''), d)
        else if i \<in> gf_id ` set (geofences d) then (Inl (PgError ''23505'' ''geofences_pkey''), d)
        else if fam \<notin> fam_id ` set (families d) then (Inl (PgError ''23503'' ''geofences_family_id_fkey''), d)
        else (Inr i, d1\<lparr>geofences := geofences d @ [\<lparr>gf_id = i, gf_family = fam, gf_name = name, gf_area = wkt\<rparr>]\<rparr>)))"

definition update_geofence_sql :: "pg \<Rightarrow> string \<Rightarrow> string \<Rightarrow> string \<Rightarrow> string \<Rightarrow> nat stmt" where
  "update_geofence_sql pg familyID geofenceID name wkt = with_uuid pg familyID (\<lambda>fam. with_uuid pg geofenceID (\<lambda>i d.
     (let hit = (\<lambda>g. gf_id g = i \<and> gf_family g = fam);
          n = length (filter hit (geofences d))
      in if \<not> pg_text name then (Inl (PgError ''22021'' ''invalid byte sequence for encoding''), d)
         else if geog_valid pg wkt = None then (Inl (PgError ''XX000'' ''parse error - invalid geometry''), d)
         else if n = 0 then (Inr 0, d)
         else if pg_blank name \<or> geog_valid pg wkt \<noteq> Some True then (Inl (PgError ''23514'' ''geofences check''), d)
         else (Inr n, d\<lparr>geofences := map (\<lambda>g. if hit g then g\<lparr>gf_name := name, gf_area := wkt\<rparr> else g) (geofences d)\<rparr>))))"

text \<open>The delete cascades to the Place's events.\<close>

definition delete_geofence_sql :: "pg \<Rightarrow> string \<Rightarrow> string \<Rightarrow> nat stmt" where
  "delete_geofence_sql pg geofenceID familyID = with_uuid pg geofenceID (\<lambda>i. with_uuid pg familyID (\<lambda>fam d.
     (let hit = (\<lambda>g. gf_id g = i \<and> gf_family g = fam);
          gone = gf_id ` set (filter hit (geofences d))
      in (Inr (length (filter hit (geofences d))),
          d\<lparr>geofences := filter (\<lambda>g. \<not> hit g) (geofences d), events := filter (\<lambda>e. ev_geofence e \<notin> gone) (events d)\<rparr>))))"

definition list_geofences_sql :: "pg \<Rightarrow> string \<Rightarrow> geofence_row list stmt" where
  "list_geofences_sql pg familyID = with_uuid pg familyID (\<lambda>fam d.
     (Inr (stable_sort (\<lambda>a b. pg_collate pg (gf_name a) (gf_name b) \<or> gf_name a = gf_name b \<and> gf_id a < gf_id b)
        (filter (\<lambda>g. gf_family g = fam) (geofences d))), d))"

definition geofence_by_id_sql :: "pg \<Rightarrow> string \<Rightarrow> geofence_row list stmt" where
  "geofence_by_id_sql pg geofenceID = with_uuid pg geofenceID (\<lambda>i d. (Inr (filter (\<lambda>g. gf_id g = i) (geofences d)), d))"

definition geofencesContainingSQL :: "pg \<Rightarrow> string \<Rightarrow> float64 \<Rightarrow> float64 \<Rightarrow> geofence_row list stmt" where
  "geofencesContainingSQL pg familyID lon lat = with_uuid pg familyID (\<lambda>fam d.
     (Inr (stable_sort (\<lambda>a b. pg_collate pg (gf_name a) (gf_name b))
        (filter (\<lambda>g. gf_family g = fam \<and> st_covers pg (gf_area g) (geog_point pg lon lat)) (geofences d))), d))"

definition listGeofenceEventsSQL :: "pg \<Rightarrow> string \<Rightarrow> int \<Rightarrow> (event_row \<times> device_row \<times> geofence_row) list stmt" where
  "listGeofenceEventsSQL pg familyID limit = with_uuid pg familyID (\<lambda>fam d.
     (Inr (take (nat limit) (stable_sort (\<lambda>a b. ev_fix_ts (fst b) < ev_fix_ts (fst a)
              \<or> ev_fix_ts (fst a) = ev_fix_ts (fst b) \<and> ev_id (fst b) < ev_id (fst a))
        (concat (map (\<lambda>e. concat (map (\<lambda>r. map (\<lambda>g. (e, r, g)) (filter (\<lambda>g. gf_id g = ev_geofence e) (geofences d)))
            (filter (\<lambda>r. dev_id r = ev_device e \<and> dev_family r = fam) (devices d)))) (events d))))), d))"

section \<open>Operations\<close>

record GeofenceDetail =
  GD_ID :: string
  GD_FamilyID :: string
  GD_Name :: string
  GD_AreaGeoJSON :: string

definition to_detail :: "pg \<Rightarrow> geofence_row \<Rightarrow> GeofenceDetail" where
  "to_detail pg g = \<lparr>GD_ID = gf_id g, GD_FamilyID = gf_family g, GD_Name = gf_name g, GD_AreaGeoJSON = st_asgeojson pg (gf_area g)\<rparr>"

definition CreateGeofence :: "pg \<Rightarrow> (float64 \<Rightarrow> string) \<Rightarrow> string \<Rightarrow> string \<Rightarrow> Point list \<Rightarrow> db \<Rightarrow> (store_error + string) \<times> db" where
  "CreateGeofence pg ff familyID name ring d =
     (case polygonWKT ff ring of
        Inl e \<Rightarrow> (Inl e, d)
      | Inr wkt \<Rightarrow>
          (case run (check_valid_sql pg wkt) d of
             (Inl e, d1) \<Rightarrow> (Inl (StPg e), d1)
           | (Inr valid, d1) \<Rightarrow>
               if \<not> valid then (Inl ErrInvalidGeofence, d1)
               else case run (insert_geofence_sql pg familyID name wkt) d1 of
                      (Inl e, d2) \<Rightarrow> (Inl (StPg e), d2)
                    | (Inr i, d2) \<Rightarrow> (Inr i, d2)))"

definition UpdateGeofence ::
  "pg \<Rightarrow> (float64 \<Rightarrow> string) \<Rightarrow> string \<Rightarrow> string \<Rightarrow> string \<Rightarrow> Point list \<Rightarrow> db \<Rightarrow> (store_error + bool) \<times> db" where
  "UpdateGeofence pg ff familyID geofenceID name ring d =
     (case polygonWKT ff ring of
        Inl e \<Rightarrow> (Inl e, d)
      | Inr wkt \<Rightarrow>
          (case run (check_valid_sql pg wkt) d of
             (Inl e, d1) \<Rightarrow> (Inl (StPg e), d1)
           | (Inr valid, d1) \<Rightarrow>
               if \<not> valid then (Inl ErrInvalidGeofence, d1)
               else case run (update_geofence_sql pg familyID geofenceID name wkt) d1 of
                      (Inl e, d2) \<Rightarrow> (Inl (StPg e), d2)
                    | (Inr n, d2) \<Rightarrow> (Inr (n = 1), d2)))"

definition DeleteGeofence :: "pg \<Rightarrow> string \<Rightarrow> string \<Rightarrow> db \<Rightarrow> (store_error + bool) \<times> db" where
  "DeleteGeofence pg familyID geofenceID d =
     (case run (delete_geofence_sql pg geofenceID familyID) d of
        (Inl e, d1) \<Rightarrow> (Inl (StPg e), d1)
      | (Inr n, d1) \<Rightarrow> (Inr (n = 1), d1))"

definition ListGeofences :: "pg \<Rightarrow> string \<Rightarrow> db \<Rightarrow> (store_error + GeofenceDetail list) \<times> db" where
  "ListGeofences pg familyID d =
     (case run (list_geofences_sql pg familyID) d of
        (Inl e, d1) \<Rightarrow> (Inl (StPg e), d1)
      | (Inr rows, d1) \<Rightarrow> (Inr (map (to_detail pg) rows), d1))"

definition GeofenceByID :: "pg \<Rightarrow> string \<Rightarrow> db \<Rightarrow> (store_error + GeofenceDetail) \<times> db" where
  "GeofenceByID pg geofenceID d =
     (case run (geofence_by_id_sql pg geofenceID) d of
        (Inl e, d1) \<Rightarrow> (Inl (StPg e), d1)
      | (Inr [], d1) \<Rightarrow> (Inl ErrUnknownGeofence, d1)
      | (Inr (g # _), d1) \<Rightarrow> (Inr (to_detail pg g), d1))"

record Place =
  Pl_ID :: string
  Pl_Name :: string

definition GeofencesContaining :: "pg \<Rightarrow> string \<Rightarrow> float64 \<Rightarrow> float64 \<Rightarrow> db \<Rightarrow> (store_error + Place list) \<times> db" where
  "GeofencesContaining pg familyID lon lat d =
     (case ValidateLonLat lon lat of
        Some e \<Rightarrow> (Inl e, d)
      | None \<Rightarrow>
          (case run (geofencesContainingSQL pg familyID lon lat) d of
             (Inl e, d1) \<Rightarrow> (Inl (StPg e), d1)
           | (Inr rows, d1) \<Rightarrow> (Inr (map (\<lambda>g. \<lparr>Pl_ID = gf_id g, Pl_Name = gf_name g\<rparr>) rows), d1)))"

record GeofenceEventRow =
  ER_Event :: GeofenceEvent
  ER_DeviceName :: string

definition MaxGeofenceEventsLimit :: int where "MaxGeofenceEventsLimit = 1000"

definition to_event_row :: "event_row \<times> device_row \<times> geofence_row \<Rightarrow> GeofenceEventRow" where
  "to_event_row row = (case row of (e, r, g) \<Rightarrow>
     \<lparr>ER_Event = \<lparr>GE_DeviceID = ev_device e, GE_GeofenceID = ev_geofence e, GE_GeofenceName = gf_name g,
        GE_Transition = (if ev_enter e then ''enter'' else ''exit''), GE_FixTS = ev_fix_ts e\<rparr>,
      ER_DeviceName = dev_name r\<rparr>)"

definition ListGeofenceEvents :: "pg \<Rightarrow> string \<Rightarrow> int \<Rightarrow> db \<Rightarrow> (store_error + GeofenceEventRow list) \<times> db" where
  "ListGeofenceEvents pg familyID limit d =
     (let limit = (if limit < 1 then 1 else if MaxGeofenceEventsLimit < limit then MaxGeofenceEventsLimit else limit)
      in case run (listGeofenceEventsSQL pg familyID limit) d of
           (Inl e, d1) \<Rightarrow> (Inl (StPg e), d1)
         | (Inr rows, d1) \<Rightarrow> (Inr (map to_event_row rows), d1))"

interpretation check_valid: query "check_valid_sql pg wkt" for pg wkt
  by unfold_locales (simp add: check_valid_sql_def split: option.splits)

interpretation insert_geofence: statement "insert_geofence_sql pg fam name wkt" for pg fam name wkt
  unfolding insert_geofence_sql_def
  by (intro with_uuid_statement) (unfold_locales; auto simp: gen_random_uuid_def split: if_splits)

interpretation update_geofence: statement "update_geofence_sql pg fam i name wkt" for pg fam i name wkt
  unfolding update_geofence_sql_def
  by (intro with_uuid_statement) (unfold_locales; auto simp: Let_def split: if_splits)

interpretation delete_geofence: statement "delete_geofence_sql pg i fam" for pg i fam
  unfolding delete_geofence_sql_def by (intro with_uuid_statement) (unfold_locales; auto simp: Let_def)

interpretation list_geofences: query "list_geofences_sql pg fam" for pg fam
  unfolding list_geofences_sql_def by (rule with_uuid_query) (simp add: query_def)

interpretation geofence_by_id: query "geofence_by_id_sql pg i" for pg i
  unfolding geofence_by_id_sql_def by (rule with_uuid_query) (simp add: query_def)

interpretation geofences_containing: query "geofencesContainingSQL pg fam lon lat" for pg fam lon lat
  unfolding geofencesContainingSQL_def by (rule with_uuid_query) (simp add: query_def)

interpretation list_events: query "listGeofenceEventsSQL pg fam l" for pg fam l
  unfolding listGeofenceEventsSQL_def by (rule with_uuid_query) (simp add: query_def)

section \<open>Rings are closed and every vertex is on the globe\<close>

lemma first_invalid_iff: "first_invalid ring \<longleftrightarrow> (\<exists>p \<in> set ring. \<not> in_range (Pt_Lon p) (Pt_Lat p))"
  by (induction ring) (auto simp: ValidateLonLat_iff)

lemma closed_ring_set: "ring \<noteq> [] \<Longrightarrow> set (closed_ring ring) = set ring"
  by (auto simp: closed_ring_def)

lemma closed_ring_closed: "ring \<noteq> [] \<Longrightarrow> hd (closed_ring ring) = last (closed_ring ring)"
  by (auto simp: closed_ring_def)

lemma open_ring_set: "set (open_ring ring) = set ring"
proof (cases "1 < length ring \<and> hd ring = last ring")
  case True
  then obtain p ps where r: "ring = p # ps" "ps \<noteq> []" by (cases ring) auto
  have "set ring = insert (last ring) (set (butlast ring))"
    using r by (metis append_butlast_last_id list.distinct(1) list.set(2) rotate1.simps(2) set_rotate1)
  moreover have "last ring \<in> set (butlast ring)" using r True by simp
  ultimately show ?thesis using True by (simp add: open_ring_def insert_absorb)
qed (auto simp: open_ring_def)

text \<open>
  A ring is accepted exactly when every vertex is a point of the globe and it has at least three
  distinct corners; the polygon sent to PostGIS is the ring, closed by repeating its first point when
  the caller left it open, with the longitude written before the latitude.
\<close>

theorem polygonWKT_exact:
  "polygonWKT ff ring =
     (if \<exists>p \<in> set ring. \<not> in_range (Pt_Lon p) (Pt_Lat p) then Inl ErrCoordinateOutOfRange
      else if card (set ring) < 3 then Inl ErrInvalidGeofence
      else Inr (''SRID=4326;POLYGON(('' @
             join_strings '', '' (map (\<lambda>p. ff (Pt_Lon p) @ '' '' @ ff (Pt_Lat p))
               (if hd ring = last ring then ring else ring @ [hd ring])) @ ''))''))
   \<and> (ring \<noteq> [] \<longrightarrow> hd (closed_ring ring) = last (closed_ring ring) \<and> set (closed_ring ring) = set ring)"
  using closed_ring_closed closed_ring_set
  by (auto simp: polygonWKT_def first_invalid_iff open_ring_set closed_ring_def)

theorem polygonWKT_exact_witness:
  "hd (closed_ring [\<lparr>Pt_Lon = Fin 0, Pt_Lat = Fin 0\<rparr>, \<lparr>Pt_Lon = Fin 1, Pt_Lat = Fin 0\<rparr>])
     = last (closed_ring [\<lparr>Pt_Lon = Fin 0, Pt_Lat = Fin 0\<rparr>, \<lparr>Pt_Lon = Fin 1, Pt_Lat = Fin 0\<rparr>])"
  using polygonWKT_exact [of "\<lambda>_. []" "[\<lparr>Pt_Lon = Fin 0, Pt_Lat = Fin 0\<rparr>, \<lparr>Pt_Lon = Fin 1, Pt_Lat = Fin 0\<rparr>]"] by simp

section \<open>Managing Places stays inside the family\<close>

text \<open>
  What an operation on a family's Places may change: Places of that family, and events of Places that
  are gone. The log stays well-formed and ids stay unique.
\<close>

definition manages :: "uuid \<Rightarrow> db \<Rightarrow> db \<Rightarrow> bool" where
  "manages fam d d' \<longleftrightarrow>
     d'\<lparr>geofences := [], events := [], drawn := 0, faults := []\<rparr> = d\<lparr>geofences := [], events := [], drawn := 0, faults := []\<rparr>
     \<and> filter (\<lambda>g. gf_family g \<noteq> fam) (geofences d') = filter (\<lambda>g. gf_family g \<noteq> fam) (geofences d)
     \<and> (\<exists>gone \<subseteq> gf_id ` {g \<in> set (geofences d). gf_family g = fam}. events d' = filter (\<lambda>e. ev_geofence e \<notin> gone) (events d))
     \<and> (distinct (map gf_id (geofences d)) \<longrightarrow> distinct (map gf_id (geofences d')))"

lemma manages_refl: "manages fam d (d\<lparr>faults := fs\<rparr>)"
  by (auto simp: manages_def intro!: exI [of _ "{}"])

lemma filter_map_other:
  "(\<And>g. P (h g) = P g) \<Longrightarrow> (\<And>g. P g \<Longrightarrow> h g = g) \<Longrightarrow> filter P (map h gs) = filter P gs"
  by (induction gs) auto

lemma insert_geofence_manages:
  "uuid_in pg familyID = Some fam \<Longrightarrow> insert_geofence_sql pg familyID name wkt d = (Inr i, d') \<Longrightarrow> manages fam d d'"
  by (auto simp: insert_geofence_sql_def with_uuid_def gen_random_uuid_def manages_def split: if_splits intro!: exI [of _ "{}"])

lemma update_geofence_manages:
  assumes "uuid_in pg familyID = Some fam" "update_geofence_sql pg familyID geofenceID name wkt d = (Inr n, d')"
  shows "manages fam d d'"
proof -
  obtain i where "d' = d \<or> d' = d\<lparr>geofences := map (\<lambda>g. if gf_id g = i \<and> gf_family g = fam then g\<lparr>gf_name := name, gf_area := wkt\<rparr> else g) (geofences d)\<rparr>"
    using assms by (auto simp: update_geofence_sql_def with_uuid_def Let_def split: option.splits if_splits)
  then show ?thesis
  proof
    assume "d' = d"
    then show ?thesis using manages_refl [of fam d "faults d"] by simp
  next
    let ?h = "\<lambda>g. if gf_id g = i \<and> gf_family g = fam then g\<lparr>gf_name := name, gf_area := wkt\<rparr> else g"
    assume d': "d' = d\<lparr>geofences := map ?h (geofences d)\<rparr>"
    have ids: "map gf_id (map ?h (geofences d)) = map gf_id (geofences d)" by simp
    have "geofences d' = map ?h (geofences d)" by (simp add: d')
    then have "distinct (map gf_id (geofences d)) \<longrightarrow> distinct (map gf_id (geofences d'))"
      by (simp only: ids) simp
    moreover have "filter (\<lambda>g. gf_family g \<noteq> fam) (map ?h (geofences d)) = filter (\<lambda>g. gf_family g \<noteq> fam) (geofences d)"
      by (rule filter_map_other) auto
    ultimately show ?thesis unfolding manages_def by (auto simp: d' intro!: exI [of _ "{}"])
  qed
qed

lemma delete_geofence_manages:
  assumes "uuid_in pg familyID = Some fam" "delete_geofence_sql pg geofenceID familyID d = (Inr n, d')"
  shows "manages fam d d'"
proof -
  obtain i where d': "d' = d\<lparr>geofences := filter (\<lambda>g. \<not> (gf_id g = i \<and> gf_family g = fam)) (geofences d),
      events := filter (\<lambda>e. ev_geofence e \<notin> gf_id ` set (filter (\<lambda>g. gf_id g = i \<and> gf_family g = fam) (geofences d))) (events d)\<rparr>"
    using assms by (auto simp: delete_geofence_sql_def with_uuid_def Let_def split: option.splits)
  have "filter (\<lambda>g. gf_family g \<noteq> fam) (filter (\<lambda>g. \<not> (gf_id g = i \<and> gf_family g = fam)) (geofences d))
      = filter (\<lambda>g. gf_family g \<noteq> fam) (geofences d)"
    unfolding filter_filter by (intro filter_cong) auto
  then show ?thesis
    unfolding manages_def d'
    by (auto simp: distinct_map_filter intro!: exI [of _ "gf_id ` set (filter (\<lambda>g. gf_id g = i \<and> gf_family g = fam) (geofences d))"])
qed

lemma manages_run:
  assumes "statement f" "\<And>e n e'. f e = (Inr n, e') \<Longrightarrow> manages fam e e'"
  shows "manages fam d (snd (run f d))"
proof (rule statement.run_rel [OF assms(1)])
  show "manages fam d (d\<lparr>faults := fs\<rparr>)" for fs by (rule manages_refl)
  show "manages fam d d'" if "f (d\<lparr>faults := fs\<rparr>) = (Inr x, d')" for fs x d'
    using assms(2) [OF that] by (simp add: manages_def)
qed

lemma manages_after_read: "manages fam (d\<lparr>faults := fs\<rparr>) d' \<Longrightarrow> manages fam d d'"
  by (simp add: manages_def)

lemma manages_write:
  assumes "statement f" "\<And>e n e'. f e = (Inr n, e') \<Longrightarrow> manages fam e e'"
    and "d' \<in> {d, snd (run (check_valid_sql pg wkt) d), snd (run f (snd (run (check_valid_sql pg wkt) d)))}"
  shows "manages fam d d'"
proof -
  obtain fs where c: "snd (run (check_valid_sql pg wkt) d) = d\<lparr>faults := fs\<rparr>" using check_valid.run_reads by blast
  have "manages fam d d" using manages_refl [of fam d "faults d"] by simp
  moreover have "manages fam (d\<lparr>faults := fs\<rparr>) (snd (run f (d\<lparr>faults := fs\<rparr>)))" by (rule manages_run [OF assms(1,2)])
  ultimately show ?thesis
    using assms(3) manages_refl [of fam d fs] manages_after_read unfolding c by blast
qed

lemma manages_log:
  assumes "manages fam d d'" "log_ok d"
  shows "log_ok d'"
proof -
  obtain gone where g: "events d' = filter (\<lambda>e. ev_geofence e \<notin> gone) (events d)" using assms(1) by (auto simp: manages_def)
  have "crossings dev gf d' = (if gf \<in> gone then [] else crossings dev gf d)" for dev gf
  proof (cases "gf \<in> gone")
    case True
    then have "filter (\<lambda>e. ev_device e = dev \<and> ev_geofence e = gf) (events d') = []" by (auto simp: g filter_empty_conv)
    then show ?thesis using True by (simp add: crossings_def)
  next
    case False
    then have "filter (\<lambda>e. ev_device e = dev \<and> ev_geofence e = gf) (events d')
        = filter (\<lambda>e. ev_device e = dev \<and> ev_geofence e = gf) (events d)"
      unfolding g filter_filter by (intro filter_cong) auto
    then show ?thesis using False by (simp add: crossings_def)
  qed
  then show ?thesis using assms(2) by (simp add: log_ok_def)
qed

lemma snd_two_steps:
  "snd (case r of (Inl e, d1) \<Rightarrow> (Inl (h e), d1) | (Inr v, d1) \<Rightarrow> if \<not> v then (Inl x, d1)
      else case k d1 of (Inl e, d2) \<Rightarrow> (Inl (h e), d2) | (Inr i, d2) \<Rightarrow> (Inr (c i), d2)) \<in> {snd r, snd (k (snd r))}"
  by (cases r; cases "k (snd r)") (auto split: sum.splits)

text \<open>
  Creating, editing or deleting a Place of one family leaves the Places of every other family and
  their crossings untouched under every schedule of failures, changes no other table, and keeps the
  event log well-formed and Place ids unique.
\<close>

theorem places_stay_in_family:
  assumes "uuid_in pg familyID = Some fam" "log_ok d"
    and "d' \<in> {snd (CreateGeofence pg ff familyID name ring d), snd (UpdateGeofence pg ff familyID i name ring d),
               snd (DeleteGeofence pg familyID i d)}"
  shows "manages fam d d' \<and> log_ok d'"
proof -
  have refl: "manages fam d d" using manages_refl [of fam d "faults d"] by simp
  have create: "manages fam d (snd (CreateGeofence pg ff familyID name ring d))"
  proof (cases "polygonWKT ff ring")
    case (Inr wkt)
    have "snd (CreateGeofence pg ff familyID name ring d) \<in> {snd (run (check_valid_sql pg wkt) d),
        snd (run (insert_geofence_sql pg familyID name wkt) (snd (run (check_valid_sql pg wkt) d)))}"
      unfolding CreateGeofence_def Inr sum.case by (rule snd_two_steps [where c = "\<lambda>x. x"])
    then show ?thesis
      by (intro manages_write [OF insert_geofence.statement_axioms [of pg familyID name wkt], of fam _ d pg wkt])
        (erule insert_geofence_manages [OF assms(1)], blast)
  qed (simp add: CreateGeofence_def refl)
  have update: "manages fam d (snd (UpdateGeofence pg ff familyID i name ring d))"
  proof (cases "polygonWKT ff ring")
    case (Inr wkt)
    have "snd (UpdateGeofence pg ff familyID i name ring d) \<in> {snd (run (check_valid_sql pg wkt) d),
        snd (run (update_geofence_sql pg familyID i name wkt) (snd (run (check_valid_sql pg wkt) d)))}"
      unfolding UpdateGeofence_def Inr sum.case by (rule snd_two_steps)
    then show ?thesis
      by (intro manages_write [OF update_geofence.statement_axioms [of pg familyID i name wkt], of fam _ d pg wkt])
        (erule update_geofence_manages [OF assms(1)], blast)
  qed (simp add: UpdateGeofence_def refl)
  have delete: "manages fam d (snd (DeleteGeofence pg familyID i d))"
    unfolding DeleteGeofence_def snd_wrap
    by (rule manages_run [OF delete_geofence.statement_axioms]) (erule delete_geofence_manages [OF assms(1)])
  show ?thesis using assms(2,3) create update delete manages_log by blast
qed

theorem places_stay_in_family_witness:
  "manages ''f2'' (crossing_db []) (snd (DeleteGeofence sample_pg ''f2'' ''g1'' (crossing_db [])))
   \<and> log_ok (snd (DeleteGeofence sample_pg ''f2'' ''g1'' (crossing_db [])))"
  by (rule places_stay_in_family [where ff = "\<lambda>_. []" and name = "[]" and ring = "[]" and i = "''g1''", OF sample_ok(2) crossing_ok(1)]) simp

end
