(* ===== verification/Registry.thy ===== *)
theory Registry
  imports Places
begin

text \<open>
  The push registry (\<open>internal/store/push.go\<close>): where a viewer's phone can be reached. An endpoint is
  identified by its provider and its routing address. The theory shows that an endpoint is registered
  at most once, that it is reached by the crossings of exactly the family of the viewer that last
  registered it, and that a viewer can remove only its own.
\<close>

section \<open>Statements\<close>

definition store_PushProviderFCM :: string where "store_PushProviderFCM = ''fcm''"
definition store_PushProviderUnifiedPush :: string where "store_PushProviderUnifiedPush = ''unifiedpush''"

definition ValidPushProvider :: "string \<Rightarrow> bool" where
  "ValidPushProvider p \<longleftrightarrow> p = store_PushProviderFCM \<or> p = store_PushProviderUnifiedPush"

lemma ValidPushProvider_iff: "ValidPushProvider p \<longleftrightarrow> p = ''fcm'' \<or> p = ''unifiedpush''"
  by (simp add: ValidPushProvider_def store_PushProviderFCM_def store_PushProviderUnifiedPush_def)

text \<open>The values of the column type \<open>push_provider\<close>, in the order of their declaration.\<close>

definition enum_less :: "string \<Rightarrow> string \<Rightarrow> bool" where
  "enum_less p q \<longleftrightarrow> p = ''fcm'' \<and> q = ''unifiedpush''"

record PushSubscription =
  Ps_Provider :: string
  Ps_Token :: string

definition endpoint_of :: "sub_row \<Rightarrow> string \<times> string" where
  "endpoint_of s = (sb_provider s, sb_token s)"

text \<open>
  \<open>INSERT \<dots> ON CONFLICT (provider, token) DO UPDATE SET viewer_id, created_at RETURNING id\<close>. The default
  of the id column is evaluated for the proposed row, also when the row then conflicts.
\<close>

definition registerPushSubscriptionSQL :: "pg \<Rightarrow> string \<Rightarrow> string \<Rightarrow> string \<Rightarrow> uuid stmt" where
  "registerPushSubscriptionSQL pg viewerID provider token = with_uuid pg viewerID (\<lambda>v d.
     (case gen_random_uuid d of (i, d1) \<Rightarrow>
        if \<not> pg_text token then (Inl (PgError ''22021'' ''invalid byte sequence for encoding''), d)
        else if provider \<notin> {''fcm'', ''unifiedpush''} then (Inl (PgError ''22P02'' ''invalid input value for enum push_provider''), d)
        else if pg_blank token then (Inl (PgError ''23514'' ''push_subscriptions_token_check''), d)
        else if v \<notin> vw_id ` set (viewers d) then (Inl (PgError ''23503'' ''push_subscriptions_viewer_id_fkey''), d)
        else (case find (\<lambda>s. endpoint_of s = (provider, token)) (subs d) of
                Some s \<Rightarrow> (Inr (sb_id s), d1\<lparr>subs := map (\<lambda>r. if endpoint_of r = (provider, token)
                             then r\<lparr>sb_viewer := v, sb_created := now d\<rparr> else r) (subs d)\<rparr>)
              | None \<Rightarrow>
                  if i \<in> sb_id ` set (subs d) then (Inl (PgError ''23505'' ''push_subscriptions_pkey''), d)
                  else (Inr i, d1\<lparr>subs := subs d @ [\<lparr>sb_id = i, sb_viewer = v, sb_provider = provider,
                          sb_token = token, sb_created = now d\<rparr>]\<rparr>))))"

definition removeSupersededPushSubscriptionSQL :: "pg \<Rightarrow> string \<Rightarrow> string \<Rightarrow> string \<Rightarrow> nat stmt" where
  "removeSupersededPushSubscriptionSQL pg viewerID provider token = with_uuid pg viewerID (\<lambda>v d.
     (if \<not> pg_text token then (Inl (PgError ''22021'' ''invalid byte sequence for encoding''), d)
      else if provider \<notin> {''fcm'', ''unifiedpush''} then (Inl (PgError ''22P02'' ''invalid input value for enum push_provider''), d)
      else (let hit = (\<lambda>s. sb_viewer s = v \<and> endpoint_of s = (provider, token))
            in (Inr (length (filter hit (subs d))), d\<lparr>subs := filter (\<lambda>s. \<not> hit s) (subs d)\<rparr>))))"

definition sub_less :: "pg \<Rightarrow> string \<times> string \<Rightarrow> string \<times> string \<Rightarrow> bool" where
  "sub_less pg a b \<longleftrightarrow> enum_less (fst a) (fst b) \<or> (fst a = fst b \<and> pg_collate pg (snd a) (snd b))"

definition family_endpoints :: "uuid \<Rightarrow> db \<Rightarrow> (string \<times> string) list" where
  "family_endpoints fam d =
     concat (map (\<lambda>s. map (\<lambda>_. endpoint_of s) (filter (\<lambda>v. vw_id v = sb_viewer s \<and> vw_family v = fam) (viewers d))) (subs d))"

definition pushSubscriptionsForFamilySQL :: "pg \<Rightarrow> string \<Rightarrow> (string \<times> string) list stmt" where
  "pushSubscriptionsForFamilySQL pg familyID = with_uuid pg familyID (\<lambda>fam d.
     (Inr (stable_sort (sub_less pg) (family_endpoints fam d)), d))"

interpretation register_sub: statement "registerPushSubscriptionSQL pg v p t" for pg v p t
  unfolding registerPushSubscriptionSQL_def
  by (intro with_uuid_statement) (unfold_locales; auto simp: gen_random_uuid_def split: if_splits option.splits)

interpretation remove_sub: statement "removeSupersededPushSubscriptionSQL pg v p t" for pg v p t
  unfolding removeSupersededPushSubscriptionSQL_def
  by (intro with_uuid_statement) (unfold_locales; auto simp: Let_def split: if_splits)

interpretation family_subs: query "pushSubscriptionsForFamilySQL pg fam" for pg fam
  unfolding pushSubscriptionsForFamilySQL_def by (rule with_uuid_query) (simp add: query_def)

section \<open>Operations\<close>

definition RegisterPushSubscription :: "pg \<Rightarrow> string \<Rightarrow> string \<Rightarrow> string \<Rightarrow> db \<Rightarrow> (store_error + uuid) \<times> db" where
  "RegisterPushSubscription pg viewerID provider token d =
     (if \<not> ValidPushProvider provider then (Inl ErrInvalidPushProvider, d)
      else case run (registerPushSubscriptionSQL pg viewerID provider token) d of
             (Inl e, d1) \<Rightarrow> (Inl (StPg e), d1)
           | (Inr i, d1) \<Rightarrow> (Inr i, d1))"

definition RemovePushSubscriptionForViewer :: "pg \<Rightarrow> string \<Rightarrow> string \<Rightarrow> string \<Rightarrow> db \<Rightarrow> (store_error + bool) \<times> db" where
  "RemovePushSubscriptionForViewer pg viewerID provider token d =
     (if \<not> ValidPushProvider provider then (Inl ErrInvalidPushProvider, d)
      else case run (removeSupersededPushSubscriptionSQL pg viewerID provider token) d of
             (Inl e, d1) \<Rightarrow> (Inl (StPg e), d1)
           | (Inr n, d1) \<Rightarrow> (Inr (n = 1), d1))"

definition PushSubscriptionsForFamily :: "pg \<Rightarrow> string \<Rightarrow> db \<Rightarrow> (store_error + PushSubscription list) \<times> db" where
  "PushSubscriptionsForFamily pg familyID d =
     (case run (pushSubscriptionsForFamilySQL pg familyID) d of
        (Inl e, d1) \<Rightarrow> (Inl (StPg e), d1)
      | (Inr rows, d1) \<Rightarrow> (Inr (map (\<lambda>r. \<lparr>Ps_Provider = fst r, Ps_Token = snd r\<rparr>) rows), d1))"

section \<open>One row per endpoint\<close>

definition registry_ok :: "db \<Rightarrow> bool" where
  "registry_ok d \<longleftrightarrow> distinct (map endpoint_of (subs d)) \<and> distinct (map sb_id (subs d))
     \<and> distinct (map vw_id (viewers d))
     \<and> (\<forall>s \<in> set (subs d). ValidPushProvider (sb_provider s) \<and> sb_viewer s \<in> vw_id ` set (viewers d))"

definition owned_by :: "db \<Rightarrow> uuid \<Rightarrow> sub_row \<Rightarrow> bool" where
  "owned_by d fam s \<longleftrightarrow> (\<exists>v \<in> set (viewers d). vw_id v = sb_viewer s \<and> vw_family v = fam)"

lemma registry_ok_faults [simp]: "registry_ok (d\<lparr>faults := fs\<rparr>) = registry_ok d"
  by (simp add: registry_ok_def)

lemma family_endpoints_faults [simp]: "family_endpoints fam (d\<lparr>faults := fs\<rparr>) = family_endpoints fam d"
  by (simp add: family_endpoints_def)

lemma filter_key:
  assumes "distinct (map key xs)"
  shows "length (filter (\<lambda>x. key x = k \<and> P x) xs) = (if \<exists>x \<in> set xs. key x = k \<and> P x then 1 else 0)"
  using assms
proof (induction xs)
  case (Cons x xs)
  show ?case
  proof (cases "key x = k")
    case True
    then have "k \<notin> key ` set xs" using Cons.prems by simp
    then have "filter (\<lambda>x. key x = k \<and> P x) xs = []" by (auto simp: filter_empty_conv)
    moreover have "\<not> (\<exists>x \<in> set xs. key x = k \<and> P x)" using calculation by (simp add: filter_empty_conv)
    ultimately show ?thesis using True by simp
  next
    case False
    then show ?thesis using Cons by simp
  qed
qed simp

lemma family_endpoints_owned:
  assumes "distinct (map vw_id (viewers d))"
  shows "family_endpoints fam d = map endpoint_of (filter (owned_by d fam) (subs d))"
proof -
  have one: "map (\<lambda>_. endpoint_of s) (filter (\<lambda>v. vw_id v = sb_viewer s \<and> vw_family v = fam) (viewers d))
      = (if owned_by d fam s then [endpoint_of s] else [])" for s
  proof -
    have "length (filter (\<lambda>v. vw_id v = sb_viewer s \<and> vw_family v = fam) (viewers d)) = (if owned_by d fam s then 1 else 0)"
      using filter_key [OF assms] by (simp add: owned_by_def)
    then show ?thesis by (cases "filter (\<lambda>v. vw_id v = sb_viewer s \<and> vw_family v = fam) (viewers d)") (auto split: if_splits)
  qed
  have "concat (map (\<lambda>s. if owned_by d fam s then [endpoint_of s] else []) ss) = map endpoint_of (filter (owned_by d fam) ss)" for ss
    by (induction ss) simp_all
  then show ?thesis by (simp only: family_endpoints_def one)
qed

text \<open>The rows of a registry under one endpoint, and the others, after an upsert.\<close>

definition upsert_sub :: "sub_row \<Rightarrow> sub_row list \<Rightarrow> sub_row list" where
  "upsert_sub new ss =
     (if endpoint_of new \<in> endpoint_of ` set ss
      then map (\<lambda>r. if endpoint_of r = endpoint_of new then r\<lparr>sb_viewer := sb_viewer new, sb_created := sb_created new\<rparr> else r) ss
      else ss @ [new])"

lemma endpoint_of_upd [simp]: "endpoint_of (r\<lparr>sb_viewer := v, sb_created := t\<rparr>) = endpoint_of r"
  by (simp add: endpoint_of_def)

lemma register_sql_ok:
  assumes "registerPushSubscriptionSQL pg viewerID p t d = (Inr i, d')"
  shows "\<exists>v new. uuid_in pg viewerID = Some v \<and> v \<in> vw_id ` set (viewers d) \<and> p \<in> {''fcm'', ''unifiedpush''}
     \<and> new = \<lparr>sb_id = uuids d (drawn d), sb_viewer = v, sb_provider = p, sb_token = t, sb_created = now d\<rparr>
     \<and> (endpoint_of new \<notin> endpoint_of ` set (subs d) \<longrightarrow> sb_id new \<notin> sb_id ` set (subs d))
     \<and> d' = d\<lparr>drawn := Suc (drawn d), subs := upsert_sub new (subs d)\<rparr>"
proof -
  obtain v where v: "uuid_in pg viewerID = Some v"
    using assms by (cases "uuid_in pg viewerID") (auto simp: registerPushSubscriptionSQL_def with_uuid_def)
  let ?new = "\<lparr>sb_id = uuids d (drawn d), sb_viewer = v, sb_provider = p, sb_token = t, sb_created = now d\<rparr>"
  have en: "endpoint_of ?new = (p, t)" by (simp add: endpoint_of_def)
  show ?thesis
  proof (cases "find (\<lambda>s. endpoint_of s = (p, t)) (subs d)")
    case None
    then have "(p, t) \<notin> endpoint_of ` set (subs d)" by (auto simp: find_None_iff)
    then show ?thesis using assms v None en
      by (auto simp: registerPushSubscriptionSQL_def with_uuid_def gen_random_uuid_def upsert_sub_def split: if_splits)
  next
    case (Some s)
    then have "(p, t) \<in> endpoint_of ` set (subs d)" by (auto dest!: find_SomeD) (metis image_eqI)
    then show ?thesis using assms v Some en
      by (auto simp: registerPushSubscriptionSQL_def with_uuid_def gen_random_uuid_def upsert_sub_def split: if_splits)
  qed
qed

lemma upsert_rows:
  assumes "distinct (map endpoint_of ss)"
  shows "filter (\<lambda>s. endpoint_of s \<noteq> endpoint_of new) (upsert_sub new ss) = filter (\<lambda>s. endpoint_of s \<noteq> endpoint_of new) ss"
    and "\<exists>r. filter (\<lambda>s. endpoint_of s = endpoint_of new) (upsert_sub new ss) = [r] \<and> sb_viewer r = sb_viewer new \<and> endpoint_of r = endpoint_of new"
    and "distinct (map endpoint_of (upsert_sub new ss))"
proof -
  let ?u = "\<lambda>r. if endpoint_of r = endpoint_of new then r\<lparr>sb_viewer := sb_viewer new, sb_created := sb_created new\<rparr> else r"
  have same: "map endpoint_of (map ?u ss) = map endpoint_of ss" by simp
  show "distinct (map endpoint_of (upsert_sub new ss))"
  proof (cases "endpoint_of new \<in> endpoint_of ` set ss")
    case True
    then have "map endpoint_of (upsert_sub new ss) = map endpoint_of ss" by (simp only: upsert_sub_def if_True same)
    then show ?thesis using assms by (simp only:)
  qed (use assms in \<open>simp add: upsert_sub_def\<close>)
  show "filter (\<lambda>s. endpoint_of s \<noteq> endpoint_of new) (upsert_sub new ss) = filter (\<lambda>s. endpoint_of s \<noteq> endpoint_of new) ss"
  proof -
    have "filter (\<lambda>s. endpoint_of s \<noteq> endpoint_of new) (map ?u xs) = filter (\<lambda>s. endpoint_of s \<noteq> endpoint_of new) xs" for xs
      by (induction xs) simp_all
    then show ?thesis by (simp add: upsert_sub_def)
  qed
  show "\<exists>r. filter (\<lambda>s. endpoint_of s = endpoint_of new) (upsert_sub new ss) = [r] \<and> sb_viewer r = sb_viewer new \<and> endpoint_of r = endpoint_of new"
  proof (cases "endpoint_of new \<in> endpoint_of ` set ss")
    case True
    have "length (filter (\<lambda>s. endpoint_of s = endpoint_of new) ss) = 1"
      using filter_key [OF assms, of "endpoint_of new" "\<lambda>_. True"] True by (auto simp: image_iff split: if_splits)
    then obtain r where r: "filter (\<lambda>s. endpoint_of s = endpoint_of new) ss = [r]"
      by (cases "filter (\<lambda>s. endpoint_of s = endpoint_of new) ss") auto
    then have er: "endpoint_of r = endpoint_of new" by (auto dest: filter_ConsD)
    have "filter (\<lambda>s. endpoint_of s = endpoint_of new) (map ?u xs) = map ?u (filter (\<lambda>s. endpoint_of s = endpoint_of new) xs)" for xs
      by (induction xs) simp_all
    then show ?thesis using True r er by (simp add: upsert_sub_def)
  next
    case False
    then have "\<forall>s \<in> set ss. endpoint_of s \<noteq> endpoint_of new" by (metis image_eqI)
    then show ?thesis using False by (simp add: upsert_sub_def)
  qed
qed

lemma set_upsert_sub: "s \<in> set (upsert_sub new ss) \<Longrightarrow>
    s = new \<or> s \<in> set ss \<or> (\<exists>r \<in> set ss. s = r\<lparr>sb_viewer := sb_viewer new, sb_created := sb_created new\<rparr>)"
  by (auto simp: upsert_sub_def split: if_splits)

lemma upsert_ids:
  assumes "endpoint_of new \<notin> endpoint_of ` set ss \<longrightarrow> sb_id new \<notin> sb_id ` set ss" "distinct (map sb_id ss)"
  shows "distinct (map sb_id (upsert_sub new ss))"
proof (cases "endpoint_of new \<in> endpoint_of ` set ss")
  case True
  have "map sb_id (upsert_sub new ss) = map sb_id ss" using True by (simp add: upsert_sub_def)
  then show ?thesis using assms(2) by (simp only:)
qed (use assms in \<open>simp add: upsert_sub_def\<close>)

lemma registry_ok_upsert:
  assumes "registry_ok d" "sb_viewer new \<in> vw_id ` set (viewers d)" "ValidPushProvider (sb_provider new)"
    and "endpoint_of new \<notin> endpoint_of ` set (subs d) \<longrightarrow> sb_id new \<notin> sb_id ` set (subs d)"
  shows "registry_ok (d\<lparr>drawn := n, subs := upsert_sub new (subs d)\<rparr>)"
proof -
  have "ValidPushProvider (sb_provider s) \<and> sb_viewer s \<in> vw_id ` set (viewers d)" if "s \<in> set (upsert_sub new (subs d))" for s
    using set_upsert_sub [OF that] assms(1,2,3) by (auto simp: registry_ok_def)
  moreover have "distinct (map sb_id (upsert_sub new (subs d)))"
    using assms by (intro upsert_ids) (auto simp: registry_ok_def)
  moreover have "distinct (map endpoint_of (upsert_sub new (subs d)))"
    using assms(1) by (intro upsert_rows(3)) (simp add: registry_ok_def)
  ultimately show ?thesis using assms(1) by (simp add: registry_ok_def)
qed

lemma registry_ok_remove: "registry_ok d \<Longrightarrow> registry_ok (d\<lparr>subs := filter P (subs d)\<rparr>)"
  by (auto simp: registry_ok_def distinct_map_filter)

lemma filter_owned:
  "filter Q (map endpoint_of (filter (owned_by d fam) ss)) = map endpoint_of (filter (owned_by d fam) (filter (\<lambda>s. Q (endpoint_of s)) ss))"
  by (induction ss) simp_all

text \<open>
  Registering an endpoint moves it. Whatever failed before, when \<open>RegisterPushSubscription\<close> succeeds
  for a viewer of one family, the crossings of that family reach the endpoint exactly once, the
  crossings of every other family no longer reach it, the reachability of every other endpoint is as
  before, and no endpoint is registered twice.
\<close>

theorem registration_moves_endpoint:
  assumes "registry_ok d" "RegisterPushSubscription pg viewerID p t d = (Inr i, d')"
    and "v \<in> set (viewers d)" "uuid_in pg viewerID = Some (vw_id v)"
  shows "registry_ok d' \<and>
    filter (\<lambda>e. e = (p, t)) (family_endpoints fam d') = (if fam = vw_family v then [(p, t)] else []) \<and>
    filter (\<lambda>e. e \<noteq> (p, t)) (family_endpoints fam d') = filter (\<lambda>e. e \<noteq> (p, t)) (family_endpoints fam d)"
proof -
  have "run (registerPushSubscriptionSQL pg viewerID p t) d = (Inr i, d')"
    using assms(2) by (auto simp: RegisterPushSubscription_def split: if_splits prod.splits sum.splits)
  then obtain fs where f: "registerPushSubscriptionSQL pg viewerID p t (d\<lparr>faults := fs\<rparr>) = (Inr i, d')"
    by (rule register_sub.run_okE)
  let ?d = "d\<lparr>faults := fs\<rparr>"
  define new where "new = \<lparr>sb_id = uuids d (drawn d), sb_viewer = vw_id v, sb_provider = p, sb_token = t, sb_created = now ?d\<rparr>"
  have new: "sb_viewer new = vw_id v" "endpoint_of new = (p, t)" "sb_provider new = p" "p \<in> {''fcm'', ''unifiedpush''}"
      "endpoint_of new \<notin> endpoint_of ` set (subs d) \<longrightarrow> sb_id new \<notin> sb_id ` set (subs d)"
      "d' = ?d\<lparr>drawn := Suc (drawn d), subs := upsert_sub new (subs d)\<rparr>"
    using register_sql_ok [OF f] assms(4) unfolding new_def by (simp_all add: endpoint_of_def)
  have ok: "registry_ok d'"
    unfolding new(6) using registry_ok_upsert [of ?d new] new assms(1,3) by (auto simp: ValidPushProvider_iff)
  have vd: "distinct (map vw_id (viewers d'))" "viewers d' = viewers d" "subs d' = upsert_sub new (subs d)"
    using ok new(6) by (simp_all add: registry_ok_def)
  have ow: "owned_by d' fam = owned_by d fam" using vd(2) by (simp add: owned_by_def fun_eq_iff)
  have vdd: "distinct (map vw_id (viewers d))" and ed: "distinct (map endpoint_of (subs d))"
    using assms(1) by (simp_all add: registry_ok_def)
  note fe = family_endpoints_owned [OF vd(1)] family_endpoints_owned [OF vdd]
  obtain r where r: "filter (\<lambda>s. endpoint_of s = (p, t)) (subs d') = [r]" "sb_viewer r = vw_id v" "endpoint_of r = (p, t)"
    using upsert_rows(2) [OF ed, of new] new(1,2) vd(3) by auto
  have "owned_by d fam r \<longleftrightarrow> fam = vw_family v"
  proof
    assume "owned_by d fam r"
    then obtain w where w: "w \<in> set (viewers d)" "vw_id w = vw_id v" "vw_family w = fam" using r(2) by (auto simp: owned_by_def)
    then have "w = v" using assms(3) vdd by (metis distinct_map inj_on_eq_iff)
    then show "fam = vw_family v" using w(3) by simp
  qed (use assms(3) r(2) in \<open>auto simp: owned_by_def\<close>)
  then have "filter (\<lambda>e. e = (p, t)) (family_endpoints fam d') = (if fam = vw_family v then [(p, t)] else [])"
    using r by (simp add: fe ow filter_owned)
  moreover have "filter (\<lambda>e. e \<noteq> (p, t)) (family_endpoints fam d') = filter (\<lambda>e. e \<noteq> (p, t)) (family_endpoints fam d)"
    unfolding fe ow filter_owned vd(3) using upsert_rows(1) [OF ed, of new] new(2) by simp
  ultimately show ?thesis using ok by blast
qed

theorem registration_moves_endpoint_witness:
  "family_endpoints ''f1'' (snd (RegisterPushSubscription sample_pg ''v1'' ''fcm'' ''tok'' (sample_db [Clean]))) = [(''fcm'', ''tok'')]"
proof -
  let ?d = "sample_db [Clean]"
  let ?v = "hd (viewers ?d)"
  have v: "?v \<in> set (viewers ?d)" "vw_id ?v = ''v1''" "vw_family ?v = ''f1''" by (simp_all add: sample_db_def)
  have ok: "registry_ok ?d" by (simp add: registry_ok_def sample_db_def empty_db_def)
  have sql: "\<exists>d'. registerPushSubscriptionSQL sample_pg ''v1'' ''fcm'' ''tok'' (?d\<lparr>faults := []\<rparr>) = (Inr (uuids ?d (drawn ?d)), d')"
    by (simp add: registerPushSubscriptionSQL_def with_uuid_def sample_pg_def gen_random_uuid_def sample_db_def empty_db_def
        pg_text_def pg_blank_def)
  have "\<exists>d'. RegisterPushSubscription sample_pg ''v1'' ''fcm'' ''tok'' ?d = (Inr (uuids ?d (drawn ?d)), d')"
    using sql sample_ok(4) [of "[Clean]"] by (auto simp: RegisterPushSubscription_def run_def ValidPushProvider_iff)
  then obtain d' where d': "RegisterPushSubscription sample_pg ''v1'' ''fcm'' ''tok'' ?d = (Inr (uuids ?d (drawn ?d)), d')" by blast
  have "uuid_in sample_pg ''v1'' = Some (vw_id ?v)" using v(2) by (simp add: sample_ok(2))
  note m = registration_moves_endpoint [OF ok d' v(1) this, of "''f1''"]
  have none: "family_endpoints ''f1'' ?d = []" by (simp add: family_endpoints_def sample_db_def empty_db_def)
  have "xs = ys" if "filter (\<lambda>e. e = z) xs = ys" "filter (\<lambda>e. e \<noteq> z) xs = []" for xs ys and z :: "string \<times> string"
    using that by (metis (mono_tags, lifting) filter_True filter_empty_conv)
  from this [of "(''fcm'', ''tok'')" "family_endpoints ''f1'' d'" "[(''fcm'', ''tok'')]"]
  show ?thesis using m v(3) none d' by simp
qed

text \<open>
  A viewer removes only its own endpoint. Under every schedule of failures,
  \<open>RemovePushSubscriptionForViewer\<close> leaves the endpoints of every other viewer and every other endpoint
  of this viewer registered, and changes no other table; when it reports a removal the endpoint is
  gone, and naming an address registered under another viewer reports exactly what naming an
  unregistered address reports.
\<close>

theorem removal_own_only:
  assumes "RemovePushSubscriptionForViewer pg viewerID p t d = (r, d')" "uuid_in pg viewerID = Some v" "registry_ok d"
  shows "registry_ok d'
    \<and> filter (\<lambda>s. \<not> (sb_viewer s = v \<and> endpoint_of s = (p, t))) (subs d') = filter (\<lambda>s. \<not> (sb_viewer s = v \<and> endpoint_of s = (p, t))) (subs d)
    \<and> d' = d\<lparr>subs := subs d', faults := faults d'\<rparr>
    \<and> (r = Inr True \<longrightarrow> (\<forall>s \<in> set (subs d'). endpoint_of s \<noteq> (p, t)))
    \<and> ((\<forall>s \<in> set (subs d). endpoint_of s = (p, t) \<longrightarrow> sb_viewer s \<noteq> v) \<longrightarrow> r \<noteq> Inr True \<and> subs d' = subs d)"
proof (cases "ValidPushProvider p")
  case False
  then show ?thesis using assms by (auto simp: RemovePushSubscriptionForViewer_def)
next
  case True
  let ?hit = "\<lambda>s. sb_viewer s = v \<and> endpoint_of s = (p, t)"
  have sql: "\<exists>n. x = n \<and> n = length (filter ?hit (subs d)) \<and> d1 = d\<lparr>faults := fs, subs := filter (\<lambda>s. \<not> ?hit s) (subs d)\<rparr>"
    if "removeSupersededPushSubscriptionSQL pg viewerID p t (d\<lparr>faults := fs\<rparr>) = (Inr x, d1)" for fs x d1
    using that assms(2) by (auto simp: removeSupersededPushSubscriptionSQL_def with_uuid_def Let_def split: if_splits)
  obtain a where a: "run (removeSupersededPushSubscriptionSQL pg viewerID p t) d = (a, d')"
      "r = (case a of Inl e \<Rightarrow> Inl (StPg e) | Inr n \<Rightarrow> Inr (n = 1))"
    using assms(1) True by (auto simp: RemovePushSubscriptionForViewer_def split: prod.splits sum.splits)
  have done_or_not: "(\<exists>fs. d' = d\<lparr>faults := fs\<rparr> \<and> r \<noteq> Inr True)
      \<or> (\<exists>fs. d' = d\<lparr>faults := fs, subs := filter (\<lambda>s. \<not> ?hit s) (subs d)\<rparr> \<and> (r = Inr True \<longrightarrow> length (filter ?hit (subs d)) = 1))"
  proof (cases a)
    case (Inl e)
    then have "r \<noteq> Inr True" using a(2) by simp
    then show ?thesis using a(1) Inl by (auto elim!: remove_sub.run_errorE dest!: sql)
  next
    case (Inr n)
    then obtain fs where "removeSupersededPushSubscriptionSQL pg viewerID p t (d\<lparr>faults := fs\<rparr>) = (Inr n, d')"
      using a(1) by (auto elim!: remove_sub.run_okE)
    then show ?thesis using sql Inr a(2) by fastforce
  qed
  have ff: "filter (\<lambda>s. \<not> ?hit s) (filter (\<lambda>s. \<not> ?hit s) (subs d)) = filter (\<lambda>s. \<not> ?hit s) (subs d)" by simp
  have uniq: "\<forall>s \<in> set (filter (\<lambda>s. \<not> ?hit s) (subs d)). endpoint_of s \<noteq> (p, t)" if one: "length (filter ?hit (subs d)) = 1"
  proof -
    obtain s0 where "filter ?hit (subs d) = [s0]" using one by (cases "filter ?hit (subs d)") auto
    then have s0: "s0 \<in> set (subs d)" "?hit s0" by (auto dest: filter_ConsD)
    have "s = s0" if "s \<in> set (subs d)" "endpoint_of s = (p, t)" for s
      using that s0 assms(3) by (metis distinct_map inj_on_eq_iff registry_ok_def)
    then show ?thesis using s0(2) by auto
  qed
  have none: "subs d = filter (\<lambda>s. \<not> ?hit s) (subs d) \<and> length (filter ?hit (subs d)) \<noteq> 1"
    if "\<forall>s \<in> set (subs d). endpoint_of s = (p, t) \<longrightarrow> sb_viewer s \<noteq> v"
  proof -
    have "\<forall>s \<in> set (subs d). \<not> ?hit s" using that by blast
    then have "filter (\<lambda>s. \<not> ?hit s) (subs d) = subs d" "filter ?hit (subs d) = []" by (blast intro: filter_True, blast intro: filter_False)
    then show ?thesis by simp
  qed
  from done_or_not show ?thesis
  proof (elim disjE exE conjE)
    fix fs assume "d' = d\<lparr>faults := fs\<rparr>" "r \<noteq> Inr True"
    then show ?thesis using assms(3) by simp
  next
    fix fs assume d': "d' = d\<lparr>faults := fs, subs := filter (\<lambda>s. \<not> ?hit s) (subs d)\<rparr>" and r: "r = Inr True \<longrightarrow> length (filter ?hit (subs d)) = 1"
    have s: "subs d' = filter (\<lambda>s. \<not> ?hit s) (subs d)" using d' by simp
    have "registry_ok d'" using registry_ok_remove [of "d\<lparr>faults := fs\<rparr>" "\<lambda>s. \<not> ?hit s"] d' assms(3) by simp
    moreover have "d' = d\<lparr>subs := subs d', faults := faults d'\<rparr>" using d' by simp
    moreover have "r \<noteq> Inr True \<and> subs d' = subs d" if "\<forall>s \<in> set (subs d). endpoint_of s = (p, t) \<longrightarrow> sb_viewer s \<noteq> v"
      using none [OF that] r s by argo
    moreover have "filter (\<lambda>s. \<not> ?hit s) (subs d') = filter (\<lambda>s. \<not> ?hit s) (subs d)" by (simp only: s ff)
    moreover have "\<forall>s \<in> set (subs d'). endpoint_of s \<noteq> (p, t)" if "r = Inr True" using uniq r that s by presburger
    ultimately show ?thesis by blast
  qed
qed

theorem removal_own_only_witness:
  "fst (RemovePushSubscriptionForViewer sample_pg ''v2'' ''fcm'' ''tok''
     (sample_db []\<lparr>subs := [\<lparr>sb_id = ''s'', sb_viewer = ''v1'', sb_provider = ''fcm'', sb_token = ''tok'', sb_created = 0\<rparr>]\<rparr>)) \<noteq> Inr True"
proof -
  let ?d = "sample_db []\<lparr>subs := [\<lparr>sb_id = ''s'', sb_viewer = ''v1'', sb_provider = ''fcm'', sb_token = ''tok'', sb_created = 0\<rparr>]\<rparr>"
  have ok: "registry_ok ?d" by (simp add: registry_ok_def sample_db_def ValidPushProvider_iff)
  show ?thesis
    using removal_own_only [OF prod.collapse [symmetric] sample_ok(2) ok, of "''v2''" "''fcm''" "''tok''"] by simp
qed

end
