(* ===== verification/Auth.thy ===== *)
theory Auth
  imports Prelude "HOL-Library.Word"
begin

text \<open>
  \<open>internal/auth/auth.go\<close>: bearer tokens. \<open>Generate\<close> encodes 32 random bytes as unpadded base64url,
  \<open>Token_Hash\<close> is SHA-256, and \<open>FromRequest\<close> reads a token from an \<open>Authorization\<close> header in the
  Bearer or the Basic scheme. The parts of \<open>encoding/base64\<close>, \<open>crypto/sha256\<close> and
  \<open>net/http\<close>'s \<open>BasicAuth\<close> the package uses are written out. The lemmas show that a generated token
  has 43 characters, that it survives both schemes unchanged, and that a blank credential is never
  a token.
\<close>

unbundle bit_operations_syntax

section \<open>Base64\<close>

definition byte :: "nat \<Rightarrow> char" where "byte n = char_of n"
definition code :: "char \<Rightarrow> nat" where "code c = of_char c"

lemma code_byte [simp]: "n < 256 \<Longrightarrow> code (byte n) = n"
  by (simp add: code_def byte_def)

lemma byte_code [simp]: "byte (code c) = c"
  by (simp add: code_def byte_def)

lemma code_lt [simp]: "code c < 256"
  by (simp add: code_def)

definition std_alphabet :: string where
  "std_alphabet = ''ABCDEFGHIJKLMNOPQRSTUVWXYZabcdefghijklmnopqrstuvwxyz0123456789+/''"

definition url_alphabet :: string where
  "url_alphabet = ''ABCDEFGHIJKLMNOPQRSTUVWXYZabcdefghijklmnopqrstuvwxyz0123456789-_''"

text \<open>
  The encoder, for an alphabet and the padding of the last group (empty for \<open>RawURLEncoding\<close>,
  one or two \<open>=\<close> for \<open>StdEncoding\<close>).
\<close>

fun b64_encode :: "string \<Rightarrow> bool \<Rightarrow> string \<Rightarrow> string" where
  "b64_encode al pad [] = []"
| "b64_encode al pad [a] =
     [al ! (code a div 4), al ! (code a mod 4 * 16)] @ (if pad then ''=='' else [])"
| "b64_encode al pad [a, b] =
     [al ! (code a div 4), al ! (code a mod 4 * 16 + code b div 16), al ! (code b mod 16 * 4)]
     @ (if pad then ''='' else [])"
| "b64_encode al pad (a # b # c # rest) =
     [al ! (code a div 4), al ! (code a mod 4 * 16 + code b div 16),
      al ! (code b mod 16 * 4 + code c div 64), al ! (code c mod 64)] @ b64_encode al pad rest"

text \<open>
  \<open>StdEncoding.DecodeString\<close>: line breaks are ignored, padding is required, the unused bits of the
  last group are not checked.
\<close>

fun sextet_from :: "string \<Rightarrow> nat \<Rightarrow> char \<Rightarrow> nat option" where
  "sextet_from [] i c = None"
| "sextet_from (a # al) i c = (if a = c then Some i else sextet_from al (Suc i) c)"

definition sextet :: "char \<Rightarrow> nat option" where
  "sextet c = sextet_from std_alphabet 0 c"

fun b64_groups :: "string \<Rightarrow> string option" where
  "b64_groups [] = Some []"
| "b64_groups [a] = None"
| "b64_groups [a, b] = None"
| "b64_groups [a, b, c] = None"
| "b64_groups (a # b # c # d # rest) =
     (if rest = [] \<and> d = CHR ''='' \<and> c = CHR ''='' then
        (case (sextet a, sextet b) of
           (Some x, Some y) \<Rightarrow> Some [byte (x * 4 + y div 16)]
         | _ \<Rightarrow> None)
      else if rest = [] \<and> d = CHR ''='' then
        (case (sextet a, sextet b, sextet c) of
           (Some x, Some y, Some z) \<Rightarrow> Some [byte (x * 4 + y div 16), byte (y mod 16 * 16 + z div 4)]
         | _ \<Rightarrow> None)
      else
        (case (sextet a, sextet b, sextet c, sextet d) of
           (Some x, Some y, Some z, Some w) \<Rightarrow>
             (case b64_groups rest of
                None \<Rightarrow> None
              | Some out \<Rightarrow>
                  Some (byte (x * 4 + y div 16) # byte (y mod 16 * 16 + z div 4)
                        # byte (z mod 4 * 64 + w) # out))
         | _ \<Rightarrow> None))"

definition b64_decode :: "string \<Rightarrow> string option" where
  "b64_decode s = b64_groups (filter (\<lambda>c. c \<noteq> CHR 0x0A \<and> c \<noteq> CHR 0x0D) s)"

lemma all_sextets: "list_all (\<lambda>i. sextet (std_alphabet ! i) = Some i \<and> std_alphabet ! i \<noteq> CHR ''=''
    \<and> std_alphabet ! i \<noteq> CHR 0x0A \<and> std_alphabet ! i \<noteq> CHR 0x0D) [0..<64]"
  by code_simp

lemma sextet_alphabet:
  assumes "i < 64"
  shows "sextet (std_alphabet ! i) = Some i" "std_alphabet ! i \<noteq> CHR ''=''"
    "std_alphabet ! i \<noteq> CHR 0x0A" "std_alphabet ! i \<noteq> CHR 0x0D"
  using all_sextets assms by (auto simp: list_all_iff)

lemma sextet_bounds:
  "code a div 4 < 64" "code a mod 4 * 16 + code b div 16 < 64"
  "code b mod 16 * 4 + code c div 64 < 64" "code c mod 64 < 64"
  "code a mod 4 * 16 < 64" "code b mod 16 * 4 < 64"
proof -
  have c: "code a < 256" "code b < 256" "code c < 256" by simp_all
  have m: "code a mod 4 < 4" "code b mod 16 < 16" "code c mod 64 < 64" by simp_all
  have d: "code a div 4 < 64" "code b div 16 < 16" "code c div 64 < 4"
    using c by (simp_all add: div_less_iff_less_mult)
  show "code a div 4 < 64" "code a mod 4 * 16 + code b div 16 < 64"
    "code b mod 16 * 4 + code c div 64 < 64" "code c mod 64 < 64"
    "code a mod 4 * 16 < 64" "code b mod 16 * 4 < 64"
    using m d by linarith+
qed

lemmas alphabet_simps = sextet_alphabet [OF sextet_bounds(1)] sextet_alphabet [OF sextet_bounds(2)]
  sextet_alphabet [OF sextet_bounds(3)] sextet_alphabet [OF sextet_bounds(4)]
  sextet_alphabet [OF sextet_bounds(5)] sextet_alphabet [OF sextet_bounds(6)]

lemma sextet_join:
  "code b div 16 div 16 = 0" "code b div 16 mod 16 = code b div 16"
  "code c div 64 div 4 = 0" "code c div 64 mod 4 = code c div 64"
proof -
  have "code b div 16 < 16" "code c div 64 < 4"
    by (simp_all add: div_less_iff_less_mult)
  then show "code b div 16 div 16 = 0" "code b div 16 mod 16 = code b div 16"
    "code c div 64 div 4 = 0" "code c div 64 mod 4 = code c div 64"
    by simp_all
qed

lemma b64_groups_encode: "b64_groups (b64_encode std_alphabet True s) = Some s"
  by (induction std_alphabet True s rule: b64_encode.induct)
    (simp_all add: alphabet_simps sextet_join)

lemma b64_encode_no_break:
  "filter (\<lambda>c. c \<noteq> CHR 0x0A \<and> c \<noteq> CHR 0x0D) (b64_encode std_alphabet True s) = b64_encode std_alphabet True s"
  by (induction std_alphabet True s rule: b64_encode.induct) (simp_all add: alphabet_simps)

lemma b64_decode_encode: "b64_decode (b64_encode std_alphabet True s) = Some s"
  by (simp add: b64_decode_def b64_encode_no_break b64_groups_encode)

lemma length_b64_encode_raw: "length (b64_encode al False s) = (4 * length s + 2) div 3"
  by (induction al False s rule: b64_encode.induct) auto

lemma set_b64_encode_raw:
  "length al = 64 \<Longrightarrow> set (b64_encode al False s) \<subseteq> set al"
  by (induction al False s rule: b64_encode.induct) (simp_all add: sextet_bounds nth_mem)

section \<open>SHA-256\<close>

type_synonym u32 = "32 word"
type_synonym sha_state = "u32 \<times> u32 \<times> u32 \<times> u32 \<times> u32 \<times> u32 \<times> u32 \<times> u32"

definition sha_k :: "u32 list" where
  "sha_k =
    [1116352408, 1899447441, 3049323471, 3921009573, 961987163, 1508970993, 2453635748, 2870763221,
     3624381080, 310598401, 607225278, 1426881987, 1925078388, 2162078206, 2614888103, 3248222580,
     3835390401, 4022224774, 264347078, 604807628, 770255983, 1249150122, 1555081692, 1996064986,
     2554220882, 2821834349, 2952996808, 3210313671, 3336571891, 3584528711, 113926993, 338241895,
     666307205, 773529912, 1294757372, 1396182291, 1695183700, 1986661051, 2177026350, 2456956037,
     2730485921, 2820302411, 3259730800, 3345764771, 3516065817, 3600352804, 4094571909, 275423344,
     430227734, 506948616, 659060556, 883997877, 958139571, 1322822218, 1537002063, 1747873779,
     1955562222, 2024104815, 2227730452, 2361852424, 2428436474, 2756734187, 3204031479, 3329325298]"

definition sha_init :: sha_state where
  "sha_init = (0x6a09e667, 0xbb67ae85, 0x3c6ef372, 0xa54ff53a, 0x510e527f, 0x9b05688c, 0x1f83d9ab, 0x5be0cd19)"

definition sha_pad :: "string \<Rightarrow> nat list" where
  "sha_pad s =
     (let n = length s
      in map code s @ [128] @ replicate ((119 - n mod 64) mod 64) 0
         @ map (\<lambda>i. 8 * n div 256 ^ (7 - i) mod 256) [0..<8])"

fun be_words :: "nat list \<Rightarrow> u32 list" where
  "be_words (a # b # c # d # rest) =
     of_nat (((a * 256 + b) * 256 + c) * 256 + d) # be_words rest"
| "be_words _ = []"

fun sha_extend :: "nat \<Rightarrow> u32 list \<Rightarrow> u32 list" where
  "sha_extend 0 w = w"
| "sha_extend (Suc n) w =
     (let i = length w;
          x = w ! (i - 15);
          y = w ! (i - 2);
          s0 = word_rotr 7 x XOR word_rotr 18 x XOR drop_bit 3 x;
          s1 = word_rotr 17 y XOR word_rotr 19 y XOR drop_bit 10 y
      in sha_extend n (w @ [w ! (i - 16) + s0 + w ! (i - 7) + s1]))"

fun sha_rounds :: "(u32 \<times> u32) list \<Rightarrow> sha_state \<Rightarrow> sha_state" where
  "sha_rounds [] st = st"
| "sha_rounds ((k, w) # kws) (a, b, c, d, e, f, g, h) =
     (let s1 = word_rotr 6 e XOR word_rotr 11 e XOR word_rotr 25 e;
          ch = (e AND f) XOR (NOT e AND g);
          t1 = h + s1 + ch + k + w;
          s0 = word_rotr 2 a XOR word_rotr 13 a XOR word_rotr 22 a;
          maj = (a AND b) XOR (a AND c) XOR (b AND c);
          t2 = s0 + maj
      in sha_rounds kws (t1 + t2, a, b, c, d + t1, e, f, g))"

definition sha_block :: "u32 list \<Rightarrow> sha_state \<Rightarrow> sha_state" where
  "sha_block w st =
     (let (a, b, c, d, e, f, g, h) = st;
          (a', b', c', d', e', f', g', h') = sha_rounds (zip sha_k (sha_extend 48 w)) st
      in (a + a', b + b', c + c', d + d', e + e', f + f', g + g', h + h'))"

function sha_blocks :: "u32 list \<Rightarrow> sha_state \<Rightarrow> sha_state" where
  "sha_blocks ws st =
     (if length ws < 16 then st else sha_blocks (drop 16 ws) (sha_block (take 16 ws) st))"
  by pat_completeness auto
termination
  by (relation "measure (\<lambda>(ws, st). length ws)") auto

declare sha_blocks.simps [simp del]

definition be_bytes :: "u32 \<Rightarrow> string" where
  "be_bytes w = map (\<lambda>i. byte (unat w div 256 ^ i mod 256)) [3, 2, 1, 0]"

definition sha256 :: "string \<Rightarrow> string" where
  "sha256 s =
     (let (a, b, c, d, e, f, g, h) = sha_blocks (be_words (sha_pad s)) sha_init
      in concat (map be_bytes [a, b, c, d, e, f, g, h]))"

lemma length_sha256 [simp]: "length (sha256 s) = 32"
  by (simp add: sha256_def be_bytes_def split: prod.split)

section \<open>Tokens\<close>

type_synonym token = string

definition TokenBytes :: nat where "TokenBytes = 32"

text \<open>\<open>Generate\<close>: the randomness is the argument, \<open>None\<close> when the system source failed.\<close>

datatype auth_error = GenerateFailed

definition Generate :: "string option \<Rightarrow> auth_error + token" where
  "Generate rnd = (case rnd of
     None \<Rightarrow> Inl GenerateFailed
   | Some b \<Rightarrow> Inr (b64_encode url_alphabet False (take TokenBytes b)))"

definition Token_Hash :: "token \<Rightarrow> string" where
  "Token_Hash t = sha256 t"

text \<open>The request's \<open>Authorization\<close> header; \<open>Header.Get\<close> gives the empty string when it is absent.\<close>

definition cutPrefixFold :: "string \<Rightarrow> string \<Rightarrow> string option" where
  "cutPrefixFold s prefix =
     (if length s < length prefix \<or> to_lower (take (length prefix) s) \<noteq> to_lower prefix then None
      else Some (drop (length prefix) s))"

fun cut_colon :: "string \<Rightarrow> (string \<times> string) option" where
  "cut_colon [] = None"
| "cut_colon (c # cs) =
     (if c = CHR '':'' then Some ([], cs)
      else (case cut_colon cs of None \<Rightarrow> None | Some (u, p) \<Rightarrow> Some (c # u, p)))"

definition BasicAuth :: "string \<Rightarrow> (string \<times> string) option" where
  "BasicAuth header =
     (if header = [] then None
      else case cutPrefixFold header ''Basic '' of
        None \<Rightarrow> None
      | Some enc \<Rightarrow> (case b64_decode enc of None \<Rightarrow> None | Some cs \<Rightarrow> cut_colon cs))"

definition FromRequest :: "string \<Rightarrow> token option" where
  "FromRequest header =
     (let h = TrimSpace header
      in if h = [] then None
         else case cutPrefixFold h ''Bearer '' of
           Some rest \<Rightarrow> (let t = TrimSpace rest in if t = [] then None else Some t)
         | None \<Rightarrow>
             (case BasicAuth header of
                Some (user, pass) \<Rightarrow> (if pass = [] then None else Some pass)
              | None \<Rightarrow> None))"

section \<open>Properties\<close>

lemma url_alphabet_visible: "list_all (\<lambda>c. visible c) url_alphabet"
  by code_simp

lemma length_alphabets: "length url_alphabet = 64" "length std_alphabet = 64"
  by (simp_all add: url_alphabet_def std_alphabet_def)

lemma Generate_visible: "Generate rnd = Inr t \<Longrightarrow> c \<in> set t \<Longrightarrow> visible c"
  using set_b64_encode_raw [OF length_alphabets(1)] url_alphabet_visible
  by (auto simp: Generate_def list_all_iff split: option.splits)

lemma Generate_length:
  "Generate (Some b) = Inr t \<Longrightarrow> length b = TokenBytes \<Longrightarrow> length t = 43"
  by (auto simp: Generate_def length_b64_encode_raw TokenBytes_def)

lemma visible_ends: "t \<noteq> [] \<Longrightarrow> \<forall>c \<in> set t. visible c \<Longrightarrow> visible (hd t) \<and> visible (last t)"
  by simp

lemma TrimSpace_space_first: "t \<noteq> [] \<Longrightarrow> visible (hd t) \<Longrightarrow> visible (last t) \<Longrightarrow> TrimSpace (CHR '' '' # t) = t"
  using TrimSpace_padded [of "'' ''" "[]" t] by (simp add: ascii_space_def)

text \<open>A token of visible characters is read back from either scheme.\<close>

lemma FromRequest_bearer:
  assumes "t \<noteq> []" "\<forall>c \<in> set t. visible c"
  shows "FromRequest (''Bearer '' @ t) = Some t"
proof -
  have v: "visible (hd t)" "visible (last t)" using visible_ends [OF assms] by simp_all
  have "TrimSpace (''Bearer '' @ t) = ''Bearer '' @ t"
    using assms(1) v(2) by (intro TrimSpace_visible) (simp_all add: visible_def)
  moreover have "TrimSpace t = t" using assms(1) v by (rule TrimSpace_visible)
  ultimately show ?thesis using assms(1) by (simp add: FromRequest_def cutPrefixFold_def Let_def)
qed

lemma cut_colon_append: "CHR '':'' \<notin> set u \<Longrightarrow> cut_colon (u @ CHR '':'' # p) = Some (u, p)"
  by (induction u) auto

lemma visible_b64_std: "set (b64_encode std_alphabet True s) \<subseteq> Collect visible"
proof -
  have "list_all visible std_alphabet" by code_simp
  then have "visible (std_alphabet ! i)" if "i < 64" for i
    using that length_alphabets(2) by (metis list_all_length)
  moreover have "visible (CHR ''='')" by (simp add: visible_def)
  ultimately show ?thesis
    by (induction std_alphabet True s rule: b64_encode.induct) (simp_all add: sextet_bounds)
qed

lemma b64_std_nonempty: "s \<noteq> [] \<Longrightarrow> b64_encode std_alphabet True s \<noteq> []"
  by (cases "(std_alphabet, True, s)" rule: b64_encode.cases) simp_all

lemma FromRequest_basic:
  assumes "t \<noteq> []" "CHR '':'' \<notin> set user"
  shows "FromRequest (''Basic '' @ b64_encode std_alphabet True (user @ CHR '':'' # t)) = Some t"
    (is "FromRequest ?h = _")
proof -
  let ?e = "b64_encode std_alphabet True (user @ CHR '':'' # t)"
  have ne: "?e \<noteq> []" by (rule b64_std_nonempty) simp
  then have "visible (last ?e)" using visible_b64_std last_in_set by blast
  then have trim: "TrimSpace ?h = ?h"
    using ne by (intro TrimSpace_visible) (simp_all add: visible_def)
  have nb: "cutPrefixFold ?h ''Bearer '' = None"
    by (simp add: cutPrefixFold_def to_lower_def ascii_lower_def Let_def)
  have ba: "BasicAuth ?h = Some (user, t)"
    using cut_colon_append [OF assms(2)] by (simp add: BasicAuth_def cutPrefixFold_def b64_decode_encode)
  show ?thesis unfolding FromRequest_def Let_def trim nb ba using assms(1) by simp
qed

lemma FromRequest_nonempty: "FromRequest h = Some t \<Longrightarrow> t \<noteq> []"
  by (auto simp: FromRequest_def Let_def split: option.splits if_splits)

lemma FromRequest_blank: "\<forall>c \<in> set h. ascii_space c \<Longrightarrow> FromRequest h = None"
  by (simp add: FromRequest_def TrimSpace_blank)

end
