(* ===== verification/Ledger.thy ===== *)
theory Ledger
  imports Auth
begin

text \<open>
  Delivery accounting (\<open>internal/push/ledger.go\<close>): which collapse keys are pending at which push
  endpoint. The Go mutex makes every operation atomic, so each is a function on the ledger. The theorem
  shows that no sequence of operations exceeds the documented bounds.
\<close>

datatype DeliveryOutcome = OutcomeHandedOver | OutcomeBeyondCollapseBound | OutcomeDropped

definition CollapseKeyBound :: nat where "CollapseKeyBound = 4"
definition maxTrackedEndpoints :: nat where "maxTrackedEndpoints = 4096"
definition endpointDigestBytes :: nat where "endpointDigestBytes = 8"

text \<open>An endpoint is a provider and a routing address.\<close>

type_synonym endpointKey = "string \<times> string"

definition hex_digit :: "nat \<Rightarrow> char" where
  "hex_digit n = (if n < 10 then char_of (48 + n) else char_of (87 + n))"

definition hex_encode :: "string \<Rightarrow> string" where
  "hex_encode s = concat (map (\<lambda>c. [hex_digit (of_char c div 16), hex_digit (of_char c mod 16)]) s)"

definition EndpointDigest :: "string \<Rightarrow> string \<Rightarrow> string" where
  "EndpointDigest provider token =
     (if token = [] then [] else hex_encode (take endpointDigestBytes (sha256 (provider @ '':'' @ token))))"

text \<open>The inner map from collapse key to count is an association list with distinct keys.\<close>

record ledger =
  pend :: "endpointKey \<Rightarrow> (string \<times> nat) list option"
  order :: "endpointKey list"

definition NewDeliveryLedger :: ledger where
  "NewDeliveryLedger = \<lparr>pend = (\<lambda>_. None), order = []\<rparr>"

fun evict_loop :: "endpointKey list \<Rightarrow> (endpointKey \<Rightarrow> (string \<times> nat) list option) \<Rightarrow> ledger" where
  "evict_loop [] p = \<lparr>pend = p, order = []\<rparr>"
| "evict_loop (e # es) p =
     (if maxTrackedEndpoints < length (e # es) then evict_loop es (p(e := None)) else \<lparr>pend = p, order = e # es\<rparr>)"

definition evictLocked :: "ledger \<Rightarrow> ledger" where
  "evictLocked l = evict_loop (order l) (pend l)"

fun bump :: "string \<Rightarrow> (string \<times> nat) list \<Rightarrow> (string \<times> nat) list" where
  "bump k [] = [(k, 1)]"
| "bump k ((k', n) # ks) = (if k = k' then (k', n + 1) # ks else (k', n) # bump k ks)"

fun unbump :: "string \<Rightarrow> (string \<times> nat) list \<Rightarrow> (string \<times> nat) list" where
  "unbump k [] = []"
| "unbump k ((k', n) # ks) = (if k = k' then (if n \<le> 1 then ks else (k', n - 1) # ks) else (k', n) # unbump k ks)"

text \<open>
  In Go the fresh inner map stays referenced by \<open>Classify\<close> even if eviction removed it from the outer
  map; the newest endpoint is the last to be evicted, so that cannot happen with a positive bound.
\<close>

definition Classify :: "endpointKey \<Rightarrow> string \<Rightarrow> ledger \<Rightarrow> DeliveryOutcome \<times> ledger" where
  "Classify e collapseKey l =
     (let l1 = (case pend l e of
                  Some _ \<Rightarrow> l
                | None \<Rightarrow> evictLocked (l\<lparr>pend := (pend l)(e := Some []), order := order l @ [e]\<rparr>));
          keys = (case pend l1 e of Some ks \<Rightarrow> ks | None \<Rightarrow> [])
      in if CollapseKeyBound \<le> length keys then (OutcomeBeyondCollapseBound, l1)
         else (OutcomeHandedOver, l1\<lparr>pend := (pend l1)(e := Some (bump collapseKey keys))\<rparr>))"

definition NotHandedOver :: "endpointKey \<Rightarrow> string \<Rightarrow> ledger \<Rightarrow> ledger" where
  "NotHandedOver e collapseKey l =
     (case pend l e of None \<Rightarrow> l | Some ks \<Rightarrow> l\<lparr>pend := (pend l)(e := Some (unbump collapseKey ks))\<rparr>)"

definition forget :: "endpointKey \<Rightarrow> ledger \<Rightarrow> ledger" where
  "forget e l = (case pend l e of None \<Rightarrow> l | Some _ \<Rightarrow> l\<lparr>pend := (pend l)(e := None), order := remove1 e (order l)\<rparr>)"

definition Ledger_EndpointRegistered :: "string \<Rightarrow> string \<Rightarrow> ledger \<Rightarrow> ledger" where
  "Ledger_EndpointRegistered provider token l = forget (provider, token) l"

definition Ledger_EndpointRemoved :: "string \<Rightarrow> string \<Rightarrow> ledger \<Rightarrow> ledger" where
  "Ledger_EndpointRemoved provider token l = forget (provider, token) l"

definition PendingKeys :: "string \<Rightarrow> string \<Rightarrow> ledger \<Rightarrow> nat" where
  "PendingKeys provider token l = (case pend l (provider, token) of None \<Rightarrow> 0 | Some ks \<Rightarrow> length ks)"

definition Reset :: "ledger \<Rightarrow> ledger" where "Reset l = \<lparr>pend = (\<lambda>_. None), order = []\<rparr>"

section \<open>Bounds\<close>

definition keys_ok :: "(string \<times> nat) list \<Rightarrow> bool" where
  "keys_ok ks \<longleftrightarrow> distinct (map fst ks) \<and> (\<forall>p \<in> set ks. 0 < snd p)"

definition pend_ok :: "(endpointKey \<Rightarrow> (string \<times> nat) list option) \<Rightarrow> bool" where
  "pend_ok p \<longleftrightarrow> (\<forall>e ks. p e = Some ks \<longrightarrow> keys_ok ks \<and> length ks \<le> CollapseKeyBound)"

definition ledger_ok :: "ledger \<Rightarrow> bool" where
  "ledger_ok l \<longleftrightarrow> distinct (order l) \<and> set (order l) = dom (pend l) \<and> length (order l) \<le> maxTrackedEndpoints \<and> pend_ok (pend l)"

lemma pend_ok_upd: "pend_ok p \<Longrightarrow> (\<And>ks. v = Some ks \<Longrightarrow> keys_ok ks \<and> length ks \<le> CollapseKeyBound) \<Longrightarrow> pend_ok (p(e := v))"
  by (simp add: pend_ok_def)

lemma fst_bump: "fst ` set (bump k ks) = insert k (fst ` set ks)"
proof (induction ks)
  case (Cons p ks)
  then show ?case by (cases p) auto
qed simp

lemma keys_ok_bump: "keys_ok ks \<Longrightarrow> keys_ok (bump k ks)"
proof (induction ks)
  case (Cons p ks)
  then show ?case using fst_bump [of k ks] by (cases p) (auto simp: keys_ok_def)
qed (simp add: keys_ok_def)

lemma length_bump: "length (bump k ks) \<le> Suc (length ks)"
proof (induction ks)
  case (Cons p ks)
  then show ?case by (cases p) auto
qed simp

lemma fst_unbump: "fst ` set (unbump k ks) \<subseteq> fst ` set ks"
proof (induction ks)
  case (Cons p ks)
  then show ?case by (cases p) auto
qed simp

lemma length_unbump: "length (unbump k ks) \<le> length ks"
proof (induction ks)
  case (Cons p ks)
  then show ?case by (cases p) auto
qed simp

lemma keys_ok_unbump: "keys_ok ks \<Longrightarrow> keys_ok (unbump k ks)"
proof (induction ks)
  case (Cons p ks)
  then show ?case using fst_unbump [of k ks] by (cases p) (auto simp: keys_ok_def)
qed (simp add: keys_ok_def)

text \<open>How many hand-overs are pending for a key.\<close>

definition count_of :: "string \<Rightarrow> (string \<times> nat) list \<Rightarrow> nat" where
  "count_of k ks = (case map_of ks k of None \<Rightarrow> 0 | Some n \<Rightarrow> n)"

lemma count_of_Nil [simp]: "count_of k [] = 0" by (simp add: count_of_def)

lemma count_of_Cons [simp]: "count_of k ((a, n) # ks) = (if k = a then n else count_of k ks)"
  by (simp add: count_of_def)

lemma count_bump: "count_of k' (bump k ks) = count_of k' ks + (if k' = k then 1 else 0)"
proof (induction ks)
  case (Cons p ks)
  then show ?case by (cases p) auto
qed simp

lemma count_unbump: "keys_ok ks \<Longrightarrow> count_of k' (unbump k ks) = count_of k' ks - (if k' = k then 1 else 0)"
proof (induction ks)
  case (Cons p ks)
  obtain a n where p: "p = (a, n)" by (cases p)
  have no: "count_of a ks = 0"
    using Cons.prems p by (auto simp: keys_ok_def count_of_def split: option.splits dest!: map_of_SomeD) force
  have "keys_ok ks" using Cons.prems by (simp add: keys_ok_def)
  then show ?case using p no Cons by (cases "k = a") auto
qed simp

lemma evict_ok:
  assumes "distinct es" "set es = dom p" "pend_ok p"
  shows "ledger_ok (evict_loop es p)"
  using assms
proof (induction es arbitrary: p)
  case (Cons e es)
  show ?case
  proof (cases "maxTrackedEndpoints < length (e # es)")
    case True
    have "set es = dom (p(e := None))" using Cons.prems(1,2) by auto
    moreover have "pend_ok (p(e := None))" using Cons.prems(3) by (rule pend_ok_upd) simp
    moreover have "distinct es" using Cons.prems(1) by simp
    ultimately have "ledger_ok (evict_loop es (p(e := None)))" by (intro Cons.IH)
    then show ?thesis using True by simp
  next
    case False
    then show ?thesis using Cons.prems by (simp add: ledger_ok_def)
  qed
qed (simp add: ledger_ok_def)

lemma evict_last:
  assumes "es \<noteq> []" "distinct es"
  shows "pend (evict_loop es p) (last es) = p (last es)"
  using assms
proof (induction es arbitrary: p)
  case (Cons e es)
  show ?case
  proof (cases "maxTrackedEndpoints < length (e # es)")
    case True
    then have ne: "es \<noteq> []" by (auto simp: maxTrackedEndpoints_def)
    then have "e \<noteq> last es" using Cons.prems(2) by (metis distinct.simps(2) last_in_set)
    moreover have "pend (evict_loop es (p(e := None))) (last es) = (p(e := None)) (last es)"
      using ne Cons.prems(2) by (intro Cons.IH) simp_all
    ultimately show ?thesis using True ne by simp
  qed simp
qed simp

lemma evict_none: "length es \<le> maxTrackedEndpoints \<Longrightarrow> evict_loop es p = \<lparr>pend = p, order = es\<rparr>"
  by (cases es) simp_all

definition track :: "endpointKey \<Rightarrow> ledger \<Rightarrow> ledger" where
  "track e l = (case pend l e of
                  Some _ \<Rightarrow> l
                | None \<Rightarrow> evictLocked (l\<lparr>pend := (pend l)(e := Some []), order := order l @ [e]\<rparr>))"

lemma track_ok: "ledger_ok l \<Longrightarrow> ledger_ok (track e l)"
proof (cases "pend l e")
  case None
  assume ok: "ledger_ok l"
  have "e \<notin> set (order l)" using ok None by (auto simp: ledger_ok_def)
  moreover have "pend_ok ((pend l)(e := Some []))"
    using ok by (intro pend_ok_upd) (auto simp: ledger_ok_def keys_ok_def)
  ultimately show ?thesis
    using ok None evict_ok [of "order l @ [e]" "(pend l)(e := Some [])"]
    by (simp add: track_def evictLocked_def ledger_ok_def)
qed (simp add: track_def)

lemma track_tracked: "ledger_ok l \<Longrightarrow> pend (track e l) e = Some (case pend l e of Some ks \<Rightarrow> ks | None \<Rightarrow> [])"
proof (cases "pend l e")
  case None
  assume ok: "ledger_ok l"
  have "e \<notin> set (order l)" using ok None by (auto simp: ledger_ok_def)
  then have "distinct (order l @ [e])" using ok by (simp add: ledger_ok_def)
  then show ?thesis using None evict_last [of "order l @ [e]" "(pend l)(e := Some [])"] by (simp add: track_def evictLocked_def)
qed (simp add: track_def)

lemma Classify_track:
  "Classify e k l =
     (let l1 = track e l; keys = (case pend l1 e of Some ks \<Rightarrow> ks | None \<Rightarrow> [])
      in if CollapseKeyBound \<le> length keys then (OutcomeBeyondCollapseBound, l1)
         else (OutcomeHandedOver, l1\<lparr>pend := (pend l1)(e := Some (bump k keys))\<rparr>))"
  by (simp add: Classify_def track_def Let_def)

lemma ledger_ok_upd:
  assumes "ledger_ok l" "pend l e \<noteq> None" "keys_ok ks" "length ks \<le> CollapseKeyBound"
  shows "ledger_ok (l\<lparr>pend := (pend l)(e := Some ks)\<rparr>)"
proof -
  have "dom ((pend l)(e := Some ks)) = dom (pend l)" using assms(2) by auto
  moreover have "pend_ok ((pend l)(e := Some ks))"
    using assms by (intro pend_ok_upd) (auto simp: ledger_ok_def)
  ultimately show ?thesis using assms(1) by (simp add: ledger_ok_def)
qed

lemma ledger_okD: "ledger_ok l \<Longrightarrow> pend l e = Some ks \<Longrightarrow> keys_ok ks \<and> length ks \<le> CollapseKeyBound"
  unfolding ledger_ok_def pend_ok_def by blast

lemma Classify_ok: "ledger_ok l \<Longrightarrow> ledger_ok (snd (Classify e k l))"
proof -
  assume ok: "ledger_ok l"
  obtain ks where ks: "pend (track e l) e = Some ks" using track_tracked [OF ok] by blast
  have t: "ledger_ok (track e l)" using track_ok [OF ok] .
  show ?thesis
  proof (cases "CollapseKeyBound \<le> length ks")
    case True
    then show ?thesis using t ks by (simp add: Classify_track Let_def)
  next
    case False
    then have "ledger_ok ((track e l)\<lparr>pend := (pend (track e l))(e := Some (bump k ks))\<rparr>)"
      using ledger_okD [OF t ks] length_bump [of k ks] ks by (intro ledger_ok_upd [OF t]) (auto simp: keys_ok_bump)
    then show ?thesis using ks False by (simp add: Classify_track Let_def)
  qed
qed

lemma NotHandedOver_ok: "ledger_ok l \<Longrightarrow> ledger_ok (NotHandedOver e k l)"
proof (cases "pend l e")
  case (Some ks)
  assume ok: "ledger_ok l"
  have "ledger_ok (l\<lparr>pend := (pend l)(e := Some (unbump k ks))\<rparr>)"
    using ledger_okD [OF ok Some] length_unbump [of k ks] Some
    by (intro ledger_ok_upd [OF ok]) (auto simp: keys_ok_unbump)
  then show ?thesis using Some by (simp add: NotHandedOver_def)
qed (simp add: NotHandedOver_def)

lemma forget_ok: "ledger_ok l \<Longrightarrow> ledger_ok (forget e l)"
proof (cases "pend l e")
  case (Some ks)
  assume ok: "ledger_ok l"
  have "pend_ok ((pend l)(e := None))" using ok by (intro pend_ok_upd) (simp_all add: ledger_ok_def)
  moreover have "set (remove1 e (order l)) = dom ((pend l)(e := None))"
    using ok by (auto simp: ledger_ok_def)
  moreover have "length (remove1 e (order l)) \<le> maxTrackedEndpoints"
    using ok by (auto simp: ledger_ok_def length_remove1)
  ultimately show ?thesis using ok Some by (simp add: forget_def ledger_ok_def)
qed (simp add: forget_def)

text \<open>The ledger as a state machine: any interleaving of the operations of the server's goroutines.\<close>

inductive ledger_step :: "ledger \<Rightarrow> ledger \<Rightarrow> bool" where
  classify: "ledger_step l (snd (Classify e k l))"
| not_handed_over: "ledger_step l (NotHandedOver e k l)"
| registered: "ledger_step l (Ledger_EndpointRegistered p t l)"
| removed: "ledger_step l (Ledger_EndpointRemoved p t l)"
| reset: "ledger_step l (Reset l)"

lemma ledger_step_ok: "ledger_step l l' \<Longrightarrow> ledger_ok l \<Longrightarrow> ledger_ok l'"
proof (induction rule: ledger_step.induct)
  case (reset l)
  then show ?case by (simp add: Reset_def ledger_ok_def pend_ok_def)
qed (simp_all add: Classify_ok NotHandedOver_ok forget_ok Ledger_EndpointRegistered_def Ledger_EndpointRemoved_def)

lemma ledger_reachable_ok: "ledger_step\<^sup>*\<^sup>* l l' \<Longrightarrow> ledger_ok l \<Longrightarrow> ledger_ok l'"
  by (induction rule: rtranclp_induct) (simp_all add: ledger_step_ok)

text \<open>
  C24: However the server's goroutines interleave their calls, the ledger tracks at most 4096 endpoints
  and at most four distinct collapse keys per endpoint, and every crossing handed to an endpoint that
  already has four keys pending is classified as beyond the collapse bound.
\<close>

theorem ledger_bounded:
  assumes "ledger_step\<^sup>*\<^sup>* NewDeliveryLedger l"
  shows "card (dom (pend l)) \<le> 4096 \<and> PendingKeys p t l \<le> 4
    \<and> (PendingKeys p t l = 4 \<longrightarrow> fst (Classify (p, t) k l) = OutcomeBeyondCollapseBound)"
proof -
  have ok: "ledger_ok l"
    using ledger_reachable_ok [OF assms] by (simp add: NewDeliveryLedger_def ledger_ok_def pend_ok_def maxTrackedEndpoints_def)
  then have "card (dom (pend l)) \<le> 4096"
    using distinct_card [of "order l"] by (simp add: ledger_ok_def maxTrackedEndpoints_def)
  moreover have "PendingKeys p t l \<le> 4" using ledger_okD [OF ok] by (auto simp: PendingKeys_def CollapseKeyBound_def split: option.splits)
  moreover have "fst (Classify (p, t) k l) = OutcomeBeyondCollapseBound" if "PendingKeys p t l = 4"
    using that by (auto simp: PendingKeys_def Classify_def CollapseKeyBound_def split: option.splits)
  ultimately show ?thesis by blast
qed

theorem ledger_bounded_witness:
  "PendingKeys ''fcm'' ''tok'' (snd (Classify (''fcm'', ''tok'') ''gf:a:b'' NewDeliveryLedger)) \<le> 4
   \<and> PendingKeys ''fcm'' ''tok'' (snd (Classify (''fcm'', ''tok'') ''gf:a:b'' NewDeliveryLedger)) = 1"
proof -
  have "ledger_step\<^sup>*\<^sup>* NewDeliveryLedger (snd (Classify (''fcm'', ''tok'') ''gf:a:b'' NewDeliveryLedger))"
    by (rule r_into_rtranclp) (rule classify)
  moreover have "PendingKeys ''fcm'' ''tok'' (snd (Classify (''fcm'', ''tok'') ''gf:a:b'' NewDeliveryLedger)) = 1"
    by (simp add: Classify_def NewDeliveryLedger_def evictLocked_def maxTrackedEndpoints_def CollapseKeyBound_def PendingKeys_def)
  ultimately show ?thesis using ledger_bounded by blast
qed

end
