(* ===== verification/Dispatcher.thy ===== *)
theory Dispatcher
  imports Registry Ledger
begin

text \<open>
  Delivering pushes (\<open>internal/push/push.go\<close>, \<open>internal/push/notify.go\<close>, \<open>Record\<close> of
  \<open>internal/push/ledger.go\<close>): the notification a crossing becomes, the fan-out over a family's
  endpoints, the bounded queue, the worker with its retries, and shutdown. A backend is an arbitrary
  function of the calls made so far; the worker is the only caller, so calls are ordered. Goroutines
  interleave in the step relation \<open>push_step\<close>, whose steps are the same functions the sequential
  operations are built from.
\<close>

section \<open>Notifications\<close>

record Subscription =
  Sub_Provider :: string
  Sub_Token :: string

record Notification =
  Title :: string
  Body :: string
  CollapseKey :: string
  Data :: "string \<Rightarrow> string option"

record Delivery =
  Sub :: Subscription
  Note :: Notification
  Bound :: "DeliveryOutcome option"

definition boundOrDefault :: "Delivery \<Rightarrow> DeliveryOutcome" where
  "boundOrDefault del = (case Bound del of None \<Rightarrow> OutcomeHandedOver | Some b \<Rightarrow> b)"

text \<open>\<open>t.UTC().Format("2006-01-02T15:04:05Z")\<close>; the layout pads the digits of the year, not its sign.\<close>

definition pad_digits :: "nat \<Rightarrow> int \<Rightarrow> string" where
  "pad_digits w n =
     (let s = show_nat (nat \<bar>n\<bar>)
      in (if n < 0 then ''-'' else []) @ replicate (w - length s) (CHR ''0'') @ s)"

definition format_utc :: "instant \<Rightarrow> string" where
  "format_utc t =
     (let m = month_of t; dd = t div day - month_begin_day m + 1; s = t mod day div second
      in pad_digits 4 (m div 12) @ ''-'' @ pad_digits 2 (m mod 12 + 1) @ ''-'' @ pad_digits 2 dd @ ''T'' @
         pad_digits 2 (s div 3600) @ '':'' @ pad_digits 2 (s div 60 mod 60) @ '':'' @ pad_digits 2 (s mod 60) @ ''Z'')"

definition buildNotification :: "Device \<Rightarrow> GeofenceEvent \<Rightarrow> Notification" where
  "buildNotification dev e =
     (let verb = (if GE_Transition e = ''enter'' then ''arrived at'' else ''left'')
      in \<lparr>Title = Device_Name dev,
          Body = Device_Name dev @ '' '' @ verb @ '' '' @ GE_GeofenceName e,
          CollapseKey = ''gf:'' @ Device_ID dev @ '':'' @ GE_GeofenceID e,
          Data = [''type'' \<mapsto> ''geofence'', ''device_id'' \<mapsto> Device_ID dev, ''place_id'' \<mapsto> GE_GeofenceID e,
            ''place_name'' \<mapsto> GE_GeofenceName e, ''transition'' \<mapsto> GE_Transition e, ''ts'' \<mapsto> format_utc (GE_FixTS e)]\<rparr>)"

section \<open>The dispatcher\<close>

type_synonym sender = "Delivery list \<Rightarrow> Delivery \<Rightarrow> string option"

record dispatcher =
  senders :: "string \<Rightarrow> sender option"
  queue :: "Delivery list"
  capacity :: nat
  maxAttempts :: int
  backoff :: duration
  disp_ledger :: ledger
  dropped :: int
  calls :: "Delivery list"
  outcomes :: "(Delivery \<times> DeliveryOutcome \<times> string) list"

definition DefaultMaxPending :: nat where "DefaultMaxPending = 100"
definition defaultMaxAttempts :: int where "defaultMaxAttempts = 3"
definition defaultRetryBackoff :: duration where "defaultRetryBackoff = 200000000"

definition WithMaxPending :: "int \<Rightarrow> dispatcher \<Rightarrow> dispatcher" where
  "WithMaxPending n D = D\<lparr>queue := [], capacity := nat (if n < 1 then 1 else n)\<rparr>"

definition WithMaxAttempts :: "int \<Rightarrow> dispatcher \<Rightarrow> dispatcher" where
  "WithMaxAttempts n D = D\<lparr>maxAttempts := (if n < 1 then 1 else n)\<rparr>"

definition WithRetryBackoff :: "duration \<Rightarrow> dispatcher \<Rightarrow> dispatcher" where
  "WithRetryBackoff b D = D\<lparr>backoff := b\<rparr>"

definition NewDispatcher :: "(string \<Rightarrow> sender option) \<Rightarrow> (dispatcher \<Rightarrow> dispatcher) list \<Rightarrow> dispatcher" where
  "NewDispatcher snds opts =
     fold (\<lambda>opt D. opt D) opts
       \<lparr>senders = snds, queue = [], capacity = DefaultMaxPending, maxAttempts = defaultMaxAttempts,
        backoff = defaultRetryBackoff, disp_ledger = NewDeliveryLedger, dropped = 0, calls = [], outcomes = []\<rparr>"

text \<open>\<open>Record\<close>: the attributes of the line the operator reads, and the list of lines written.\<close>

definition DeliveryOutcomeMessage :: string where "DeliveryOutcomeMessage = ''push.delivery.outcome''"

fun outcome_token :: "DeliveryOutcome \<Rightarrow> string" where
  "outcome_token OutcomeHandedOver = ''handed-over''"
| "outcome_token OutcomeBeyondCollapseBound = ''beyond-collapse-bound''"
| "outcome_token OutcomeDropped = ''dropped''"

definition data_field :: "Delivery \<Rightarrow> string \<Rightarrow> string" where
  "data_field del k = (case Data (Note del) k of None \<Rightarrow> [] | Some v \<Rightarrow> v)"

definition outcome_line :: "Delivery \<Rightarrow> DeliveryOutcome \<Rightarrow> string \<Rightarrow> string \<times> (string \<times> string) list" where
  "outcome_line del outcome reason =
     (DeliveryOutcomeMessage,
      [(''outcome'', outcome_token outcome), (''provider'', Sub_Provider (Sub del)),
       (''endpoint'', EndpointDigest (Sub_Provider (Sub del)) (Sub_Token (Sub del))),
       (''collapse_key'', CollapseKey (Note del)), (''device_id'', data_field del ''device_id''),
       (''place_id'', data_field del ''place_id''), (''transition'', data_field del ''transition''),
       (''ts'', data_field del ''ts'')] @ (if reason \<noteq> [] then [(''reason'', reason)] else []))"

definition Record :: "Delivery \<Rightarrow> DeliveryOutcome \<Rightarrow> string \<Rightarrow> dispatcher \<Rightarrow> dispatcher" where
  "Record del outcome reason D = D\<lparr>outcomes := outcomes D @ [(del, outcome, reason)]\<rparr>"

definition endpoint :: "Delivery \<Rightarrow> endpointKey" where
  "endpoint del = (Sub_Provider (Sub del), Sub_Token (Sub del))"

definition disp_notHandedOver :: "Delivery \<Rightarrow> dispatcher \<Rightarrow> dispatcher" where
  "disp_notHandedOver del D =
     (if boundOrDefault del \<noteq> OutcomeHandedOver then D
      else D\<lparr>disp_ledger := NotHandedOver (endpoint del) (CollapseKey (Note del)) (disp_ledger D)\<rparr>)"

definition queue_full :: string where "queue_full = ''queue full (pending cap reached)''"

definition offer :: "Delivery \<Rightarrow> dispatcher \<Rightarrow> dispatcher" where
  "offer del D =
     (if length (queue D) < capacity D then D\<lparr>queue := queue D @ [del]\<rparr>
      else Record del OutcomeDropped queue_full (disp_notHandedOver del (D\<lparr>dropped := wrap64 (dropped D + 1)\<rparr>)))"

definition Enqueue :: "Delivery list \<Rightarrow> dispatcher \<Rightarrow> dispatcher" where
  "Enqueue deliveries D = fold offer deliveries D"

text \<open>One iteration of the retry loop of \<open>deliver\<close>; the first component is the next attempt, if any.\<close>

definition attempt_step :: "Delivery \<Rightarrow> int \<Rightarrow> dispatcher \<Rightarrow> int option \<times> dispatcher" where
  "attempt_step del attempt D =
     (case senders D (Sub_Provider (Sub del)) of
        None \<Rightarrow> (None, Record del OutcomeDropped ''no sender configured for provider'' (disp_notHandedOver del D))
      | Some send \<Rightarrow>
          if attempt \<le> maxAttempts D then
            (let D1 = D\<lparr>calls := calls D @ [del]\<rparr>
             in case send (calls D) del of
                  None \<Rightarrow> (None, Record del (boundOrDefault del) [] D1)
                | Some err \<Rightarrow>
                    if attempt = maxAttempts D
                    then (None, Record del OutcomeDropped ''retries exhausted'' (disp_notHandedOver del D1))
                    else (Some (attempt + 1), D1))
          else (None, D))"

lemma attempt_step_max: "attempt_step del k D = (r, D') \<Longrightarrow> maxAttempts D' = maxAttempts D"
  by (auto simp: attempt_step_def Record_def disp_notHandedOver_def Let_def split: option.splits if_splits)

lemma attempt_step_next: "attempt_step del k D = (Some k', D') \<Longrightarrow> k' = k + 1 \<and> k < maxAttempts D"
  by (auto simp: attempt_step_def Let_def split: option.splits if_splits)

lemma attempt_step_measure:
  "(Some k', D') = attempt_step del k D \<Longrightarrow> k < maxAttempts D \<and> maxAttempts D' - k' < maxAttempts D - k"
  using attempt_step_max [of del k D "Some k'" D'] attempt_step_next [of del k D k' D'] by simp

function deliver_loop :: "Delivery \<Rightarrow> int \<Rightarrow> dispatcher \<Rightarrow> dispatcher" where
  "deliver_loop del attempt D =
     (case attempt_step del attempt D of (None, D1) \<Rightarrow> D1 | (Some k, D1) \<Rightarrow> deliver_loop del k D1)"
  by pat_completeness auto
termination
  by (relation "measure (\<lambda>(del, k, D). nat (maxAttempts D - k))") (auto dest: attempt_step_measure)

declare deliver_loop.simps [simp del]

definition deliver :: "Delivery \<Rightarrow> dispatcher \<Rightarrow> dispatcher" where
  "deliver del D = deliver_loop del 1 D"

text \<open>\<open>Close\<close>: no more deliveries are accepted and the worker drains the queue.\<close>

fun drain :: "Delivery list \<Rightarrow> dispatcher \<Rightarrow> dispatcher" where
  "drain [] D = D\<lparr>queue := []\<rparr>"
| "drain (del # q) D = drain q (deliver del (D\<lparr>queue := q\<rparr>))"

definition Close :: "dispatcher \<Rightarrow> dispatcher" where
  "Close D = drain (queue D) D"

section \<open>The notifier\<close>

definition classify_one :: "Notification \<Rightarrow> PushSubscription \<Rightarrow> dispatcher \<Rightarrow> Delivery \<times> dispatcher" where
  "classify_one note s D =
     (case Classify (Ps_Provider s, Ps_Token s) (CollapseKey note) (disp_ledger D) of (bound, l) \<Rightarrow>
        (\<lparr>Sub = \<lparr>Sub_Provider = Ps_Provider s, Sub_Token = Ps_Token s\<rparr>, Note = note, Bound = Some bound\<rparr>,
         D\<lparr>disp_ledger := l\<rparr>))"

fun classify_all :: "(Notification \<times> PushSubscription) list \<Rightarrow> dispatcher \<Rightarrow> Delivery list \<times> dispatcher" where
  "classify_all [] D = ([], D)"
| "classify_all ((note, s) # rest) D =
     (case classify_one note s D of (del, D1) \<Rightarrow> case classify_all rest D1 of (dels, D2) \<Rightarrow> (del # dels, D2))"

definition fan_out :: "Device \<Rightarrow> GeofenceEvent list \<Rightarrow> PushSubscription list \<Rightarrow> (Notification \<times> PushSubscription) list" where
  "fan_out dev evs ss = concat (map (\<lambda>e. map (Pair (buildNotification dev e)) ss) evs)"

definition NotifyGeofenceEvents :: "pg \<Rightarrow> Device \<Rightarrow> GeofenceEvent list \<Rightarrow> db \<times> dispatcher \<Rightarrow> db \<times> dispatcher" where
  "NotifyGeofenceEvents pg dev evs w =
     (case w of (d, D) \<Rightarrow>
        if evs = [] then (d, D)
        else case PushSubscriptionsForFamily pg (Device_FamilyID dev) d of
               (Inl _, d1) \<Rightarrow> (d1, D)
             | (Inr ss, d1) \<Rightarrow>
                 if ss = [] then (d1, D)
                 else (case classify_all (fan_out dev evs ss) D of (dels, D1) \<Rightarrow> (d1, Enqueue dels D1)))"

definition Notifier_EndpointRegistered :: "string \<Rightarrow> string \<Rightarrow> dispatcher \<Rightarrow> dispatcher" where
  "Notifier_EndpointRegistered provider token D = D\<lparr>disp_ledger := Ledger_EndpointRegistered provider token (disp_ledger D)\<rparr>"

definition Notifier_EndpointRemoved :: "string \<Rightarrow> string \<Rightarrow> dispatcher \<Rightarrow> dispatcher" where
  "Notifier_EndpointRemoved provider token D = D\<lparr>disp_ledger := Ledger_EndpointRemoved provider token (disp_ledger D)\<rparr>"

section \<open>Interleaving\<close>

text \<open>
  The process: the dispatcher, what its worker is doing, and the notify calls in flight. A call first
  classifies every pair of crossing and endpoint, then offers the deliveries one by one. Other
  goroutines register and remove endpoints meanwhile. \<open>submitted\<close> lists every delivery ever made.
\<close>

record hand =
  todo :: "(Notification \<times> PushSubscription) list"
  held :: "Delivery list"

record push_state =
  disp :: dispatcher
  busy :: "(Delivery \<times> int) option"
  hands :: "hand list"
  submitted :: "Delivery list"

inductive push_step :: "push_state \<Rightarrow> push_state \<Rightarrow> bool" where
  start: "push_step s (s\<lparr>hands := hands s @ [\<lparr>todo = work, held = []\<rparr>]\<rparr>)"
| classify: "hands s = xs @ h # ys \<Longrightarrow> todo h = (note, sub) # rest \<Longrightarrow> classify_one note sub (disp s) = (del, D) \<Longrightarrow>
    push_step s (s\<lparr>disp := D, hands := xs @ h\<lparr>todo := rest, held := held h @ [del]\<rparr> # ys, submitted := submitted s @ [del]\<rparr>)"
| enqueue: "hands s = xs @ h # ys \<Longrightarrow> todo h = [] \<Longrightarrow> held h = del # rest \<Longrightarrow>
    push_step s (s\<lparr>disp := offer del (disp s), hands := xs @ h\<lparr>held := rest\<rparr> # ys\<rparr>)"
| finish: "hands s = xs @ h # ys \<Longrightarrow> todo h = [] \<Longrightarrow> held h = [] \<Longrightarrow> push_step s (s\<lparr>hands := xs @ ys\<rparr>)"
| receive: "busy s = None \<Longrightarrow> queue (disp s) = del # rest \<Longrightarrow>
    push_step s (s\<lparr>disp := disp s\<lparr>queue := rest\<rparr>, busy := Some (del, 1)\<rparr>)"
| attempt: "busy s = Some (del, k) \<Longrightarrow> attempt_step del k (disp s) = (next, D) \<Longrightarrow>
    push_step s (s\<lparr>disp := D, busy := map_option (Pair del) next\<rparr>)"
| registered: "push_step s (s\<lparr>disp := Notifier_EndpointRegistered p t (disp s)\<rparr>)"
| removed: "push_step s (s\<lparr>disp := Notifier_EndpointRemoved p t (disp s)\<rparr>)"

inductive_cases push_stepE: "push_step s s'"

definition push_init :: "(string \<Rightarrow> sender option) \<Rightarrow> (dispatcher \<Rightarrow> dispatcher) list \<Rightarrow> push_state" where
  "push_init snds opts = \<lparr>disp = NewDispatcher snds opts, busy = None, hands = [], submitted = []\<rparr>"

definition is_option :: "(dispatcher \<Rightarrow> dispatcher) \<Rightarrow> bool" where
  "is_option f \<longleftrightarrow> (\<exists>n. f = WithMaxPending n) \<or> (\<exists>n. f = WithMaxAttempts n) \<or> (\<exists>b. f = WithRetryBackoff b)"

text \<open>The deliveries that have been made and have no outcome yet.\<close>

definition outstanding :: "push_state \<Rightarrow> Delivery multiset" where
  "outstanding s = mset (queue (disp s)) + (case busy s of None \<Rightarrow> {#} | Some (del, _) \<Rightarrow> {#del#}) + mset (concat (map held (hands s)))"

definition pending_count :: "ledger \<Rightarrow> endpointKey \<Rightarrow> string \<Rightarrow> nat" where
  "pending_count l e k = (case pend l e of None \<Rightarrow> 0 | Some ks \<Rightarrow> count_of k ks)"

text \<open>A delivery that was classified as handed over under an endpoint and a key.\<close>

definition claims :: "endpointKey \<Rightarrow> string \<Rightarrow> Delivery \<Rightarrow> bool" where
  "claims e k del \<longleftrightarrow> endpoint del = e \<and> CollapseKey (Note del) = k \<and> boundOrDefault del = OutcomeHandedOver"

definition claimed :: "endpointKey \<Rightarrow> string \<Rightarrow> push_state \<Rightarrow> nat" where
  "claimed e k s = size (filter_mset (claims e k) (outstanding s))
     + length (filter (\<lambda>(del, oc, _). claims e k del \<and> oc = OutcomeHandedOver) (outcomes (disp s)))"

definition push_ok :: "push_state \<Rightarrow> bool" where
  "push_ok s \<longleftrightarrow> 0 < capacity (disp s) \<and> 1 \<le> maxAttempts (disp s)
     \<and> length (queue (disp s)) \<le> capacity (disp s)
     \<and> (\<forall>del k. busy s = Some (del, k) \<longrightarrow> 1 \<le> k \<and> k \<le> maxAttempts (disp s))
     \<and> mset (submitted s) = outstanding s + mset (map fst (outcomes (disp s)))
     \<and> int (length (calls (disp s))) \<le> maxAttempts (disp s) * int (length (outcomes (disp s)))
          + (case busy s of None \<Rightarrow> 0 | Some (_, k) \<Rightarrow> k - 1)
     \<and> dropped (disp s) = wrap64 (int (length (filter (\<lambda>(_, _, why). why = queue_full) (outcomes (disp s)))))
     \<and> ledger_ok (disp_ledger (disp s))
     \<and> (\<forall>e k. pending_count (disp_ledger (disp s)) e k \<le> claimed e k s)"

lemma wrap64_add: "wrap64 (wrap64 x + y) = wrap64 (x + y)"
proof -
  have "wrap64 x + y + 2 ^ 63 = (x + 2 ^ 63) mod 2 ^ 64 + y" by (simp add: wrap64_def)
  then have "(wrap64 x + y + 2 ^ 63) mod 2 ^ 64 = (x + 2 ^ 63 + y) mod 2 ^ 64" by (simp only: mod_add_left_eq)
  then show ?thesis unfolding wrap64_def [of "wrap64 x + y"] wrap64_def [of "x + y"] by (simp add: ac_simps)
qed

subsection \<open>The ledger never counts more than was classified\<close>

lemma evict_pend: "pend (evict_loop es p) e = None \<or> pend (evict_loop es p) e = p e"
proof (induction es arbitrary: p)
  case (Cons a es)
  show ?case
  proof (cases "maxTrackedEndpoints < length (a # es)")
    case True
    then have "evict_loop (a # es) p = evict_loop es (p(a := None))" by (simp only: evict_loop.simps if_True)
    moreover have "(p(a := None)) e = None \<or> (p(a := None)) e = p e" by simp
    ultimately show ?thesis using Cons.IH [of "p(a := None)"] by metis
  next
    case False
    then show ?thesis by simp
  qed
qed simp

lemma track_count: "pending_count (track e l) e' k \<le> pending_count l e' k"
proof (cases "pend l e")
  case None
  then have "pend (track e l) e' = None \<or> pend (track e l) e' = ((pend l)(e := Some [])) e'"
    using evict_pend [of "order l @ [e]" "(pend l)(e := Some [])" e'] by (simp add: track_def evictLocked_def)
  then show ?thesis using None by (auto simp: pending_count_def split: option.splits if_splits)
qed (simp add: track_def)

lemma Classify_count:
  assumes "ledger_ok l" "Classify e k l = (oc, l')"
  shows "pending_count l' e' k' \<le> pending_count l e' k' + (if e' = e \<and> k' = k \<and> oc = OutcomeHandedOver then 1 else 0)"
proof -
  obtain ks where ks: "pend (track e l) e = Some ks" using track_tracked [OF assms(1)] by blast
  have t: "pending_count (track e l) e' k' \<le> pending_count l e' k'" by (rule track_count)
  show ?thesis
  proof (cases "CollapseKeyBound \<le> length ks")
    case True
    then show ?thesis using assms(2) ks t by (simp add: Classify_track Let_def split: if_splits)
  next
    case False
    then have l': "l' = (track e l)\<lparr>pend := (pend (track e l))(e := Some (bump k ks))\<rparr>" "oc = OutcomeHandedOver"
      using assms(2) ks by (auto simp: Classify_track Let_def)
    show ?thesis
    proof (cases "e' = e")
      case True
      then show ?thesis using t ks l' by (simp add: pending_count_def count_bump)
    next
      case False
      then have "pending_count l' e' k' = pending_count (track e l) e' k'" using l' by (simp add: pending_count_def)
      then show ?thesis using t False by simp
    qed
  qed
qed

lemma NotHandedOver_count:
  assumes "ledger_ok l"
  shows "pending_count (NotHandedOver e k l) e' k' = pending_count l e' k' - (if e' = e \<and> k' = k then 1 else 0)"
proof (cases "pend l e")
  case (Some ks)
  then have "keys_ok ks" using ledger_okD [OF assms] by blast
  then show ?thesis using Some by (auto simp: NotHandedOver_def pending_count_def count_unbump)
qed (simp add: NotHandedOver_def pending_count_def)

lemma forget_count: "pending_count (forget e l) e' k \<le> pending_count l e' k"
  by (simp add: forget_def pending_count_def split: option.splits)

lemma notHandedOver_count:
  assumes "ledger_ok (disp_ledger D)"
  shows "pending_count (disp_ledger (disp_notHandedOver del D)) e k
    = pending_count (disp_ledger D) e k - (if claims e k del then 1 else 0)"
  using NotHandedOver_count [OF assms, of "endpoint del" "CollapseKey (Note del)" e k]
  by (auto simp: disp_notHandedOver_def claims_def)

lemma notHandedOver_fields [simp]:
  "senders (disp_notHandedOver del D) = senders D" "queue (disp_notHandedOver del D) = queue D"
  "capacity (disp_notHandedOver del D) = capacity D" "maxAttempts (disp_notHandedOver del D) = maxAttempts D"
  "dropped (disp_notHandedOver del D) = dropped D" "calls (disp_notHandedOver del D) = calls D"
  "outcomes (disp_notHandedOver del D) = outcomes D"
  by (simp_all add: disp_notHandedOver_def)

lemma notHandedOver_ledger_ok: "ledger_ok (disp_ledger D) \<Longrightarrow> ledger_ok (disp_ledger (disp_notHandedOver del D))"
  by (simp add: disp_notHandedOver_def NotHandedOver_ok)

text \<open>
  A delivery that ends in \<open>dropped\<close>: it leaves the outstanding ones, gets its outcome, and takes back
  what it claimed.
\<close>

lemma push_ok_drop:
  assumes "push_ok s" "outstanding s = add_mset del (outstanding s')"
    and D: "disp s' = Record del OutcomeDropped why (disp_notHandedOver del D1)"
    and D1: "D1 = (disp s)\<lparr>queue := q, calls := cs, dropped := n\<rparr>" "length q \<le> capacity (disp s)"
    and "submitted s' = submitted s" "\<And>del k. busy s' = Some (del, k) \<Longrightarrow> busy s = Some (del, k)"
    and cs: "int (length cs) \<le> maxAttempts (disp s) * (int (length (outcomes (disp s))) + 1) + (case busy s' of None \<Rightarrow> 0 | Some (_, k) \<Rightarrow> k - 1)"
    and n: "n = (if why = queue_full then wrap64 (dropped (disp s) + 1) else dropped (disp s))"
  shows "push_ok s'"
proof -
  have lok: "ledger_ok (disp_ledger (disp s))" using assms(1) by (simp add: push_ok_def)
  have led: "disp_ledger (disp s') = disp_ledger (disp_notHandedOver del (disp s))"
    using D D1 by (simp add: Record_def disp_notHandedOver_def)
  have oc: "outcomes (disp s') = outcomes (disp s) @ [(del, OutcomeDropped, why)]" using D D1 by (simp add: Record_def)
  have cl: "claimed e k s = claimed e k s' + (if claims e k del then 1 else 0)" for e k
    using assms(2) oc by (simp add: claimed_def)
  have cnt: "pending_count (disp_ledger (disp s')) e k \<le> claimed e k s'" for e k
  proof -
    have "pending_count (disp_ledger (disp s)) e k \<le> claimed e k s" using assms(1) unfolding push_ok_def by blast
    then show ?thesis using cl [of e k] notHandedOver_count [OF lok, of del e k] led by auto
  qed
  have dr: "dropped (disp s') = wrap64 (int (length (filter (\<lambda>(_, _, why). why = queue_full) (outcomes (disp s')))))"
  proof -
    have "dropped (disp s) = wrap64 (int (length (filter (\<lambda>(_, _, why). why = queue_full) (outcomes (disp s)))))"
      using assms(1) by (simp add: push_ok_def)
    then show ?thesis using D D1(1) n oc wrap64_add by (simp add: Record_def)
  qed
  have "mset (submitted s') = outstanding s' + mset (map fst (outcomes (disp s')))"
    using assms(1,2,6) oc by (simp add: push_ok_def)
  moreover have "int (length (calls (disp s'))) \<le> maxAttempts (disp s') * int (length (outcomes (disp s')))
      + (case busy s' of None \<Rightarrow> 0 | Some (_, k) \<Rightarrow> k - 1)"
    using cs oc D D1(1) by (simp add: Record_def algebra_simps)
  moreover have "queue (disp s') = q" "capacity (disp s') = capacity (disp s)" "maxAttempts (disp s') = maxAttempts (disp s)"
    using D D1(1) by (simp_all add: Record_def)
  moreover have "ledger_ok (disp_ledger (disp s'))" using led notHandedOver_ledger_ok [OF lok] by simp
  ultimately show ?thesis using assms(1,5,7) cnt dr unfolding push_ok_def by simp
qed

lemma push_ok_same:
  assumes "push_ok s" "outstanding s' = outstanding s" "disp s' = (disp s)\<lparr>queue := q, disp_ledger := l, calls := cs\<rparr>"
    and "length q \<le> capacity (disp s)" "submitted s' = submitted s" "ledger_ok l"
    and "\<And>e k. pending_count l e k \<le> pending_count (disp_ledger (disp s)) e k"
    and "\<And>del k. busy s' = Some (del, k) \<Longrightarrow> 1 \<le> k \<and> k \<le> maxAttempts (disp s)"
    and "int (length cs) \<le> maxAttempts (disp s) * int (length (outcomes (disp s))) + (case busy s' of None \<Rightarrow> 0 | Some (_, k) \<Rightarrow> k - 1)"
  shows "push_ok s'"
proof -
  have "claimed e k s' = claimed e k s" for e k using assms(2,3) by (simp add: claimed_def)
  then have "pending_count l e k \<le> claimed e k s'" for e k
    using assms(1) assms(7) [of e k] unfolding push_ok_def by (metis le_trans)
  then show ?thesis using assms by (simp add: push_ok_def)
qed

lemma outstanding_hands:
  assumes "hands s = xs @ h # ys"
  shows "outstanding s = mset (queue (disp s)) + (case busy s of None \<Rightarrow> {#} | Some (del, _) \<Rightarrow> {#del#}) + mset (held h)
    + (mset (concat (map held xs)) + mset (concat (map held ys)))"
  by (simp add: outstanding_def assms)

lemma push_ok_classify:
  assumes "push_ok s" "hands s = xs @ h # ys" "classify_one note sub (disp s) = (del, D)"
    and s': "s' = s\<lparr>disp := D, hands := xs @ h\<lparr>todo := rest, held := held h @ [del]\<rparr> # ys, submitted := submitted s @ [del]\<rparr>"
  shows "push_ok s'"
proof -
  obtain bound l where cl: "Classify (Ps_Provider sub, Ps_Token sub) (CollapseKey note) (disp_ledger (disp s)) = (bound, l)" by fastforce
  have del: "endpoint del = (Ps_Provider sub, Ps_Token sub)" "CollapseKey (Note del) = CollapseKey note" "boundOrDefault del = bound"
    and D: "D = (disp s)\<lparr>disp_ledger := l\<rparr>"
    using assms(3) cl by (auto simp: classify_one_def endpoint_def boundOrDefault_def)
  have out: "outstanding s' = add_mset del (outstanding s)"
    using outstanding_hands [OF assms(2)] s' D outstanding_hands [of s' xs "h\<lparr>todo := rest, held := held h @ [del]\<rparr>" ys] by simp
  have lok: "ledger_ok (disp_ledger (disp s))" using assms(1) by (simp add: push_ok_def)
  have "pending_count l e k \<le> claimed e k s'" for e k
  proof -
    have "pending_count (disp_ledger (disp s)) e k \<le> claimed e k s" using assms(1) unfolding push_ok_def by blast
    moreover have "claimed e k s' = claimed e k s + (if claims e k del then 1 else 0)"
      using out s' D by (simp add: claimed_def)
    ultimately show ?thesis using Classify_count [OF lok cl, of e k] del by (auto simp: claims_def split: if_splits)
  qed
  moreover have "ledger_ok l" using Classify_ok [OF lok] cl by (metis snd_conv)
  ultimately show ?thesis using assms(1) s' D out by (simp add: push_ok_def)
qed

lemma push_ok_enqueue:
  assumes "push_ok s" "hands s = xs @ h # ys" "held h = del # rest"
    and s': "s' = s\<lparr>disp := offer del (disp s), hands := xs @ h\<lparr>held := rest\<rparr> # ys\<rparr>"
  shows "push_ok s'"
proof -
  have hs: "hands s' = xs @ h\<lparr>held := rest\<rparr> # ys" using s' by simp
  have b: "busy s' = busy s" "submitted s' = submitted s" using s' by simp_all
  show ?thesis
  proof (cases "length (queue (disp s)) < capacity (disp s)")
    case True
    then have D: "disp s' = (disp s)\<lparr>queue := queue (disp s) @ [del], disp_ledger := disp_ledger (disp s), calls := calls (disp s)\<rparr>"
      using s' by (simp add: offer_def)
    have "outstanding s' = outstanding s"
      using outstanding_hands [OF assms(2)] outstanding_hands [OF hs] D b assms(3) by simp
    then show ?thesis
      using push_ok_same [OF assms(1) _ D] assms(1) b True by (simp add: push_ok_def)
  next
    case False
    define D1 where "D1 = (disp s)\<lparr>queue := queue (disp s), calls := calls (disp s), dropped := wrap64 (dropped (disp s) + 1)\<rparr>"
    have D: "disp s' = Record del OutcomeDropped queue_full (disp_notHandedOver del D1)"
      using False s' by (simp add: offer_def D1_def)
    have q: "queue (disp s') = queue (disp s)" using D by (simp add: Record_def D1_def)
    have "outstanding s = add_mset del (outstanding s')"
      using outstanding_hands [OF assms(2)] outstanding_hands [OF hs] q b assms(3) by simp
    moreover have "int (length (calls (disp s))) \<le> maxAttempts (disp s) * (int (length (outcomes (disp s))) + 1)
        + (case busy s' of None \<Rightarrow> 0 | Some (_, k) \<Rightarrow> k - 1)"
      using assms(1) b(1) by (simp add: push_ok_def distrib_left)
    ultimately show ?thesis
      using push_ok_drop [OF assms(1) _ D D1_def] assms(1) b by (simp add: push_ok_def)
  qed
qed

lemma push_ok_attempt:
  assumes "push_ok s" "busy s = Some (del, k)" "attempt_step del k (disp s) = (nxt, D)"
    and s': "s' = s\<lparr>disp := D, busy := map_option (Pair del) nxt\<rparr>"
  shows "push_ok s'"
proof -
  have k: "1 \<le> k" "k \<le> maxAttempts (disp s)" and c: "int (length (calls (disp s))) \<le> maxAttempts (disp s) * int (length (outcomes (disp s))) + (k - 1)"
    using assms(1,2) by (auto simp: push_ok_def)
  have out: "outstanding s = add_mset del (outstanding s')" if "busy s' = None" "queue (disp s') = queue (disp s)"
    using assms(2) that s' by (simp add: outstanding_def)
  have ql: "length (queue (disp s)) \<le> capacity (disp s)" using assms(1) by (simp add: push_ok_def)
  show ?thesis
  proof (cases "senders (disp s) (Sub_Provider (Sub del))")
    case None
    define D1 where "D1 = (disp s)\<lparr>queue := queue (disp s), calls := calls (disp s), dropped := dropped (disp s)\<rparr>"
    have n: "nxt = None" and D: "disp s' = Record del OutcomeDropped ''no sender configured for provider'' (disp_notHandedOver del D1)"
      using assms(3) None s' by (auto simp: attempt_step_def D1_def)
    have q: "queue (disp s') = queue (disp s)" "busy s' = None" using D n s' by (simp_all add: Record_def D1_def)
    show ?thesis
      using push_ok_drop [OF assms(1) out [OF q(2,1)] D D1_def ql] s' q c k by (simp add: queue_full_def distrib_left)
  next
    case (Some send)
    define D1 where "D1 = (disp s)\<lparr>queue := queue (disp s), calls := calls (disp s) @ [del], dropped := dropped (disp s)\<rparr>"
    consider (sent) "nxt = None" "D = Record del (boundOrDefault del) [] D1"
      | (failed) "nxt = None" "D = Record del OutcomeDropped ''retries exhausted'' (disp_notHandedOver del D1)"
      | (again) "nxt = Some (k + 1)" "D = D1" "k < maxAttempts (disp s)"
      using assms(3) Some k by (auto simp: attempt_step_def D1_def Let_def split: option.splits if_splits)
    then show ?thesis
    proof cases
      case sent
      then have q: "queue (disp s') = queue (disp s)" "busy s' = None" using s' by (simp_all add: Record_def D1_def)
      have oc: "outcomes (disp s') = outcomes (disp s) @ [(del, boundOrDefault del, [])]" using sent s' by (simp add: Record_def D1_def)
      have f: "capacity (disp s') = capacity (disp s)" "maxAttempts (disp s') = maxAttempts (disp s)" "submitted s' = submitted s"
          "calls (disp s') = calls (disp s) @ [del]" "dropped (disp s') = dropped (disp s)" "disp_ledger (disp s') = disp_ledger (disp s)"
        using sent s' by (simp_all add: Record_def D1_def)
      have "claimed e j s' = claimed e j s" for e j
        using out [OF q(2,1)] oc by (auto simp: claimed_def claims_def)
      then show ?thesis
        using assms(1) out [OF q(2,1)] oc f q c k by (simp add: push_ok_def queue_full_def distrib_left)
    next
      case failed
      then have D: "disp s' = Record del OutcomeDropped ''retries exhausted'' (disp_notHandedOver del D1)" using s' by simp
      have q: "queue (disp s') = queue (disp s)" "busy s' = None" using D failed s' by (simp_all add: Record_def D1_def)
      show ?thesis
        using push_ok_drop [OF assms(1) out [OF q(2,1)] D D1_def ql] s' q c k by (simp add: queue_full_def distrib_left)
    next
      case again
      have D: "disp s' = (disp s)\<lparr>queue := queue (disp s), disp_ledger := disp_ledger (disp s), calls := calls (disp s) @ [del]\<rparr>"
        using again s' by (simp add: D1_def)
      have "outstanding s' = outstanding s" using assms(2) again s' by (simp add: outstanding_def D1_def)
      then show ?thesis
        using push_ok_same [OF assms(1) _ D ql] assms(1) again s' c k by (simp add: push_ok_def)
    qed
  qed
qed

lemma push_ok_hands:
  assumes "push_ok s" "outstanding (s\<lparr>hands := hs\<rparr>) = outstanding s"
  shows "push_ok (s\<lparr>hands := hs\<rparr>)"
  using assms by (simp add: push_ok_def claimed_def)

lemma push_ok_forget:
  assumes "push_ok s"
  shows "push_ok (s\<lparr>disp := (disp s)\<lparr>disp_ledger := forget (p, t) (disp_ledger (disp s))\<rparr>\<rparr>)"
proof -
  let ?s = "s\<lparr>disp := (disp s)\<lparr>disp_ledger := forget (p, t) (disp_ledger (disp s))\<rparr>\<rparr>"
  have "disp ?s = (disp s)\<lparr>queue := queue (disp s), disp_ledger := forget (p, t) (disp_ledger (disp s)), calls := calls (disp s)\<rparr>" by simp
  moreover have "outstanding ?s = outstanding s" by (simp add: outstanding_def)
  moreover have "ledger_ok (forget (p, t) (disp_ledger (disp s)))" using assms by (simp add: push_ok_def forget_ok)
  ultimately show ?thesis
    using push_ok_same [OF assms, where s' = ?s and q = "queue (disp s)" and l = "forget (p, t) (disp_ledger (disp s))" and cs = "calls (disp s)"] assms
    by (simp add: push_ok_def forget_count)
qed

lemma push_step_ok: "push_step s s' \<Longrightarrow> push_ok s \<Longrightarrow> push_ok s'"
proof (induction rule: push_step.induct)
  case (start s work)
  then show ?case by (rule push_ok_hands) (simp_all add: outstanding_def)
next
  case (classify s xs h ys nt sub rest del D)
  then show ?case using push_ok_classify by blast
next
  case (enqueue s xs h ys del rest)
  then show ?case using push_ok_enqueue by blast
next
  case (finish s xs h ys)
  then show ?case by (intro push_ok_hands) (simp_all add: outstanding_def)
next
  case (receive s del rest)
  let ?s = "s\<lparr>disp := (disp s)\<lparr>queue := rest\<rparr>, busy := Some (del, 1)\<rparr>"
  have "disp ?s = (disp s)\<lparr>queue := rest, disp_ledger := disp_ledger (disp s), calls := calls (disp s)\<rparr>" by simp
  moreover have "outstanding ?s = outstanding s" using receive.hyps by (simp add: outstanding_def)
  ultimately show ?case
    using push_ok_same [OF receive.prems, where s' = ?s and q = rest and l = "disp_ledger (disp s)" and cs = "calls (disp s)"] receive by (simp add: push_ok_def)
next
  case (attempt s del k nxt D)
  then show ?case using push_ok_attempt by blast
next
  case (registered s p t)
  then show ?case using push_ok_forget by (simp add: Notifier_EndpointRegistered_def Ledger_EndpointRegistered_def)
next
  case (removed s p t)
  then show ?case using push_ok_forget by (simp add: Notifier_EndpointRemoved_def Ledger_EndpointRemoved_def)
qed

lemma push_reachable_ok: "push_step\<^sup>*\<^sup>* s s' \<Longrightarrow> push_ok s \<Longrightarrow> push_ok s'"
  by (induction rule: rtranclp_induct) (simp_all add: push_step_ok)

lemma NewDispatcher_ok:
  assumes "\<forall>opt \<in> set opts. is_option opt"
  shows "push_ok (push_init snds opts)"
proof -
  define fresh where "fresh D \<longleftrightarrow> 0 < capacity D \<and> 1 \<le> maxAttempts D \<and> queue D = [] \<and> calls D = [] \<and> outcomes D = []
     \<and> dropped D = 0 \<and> disp_ledger D = NewDeliveryLedger" for D :: dispatcher
  have step: "fresh D \<Longrightarrow> is_option opt \<Longrightarrow> fresh (opt D)" for opt D
    by (auto simp: fresh_def is_option_def WithMaxPending_def WithMaxAttempts_def WithRetryBackoff_def)
  have "\<forall>opt \<in> set os. is_option opt \<Longrightarrow> fresh D \<Longrightarrow> fresh (fold (\<lambda>opt D. opt D) os D)" for os D
    by (induction os arbitrary: D) (simp_all add: step)
  then have "fresh (NewDispatcher snds opts)"
    using assms by (simp add: NewDispatcher_def fresh_def DefaultMaxPending_def defaultMaxAttempts_def)
  then show ?thesis
    by (simp add: fresh_def push_ok_def push_init_def outstanding_def NewDeliveryLedger_def ledger_ok_def pend_ok_def
        pending_count_def wrap64_def maxTrackedEndpoints_def)
qed

text \<open>
  C6: However the goroutines of the process interleave and however the backends answer, every delivery
  that was made is waiting or has exactly one outcome, so once nothing is in flight each has exactly
  one; the queue never exceeds its capacity; the backends are called at most \<open>maxAttempts\<close> times per
  finished delivery, plus the attempts of the one in progress; the drop counter is the number of
  deliveries refused by a full queue; and the ledger counts a key for an endpoint at most as often as
  deliveries classified under it are waiting or were handed over.
\<close>

theorem push_accounting:
  assumes "push_step\<^sup>*\<^sup>* (push_init snds opts) s" "\<forall>opt \<in> set opts. is_option opt"
  shows "mset (submitted s) = outstanding s + mset (map fst (outcomes (disp s)))
    \<and> length (queue (disp s)) \<le> capacity (disp s)
    \<and> int (length (calls (disp s))) \<le> maxAttempts (disp s) * int (length (outcomes (disp s)))
         + (case busy s of None \<Rightarrow> 0 | Some (_, k) \<Rightarrow> k - 1)
    \<and> dropped (disp s) = wrap64 (int (length (filter (\<lambda>(_, _, why). why = queue_full) (outcomes (disp s)))))
    \<and> pending_count (disp_ledger (disp s)) e k \<le> claimed e k s"
  using push_reachable_ok [OF assms(1) NewDispatcher_ok [OF assms(2)]] unfolding push_ok_def by blast

section \<open>The worker run and shutdown\<close>


definition flaky :: sender where
  "flaky cs del = (if cs = [] then Some ''unreachable'' else None)"

definition sample_delivery :: Delivery where
  "sample_delivery = \<lparr>Sub = \<lparr>Sub_Provider = ''fcm'', Sub_Token = ''tok''\<rparr>,
     Note = buildNotification \<lparr>Device_ID = ''d1'', Device_FamilyID = ''f1'', Device_Name = ''phone''\<rparr>
       \<lparr>GE_DeviceID = ''d1'', GE_GeofenceID = ''g1'', GE_GeofenceName = ''School'', GE_Transition = ''enter'', GE_FixTS = 0\<rparr>,
     Bound = Some OutcomeHandedOver\<rparr>"

definition sample_push :: push_state where
  "sample_push = push_init [''fcm'' \<mapsto> flaky] [WithMaxPending 0, WithMaxAttempts 2]"


theorem push_accounting_witness:
  "mset (submitted (sample_push\<lparr>hands := [\<lparr>todo = [], held = []\<rparr>]\<rparr>)) = outstanding (sample_push\<lparr>hands := [\<lparr>todo = [], held = []\<rparr>]\<rparr>)
   \<and> capacity (disp sample_push) = 1"
proof -
  have "push_step\<^sup>*\<^sup>* (push_init [''fcm'' \<mapsto> flaky] [WithMaxPending 0, WithMaxAttempts 2]) (sample_push\<lparr>hands := [\<lparr>todo = [], held = []\<rparr>]\<rparr>)"
    using push_step.start [of sample_push "[]"] by (simp add: sample_push_def push_init_def r_into_rtranclp)
  moreover have "\<forall>opt \<in> set [WithMaxPending 0, WithMaxAttempts 2]. is_option opt" by (auto simp: is_option_def)
  ultimately show ?thesis
    using push_accounting [THEN conjunct1, of "[''fcm'' \<mapsto> flaky]" "[WithMaxPending 0, WithMaxAttempts 2]" "sample_push\<lparr>hands := [\<lparr>todo = [], held = []\<rparr>]\<rparr>"]
    by (simp add: sample_push_def push_init_def NewDispatcher_def WithMaxPending_def WithMaxAttempts_def)
qed

lemma deliver_loop_outcome:
  assumes "1 \<le> k" "k \<le> maxAttempts D"
  shows "\<exists>oc why n. outcomes (deliver_loop del k D) = outcomes D @ [(del, oc, why)] \<and> (oc = boundOrDefault del \<or> oc = OutcomeDropped)
    \<and> calls (deliver_loop del k D) = calls D @ replicate n del \<and> int n \<le> maxAttempts D - k + 1
    \<and> maxAttempts (deliver_loop del k D) = maxAttempts D \<and> queue (deliver_loop del k D) = queue D"
  using assms
proof (induction del k D rule: deliver_loop.induct)
  case (1 del k D)
  let ?ok = "\<lambda>nxt D1. nxt = None \<and> (\<exists>oc why n. outcomes D1 = outcomes D @ [(del, oc, why)] \<and> (oc = boundOrDefault del \<or> oc = OutcomeDropped)
      \<and> calls D1 = calls D @ replicate n del \<and> int n \<le> 1 \<and> maxAttempts D1 = maxAttempts D \<and> queue D1 = queue D)"
  have okI: "?ok None D1" if "outcomes D1 = outcomes D @ [(del, oc, why)]" "oc = boundOrDefault del \<or> oc = OutcomeDropped"
      "calls D1 = calls D @ replicate n del" "int n \<le> 1" "maxAttempts D1 = maxAttempts D" "queue D1 = queue D" for D1 oc why n
    using that by blast
  obtain nxt D1 where a: "attempt_step del k D = (nxt, D1)" by fastforce
  consider (stop) "?ok nxt D1"
    | (again) "nxt = Some (k + 1)" "D1 = D\<lparr>calls := calls D @ [del]\<rparr>" "k < maxAttempts D"
  proof (cases "senders D (Sub_Provider (Sub del))")
    case None
    then have "nxt = None" "D1 = Record del OutcomeDropped ''no sender configured for provider'' (disp_notHandedOver del D)"
      using a by (simp_all add: attempt_step_def)
    then have "?ok nxt D1" using okI [of D1 OutcomeDropped "''no sender configured for provider''" 0] by (simp add: Record_def)
    then show thesis by (rule stop)
  next
    case (Some send)
    let ?D = "D\<lparr>calls := calls D @ [del]\<rparr>"
    show thesis
    proof (cases "send (calls D) del")
      case None
      then have "nxt = None" "D1 = Record del (boundOrDefault del) [] ?D" using a Some "1.prems" by (simp_all add: attempt_step_def)
      then have "?ok nxt D1" using okI [of D1 "boundOrDefault del" "[]" 1] by (simp add: Record_def)
      then show thesis by (rule stop)
    next
      case (Some err)
      show thesis
      proof (cases "k = maxAttempts D")
        case True
        then have "nxt = None" "D1 = Record del OutcomeDropped ''retries exhausted'' (disp_notHandedOver del ?D)"
          using a Some \<open>senders D (Sub_Provider (Sub del)) = Some send\<close> by (simp_all add: attempt_step_def)
        then have "?ok nxt D1" using okI [of D1 OutcomeDropped "''retries exhausted''" 1] by (simp add: Record_def)
        then show thesis by (rule stop)
      next
        case False
        then have "nxt = Some (k + 1)" "D1 = ?D"
          using a Some \<open>senders D (Sub_Provider (Sub del)) = Some send\<close> "1.prems" by (simp_all add: attempt_step_def)
        then show thesis using again False "1.prems"(2) by simp
      qed
    qed
  qed
  then show ?case
  proof cases
    case stop
    then have "deliver_loop del k D = D1" using a by (simp add: deliver_loop.simps)
    then show ?thesis using stop "1.prems"(2) by fastforce
  next
    case again
    then have eq: "deliver_loop del k D = deliver_loop del (k + 1) D1" using a by (simp add: deliver_loop.simps [of del k D])
    have "\<exists>oc why n. outcomes (deliver_loop del (k + 1) D1) = outcomes D1 @ [(del, oc, why)] \<and> (oc = boundOrDefault del \<or> oc = OutcomeDropped)
      \<and> calls (deliver_loop del (k + 1) D1) = calls D1 @ replicate n del \<and> int n \<le> maxAttempts D1 - (k + 1) + 1
      \<and> maxAttempts (deliver_loop del (k + 1) D1) = maxAttempts D1 \<and> queue (deliver_loop del (k + 1) D1) = queue D1"
      using "1.IH" [of nxt D1 "k + 1"] a again "1.prems" by simp
    then obtain oc why n where n: "outcomes (deliver_loop del (k + 1) D1) = outcomes D1 @ [(del, oc, why)]" "oc = boundOrDefault del \<or> oc = OutcomeDropped"
      "calls (deliver_loop del (k + 1) D1) = calls D1 @ replicate n del" "int n \<le> maxAttempts D1 - (k + 1) + 1"
      "maxAttempts (deliver_loop del (k + 1) D1) = maxAttempts D1" "queue (deliver_loop del (k + 1) D1) = queue D1" by blast
    have "calls (deliver_loop del k D) = calls D @ replicate (Suc n) del" using n(3) again eq by simp
    moreover have "int (Suc n) \<le> maxAttempts D - k + 1" using n(4) again by simp
    ultimately show ?thesis
      using n(1,2,5,6) again eq by (intro exI [of _ oc] exI [of _ why] exI [of _ "Suc n"]) simp
  qed
qed

lemma drain_outcomes:
  assumes "1 \<le> maxAttempts D"
  shows "\<exists>ocs cs. outcomes (drain q D) = outcomes D @ ocs \<and> map fst ocs = q
    \<and> (\<forall>(del, oc, why) \<in> set ocs. oc = boundOrDefault del \<or> oc = OutcomeDropped)
    \<and> calls (drain q D) = calls D @ cs \<and> int (length cs) \<le> maxAttempts D * int (length q)"
  using assms
proof (induction q arbitrary: D)
  case Nil
  then show ?case by simp
next
  case (Cons del q)
  let ?D = "deliver del (D\<lparr>queue := q\<rparr>)"
  obtain oc why n where d: "outcomes ?D = outcomes D @ [(del, oc, why)]" "oc = boundOrDefault del \<or> oc = OutcomeDropped"
      "calls ?D = calls D @ replicate n del" "int n \<le> maxAttempts D" "maxAttempts ?D = maxAttempts D"
    using deliver_loop_outcome [of 1 "D\<lparr>queue := q\<rparr>" del] Cons.prems by (auto simp: deliver_def)
  obtain ocs cs where r: "outcomes (drain q ?D) = outcomes ?D @ ocs" "map fst ocs = q"
      "\<forall>(del, oc, why) \<in> set ocs. oc = boundOrDefault del \<or> oc = OutcomeDropped"
      "calls (drain q ?D) = calls ?D @ cs" "int (length cs) \<le> maxAttempts D * int (length q)"
    using Cons.IH [of ?D] Cons.prems d(5) by auto
  have "outcomes (drain (del # q) D) = outcomes D @ ((del, oc, why) # ocs)" using r(1) d(1) by simp
  moreover have "calls (drain (del # q) D) = calls D @ (replicate n del @ cs)" using r(4) d(3) by simp
  moreover have "int (length (replicate n del @ cs)) \<le> maxAttempts D * int (length (del # q))"
    using r(5) d(4) by (simp add: distrib_left)
  ultimately show ?case using r(2,3) d(2) by (intro exI [of _ "(del, oc, why) # ocs"] exI [of _ "replicate n del @ cs"]) simp
qed

lemma drain_queue: "queue (drain q D) = []"
  by (induction q D rule: drain.induct) simp_all

text \<open>
  C29: A clean shutdown loses nothing that was accepted: for every behaviour of the backends, \<open>Close\<close>
  returns with an empty queue, having given every queued delivery exactly one outcome, in queue order,
  which is its classification or \<open>dropped\<close> and never anything better, with at most \<open>maxAttempts\<close> sends
  per delivery.
\<close>

theorem Close_drains:
  assumes "1 \<le> maxAttempts D"
  shows "queue (Close D) = [] \<and> (\<exists>ocs cs. outcomes (Close D) = outcomes D @ ocs \<and> map fst ocs = queue D
    \<and> (\<forall>(del, oc, why) \<in> set ocs. oc = boundOrDefault del \<or> oc = OutcomeDropped)
    \<and> calls (Close D) = calls D @ cs \<and> int (length cs) \<le> maxAttempts D * int (length (queue D)))"
  using drain_outcomes [OF assms, of "queue D"] by (simp add: Close_def drain_queue)

theorem Close_drains_witness:
  "queue (Close ((disp sample_push)\<lparr>queue := [sample_delivery, sample_delivery]\<rparr>)) = []
   \<and> length (outcomes (Close ((disp sample_push)\<lparr>queue := [sample_delivery, sample_delivery]\<rparr>))) = 2"
proof -
  let ?D = "(disp sample_push)\<lparr>queue := [sample_delivery, sample_delivery]\<rparr>"
  have m: "1 \<le> maxAttempts ?D" "outcomes ?D = []" "length (queue ?D) = 2"
    by (simp_all add: sample_push_def push_init_def NewDispatcher_def WithMaxPending_def WithMaxAttempts_def)
  obtain ocs where c: "queue (Close ?D) = []" "outcomes (Close ?D) = outcomes ?D @ ocs" "map fst ocs = queue ?D"
    using Close_drains [OF m(1)] by blast
  have "length ocs = 2" using m(3) arg_cong [OF c(3), of length] by (simp only: length_map)
  then show ?thesis using c(1,2) m(2) by (simp only: append_Nil simp_thms)
qed

section \<open>The fan-out reaches the family\<close>

lemma classify_all_deliveries:
  "\<exists>dels l. classify_all work D = (dels, D\<lparr>disp_ledger := l\<rparr>)
     \<and> map (\<lambda>del. (endpoint del, Note del)) dels = map (\<lambda>(n, s). ((Ps_Provider s, Ps_Token s), n)) work"
proof (induction work arbitrary: D)
  case Nil
  show ?case by (intro exI [of _ "[]"] exI [of _ "disp_ledger D"]) simp
next
  case (Cons w work)
  obtain n s where w: "w = (n, s)" by (cases w)
  obtain del l where c: "classify_one n s D = (del, D\<lparr>disp_ledger := l\<rparr>)" "endpoint del = (Ps_Provider s, Ps_Token s)" "Note del = n"
    by (cases "Classify (Ps_Provider s, Ps_Token s) (CollapseKey n) (disp_ledger D)") (simp add: classify_one_def endpoint_def)
  obtain dels l' where "classify_all work (D\<lparr>disp_ledger := l\<rparr>) = (dels, D\<lparr>disp_ledger := l'\<rparr>)"
      "map (\<lambda>del. (endpoint del, Note del)) dels = map (\<lambda>(n, s). ((Ps_Provider s, Ps_Token s), n)) work"
    using Cons.IH [of "D\<lparr>disp_ledger := l\<rparr>"] by auto
  then show ?case using w c by auto
qed

lemma Enqueue_room:
  "length (queue D) + length dels \<le> capacity D \<Longrightarrow> Enqueue dels D = D\<lparr>queue := queue D @ dels\<rparr>"
proof (induction dels arbitrary: D)
  case (Cons del dels)
  then show ?case using Cons.IH [of "D\<lparr>queue := queue D @ [del]\<rparr>"] by (simp add: Enqueue_def offer_def)
qed (simp add: Enqueue_def)

text \<open>
  When the queue has room, the crossings of a device become one delivery per crossing and endpoint
  of the device's family, in order, each with the notification of its crossing, addressed to nobody
  outside the family; nothing already queued is disturbed and no outcome is recorded yet.
\<close>

theorem notify_reaches_family:
  assumes "faults d = []" "uuid_in pg (Device_FamilyID dev) = Some fam"
    and "length (queue D) + length evs * length (family_endpoints fam d) \<le> capacity D"
  shows "\<exists>D'. NotifyGeofenceEvents pg dev evs (d, D) = (d, D')
    \<and> map (\<lambda>del. (endpoint del, Note del)) (queue D') = map (\<lambda>del. (endpoint del, Note del)) (queue D)
        @ concat (map (\<lambda>e. map (\<lambda>ep. (ep, buildNotification dev e)) (stable_sort (sub_less pg) (family_endpoints fam d))) evs)
    \<and> outcomes D' = outcomes D"
proof (cases "evs = [] \<or> family_endpoints fam d = []")
  case True
  then have "concat (map (\<lambda>e. map (\<lambda>ep. (ep, buildNotification dev e)) (stable_sort (sub_less pg) (family_endpoints fam d))) evs) = []"
    by auto
  moreover have "NotifyGeofenceEvents pg dev evs (d, D) = (d, D)"
    using True assms(1,2) by (auto simp: NotifyGeofenceEvents_def PushSubscriptionsForFamily_def run_def pushSubscriptionsForFamilySQL_def with_uuid_def)
  ultimately show ?thesis by simp
next
  case False
  let ?eps = "stable_sort (sub_less pg) (family_endpoints fam d)"
  let ?ss = "map (\<lambda>r. \<lparr>Ps_Provider = fst r, Ps_Token = snd r\<rparr>) ?eps"
  have ne: "?ss \<noteq> []" using False by (metis length_0_conv length_stable_sort map_is_Nil_conv)
  have rd: "PushSubscriptionsForFamily pg (Device_FamilyID dev) d = (Inr ?ss, d)"
    using assms(1,2) by (simp add: PushSubscriptionsForFamily_def run_def pushSubscriptionsForFamilySQL_def with_uuid_def)
  obtain dels l where cl: "classify_all (fan_out dev evs ?ss) D = (dels, D\<lparr>disp_ledger := l\<rparr>)"
      "map (\<lambda>del. (endpoint del, Note del)) dels = map (\<lambda>(n, s). ((Ps_Provider s, Ps_Token s), n)) (fan_out dev evs ?ss)"
    using classify_all_deliveries by blast
  have nts: "map (\<lambda>(n, s). ((Ps_Provider s, Ps_Token s), n)) (fan_out dev evs ?ss)
      = concat (map (\<lambda>e. map (\<lambda>ep. (ep, buildNotification dev e)) ?eps) evs)"
    by (simp add: fan_out_def map_concat comp_def)
  have "length dels = length evs * length (family_endpoints fam d)"
    using arg_cong [OF cl(2), of length] by (simp add: fan_out_def length_concat comp_def sum_list_triv)
  then have "Enqueue dels (D\<lparr>disp_ledger := l\<rparr>) = D\<lparr>disp_ledger := l, queue := queue D @ dels\<rparr>"
    using assms(3) Enqueue_room [of "D\<lparr>disp_ledger := l\<rparr>" dels] by simp
  then show ?thesis using False ne rd cl nts by (simp add: NotifyGeofenceEvents_def)
qed

theorem notify_reaches_family_witness:
  "\<exists>D'. NotifyGeofenceEvents sample_pg \<lparr>Device_ID = ''d1'', Device_FamilyID = ''f1'', Device_Name = ''phone''\<rparr>
       [\<lparr>GE_DeviceID = ''d1'', GE_GeofenceID = ''g1'', GE_GeofenceName = ''School'', GE_Transition = ''exit'', GE_FixTS = 0\<rparr>]
       (sample_db []\<lparr>subs := [\<lparr>sb_id = ''s'', sb_viewer = ''v1'', sb_provider = ''fcm'', sb_token = ''tok'', sb_created = 0\<rparr>]\<rparr>, disp sample_push)
     = (sample_db []\<lparr>subs := [\<lparr>sb_id = ''s'', sb_viewer = ''v1'', sb_provider = ''fcm'', sb_token = ''tok'', sb_created = 0\<rparr>]\<rparr>, D')
     \<and> map endpoint (queue D') = [(''fcm'', ''tok'')] \<and> map (Body \<circ> Note) (queue D') = [''phone left School'']"
proof -
  let ?d = "sample_db []\<lparr>subs := [\<lparr>sb_id = ''s'', sb_viewer = ''v1'', sb_provider = ''fcm'', sb_token = ''tok'', sb_created = 0\<rparr>]\<rparr>"
  let ?dev = "\<lparr>Device_ID = ''d1'', Device_FamilyID = ''f1'', Device_Name = ''phone''\<rparr>"
  let ?e = "\<lparr>GE_DeviceID = ''d1'', GE_GeofenceID = ''g1'', GE_GeofenceName = ''School'', GE_Transition = ''exit'', GE_FixTS = 0\<rparr>"
  have ep: "family_endpoints ''f1'' ?d = [(''fcm'', ''tok'')]" by (simp add: family_endpoints_def sample_db_def endpoint_of_def)
  have D: "queue (disp sample_push) = []" "capacity (disp sample_push) = 1"
    by (simp_all add: sample_push_def push_init_def NewDispatcher_def WithMaxPending_def WithMaxAttempts_def)
  have "faults ?d = []" by (simp add: sample_ok)
  moreover have "uuid_in sample_pg (Device_FamilyID ?dev) = Some ''f1''" by (simp add: sample_ok)
  moreover have "length (queue (disp sample_push)) + length [?e] * length (family_endpoints ''f1'' ?d) \<le> capacity (disp sample_push)"
    using ep D by simp
  ultimately obtain D' where D': "NotifyGeofenceEvents sample_pg ?dev [?e] (?d, disp sample_push) = (?d, D')"
      "map (\<lambda>del. (endpoint del, Note del)) (queue D') = [((''fcm'', ''tok''), buildNotification ?dev ?e)]"
    using notify_reaches_family [of ?d sample_pg ?dev "''f1''" "disp sample_push" "[?e]"] ep D by auto
  have "map endpoint (queue D') = map fst (map (\<lambda>del. (endpoint del, Note del)) (queue D'))" by simp
  moreover have "map (Body \<circ> Note) (queue D') = map (Body \<circ> snd) (map (\<lambda>del. (endpoint del, Note del)) (queue D'))" by simp
  ultimately show ?thesis using D' by (auto simp: buildNotification_def)
qed

end
