(* ===== verification/Server.thy ===== *)
theory Server
  imports Requests Views Dispatcher
begin

text \<open>
  The HTTP surface (\<open>internal/server/server.go\<close>, \<open>read.go\<close>, \<open>geofence.go\<close>, \<open>push.go\<close>): the
  credential gates, the two ingestion routes, the family-scoped reads and push registration. A handler
  maps a request and the state of the process to a response and the state after it. Of an error response
  the status and the error code are kept and the sentence is dropped; JSON encoding of a response is
  left to the encoder. The notifier is an interface with two implementations, the no-op of a deployment
  without push and the event notifier.
\<close>

section \<open>Responses\<close>

record historyResponse =
  hr_ts :: int
  hr_lat :: float64
  hr_lon :: float64
  hr_accuracy :: "float64 option"
  hr_battery :: "int option"
  hr_speed :: "float64 option"
  hr_trigger :: "string option"
  hr_received_at :: int

record nearbyResponse =
  nr_device_id :: string
  nr_device_name :: string
  nr_lat :: float64
  nr_lon :: float64
  nr_ts :: int
  nr_distance_m :: float64

record placeResponse =
  pl_id :: string
  pl_name :: string
  pl_area :: string

record geofenceEventResponse =
  er_device_id :: string
  er_device_name :: string
  er_place_id :: string
  er_place_name :: string
  er_transition :: string
  er_ts :: int

record pushSubscriptionResponse =
  sr_id :: string
  sr_provider :: string
  sr_configured_provider :: string

datatype body =
    ErrorBody string
  | Health bool
  | FixBody bool
  | OwnTracksAck
  | Positions "entry list"
  | History "historyResponse list"
  | Near "nearbyResponse list"
  | PlacesBody "placeResponse list"
  | EventsBody "geofenceEventResponse list"
  | Registered pushSubscriptionResponse

record response =
  rs_status :: int
  rs_challenge :: bool
  rs_body :: body

definition writeJSON :: "int \<Rightarrow> body \<Rightarrow> response" where
  "writeJSON st b = \<lparr>rs_status = st, rs_challenge = False, rs_body = b\<rparr>"

definition writeError :: "int \<Rightarrow> string \<Rightarrow> response" where
  "writeError st err = writeJSON st (ErrorBody err)"

definition unauthorized :: response where
  "unauthorized = (writeError 401 ''unauthorized'')\<lparr>rs_challenge := True\<rparr>"

definition writeOwnTracksAck :: response where
  "writeOwnTracksAck = writeJSON 200 OwnTracksAck"

definition internal_error :: response where "internal_error = writeError 500 ''internal''"
definition malformed :: response where "malformed = writeError 400 ''malformed''"

section \<open>The notifier interface\<close>

text \<open>The state a notifier keeps is the type parameter; it may read the database.\<close>

record 'n notifier =
  ntf_events :: "Device \<Rightarrow> GeofenceEvent list \<Rightarrow> db \<times> 'n \<Rightarrow> db \<times> 'n"
  ntf_registered :: "string \<Rightarrow> string \<Rightarrow> 'n \<Rightarrow> 'n"
  ntf_removed :: "string \<Rightarrow> string \<Rightarrow> 'n \<Rightarrow> 'n"

definition noopNotifier :: "'n notifier" where
  "noopNotifier = \<lparr>ntf_events = (\<lambda>_ _ w. w), ntf_registered = (\<lambda>_ _ n. n), ntf_removed = (\<lambda>_ _ n. n)\<rparr>"

definition EventNotifier :: "pg \<Rightarrow> dispatcher notifier" where
  "EventNotifier pg = \<lparr>ntf_events = NotifyGeofenceEvents pg, ntf_registered = Notifier_EndpointRegistered,
     ntf_removed = Notifier_EndpointRemoved\<rparr>"

text \<open>What the server relies on: a notifier stores nothing.\<close>

locale stores_nothing =
  fixes N :: "'n notifier"
  assumes reads_only: "\<exists>fs. fst (ntf_events N dev evs (d, n)) = d\<lparr>faults := fs\<rparr>"

lemma same_faults: "\<exists>fs. d = d\<lparr>faults := fs\<rparr>"
  by (rule exI [of _ "faults d"]) simp

interpretation noop: stores_nothing noopNotifier
  by unfold_locales (simp add: noopNotifier_def same_faults)

lemma notify_reads: "\<exists>fs. fst (NotifyGeofenceEvents pg dev evs (d, D)) = d\<lparr>faults := fs\<rparr>"
proof (cases "evs = []")
  case True
  then show ?thesis by (auto simp: NotifyGeofenceEvents_def intro: exI [of _ "faults d"])
next
  case False
  obtain r d1 where r: "run (pushSubscriptionsForFamilySQL pg (Device_FamilyID dev)) d = (r, d1)" by fastforce
  then obtain fs where "d1 = d\<lparr>faults := fs\<rparr>" using family_subs.run_reads by (metis snd_conv)
  moreover have "fst (NotifyGeofenceEvents pg dev evs (d, D)) = d1"
    using False r by (cases r) (auto simp: NotifyGeofenceEvents_def PushSubscriptionsForFamily_def split: prod.splits)
  ultimately show ?thesis by blast
qed

interpretation event_notifier: stores_nothing "EventNotifier pg" for pg
  by unfold_locales (simp add: EventNotifier_def notify_reads)

section \<open>Gates\<close>

definition requireDevice :: "(Device \<Rightarrow> db \<times> 'n \<Rightarrow> response \<times> db \<times> 'n) \<Rightarrow> request \<Rightarrow> db \<times> 'n \<Rightarrow> response \<times> db \<times> 'n" where
  "requireDevice next r w =
     (case w of (d, n) \<Rightarrow>
        case FromRequest (rq_authorization r) of
          None \<Rightarrow> (unauthorized, d, n)
        | Some tok \<Rightarrow>
            (case AuthenticateDevice (Token_Hash tok) d of
               (Inr dev, d1) \<Rightarrow> next dev (d1, n)
             | (Inl e, d1) \<Rightarrow> if e = ErrUnknownToken then (unauthorized, d1, n) else (internal_error, d1, n)))"

definition requireViewer :: "(Viewer \<Rightarrow> db \<times> 'n \<Rightarrow> response \<times> db \<times> 'n) \<Rightarrow> request \<Rightarrow> db \<times> 'n \<Rightarrow> response \<times> db \<times> 'n" where
  "requireViewer next r w =
     (case w of (d, n) \<Rightarrow>
        case FromRequest (rq_authorization r) of
          None \<Rightarrow> (unauthorized, d, n)
        | Some tok \<Rightarrow>
            (case AuthenticateViewer (Token_Hash tok) d of
               (Inr v, d1) \<Rightarrow> next v (d1, n)
             | (Inl e, d1) \<Rightarrow> if e = ErrUnknownToken then (unauthorized, d1, n) else (internal_error, d1, n)))"

section \<open>Ingestion\<close>

text \<open>\<open>ingest\<close>: a failure is its response, success is whether the fix is new.\<close>

definition ingest :: "pg \<Rightarrow> 'n notifier \<Rightarrow> instant \<Rightarrow> Device \<Rightarrow> Fix \<Rightarrow> db \<times> 'n \<Rightarrow> (response + bool) \<times> db \<times> 'n" where
  "ingest pg N t dev f w =
     (case w of (d, n) \<Rightarrow>
        case IngestFix pg f t d of
          (Inl err, d1) \<Rightarrow>
            (Inl (if err = ErrCoordinateOutOfRange \<or> err = ErrTimestampOutOfWindow then writeError 400 ''invalid_fix'' else internal_error), d1, n)
        | (Inr inserted, d1) \<Rightarrow>
            if inserted
            then (case EvaluateDeviceGeofences pg (DeviceID f) (TS f) GeofenceDebounce d1 of
                    ((evs, _), d2) \<Rightarrow> (Inr inserted, if evs \<noteq> [] then ntf_events N dev evs (d2, n) else (d2, n)))
            else (Inr inserted, d1, n))"

definition postFix :: "pg \<Rightarrow> runtime \<Rightarrow> 'n notifier \<Rightarrow> instant \<Rightarrow> request \<Rightarrow> Device \<Rightarrow> db \<times> 'n \<Rightarrow> response \<times> db \<times> 'n" where
  "postFix pg rt N t r dev w =
     (case decodeStrict rt fix_names (put_fix rt) no_fix_request (rq_body r) of
        None \<Rightarrow> (malformed, w)
      | Some q \<Rightarrow>
          (case (fq_lat q, fq_lon q, fq_ts q) of
             (Some lat, Some lon, Some ts) \<Rightarrow>
               if \<not> validateOptionalMetrics (fq_accuracy q) (fq_battery q) (fq_speed q) then (malformed, w)
               else (case ingest pg N t dev
                        \<lparr>DeviceID = Device_ID dev, TS = time_Unix ts, Lon = lon, Lat = lat, AccuracyM = fq_accuracy q,
                         BatteryPct = fq_battery q, SpeedMPS = fq_speed q, TriggerReason = fq_trigger q, MsgID = fq_msg_id q\<rparr> w of
                       (Inl resp, w1) \<Rightarrow> (resp, w1)
                     | (Inr inserted, w1) \<Rightarrow> (writeJSON (if inserted then 201 else 200) (FixBody (\<not> inserted)), w1))
           | _ \<Rightarrow> (malformed, w)))"

definition postOwnTracks :: "pg \<Rightarrow> runtime \<Rightarrow> 'n notifier \<Rightarrow> instant \<Rightarrow> request \<Rightarrow> Device \<Rightarrow> db \<times> 'n \<Rightarrow> response \<times> db \<times> 'n" where
  "postOwnTracks pg rt N t r dev w =
     (case read_value rt (rq_body r) of
        None \<Rightarrow> (malformed, w)
      | Some (v, _) \<Rightarrow>
          (case decode_struct False owntracks_names (put_owntracks rt) v no_owntracks_request of
             None \<Rightarrow> (malformed, w)
           | Some q \<Rightarrow>
               if ot_type q \<noteq> Some ''location'' then (writeOwnTracksAck, w)
               else (case (ot_lat q, ot_lon q, ot_tst q) of
                       (Some lat, Some lon, Some tst) \<Rightarrow>
                         if \<not> validateOptionalMetrics (ot_acc q) (ot_batt q) None then (malformed, w)
                         else if bad_metric (ot_vel q) then (malformed, w)
                         else (case ingest pg N t dev
                                  \<lparr>DeviceID = Device_ID dev, TS = time_Unix tst, Lon = lon, Lat = lat, AccuracyM = ot_acc q,
                                   BatteryPct = ot_batt q, SpeedMPS = map_option (per_3_6 rt) (ot_vel q), TriggerReason = ot_t q, MsgID = None\<rparr> w of
                                 (Inl resp, w1) \<Rightarrow> (resp, w1)
                               | (Inr _, w1) \<Rightarrow> (writeOwnTracksAck, w1))
                     | _ \<Rightarrow> (malformed, w))))"

section \<open>Reads\<close>

definition getPositions :: "pg \<Rightarrow> runtime \<Rightarrow> Windows \<Rightarrow> instant \<Rightarrow> Viewer \<Rightarrow> db \<Rightarrow> response \<times> db" where
  "getPositions pg rt windows t v d =
     (case FamilyDeviceStates pg (Viewer_FamilyID v) d of
        (Inl _, d1) \<Rightarrow> (internal_error, d1)
      | (Inr states, d1) \<Rightarrow>
          (writeJSON 200 (Positions (map (\<lambda>s. entryFor s t windows) (sortDeviceStates (unicode_lower rt) states))), d1))"

definition history_entry :: "HistoryFix \<Rightarrow> historyResponse" where
  "history_entry f = \<lparr>hr_ts = Unix (Hist_TS f), hr_lat = Hist_Lat f, hr_lon = Hist_Lon f, hr_accuracy = Hist_AccuracyM f,
     hr_battery = Hist_BatteryPct f, hr_speed = Hist_SpeedMPS f, hr_trigger = Hist_TriggerReason f, hr_received_at = Unix (Hist_ReceivedAt f)\<rparr>"

definition getDeviceHistory :: "pg \<Rightarrow> runtime \<Rightarrow> request \<Rightarrow> Viewer \<Rightarrow> db \<Rightarrow> response \<times> db" where
  "getDeviceHistory pg rt r v d =
     (if \<not> uuid_parse rt (rq_id r) then (malformed, d)
      else case DeviceByID pg (rq_id r) d of
             (Inl e, d1) \<Rightarrow> if e = ErrUnknownDevice then (writeError 404 ''not_found'', d1) else (internal_error, d1)
           | (Inr dev, d1) \<Rightarrow>
               if Device_FamilyID dev \<noteq> Viewer_FamilyID v then (writeError 403 ''forbidden'', d1)
               else case parseWindow r of
                      None \<Rightarrow> (malformed, d1)
                    | Some (from, to) \<Rightarrow>
                        (case parsePage r of
                           None \<Rightarrow> (malformed, d1)
                         | Some (limit, offset) \<Rightarrow>
                             (case DeviceHistory pg (Viewer_FamilyID v) (rq_id r) from to limit offset d1 of
                                (Inl _, d2) \<Rightarrow> (internal_error, d2)
                              | (Inr fs, d2) \<Rightarrow> (writeJSON 200 (History (map history_entry fs)), d2))))"

definition getNear :: "pg \<Rightarrow> runtime \<Rightarrow> request \<Rightarrow> Viewer \<Rightarrow> db \<Rightarrow> response \<times> db" where
  "getNear pg rt r v d =
     (case (floatParam rt r ''lat'', floatParam rt r ''lon'', floatParam rt r ''m'') of
        (Some lat, Some lon, Some m) \<Rightarrow>
          if flt m (Fin 0) \<or> isNotFinite m then (malformed, d)
          else (case FixesNear pg (Viewer_FamilyID v) lon lat m d of
                  (Inl e, d1) \<Rightarrow> if e = ErrCoordinateOutOfRange then (malformed, d1) else (internal_error, d1)
                | (Inr ns, d1) \<Rightarrow>
                    (writeJSON 200 (Near (map (\<lambda>x. \<lparr>nr_device_id = Near_DeviceID x, nr_device_name = Near_DeviceName x, nr_lat = Near_Lat x,
                       nr_lon = Near_Lon x, nr_ts = Unix (Near_TS x), nr_distance_m = Near_DistanceM x\<rparr>) ns)), d1))
      | _ \<Rightarrow> (malformed, d))"

definition getPlaces :: "pg \<Rightarrow> Viewer \<Rightarrow> db \<Rightarrow> response \<times> db" where
  "getPlaces pg v d =
     (case ListGeofences pg (Viewer_FamilyID v) d of
        (Inl _, d1) \<Rightarrow> (internal_error, d1)
      | (Inr gs, d1) \<Rightarrow> (writeJSON 200 (PlacesBody (map (\<lambda>g. \<lparr>pl_id = GD_ID g, pl_name = GD_Name g, pl_area = GD_AreaGeoJSON g\<rparr>) gs)), d1))"

definition defaultGeofenceEventsLimit :: int where "defaultGeofenceEventsLimit = 100"

definition getGeofenceEvents :: "pg \<Rightarrow> request \<Rightarrow> Viewer \<Rightarrow> db \<Rightarrow> response \<times> db" where
  "getGeofenceEvents pg r v d =
     (case int_param r ''limit'' defaultGeofenceEventsLimit of
        None \<Rightarrow> (malformed, d)
      | Some limit \<Rightarrow>
          (case ListGeofenceEvents pg (Viewer_FamilyID v) limit d of
             (Inl _, d1) \<Rightarrow> (internal_error, d1)
           | (Inr es, d1) \<Rightarrow> (writeJSON 200 (EventsBody (map (\<lambda>e. \<lparr>er_device_id = GE_DeviceID (ER_Event e), er_device_name = ER_DeviceName e,
                er_place_id = GE_GeofenceID (ER_Event e), er_place_name = GE_GeofenceName (ER_Event e), er_transition = GE_Transition (ER_Event e),
                er_ts = Unix (GE_FixTS (ER_Event e))\<rparr>) es)), d1)))"

section \<open>Push registration\<close>

text \<open>The supersede of a rotated address: whatever it does, the response has been decided before.\<close>

definition supersede :: "pg \<Rightarrow> 'n notifier \<Rightarrow> string \<Rightarrow> string \<Rightarrow> string \<Rightarrow> string option \<Rightarrow> db \<times> 'n \<Rightarrow> db \<times> 'n" where
  "supersede pg N viewerID provider token replaces w =
     (case replaces of
        None \<Rightarrow> w
      | Some s \<Rightarrow>
          (let replaced = TrimSpace s
           in if replaced \<noteq> [] \<and> replaced \<noteq> token
              then (case w of (d, n) \<Rightarrow>
                      case RemovePushSubscriptionForViewer pg viewerID provider replaced d of
                        (Inl _, d1) \<Rightarrow> (d1, n)
                      | (Inr removed, d1) \<Rightarrow> (d1, if removed then ntf_removed N provider replaced n else n))
              else w))"

definition registerPushSubscription ::
  "pg \<Rightarrow> runtime \<Rightarrow> 'n notifier \<Rightarrow> string \<Rightarrow> request \<Rightarrow> Viewer \<Rightarrow> db \<times> 'n \<Rightarrow> response \<times> db \<times> 'n" where
  "registerPushSubscription pg rt N configured r v w =
     (case decodeStrict rt push_names put_push no_push_request (rq_body r) of
        None \<Rightarrow> (malformed, w)
      | Some q \<Rightarrow>
          (case (sq_provider q, sq_token q) of
             (Some provider, Some tok) \<Rightarrow>
               (let token = TrimSpace tok
                in if token = [] then (malformed, w)
                   else if \<not> ValidPushProvider provider then (malformed, w)
                   else (case w of (d, n) \<Rightarrow>
                           case RegisterPushSubscription pg (Viewer_ID v) provider token d of
                             (Inl e, d1) \<Rightarrow> (if e = ErrInvalidPushProvider then malformed else internal_error, d1, n)
                           | (Inr i, d1) \<Rightarrow>
                               (writeJSON 201 (Registered \<lparr>sr_id = i, sr_provider = provider, sr_configured_provider = configured\<rparr>),
                                supersede pg N (Viewer_ID v) provider token (sq_replaces q) (d1, ntf_registered N provider token n))))
           | _ \<Rightarrow> (malformed, w)))"

section \<open>The handler\<close>

record options =
  configuredPushProvider :: string

definition WithConfiguredPushProvider :: "string \<Rightarrow> options \<Rightarrow> options" where
  "WithConfiguredPushProvider provider opt = opt\<lparr>configuredPushProvider := provider\<rparr>"

datatype route =
    HealthzRoute | FixesRoute | OwnTracksRoute
  | PositionsRoute | HistoryRoute | NearRoute | PlacesRoute | EventsRoute | PushRoute

text \<open>\<open>pool.Ping\<close> acquires a connection and waits for a reply; it fails as any statement may.\<close>

definition ping :: "unit stmt" where "ping d = (Inr (), d)"

definition healthz :: "db \<Rightarrow> response \<times> db" where
  "healthz d = (case run ping d of (Inl _, d1) \<Rightarrow> (writeJSON 503 (Health False), d1) | (Inr _, d1) \<Rightarrow> (writeJSON 200 (Health True), d1))"

definition read_only :: "(db \<Rightarrow> response \<times> db) \<Rightarrow> db \<times> 'n \<Rightarrow> response \<times> db \<times> 'n" where
  "read_only h w = (case w of (d, n) \<Rightarrow> case h d of (resp, d1) \<Rightarrow> (resp, d1, n))"

definition New ::
  "pg \<Rightarrow> runtime \<Rightarrow> 'n notifier option \<Rightarrow> Windows \<Rightarrow> (options \<Rightarrow> options) list \<Rightarrow> instant \<Rightarrow> route \<Rightarrow> request
     \<Rightarrow> db \<times> 'n \<Rightarrow> response \<times> db \<times> 'n" where
  "New pg rt notifier windows opts t rte r w =
     (let N = (case notifier of None \<Rightarrow> noopNotifier | Some N \<Rightarrow> N);
          opt = fold (\<lambda>f. f) opts \<lparr>configuredPushProvider = []\<rparr>
      in case rte of
           HealthzRoute \<Rightarrow> read_only healthz w
         | FixesRoute \<Rightarrow> requireDevice (postFix pg rt N t r) r w
         | OwnTracksRoute \<Rightarrow> requireDevice (postOwnTracks pg rt N t r) r w
         | PositionsRoute \<Rightarrow> requireViewer (\<lambda>v. read_only (getPositions pg rt windows t v)) r w
         | HistoryRoute \<Rightarrow> requireViewer (\<lambda>v. read_only (getDeviceHistory pg rt r v)) r w
         | NearRoute \<Rightarrow> requireViewer (\<lambda>v. read_only (getNear pg rt r v)) r w
         | PlacesRoute \<Rightarrow> requireViewer (\<lambda>v. read_only (getPlaces pg v)) r w
         | EventsRoute \<Rightarrow> requireViewer (\<lambda>v. read_only (getGeofenceEvents pg r v)) r w
         | PushRoute \<Rightarrow> requireViewer (registerPushSubscription pg rt N (configuredPushProvider opt) r) r w)"

section \<open>What an ingest changes\<close>

lemma evaluateOne_logs: "logs_only d (snd (evaluateOneGeofence pg dev gf name around db d))"
proof -
  obtain r1 d1 where r1: "run (last_event_sql pg dev gf) d = (r1, d1)" by fastforce
  have o1: "logs_only d d1" using last_event_query.run_reads [of pg dev gf d] r1 logs_only_refl by auto
  show ?thesis
  proof (cases r1)
    case (Inl e)
    then show ?thesis using r1 o1 by (simp add: evaluateOneGeofence_def)
  next
    case (Inr evs)
    define flr where "flr = (case evs of [] \<Rightarrow> zero_time | e # _ \<Rightarrow> ev_fix_ts e)"
    obtain r2 d2 where r2: "run (neighbourhood_sql pg dev gf flr around geofenceEvalNeighbours) d1 = (r2, d2)" by fastforce
    have o2: "logs_only d d2"
      using neighbourhood_query.run_reads [of pg dev gf flr around geofenceEvalNeighbours d1] r2 logs_only_trans [OF o1 logs_only_refl] by auto
    show ?thesis using r1 Inr r2 o2 logs_only_trans [OF o2 append_loop_logs]
      by (cases r2) (simp_all add: evaluateOneGeofence_def flr_def [symmetric] Let_def)
  qed
qed

lemma evaluate_logs: "logs_only d (snd (EvaluateDeviceGeofences pg dev around db d))"
proof -
  have places: "logs_only d (snd (evaluate_places pg dev around db ps d))" for ps d
  proof (induction ps arbitrary: d)
    case Nil
    then show ?case using logs_only_refl [of d "faults d"] by simp
  next
    case (Cons p ps)
    obtain i n where p: "p = (i, n)" by (cases p)
    obtain evs err d1 where e: "evaluateOneGeofence pg dev i n around db d = ((evs, err), d1)" by (metis surj_pair)
    have "logs_only d d1" using evaluateOne_logs [of d pg dev i n around db] e by simp
    then show ?case using Cons.IH [of d1] logs_only_trans e p by (cases err) (auto split: prod.splits)
  qed
  obtain q d1 where q: "run (places_sql pg dev) d = (q, d1)" by fastforce
  then have "logs_only d d1" using places_query.run_reads [of pg dev d] logs_only_refl by auto
  then show ?thesis using q places [of d1] logs_only_trans by (cases q) (auto simp: EvaluateDeviceGeofences_def)
qed

text \<open>
  One ingest on behalf of a device: at most one new row, of that device; the event log may grow; every
  other table is as before.
\<close>

definition writes_own :: "uuid \<Rightarrow> db \<Rightarrow> db \<Rightarrow> bool" where
  "writes_own dev d d' \<longleftrightarrow>
     (mset (all_fixes d') = mset (all_fixes d) \<or> (\<exists>row. fx_device row = dev \<and> mset (all_fixes d') = add_mset row (mset (all_fixes d))))
     \<and> d'\<lparr>partitions := [], events := [], drawn := 0, faults := []\<rparr> = d\<lparr>partitions := [], events := [], drawn := 0, faults := []\<rparr>
     \<and> parts_ok d'"

lemma writes_own_refl: "parts_ok d \<Longrightarrow> writes_own dev d (d\<lparr>faults := fs\<rparr>)"
  by (simp add: writes_own_def)

lemma writes_own_stores:
  assumes "stores_at_most pg f d d'" "parts_ok d" "uuid_in pg (DeviceID f) = Some dev"
  shows "writes_own dev d d'"
proof -
  have t: "d'\<lparr>partitions := [], faults := []\<rparr> = d\<lparr>partitions := [], faults := []\<rparr>" "parts_ok d'"
    using assms(1,2) by (simp_all add: stores_at_most_def)
  have "d'\<lparr>partitions := [], events := [], drawn := 0, faults := []\<rparr> = (d'\<lparr>partitions := [], faults := []\<rparr>)\<lparr>events := [], drawn := 0\<rparr>" by simp
  also have "\<dots> = d\<lparr>partitions := [], events := [], drawn := 0, faults := []\<rparr>" unfolding t(1) by simp
  finally show ?thesis using assms t(2) by (auto simp: writes_own_def stores_at_most_def fix_to_row_def)
qed

lemma writes_own_logs: "writes_own dev d d1 \<Longrightarrow> logs_only d1 d2 \<Longrightarrow> writes_own dev d d2"
proof -
  assume w: "writes_own dev d d1" and l: "logs_only d1 d2"
  have t: "d2\<lparr>events := [], drawn := 0, faults := []\<rparr> = d1\<lparr>events := [], drawn := 0, faults := []\<rparr>" using l by (simp add: logs_only_def)
  have p: "partitions d2 = partitions d1" "relations d2 = relations d1"
    using arg_cong [OF t, of partitions] arg_cong [OF t, of relations] by simp_all
  have "d2\<lparr>partitions := [], events := [], drawn := 0, faults := []\<rparr> = (d2\<lparr>events := [], drawn := 0, faults := []\<rparr>)\<lparr>partitions := []\<rparr>" by simp
  also have "\<dots> = d1\<lparr>partitions := [], events := [], drawn := 0, faults := []\<rparr>" unfolding t by simp
  finally show ?thesis using w parts_ok_cong [OF p] p by (simp add: writes_own_def all_fixes_def)
qed

lemma writes_own_faults: "writes_own dev d d1 \<Longrightarrow> writes_own dev d (d1\<lparr>faults := fs\<rparr>)"
  using writes_own_logs logs_only_refl by blast

context stores_nothing
begin

lemma ingest_writes_own:
  assumes "parts_ok d" "uuid_in pg (DeviceID f) = Some u" "ingest pg N t dev f (d, n) = (r, d', n')"
  shows "writes_own u d d'"
proof -
  obtain res d1 where i: "IngestFix pg f t d = (res, d1)" by fastforce
  have w1: "writes_own u d d1" using IngestFix_stores [OF assms(1), of pg f t] i writes_own_stores [OF _ assms(1,2)] by simp
  show ?thesis
  proof (cases res)
    case (Inl e)
    then show ?thesis using assms(3) i w1 by (simp add: ingest_def)
  next
    case (Inr inserted)
    obtain evs err d2 where e: "EvaluateDeviceGeofences pg (DeviceID f) (TS f) GeofenceDebounce d1 = ((evs, err), d2)" by (metis surj_pair)
    then have w2: "writes_own u d d2" using writes_own_logs [OF w1 evaluate_logs, of pg "DeviceID f" "TS f" GeofenceDebounce] by simp
    then have "writes_own u d (fst (ntf_events N dev evs (d2, n)))" using reads_only [of dev evs d2 n] writes_own_faults by metis
    then show ?thesis using assms(3) i Inr e w1 w2 by (auto simp: ingest_def split: if_splits)
  qed
qed

end

interpretation device_hash_query: query "device_by_hash_sql h" for h
  by unfold_locales (simp add: device_by_hash_sql_def)

interpretation viewer_hash_query: query "viewer_by_hash_sql h" for h
  by unfold_locales (simp add: viewer_by_hash_sql_def)

interpretation device_id_query: query "device_by_id_sql pg i" for pg i
  by unfold_locales (simp add: device_by_id_sql_def split: option.splits)

text \<open>The gates: who passes, and that looking a credential up stores nothing.\<close>

definition presents :: "request \<Rightarrow> string \<Rightarrow> bool" where
  "presents r h \<longleftrightarrow> (\<exists>tok. FromRequest (rq_authorization r) = Some tok \<and> Token_Hash tok = h)"

lemma requireDeviceE:
  assumes "requireDevice nxt r (d, n) = (resp, d', n')"
  obtains (refused) fs where "d' = d\<lparr>faults := fs\<rparr>" "n' = n" "resp = unauthorized \<or> resp = internal_error"
    | (passed) dev fs where "dev \<in> set (devices d)" "presents r (dev_hash dev)" "unexpired (dev_expires dev) d"
        "nxt (to_Device dev) (d\<lparr>faults := fs\<rparr>, n) = (resp, d', n')"
proof (cases "FromRequest (rq_authorization r)")
  case None
  then show thesis using assms refused [of "faults d"] by (simp add: requireDevice_def)
next
  case (Some tok)
  let ?h = "Token_Hash tok"
  show thesis
  proof (cases "length ?h = TokenHashLen")
    case False
    then show thesis using assms Some refused [of "faults d"] by (simp add: requireDevice_def AuthenticateDevice_def)
  next
    case True
    obtain q d1 where q: "run (device_by_hash_sql ?h) d = (q, d1)" by fastforce
    then obtain fs where fs: "d1 = d\<lparr>faults := fs\<rparr>" using device_hash_query.run_reads by (metis snd_conv)
    show thesis
    proof (cases q)
      case (Inl e)
      then show thesis using assms Some True q fs refused [of fs] by (simp add: requireDevice_def AuthenticateDevice_def)
    next
      case (Inr rows)
      then obtain gs where "fst (device_by_hash_sql ?h (d\<lparr>faults := gs\<rparr>)) = Inr rows"
        using device_hash_query.run_query_ok [of ?h d rows d1] q by blast
      then have rows: "rows = filter (\<lambda>r. dev_hash r = ?h \<and> unexpired (dev_expires r) d) (devices d)" by (simp add: device_by_hash_sql_def)
      show thesis
      proof (cases rows)
        case Nil
        then show thesis using assms Some True q Inr fs refused [of fs] by (simp add: requireDevice_def AuthenticateDevice_def)
      next
        case (Cons dev rest)
        then have "dev \<in> set (devices d)" "dev_hash dev = ?h" "unexpired (dev_expires dev) d" using rows by (auto dest!: filter_ConsD)
        then show thesis using assms Some True q Inr Cons fs passed [of dev fs] by (simp add: requireDevice_def AuthenticateDevice_def presents_def)
      qed
    qed
  qed
qed

lemma post_cases:
  assumes "post = postFix pg rt N t r \<or> post = postOwnTracks pg rt N t r" "post dev w = (resp, w')"
  obtains (untouched) "w' = w"
    | (ingested) f res where "DeviceID f = Device_ID dev" "ingest pg N t dev f w = (res, w')"
proof -
  from assms(1) show thesis
  proof
    assume p: "post = postFix pg rt N t r"
    show thesis
      using assms(2) p untouched ingested [of "\<lparr>DeviceID = Device_ID dev, TS = a, Lon = b, Lat = c, AccuracyM = x, BatteryPct = y, SpeedMPS = z, TriggerReason = u, MsgID = v\<rparr>" for a b c x y z u v]
      by (auto simp: postFix_def split: option.splits if_splits prod.splits sum.splits)
  next
    assume p: "post = postOwnTracks pg rt N t r"
    show thesis
      using assms(2) p untouched ingested [of "\<lparr>DeviceID = Device_ID dev, TS = a, Lon = b, Lat = c, AccuracyM = x, BatteryPct = y, SpeedMPS = z, TriggerReason = u, MsgID = v\<rparr>" for a b c x y z u v]
      by (auto simp: postOwnTracks_def split: option.splits if_splits prod.splits sum.splits)
  qed
qed

text \<open>
  C7: A device writes only its own fixes. A request to either ingestion route is refused with 401 or 500
  and stores nothing, or it presents the unexpired credential of a device, and then at most one row is
  added, that row is this device's whatever the body says, the event log may grow, and every other
  table is as it was. This holds under every schedule of database failures, with and without push.
\<close>

theorem device_writes_only_its_own:
  assumes "New pg rt notifier windows opts t rte r (d, D) = (resp, d', D')" "rte = FixesRoute \<or> rte = OwnTracksRoute"
    and "notifier = None \<or> notifier = Some (EventNotifier pg)" "parts_ok d" "accounts_ok pg d"
  shows "(\<exists>dev \<in> set (devices d). presents r (dev_hash dev) \<and> unexpired (dev_expires dev) d \<and> writes_own (dev_id dev) d d')
    \<or> ((\<exists>fs. d' = d\<lparr>faults := fs\<rparr>) \<and> D' = D \<and> rs_status resp \<in> {401, 500})"
proof -
  define N where "N = (case notifier of None \<Rightarrow> noopNotifier | Some N \<Rightarrow> N)"
  define post where "post = (if rte = FixesRoute then postFix pg rt N t r else postOwnTracks pg rt N t r)"
  have N: "stores_nothing N" using assms(3) noop.stores_nothing_axioms event_notifier.stores_nothing_axioms by (auto simp: N_def)
  have p: "post = postFix pg rt N t r \<or> post = postOwnTracks pg rt N t r" by (simp add: post_def)
  have "requireDevice post r (d, D) = (resp, d', D')"
    using assms(1,2) by (auto simp: New_def Let_def N_def [symmetric] post_def)
  then show ?thesis
  proof (cases rule: requireDeviceE)
    case (refused fs)
    then show ?thesis by (auto simp: unauthorized_def internal_error_def writeError_def writeJSON_def)
  next
    case (passed dev fs)
    have u: "uuid_in pg (Device_ID (to_Device dev)) = Some (dev_id dev)"
      using assms(5) passed(1) by (simp add: accounts_ok_def to_Device_def)
    have ok: "parts_ok (d\<lparr>faults := fs\<rparr>)" using assms(4) by simp
    from p passed(4) have "writes_own (dev_id dev) (d\<lparr>faults := fs\<rparr>) d'"
    proof (cases rule: post_cases)
      case untouched
      then show ?thesis using writes_own_refl [OF ok, of "dev_id dev" fs] by simp
    next
      case (ingested f res)
      then show ?thesis using stores_nothing.ingest_writes_own [OF N ok _ ingested(2)] u by simp
    qed
    then have "writes_own (dev_id dev) d d'" by (simp add: writes_own_def all_fixes_def)
    then show ?thesis using passed(1,2,3) by blast
  qed
qed


text \<open>
  The history route decides on the device before it reads. Without database failures a malformed id
  is 400, an unknown device 404, a device of another family 403; for a device of the viewer's family a
  malformed window or page is 400, and otherwise the answer is 200 with that device's rows only. Nothing
  is changed, and no other family's row is ever returned.
\<close>

theorem history_authorization:
  assumes "faults d = []" "accounts_ok pg d" "v \<in> set (viewers d)"
    and "uuid_parse rt (rq_id r) \<Longrightarrow> uuid_in pg (rq_id r) = Some u"
  shows "snd (getDeviceHistory pg rt r (to_Viewer v) d) = d
    \<and> (if \<not> uuid_parse rt (rq_id r) then fst (getDeviceHistory pg rt r (to_Viewer v) d) = malformed
       else if u \<notin> dev_id ` set (devices d) then fst (getDeviceHistory pg rt r (to_Viewer v) d) = writeError 404 ''not_found''
       else if \<forall>dev \<in> set (devices d). dev_id dev = u \<longrightarrow> dev_family dev \<noteq> vw_family v
         then fst (getDeviceHistory pg rt r (to_Viewer v) d) = writeError 403 ''forbidden''
       else if parseWindow r = None \<or> parsePage r = None then fst (getDeviceHistory pg rt r (to_Viewer v) d) = malformed
       else \<exists>fs. fst (getDeviceHistory pg rt r (to_Viewer v) d) = writeJSON 200 (History (map (history_entry \<circ> to_history) fs))
              \<and> set fs \<subseteq> {f \<in> set (all_fixes d). fx_device f = u})"
proof (cases "uuid_parse rt (rq_id r)")
  case False
  then show ?thesis by (simp add: getDeviceHistory_def)
next
  case True
  then have u: "uuid_in pg (rq_id r) = Some u" using assms(4) by blast
  have fam: "uuid_in pg (vw_family v) = Some (vw_family v)" using assms(2,3) by (simp add: accounts_ok_def)
  let ?rows = "filter (\<lambda>x. dev_id x = u) (devices d)"
  have byid: "DeviceByID pg (rq_id r) d = (case ?rows of [] \<Rightarrow> (Inl ErrUnknownDevice, d) | x # _ \<Rightarrow> (Inr (to_Device x), d))"
    using assms(1) u by (simp add: DeviceByID_def run_def device_by_id_sql_def split: list.splits)
  show ?thesis
  proof (cases ?rows)
    case Nil
    then have "u \<notin> dev_id ` set (devices d)" by (auto simp: filter_empty_conv)
    then show ?thesis using True Nil byid by (simp add: getDeviceHistory_def)
  next
    case (Cons dev rest)
    then have dev: "dev \<in> set (devices d)" "dev_id dev = u" by (auto dest!: filter_ConsD)
    have uniq: "x = dev" if "x \<in> set (devices d)" "dev_id x = u" for x
      using that dev assms(2) unfolding accounts_ok_def by (metis distinct_map inj_on_eq_iff)
    have hist: "\<exists>fs. DeviceHistory pg (vw_family v) (rq_id r) a b l off d = (Inr (map to_history fs), d) \<and> set fs \<subseteq> {f \<in> set (all_fixes d). fx_device f = u}" for a b l off
    proof -
      have "set (history_rows (vw_family v) u x y d) \<subseteq> {f \<in> set (all_fixes d). fx_device f = u}" for x y
        by (auto simp: history_rows_def join_fixes_def)
      then have "set (take i (drop j (history_rows (vw_family v) u x y d))) \<subseteq> {f \<in> set (all_fixes d). fx_device f = u}" for i j x y
        by (meson in_set_dropD in_set_takeD subset_eq)
      moreover have "\<exists>i j x y. DeviceHistory pg (vw_family v) (rq_id r) a b l off d = (Inr (map to_history (take i (drop j (history_rows (vw_family v) u x y d)))), d)"
        using DeviceHistory_clean [OF assms(1) fam u] by blast
      ultimately show ?thesis by blast
    qed
    have vf: "Viewer_FamilyID (to_Viewer v) = vw_family v" and df: "Device_FamilyID (to_Device dev) = dev_family dev"
      by (simp_all add: to_Viewer_def to_Device_def)
    have in_ids: "u \<in> dev_id ` set (devices d)" using dev by blast
    have gd: "getDeviceHistory pg rt r (to_Viewer v) d =
        (if dev_family dev \<noteq> vw_family v then (writeError 403 ''forbidden'', d)
         else case parseWindow r of None \<Rightarrow> (malformed, d)
         | Some (a, b) \<Rightarrow> (case parsePage r of None \<Rightarrow> (malformed, d)
            | Some (l, off) \<Rightarrow> (case DeviceHistory pg (vw_family v) (rq_id r) a b l off d of
                 (Inl _, d2) \<Rightarrow> (internal_error, d2) | (Inr fs, d2) \<Rightarrow> (writeJSON 200 (History (map history_entry fs)), d2))))"
      unfolding getDeviceHistory_def vf using True byid Cons by (simp add: df)
    show ?thesis
    proof (cases "dev_family dev = vw_family v")
      case False
      then have "\<forall>x \<in> set (devices d). dev_id x = u \<longrightarrow> dev_family x \<noteq> vw_family v" using uniq by blast
      then show ?thesis using gd False True in_ids by simp
    next
      case fam_eq: True
      then have ne: "\<not> (\<forall>x \<in> set (devices d). dev_id x = u \<longrightarrow> dev_family x \<noteq> vw_family v)" using dev by blast
      show ?thesis
      proof (cases "parseWindow r = None \<or> parsePage r = None")
        case bad: True
        then show ?thesis using gd fam_eq True in_ids ne by (auto split: option.splits)
      next
        case False
        then obtain a b l off where pw: "parseWindow r = Some (a, b)" "parsePage r = Some (l, off)" by auto
        obtain fs where fs: "DeviceHistory pg (vw_family v) (rq_id r) a b l off d = (Inr (map to_history fs), d)" "set fs \<subseteq> {f \<in> set (all_fixes d). fx_device f = u}"
          using hist by blast
        have "getDeviceHistory pg rt r (to_Viewer v) d = (writeJSON 200 (History (map (history_entry \<circ> to_history) fs)), d)"
          using gd fam_eq pw fs(1) by simp
        then show ?thesis using True in_ids ne False fs(2) by auto
      qed
    qed
  qed
qed

text \<open>
  The supersede of a rotated routing address cannot be observed. Two registrations that differ only
  in the address they claim to replace get the same response, under every schedule of database
  failures and whoever owns those addresses, so the route reveals nothing about other endpoints.
\<close>

theorem supersede_invisible:
  assumes "decodeStrict rt push_names put_push no_push_request (rq_body r1) = Some q"
    and "decodeStrict rt push_names put_push no_push_request (rq_body r2) = Some (q\<lparr>sq_replaces := other\<rparr>)"
    and "rq_authorization r1 = rq_authorization r2"
  shows "fst (New pg rt notifier windows opts t PushRoute r1 (d, n)) = fst (New pg rt notifier windows opts t PushRoute r2 (d, n))"
proof -
  define N where "N = (case notifier of None \<Rightarrow> noopNotifier | Some N \<Rightarrow> N)"
  define c where "c = configuredPushProvider (fold (\<lambda>f. f) opts \<lparr>configuredPushProvider = []\<rparr>)"
  have same: "fst (registerPushSubscription pg rt N c r1 v (d1, n)) = fst (registerPushSubscription pg rt N c r2 v (d1, n))" for v d1
    using assms(1,2) by (cases "sq_provider q"; cases "sq_token q")
      (auto simp: registerPushSubscription_def Let_def split: prod.splits sum.splits)
  have "fst (requireViewer (registerPushSubscription pg rt N c r1) r1 (d, n)) = fst (requireViewer (registerPushSubscription pg rt N c r2) r2 (d, n))"
    using same by (simp add: requireViewer_def assms(3) split: option.splits prod.splits sum.splits)
  then show ?thesis by (simp add: New_def Let_def N_def c_def)
qed

lemma ingest_acknowledged:
  assumes "stores_nothing N" "parts_ok d" "uuid_in pg (DeviceID f) = Some u" "ingest pg N t dev f (d, n) = (Inr inserted, d', n')"
  shows "length (filter (\<lambda>x. fix_key x = (u, pg_time (TS f))) (all_fixes d')) = 1
    \<and> (inserted \<longrightarrow> (u, pg_time (TS f)) \<notin> fix_key ` set (all_fixes d))"
proof -
  obtain d1 where i: "IngestFix pg f t d = (Inr inserted, d1)"
    using assms(4) by (auto simp: ingest_def split: prod.splits sum.splits if_splits)
  have "all_fixes d' = all_fixes d1"
  proof (cases inserted)
    case False
    then show ?thesis using assms(4) i by (simp add: ingest_def)
  next
    case True
    obtain evs err d2 where e: "EvaluateDeviceGeofences pg (DeviceID f) (TS f) GeofenceDebounce d1 = ((evs, err), d2)" by (metis surj_pair)
    then have "logs_only d1 d2" using evaluate_logs [of d1 pg "DeviceID f" "TS f" GeofenceDebounce] by simp
    then have t: "d2\<lparr>events := [], drawn := 0, faults := []\<rparr> = d1\<lparr>events := [], drawn := 0, faults := []\<rparr>" by (simp add: logs_only_def)
    have p: "partitions d2 = partitions d1" using arg_cong [OF t, of partitions] by simp
    have "partitions (fst (ntf_events N dev evs (d2, n))) = partitions d2" using stores_nothing.reads_only [OF assms(1), of dev evs d2 n] by auto
    then show ?thesis using assms(4) i e True p by (auto simp: ingest_def all_fixes_def split: if_splits)
  qed
  then show ?thesis using IngestFix_stored_once [OF assms(2) i] assms(3) by simp
qed

text \<open>
  C17: A success of \<open>POST /v1/fixes\<close> can be believed. Under every schedule of database failures, when the
  route answers 200 or 201 the request presented a device's credential and a complete body, and exactly
  one stored fix has that device and the reported second; when it answers 201 that fix was not stored
  before.
\<close>

theorem fix_acknowledged:
  assumes "New pg rt notifier windows opts t FixesRoute r (d, D) = (resp, d', D')" "rs_status resp = 200 \<or> rs_status resp = 201"
    and "notifier = None \<or> notifier = Some (EventNotifier pg)" "parts_ok d" "accounts_ok pg d"
  shows "\<exists>dev q ts. dev \<in> set (devices d) \<and> presents r (dev_hash dev)
    \<and> decodeStrict rt fix_names (put_fix rt) no_fix_request (rq_body r) = Some q \<and> fq_ts q = Some ts \<and> fq_lat q \<noteq> None \<and> fq_lon q \<noteq> None
    \<and> length (filter (\<lambda>x. fix_key x = (dev_id dev, pg_time (time_Unix ts))) (all_fixes d')) = 1
    \<and> (rs_status resp = 201 \<longrightarrow> (dev_id dev, pg_time (time_Unix ts)) \<notin> fix_key ` set (all_fixes d))"
proof -
  define N where "N = (case notifier of None \<Rightarrow> noopNotifier | Some N \<Rightarrow> N)"
  have N: "stores_nothing N" using assms(3) noop.stores_nothing_axioms event_notifier.stores_nothing_axioms by (auto simp: N_def)
  note resp_defs = unauthorized_def internal_error_def malformed_def writeError_def writeJSON_def
  have "requireDevice (postFix pg rt N t r) r (d, D) = (resp, d', D')"
    using assms(1) by (simp add: New_def Let_def N_def)
  then show ?thesis
  proof (cases rule: requireDeviceE)
    case (refused fs)
    then show ?thesis using assms(2) by (auto simp: resp_defs)
  next
    case (passed dev fs)
    have u: "uuid_in pg (Device_ID (to_Device dev)) = Some (dev_id dev)"
      using assms(5) passed(1) by (simp add: accounts_ok_def to_Device_def)
    have ok: "parts_ok (d\<lparr>faults := fs\<rparr>)" using assms(4) by simp
    obtain q where q: "decodeStrict rt fix_names (put_fix rt) no_fix_request (rq_body r) = Some q"
      using passed(4) assms(2) by (cases "decodeStrict rt fix_names (put_fix rt) no_fix_request (rq_body r)") (auto simp: postFix_def resp_defs)
    obtain lat lon ts where l: "fq_lat q = Some lat" "fq_lon q = Some lon" "fq_ts q = Some ts"
      using passed(4) assms(2) q by (cases "fq_lat q"; cases "fq_lon q"; cases "fq_ts q") (auto simp: postFix_def resp_defs)
    define f where "f = \<lparr>DeviceID = Device_ID (to_Device dev), TS = time_Unix ts, Lon = lon, Lat = lat, AccuracyM = fq_accuracy q,
        BatteryPct = fq_battery q, SpeedMPS = fq_speed q, TriggerReason = fq_trigger q, MsgID = fq_msg_id q\<rparr>"
    obtain inserted where i: "ingest pg N t (to_Device dev) f (d\<lparr>faults := fs\<rparr>, D) = (Inr inserted, d', D')" "rs_status resp = 201 \<longrightarrow> inserted"
    proof (cases "ingest pg N t (to_Device dev) f (d\<lparr>faults := fs\<rparr>, D)")
      case (fields res e n)
      have m: "validateOptionalMetrics (fq_accuracy q) (fq_battery q) (fq_speed q)"
        using passed(4) assms(2) q l by (auto simp: postFix_def resp_defs split: if_splits)
      show thesis
      proof (cases res)
        case (Inl rr)
        then have "rs_status rr = 400 \<or> rs_status rr = 500"
          using fields by (auto simp: ingest_def resp_defs split: prod.splits sum.splits if_splits)
        moreover have "resp = rr" using passed(4) q l m fields Inl f_def by (simp add: postFix_def)
        ultimately show thesis using assms(2) by auto
      next
        case (Inr b)
        then show thesis using that [of b] passed(4) q l m fields f_def by (auto simp: postFix_def resp_defs split: if_splits)
      qed
    qed
    have "length (filter (\<lambda>x. fix_key x = (dev_id dev, pg_time (TS f))) (all_fixes d')) = 1
        \<and> (inserted \<longrightarrow> (dev_id dev, pg_time (TS f)) \<notin> fix_key ` set (all_fixes (d\<lparr>faults := fs\<rparr>)))"
      using ingest_acknowledged [OF N ok _ i(1)] u by (simp add: f_def)
    moreover have "TS f = time_Unix ts" by (simp add: f_def)
    ultimately show ?thesis using passed(1,2) q l i(2) by (auto simp: all_fixes_def)
  qed
qed

section \<open>Witnesses\<close>

text \<open>A phone with the token \<open>secret\<close> posts one report; a scanner that knows the bodies used below.\<close>

definition sample_rt :: runtime where
  "sample_rt = \<lparr>json_parse = (\<lambda>b. if b = ''fix'' then Some (JObject [(''Lat'', JNumber ''6''), (''lon'', JNumber ''5''), (''ts'', JNumber ''86400'')], [])
       else if b = ''reg'' then Some (JObject [(''provider'', JString ''fcm''), (''token'', JString '' tok '')], [])
       else if b = ''rot'' then Some (JObject [(''provider'', JString ''fcm''), (''token'', JString '' tok ''), (''replaces_token'', JString ''old'')], [])
       else None),
     parse_float = (\<lambda>s. if s = ''6'' then Some (Fin 6) else if s = ''5'' then Some (Fin 5) else None),
     per_3_6 = (\<lambda>x. x), unicode_lower = to_lower, uuid_parse = (\<lambda>s. s \<noteq> [])\<rparr>"

definition sample_request :: "string \<Rightarrow> request" where
  "sample_request b = \<lparr>rq_authorization = ''Bearer secret'', rq_query = (\<lambda>_. []), rq_id = ''d1'', rq_body = b\<rparr>"

text \<open>The sample deployment with the digest of that token on the phone, or on the watcher.\<close>

definition phone_db :: db where
  "phone_db = (sample_db [])\<lparr>devices := map (\<lambda>x. x\<lparr>dev_hash := Token_Hash ''secret''\<rparr>) (devices (sample_db []))\<rparr>"

definition viewer_db :: db where
  "viewer_db = (sample_db [])\<lparr>viewers := map (\<lambda>x. x\<lparr>vw_hash := Token_Hash ''secret''\<rparr>) (viewers (sample_db []))\<rparr>"

lemma sample_token: "FromRequest (rq_authorization (sample_request b)) = Some ''secret''"
proof -
  have "FromRequest (''Bearer '' @ ''secret'') = Some ''secret''" by (rule FromRequest_bearer) (simp_all add: visible_def)
  then show ?thesis by (simp add: sample_request_def)
qed

lemma sample_presents: "presents (sample_request b) h \<longleftrightarrow> h = Token_Hash ''secret''"
  by (auto simp: presents_def sample_token)

lemma sample_hash_length [simp]: "length (Token_Hash t) = 32"
  by (simp add: Token_Hash_def)

lemma phone_db_ok: "parts_ok phone_db" "accounts_ok sample_pg phone_db" "faults phone_db = []"
  "devices phone_db = [\<lparr>dev_id = ''d1'', dev_family = ''f1'', dev_name = ''phone'', dev_hash = Token_Hash ''secret'', dev_expires = None\<rparr>]"
proof -
  show "parts_ok phone_db" using sample_ok(1) [of "[]"] parts_ok_cong [of phone_db "sample_db []"] by (simp add: phone_db_def)
  show "accounts_ok sample_pg phone_db"
    using sample_accounts [of "[]"] by (auto simp: accounts_ok_def phone_db_def sample_db_def)
qed (simp_all add: phone_db_def sample_db_def)

lemma sample_body:
  "decodeStrict sample_rt fix_names (put_fix sample_rt) no_fix_request (rq_body (sample_request ''fix''))
     = Some (no_fix_request\<lparr>fq_lat := Some (Fin 6), fq_lon := Some (Fin 5), fq_ts := Some 86400\<rparr>)"
proof -
  have "lookup_field fix_names ''Lat'' = Some ''lat''" "lookup_field fix_names ''lon'' = Some ''lon''" "lookup_field fix_names ''ts'' = Some ''ts''"
    "ParseInt ''86400'' = Inr 86400" by code_simp+
  then show ?thesis
    by (simp add: decodeStrict_def read_value_small maxBodyBytes_def sample_rt_def sample_request_def decode_struct_def put_fix_def
        get_float_def get_int64_def get_int_def decoder_more_def)
qed

lemma sample_ingest:
  "\<exists>d' n'. New sample_pg sample_rt None \<lparr>LiveSeconds = 120, StaleSeconds = 900\<rparr> [] (2 * day) FixesRoute (sample_request ''fix'') (phone_db, disp sample_push)
     = (writeJSON 201 (FixBody False), d', n')"
proof -
  let ?f = "\<lparr>DeviceID = ''d1'', TS = time_Unix 86400, Lon = Fin 5, Lat = Fin 6, AccuracyM = None, BatteryPct = None, SpeedMPS = None,
     TriggerReason = None, MsgID = None\<rparr>"
  have "month_free phone_db (monthStart (TS ?f))"
    using sample_ok(5) [of "[]"] by (simp add: month_free_def relation_exists_def phone_db_def)
  moreover have none: "all_fixes phone_db = []" by (simp add: all_fixes_def phone_db_def sample_db_def empty_db_def)
  ultimately obtain d1 where i: "IngestFix sample_pg ?f (2 * day) phone_db = (Inr True, d1)"
    using ingest_heals [of phone_db sample_pg ?f "''d1''" "2 * day" "2 * day"] phone_db_ok none
    by (auto simp: sample_ok fix_text_def fix_checks_def pg_nonneg_def in_range_def time_Unix_def wrap64_def unix_to_internal_def
        day_def second_def validateFixTimestamp_def MaxIngestFutureSkew_def MaxIngestBacklog_def hour_def)
  have "\<exists>d' n'. ingest sample_pg noopNotifier (2 * day) (to_Device (hd (devices phone_db))) ?f (phone_db, disp sample_push) = (Inr True, d', n')"
    using i by (simp add: ingest_def noopNotifier_def split: prod.splits)
  then show ?thesis
    using sample_body phone_db_ok
    by (auto simp: New_def requireDevice_def sample_token AuthenticateDevice_def TokenHashLen_def run_def device_by_hash_sql_def unexpired_def
        postFix_def no_fix_request_def validateOptionalMetrics_def bad_metric_def to_Device_def)
qed

theorem device_writes_only_its_own_witness:
  "\<exists>d' n'. New sample_pg sample_rt None \<lparr>LiveSeconds = 120, StaleSeconds = 900\<rparr> [] (2 * day) FixesRoute (sample_request ''fix'') (phone_db, disp sample_push)
     = (writeJSON 201 (FixBody False), d', n') \<and> writes_own ''d1'' phone_db d'"
proof -
  obtain d' n' where N: "New sample_pg sample_rt None \<lparr>LiveSeconds = 120, StaleSeconds = 900\<rparr> [] (2 * day) FixesRoute (sample_request ''fix'') (phone_db, disp sample_push)
     = (writeJSON 201 (FixBody False), d', n')" using sample_ingest by blast
  have "writes_own ''d1'' phone_db d'"
    using device_writes_only_its_own [OF N] phone_db_ok by (auto simp: writeJSON_def)
  then show ?thesis using N by blast
qed

theorem fix_acknowledged_witness:
  "\<exists>d' n'. New sample_pg sample_rt None \<lparr>LiveSeconds = 120, StaleSeconds = 900\<rparr> [] (2 * day) FixesRoute (sample_request ''fix'') (phone_db, disp sample_push)
     = (writeJSON 201 (FixBody False), d', n') \<and> length (filter (\<lambda>x. fix_key x = (''d1'', pg_time (time_Unix 86400))) (all_fixes d')) = 1"
proof -
  obtain d' n' where N: "New sample_pg sample_rt None \<lparr>LiveSeconds = 120, StaleSeconds = 900\<rparr> [] (2 * day) FixesRoute (sample_request ''fix'') (phone_db, disp sample_push)
     = (writeJSON 201 (FixBody False), d', n')" using sample_ingest by blast
  have "rs_status (writeJSON 201 (FixBody False)) = 200 \<or> rs_status (writeJSON 201 (FixBody False)) = 201" by (simp add: writeJSON_def)
  from fix_acknowledged [OF N this] obtain ts where "Some ts = Some 86400"
      "length (filter (\<lambda>x. fix_key x = (''d1'', pg_time (time_Unix ts))) (all_fixes d')) = 1"
    using phone_db_ok sample_body by auto
  then show ?thesis using N by auto
qed


theorem history_authorization_witness:
  "fst (getDeviceHistory sample_pg sample_rt (sample_request []) (to_Viewer (hd (viewers (sample_db [])))) (sample_db [])) = writeJSON 200 (History [])"
proof -
  let ?d = "sample_db []" and ?v = "hd (viewers (sample_db []))" and ?r = "sample_request []"
  have v: "?v \<in> set (viewers ?d)" "vw_family ?v = ''f1''" by (simp_all add: sample_db_def)
  have id: "rq_id ?r = ''d1''" "uuid_parse sample_rt ''d1''" by (simp_all add: sample_request_def sample_rt_def)
  have p: "parseWindow ?r \<noteq> None" "parsePage ?r \<noteq> None"
    by (simp_all add: parseWindow_def epochParam_def parsePage_def int_param_def sample_request_def)
  have dev: "''d1'' \<in> dev_id ` set (devices ?d)" "\<not> (\<forall>x \<in> set (devices ?d). dev_id x = ''d1'' \<longrightarrow> dev_family x \<noteq> ''f1'')"
    by (simp_all add: sample_db_def)
  have "all_fixes ?d = []" by (simp add: all_fixes_def sample_db_def empty_db_def)
  then show ?thesis
    using history_authorization [OF sample_ok(4) sample_accounts v(1), of sample_rt ?r "''d1''"] id p dev v(2) by (auto simp: sample_ok)
qed

theorem supersede_invisible_witness:
  "fst (New sample_pg sample_rt (Some (EventNotifier sample_pg)) \<lparr>LiveSeconds = 120, StaleSeconds = 900\<rparr> [] 0 PushRoute (sample_request ''reg'') (viewer_db, disp sample_push))
   = fst (New sample_pg sample_rt (Some (EventNotifier sample_pg)) \<lparr>LiveSeconds = 120, StaleSeconds = 900\<rparr> [] 0 PushRoute (sample_request ''rot'') (viewer_db, disp sample_push))"
proof (rule supersede_invisible)
  show "decodeStrict sample_rt push_names put_push no_push_request (rq_body (sample_request ''reg''))
      = Some \<lparr>sq_provider = Some ''fcm'', sq_token = Some '' tok '', sq_replaces = None\<rparr>"
    by (simp add: decodeStrict_def read_value_small maxBodyBytes_def sample_rt_def sample_request_def decode_struct_def lookup_field_def push_names_def put_push_def
        get_string_def decoder_more_def no_push_request_def)
  show "decodeStrict sample_rt push_names put_push no_push_request (rq_body (sample_request ''rot''))
      = Some (\<lparr>sq_provider = Some ''fcm'', sq_token = Some '' tok '', sq_replaces = None\<rparr>\<lparr>sq_replaces := Some ''old''\<rparr>)"
    by (simp add: decodeStrict_def read_value_small maxBodyBytes_def sample_rt_def sample_request_def decode_struct_def lookup_field_def push_names_def put_push_def
        get_string_def decoder_more_def no_push_request_def)
qed (simp add: sample_request_def)

end
