(* ===== verification/LiveStream.thy ===== *)
theory LiveStream
  imports Server
begin

text \<open>
  The live stream (\<open>internal/server/stream.go\<close>): one connection of a watcher, polled on a ticker. A
  connection keeps its cursor, its observation of the previous poll and whether it has reported an
  outage; what reaches the watcher is the list of events whose three writes all succeeded. The
  theorems show which events a poll writes, that the ids of a connection are a cursor, that a watcher
  who applies the events knows the presentation value of every device after every successful poll,
  that an outage is reported once and followed by a full restatement, and where a resumed connection
  is told less than the comments promise.
\<close>

section \<open>Cadence\<close>

definition streamPollInterval :: duration where "streamPollInterval = second"

definition streamPollTick :: "Windows \<Rightarrow> duration" where
  "streamPollTick w =
     (let half = quot (wrap64 (SweepBound w * second)) 2
      in if half > 0 \<and> half < streamPollInterval then half else streamPollInterval)"

definition streamHeartbeatInterval :: duration where "streamHeartbeatInterval = 15 * second"

section \<open>Events\<close>

definition eventPosition :: string where "eventPosition = ''position''"
definition eventPresentation :: string where "eventPresentation = ''presentation''"
definition eventError :: string where "eventError = ''error''"

record streamErrorPayload =
  se_error :: string
  se_message :: string

datatype payload = Entry entry | Failure streamErrorPayload

text \<open>An event as it goes over the wire; id 0 stands for no id line.\<close>

record frame =
  fr_event :: string
  fr_id :: int
  fr_payload :: payload

definition frame_head :: "frame \<Rightarrow> string" where
  "frame_head f = (if fr_id f \<noteq> 0 then ''id: '' @ FormatInt (fr_id f) @ [CHR 0x0A] else [])
     @ ''event: '' @ fr_event f @ [CHR 0x0A] @ ''data: ''"

text \<open>\<open>json.Marshal\<close> fails on a number that is not finite, and on nothing else in these payloads.\<close>

definition marshals :: "payload \<Rightarrow> bool" where
  "marshals p = (case p of
     Entry (Located q) \<Rightarrow> \<not> isNotFinite (pr_lat q) \<and> \<not> isNotFinite (pr_lon q)
   | _ \<Rightarrow> True)"

section \<open>A connection\<close>

text \<open>
  \<open>streamConn\<close>. An \<open>observation\<close> is the last contact a poll saw. The clock is read in the order the
  code calls \<open>time.Now\<close>; \<open>sc_writes\<close> says which of the coming writes succeed (all, when it is
  empty); \<open>sc_frames\<close> are the complete events written so far.
\<close>

type_synonym observation = "instant option"

record streamConn =
  sc_familyID :: string
  sc_windows :: Windows
  sc_since :: instant
  sc_cursorInstant :: instant
  sc_resuming :: bool
  sc_swept :: bool
  sc_prev :: "string \<rightharpoonup> observation"
  sc_prevAt :: instant
  sc_degraded :: bool
  sc_lastWrite :: instant
  sc_clock :: "nat \<Rightarrow> instant"
  sc_reads :: nat
  sc_writes :: "bool list"
  sc_frames :: "frame list"

definition time_Now :: "streamConn \<Rightarrow> instant \<times> streamConn" where
  "time_Now c = (sc_clock c (sc_reads c), c\<lparr>sc_reads := Suc (sc_reads c)\<rparr>)"

definition Write :: "streamConn \<Rightarrow> bool \<times> streamConn" where
  "Write c = (case sc_writes c of [] \<Rightarrow> (True, c) | ok # rest \<Rightarrow> (ok, c\<lparr>sc_writes := rest\<rparr>))"

definition writeEvent :: "string \<Rightarrow> int \<Rightarrow> payload \<Rightarrow> streamConn \<Rightarrow> bool \<times> streamConn" where
  "writeEvent name n p c =
     (if \<not> marshals p then (True, c)
      else case Write c of
             (False, c1) \<Rightarrow> (False, c1)
           | (True, c1) \<Rightarrow>
               (case Write c1 of
                  (False, c2) \<Rightarrow> (False, c2)
                | (True, c2) \<Rightarrow>
                    (case Write c2 of
                       (False, c3) \<Rightarrow> (False, c3)
                     | (True, c3) \<Rightarrow>
                         (case time_Now c3 of (t, c4) \<Rightarrow>
                            (True, c4\<lparr>sc_lastWrite := t,
                                      sc_frames := sc_frames c4 @ [\<lparr>fr_event = name, fr_id = n, fr_payload = p\<rparr>]\<rparr>)))))"

definition unavailable :: streamErrorPayload where
  "unavailable = \<lparr>se_error = ''unavailable'',
     se_message = ''tracker cannot currently read this family's data; the states shown are no longer confirmed''\<rparr>"

definition reportUnavailable :: "streamConn \<Rightarrow> bool \<times> streamConn" where
  "reportUnavailable c =
     (if sc_degraded c then (True, c)
      else writeEvent eventError 0 (Failure unavailable) (c\<lparr>sc_degraded := True\<rparr>))"

subsection \<open>Which devices are owed a presentation event\<close>

definition snapshotUnlocated :: "DeviceState list \<Rightarrow> instant \<Rightarrow> string set \<Rightarrow> streamConn \<Rightarrow> DeviceState list" where
  "snapshotUnlocated states t positioned c =
     filter (\<lambda>s. St_DeviceID s \<notin> positioned \<and> Evaluate t (St_LastContact s) (sc_windows c) = NoPosition) states"

definition resumeSweep :: "pg \<Rightarrow> DeviceState list \<Rightarrow> instant \<Rightarrow> string set \<Rightarrow> streamConn \<Rightarrow> db \<Rightarrow> (store_error + DeviceState list) \<times> db" where
  "resumeSweep pg states t positioned c d =
     (case FamilyLastContactAsOf pg (sc_familyID c) (sc_cursorInstant c) d of
        (Inl e, d1) \<Rightarrow> (Inl e, d1)
      | (Inr asOf, d1) \<Rightarrow>
          (Inr (filter (\<lambda>s. St_DeviceID s \<notin> positioned
                  \<and> (case asOf (St_DeviceID s) of
                       None \<Rightarrow> True
                     | Some lastContactThen \<Rightarrow>
                         Evaluate (sc_cursorInstant c) (Some lastContactThen) (sc_windows c)
                           \<noteq> Evaluate t (St_LastContact s) (sc_windows c))) states), d1))"

definition reannounce :: "DeviceState list \<Rightarrow> string set \<Rightarrow> DeviceState list" where
  "reannounce states positioned = filter (\<lambda>s. St_DeviceID s \<notin> positioned) states"

definition diff :: "DeviceState list \<Rightarrow> instant \<Rightarrow> string set \<Rightarrow> streamConn \<Rightarrow> DeviceState list" where
  "diff states t positioned c =
     filter (\<lambda>s. St_DeviceID s \<notin> positioned
        \<and> (case sc_prev c (St_DeviceID s) of
             None \<Rightarrow> False
           | Some lc \<Rightarrow> Evaluate (sc_prevAt c) lc (sc_windows c) \<noteq> Evaluate t (St_LastContact s) (sc_windows c))) states"

subsection \<open>One poll\<close>

text \<open>The loop over the positions; \<open>None\<close> when a write failed.\<close>

fun write_positions :: "instant \<Rightarrow> instant \<Rightarrow> DeviceState list \<Rightarrow> string set \<Rightarrow> streamConn \<Rightarrow> string set option \<times> streamConn" where
  "write_positions t since [] positioned c = (Some positioned, c)"
| "write_positions t since (s # ss) positioned c =
     (case St_Current s of
        None \<Rightarrow> write_positions t since ss positioned c
      | Some cur \<Rightarrow>
          if \<not> since < Pos_ReceivedAt cur then write_positions t since ss positioned c
          else case writeEvent eventPosition (UnixMicro (Pos_ReceivedAt cur)) (Entry (entryFor s t (sc_windows c))) c of
                 (False, c1) \<Rightarrow> (None, c1)
               | (True, c1) \<Rightarrow>
                   write_positions t since ss (insert (St_DeviceID s) positioned) (c1\<lparr>sc_since := Pos_ReceivedAt cur\<rparr>))"

fun write_presentations :: "instant \<Rightarrow> DeviceState list \<Rightarrow> streamConn \<Rightarrow> bool \<times> streamConn" where
  "write_presentations t [] c = (True, c)"
| "write_presentations t (s # ss) c =
     (case writeEvent eventPresentation 0 (Entry (presentationPayloadFor s t (sc_windows c))) c of
        (False, c1) \<Rightarrow> (False, c1)
      | (True, c1) \<Rightarrow> write_presentations t ss c1)"

definition remember :: "DeviceState list \<Rightarrow> instant \<Rightarrow> streamConn \<Rightarrow> streamConn" where
  "remember states t c = c\<lparr>sc_prev := map_of (rev (map (\<lambda>s. (St_DeviceID s, St_LastContact s)) states)), sc_prevAt := t\<rparr>"

definition owed_devices :: "pg \<Rightarrow> DeviceState list \<Rightarrow> instant \<Rightarrow> bool \<Rightarrow> string set \<Rightarrow> streamConn \<Rightarrow> db \<Rightarrow> (store_error + DeviceState list) \<times> db" where
  "owed_devices pg states t recovered positioned c d =
     (if \<not> sc_swept c \<and> sc_resuming c then resumeSweep pg states t positioned c d
      else if \<not> sc_swept c then (Inr (snapshotUnlocated states t positioned c), d)
      else if recovered then (Inr (reannounce states positioned), d)
      else (Inr (diff states t positioned c), d))"

text \<open>\<open>poll\<close>: false when the watcher is gone.\<close>

definition poll :: "pg \<Rightarrow> runtime \<Rightarrow> db \<Rightarrow> streamConn \<Rightarrow> bool \<times> db \<times> streamConn" where
  "poll pg rt d c =
     (case FamilyDeviceStates pg (sc_familyID c) d of
        (Inl e, d1) \<Rightarrow> (case reportUnavailable c of (ok, c1) \<Rightarrow> (ok, d1, c1))
      | (Inr states0, d1) \<Rightarrow>
          (let recovered = sc_degraded c in
           case time_Now (c\<lparr>sc_degraded := False\<rparr>) of (t, c1) \<Rightarrow>
           (let arrivals = sortByArrival states0 in
            case write_positions t (sc_since c1) arrivals {} c1 of
              (None, c2) \<Rightarrow> (False, d1, c2)
            | (Some positioned, c2) \<Rightarrow>
                (let states = sortDeviceStates (unicode_lower rt) arrivals in
                 case owed_devices pg states t recovered positioned c2 d1 of
                   (Inl e, d2) \<Rightarrow> (case reportUnavailable c2 of (ok, c3) \<Rightarrow> (ok, d2, c3))
                 | (Inr owed, d2) \<Rightarrow>
                     (case write_presentations t owed (c2\<lparr>sc_swept := True\<rparr>) of
                        (False, c3) \<Rightarrow> (False, d2, c3)
                      | (True, c3) \<Rightarrow> (True, d2, remember states t c3))))))"

subsection \<open>The handler\<close>

text \<open>A stream request also carries the cursor the browser sends back after a reconnect.\<close>

record stream_request = request +
  rq_last_event_id :: string

definition authViewerForStream :: "stream_request \<Rightarrow> db \<Rightarrow> (response + Viewer) \<times> db" where
  "authViewerForStream r d =
     (let tok = (case FromRequest (rq_authorization r) of
                   Some tok \<Rightarrow> Some tok
                 | None \<Rightarrow> if rq_query r ''token'' \<noteq> [] then Some (rq_query r ''token'') else None)
      in case tok of
           None \<Rightarrow> (Inl unauthorized, d)
         | Some tok \<Rightarrow>
             (case AuthenticateViewer (Token_Hash tok) d of
                (Inr v, d1) \<Rightarrow> (Inr v, d1)
              | (Inl e, d1) \<Rightarrow> (Inl (if e = ErrUnknownToken then unauthorized else internal_error), d1)))"

definition parseResumeCursor :: "stream_request \<Rightarrow> instant \<times> bool" where
  "parseResumeCursor r =
     (if rq_last_event_id r = [] then (zero_time, False)
      else case ParseInt (rq_last_event_id r) of
             Inl _ \<Rightarrow> (zero_time, False)
           | Inr micros \<Rightarrow> (time_UnixMicro micros, True))"

definition open_conn :: "string \<Rightarrow> Windows \<Rightarrow> instant \<times> bool \<Rightarrow> (nat \<Rightarrow> instant) \<Rightarrow> bool list \<Rightarrow> streamConn" where
  "open_conn fam w cur clk writes =
     \<lparr>sc_familyID = fam, sc_windows = w, sc_since = fst cur, sc_cursorInstant = fst cur, sc_resuming = snd cur,
      sc_swept = False, sc_prev = Map.empty, sc_prevAt = zero_time, sc_degraded = False, sc_lastWrite = zero_time,
      sc_clock = clk, sc_reads = 0, sc_writes = writes, sc_frames = []\<rparr>"

definition heartbeat :: "streamConn \<Rightarrow> bool \<times> streamConn" where
  "heartbeat c =
     (case time_Now c of (t, c1) \<Rightarrow>
        if t - sc_lastWrite c1 < streamHeartbeatInterval then (True, c1)
        else case Write c1 of
               (False, c2) \<Rightarrow> (False, c2)
             | (True, c2) \<Rightarrow> (case time_Now c2 of (t', c3) \<Rightarrow> (True, c3\<lparr>sc_lastWrite := t'\<rparr>)))"

text \<open>
  The loop. Every tick finds the database as the rest of the system has left it; when the list of
  ticks ends, the watcher has closed the connection.
\<close>

fun stream_loop :: "pg \<Rightarrow> runtime \<Rightarrow> db list \<Rightarrow> streamConn \<Rightarrow> streamConn" where
  "stream_loop pg rt [] c = c"
| "stream_loop pg rt (d # ds) c =
     (case poll pg rt d c of
        (False, _, c1) \<Rightarrow> c1
      | (True, _, c1) \<Rightarrow> (case heartbeat c1 of (False, c2) \<Rightarrow> c2 | (True, c2) \<Rightarrow> stream_loop pg rt ds c2))"

datatype stream_result = Refused response | Streamed streamConn

definition getStream ::
  "pg \<Rightarrow> runtime \<Rightarrow> Windows \<Rightarrow> bool \<Rightarrow> (nat \<Rightarrow> instant) \<Rightarrow> bool list \<Rightarrow> stream_request \<Rightarrow> db \<Rightarrow> db list \<Rightarrow> stream_result" where
  "getStream pg rt w flusher clk writes r d ticks =
     (if \<not> flusher then Refused internal_error
      else case authViewerForStream r d of
             (Inl resp, _) \<Rightarrow> Refused resp
           | (Inr v, d1) \<Rightarrow>
               (case poll pg rt d1 (open_conn (Viewer_FamilyID v) w (parseResumeCursor r) clk writes) of
                  (False, _, c) \<Rightarrow> Streamed c
                | (True, _, c) \<Rightarrow> Streamed (stream_loop pg rt ticks c)))"

section \<open>What a poll writes\<close>

text \<open>
  Writing touches the wire and the clock and nothing else of a connection.
\<close>

definition wrote :: "frame list \<Rightarrow> streamConn \<Rightarrow> streamConn \<Rightarrow> bool" where
  "wrote fs c c' \<longleftrightarrow> c' = c\<lparr>sc_lastWrite := sc_lastWrite c', sc_reads := sc_reads c', sc_writes := sc_writes c', sc_frames := sc_frames c @ fs\<rparr>
     \<and> (sc_writes c = [] \<longrightarrow> sc_writes c' = [])"

lemma wroteD:
  assumes "wrote fs c c'"
  shows "sc_frames c' = sc_frames c @ fs" "sc_since c' = sc_since c" "sc_windows c' = sc_windows c" "sc_familyID c' = sc_familyID c"
    "sc_prev c' = sc_prev c" "sc_prevAt c' = sc_prevAt c" "sc_degraded c' = sc_degraded c" "sc_swept c' = sc_swept c"
    "sc_resuming c' = sc_resuming c" "sc_cursorInstant c' = sc_cursorInstant c" "sc_clock c' = sc_clock c"
    "sc_writes c = [] \<Longrightarrow> sc_writes c' = []"
proof -
  obtain l r ws where "c' = c\<lparr>sc_lastWrite := l, sc_reads := r, sc_writes := ws, sc_frames := sc_frames c @ fs\<rparr>"
    using assms by (auto simp: wrote_def)
  then show "sc_frames c' = sc_frames c @ fs" "sc_since c' = sc_since c" "sc_windows c' = sc_windows c" "sc_familyID c' = sc_familyID c"
    "sc_prev c' = sc_prev c" "sc_prevAt c' = sc_prevAt c" "sc_degraded c' = sc_degraded c" "sc_swept c' = sc_swept c"
    "sc_resuming c' = sc_resuming c" "sc_cursorInstant c' = sc_cursorInstant c" "sc_clock c' = sc_clock c" by simp_all
  show "sc_writes c = [] \<Longrightarrow> sc_writes c' = []" using assms by (simp add: wrote_def)
qed

lemma wrote_refl: "wrote [] c c"
  by (simp add: wrote_def)

lemma wrote_trans: "wrote fs c c1 \<Longrightarrow> wrote gs c1 c2 \<Longrightarrow> wrote (fs @ gs) c c2"
proof -
  assume a: "wrote fs c c1" "wrote gs c1 c2"
  obtain l r ws where 1: "c1 = c\<lparr>sc_lastWrite := l, sc_reads := r, sc_writes := ws, sc_frames := sc_frames c @ fs\<rparr>"
    using a(1) by (auto simp: wrote_def)
  obtain l' r' ws' where 2: "c2 = c1\<lparr>sc_lastWrite := l', sc_reads := r', sc_writes := ws', sc_frames := sc_frames c1 @ gs\<rparr>"
    using a(2) by (auto simp: wrote_def)
  have "sc_writes c = [] \<Longrightarrow> sc_writes c2 = []" using wroteD(12) a by blast
  then show ?thesis by (simp add: wrote_def 1 2)
qed

lemma wrote_since: "wrote fs c c' \<Longrightarrow> wrote fs (c\<lparr>sc_since := u\<rparr>) (c'\<lparr>sc_since := u\<rparr>)"
proof -
  assume a: "wrote fs c c'"
  obtain l r ws where "c' = c\<lparr>sc_lastWrite := l, sc_reads := r, sc_writes := ws, sc_frames := sc_frames c @ fs\<rparr>"
    using a by (auto simp: wrote_def)
  then show ?thesis using wroteD(12) [OF a] by (simp add: wrote_def)
qed

lemma Write_wrote: "Write c = (ok, c') \<Longrightarrow> wrote [] c c' \<and> (sc_writes c = [] \<longrightarrow> ok)"
  by (cases "sc_writes c") (auto simp: Write_def wrote_def)

lemma writeEvent_wrote:
  assumes "writeEvent name n p c = (ok, c')"
  shows "wrote (if ok \<and> marshals p then [\<lparr>fr_event = name, fr_id = n, fr_payload = p\<rparr>] else []) c c'
    \<and> (\<not> ok \<longrightarrow> marshals p) \<and> (sc_writes c = [] \<longrightarrow> ok)"
proof (cases "marshals p")
  case False
  then show ?thesis using assms wrote_refl by (simp add: writeEvent_def)
next
  case True
  obtain ok1 c1 where 1: "Write c = (ok1, c1)" by fastforce
  obtain ok2 c2 where 2: "Write c1 = (ok2, c2)" by fastforce
  obtain ok3 c3 where 3: "Write c2 = (ok3, c3)" by fastforce
  note w = Write_wrote [OF 1] Write_wrote [OF 2] Write_wrote [OF 3]
  have w2: "wrote [] c c2" using wrote_trans w by fastforce
  have w3: "wrote [] c c3" using wrote_trans w2 w by fastforce
  have fin: "wrote [\<lparr>fr_event = name, fr_id = n, fr_payload = p\<rparr>] c3
      (snd (time_Now c3)\<lparr>sc_lastWrite := fst (time_Now c3), sc_frames := sc_frames c3 @ [\<lparr>fr_event = name, fr_id = n, fr_payload = p\<rparr>]\<rparr>)"
    by (simp add: wrote_def time_Now_def)
  have ok: "sc_writes c = [] \<Longrightarrow> ok1 \<and> ok2 \<and> ok3" using w wroteD(12) by blast
  show ?thesis
    using assms True 1 2 3 w w2 w3 ok wrote_trans [OF w3 fin]
    by (cases ok1; cases ok2; cases ok3) (auto simp: writeEvent_def time_Now_def)
qed

lemma reportUnavailable_wrote:
  assumes "reportUnavailable c = (ok, c')"
  shows "\<exists>fs. wrote fs (c\<lparr>sc_degraded := True\<rparr>) c' \<and> set fs \<subseteq> {\<lparr>fr_event = eventError, fr_id = 0, fr_payload = Failure unavailable\<rparr>}
    \<and> (sc_degraded c \<longrightarrow> fs = []) \<and> (\<not> sc_degraded c \<longrightarrow> length fs = (if ok then 1 else 0)) \<and> (sc_writes c = [] \<longrightarrow> ok)"
proof (cases "sc_degraded c")
  case True
  then have e: "c\<lparr>sc_degraded := True\<rparr> = c" by simp
  have "wrote [] (c\<lparr>sc_degraded := True\<rparr>) c" by (subst e) (rule wrote_refl)
  moreover have "ok \<and> c' = c" using assms True by (simp add: reportUnavailable_def)
  ultimately show ?thesis using True by (intro exI [of _ "[]"]) (simp only: list.set, blast)
next
  case False
  then have "writeEvent eventError 0 (Failure unavailable) (c\<lparr>sc_degraded := True\<rparr>) = (ok, c')"
    using assms by (simp add: reportUnavailable_def)
  from writeEvent_wrote [OF this] show ?thesis using False
    by (intro exI [of _ "if ok then [\<lparr>fr_event = eventError, fr_id = 0, fr_payload = Failure unavailable\<rparr>] else []"])
      (auto simp: marshals_def)
qed


definition fresh :: "instant \<Rightarrow> DeviceState \<Rightarrow> bool" where
  "fresh since s \<longleftrightarrow> (case St_Current s of None \<Rightarrow> False | Some cur \<Rightarrow> since < Pos_ReceivedAt cur)"

definition arrival :: "DeviceState \<Rightarrow> instant" where
  "arrival s = Pos_ReceivedAt (the (St_Current s))"

definition position_frame :: "instant \<Rightarrow> Windows \<Rightarrow> DeviceState \<Rightarrow> frame" where
  "position_frame t w s = \<lparr>fr_event = eventPosition, fr_id = UnixMicro (arrival s), fr_payload = Entry (entryFor s t w)\<rparr>"

definition presentation_frame :: "instant \<Rightarrow> Windows \<Rightarrow> DeviceState \<Rightarrow> frame" where
  "presentation_frame t w s = \<lparr>fr_event = eventPresentation, fr_id = 0, fr_payload = Entry (presentationPayloadFor s t w)\<rparr>"

text \<open>
  The positions loop writes a prefix of the fresh devices, in order, all of them unless a write
  failed, and leaves the cursor on the last of them.
\<close>

lemma write_positions_spec:
  assumes "write_positions t since ss P c = (r, c')"
  shows "\<exists>sent rest. filter (fresh since) ss = sent @ rest
    \<and> (case r of None \<Rightarrow> rest \<noteq> [] | Some Q \<Rightarrow> rest = [] \<and> Q = P \<union> St_DeviceID ` set sent)
    \<and> wrote (map (position_frame t (sc_windows c)) (filter (\<lambda>s. marshals (Entry (entryFor s t (sc_windows c)))) sent))
        (c\<lparr>sc_since := (if sent = [] then sc_since c else arrival (last sent))\<rparr>) c'
    \<and> (sc_writes c = [] \<longrightarrow> r \<noteq> None)"
  using assms
proof (induction ss arbitrary: P c)
  case Nil
  then show ?case using wrote_refl [of c] by auto
next
  case (Cons s ss)
  show ?case
  proof (cases "fresh since s")
    case False
    then have "write_positions t since ss P c = (r, c')" using Cons.prems by (simp add: fresh_def split: option.splits)
    then show ?thesis using Cons.IH False by simp
  next
    case True
    then obtain cur where cur: "St_Current s = Some cur" "since < Pos_ReceivedAt cur" by (auto simp: fresh_def split: option.splits)
    have ar: "arrival s = Pos_ReceivedAt cur" using cur by (simp add: arrival_def)
    define p where "p = Entry (entryFor s t (sc_windows c))"
    obtain ok c1 where w: "writeEvent eventPosition (UnixMicro (Pos_ReceivedAt cur)) p c = (ok, c1)" by fastforce
    define fs where "fs = (if ok \<and> marshals p then [position_frame t (sc_windows c) s] else [])"
    have wr: "wrote fs c c1" "\<not> ok \<longrightarrow> marshals p" "sc_writes c = [] \<longrightarrow> ok"
      using writeEvent_wrote [OF w] by (auto simp: fs_def position_frame_def ar p_def [symmetric] split: if_splits)
    show ?thesis
    proof (cases ok)
      case False
      then have "r = None" "c' = c1" using Cons.prems cur w by (simp_all add: p_def)
      then show ?thesis using True False wr
        by (intro exI [of _ "[]"] exI [of _ "filter (fresh since) (s # ss)"]) (simp add: fs_def)
    next
      case ok: True
      define c2 where "c2 = c1\<lparr>sc_since := Pos_ReceivedAt cur\<rparr>"
      have "write_positions t since ss (insert (St_DeviceID s) P) c2 = (r, c')"
        using Cons.prems cur w ok by (simp add: p_def c2_def)
      from Cons.IH [OF this] obtain sent rest where ih: "filter (fresh since) ss = sent @ rest"
        "case r of None \<Rightarrow> rest \<noteq> [] | Some Q \<Rightarrow> rest = [] \<and> Q = insert (St_DeviceID s) P \<union> St_DeviceID ` set sent"
        "wrote (map (position_frame t (sc_windows c2)) (filter (\<lambda>s. marshals (Entry (entryFor s t (sc_windows c2)))) sent))
          (c2\<lparr>sc_since := (if sent = [] then sc_since c2 else arrival (last sent))\<rparr>) c'"
        "sc_writes c2 = [] \<longrightarrow> r \<noteq> None" by blast
      define u where "u = (if sent = [] then arrival s else arrival (last sent))"
      have w0: "wrote fs (c\<lparr>sc_since := u\<rparr>) (c1\<lparr>sc_since := u\<rparr>)"
        using wr(1) by (rule wrote_since)
      have win: "sc_windows c2 = sc_windows c" using wroteD(3) [OF wr(1)] by (simp add: c2_def)
      have "c2\<lparr>sc_since := (if sent = [] then sc_since c2 else arrival (last sent))\<rparr> = c1\<lparr>sc_since := u\<rparr>"
        by (simp add: c2_def u_def ar)
      then have "wrote (fs @ map (position_frame t (sc_windows c)) (filter (\<lambda>s. marshals (Entry (entryFor s t (sc_windows c)))) sent))
          (c\<lparr>sc_since := u\<rparr>) c'"
        using wrote_trans [OF w0] ih(3) by (simp add: win)
      moreover have "sc_writes c = [] \<longrightarrow> r \<noteq> None" using ih(4) wroteD(12) [OF wr(1)] by (simp add: c2_def)
      ultimately show ?thesis using True ih(1,2) ok
        by (intro exI [of _ "s # sent"] exI [of _ rest]) (auto simp: fs_def p_def u_def split: option.splits)
    qed
  qed
qed

lemma write_presentations_spec:
  assumes "write_presentations t ss c = (ok, c')"
  shows "\<exists>sent rest. ss = sent @ rest \<and> (ok \<longrightarrow> rest = []) \<and> wrote (map (presentation_frame t (sc_windows c)) sent) c c'
    \<and> (sc_writes c = [] \<longrightarrow> ok)"
  using assms
proof (induction ss arbitrary: c)
  case Nil
  then show ?case using wrote_refl [of c] by simp
next
  case (Cons s ss)
  define p where "p = Entry (presentationPayloadFor s t (sc_windows c))"
  obtain ok1 c1 where w: "writeEvent eventPresentation 0 p c = (ok1, c1)" by fastforce
  have m: "marshals p" by (auto simp: p_def marshals_def presentationPayloadFor_def unlocated_for_def Let_def split: option.splits)
  have wr: "wrote (if ok1 then [presentation_frame t (sc_windows c) s] else []) c c1" "sc_writes c = [] \<longrightarrow> ok1"
    using writeEvent_wrote [OF w] m by (simp_all add: presentation_frame_def p_def [symmetric] split: if_splits)
  show ?case
  proof (cases ok1)
    case False
    then show ?thesis using Cons.prems w wr by (intro exI [of _ "[]"] exI [of _ "s # ss"]) (simp add: p_def)
  next
    case True
    then have "write_presentations t ss c1 = (ok, c')" using Cons.prems w by (simp add: p_def)
    from Cons.IH [OF this] obtain sent rest where ih: "ss = sent @ rest" "ok \<longrightarrow> rest = []"
      "wrote (map (presentation_frame t (sc_windows c1)) sent) c1 c'" "sc_writes c1 = [] \<longrightarrow> ok" by blast
    have "wrote (map (presentation_frame t (sc_windows c)) (s # sent)) c c'"
      using wrote_trans [OF wr(1) ih(3)] True wroteD(3) [OF wr(1)] by simp
    then show ?thesis using ih wroteD(12) [OF wr(1)] by (intro exI [of _ "s # sent"] exI [of _ rest]) simp
  qed
qed


text \<open>
  The four ways a poll goes: the family cannot be read; the watcher leaves during the positions; the
  second read of a resumed connection fails; or the presentation events are written, all of them
  unless the watcher leaves.
\<close>

definition batch :: "streamConn \<Rightarrow> DeviceState list \<Rightarrow> DeviceState list" where
  "batch c states = filter (fresh (sc_since c)) (sortByArrival states)"

definition poll_time :: "streamConn \<Rightarrow> instant" where
  "poll_time c = sc_clock c (sc_reads c)"

definition after_positions :: "streamConn \<Rightarrow> DeviceState list \<Rightarrow> streamConn \<Rightarrow> bool" where
  "after_positions c sent c2 \<longleftrightarrow>
     wrote (map (position_frame (poll_time c) (sc_windows c))
         (filter (\<lambda>s. marshals (Entry (entryFor s (poll_time c) (sc_windows c)))) sent))
       (c\<lparr>sc_degraded := False, sc_since := (if sent = [] then sc_since c else arrival (last sent))\<rparr>) c2"

lemma after_positionsD:
  assumes "after_positions c sent c2"
  shows "sc_since c2 = (if sent = [] then sc_since c else arrival (last sent))" "sc_windows c2 = sc_windows c" "sc_familyID c2 = sc_familyID c"
    "sc_prev c2 = sc_prev c" "sc_prevAt c2 = sc_prevAt c" "\<not> sc_degraded c2" "sc_swept c2 = sc_swept c" "sc_resuming c2 = sc_resuming c"
    "sc_cursorInstant c2 = sc_cursorInstant c" "sc_writes c = [] \<Longrightarrow> sc_writes c2 = []"
    "sc_frames c2 = sc_frames c @ map (position_frame (poll_time c) (sc_windows c))
       (filter (\<lambda>s. marshals (Entry (entryFor s (poll_time c) (sc_windows c)))) sent)"
  using wroteD [OF assms [unfolded after_positions_def]] by simp_all

lemma pollE [consumes 1, case_names unread left unswept presented]:
  assumes "poll pg rt d c = (ok, d', c')"
  obtains e d1 where "FamilyDeviceStates pg (sc_familyID c) d = (Inl e, d1)" "reportUnavailable c = (ok, c')"
  | states d1 sent rest where "FamilyDeviceStates pg (sc_familyID c) d = (Inr states, d1)"
      "batch c states = sent @ rest" "rest \<noteq> []" "after_positions c sent c'" "\<not> ok" "sc_writes c \<noteq> []"
  | states d1 e d2 c2 where "FamilyDeviceStates pg (sc_familyID c) d = (Inr states, d1)" "after_positions c (batch c states) c2"
      "owed_devices pg (sortDeviceStates (unicode_lower rt) (sortByArrival states)) (poll_time c) (sc_degraded c)
         (St_DeviceID ` set (batch c states)) c2 d1 = (Inl e, d2)"
      "reportUnavailable c2 = (ok, c')"
  | states d1 owed d2 c2 sent rest c3 where "FamilyDeviceStates pg (sc_familyID c) d = (Inr states, d1)"
      "after_positions c (batch c states) c2"
      "owed_devices pg (sortDeviceStates (unicode_lower rt) (sortByArrival states)) (poll_time c) (sc_degraded c)
         (St_DeviceID ` set (batch c states)) c2 d1 = (Inr owed, d2)"
      "owed = sent @ rest" "ok \<longrightarrow> rest = []" "sc_writes c = [] \<longrightarrow> ok"
      "wrote (map (presentation_frame (poll_time c) (sc_windows c)) sent) (c2\<lparr>sc_swept := True\<rparr>) c3"
      "c' = (if ok then remember (sortDeviceStates (unicode_lower rt) (sortByArrival states)) (poll_time c) c3 else c3)"
proof -
  obtain r d1 where f: "FamilyDeviceStates pg (sc_familyID c) d = (r, d1)" by fastforce
  show thesis
  proof (cases r)
    case (Inl e)
    then show thesis using assms f that(1) by (simp add: poll_def split: prod.splits)
  next
    case (Inr states)
    define t where "t = poll_time c"
    define c1 where "c1 = c\<lparr>sc_degraded := False, sc_reads := Suc (sc_reads c)\<rparr>"
    have now: "time_Now (c\<lparr>sc_degraded := False\<rparr>) = (t, c1)" by (simp add: time_Now_def t_def poll_time_def c1_def)
    obtain pr c2 where p: "write_positions t (sc_since c1) (sortByArrival states) {} c1 = (pr, c2)" by fastforce
    from write_positions_spec [OF p] obtain sent rest where sp0: "filter (fresh (sc_since c1)) (sortByArrival states) = sent @ rest"
      and sp: "case pr of None \<Rightarrow> rest \<noteq> [] | Some Q \<Rightarrow> rest = [] \<and> Q = {} \<union> St_DeviceID ` set sent"
      "wrote (map (position_frame t (sc_windows c1)) (filter (\<lambda>s. marshals (Entry (entryFor s t (sc_windows c1)))) sent))
        (c1\<lparr>sc_since := (if sent = [] then sc_since c1 else arrival (last sent))\<rparr>) c2" "sc_writes c1 = [] \<longrightarrow> pr \<noteq> None"
      by blast
    have b: "batch c states = sent @ rest" using sp0 by (simp add: batch_def c1_def)
    have "wrote [] (c\<lparr>sc_degraded := False, sc_since := u\<rparr>) (c1\<lparr>sc_since := u\<rparr>)" for u by (simp add: wrote_def c1_def)
    from wrote_trans [OF this sp(2)] have ap: "after_positions c sent c2"
      by (cases "sent = []") (simp_all add: after_positions_def c1_def t_def)
    show thesis
    proof (cases pr)
      case None
      have "ok = False \<and> c' = c2" using assms f Inr now p None by (simp add: poll_def Let_def)
      then show thesis using that(2) [of states d1 sent rest] f Inr sp b None ap by (simp add: c1_def)
    next
      case (Some Q)
      then have Q: "rest = []" "Q = St_DeviceID ` set (batch c states)" "after_positions c (batch c states) c2" using sp b ap by simp_all
      define sts where "sts = sortDeviceStates (unicode_lower rt) (sortByArrival states)"
      obtain ow d2 where o: "owed_devices pg sts t (sc_degraded c) Q c2 d1 = (ow, d2)" by fastforce
      show thesis
      proof (cases ow)
        case (Inl e)
        then have "reportUnavailable c2 = (ok, c')"
          using assms f Inr now p Some o by (simp add: poll_def sts_def split: prod.splits)
        then show thesis using that(3) [of states d1 c2 e d2] f Inr Q o Inl by (simp add: sts_def t_def)
      next
        case (Inr owed)
        obtain ok3 c3 where w: "write_presentations t owed (c2\<lparr>sc_swept := True\<rparr>) = (ok3, c3)" by fastforce
        have res: "ok = ok3" "c' = (if ok then remember sts t c3 else c3)"
          using assms f \<open>r = Inr states\<close> now p Some o Inr w by (simp_all add: poll_def sts_def split: bool.splits)
        from write_presentations_spec [OF w] obtain snt rst where "owed = snt @ rst" "ok3 \<longrightarrow> rst = []"
          "wrote (map (presentation_frame t (sc_windows c)) snt) (c2\<lparr>sc_swept := True\<rparr>) c3" "sc_writes c2 = [] \<longrightarrow> ok3"
          using after_positionsD(2) [OF Q(3)] by auto
        then show thesis using that(4) [of states d1 c2 owed d2 snt rst c3] f \<open>r = Inr states\<close> Q o Inr res after_positionsD(10) [OF Q(3)]
          by (simp add: sts_def t_def)
      qed
    qed
  qed
qed


lemma poll_keeps_family:
  assumes "poll pg rt d c = (ok, d', c')"
  shows "sc_familyID c' = sc_familyID c"
  using assms
proof (cases rule: pollE)
  case unread
  then show ?thesis using reportUnavailable_wrote [of c ok c'] wroteD(4) by force
next
  case left
  then show ?thesis using after_positionsD(3) by blast
next
  case (unswept states d1 e d2 c2)
  then show ?thesis using reportUnavailable_wrote [of c2 ok c'] wroteD(4) after_positionsD(3) [OF unswept(2)] by force
next
  case presented
  then show ?thesis using wroteD(4) [OF presented(7)] after_positionsD(3) [OF presented(2)] by (simp add: remember_def)
qed

section \<open>Event ids are a cursor\<close>

lemma distinct_mapI: "distinct (map f xs) \<Longrightarrow> distinct xs"
  by (simp add: distinct_map)

lemma fresh_arrival: "fresh since s \<Longrightarrow> since < arrival s"
  by (auto simp: fresh_def arrival_def split: option.splits)

lemma fresh_arrivals:
  assumes "batch c states = sent @ rest"
  shows "sorted_wrt (\<lambda>a b. arrival a \<le> arrival b) sent" "\<forall>s \<in> set sent. sc_since c < arrival s"
proof -
  have "sorted_wrt (\<lambda>a b. \<not> arrival_before b a) (batch c states)"
    unfolding batch_def sortByArrival_def by (intro sorted_wrt_filter arrival_order.stable_sort_sorted)
  moreover have fr: "s \<in> set (batch c states) \<Longrightarrow> fresh (sc_since c) s" for s by (simp add: batch_def)
  have "\<not> arrival_before b a \<Longrightarrow> arrival a \<le> arrival b" if "a \<in> set (batch c states)" "b \<in> set (batch c states)" for a b
    using fr [OF that(1)] fr [OF that(2)] by (auto simp: fresh_def arrival_before_def arrival_def split: option.splits if_splits)
  ultimately have "sorted_wrt (\<lambda>a b. arrival a \<le> arrival b) (batch c states)"
    by (rule sorted_wrt_mono_rel [rotated]) blast
  then show "sorted_wrt (\<lambda>a b. arrival a \<le> arrival b) sent" using assms by (simp add: sorted_wrt_append)
  show "\<forall>s \<in> set sent. sc_since c < arrival s"
    using fr assms by (auto intro!: fresh_arrival)
qed

lemma sorted_last: "sorted_wrt (\<lambda>a b. f a \<le> (f b :: int)) xs \<Longrightarrow> x \<in> set xs \<Longrightarrow> f x \<le> f (last xs)"
  by (induction xs) auto

definition cursor_ok :: "instant \<Rightarrow> streamConn \<Rightarrow> bool" where
  "cursor_ok cur c \<longleftrightarrow> cur \<le> sc_since c
     \<and> (\<forall>f \<in> set (sc_frames c). if fr_event f = eventPosition then UnixMicro cur \<le> fr_id f \<and> fr_id f \<le> UnixMicro (sc_since c) else fr_id f = 0)
     \<and> sorted (map fr_id (filter (\<lambda>f. fr_event f = eventPosition) (sc_frames c)))"

lemma event_names [simp]:
  "eventPosition \<noteq> eventPresentation" "eventPresentation \<noteq> eventPosition" "eventError \<noteq> eventPosition" "eventPosition \<noteq> eventError"
  "eventError \<noteq> eventPresentation" "eventPresentation \<noteq> eventError"
  by (simp_all add: eventPosition_def eventPresentation_def eventError_def)

lemma cursor_ok_silent:
  assumes "cursor_ok cur c" "sc_since c' = sc_since c" "sc_frames c' = sc_frames c @ fs"
    "\<forall>f \<in> set fs. fr_event f \<noteq> eventPosition \<and> fr_id f = 0"
  shows "cursor_ok cur c'"
proof -
  have "filter (\<lambda>f. fr_event f = eventPosition) fs = []" using assms(4) by (simp add: filter_empty_conv)
  then show ?thesis using assms by (auto simp: cursor_ok_def)
qed

lemma cursor_ok_positions:
  assumes "cursor_ok cur c" "batch c states = sent @ rest" "after_positions c sent c2"
  shows "cursor_ok cur c2"
proof -
  define fs where "fs = map (position_frame (poll_time c) (sc_windows c))
       (filter (\<lambda>s. marshals (Entry (entryFor s (poll_time c) (sc_windows c)))) sent)"
  note srt = fresh_arrivals [OF assms(2)]
  have since: "sc_since c2 = (if sent = [] then sc_since c else arrival (last sent))" and fr: "sc_frames c2 = sc_frames c @ fs"
    using after_positionsD [OF assms(3)] by (simp_all add: fs_def)
  have le: "sc_since c \<le> sc_since c2" "\<forall>s \<in> set sent. sc_since c < arrival s \<and> arrival s \<le> sc_since c2"
    using since srt(2) sorted_last [OF srt(1)] by (auto intro: less_imp_le)
  have ev: "\<forall>f \<in> set fs. fr_event f = eventPosition \<and> UnixMicro (sc_since c) \<le> fr_id f \<and> fr_id f \<le> UnixMicro (sc_since c2)"
    using le(2) by (auto simp: fs_def position_frame_def intro!: UnixMicro_mono)
  have "sorted (map fr_id fs)"
    unfolding fs_def sorted_map sorted_wrt_map
    by (rule sorted_wrt_mono_rel [OF _ sorted_wrt_filter [OF srt(1)]]) (simp add: position_frame_def UnixMicro_mono)
  moreover have "filter (\<lambda>f. fr_event f = eventPosition) fs = fs" using ev by (simp add: filter_id_conv)
  moreover have old: "\<forall>f \<in> set (sc_frames c). fr_event f = eventPosition \<longrightarrow> fr_id f \<le> UnixMicro (sc_since c)"
    using assms(1) by (auto simp: cursor_ok_def)
  ultimately have "sorted (map fr_id (filter (\<lambda>f. fr_event f = eventPosition) (sc_frames c2)))"
    using assms(1) ev by (fastforce simp: fr cursor_ok_def sorted_append)
  moreover have "UnixMicro (sc_since c) \<le> UnixMicro (sc_since c2)" "UnixMicro cur \<le> UnixMicro (sc_since c)"
    using le(1) assms(1) by (simp_all add: UnixMicro_mono cursor_ok_def)
  ultimately show ?thesis using assms(1) le(1) ev unfolding cursor_ok_def fr by (fastforce split: if_splits)
qed

lemma cursor_ok_report:
  assumes "cursor_ok cur c" "reportUnavailable c = (ok, c')"
  shows "cursor_ok cur c'"
proof -
  obtain fs where "wrote fs (c\<lparr>sc_degraded := True\<rparr>) c'" "set fs \<subseteq> {\<lparr>fr_event = eventError, fr_id = 0, fr_payload = Failure unavailable\<rparr>}"
    using reportUnavailable_wrote [OF assms(2)] by blast
  then show ?thesis using wroteD(1,2) [of fs "c\<lparr>sc_degraded := True\<rparr>" c'] by (intro cursor_ok_silent [OF assms(1), of _ fs]) auto
qed

lemma cursor_ok_poll:
  assumes "cursor_ok cur c" "poll pg rt d c = (ok, d', c')"
  shows "cursor_ok cur c'"
  using assms(2)
proof (cases rule: pollE)
  case unread
  then show ?thesis using cursor_ok_report assms(1) by blast
next
  case left
  then show ?thesis using cursor_ok_positions assms(1) by blast
next
  case (unswept states d1 e d2 c2)
  then show ?thesis using cursor_ok_report cursor_ok_positions [OF assms(1), of states _ "[]" c2] by simp
next
  case (presented states d1 owed d2 c2 sent rest c3)
  have "cursor_ok cur c2" using cursor_ok_positions [OF assms(1), of states _ "[]" c2] presented(2) by simp
  then have "cursor_ok cur c3"
    using wroteD(1,2) [OF presented(7)] by (intro cursor_ok_silent [of cur c2 c3]) (auto simp: presentation_frame_def)
  then show ?thesis using presented(8) by (simp add: remember_def cursor_ok_def)
qed

lemma heartbeat_wrote: "heartbeat c = (ok, c') \<Longrightarrow> wrote [] c c' \<and> (sc_writes c = [] \<longrightarrow> ok)"
proof -
  assume h: "heartbeat c = (ok, c')"
  define c1 where "c1 = c\<lparr>sc_reads := Suc (sc_reads c)\<rparr>"
  have t: "time_Now c = (sc_clock c (sc_reads c), c1)" by (simp add: time_Now_def c1_def)
  have 1: "wrote [] c c1" by (simp add: wrote_def c1_def)
  obtain ok2 c2 where w: "Write c1 = (ok2, c2)" by fastforce
  have 2: "wrote [] c c2" "sc_writes c = [] \<longrightarrow> ok2" using wrote_trans [OF 1] Write_wrote [OF w] by (auto simp: c1_def)
  have "wrote [] c2 (c2\<lparr>sc_reads := r, sc_lastWrite := l\<rparr>)" for r l by (simp add: wrote_def)
  note 3 = wrote_trans [OF 2(1) this]
  have t2: "time_Now c2 = (sc_clock c2 (sc_reads c2), c2\<lparr>sc_reads := Suc (sc_reads c2)\<rparr>)" by (simp add: time_Now_def)
  show ?thesis using h 1 2 3 by (cases ok2) (auto simp: heartbeat_def t w t2 split: if_splits)
qed

lemma cursor_ok_heartbeat: "cursor_ok cur c \<Longrightarrow> heartbeat c = (ok, c') \<Longrightarrow> cursor_ok cur c'"
  using wroteD(1,2) [of "[]" c c'] by (auto dest!: heartbeat_wrote intro!: cursor_ok_silent [of cur c c' "[]"])

lemma stream_loop_induct:
  assumes "P c" "\<And>d c ok d' c'. d \<in> set ds \<Longrightarrow> P c \<Longrightarrow> poll pg rt d c = (ok, d', c') \<Longrightarrow> P c'"
    "\<And>c ok c'. P c \<Longrightarrow> heartbeat c = (ok, c') \<Longrightarrow> P c'"
  shows "P (stream_loop pg rt ds c)"
  using assms(1,2)
proof (induction ds arbitrary: c)
  case (Cons d ds)
  obtain ok d' c1 where p: "poll pg rt d c = (ok, d', c1)" using prod_cases3 by blast
  obtain ok2 c2 where h: "heartbeat c1 = (ok2, c2)" by fastforce
  have "P c1" using Cons.prems(2) [OF _ Cons.prems(1) p] by simp
  moreover from this have "P c2" using assms(3) h by blast
  moreover from this have "P (stream_loop pg rt ds c2)" using Cons.IH Cons.prems(2) by (meson list.set_intros(2))
  ultimately show ?case using p h by (auto split: bool.splits)
qed simp

lemma getStreamE:
  assumes "getStream pg rt w flusher clk writes r d ticks = Streamed c"
  obtains v d1 ok d2 c1 where "authViewerForStream r d = (Inr v, d1)"
    "poll pg rt d1 (open_conn (Viewer_FamilyID v) w (parseResumeCursor r) clk writes) = (ok, d2, c1)"
    "c = (if ok then stream_loop pg rt ticks c1 else c1)"
proof -
  obtain v d1 where a: "authViewerForStream r d = (Inr v, d1)" "flusher"
    using assms by (auto simp: getStream_def split: if_splits prod.splits sum.splits)
  obtain ok d2 c1 where p: "poll pg rt d1 (open_conn (Viewer_FamilyID v) w (parseResumeCursor r) clk writes) = (ok, d2, c1)"
    using prod_cases3 by blast
  then have "c = (if ok then stream_loop pg rt ticks c1 else c1)" using assms a by (cases ok) (simp_all add: getStream_def)
  then show thesis using that a(1) p by blast
qed

text \<open>
  C16: Event ids are a resume cursor. On one connection, whatever the database does at each tick and
  whenever the watcher leaves, the ids of the \<open>position\<close> events never decrease and never go below the
  cursor the watcher presented, and no other event has an id, so what the browser sends back after a
  reconnect is always the arrival of the last position it was given.
\<close>

theorem ids_are_a_cursor:
  assumes "getStream pg rt w flusher clk writes r d ticks = Streamed c"
  shows "sorted (map fr_id (filter (\<lambda>f. fr_event f = eventPosition) (sc_frames c)))
    \<and> (\<forall>f \<in> set (sc_frames c). if fr_event f = eventPosition
         then UnixMicro (fst (parseResumeCursor r)) \<le> fr_id f \<and> fr_id f \<le> UnixMicro (sc_since c) else fr_id f = 0)"
proof -
  obtain v :: Viewer and d1 ok d2 c1 where p: "poll pg rt d1 (open_conn (Viewer_FamilyID v) w (parseResumeCursor r) clk writes) = (ok, d2, c1)"
    "c = (if ok then stream_loop pg rt ticks c1 else c1)"
    using assms by (elim getStreamE) blast
  have "cursor_ok (fst (parseResumeCursor r)) (open_conn (Viewer_FamilyID v) w (parseResumeCursor r) clk writes)"
    by (simp add: cursor_ok_def open_conn_def)
  from cursor_ok_poll [OF this p(1)] have "cursor_ok (fst (parseResumeCursor r)) c1" .
  then have "cursor_ok (fst (parseResumeCursor r)) (stream_loop pg rt ticks c1)"
    by (rule stream_loop_induct) (erule (1) cursor_ok_poll, erule (1) cursor_ok_heartbeat)
  then have "cursor_ok (fst (parseResumeCursor r)) c" using p \<open>cursor_ok (fst (parseResumeCursor r)) c1\<close> by simp
  then show ?thesis by (simp add: cursor_ok_def)
qed


section \<open>The watcher's map\<close>

text \<open>What a watcher knows who applies every event in order: the last value given for each device.\<close>

fun described :: "payload \<Rightarrow> (string \<times> Value) option" where
  "described (Entry (Located p)) = Some (pr_device_id p, pr_presentation p)"
| "described (Entry (Unlocated u)) = Some (un_device_id u, un_presentation u)"
| "described (Entry (Updated u)) = Some (pu_device_id u, pu_presentation u)"
| "described (Failure _) = None"

definition apply_frame :: "frame \<Rightarrow> (string \<rightharpoonup> Value) \<Rightarrow> (string \<rightharpoonup> Value)" where
  "apply_frame f v = (case described (fr_payload f) of None \<Rightarrow> v | Some (dev, x) \<Rightarrow> v(dev \<mapsto> x))"

definition watcher_view :: "frame list \<Rightarrow> (string \<rightharpoonup> Value)" where
  "watcher_view fs = fold apply_frame fs Map.empty"

lemma watcher_view_append: "watcher_view (fs @ gs) = fold apply_frame gs (watcher_view fs)"
  by (simp add: watcher_view_def)

text \<open>
  What the query guarantees of the states of one read: distinct devices, and a position exactly when
  there was contact; and what the tables guarantee of a stored fix: finite coordinates and an arrival
  after the zero time of Go.
\<close>

definition states_ok :: "DeviceState list \<Rightarrow> bool" where
  "states_ok states \<longleftrightarrow> distinct (map St_DeviceID states)
     \<and> (\<forall>s \<in> set states. (case St_Current s of None \<Rightarrow> St_LastContact s = None
          | Some cur \<Rightarrow> St_LastContact s \<noteq> None \<and> \<not> isNotFinite (Pos_Lat cur) \<and> \<not> isNotFinite (Pos_Lon cur) \<and> zero_time < Pos_ReceivedAt cur))"

definition streamable :: "db \<Rightarrow> bool" where
  "streamable d \<longleftrightarrow> distinct (map dev_id (devices d))
     \<and> (\<forall>f \<in> set (all_fixes d). \<not> isNotFinite (fx_lat f) \<and> \<not> isNotFinite (fx_lon f) \<and> zero_time < fx_received f)"

lemma streamable_states:
  assumes "streamable d" "FamilyDeviceStates pg fam d = (Inr states, d')"
  shows "states_ok states"
proof -
  obtain f where st: "states = map (\<lambda>r. to_state (r, newest_fix (device_fixes (dev_id r) d), max_received (device_fixes (dev_id r) d)))
       (family_devices f d)" using FamilyDeviceStates_ok [OF assms(2)] by blast
  have "distinct (map dev_id (family_devices f d))"
    using assms(1) by (simp add: streamable_def family_devices_def distinct_map_filter)
  then have "distinct (map St_DeviceID states)" by (simp add: st to_state_def comp_def)
  moreover have "case St_Current s of None \<Rightarrow> St_LastContact s = None
      | Some cur \<Rightarrow> St_LastContact s \<noteq> None \<and> \<not> isNotFinite (Pos_Lat cur) \<and> \<not> isNotFinite (Pos_Lon cur) \<and> zero_time < Pos_ReceivedAt cur"
    if m: "s \<in> set states" for s
  proof -
    obtain r :: device_row where s: "s = to_state (r, newest_fix (device_fixes (dev_id r) d), max_received (device_fixes (dev_id r) d))"
      using m st by auto
    show ?thesis
    proof (cases "newest_fix (device_fixes (dev_id r) d)")
      case None
      then have "device_fixes (dev_id r) d = []" by simp
      then show ?thesis by (simp add: s to_state_def newest_fix_def max_received_def)
    next
      case (Some g)
      then have "g \<in> set (all_fixes d)" "device_fixes (dev_id r) d \<noteq> []"
        using newest_fix_Some [OF Some] newest_fix_None [of "device_fixes (dev_id r) d"] by (auto simp: device_fixes_def)
      moreover from this(2) have "max_received (device_fixes (dev_id r) d) \<noteq> None" by simp
      ultimately show ?thesis using Some assms(1) by (auto simp: s to_state_def streamable_def)
    qed
  qed
  ultimately show ?thesis by (simp add: states_ok_def)
qed

lemma described_position:
  assumes "states_ok states" "s \<in> set states" "St_Current s \<noteq> None"
  shows "described (Entry (entryFor s t w)) = Some (St_DeviceID s, Evaluate t (St_LastContact s) w)" "marshals (Entry (entryFor s t w))"
  using assms Evaluate_NoPosition [of t "St_LastContact s" w]
  by (auto simp: states_ok_def entryFor_def unlocated_for_def marshals_def Let_def split: option.splits)

lemma described_presentation:
  assumes "states_ok states" "s \<in> set states"
  shows "described (Entry (presentationPayloadFor s t w)) = Some (St_DeviceID s, Evaluate t (St_LastContact s) w)"
  using assms Evaluate_NoPosition [of t "St_LastContact s" w]
  by (auto simp: states_ok_def presentationPayloadFor_def unlocated_for_def Let_def split: option.splits)

text \<open>Frames that each state the current value of a device bring the map up to date on those devices.\<close>

lemma fold_apply:
  assumes "\<forall>s \<in> set ss. described (fr_payload (g s)) = Some (St_DeviceID s, val s)" "distinct (map St_DeviceID ss)"
  shows "fold apply_frame (map g ss) v dev = (case find (\<lambda>s. St_DeviceID s = dev) ss of None \<Rightarrow> v dev | Some s \<Rightarrow> Some (val s))"
  using assms
proof (induction ss arbitrary: v)
  case (Cons s ss)
  have "find (\<lambda>s. St_DeviceID s = dev) ss = None" if "St_DeviceID s = dev"
    using Cons.prems(2) that by (auto simp: find_None_iff image_iff)
  then show ?case using Cons by (auto simp: apply_frame_def split: option.splits)
qed simp

lemma find_id: "distinct (map St_DeviceID ss) \<Longrightarrow> s \<in> set ss \<Longrightarrow> find (\<lambda>x. St_DeviceID x = St_DeviceID s) ss = Some s"
  by (induction ss) auto


text \<open>
  A successful poll of a connection whose writes succeed: the positions of the batch, then the
  presentation events, and the observation of the family for the next poll.
\<close>

definition owed_by :: "DeviceState list \<Rightarrow> streamConn \<Rightarrow> DeviceState list \<Rightarrow> DeviceState list" where
  "owed_by sts c B =
     (if \<not> sc_swept c then snapshotUnlocated sts (poll_time c) (St_DeviceID ` set B) c
      else if sc_degraded c then reannounce sts (St_DeviceID ` set B)
      else diff sts (poll_time c) (St_DeviceID ` set B) c)"

lemma states_ok_perm: "mset sts = mset states \<Longrightarrow> states_ok sts \<longleftrightarrow> states_ok states"
  using mset_eq_imp_distinct_iff [of "map St_DeviceID sts" "map St_DeviceID states"] mset_eq_setD [of sts states]
  by (simp add: states_ok_def)

lemma batch_mem: "s \<in> set (batch c states) \<Longrightarrow> s \<in> set states \<and> St_Current s \<noteq> None \<and> sc_since c < arrival s"
  using fresh_arrival by (auto simp: batch_def sortByArrival_def fresh_def split: option.splits)

lemma poll_reliable:
  assumes p: "poll pg rt d c = (ok, d', c')" and "sc_writes c = []" and f: "FamilyDeviceStates pg (sc_familyID c) d = (Inr states, d1)"
    and st: "states_ok states" and r: "\<not> sc_resuming c \<or> sc_swept c"
  obtains sts where "ok" "set sts = set states" "states_ok sts"
    "sc_frames c' = sc_frames c @ map (position_frame (poll_time c) (sc_windows c)) (batch c states)
       @ map (presentation_frame (poll_time c) (sc_windows c)) (owed_by sts c (batch c states))"
    "sc_prev c' = map_of (rev (map (\<lambda>s. (St_DeviceID s, St_LastContact s)) sts))" "sc_prevAt c' = poll_time c"
    "\<not> sc_degraded c'" "sc_swept c'" "sc_windows c' = sc_windows c" "sc_familyID c' = sc_familyID c" "sc_writes c' = []"
    "sc_resuming c' = sc_resuming c" "sc_since c' = (if batch c states = [] then sc_since c else arrival (last (batch c states)))"
  using p
proof (cases rule: pollE)
  case (presented states' d1' owed d2 c2 sent rest c3)
  have eq: "states' = states" "d1' = d1" using presented(1) f by simp_all
  define sts where "sts = sortDeviceStates (unicode_lower rt) (sortByArrival states)"
  note ap = after_positionsD [OF presented(2) [unfolded eq]] and w3 = wroteD [OF presented(7)]
  have ok: ok and rest: "rest = []" using presented assms(2) by simp_all
  have sts: "set sts = set states" "states_ok sts"
    using st states_ok_perm [of sts states] by (simp_all add: sts_def sortDeviceStates_def sortByArrival_def)
  have "owed = owed_by sts c (batch c states)"
    using presented(3) r unfolding eq owed_devices_def owed_by_def snapshotUnlocated_def diff_def ap(2,4,5,7,8)
    by (auto simp: sts_def split: if_splits)
  moreover have "filter (\<lambda>s. marshals (Entry (entryFor s (poll_time c) (sc_windows c)))) (batch c states) = batch c states"
    unfolding filter_id_conv using described_position(2) [OF st] batch_mem by blast
  ultimately have "sc_frames c3 = sc_frames c @ map (position_frame (poll_time c) (sc_windows c)) (batch c states)
       @ map (presentation_frame (poll_time c) (sc_windows c)) (owed_by sts c (batch c states))"
    using w3(1) ap(11) presented(4) rest by simp
  then show thesis
    using that [OF ok sts] presented(8) ok w3 ap assms(2) by (simp add: remember_def sts_def [symmetric] eq)
next
  case (unswept states' d1' e d2 c2)
  then show thesis using r f after_positionsD(7,8) [OF unswept(2)] by (auto simp: owed_devices_def split: if_splits)
qed (use assms in simp_all)

lemma owed_sub: "set (owed_by sts c B) \<subseteq> set sts" "distinct (map St_DeviceID sts) \<Longrightarrow> distinct (map St_DeviceID (owed_by sts c B))"
  by (auto simp: owed_by_def snapshotUnlocated_def reannounce_def diff_def distinct_map_filter)

lemma poll_view:
  assumes "states_ok states" "set sts = set states" "states_ok sts" "owed = owed_by sts c (batch c states)"
    "sc_frames c' = sc_frames c @ map (position_frame (poll_time c) (sc_windows c)) (batch c states)
       @ map (presentation_frame (poll_time c) (sc_windows c)) owed"
  shows "s \<in> set states \<Longrightarrow> watcher_view (sc_frames c') (St_DeviceID s) =
      (if s \<in> set (batch c states) \<union> set owed then Some (Evaluate (poll_time c) (St_LastContact s) (sc_windows c))
       else watcher_view (sc_frames c) (St_DeviceID s))"
    and "dev \<notin> St_DeviceID ` set states \<Longrightarrow> watcher_view (sc_frames c') dev = watcher_view (sc_frames c) dev"
proof -
  let ?val = "\<lambda>s. Evaluate (poll_time c) (St_LastContact s) (sc_windows c)"
  let ?B = "batch c states"
  have B: "set ?B \<subseteq> set states" "\<forall>s \<in> set ?B. St_Current s \<noteq> None" using batch_mem by blast+
  have dB: "distinct (map St_DeviceID ?B)" using assms(1) by (simp add: states_ok_def batch_def sortByArrival_def distinct_map_filter)
  have O: "set owed \<subseteq> set states" "distinct (map St_DeviceID owed)"
    using owed_sub [of sts c ?B] assms(2-4) by (auto simp: states_ok_def)
  have fB: "fold apply_frame (map (position_frame (poll_time c) (sc_windows c)) ?B) v x
      = (case find (\<lambda>s. St_DeviceID s = x) ?B of None \<Rightarrow> v x | Some s \<Rightarrow> Some (?val s))" for v x
    using described_position(1) [OF assms(1)] B by (intro fold_apply [OF _ dB]) (auto simp: position_frame_def)
  have fO: "fold apply_frame (map (presentation_frame (poll_time c) (sc_windows c)) owed) v x
      = (case find (\<lambda>s. St_DeviceID s = x) owed of None \<Rightarrow> v x | Some s \<Rightarrow> Some (?val s))" for v x
    using described_presentation [OF assms(1)] O by (intro fold_apply [OF _ O(2)]) (auto simp: presentation_frame_def)
  have vw: "watcher_view (sc_frames c') x = (case find (\<lambda>s. St_DeviceID s = x) owed of
      None \<Rightarrow> (case find (\<lambda>s. St_DeviceID s = x) ?B of None \<Rightarrow> watcher_view (sc_frames c) x | Some s \<Rightarrow> Some (?val s))
    | Some s \<Rightarrow> Some (?val s))" for x
    by (simp add: assms(5) watcher_view_append fB fO split: option.split)
  have inj: "x \<in> set ss \<longleftrightarrow> find (\<lambda>y. St_DeviceID y = St_DeviceID x) ss \<noteq> None"
    if "x \<in> set states" "set ss \<subseteq> set states" for x ss
    using that id_injective [of states] assms(1) by (auto simp: find_None_iff states_ok_def)
  have fnd: "find (\<lambda>y. St_DeviceID y = St_DeviceID x) ss = Some x" if "x \<in> set ss" "distinct (map St_DeviceID ss)" for x ss
    using find_id that by blast
  show "watcher_view (sc_frames c') (St_DeviceID s) = (if s \<in> set ?B \<union> set owed then Some (?val s) else watcher_view (sc_frames c) (St_DeviceID s))"
    if "s \<in> set states"
    using inj [OF that O(1)] inj [OF that B(1)] fnd [of s owed] fnd [of s ?B] O(2) dB by (auto simp: vw)
  show "watcher_view (sc_frames c') dev = watcher_view (sc_frames c) dev" if "dev \<notin> St_DeviceID ` set states"
  proof -
    have "find (\<lambda>s. St_DeviceID s = dev) owed = None" "find (\<lambda>s. St_DeviceID s = dev) ?B = None"
      using that O(1) B(1) by (auto simp: find_None_iff)
    then show ?thesis by (simp add: vw)
  qed
qed


text \<open>
  A run of a connection whose watcher stays: ticks, each on whatever the database holds by then, and
  heartbeats. Between polls devices join the family and none leaves it (no operation removes a
  device).
\<close>

definition still_enrolled :: "pg \<Rightarrow> db \<Rightarrow> streamConn \<Rightarrow> bool" where
  "still_enrolled pg d c \<longleftrightarrow>
     (\<forall>dev \<in> dom (sc_prev c). \<exists>r \<in> set (devices d). dev_id r = dev \<and> uuid_in pg (sc_familyID c) = Some (dev_family r))"

inductive watch_step :: "pg \<Rightarrow> runtime \<Rightarrow> streamConn \<Rightarrow> streamConn \<Rightarrow> bool" for pg rt where
  tick: "streamable d \<Longrightarrow> still_enrolled pg d c \<Longrightarrow> poll pg rt d c = (True, d', c') \<Longrightarrow> watch_step pg rt c c'"
| beat: "heartbeat c = (True, c') \<Longrightarrow> watch_step pg rt c c'"

definition view_ok :: "streamConn \<Rightarrow> bool" where
  "view_ok c \<longleftrightarrow> sc_writes c = [] \<and> \<not> sc_resuming c \<and> (\<not> sc_swept c \<longrightarrow> sc_prev c = Map.empty \<and> sc_since c = zero_time)
     \<and> (\<forall>dev. case sc_prev c dev of
           None \<Rightarrow> watcher_view (sc_frames c) dev = None
         | Some lc \<Rightarrow> watcher_view (sc_frames c) dev \<in> {None, Some (Evaluate (sc_prevAt c) lc (sc_windows c))})"

lemma view_error: "set fs \<subseteq> {\<lparr>fr_event = eventError, fr_id = 0, fr_payload = Failure unavailable\<rparr>} \<Longrightarrow> watcher_view (gs @ fs) = watcher_view gs"
  unfolding watcher_view_append by (induction fs arbitrary: gs) (auto simp: apply_frame_def)

lemma families_seen:
  assumes "FamilyDeviceStates pg (sc_familyID c) d = (Inr states, d1)" "still_enrolled pg d c"
  shows "dom (sc_prev c) \<subseteq> St_DeviceID ` set states"
proof -
  obtain f where "uuid_in pg (sc_familyID c) = Some f" "states = map (\<lambda>r. to_state (r, newest_fix (device_fixes (dev_id r) d), max_received (device_fixes (dev_id r) d)))
       (family_devices f d)" using FamilyDeviceStates_ok [OF assms(1)] by blast
  then have "St_DeviceID ` set states = dev_id ` {r \<in> set (devices d). uuid_in pg (sc_familyID c) = Some (dev_family r)}"
    by (auto simp: family_devices_def to_state_def image_image)
  then show ?thesis using assms(2) by (force simp: still_enrolled_def)
qed

lemma not_in_batch:
  assumes "states_ok states" "s \<in> set states" "s \<notin> set (batch c states)"
  shows "St_DeviceID s \<notin> St_DeviceID ` set (batch c states)"
proof
  assume "St_DeviceID s \<in> St_DeviceID ` set (batch c states)"
  then obtain b where "b \<in> set (batch c states)" "St_DeviceID s = St_DeviceID b" by blast
  then show False using assms id_injective [of states s b] batch_mem [of b c states] by (simp add: states_ok_def)
qed

lemma all_told:
  assumes "states_ok states" "set sts = set states" "s \<in> set states" "s \<notin> set (batch c states)"
    "\<not> sc_swept c \<and> sc_since c = zero_time \<or> sc_swept c \<and> sc_degraded c"
  shows "s \<in> set (owed_by sts c (batch c states))"
proof -
  have "St_DeviceID s \<notin> St_DeviceID ` set (batch c states)" using assms not_in_batch by blast
  moreover have "Evaluate (poll_time c) (St_LastContact s) (sc_windows c) = NoPosition" if z: "sc_since c = zero_time"
  proof (cases "St_Current s")
    case None
    then show ?thesis using assms(1,3) by (auto simp: states_ok_def Evaluate_NoPosition)
  next
    case (Some cur)
    then have "zero_time < Pos_ReceivedAt cur" using assms(1,3) by (fastforce simp: states_ok_def)
    then show ?thesis using Some assms(3,4) z by (simp add: batch_def sortByArrival_def fresh_def)
  qed
  ultimately show ?thesis using assms(2,3,5) by (auto simp: owed_by_def snapshotUnlocated_def reannounce_def)
qed

lemma poll_in_sync:
  assumes "view_ok c" "poll pg rt d c = (ok, d', c')" "FamilyDeviceStates pg (sc_familyID c) d = (Inr states, d1)"
    "streamable d" "still_enrolled pg d c"
  shows "ok" "view_ok c'" "sc_swept c'" "\<not> sc_degraded c'" "sc_windows c' = sc_windows c" "sc_prevAt c' = poll_time c"
    "s \<in> set states \<Longrightarrow> watcher_view (sc_frames c') (St_DeviceID s) = Some (Evaluate (poll_time c) (St_LastContact s) (sc_windows c))
       \<or> watcher_view (sc_frames c') (St_DeviceID s) = None \<and> watcher_view (sc_frames c) (St_DeviceID s) = None \<and> sc_swept c \<and> \<not> sc_degraded c"
proof -
  have st: "states_ok states" using streamable_states assms by blast
  have w: "sc_writes c = []" "\<not> sc_resuming c \<or> sc_swept c" using assms(1) by (simp_all add: view_ok_def)
  obtain sts where r: "ok" "set sts = set states" "states_ok sts"
    "sc_frames c' = sc_frames c @ map (position_frame (poll_time c) (sc_windows c)) (batch c states)
       @ map (presentation_frame (poll_time c) (sc_windows c)) (owed_by sts c (batch c states))"
    "sc_prev c' = map_of (rev (map (\<lambda>s. (St_DeviceID s, St_LastContact s)) sts))" "sc_prevAt c' = poll_time c"
    "\<not> sc_degraded c'" "sc_swept c'" "sc_windows c' = sc_windows c" "sc_familyID c' = sc_familyID c" "sc_writes c' = []"
    "sc_resuming c' = sc_resuming c" "sc_since c' = (if batch c states = [] then sc_since c else arrival (last (batch c states)))"
    by (rule poll_reliable [OF assms(2) w(1) assms(3) st w(2)])
  note v = poll_view [OF st r(2,3) refl r(4)]
  show told: "watcher_view (sc_frames c') (St_DeviceID s) = Some (Evaluate (poll_time c) (St_LastContact s) (sc_windows c))
     \<or> watcher_view (sc_frames c') (St_DeviceID s) = None \<and> watcher_view (sc_frames c) (St_DeviceID s) = None \<and> sc_swept c \<and> \<not> sc_degraded c"
    if s: "s \<in> set states" for s
  proof (cases "s \<in> set (batch c states) \<union> set (owed_by sts c (batch c states))")
    case True
    then show ?thesis using v(1) [OF s] by simp
  next
    case False
    then have same: "watcher_view (sc_frames c') (St_DeviceID s) = watcher_view (sc_frames c) (St_DeviceID s)" using v(1) [OF s] by simp
    have sw: "sc_swept c \<and> \<not> sc_degraded c" using all_told [OF st r(2) s] False assms(1) by (auto simp: view_ok_def)
    have "St_DeviceID s \<notin> St_DeviceID ` set (batch c states)" using not_in_batch [OF st s] False by blast
    then have "case sc_prev c (St_DeviceID s) of None \<Rightarrow> True
        | Some lc \<Rightarrow> Evaluate (sc_prevAt c) lc (sc_windows c) = Evaluate (poll_time c) (St_LastContact s) (sc_windows c)"
      using False s sw r(2) by (auto simp: owed_by_def diff_def split: option.splits)
    moreover have "case sc_prev c (St_DeviceID s) of None \<Rightarrow> watcher_view (sc_frames c) (St_DeviceID s) = None
         | Some lc \<Rightarrow> watcher_view (sc_frames c) (St_DeviceID s) \<in> {None, Some (Evaluate (sc_prevAt c) lc (sc_windows c))}"
      using assms(1) by (simp add: view_ok_def)
    ultimately show ?thesis using same sw by (auto split: option.splits)
  qed
  have "case sc_prev c' dev of None \<Rightarrow> watcher_view (sc_frames c') dev = None
     | Some lc \<Rightarrow> watcher_view (sc_frames c') dev \<in> {None, Some (Evaluate (sc_prevAt c') lc (sc_windows c'))}" for dev
  proof (cases "dev \<in> St_DeviceID ` set states")
    case True
    then obtain s where s: "s \<in> set states" "dev = St_DeviceID s" by blast
    have "distinct (map St_DeviceID sts)" using r(3) by (simp add: states_ok_def)
    then have "map_of (rev (map (\<lambda>s. (St_DeviceID s, St_LastContact s)) sts)) dev = Some (St_LastContact s)"
      using s r(2) by (intro map_of_is_SomeI) (auto simp: rev_map [symmetric] comp_def)
    then show ?thesis using told [OF s(1)] s(2) r(5,6,9) by auto
  next
    case False
    then have "sc_prev c' dev = None" using r(2,5) by (force simp: map_of_eq_None_iff)
    moreover have "sc_prev c dev = None" using families_seen [OF assms(3,5)] False by blast
    moreover have "case sc_prev c dev of None \<Rightarrow> watcher_view (sc_frames c) dev = None
         | Some lc \<Rightarrow> watcher_view (sc_frames c) dev \<in> {None, Some (Evaluate (sc_prevAt c) lc (sc_windows c))}"
      using assms(1) by (simp add: view_ok_def)
    ultimately show ?thesis using v(2) [OF False] by simp
  qed
  then show "view_ok c'" using r assms(1) by (simp add: view_ok_def)
  show "ok" "sc_swept c'" "\<not> sc_degraded c'" "sc_windows c' = sc_windows c" "sc_prevAt c' = poll_time c" by (fact r)+
qed


lemma view_ok_same:
  assumes "view_ok c" "sc_writes c' = []" "sc_resuming c' = sc_resuming c" "sc_swept c' = sc_swept c" "sc_prev c' = sc_prev c"
    "sc_since c' = sc_since c" "sc_prevAt c' = sc_prevAt c" "sc_windows c' = sc_windows c" "watcher_view (sc_frames c') = watcher_view (sc_frames c)"
  shows "view_ok c'"
  using assms(1) unfolding view_ok_def assms(2-) by blast

lemma watch_run_ok:
  assumes "(watch_step pg rt)\<^sup>*\<^sup>* c0 c" "view_ok c0"
  shows "view_ok c \<and> sc_windows c = sc_windows c0 \<and> sc_familyID c = sc_familyID c0"
  using assms
proof (induction rule: rtranclp_induct)
  case (step c c')
  from step.hyps(2) show ?case
  proof cases
    case (tick d d')
    show ?thesis
    proof (cases "FamilyDeviceStates pg (sc_familyID c) d")
      case (Pair res d1)
      show ?thesis
      proof (cases res)
        case (Inl e)
        then have "reportUnavailable c = (True, c')" using tick(3) Pair by (auto elim: pollE)
        then obtain fs where "wrote fs (c\<lparr>sc_degraded := True\<rparr>) c'" "set fs \<subseteq> {\<lparr>fr_event = eventError, fr_id = 0, fr_payload = Failure unavailable\<rparr>}"
          using reportUnavailable_wrote by blast
        then show ?thesis
          using wroteD [of fs "c\<lparr>sc_degraded := True\<rparr>" c'] view_error [of fs "sc_frames c"] step view_ok_same [of c c'] by (simp add: view_ok_def)
      next
        case (Inr states)
        then show ?thesis using poll_in_sync(2,5) [OF _ tick(3) _ tick(1,2)] poll_keeps_family [OF tick(3)] Pair step by simp
      qed
    qed
  next
    case beat
    then have "wrote [] c c'" using heartbeat_wrote by blast
    then show ?thesis using wroteD [of "[]" c c'] step view_ok_same [of c c'] by (simp add: view_ok_def)
  qed
qed simp

text \<open>
  C4: A watcher who applies the events knows the state of the family. After every poll that could read
  the database, on a connection opened without a cursor and whatever outages came before, the last
  value the watcher was given for a device is the value of that device at the instant of the poll,
  derived from what is stored. Time passing, backlogs that refresh a contact and purges that remove the
  last fix are all covered. The only devices it knows nothing of joined the family while the connection
  was open and have not changed since: after the first poll and after every outage there are none.
\<close>

theorem watcher_in_sync:
  assumes "(watch_step pg rt)\<^sup>*\<^sup>* (open_conn fam w (zero_time, False) clk []) c"
    and "poll pg rt d c = (ok, d', c')" "FamilyDeviceStates pg fam d = (Inr states, d1)" "streamable d" "still_enrolled pg d c"
  shows "ok \<and> (\<forall>s \<in> set states.
      watcher_view (sc_frames c') (St_DeviceID s) = Some (Evaluate (sc_prevAt c') (St_LastContact s) w)
      \<or> watcher_view (sc_frames c') (St_DeviceID s) = None \<and> watcher_view (sc_frames c) (St_DeviceID s) = None
        \<and> sc_swept c \<and> \<not> sc_degraded c)"
proof -
  have "view_ok (open_conn fam w (zero_time, False) clk [])" by (simp add: view_ok_def open_conn_def watcher_view_def)
  from watch_run_ok [OF assms(1) this] have c: "view_ok c" "sc_windows c = w" "sc_familyID c = fam" by (simp_all add: open_conn_def)
  note p = poll_in_sync [OF c(1) assms(2) _ assms(4,5), unfolded c(2,3), OF assms(3)]
  show ?thesis using p(1,7) unfolding p(6) by blast
qed


text \<open>
  C14: A poll delivers every new position exactly once. When the watcher stays, the \<open>position\<close> events of
  a poll that could read the family are one for each device whose current position arrived after the
  cursor, devices that share an arrival instant included, in the order of arrival; no other device
  has one; the cursor ends on the last of them, and nothing that was read is left undelivered.
\<close>

theorem positions_delivered:
  assumes "poll pg rt d c = (ok, d', c')" "sc_writes c = []" "FamilyDeviceStates pg (sc_familyID c) d = (Inr states, d1)" "streamable d"
  shows "\<exists>L rest. sc_frames c' = sc_frames c @ map (position_frame (sc_clock c (sc_reads c)) (sc_windows c)) L @ rest
    \<and> (\<forall>f \<in> set rest. fr_event f \<noteq> eventPosition)
    \<and> set L = {s \<in> set states. fresh (sc_since c) s} \<and> distinct L \<and> sorted (map arrival L)
    \<and> sc_since c' = (if L = [] then sc_since c else arrival (last L)) \<and> (\<forall>s \<in> set states. \<not> fresh (sc_since c') s)"
proof -
  let ?B = "batch c states"
  have st: "states_ok states" using streamable_states assms by blast
  have B: "set ?B = {s \<in> set states. fresh (sc_since c) s}" by (auto simp: batch_def sortByArrival_def)
  have "distinct (map St_DeviceID ?B)" using st by (simp add: states_ok_def batch_def sortByArrival_def distinct_map_filter)
  then have dst: "distinct ?B" by (rule distinct_mapI)
  have srt: "sorted (map arrival ?B)" using fresh_arrivals(1) [of c states ?B "[]"] by (simp add: sorted_map)
  have all: "filter (\<lambda>s. marshals (Entry (entryFor s (poll_time c) (sc_windows c)))) ?B = ?B"
    unfolding filter_id_conv using described_position(2) [OF st] batch_mem by blast
  have pend: "\<not> fresh u s" if u: "u = (if ?B = [] then sc_since c else arrival (last ?B))" and s: "s \<in> set states" for u s
  proof
    assume a: "fresh u s"
    have "sc_since c \<le> u" using u fresh_arrivals(2) [of c states ?B "[]"] by (auto intro: less_imp_le)
    then have "fresh (sc_since c) s" using a by (auto simp: fresh_def split: option.splits)
    then have m: "s \<in> set ?B" using B s by blast
    then have "arrival s \<le> u" using u sorted_last [of arrival ?B s] fresh_arrivals(1) [of c states ?B "[]"] by auto
    then show False using fresh_arrival [OF a] by simp
  qed
  have "\<exists>rest. sc_frames c' = sc_frames c @ map (position_frame (poll_time c) (sc_windows c)) ?B @ rest
      \<and> (\<forall>f \<in> set rest. fr_event f \<noteq> eventPosition) \<and> sc_since c' = (if ?B = [] then sc_since c else arrival (last ?B))"
    using assms(1)
  proof (cases rule: pollE)
    case (unswept states' d1' e d2 c2)
    then have ap: "after_positions c ?B c2" using assms(3) by simp
    obtain fs where fs: "wrote fs (c2\<lparr>sc_degraded := True\<rparr>) c'" "set fs \<subseteq> {\<lparr>fr_event = eventError, fr_id = 0, fr_payload = Failure unavailable\<rparr>}"
      using reportUnavailable_wrote [OF unswept(4)] by blast
    show ?thesis using wroteD(1,2) [OF fs(1)] fs(2) after_positionsD(1,11) [OF ap] by (intro exI [of _ fs]) (auto simp: all)
  next
    case (presented states' d1' owed d2 c2 sent rest c3)
    then have ap: "after_positions c ?B c2" using assms(3) by simp
    show ?thesis using wroteD(1,2) [OF presented(7)] after_positionsD(1,11) [OF ap] presented(8)
      by (intro exI [of _ "map (presentation_frame (poll_time c) (sc_windows c)) sent"]) (auto simp: all remember_def presentation_frame_def)
  qed (use assms in simp_all)
  then obtain rest where r: "sc_frames c' = sc_frames c @ map (position_frame (poll_time c) (sc_windows c)) ?B @ rest"
    "\<forall>f \<in> set rest. fr_event f \<noteq> eventPosition" "sc_since c' = (if ?B = [] then sc_since c else arrival (last ?B))" by blast
  show ?thesis
    using r B dst srt pend [OF r(3)] unfolding poll_time_def by (intro exI [of _ ?B] exI [of _ rest]) blast
qed

text \<open>
  A new connection, and a connection after an outage, describes every device of the family exactly
  once, with its value at that instant: nobody is missing from the map and nobody is announced twice.
\<close>

theorem every_device_described_once:
  assumes "poll pg rt d c = (ok, d', c')" "sc_writes c = []" "FamilyDeviceStates pg (sc_familyID c) d = (Inr states, d1)" "streamable d"
    and "\<not> sc_swept c \<and> \<not> sc_resuming c \<and> sc_since c = zero_time \<or> sc_swept c \<and> sc_degraded c"
  shows "\<exists>fs. sc_frames c' = sc_frames c @ fs
    \<and> mset (map (\<lambda>f. described (fr_payload f)) fs)
        = mset (map (\<lambda>s. Some (St_DeviceID s, Evaluate (sc_prevAt c') (St_LastContact s) (sc_windows c))) states)"
proof -
  have st: "states_ok states" using streamable_states assms by blast
  have sw: "\<not> sc_resuming c \<or> sc_swept c" using assms(5) by blast
  obtain sts where r: "ok" "set sts = set states" "states_ok sts"
    "sc_frames c' = sc_frames c @ map (position_frame (poll_time c) (sc_windows c)) (batch c states)
       @ map (presentation_frame (poll_time c) (sc_windows c)) (owed_by sts c (batch c states))"
    "sc_prevAt c' = poll_time c"
    by (rule poll_reliable [OF assms(1,2,3) st sw])
  let ?B = "batch c states" and ?O = "owed_by sts c (batch c states)"
  let ?v = "\<lambda>s. Some (St_DeviceID s, Evaluate (poll_time c) (St_LastContact s) (sc_windows c))"
  have O: "set ?O \<subseteq> set states" "distinct ?O"
    using owed_sub [of sts c ?B] r(2,3) by (auto simp: states_ok_def dest!: distinct_mapI)
  have B: "set ?B \<subseteq> set states" using batch_mem by blast
  have dB: "distinct ?B" using st by (auto simp: states_ok_def batch_def sortByArrival_def distinct_map_filter intro!: distinct_mapI [of St_DeviceID])
  have "set ?O \<inter> set ?B = {}" by (auto simp: owed_by_def snapshotUnlocated_def reannounce_def diff_def split: if_splits)
  moreover have "set ?B \<union> set ?O = set states" using all_told [OF st r(2)] assms(5) B O(1) by blast
  moreover have "distinct states" using st by (auto simp: states_ok_def intro: distinct_mapI)
  ultimately have "mset (?B @ ?O) = mset states"
    using dB O(2) by (intro set_eq_iff_mset_eq_distinct [THEN iffD1]) auto
  then have eq: "mset (map ?v (?B @ ?O)) = mset (map ?v states)" by (simp only: mset_map)
  let ?F = "map (position_frame (poll_time c) (sc_windows c)) ?B @ map (presentation_frame (poll_time c) (sc_windows c)) ?O"
  have "map (\<lambda>f. described (fr_payload f)) (map (position_frame (poll_time c) (sc_windows c)) ?B) = map ?v ?B"
    using described_position(1) [OF st] batch_mem by (simp add: position_frame_def)
  moreover have "map (\<lambda>f. described (fr_payload f)) (map (presentation_frame (poll_time c) (sc_windows c)) ?O) = map ?v ?O"
    using described_presentation [OF st] O(1) by (auto simp: presentation_frame_def)
  ultimately have "map (\<lambda>f. described (fr_payload f)) ?F = map ?v (?B @ ?O)" by (simp only: map_append)
  then have "mset (map (\<lambda>f. described (fr_payload f)) ?F) = mset (map ?v states)" by (simp only: eq)
  then show ?thesis unfolding r(4,5) by blast
qed


section \<open>Outages\<close>

definition outage_frame :: frame where
  "outage_frame = \<lparr>fr_event = eventError, fr_id = 0, fr_payload = Failure unavailable\<rparr>"

lemma poll_unread:
  assumes "FamilyDeviceStates pg (sc_familyID c) d = (Inl e, d1)" "sc_writes c = []"
  shows "\<exists>c'. poll pg rt d c = (True, d1, c') \<and> wrote (if sc_degraded c then [] else [outage_frame]) (c\<lparr>sc_degraded := True\<rparr>) c'"
proof -
  obtain ok c' where r: "reportUnavailable c = (ok, c')" by fastforce
  obtain fs where fs: "wrote fs (c\<lparr>sc_degraded := True\<rparr>) c'" "set fs \<subseteq> {outage_frame}"
    "sc_degraded c \<longrightarrow> fs = []" "\<not> sc_degraded c \<longrightarrow> length fs = 1" "ok"
    using reportUnavailable_wrote [OF r] assms(2) by (auto simp: outage_frame_def)
  then have "fs = (if sc_degraded c then [] else [outage_frame])" by (cases fs) auto
  then show ?thesis using fs(1,5) assms(1) r by (simp add: poll_def)
qed

text \<open>
  An outage is reported once. While the family cannot be read, however many ticks that takes, the
  watcher gets exactly one \<open>error\<close> event and nothing else, the connection stays open, and its cursor
  and its observation of the family are what they were.
\<close>

theorem outage_told_once:
  assumes "ds \<noteq> []" "\<forall>d \<in> set ds. \<exists>e d1. FamilyDeviceStates pg (sc_familyID c) d = (Inl e, d1)" "sc_writes c = []"
  shows "sc_frames (stream_loop pg rt ds c) = sc_frames c @ (if sc_degraded c then [] else [outage_frame])
    \<and> sc_degraded (stream_loop pg rt ds c) \<and> sc_since (stream_loop pg rt ds c) = sc_since c
    \<and> sc_prev (stream_loop pg rt ds c) = sc_prev c \<and> sc_prevAt (stream_loop pg rt ds c) = sc_prevAt c
    \<and> sc_swept (stream_loop pg rt ds c) = sc_swept c"
  using assms
proof (induction ds arbitrary: c)
  case (Cons d ds)
  obtain e d1 where "FamilyDeviceStates pg (sc_familyID c) d = (Inl e, d1)" using Cons.prems(2) by auto
  from poll_unread [OF this Cons.prems(3)] obtain c1 where p: "poll pg rt d c = (True, d1, c1)"
    and w1: "wrote (if sc_degraded c then [] else [outage_frame]) (c\<lparr>sc_degraded := True\<rparr>) c1" by blast
  obtain ok c2 where h: "heartbeat c1 = (ok, c2)" by fastforce
  note f1 = wroteD [OF w1, simplified]
  have w2: "wrote [] c1 c2" and ok: "ok" using heartbeat_wrote [OF h] f1(12) Cons.prems(3) by auto
  note f2 = wroteD [OF w2]
  show ?case
  proof (cases "ds = []")
    case True
    then show ?thesis using p h ok f1 f2 by simp
  next
    case False
    have "\<forall>d \<in> set ds. \<exists>e d1. FamilyDeviceStates pg (sc_familyID c2) d = (Inl e, d1)" using Cons.prems(2) f1(4) f2(4) by simp
    from Cons.IH [OF False this] show ?thesis using p h ok f1 f2 Cons.prems(3) by simp
  qed
qed simp

section \<open>Who is told what\<close>

definition stream_presents :: "stream_request \<Rightarrow> string \<Rightarrow> bool" where
  "stream_presents r h \<longleftrightarrow> (case FromRequest (rq_authorization r) of
     Some tok \<Rightarrow> Token_Hash tok = h | None \<Rightarrow> rq_query r ''token'' \<noteq> [] \<and> Token_Hash (rq_query r ''token'') = h)"

lemma authViewerForStream_ok:
  assumes "authViewerForStream r d = (Inr v, d1)"
  shows "\<exists>x \<in> set (viewers d). v = to_Viewer x \<and> unexpired (vw_expires x) d \<and> stream_presents r (vw_hash x) \<and> (\<exists>fs. d1 = d\<lparr>faults := fs\<rparr>)"
proof -
  obtain tok where a: "AuthenticateViewer (Token_Hash tok) d = (Inr v, d1)"
    and tok: "FromRequest (rq_authorization r) = Some tok \<or> FromRequest (rq_authorization r) = None \<and> rq_query r ''token'' = tok \<and> tok \<noteq> []"
    using assms by (auto simp: authViewerForStream_def Let_def split: option.splits if_splits prod.splits sum.splits)
  obtain x where x: "x \<in> set (viewers d)" "v = to_Viewer x" "vw_hash x = Token_Hash tok" "unexpired (vw_expires x) d"
    using vw_cred.lookup_ok [OF a] by blast
  moreover have "stream_presents r (vw_hash x)" using tok x(3) by (auto simp: stream_presents_def)
  moreover have "\<exists>fs. d1 = d\<lparr>faults := fs\<rparr>" using vw_cred.lookup_reads [of "Token_Hash tok" d] a by simp
  ultimately show ?thesis by blast
qed

lemma described_id:
  "described (Entry (entryFor s t w)) = Some (dev, x) \<Longrightarrow> dev = St_DeviceID s"
  "described (Entry (presentationPayloadFor s t w)) = Some (dev, x) \<Longrightarrow> dev = St_DeviceID s"
  by (auto simp: entryFor_def presentationPayloadFor_def unlocated_for_def Let_def split: option.splits if_splits)

definition of_family :: "pg \<Rightarrow> string \<Rightarrow> db set \<Rightarrow> frame \<Rightarrow> bool" where
  "of_family pg fam D f \<longleftrightarrow> (case described (fr_payload f) of None \<Rightarrow> True
     | Some (dev, _) \<Rightarrow> \<exists>d \<in> D. \<exists>r \<in> set (devices d). dev_id r = dev \<and> uuid_in pg fam = Some (dev_family r))"


lemma of_family_poll:
  assumes "poll pg rt d c = (ok, d', c')" "\<forall>f \<in> set (sc_frames c). of_family pg (sc_familyID c) D f" "d \<in> D"
  shows "\<forall>f \<in> set (sc_frames c'). of_family pg (sc_familyID c') D f"
proof -
  have fam: "sc_familyID c' = sc_familyID c" by (rule poll_keeps_family [OF assms(1)])
  have seen: "of_family pg (sc_familyID c) D f"
    if q: "FamilyDeviceStates pg (sc_familyID c) d = (Inr states, d1)" "s \<in> set states"
      "f = position_frame t w s \<or> f = presentation_frame t w s" for states d1 s t w f
  proof -
    obtain fm where fm: "uuid_in pg (sc_familyID c) = Some fm"
      "states = map (\<lambda>r. to_state (r, newest_fix (device_fixes (dev_id r) d), max_received (device_fixes (dev_id r) d))) (family_devices fm d)"
      using FamilyDeviceStates_ok [OF q(1)] by blast
    then obtain r where "r \<in> set (devices d)" "dev_id r = St_DeviceID s" "dev_family r = fm"
      using q(2) by (auto simp: family_devices_def to_state_def)
    then have "\<exists>e \<in> D. \<exists>r \<in> set (devices e). dev_id r = St_DeviceID s \<and> uuid_in pg (sc_familyID c) = Some (dev_family r)"
      using fm(1) assms(3) by blast
    moreover have "dev = St_DeviceID s" if "described (fr_payload f) = Some (dev, x)" for dev x
      using q(3) that described_id by (auto simp: position_frame_def presentation_frame_def)
    ultimately show ?thesis by (cases "described (fr_payload f)") (auto simp: of_family_def)
  qed
  have err: "of_family pg (sc_familyID c) D f" if "f \<in> set fs" "set fs \<subseteq> {\<lparr>fr_event = eventError, fr_id = 0, fr_payload = Failure unavailable\<rparr>}" for f fs
    using that by (auto simp: of_family_def)
  note old = assms(2)
  from assms(1) show ?thesis
  proof (cases rule: pollE)
    case unread
    then obtain fs where "wrote fs (c\<lparr>sc_degraded := True\<rparr>) c'" "set fs \<subseteq> {\<lparr>fr_event = eventError, fr_id = 0, fr_payload = Failure unavailable\<rparr>}"
      using reportUnavailable_wrote by blast
    then show ?thesis using wroteD(1) [of fs "c\<lparr>sc_degraded := True\<rparr>" c'] err old fam by auto
  next
    case (left states d1 sent rest)
    have "set sent \<subseteq> set states" using left(2) batch_mem by (metis Un_iff set_append subsetI)
    then have "\<forall>s \<in> set sent. of_family pg (sc_familyID c) D (position_frame (poll_time c) (sc_windows c) s)" using seen [OF left(1)] by blast
    then show ?thesis using after_positionsD(11) [OF left(4)] old fam by auto
  next
    case (unswept states d1 e d2 c2)
    obtain fs where "wrote fs (c2\<lparr>sc_degraded := True\<rparr>) c'" "set fs \<subseteq> {\<lparr>fr_event = eventError, fr_id = 0, fr_payload = Failure unavailable\<rparr>}"
      using reportUnavailable_wrote [OF unswept(4)] by blast
    moreover have "\<forall>s \<in> set (batch c states). of_family pg (sc_familyID c) D (position_frame (poll_time c) (sc_windows c) s)"
      using seen [OF unswept(1)] batch_mem by blast
    ultimately show ?thesis using wroteD(1) [of fs "c2\<lparr>sc_degraded := True\<rparr>" c'] err old fam after_positionsD(11) [OF unswept(2)] by auto
  next
    case (presented states d1 owed d2 c2 sent rest c3)
    have "set owed \<subseteq> set states"
      using presented(3) by (auto simp: owed_devices_def resumeSweep_def snapshotUnlocated_def reannounce_def diff_def sortDeviceStates_def sortByArrival_def
          split: if_splits prod.splits sum.splits)
    then have "set sent \<subseteq> set states" using presented(4) by simp
    then have "\<forall>s \<in> set sent. of_family pg (sc_familyID c) D (presentation_frame (poll_time c) (sc_windows c) s)"
      using seen [OF presented(1)] by blast
    moreover have "\<forall>s \<in> set (batch c states). of_family pg (sc_familyID c) D (position_frame (poll_time c) (sc_windows c) s)"
      using seen [OF presented(1)] batch_mem by blast
    ultimately show ?thesis using wroteD(1) [OF presented(7)] old fam after_positionsD(11) [OF presented(2)] presented(8)
      by (auto simp: remember_def split: if_splits)
  qed
qed

text \<open>
  A stream is opened only with the unexpired credential of a viewer, in the header or else in the
  query, and it never says anything about a device outside that viewer's family: every device named by
  an event is a device of the family in the database as one of the polls found it.
\<close>

theorem stream_scoped:
  assumes "getStream pg rt w flusher clk writes r d ticks = Streamed c"
  shows "\<exists>v \<in> set (viewers d). stream_presents r (vw_hash v) \<and> unexpired (vw_expires v) d
    \<and> (\<forall>f \<in> set (sc_frames c). of_family pg (vw_family v) (set (d # ticks)) f)"
  using assms
proof (rule getStreamE)
  fix v d1 ok d2 c1
  assume a: "authViewerForStream r d = (Inr v, d1)" "c = (if ok then stream_loop pg rt ticks c1 else c1)"
    and p: "poll pg rt d1 (open_conn (Viewer_FamilyID v) w (parseResumeCursor r) clk writes) = (ok, d2, c1)"
  obtain x fs where x: "x \<in> set (viewers d)" "v = to_Viewer x" "unexpired (vw_expires x) d" "stream_presents r (vw_hash x)" "d1 = d\<lparr>faults := fs\<rparr>"
    using authViewerForStream_ok [OF a(1)] by blast
  let ?D = "set (d # ticks) \<union> {d1}"
  have fam: "sc_familyID c1 = vw_family x" using poll_keeps_family [OF p] x(2) by (simp add: open_conn_def to_Viewer_def)
  have 1: "\<forall>f \<in> set (sc_frames c1). of_family pg (sc_familyID c1) ?D f"
    by (rule of_family_poll [OF p]) (simp_all add: open_conn_def)
  have "sc_familyID (stream_loop pg rt ticks c1) = vw_family x \<and>
      (\<forall>f \<in> set (sc_frames (stream_loop pg rt ticks c1)). of_family pg (sc_familyID (stream_loop pg rt ticks c1)) ?D f)"
  proof (rule stream_loop_induct)
    show "sc_familyID c1 = vw_family x \<and> (\<forall>f \<in> set (sc_frames c1). of_family pg (sc_familyID c1) ?D f)" using fam 1 by simp
  next
    fix e c ok d' c' assume s: "e \<in> set ticks" "sc_familyID c = vw_family x \<and> (\<forall>f \<in> set (sc_frames c). of_family pg (sc_familyID c) ?D f)"
      "poll pg rt e c = (ok, d', c')"
    show "sc_familyID c' = vw_family x \<and> (\<forall>f \<in> set (sc_frames c'). of_family pg (sc_familyID c') ?D f)"
      using of_family_poll [OF s(3) s(2) [THEN conjunct2]] poll_keeps_family [OF s(3)] s(1,2) by simp
  next
    fix c ok c' assume s: "sc_familyID c = vw_family x \<and> (\<forall>f \<in> set (sc_frames c). of_family pg (sc_familyID c) ?D f)" "heartbeat c = (ok, c')"
    show "sc_familyID c' = vw_family x \<and> (\<forall>f \<in> set (sc_frames c'). of_family pg (sc_familyID c') ?D f)"
      using s(1) heartbeat_wrote [OF s(2)] wroteD(1,4) [of "[]" c c'] by auto
  qed
  then have "\<forall>f \<in> set (sc_frames c). of_family pg (vw_family x) ?D f" using a(2) 1 fam by (cases ok) auto
  moreover have "of_family pg (vw_family x) ?D f \<Longrightarrow> of_family pg (vw_family x) (set (d # ticks)) f" for f
    using x(5) by (auto simp: of_family_def split: option.splits)
  ultimately show ?thesis using x by blast
qed


section \<open>Witnesses\<close>

text \<open>Two devices of one family whose fixes arrived in one transaction, so at one instant.\<close>

definition tie_db :: db where
  "tie_db = (with_fixes [sample_row ''d1'' day (2 * day), sample_row ''d2'' day (2 * day)] viewer_db)
     \<lparr>devices := [sample_device, sample_device\<lparr>dev_id := ''d2'', dev_name := ''tablet'', dev_hash := replicate 32 (CHR ''e'')\<rparr>]\<rparr>"

definition sample_windows :: Windows where "sample_windows = \<lparr>LiveSeconds = 120, StaleSeconds = 900\<rparr>"

definition stream_req :: "string \<Rightarrow> stream_request" where
  "stream_req cur = \<lparr>rq_authorization = ''Bearer secret'', rq_query = (\<lambda>_. []), rq_id = [], rq_body = [], rq_last_event_id = cur\<rparr>"

definition tie_state :: "string \<Rightarrow> string \<Rightarrow> DeviceState" where
  "tie_state i n = \<lparr>St_DeviceID = i, St_DeviceName = n,
     St_Current = Some \<lparr>Pos_DeviceID = i, Pos_DeviceName = n, Pos_TS = day, Pos_Lon = Fin 1, Pos_Lat = Fin 2, Pos_ReceivedAt = 2 * day\<rparr>,
     St_LastContact = Some (2 * day)\<rparr>"

lemma tie_db_simps [simp]:
  "devices tie_db = [sample_device, sample_device\<lparr>dev_id := ''d2'', dev_name := ''tablet'', dev_hash := replicate 32 (CHR ''e'')\<rparr>]"
  "all_fixes tie_db = [sample_row ''d1'' day (2 * day), sample_row ''d2'' day (2 * day)]" "faults tie_db = []" "clock tie_db = 86400000000"
  "viewers tie_db = [\<lparr>vw_id = ''v1'', vw_family = ''f1'', vw_email = ''a'', vw_display = ''A'', vw_hash = Token_Hash ''secret'', vw_expires = None\<rparr>]"
  by (simp_all add: tie_db_def with_fixes_def all_fixes_def viewer_db_def sample_ok) (simp_all add: sample_db_def)

lemma tie_states: "FamilyDeviceStates sample_pg ''f1'' (tie_db\<lparr>faults := []\<rparr>) = (Inr [tie_state ''d1'' ''phone'', tie_state ''d2'' ''tablet''], tie_db\<lparr>faults := []\<rparr>)"
proof -
  have af: "all_fixes (tie_db\<lparr>faults := []\<rparr>) = all_fixes tie_db" by (simp add: all_fixes_def)
  show ?thesis
    using FamilyDeviceStates_clean [of "tie_db\<lparr>faults := []\<rparr>" sample_pg "''f1''" "''f1''"]
    by (simp add: sample_ok family_devices_def device_fixes_def af to_state_def tie_state_def newest_fix_def max_received_def sample_row_def sample_device_def)
qed

lemma tie_states': "FamilyDeviceStates sample_pg ''f1'' tie_db = (Inr [tie_state ''d1'' ''phone'', tie_state ''d2'' ''tablet''], tie_db)"
  using tie_states by (metis faults_self tie_db_simps(3))

lemma tie_streamable: "streamable tie_db"
  by (simp add: streamable_def sample_device_def sample_row_def isNotFinite_def IsNaN_def IsInf_def zero_time_def unix_to_internal_def day_def second_def)

definition tie_conn :: streamConn where
  "tie_conn = open_conn ''f1'' sample_windows (zero_time, False) (\<lambda>_. 3 * day) []"

lemma tie_fresh [simp]: "fresh (sc_since tie_conn) (tie_state i n)"
  by (simp add: fresh_def tie_conn_def open_conn_def tie_state_def zero_time_def unix_to_internal_def day_def second_def)

lemma tie_conn_simps [simp]: "sc_familyID tie_conn = ''f1''" "sc_writes tie_conn = []" "sc_frames tie_conn = []" "\<not> sc_swept tie_conn" "\<not> sc_resuming tie_conn"
  "sc_since tie_conn = zero_time" "sc_prev tie_conn = Map.empty" "\<not> sc_degraded tie_conn" "sc_windows tie_conn = sample_windows"
  by (simp_all add: tie_conn_def open_conn_def)

theorem positions_delivered_witness:
  "\<exists>ok d' c'. poll sample_pg sample_rt tie_db tie_conn = (ok, d', c') \<and> length (filter (\<lambda>f. fr_event f = eventPosition) (sc_frames c')) = 2"
proof -
  obtain ok d' c' where p: "poll sample_pg sample_rt tie_db tie_conn = (ok, d', c')" using prod_cases3 by blast
  obtain L rest where L: "sc_frames c' = sc_frames tie_conn @ map (position_frame (sc_clock tie_conn (sc_reads tie_conn)) (sc_windows tie_conn)) L @ rest"
    "\<forall>f \<in> set rest. fr_event f \<noteq> eventPosition" "set L = {s \<in> set [tie_state ''d1'' ''phone'', tie_state ''d2'' ''tablet'']. fresh (sc_since tie_conn) s}" "distinct L"
    using positions_delivered [OF p _ _ tie_streamable] tie_states' by (simp only: tie_conn_simps) blast
  have "set L = {tie_state ''d1'' ''phone'', tie_state ''d2'' ''tablet''}" using L(3) tie_fresh by auto
  then have "length L = 2" using distinct_card [OF L(4)] by (simp add: tie_state_def)
  moreover have "filter (\<lambda>f. fr_event f = eventPosition) rest = []" using L(2) by (simp add: filter_empty_conv)
  ultimately have "length (filter (\<lambda>f. fr_event f = eventPosition) (sc_frames c')) = 2" by (simp add: L(1) position_frame_def)
  then show ?thesis using p by blast
qed


theorem every_device_described_once_witness:
  "\<exists>ok d' c'. poll sample_pg sample_rt tie_db tie_conn = (ok, d', c') \<and> length (sc_frames c') = 2"
proof -
  obtain ok d' c' where p: "poll sample_pg sample_rt tie_db tie_conn = (ok, d', c')" using prod_cases3 by blast
  have "\<exists>fs. sc_frames c' = sc_frames tie_conn @ fs \<and> mset (map (\<lambda>f. described (fr_payload f)) fs)
      = mset (map (\<lambda>s. Some (St_DeviceID s, Evaluate (sc_prevAt c') (St_LastContact s) (sc_windows tie_conn)))
          [tie_state ''d1'' ''phone'', tie_state ''d2'' ''tablet''])"
    by (rule every_device_described_once [OF p _ _ tie_streamable, of _ tie_db]) (use tie_states' in simp_all)
  then obtain fs where "sc_frames c' = fs" "mset (map (\<lambda>f. described (fr_payload f)) fs)
      = mset (map (\<lambda>s. Some (St_DeviceID s, Evaluate (sc_prevAt c') (St_LastContact s) (sc_windows tie_conn)))
          [tie_state ''d1'' ''phone'', tie_state ''d2'' ''tablet''])" by auto
  then have "length (sc_frames c') = 2" using mset_eq_length by fastforce
  then show ?thesis using p by blast
qed

theorem watcher_in_sync_witness:
  "\<exists>ok d' c'. poll sample_pg sample_rt tie_db tie_conn = (ok, d', c')
     \<and> watcher_view (sc_frames c') ''d1'' = Some (Evaluate (sc_prevAt c') (Some (2 * day)) sample_windows)"
proof -
  obtain ok d' c' where p: "poll sample_pg sample_rt tie_db tie_conn = (ok, d', c')" using prod_cases3 by blast
  have e: "still_enrolled sample_pg tie_db tie_conn" by (simp add: still_enrolled_def)
  have "ok \<and> (\<forall>s \<in> set [tie_state ''d1'' ''phone'', tie_state ''d2'' ''tablet''].
      watcher_view (sc_frames c') (St_DeviceID s) = Some (Evaluate (sc_prevAt c') (St_LastContact s) sample_windows)
      \<or> watcher_view (sc_frames c') (St_DeviceID s) = None \<and> watcher_view (sc_frames tie_conn) (St_DeviceID s) = None
        \<and> sc_swept tie_conn \<and> \<not> sc_degraded tie_conn)"
    by (rule watcher_in_sync [OF _ p tie_states' tie_streamable e, where clk = "\<lambda>_. 3 * day"]) (simp add: tie_conn_def)
  then show ?thesis using p by (auto simp: tie_state_def)
qed

theorem outage_told_once_witness:
  "sc_frames (stream_loop sample_pg sample_rt [tie_db\<lparr>faults := [Lost (DriverError ''reset'')]\<rparr>] tie_conn) = [outage_frame]"
proof -
  have "FamilyDeviceStates sample_pg ''f1'' (tie_db\<lparr>faults := [Lost (DriverError ''reset'')]\<rparr>)
      = (Inl (StPg (DriverError ''reset'')), tie_db\<lparr>faults := []\<rparr>)" by (simp add: FamilyDeviceStates_def run_def)
  then show ?thesis
    using outage_told_once [of "[tie_db\<lparr>faults := [Lost (DriverError ''reset'')]\<rparr>]" sample_pg tie_conn sample_rt] by simp
qed

lemma tie_auth: "authViewerForStream (stream_req cur) tie_db = (Inr (to_Viewer (hd (viewers tie_db))), tie_db)"
proof -
  have "FromRequest (''Bearer '' @ ''secret'') = Some ''secret''" by (rule FromRequest_bearer) (simp_all add: visible_def)
  then have "FromRequest (rq_authorization (stream_req cur)) = Some ''secret''" by (simp add: stream_req_def)
  moreover have "AuthenticateViewer (Token_Hash ''secret'') tie_db = (Inr (to_Viewer (hd (viewers tie_db))), tie_db)"
    by (subst vw_cred.lookup_clean) (simp_all add: TokenHashLen_def unexpired_def)
  ultimately show ?thesis by (simp add: authViewerForStream_def)
qed

lemma tie_stream: "\<exists>c. getStream sample_pg sample_rt sample_windows True clk writes (stream_req cur) tie_db ticks = Streamed c"
  by (auto simp: getStream_def tie_auth split: prod.split bool.split)

theorem ids_are_a_cursor_witness:
  "\<exists>c. getStream sample_pg sample_rt sample_windows True (\<lambda>_. 3 * day) [] (stream_req []) tie_db [tie_db] = Streamed c
     \<and> sorted (map fr_id (filter (\<lambda>f. fr_event f = eventPosition) (sc_frames c)))"
  using tie_stream [of "\<lambda>_. 3 * day" "[]" "[]" "[tie_db]"] ids_are_a_cursor by blast

theorem stream_scoped_witness:
  "\<exists>c. getStream sample_pg sample_rt sample_windows True (\<lambda>_. 3 * day) [] (stream_req []) tie_db [tie_db] = Streamed c
     \<and> (\<forall>f \<in> set (sc_frames c). of_family sample_pg ''f1'' {tie_db} f)"
proof -
  obtain c where c: "getStream sample_pg sample_rt sample_windows True (\<lambda>_. 3 * day) [] (stream_req []) tie_db [tie_db] = Streamed c"
    using tie_stream by blast
  then show ?thesis using stream_scoped [OF c] by auto
qed


end
