(* ===== verification/Resume.thy ===== *)
theory Resume
  imports LiveStream
begin

text \<open>
  A reconnecting watcher of \<open>internal/server/stream.go\<close>: the cursor it sends back, the sweep its first
  poll runs, and how often a stream polls. The theorems show that the id of an event restores exactly
  the arrival it was made from, that the sweep speaks of a device exactly when its comment says so, and
  that the tick keeps half the sweep bound; and three places where the code falls short of its
  comments: a watcher that leaves inside a group of positions with one arrival instant never gets the
  rest of the group, a resumed connection whose first read fails never restates the family, and a tick
  computed from very wide windows overflows.
\<close>

section \<open>The cursor\<close>

text \<open>
  The cursor survives the round trip. The browser sends back the id of the last \<open>position\<close> event;
  parsing it yields the arrival instant of that position (stored to the microsecond), and marks the
  request as a resume. An absent or unparseable id is a fresh connection.
\<close>

theorem cursor_roundtrip:
  "(pg_time t = t \<and> int64 (UnixMicro t) \<longrightarrow> parseResumeCursor (r\<lparr>rq_last_event_id := FormatInt (UnixMicro t)\<rparr>) = (t, True))
   \<and> (rq_last_event_id r = [] \<or> (\<exists>e. ParseInt (rq_last_event_id r) = Inl e) \<longrightarrow> parseResumeCursor r = (zero_time, False))"
proof -
  have "time_UnixMicro (UnixMicro t) = t" if "pg_time t = t"
    using that by (simp add: pg_time_def time_UnixMicro_def UnixMicro_def)
  then show ?thesis
    using ParseInt_FormatInt [of "UnixMicro t"] visible_FormatInt [of "UnixMicro t"] by (auto simp: parseResumeCursor_def)
qed

theorem cursor_roundtrip_witness:
  "parseResumeCursor (stream_req (FormatInt (UnixMicro (2 * day)))) = (2 * day, True)"
proof -
  have "pg_time (2 * day) = 2 * day \<and> int64 (UnixMicro (2 * day))" by (simp add: pg_time_def day_def second_def UnixMicro_def int64_def)
  then have "parseResumeCursor (stream_req []\<lparr>rq_last_event_id := FormatInt (UnixMicro (2 * day))\<rparr>) = (2 * day, True)"
    using cursor_roundtrip [of "2 * day" "stream_req []"] by blast
  then show ?thesis by (simp add: stream_req_def)
qed

section \<open>The sweep\<close>

lemma join_device:
  assumes "distinct (map dev_id (devices d))" "r \<in> set (family_devices fam d)"
  shows "filter (\<lambda>f. fx_device f = dev_id r) (map fst (join_fixes fam d)) = device_fixes (dev_id r) d"
proof -
  have r: "r \<in> set (devices d)" "dev_family r = fam" using assms(2) by (auto simp: family_devices_def)
  have "filter (\<lambda>x. dev_id x = dev_id r \<and> dev_family x = fam) rs = [r]" if "distinct (map dev_id rs)" "r \<in> set rs" for rs
    using that
  proof (induction rs)
    case (Cons x rs)
    show ?case
    proof (cases "x = r")
      case True
      then have "dev_id r \<notin> dev_id ` set rs" using Cons.prems(1) by simp
      then have "filter (\<lambda>x. dev_id x = dev_id r \<and> dev_family x = fam) rs = []" by (simp add: filter_empty_conv) (metis imageI)
      then show ?thesis using True r by simp
    next
      case False
      then have "dev_id x \<noteq> dev_id r" using Cons.prems by auto
      then show ?thesis using Cons False by auto
    qed
  qed simp
  then have one: "filter (\<lambda>x. dev_id x = dev_id r \<and> dev_family x = fam) (devices d) = [r]" using assms(1) r by blast
  have "filter (\<lambda>f. fx_device f = dev_id r) (map fst (concat (map (\<lambda>f. map (Pair f) (filter (\<lambda>x. dev_id x = fx_device f \<and> dev_family x = fam) (devices d))) fs)))
      = filter (\<lambda>f. fx_device f = dev_id r) fs" for fs
    by (induction fs) (auto simp: one comp_def filter_empty_conv)
  then show ?thesis by (simp add: join_fixes_def device_fixes_def)
qed

definition contact_by :: "instant \<Rightarrow> uuid \<Rightarrow> db \<Rightarrow> fix_row list" where
  "contact_by t dev d = filter (\<lambda>f. fx_received f \<le> pg_time t) (device_fixes dev d)"

lemma FamilyLastContactAsOf_clean:
  assumes "faults d = []" "uuid_in pg familyID = Some fam" "distinct (map dev_id (devices d))"
  shows "\<exists>asOf. FamilyLastContactAsOf pg familyID t d = (Inr asOf, d)
    \<and> (\<forall>r \<in> set (family_devices fam d). asOf (dev_id r) = max_received (contact_by t (dev_id r) d))"
proof -
  define fs where "fs = filter (\<lambda>f. fx_received f \<le> pg_time t) (map fst (join_fixes fam d))"
  define asOf where "asOf = map_of (map (\<lambda>dev. (dev, the (max_received (filter (\<lambda>f. fx_device f = dev) fs)))) (remdups (map fx_device fs)))"
  have "FamilyLastContactAsOf pg familyID t d = (Inr asOf, d)"
    using assms(1,2) by (simp add: FamilyLastContactAsOf_def run_clean familyLastContactAsOfSQL_def with_uuid_def Let_def fs_def asOf_def)
  moreover have "asOf (dev_id r) = max_received (contact_by t (dev_id r) d)" if r: "r \<in> set (family_devices fam d)" for r
  proof -
    have e: "filter (\<lambda>f. fx_device f = dev_id r) fs = contact_by t (dev_id r) d"
      unfolding fs_def contact_by_def join_device [OF assms(3) r, symmetric] by (simp add: filter_filter conj_commute)
    show ?thesis
    proof (cases "dev_id r \<in> fx_device ` set fs")
      case True
      then have "contact_by t (dev_id r) d \<noteq> []" using e by (auto simp: filter_empty_conv)
      then show ?thesis using True e by (simp add: asOf_def map_of_map_restrict max_received_Max)
    next
      case False
      then have "filter (\<lambda>f. fx_device f = dev_id r) fs = []" by (force simp: filter_empty_conv)
      then have "contact_by t (dev_id r) d = []" using e by simp
      then show ?thesis using False by (simp add: asOf_def map_of_map_restrict max_received_def)
    qed
  qed
  ultimately show ?thesis by blast
qed

definition speaks_of :: "frame list \<Rightarrow> string \<Rightarrow> bool" where
  "speaks_of fs dev \<longleftrightarrow> (\<exists>f \<in> set fs. \<exists>x. described (fr_payload f) = Some (dev, x))"

lemma speaks_of_frames:
  assumes "states_ok states" "set B \<subseteq> set states" "\<forall>s \<in> set B. St_Current s \<noteq> None" "set owed \<subseteq> set states"
  shows "speaks_of (map (position_frame t w) B @ map (presentation_frame t w) owed) dev \<longleftrightarrow> dev \<in> St_DeviceID ` (set B \<union> set owed)"
proof -
  have "described (fr_payload (position_frame t w s)) = Some (St_DeviceID s, Evaluate t (St_LastContact s) w)" if "s \<in> set B" for s
    using described_position(1) [OF assms(1)] assms(2,3) that by (auto simp: position_frame_def)
  moreover have "described (fr_payload (presentation_frame t w s)) = Some (St_DeviceID s, Evaluate t (St_LastContact s) w)" if "s \<in> set owed" for s
    using described_presentation [OF assms(1)] assms(4) that by (auto simp: presentation_frame_def)
  ultimately show ?thesis by (fastforce simp: speaks_of_def)
qed

lemma resumed_poll:
  assumes "faults d = []" "uuid_in pg fam = Some f" "streamable d"
    and c: "sc_familyID c = fam" "sc_writes c = []" "sc_windows c = w" "\<not> sc_swept c" "sc_resuming c" "sc_since c = cur" "sc_cursorInstant c = cur"
      "poll_time c = t"
  shows "\<exists>d' c' fs. poll pg rt d c = (True, d', c') \<and> sc_frames c' = sc_frames c @ fs \<and> sc_swept c' \<and> \<not> sc_degraded c'
    \<and> (\<forall>f \<in> set fs. \<exists>dev. speaks_of fs dev \<and> speaks_of [f] dev)
    \<and> (\<forall>r \<in> set (family_devices f d). speaks_of fs (dev_id r) \<longleftrightarrow>
        (\<exists>g. newest_fix (device_fixes (dev_id r) d) = Some g \<and> cur < fx_received g)
        \<or> contact_by cur (dev_id r) d = []
        \<or> Evaluate cur (max_received (contact_by cur (dev_id r) d)) w \<noteq> Evaluate (t) (max_received (device_fixes (dev_id r) d)) w)
    \<and> (\<forall>dev. speaks_of fs dev \<longrightarrow> dev \<in> dev_id ` set (family_devices f d))"
proof -
  define states where "states = map (\<lambda>r. to_state (r, newest_fix (device_fixes (dev_id r) d), max_received (device_fixes (dev_id r) d))) (family_devices f d)"
  have F: "FamilyDeviceStates pg (sc_familyID c) d = (Inr states, d)"
    using FamilyDeviceStates_clean [OF assms(1,2)] by (simp add: states_def c)
  have st: "states_ok states" using streamable_states [OF assms(3) F] .
  have dst: "distinct (map dev_id (devices d))" using assms(3) by (simp add: streamable_def)
  obtain asOf where A: "FamilyLastContactAsOf pg fam cur d = (Inr asOf, d)"
    "\<forall>r \<in> set (family_devices f d). asOf (dev_id r) = max_received (contact_by cur (dev_id r) d)"
    using FamilyLastContactAsOf_clean [OF assms(1,2) dst] by blast
  let ?B = "batch c states"
  define sts where "sts = sortDeviceStates (unicode_lower rt) (sortByArrival states)"
  define owed where "owed = filter (\<lambda>s. St_DeviceID s \<notin> St_DeviceID ` set ?B
      \<and> (case asOf (St_DeviceID s) of None \<Rightarrow> True
         | Some l \<Rightarrow> Evaluate cur (Some l) w \<noteq> Evaluate (t) (St_LastContact s) w)) sts"
  have sts: "set sts = set states" by (simp add: sts_def sortDeviceStates_def sortByArrival_def)
  have ow: "owed_devices pg sts (t) g P c2 d = (Inr (filter (\<lambda>s. St_DeviceID s \<notin> P
      \<and> (case asOf (St_DeviceID s) of None \<Rightarrow> True
         | Some l \<Rightarrow> Evaluate cur (Some l) w \<noteq> Evaluate (t) (St_LastContact s) w)) sts), d)"
    if ap: "after_positions c ?B c2" for c2 g P
  proof -
    have c2: "sc_windows c2 = w" "sc_cursorInstant c2 = cur" "sc_familyID c2 = fam" "\<not> sc_swept c2" "sc_resuming c2"
      using after_positionsD(2,3,7-9) [OF ap] c by simp_all
    show ?thesis unfolding owed_devices_def resumeSweep_def c2(1-3) using c2(4,5) by (simp add: A(1))
  qed
  obtain ok d' c' where p: "poll pg rt d c = (ok, d', c')" using prod_cases3 by blast
  from p have res: "ok \<and> sc_swept c' \<and> \<not> sc_degraded c' \<and> sc_frames c' = sc_frames c @ map (position_frame (t) w) ?B @ map (presentation_frame (t) w) owed"
  proof (cases rule: pollE)
    case (presented states' d1 owed' d2 c2 sent rest c3)
    have e: "states' = states" "d1 = d" using presented(1) F by simp_all
    have o: "owed' = owed" "d2 = d" using presented(2,3) ow [of c2] by (simp_all add: e c(8) sts_def [symmetric] owed_def)
    have ok: "ok" "sent = owed" using presented(4-6) c(2) o by simp_all
    have all: "filter (\<lambda>s. marshals (Entry (entryFor s (poll_time c) (sc_windows c)))) ?B = ?B"
      unfolding filter_id_conv using described_position(2) [OF st] batch_mem by blast
    show ?thesis
      using wroteD(1,7,8) [OF presented(7)] after_positionsD(6,11) [OF presented(2)] presented(8) ok all c by (simp add: e remember_def)
  next
    case (unswept states' d1 e d2 c2)
    have e: "states' = states" "d1 = d" using unswept(1) F by simp_all
    show ?thesis using unswept(2,3) ow [of c2] by (simp add: e c(8) sts_def [symmetric])
  qed (use F c in simp_all)
  have B: "set ?B \<subseteq> set states" "\<forall>s \<in> set ?B. St_Current s \<noteq> None" using batch_mem by blast+
  have O: "set owed \<subseteq> set states" using sts by (auto simp: owed_def)
  define fs where "fs = map (position_frame t w) ?B @ map (presentation_frame t w) owed"
  have sp: "speaks_of fs dev \<longleftrightarrow> dev \<in> St_DeviceID ` (set ?B \<union> set owed)" for dev
    using speaks_of_frames [OF st B O] by (simp add: fs_def)
  have ids: "St_DeviceID ` set states = dev_id ` set (family_devices f d)" by (simp add: states_def to_state_def image_image)
  have main: "speaks_of fs (dev_id r) \<longleftrightarrow> (\<exists>g. newest_fix (device_fixes (dev_id r) d) = Some g \<and> cur < fx_received g)
        \<or> contact_by cur (dev_id r) d = []
        \<or> Evaluate cur (max_received (contact_by cur (dev_id r) d)) w \<noteq> Evaluate (t) (max_received (device_fixes (dev_id r) d)) w"
    if r: "r \<in> set (family_devices f d)" for r
  proof -
    define s where "s = to_state (r, newest_fix (device_fixes (dev_id r) d), max_received (device_fixes (dev_id r) d))"
    have s: "s \<in> set states" "St_DeviceID s = dev_id r" "St_LastContact s = max_received (device_fixes (dev_id r) d)"
      using r by (auto simp: s_def states_def to_state_def)
    have inB: "s \<in> set ?B \<longleftrightarrow> (\<exists>g. newest_fix (device_fixes (dev_id r) d) = Some g \<and> cur < fx_received g)"
      using s(1) by (cases "newest_fix (device_fixes (dev_id r) d)")
        (simp_all add: batch_def sortByArrival_def fresh_def c s_def to_state_def del: newest_fix_None)
    have "dev_id r \<in> St_DeviceID ` (set ?B \<union> set owed) \<longleftrightarrow> s \<in> set ?B \<or> s \<in> set owed"
    proof
      assume "dev_id r \<in> St_DeviceID ` (set ?B \<union> set owed)"
      then obtain x where x: "x \<in> set ?B \<union> set owed" "St_DeviceID x = dev_id r" by force
      then have "x \<in> set states" using B(1) O by blast
      then have "x = s" using id_injective [of states x s] st s x(2) by (simp add: states_ok_def)
      then show "s \<in> set ?B \<or> s \<in> set owed" using x by blast
    next
      assume "s \<in> set ?B \<or> s \<in> set owed"
      then show "dev_id r \<in> St_DeviceID ` (set ?B \<union> set owed)" unfolding s(2) [symmetric] by blast
    qed
    moreover have "s \<notin> set ?B \<Longrightarrow> s \<in> set owed \<longleftrightarrow> contact_by cur (dev_id r) d = []
        \<or> Evaluate cur (max_received (contact_by cur (dev_id r) d)) w \<noteq> Evaluate (t) (max_received (device_fixes (dev_id r) d)) w"
      using not_in_batch [OF st s(1), of c] A(2) [rule_format, OF r] s sts max_received_None [of "contact_by cur (dev_id r) d"]
      by (cases "max_received (contact_by cur (dev_id r) d)") (auto simp: owed_def)
    ultimately show ?thesis using sp [of "dev_id r"] inB by blast
  qed
  have "\<forall>dev. speaks_of fs dev \<longrightarrow> dev \<in> dev_id ` set (family_devices f d)" using sp B(1) O ids by blast
  moreover have "poll pg rt d c = (True, d', c')" "sc_frames c' = sc_frames c @ fs" using p res by (simp_all add: fs_def)
  moreover have "\<exists>dev. speaks_of fs dev \<and> speaks_of [g] dev" if g: "g \<in> set fs" for g
  proof -
    obtain s where "s \<in> set states" "g = position_frame t w s \<and> St_Current s \<noteq> None \<or> g = presentation_frame t w s"
      using g B O by (auto simp: fs_def)
    then have "described (fr_payload g) = Some (St_DeviceID s, Evaluate t (St_LastContact s) w)"
      using described_position(1) [OF st] described_presentation [OF st] by (auto simp: position_frame_def presentation_frame_def)
    then show ?thesis using g by (auto simp: speaks_of_def)
  qed
  ultimately show ?thesis using main res by (intro exI [of _ d'] exI [of _ c'] exI [of _ fs] conjI ballI) auto
qed


text \<open>
  C27: The resume sweep speaks of exactly the devices that need it. The first poll of a resumed
  connection describes a device of the family if and only if its current position arrived after the
  cursor, or it had no fix by the cursor's instant, or its value now differs from the value the same
  rule gives for the cursor's instant over the fixes that had arrived by then; it speaks of no other
  device. The stored fix the cursor came from need not exist any more.
\<close>

theorem resume_sweep_exact:
  assumes "poll pg rt d (open_conn fam w (cur, True) clk []) = (ok, d', c')" "faults d = []" "uuid_in pg fam = Some f" "streamable d"
  shows "ok \<and> (\<forall>dev. speaks_of (sc_frames c') dev \<longleftrightarrow> (\<exists>r \<in> set (family_devices f d). dev_id r = dev
      \<and> ((\<exists>g. newest_fix (device_fixes dev d) = Some g \<and> cur < fx_received g)
         \<or> filter (\<lambda>x. fx_received x \<le> pg_time cur) (device_fixes dev d) = []
         \<or> Evaluate cur (max_received (filter (\<lambda>x. fx_received x \<le> pg_time cur) (device_fixes dev d))) w
           \<noteq> Evaluate (clk 0) (max_received (device_fixes dev d)) w)))"
proof -
  have c: "sc_familyID (open_conn fam w (cur, True) clk []) = fam" "sc_writes (open_conn fam w (cur, True) clk []) = []"
    "sc_windows (open_conn fam w (cur, True) clk []) = w" "\<not> sc_swept (open_conn fam w (cur, True) clk [])"
    "sc_resuming (open_conn fam w (cur, True) clk [])" "sc_since (open_conn fam w (cur, True) clk []) = cur"
    "sc_cursorInstant (open_conn fam w (cur, True) clk []) = cur" "poll_time (open_conn fam w (cur, True) clk []) = clk 0"
    "sc_frames (open_conn fam w (cur, True) clk []) = []"
    by (simp_all add: open_conn_def poll_time_def)
  note r = resumed_poll [OF assms(2-4) c(1-8), of rt, unfolded contact_by_def assms(1) c(9)]
  show ?thesis using r by (elim exE conjE) (simp, blast)
qed

lemma tie_resumed:
  assumes "AgeSeconds (poll_time c) (2 * day) \<le> 120"
    and c: "sc_familyID c = ''f1''" "sc_writes c = []" "sc_windows c = sample_windows" "\<not> sc_swept c" "sc_resuming c"
      "sc_since c = 2 * day" "sc_cursorInstant c = 2 * day"
  shows "\<exists>d' c'. poll sample_pg sample_rt tie_db c = (True, d', c') \<and> sc_frames c' = sc_frames c \<and> sc_swept c' \<and> \<not> sc_degraded c'"
proof -
  obtain d' c' fs where p: "poll sample_pg sample_rt tie_db c = (True, d', c')" "sc_frames c' = sc_frames c @ fs" "sc_swept c'" "\<not> sc_degraded c'"
    and told: "\<forall>f \<in> set fs. \<exists>dev. speaks_of fs dev \<and> speaks_of [f] dev"
    and s: "\<forall>r \<in> set (family_devices ''f1'' tie_db). speaks_of fs (dev_id r) \<longleftrightarrow>
        (\<exists>g. newest_fix (device_fixes (dev_id r) tie_db) = Some g \<and> 2 * day < fx_received g)
        \<or> contact_by (2 * day) (dev_id r) tie_db = []
        \<or> Evaluate (2 * day) (max_received (contact_by (2 * day) (dev_id r) tie_db)) sample_windows
          \<noteq> Evaluate (poll_time c) (max_received (device_fixes (dev_id r) tie_db)) sample_windows"
    and o: "\<forall>dev. speaks_of fs dev \<longrightarrow> dev \<in> dev_id ` set (family_devices ''f1'' tie_db)"
    using resumed_poll [OF tie_db_simps(3) sample_ok(2) tie_streamable c refl, of sample_rt] by (elim exE conjE) (rule that)
  have fx: "device_fixes ''d1'' tie_db = [sample_row ''d1'' day (2 * day)]" "device_fixes ''d2'' tie_db = [sample_row ''d2'' day (2 * day)]"
    by (simp_all add: device_fixes_def sample_row_def)
  have pt: "pg_time (2 * day) = 2 * day" by (simp add: pg_time_def day_def second_def)
  have cb: "contact_by (2 * day) ''d1'' tie_db = [sample_row ''d1'' day (2 * day)]" "contact_by (2 * day) ''d2'' tie_db = [sample_row ''d2'' day (2 * day)]"
    by (simp_all add: contact_by_def fx pt) (simp_all add: sample_row_def)
  have m: "max_received [sample_row i day (2 * day)] = Some (2 * day)" "newest_fix [sample_row i day (2 * day)] = Some (sample_row i day (2 * day))" for i
    by (simp_all add: max_received_def newest_fix_def sample_row_def)
  have "AgeSeconds (2 * day) (2 * day) = 0" by (simp add: AgeSeconds_def Let_def wrap64_def)
  then have live: "Evaluate (2 * day) (Some (2 * day)) sample_windows = Evaluate (poll_time c) (Some (2 * day)) sample_windows"
    using assms(1) by (simp add: Evaluate_def sample_windows_def)
  have recv: "\<not> 2 * day < fx_received (sample_row i day (2 * day))" for i by (simp add: sample_row_def)
  have fam: "set (family_devices ''f1'' tie_db) = set (devices tie_db)" by (simp add: family_devices_def sample_device_def)
  have "\<forall>r \<in> set (family_devices ''f1'' tie_db). \<not> speaks_of fs (dev_id r)"
  proof
    fix r assume r: "r \<in> set (family_devices ''f1'' tie_db)"
    then have "dev_id r = ''d1'' \<or> dev_id r = ''d2''" unfolding fam by (auto simp: sample_device_def)
    then show "\<not> speaks_of fs (dev_id r)"
      unfolding s [rule_format, OF r] by (elim disjE) (simp_all add: fx cb m live recv)
  qed
  then have "\<forall>dev. \<not> speaks_of fs dev" using o by blast
  then have "fs = []" using told by (cases fs) auto
  then show ?thesis using p by simp
qed

theorem resume_sweep_exact_witness:
  "\<exists>ok d' c'. poll sample_pg sample_rt tie_db (open_conn ''f1'' sample_windows (day, True) (\<lambda>_. 3 * day) []) = (ok, d', c') \<and> speaks_of (sc_frames c') ''d2''"
proof -
  obtain ok d' c' where p: "poll sample_pg sample_rt tie_db (open_conn ''f1'' sample_windows (day, True) (\<lambda>_. 3 * day) []) = (ok, d', c')"
    using prod_cases3 by blast
  have "newest_fix (device_fixes ''d2'' tie_db) = Some (sample_row ''d2'' day (2 * day))"
    by (simp add: device_fixes_def newest_fix_def sample_row_def)
  moreover have "day < fx_received (sample_row ''d2'' day (2 * day))" by (simp add: sample_row_def day_def second_def)
  moreover have "sample_device\<lparr>dev_id := ''d2'', dev_name := ''tablet'', dev_hash := replicate 32 (CHR ''e'')\<rparr> \<in> set (family_devices ''f1'' tie_db)"
    by (simp add: family_devices_def sample_device_def)
  ultimately have "speaks_of (sc_frames c') ''d2''"
    using resume_sweep_exact [OF p tie_db_simps(3) sample_ok(2) tie_streamable] by fastforce
  then show ?thesis using p by blast
qed


section \<open>Where a resume falls short\<close>

definition soon :: "nat \<Rightarrow> instant" where "soon n = 2 * day + second"

definition tie_id :: string where "tie_id = FormatInt (UnixMicro (2 * day))"

lemma tie_cursor: "parseResumeCursor (stream_req tie_id) = (2 * day, True)" "parseResumeCursor (stream_req []) = (zero_time, False)"
proof -
  have "int64 (UnixMicro (2 * day))" "time_UnixMicro (UnixMicro (2 * day)) = 2 * day"
    by (simp_all add: UnixMicro_def int64_def day_def second_def time_UnixMicro_def)
  then show "parseResumeCursor (stream_req tie_id) = (2 * day, True)"
    using ParseInt_FormatInt [of "UnixMicro (2 * day)"] visible_FormatInt [of "UnixMicro (2 * day)"]
    by (simp add: parseResumeCursor_def stream_req_def tie_id_def)
qed (simp add: parseResumeCursor_def stream_req_def)

lemma tie_age: "AgeSeconds (soon n) (2 * day) \<le> 120"
  by (simp add: AgeSeconds_def soon_def Unix_def Nanosecond_def wrap64_def Let_def day_def second_def)

lemma tie_interrupted:
  "\<exists>d' c'. poll sample_pg sample_rt tie_db (open_conn ''f1'' sample_windows (zero_time, False) soon [True, True, True, False]) = (False, d', c')
    \<and> sc_frames c' = [position_frame (soon 0) sample_windows (tie_state ''d1'' ''phone'')]"
proof -
  let ?c = "open_conn ''f1'' sample_windows (zero_time, False) soon [True, True, True, False]"
  have srt: "sortByArrival [tie_state ''d1'' ''phone'', tie_state ''d2'' ''tablet''] = [tie_state ''d1'' ''phone'', tie_state ''d2'' ''tablet'']"
    by (simp add: sortByArrival_def arrival_before_def tie_state_def)
  have m: "marshals (Entry (entryFor (tie_state i n) t w))" for i n t w
    using Evaluate_NoPosition [of t "Some (2 * day)" w]
    by (simp add: marshals_def entryFor_def tie_state_def Let_def isNotFinite_def IsNaN_def IsInf_def)
  have cur: "St_Current (tie_state i n) = Some \<lparr>Pos_DeviceID = i, Pos_DeviceName = n, Pos_TS = day, Pos_Lon = Fin 1, Pos_Lat = Fin 2, Pos_ReceivedAt = 2 * day\<rparr>" for i n
    by (simp add: tie_state_def)
  have z: "zero_time < 2 * day" by (simp add: zero_time_def unix_to_internal_def day_def second_def)
  have "poll sample_pg sample_rt tie_db ?c = (False, tie_db, snd (snd (poll sample_pg sample_rt tie_db ?c)))
      \<and> sc_frames (snd (snd (poll sample_pg sample_rt tie_db ?c))) = [position_frame (soon 0) sample_windows (tie_state ''d1'' ''phone'')]"
    using m z by (simp add: poll_def tie_states' open_conn_def time_Now_def srt writeEvent_def Write_def cur position_frame_def arrival_def)
  then show ?thesis by blast
qed



section \<open>The tick\<close>

text \<open>
  A stream polls often enough. For windows whose bound fits a duration, the tick is positive, at
  most the one second interval and at most half the sweep bound, so a change of state that time brings
  is seen within half the bound; and it is the plain interval unless the bound is a single second.
\<close>

theorem tick_within_half_bound:
  assumes "windows_ok w" "SweepBound w * second < 2 ^ 63"
  shows "0 < streamPollTick w \<and> streamPollTick w \<le> streamPollInterval \<and> 2 * streamPollTick w \<le> SweepBound w * second
    \<and> (1 < SweepBound w \<longrightarrow> streamPollTick w = streamPollInterval)"
proof -
  have b: "1 \<le> SweepBound w" by (simp add: SweepBound_def Let_def)
  then have "wrap64 (SweepBound w * second) = SweepBound w * second" using assms(2) by (intro wrap64_id) (simp add: int64_def second_def)
  then have h: "quot (wrap64 (SweepBound w * second)) 2 = SweepBound w * 500000000"
    using b by (simp add: quot_nonneg second_def)
  have t: "streamPollTick w = (if SweepBound w * 500000000 < second then SweepBound w * 500000000 else second)"
    unfolding streamPollTick_def h Let_def streamPollInterval_def using b by simp
  show ?thesis unfolding t streamPollInterval_def using b by (auto simp: second_def)
qed

theorem tick_within_half_bound_witness:
  "2 * streamPollTick \<lparr>LiveSeconds = 120, StaleSeconds = 900\<rparr> \<le> 60 * second"
proof -
  have "SweepBound \<lparr>LiveSeconds = 120, StaleSeconds = 900\<rparr> = 60" by (simp add: SweepBound_def wrap64_def quot_def)
  then show ?thesis using tick_within_half_bound [of "\<lparr>LiveSeconds = 120, StaleSeconds = 900\<rparr>"] by (simp add: windows_ok_def second_def)
qed


text \<open>
  The tick overflows for very wide windows. These windows pass the start-up checks; their sweep
  bound is more than six hundred million years, so the tick should be the plain second, but the product
  of the bound with a second wraps around and the stream polls every 256 nanoseconds.
\<close>

theorem tick_overflows:
  "windows_ok \<lparr>LiveSeconds = 40423014371506394, StaleSeconds = 80846028743012788\<rparr>
   \<and> SweepBound \<lparr>LiveSeconds = 40423014371506394, StaleSeconds = 80846028743012788\<rparr> = 20211507185753197
   \<and> streamPollTick \<lparr>LiveSeconds = 40423014371506394, StaleSeconds = 80846028743012788\<rparr> = 256"
  by (simp add: windows_ok_def streamPollTick_def SweepBound_def wrap64_def quot_def second_def streamPollInterval_def)


end
