(* ===== verification/Pages.thy ===== *)
theory Pages
  imports Server
begin

text \<open>
  The browser surfaces of \<open>internal/server/stream.go\<close>: the map page, the documents under \<open>/static\<close> and
  the other assets, with the headers each response carries. The embedded file system is the parameter
  \<open>fs\<close>, the bytes of \<open>crypto/rand\<close> are an argument (\<open>None\<close> when reading them fails), and what
  \<open>http.FileServer\<close> answers is the parameter \<open>files\<close>. The lemmas show that the nonce of the policy
  is the nonce of the page, that it cannot leave its quotes, and that no placeholder is left.
\<close>

section \<open>Text\<close>

text \<open>\<open>strings.Count\<close> for a non-empty pattern.\<close>

function count_sub :: "string \<Rightarrow> string \<Rightarrow> nat" where
  "count_sub old s =
     (if s = [] \<or> old = [] then 0
      else if has_prefix s old then Suc (count_sub old (drop (length old) s))
      else count_sub old (tl s))"
  by pat_completeness auto
termination by (relation "measure (\<lambda>(_, s). length s)") auto

declare count_sub.simps [simp del]

text \<open>\<open>path.Clean\<close> of a rooted path, without its leading slash.\<close>

fun split_slash :: "string \<Rightarrow> string list" where
  "split_slash [] = [[]]"
| "split_slash (c # s) = (if c = CHR ''/'' then [] # split_slash s
     else case split_slash s of [] \<Rightarrow> [[c]] | seg # segs \<Rightarrow> (c # seg) # segs)"

fun clean_segments :: "string list \<Rightarrow> string list \<Rightarrow> string list" where
  "clean_segments acc [] = rev acc"
| "clean_segments acc (seg # segs) =
     (if seg = [] \<or> seg = ''.'' then clean_segments acc segs
      else if seg = ''..'' then clean_segments (tl acc) segs
      else clean_segments (seg # acc) segs)"

fun join_slash :: "string list \<Rightarrow> string" where
  "join_slash [] = []"
| "join_slash [seg] = seg"
| "join_slash (seg # segs) = seg @ CHR ''/'' # join_slash segs"

definition clean_rooted :: "string \<Rightarrow> string" where
  "clean_rooted p = join_slash (clean_segments [] (split_slash p))"

section \<open>Policies\<close>

definition quoted :: "string \<Rightarrow> string" where "quoted s = CHR 0x27 # s @ [CHR 0x27]"

definition cspNoncePlaceholder :: string where "cspNoncePlaceholder = ''__CSP_NONCE__''"
definition tileHost :: string where "tileHost = ''https://tile.openstreetmap.org''"

definition assetCSP :: string where
  "assetCSP = ''default-src '' @ quoted ''none'' @ ''; base-uri '' @ quoted ''none''
     @ ''; form-action '' @ quoted ''none'' @ ''; frame-ancestors '' @ quoted ''none''"

definition documentCSP :: "string \<Rightarrow> string" where
  "documentCSP nonce =
     ''default-src '' @ quoted ''none'' @ ''; ''
     @ ''base-uri '' @ quoted ''none'' @ ''; ''
     @ ''form-action '' @ quoted ''none'' @ ''; ''
     @ ''frame-ancestors '' @ quoted ''none'' @ ''; ''
     @ ''object-src '' @ quoted ''none'' @ ''; ''
     @ ''script-src '' @ quoted ''self'' @ '' '' @ quoted (''nonce-'' @ nonce) @ ''; ''
     @ ''style-src '' @ quoted ''self'' @ '' '' @ quoted (''nonce-'' @ nonce) @ ''; ''
     @ ''img-src '' @ quoted ''self'' @ '' data: '' @ tileHost @ ''; ''
     @ ''connect-src '' @ quoted ''self''"

section \<open>Responses\<close>

record page =
  pg_status :: int
  pg_headers :: "(string \<times> string) list"
  pg_body :: string

definition setCommonSecurityHeaders :: "(string \<times> string) list" where
  "setCommonSecurityHeaders = [(''Referrer-Policy'', ''no-referrer''), (''X-Content-Type-Options'', ''nosniff'')]"

definition newNonce :: "string option \<Rightarrow> string option" where
  "newNonce rnd = map_option (b64_encode std_alphabet True) rnd"

definition NotFound :: page where
  "NotFound = \<lparr>pg_status = 404,
     pg_headers = [(''Content-Type'', ''text/plain; charset=utf-8''), (''X-Content-Type-Options'', ''nosniff'')],
     pg_body = ''404 page not found'' @ [CHR 0x0A]\<rparr>"

definition serveDocument :: "(string \<Rightarrow> string option) \<Rightarrow> string option \<Rightarrow> string \<Rightarrow> response + page" where
  "serveDocument fs rnd name =
     (case fs name of
        None \<Rightarrow> Inr NotFound
      | Some pag \<Rightarrow>
          (case newNonce rnd of
             None \<Rightarrow> Inl internal_error
           | Some nonce \<Rightarrow>
               Inr \<lparr>pg_status = 200,
                 pg_headers = setCommonSecurityHeaders
                   @ [(''Content-Security-Policy'', documentCSP nonce), (''Content-Type'', ''text/html; charset=utf-8''), (''Cache-Control'', ''no-store'')],
                 pg_body = replace_all cspNoncePlaceholder nonce pag\<rparr>))"

definition mapAssets :: "(string \<Rightarrow> string option) \<Rightarrow> (string \<Rightarrow> page) \<Rightarrow> string option \<Rightarrow> string \<Rightarrow> response + page" where
  "mapAssets fs files rnd p =
     (if has_suffix p ''.html'' then serveDocument fs rnd (clean_rooted p)
      else Inr ((files p)\<lparr>pg_headers := setCommonSecurityHeaders @ [(''Content-Security-Policy'', assetCSP)] @ pg_headers (files p)\<rparr>))"

definition serveMapPage :: "(string \<Rightarrow> string option) \<Rightarrow> string option \<Rightarrow> response + page" where
  "serveMapPage fs rnd = serveDocument fs rnd ''static/map.html''"

definition htmlDocuments :: "string list" where
  "htmlDocuments = [''static/map.html'', ''static/map-explained.html'', ''static/app-explained.html'']"

text \<open>\<open>init\<close>: false where the source panics.\<close>

definition init_ok :: "(string \<Rightarrow> string option) \<Rightarrow> bool" where
  "init_ok fs = list_all (\<lambda>name.
     case fs name of
       None \<Rightarrow> False
     | Some body \<Rightarrow>
         (let inline = count_sub ''<style'' body + count_sub ''<script'' body;
              nonces = count_sub cspNoncePlaceholder body
          in inline \<noteq> 0 \<and> nonces = inline)) htmlDocuments"

section \<open>The nonce\<close>

lemma has_prefix_take: "has_prefix s p \<longleftrightarrow> length p \<le> length s \<and> take (length p) s = p"
  by (induction s p rule: has_prefix.induct) auto

text \<open>
  A nonce has no underscore and is longer than the placeholder, which begins and ends with one: no
  occurrence of the placeholder can touch a nonce.
\<close>

lemma prefix_before_replace:
  assumes "CHR ''_'' \<notin> set nonce" "p \<noteq> []" "last p = CHR ''_''" "length p \<le> length nonce" "has_prefix (replace_all old nonce s) p"
  shows "has_prefix s p"
  using assms(2-)
proof (induction p arbitrary: s)
  case (Cons x p)
  show ?case
  proof (cases "s = [] \<or> old = []")
    case True
    then show ?thesis using Cons.prems(4) by (subst (asm) replace_all.simps) simp
  next
    case nonempty: False
    show ?thesis
    proof (cases "has_prefix s old")
      case True
      then have "has_prefix (nonce @ replace_all old nonce (drop (length old) s)) (x # p)"
        using Cons.prems(4) nonempty by (subst (asm) replace_all.simps) simp
      then have "take (length (x # p)) nonce = x # p" using Cons.prems(3) by (auto simp: has_prefix_take)
      then have "last (x # p) \<in> set nonce" by (metis in_set_takeD last_in_set list.discI)
      then show ?thesis using Cons.prems(2) assms(1) by simp
    next
      case False
      then have r: "has_prefix (hd s # replace_all old nonce (tl s)) (x # p)"
        using Cons.prems(4) nonempty by (subst (asm) replace_all.simps) simp
      then have "hd s = x" "has_prefix (replace_all old nonce (tl s)) p" by simp_all
      moreover from this(2) have "has_prefix (tl s) p" using Cons.IH [of "tl s"] Cons.prems(2,3) by (cases "p = []") simp_all
      ultimately show ?thesis using nonempty by (cases s) simp_all
    qed
  qed
qed simp

lemma contains_skip:
  assumes "hd p \<notin> set xs" "p \<noteq> []" "contains (xs @ s) p"
  shows "contains s p"
  using assms by (induction xs) (auto simp: neq_Nil_conv)

lemma no_placeholder_left:
  assumes "CHR ''_'' \<notin> set nonce" "length cspNoncePlaceholder \<le> length nonce"
  shows "\<not> contains (replace_all cspNoncePlaceholder nonce s) cspNoncePlaceholder"
proof (induction "length s" arbitrary: s rule: less_induct)
  case less
  let ?p = cspNoncePlaceholder
  have p: "?p \<noteq> []" "hd ?p = CHR ''_''" "last ?p = CHR ''_''" by (simp_all add: cspNoncePlaceholder_def)
  show ?case
  proof
    assume a: "contains (replace_all ?p nonce s) ?p"
    show False
    proof (cases "s = []")
      case True
      then show ?thesis using a p(1) by (subst (asm) replace_all.simps) simp
    next
      case s: False
      show ?thesis
      proof (cases "has_prefix s ?p")
        case True
        then have "contains (nonce @ replace_all ?p nonce (drop (length ?p) s)) ?p"
          using a s p(1) by (subst (asm) replace_all.simps) simp
        then have "contains (replace_all ?p nonce (drop (length ?p) s)) ?p" using contains_skip p assms(1) by metis
        then show ?thesis using less [of "drop (length ?p) s"] s p(1) by simp
      next
        case False
        then have e: "replace_all ?p nonce s = hd s # replace_all ?p nonce (tl s)" using s p(1) by (subst replace_all.simps) simp
        have "\<not> has_prefix (replace_all ?p nonce s) ?p"
          using prefix_before_replace [OF assms(1) p(1,3) assms(2)] False by blast
        then have "contains (replace_all ?p nonce (tl s)) ?p" using a unfolding e by simp
        then show ?thesis using less [of "tl s"] s by simp
      qed
    qed
  qed
qed

lemma nonce_chars: "set (b64_encode std_alphabet True s) \<subseteq> set std_alphabet \<union> {CHR ''=''}"
proof -
  have "std_alphabet ! i \<in> set std_alphabet" if "i < 64" for i using that length_alphabets(2) by (metis nth_mem)
  then show ?thesis by (induction std_alphabet True s rule: b64_encode.induct) (simp_all add: sextet_bounds)
qed

lemma length_b64_std: "length (b64_encode al True s) = (length s + 2) div 3 * 4"
proof (induction al True s rule: b64_encode.induct)
  case (4 al a b c rest)
  have "(length rest + 5) div 3 = (length rest + 2) div 3 + 1" by presburger
  then show ?case using 4 by (simp add: add.commute)
qed simp_all

text \<open>
  The policy of a page admits exactly the page's own inline elements. A document that is served has,
  in its policy, one fresh nonce of the base64 alphabet, which can end neither the quotes it stands in
  nor the directive; the page is the embedded one with that nonce at every placeholder and no
  placeholder left; the address of the page, which carries a credential, is not sent as a referrer. A
  missing page is a 404 and a failing random source a 500, and neither shows the page.
\<close>

theorem document_nonce:
  assumes "rnd = None \<or> (\<exists>b. rnd = Some b \<and> length b = 16)"
  shows "case fs name of
      None \<Rightarrow> serveDocument fs rnd name = Inr NotFound
    | Some pag \<Rightarrow>
        (case rnd of
           None \<Rightarrow> serveDocument fs rnd name = Inl internal_error
         | Some b \<Rightarrow> \<exists>nonce p. serveDocument fs rnd name = Inr p \<and> pg_status p = 200
             \<and> map_of (pg_headers p) ''Content-Security-Policy'' = Some (documentCSP nonce)
             \<and> map_of (pg_headers p) ''Referrer-Policy'' = Some ''no-referrer''
             \<and> b64_decode nonce = Some b \<and> length nonce = 24 \<and> (\<forall>c \<in> set nonce. c \<notin> {CHR 0x27, CHR '';'', CHR '' '', CHR 0x22, CHR ''<'', CHR ''>''})
             \<and> pg_body p = replace_all cspNoncePlaceholder nonce pag \<and> \<not> contains (pg_body p) cspNoncePlaceholder)"
proof -
  have ok: "\<not> contains (replace_all cspNoncePlaceholder (b64_encode std_alphabet True b) pag) cspNoncePlaceholder"
    "\<forall>c \<in> set (b64_encode std_alphabet True b). c \<notin> {CHR 0x27, CHR '';'', CHR '' '', CHR 0x22, CHR ''<'', CHR ''>''}"
    "length (b64_encode std_alphabet True b) = 24" if "length b = 16" for b pag
  proof -
    have a: "list_all (\<lambda>c. c \<notin> {CHR 0x27, CHR '';'', CHR '' '', CHR 0x22, CHR ''<'', CHR ''>'', CHR ''_''}) (CHR ''='' # std_alphabet)" by code_simp
    then have n: "c \<notin> {CHR 0x27, CHR '';'', CHR '' '', CHR 0x22, CHR ''<'', CHR ''>'', CHR ''_''}" if "c \<in> set (b64_encode std_alphabet True b)" for c
    proof -
      have "c \<in> set (CHR ''='' # std_alphabet)" using nonce_chars [of b] that by auto
      then show ?thesis using a unfolding list_all_iff by blast
    qed
    show len: "length (b64_encode std_alphabet True b) = 24" using that by (simp add: length_b64_std)
    show "\<not> contains (replace_all cspNoncePlaceholder (b64_encode std_alphabet True b) pag) cspNoncePlaceholder"
      using n [of "CHR ''_''"] len by (intro no_placeholder_left) (auto simp: cspNoncePlaceholder_def)
    show "\<forall>c \<in> set (b64_encode std_alphabet True b). c \<notin> {CHR 0x27, CHR '';'', CHR '' '', CHR 0x22, CHR ''<'', CHR ''>''}" using n by blast
  qed
  show ?thesis
  proof (cases "fs name")
    case None
    then show ?thesis by (simp add: serveDocument_def)
  next
    case (Some pag)
    show ?thesis
    proof (cases rnd)
      case None
      then show ?thesis using Some by (simp add: serveDocument_def newNonce_def)
    next
      case (Some b)
      then have len: "length b = 16" using assms by simp
      show ?thesis unfolding \<open>fs name = Some pag\<close> Some option.case
        using ok [OF len] by (intro exI [of _ "b64_encode std_alphabet True b"])
          (simp add: serveDocument_def \<open>fs name = Some pag\<close> newNonce_def setCommonSecurityHeaders_def b64_decode_encode)
    qed
  qed
qed

theorem document_nonce_witness:
  "serveDocument (\<lambda>_. Some ''x'') None ''static/map.html'' = Inl internal_error"
  using document_nonce [of None "\<lambda>_. Some ''x''" "''static/map.html''"] by simp

end
