(* ===== verification/Config.thy ===== *)
theory Config
  imports Prelude Presentation
begin

text \<open>
  \<open>internal/config/config.go\<close>: the server's configuration, read from the environment and validated.
  The environment is a function from names to values (\<open>os.Getenv\<close>: the empty string when unset).
  \<open>url.Parse\<close> is an argument: it yields the scheme, the host and the redacted rendering, or fails.
  The lemmas show that a loaded configuration satisfies every start-up rule, that the window grammar
  reads back every printed number, and which configurations may serve.
\<close>

type_synonym env = "string \<Rightarrow> string"

record url =
  Scheme :: string
  Host :: string
  Redacted_text :: string

type_synonym url_parser = "string \<Rightarrow> url option"

record Config =
  DatabaseURL :: string
  Addr :: string
  LogLevel :: string
  PushProvider :: string
  FCMProjectID :: string
  FCMCredentialsFile :: string
  TLSCertFile :: string
  TLSKeyFile :: string
  AllowPlaintext :: bool
  RetentionDays :: int
  LiveWindowSeconds :: int
  StaleWindowSeconds :: int

datatype config_error =
    ErrMissingDatabaseURL
  | ErrNotAnInteger string string
  | ErrWindowRange string string
  | ErrWindowSyntax string string
  | ErrWindowNotPositive string int
  | ErrDatabaseURL
  | ErrDatabaseScheme string
  | ErrDatabaseHost
  | ErrLogLevel string
  | ErrAddrEmpty
  | ErrFCMProject
  | ErrFCMCredentials
  | ErrPushProvider string
  | ErrCertWithoutKey
  | ErrKeyWithoutCert
  | ErrRetentionNegative int
  | ErrWindowOrder int int
  | ErrTLSRequired
  | ErrPlaintextEndpoint

definition EnvPrefix :: string where "EnvPrefix = ''TRACKER_''"
definition EnvLiveWindowSeconds :: string where "EnvLiveWindowSeconds = EnvPrefix @ ''LIVE_WINDOW_SECONDS''"
definition EnvStaleWindowSeconds :: string where "EnvStaleWindowSeconds = EnvPrefix @ ''STALE_WINDOW_SECONDS''"
definition DefaultLiveWindowSeconds :: int where "DefaultLiveWindowSeconds = 120"
definition DefaultStaleWindowSeconds :: int where "DefaultStaleWindowSeconds = 900"
definition PushProviderNone :: string where "PushProviderNone = ''''"
definition PushProviderFCM :: string where "PushProviderFCM = ''fcm''"
definition PushProviderUnifiedPush :: string where "PushProviderUnifiedPush = ''unifiedpush''"
definition ShutdownTimeout :: duration where "ShutdownTimeout = 15 * second"

definition envOr :: "env \<Rightarrow> string \<Rightarrow> string \<Rightarrow> string" where
  "envOr env key def = (let v = TrimSpace (env key) in if v \<noteq> [] then v else def)"

definition envBool :: "env \<Rightarrow> string \<Rightarrow> bool" where
  "envBool env key = (to_lower (TrimSpace (env key)) \<in> {''1'', ''true'', ''yes'', ''on''})"

definition envWindowSeconds :: "env \<Rightarrow> string \<Rightarrow> int \<Rightarrow> config_error + int" where
  "envWindowSeconds env key def =
     (let raw = TrimSpace (env key)
      in if raw = [] then Inr def
         else case ParseInt raw of
           Inl ErrRange \<Rightarrow> Inl (ErrWindowRange key raw)
         | Inl ErrSyntax \<Rightarrow> Inl (ErrWindowSyntax key raw)
         | Inr n \<Rightarrow> (if n < 1 then Inl (ErrWindowNotPositive key n) else Inr n))"

definition envInt :: "env \<Rightarrow> string \<Rightarrow> int \<Rightarrow> config_error + int" where
  "envInt env key def =
     (let v = TrimSpace (env key)
      in if v = [] then Inr def
         else case ParseInt v of
           Inl e \<Rightarrow> Inl (ErrNotAnInteger key v)
         | Inr n \<Rightarrow> Inr n)"

definition validateTLSPair :: "string \<Rightarrow> string \<Rightarrow> config_error option" where
  "validateTLSPair certFile keyFile =
     (if certFile \<noteq> [] \<and> keyFile = [] then Some ErrCertWithoutKey
      else if keyFile \<noteq> [] \<and> certFile = [] then Some ErrKeyWithoutCert
      else None)"

definition LintTLS :: "string \<Rightarrow> string \<Rightarrow> config_error option" where
  "LintTLS certFile keyFile =
     (let certFile = TrimSpace certFile; keyFile = TrimSpace keyFile
      in case validateTLSPair certFile keyFile of
           Some e \<Rightarrow> Some e
         | None \<Rightarrow> (if certFile = [] \<and> keyFile = [] then Some ErrPlaintextEndpoint else None))"

definition ServesTLS :: "Config \<Rightarrow> bool" where
  "ServesTLS c \<longleftrightarrow> TLSCertFile c \<noteq> [] \<and> TLSKeyFile c \<noteq> []"

definition RequireServable :: "Config \<Rightarrow> config_error option" where
  "RequireServable c = (if \<not> ServesTLS c \<and> \<not> AllowPlaintext c then Some ErrTLSRequired else None)"

definition Redacted :: "url_parser \<Rightarrow> Config \<Rightarrow> string" where
  "Redacted parse c = (case parse (DatabaseURL c) of
     None \<Rightarrow> ''(unparseable DSN)''
   | Some u \<Rightarrow> Redacted_text u)"

text \<open>\<open>LogEffectiveWindows\<close>: the attributes of the start-up record.\<close>

definition LogEffectiveWindows :: "Config \<Rightarrow> (string \<times> int) list" where
  "LogEffectiveWindows c =
     [(EnvLiveWindowSeconds, LiveWindowSeconds c), (EnvStaleWindowSeconds, StaleWindowSeconds c)]"

definition validate :: "url_parser \<Rightarrow> Config \<Rightarrow> config_error option" where
  "validate parse c =
     (case parse (DatabaseURL c) of
        None \<Rightarrow> Some ErrDatabaseURL
      | Some u \<Rightarrow>
          if Scheme u \<noteq> ''postgres'' \<and> Scheme u \<noteq> ''postgresql'' then Some (ErrDatabaseScheme (Scheme u))
          else if Host u = [] then Some ErrDatabaseHost
          else if LogLevel c \<notin> {''debug'', ''info'', ''warn'', ''error''} then Some (ErrLogLevel (LogLevel c))
          else if Addr c = [] then Some ErrAddrEmpty
          else if PushProvider c = PushProviderFCM \<and> FCMProjectID c = [] then Some ErrFCMProject
          else if PushProvider c = PushProviderFCM \<and> FCMCredentialsFile c = [] then Some ErrFCMCredentials
          else if PushProvider c \<notin> {PushProviderNone, PushProviderUnifiedPush, PushProviderFCM}
            then Some (ErrPushProvider (PushProvider c))
          else case validateTLSPair (TLSCertFile c) (TLSKeyFile c) of
            Some e \<Rightarrow> Some e
          | None \<Rightarrow>
              if RetentionDays c < 0 then Some (ErrRetentionNegative (RetentionDays c))
              else if LiveWindowSeconds c \<ge> StaleWindowSeconds c
                then Some (ErrWindowOrder (LiveWindowSeconds c) (StaleWindowSeconds c))
              else None)"

definition Load :: "url_parser \<Rightarrow> env \<Rightarrow> config_error + Config" where
  "Load parse env =
     (let dsn = TrimSpace (env (EnvPrefix @ ''DATABASE_URL''))
      in if dsn = [] then Inl ErrMissingDatabaseURL
         else case envInt env (EnvPrefix @ ''RETENTION_DAYS'') 0 of
           Inl e \<Rightarrow> Inl e
         | Inr retentionDays \<Rightarrow>
             (case envWindowSeconds env EnvLiveWindowSeconds DefaultLiveWindowSeconds of
                Inl e \<Rightarrow> Inl e
              | Inr liveWindow \<Rightarrow>
                  (case envWindowSeconds env EnvStaleWindowSeconds DefaultStaleWindowSeconds of
                     Inl e \<Rightarrow> Inl e
                   | Inr staleWindow \<Rightarrow>
                       (let c = \<lparr>DatabaseURL = dsn,
                              Addr = envOr env (EnvPrefix @ ''ADDR'') '':8080'',
                              LogLevel = envOr env (EnvPrefix @ ''LOG_LEVEL'') ''info'',
                              PushProvider = TrimSpace (env (EnvPrefix @ ''PUSH_PROVIDER'')),
                              FCMProjectID = TrimSpace (env (EnvPrefix @ ''FCM_PROJECT_ID'')),
                              FCMCredentialsFile = TrimSpace (env (EnvPrefix @ ''FCM_CREDENTIALS_FILE'')),
                              TLSCertFile = TrimSpace (env (EnvPrefix @ ''TLS_CERT_FILE'')),
                              TLSKeyFile = TrimSpace (env (EnvPrefix @ ''TLS_KEY_FILE'')),
                              AllowPlaintext = envBool env (EnvPrefix @ ''ALLOW_PLAINTEXT''),
                              RetentionDays = retentionDays,
                              LiveWindowSeconds = liveWindow,
                              StaleWindowSeconds = staleWindow\<rparr>
                        in case validate parse c of Some e \<Rightarrow> Inl e | None \<Rightarrow> Inr c))))"

section \<open>Properties\<close>

text \<open>The rules a start-up configuration has passed.\<close>

definition config_ok :: "url_parser \<Rightarrow> Config \<Rightarrow> bool" where
  "config_ok parse c \<longleftrightarrow>
     (\<exists>u. parse (DatabaseURL c) = Some u \<and> Scheme u \<in> {''postgres'', ''postgresql''} \<and> Host u \<noteq> []) \<and>
     DatabaseURL c \<noteq> [] \<and> Addr c \<noteq> [] \<and> LogLevel c \<in> {''debug'', ''info'', ''warn'', ''error''} \<and>
     PushProvider c \<in> {'''', ''fcm'', ''unifiedpush''} \<and>
     (PushProvider c = ''fcm'' \<longrightarrow> FCMProjectID c \<noteq> [] \<and> FCMCredentialsFile c \<noteq> []) \<and>
     (TLSCertFile c = [] \<longleftrightarrow> TLSKeyFile c = []) \<and>
     0 \<le> RetentionDays c \<and> RetentionDays c < 2 ^ 63 \<and>
     windows_ok \<lparr>LiveSeconds = LiveWindowSeconds c, StaleSeconds = StaleWindowSeconds c\<rparr>"

lemmas push_provider_defs = PushProviderNone_def PushProviderFCM_def PushProviderUnifiedPush_def

lemma validateTLSPair_None: "validateTLSPair c k = None \<longleftrightarrow> (c = [] \<longleftrightarrow> k = [])"
  by (auto simp: validateTLSPair_def)

lemma envWindowSeconds_range:
  "envWindowSeconds env key def = Inr n \<Longrightarrow> 1 \<le> def \<Longrightarrow> def < 2 ^ 63 \<Longrightarrow> 1 \<le> n \<and> n < 2 ^ 63"
  by (auto simp: envWindowSeconds_def Let_def int64_def dest!: ParseInt_range
      split: if_splits sum.splits num_error.splits)

lemma envInt_range:
  "envInt env key def = Inr n \<Longrightarrow> int64 def \<Longrightarrow> int64 n"
  by (auto simp: envInt_def Let_def dest!: ParseInt_range split: if_splits sum.splits)

lemma validate_None:
  "validate parse c = None \<longleftrightarrow>
     (\<exists>u. parse (DatabaseURL c) = Some u \<and> Scheme u \<in> {''postgres'', ''postgresql''} \<and> Host u \<noteq> []) \<and>
     Addr c \<noteq> [] \<and> LogLevel c \<in> {''debug'', ''info'', ''warn'', ''error''} \<and>
     PushProvider c \<in> {'''', ''fcm'', ''unifiedpush''} \<and>
     (PushProvider c = ''fcm'' \<longrightarrow> FCMProjectID c \<noteq> [] \<and> FCMCredentialsFile c \<noteq> []) \<and>
     (TLSCertFile c = [] \<longleftrightarrow> TLSKeyFile c = []) \<and>
     0 \<le> RetentionDays c \<and> LiveWindowSeconds c < StaleWindowSeconds c"
  by (cases "parse (DatabaseURL c)"; cases "validateTLSPair (TLSCertFile c) (TLSKeyFile c)")
    (auto simp: validate_def push_provider_defs validateTLSPair_def split: if_splits)

lemma Load_parts:
  assumes "Load parse env = Inr c"
  shows "validate parse c = None" "DatabaseURL c \<noteq> []"
    "envInt env (EnvPrefix @ ''RETENTION_DAYS'') 0 = Inr (RetentionDays c)"
    "envWindowSeconds env EnvLiveWindowSeconds DefaultLiveWindowSeconds = Inr (LiveWindowSeconds c)"
    "envWindowSeconds env EnvStaleWindowSeconds DefaultStaleWindowSeconds = Inr (StaleWindowSeconds c)"
    "AllowPlaintext c = envBool env (EnvPrefix @ ''ALLOW_PLAINTEXT'')"
  using assms by (auto simp: Load_def Let_def split: if_splits sum.splits option.splits)

definition sample_parser :: url_parser where
  "sample_parser s = Some \<lparr>Scheme = ''postgres'', Host = ''db'', Redacted_text = ''postgres://db''\<rparr>"

definition sample_env :: env where
  "sample_env k = (if k = ''TRACKER_DATABASE_URL'' then ''postgres://db'' else
     if k = ''TRACKER_ALLOW_PLAINTEXT'' then '' True '' else [])"

lemma sample_load: "\<not> isl (Load sample_parser sample_env)"
  by code_simp

definition tls_env :: env where
  "tls_env k = (if k = ''TRACKER_DATABASE_URL'' then ''postgres://db'' else
     if k = ''TRACKER_TLS_CERT_FILE'' then ''c.pem'' else
     if k = ''TRACKER_TLS_KEY_FILE'' then ''k.pem'' else [])"

lemma tls_load: "case Load sample_parser tls_env of Inl e \<Rightarrow> False | Inr c \<Rightarrow> RequireServable c = None"
  by code_simp

text \<open>the start-up fail-safe. A configuration \<open>Load\<close> returns has passed every rule: a PostgreSQL
  DSN with a host, a known log level and push backend with what the backend needs, a TLS pair that is
  complete or absent, a non-negative retention, and windows within range and in order.\<close>

theorem Load_sound:
  assumes "Load parse env = Inr c"
  shows "config_ok parse c"
proof -
  note parts = Load_parts [OF assms]
  have "0 \<le> RetentionDays c" "RetentionDays c < 2 ^ 63"
    using parts(1) envInt_range [OF parts(3)] by (auto simp: validate_None int64_def)
  moreover have "1 \<le> LiveWindowSeconds c" "StaleWindowSeconds c < 2 ^ 63"
    using envWindowSeconds_range [OF parts(4)] envWindowSeconds_range [OF parts(5)]
    by (simp_all add: DefaultLiveWindowSeconds_def DefaultStaleWindowSeconds_def)
  ultimately show ?thesis
    using parts(1,2) by (simp add: config_ok_def validate_None windows_ok_def)
qed

theorem Load_sound_witness: "\<exists>c. Load sample_parser sample_env = Inr c \<and> config_ok sample_parser c"
  using sample_load Load_sound by (cases "Load sample_parser sample_env") auto

text \<open>the window grammar. Every number of seconds from 1 to \<open>2 ^ 63 - 1\<close>, printed in decimal and
  surrounded by any white space, is read back as itself; a blank value means the default.\<close>

theorem window_roundtrip:
  assumes "1 \<le> n" "n < 2 ^ 63" "\<forall>c \<in> set sp. ascii_space c" "\<forall>c \<in> set sp'. ascii_space c"
  shows "envWindowSeconds (\<lambda>_. sp @ FormatInt n @ sp') key def = Inr n
    \<and> envWindowSeconds (\<lambda>_. sp) key def = Inr def"
proof
  have "TrimSpace (sp @ FormatInt n @ sp') = FormatInt n"
    using assms(3,4) visible_FormatInt [of n] by (intro TrimSpace_padded) auto
  moreover have "ParseInt (FormatInt n) = Inr n"
    using assms(1,2) by (intro ParseInt_FormatInt) (simp add: int64_def)
  ultimately show "envWindowSeconds (\<lambda>_. sp @ FormatInt n @ sp') key def = Inr n"
    using assms(1) visible_FormatInt [of n] by (simp add: envWindowSeconds_def)
  show "envWindowSeconds (\<lambda>_. sp) key def = Inr def"
    using TrimSpace_blank [OF assms(3)] by (simp add: envWindowSeconds_def)
qed

theorem window_roundtrip_witness:
  "envWindowSeconds (\<lambda>_. ''  '' @ FormatInt 120 @ '' '') ''k'' 900 = Inr 120"
  using window_roundtrip [of 120 "''  ''" "'' ''" "''k''" 900] by (simp add: ascii_space_def)

text \<open>C25: no plaintext by accident. A process that loads its configuration and passes the serving
  check without the explicit opt-out terminates TLS with both files configured.\<close>

theorem no_accidental_plaintext:
  assumes "Load parse env = Inr c" "RequireServable c = None"
    and "to_lower (TrimSpace (env ''TRACKER_ALLOW_PLAINTEXT'')) \<notin> {''1'', ''true'', ''yes'', ''on''}"
  shows "ServesTLS c"
  using Load_parts(6) [OF assms(1)] assms(2,3)
  by (auto simp: RequireServable_def envBool_def EnvPrefix_def split: if_splits)

theorem no_accidental_plaintext_witness: "\<exists>c. Load sample_parser tls_env = Inr c \<and> ServesTLS c"
proof -
  obtain c where "Load sample_parser tls_env = Inr c" "RequireServable c = None"
    using tls_load by (cases "Load sample_parser tls_env") auto
  moreover have "to_lower (TrimSpace (tls_env ''TRACKER_ALLOW_PLAINTEXT'')) \<notin> {''1'', ''true'', ''yes'', ''on''}"
    by code_simp
  ultimately show ?thesis using no_accidental_plaintext by blast
qed

end
