(* ===== verification/Backends.thy ===== *)
theory Backends
  imports Dispatcher Requests
begin

text \<open>
  The two push backends of \<open>internal/push\<close>, \<open>fcm.go\<close> and \<open>unifiedpush.go\<close>, and the service-account token
  source of \<open>serviceaccount.go\<close> with its cache. A request on the wire is a value: its address, its headers
  and the struct that is marshalled into its body. The lemmas show that both backends carry the same
  alert, what makes a send fail, and that a cached access token is used only while it has a minute left.
\<close>

section \<open>The wire\<close>

record fcmMessageBody =
  fcm_token :: string
  fcm_title :: string
  fcm_body :: string
  fcm_data :: "string \<rightharpoonup> string"
  fcm_priority :: string
  fcm_collapse_key :: string

record unifiedPushMessage =
  up_title :: string
  up_body :: string
  up_priority :: string
  up_collapse_key :: string
  up_data :: "string \<rightharpoonup> string"

datatype wire_body = FcmBody fcmMessageBody | UnifiedPushBody unifiedPushMessage | FormBody string

record http_request =
  hr_url :: string
  hr_headers :: "(string \<times> string) list"
  hr_body :: wire_body

text \<open>
  What a run takes from outside: whether \<open>http.NewRequest\<close> accepts an address, the answer to the n-th
  request (the text of a transport error, or a status and a body), the n-th reading of the clock, the JSON
  scanner, and the key formats and signature of \<open>crypto\<close>.
\<close>

record 'k network =
  nw_build :: "string \<Rightarrow> string option"
  nw_do :: "nat \<Rightarrow> http_request \<Rightarrow> string + int \<times> string"
  nw_now :: "nat \<Rightarrow> instant"
  nw_rt :: runtime
  nw_pem :: "string \<Rightarrow> string option"
  nw_pkcs1 :: "string \<Rightarrow> 'k option"
  nw_pkcs8 :: "string \<Rightarrow> string + 'k option"
  nw_sign :: "'k \<Rightarrow> string \<Rightarrow> string + string"

text \<open>The requests made so far with their answers, and how often the clock was read.\<close>

record traffic =
  sent :: "(http_request \<times> (string + int \<times> string)) list"
  readings :: nat

definition client_Do :: "'k network \<Rightarrow> http_request \<Rightarrow> traffic \<Rightarrow> (string + int \<times> string) \<times> traffic" where
  "client_Do nw q io = (let a = nw_do nw (length (sent io)) q in (a, io\<lparr>sent := sent io @ [(q, a)]\<rparr>))"

definition read_clock :: "'k network \<Rightarrow> traffic \<Rightarrow> instant \<times> traffic" where
  "read_clock nw io = (nw_now nw (readings io), io\<lparr>readings := Suc (readings io)\<rparr>)"

definition is_success :: "int \<Rightarrow> bool" where "is_success status \<longleftrightarrow> 200 \<le> status \<and> status < 300"

definition snippet :: "string \<Rightarrow> string" where "snippet body = TrimSpace (take 2048 body)"

section \<open>JSON and forms\<close>

text \<open>
  \<open>json.Marshal\<close> on a string: quotes, backslashes, control characters and the three HTML characters are
  escaped, so are the two separators outside ASCII, and bytes that are not UTF-8 become the replacement
  character.
\<close>

definition hex_digit :: "nat \<Rightarrow> char" where
  "hex_digit n = (if n < 10 then char_of (48 + n) else char_of (87 + n))"

definition is_cont :: "char \<Rightarrow> bool" where "is_cont c \<longleftrightarrow> 0x80 \<le> code c \<and> code c \<le> 0xBF"

text \<open>The length of the rune a text starts with, 0 when it starts with no valid encoding.\<close>

definition rune_len :: "string \<Rightarrow> nat" where
  "rune_len s =
     (case s of
        [] \<Rightarrow> 0
      | c # cs \<Rightarrow>
          let n = code c; b = (\<lambda>i. if i < length cs then code (cs ! i) else 0); cont = (\<lambda>i. i < length cs \<and> is_cont (cs ! i))
          in if n < 0x80 then 1
             else if 0xC2 \<le> n \<and> n \<le> 0xDF \<and> cont 0 then 2
             else if 0xE0 \<le> n \<and> n \<le> 0xEF \<and> cont 0 \<and> cont 1 \<and> (n = 0xE0 \<longrightarrow> 0xA0 \<le> b 0) \<and> (n = 0xED \<longrightarrow> b 0 \<le> 0x9F) then 3
             else if 0xF0 \<le> n \<and> n \<le> 0xF4 \<and> cont 0 \<and> cont 1 \<and> cont 2 \<and> (n = 0xF0 \<longrightarrow> 0x90 \<le> b 0) \<and> (n = 0xF4 \<longrightarrow> b 0 \<le> 0x8F) then 4
             else 0)"

definition json_ascii :: "char \<Rightarrow> string" where
  "json_ascii c =
     (if c = CHR 0x22 \<or> c = CHR 0x5C then [CHR 0x5C, c]
      else if c = CHR 0x08 then [CHR 0x5C, CHR ''b'']
      else if c = CHR 0x0C then [CHR 0x5C, CHR ''f'']
      else if c = CHR 0x0A then [CHR 0x5C, CHR ''n'']
      else if c = CHR 0x0D then [CHR 0x5C, CHR ''r'']
      else if c = CHR 0x09 then [CHR 0x5C, CHR ''t'']
      else if code c < 0x20 \<or> c = CHR ''<'' \<or> c = CHR ''>'' \<or> c = CHR ''&''
        then CHR 0x5C # ''u00'' @ [hex_digit (code c div 16), hex_digit (code c mod 16)]
      else [c])"

function json_chars :: "string \<Rightarrow> string" where
  "json_chars [] = []"
| "json_chars (c # s) =
     (let n = rune_len (c # s)
      in if n = 0 then CHR 0x5C # ''ufffd'' @ json_chars s
         else if n = 1 then json_ascii c @ json_chars s
         else if take n (c # s) = [CHR 0xE2, CHR 0x80, CHR 0xA8] then CHR 0x5C # ''u2028'' @ json_chars (drop n (c # s))
         else if take n (c # s) = [CHR 0xE2, CHR 0x80, CHR 0xA9] then CHR 0x5C # ''u2029'' @ json_chars (drop n (c # s))
         else take n (c # s) @ json_chars (drop n (c # s)))"
  by pat_completeness auto
termination by (relation "measure length") auto

declare json_chars.simps(2) [simp del]

definition json_string :: "string \<Rightarrow> string" where "json_string s = CHR 0x22 # json_chars s @ [CHR 0x22]"

definition json_field :: "string \<Rightarrow> string \<Rightarrow> string" where "json_field name v = json_string name @ '':'' @ v"

fun join_comma :: "string list \<Rightarrow> string" where
  "join_comma [] = []"
| "join_comma [x] = x"
| "join_comma (x # xs) = x @ '','' @ join_comma xs"

definition json_object :: "string list \<Rightarrow> string" where "json_object fs = ''{'' @ join_comma fs @ ''}''"

text \<open>\<open>url.Values.Encode\<close>: keys in order, each side escaped.\<close>

definition form_safe :: "char \<Rightarrow> bool" where
  "form_safe c \<longleftrightarrow> CHR ''0'' \<le> c \<and> c \<le> CHR ''9'' \<or> CHR ''A'' \<le> c \<and> c \<le> CHR ''Z'' \<or> CHR ''a'' \<le> c \<and> c \<le> CHR ''z''
     \<or> c \<in> {CHR ''-'', CHR ''_'', CHR ''.'', CHR ''~''}"

definition upper_hex :: "nat \<Rightarrow> char" where
  "upper_hex n = (if n < 10 then char_of (48 + n) else char_of (55 + n))"

definition QueryEscape :: "string \<Rightarrow> string" where
  "QueryEscape s = concat (map (\<lambda>c. if form_safe c then [c] else if c = CHR '' '' then ''+''
     else [CHR ''%'', upper_hex (code c div 16), upper_hex (code c mod 16)]) s)"

section \<open>The service account\<close>

record serviceAccountKey =
  ClientEmail :: string
  PrivateKey :: string
  TokenURI :: string

record 'k ServiceAccountTokenSource =
  sa_email :: string
  sa_privateKey :: 'k
  sa_tokenURI :: string
  sa_scope :: string
  sa_cached :: string
  sa_expiry :: instant

definition fcmDefaultBaseURL :: string where "fcmDefaultBaseURL = ''https://fcm.googleapis.com''"
definition fcmMessagingScope :: string where "fcmMessagingScope = ''https://www.googleapis.com/auth/firebase.messaging''"
definition tokenExpiryGrace :: duration where "tokenExpiryGrace = 60 * second"
definition jwtAssertionTTL :: duration where "jwtAssertionTTL = hour"

datatype source_error =
    KeyUnreadable
  | KeyMalformed
  | KeyIncomplete
  | KeyNotPEM
  | KeyUnparsable string
  | KeyNotRSA

definition parseRSAPrivateKey :: "'k network \<Rightarrow> string \<Rightarrow> source_error + 'k" where
  "parseRSAPrivateKey nw pemStr =
     (case nw_pem nw pemStr of
        None \<Rightarrow> Inl KeyNotPEM
      | Some block \<Rightarrow>
          (case nw_pkcs1 nw block of
             Some k \<Rightarrow> Inr k
           | None \<Rightarrow>
               (case nw_pkcs8 nw block of
                  Inl e \<Rightarrow> Inl (KeyUnparsable e)
                | Inr None \<Rightarrow> Inl KeyNotRSA
                | Inr (Some k) \<Rightarrow> Inr k)))"

definition put_key :: "string \<Rightarrow> json \<Rightarrow> serviceAccountKey \<Rightarrow> serviceAccountKey option" where
  "put_key n v r =
     (if n = ''client_email'' then set_string (\<lambda>s r. r\<lparr>ClientEmail := s\<rparr>) v r
      else if n = ''private_key'' then set_string (\<lambda>s r. r\<lparr>PrivateKey := s\<rparr>) v r
      else set_string (\<lambda>s r. r\<lparr>TokenURI := s\<rparr>) v r)"

text \<open>\<open>json.Unmarshal\<close>: one value and nothing but space after it.\<close>

definition newServiceAccountTokenSource :: "'k network \<Rightarrow> string \<Rightarrow> source_error + 'k ServiceAccountTokenSource" where
  "newServiceAccountTokenSource nw raw =
     (case json_parse (nw_rt nw) raw of
        None \<Rightarrow> Inl KeyMalformed
      | Some (v, rest) \<Rightarrow>
          if dropWhile json_space rest \<noteq> [] then Inl KeyMalformed
          else case decode_struct False [''client_email'', ''private_key'', ''token_uri''] put_key v
                 \<lparr>ClientEmail = [], PrivateKey = [], TokenURI = []\<rparr> of
                 None \<Rightarrow> Inl KeyMalformed
               | Some key \<Rightarrow>
                   if ClientEmail key = [] \<or> PrivateKey key = [] \<or> TokenURI key = [] then Inl KeyIncomplete
                   else case parseRSAPrivateKey nw (PrivateKey key) of
                          Inl e \<Rightarrow> Inl e
                        | Inr pk \<Rightarrow> Inr \<lparr>sa_email = ClientEmail key, sa_privateKey = pk, sa_tokenURI = TokenURI key,
                            sa_scope = fcmMessagingScope, sa_cached = [], sa_expiry = zero_time\<rparr>)"

definition NewServiceAccountTokenSourceFromFile ::
  "'k network \<Rightarrow> (string \<Rightarrow> string option) \<Rightarrow> string \<Rightarrow> source_error + 'k ServiceAccountTokenSource" where
  "NewServiceAccountTokenSourceFromFile nw files path =
     (case files path of None \<Rightarrow> Inl KeyUnreadable | Some raw \<Rightarrow> newServiceAccountTokenSource nw raw)"

definition raw_url :: "string \<Rightarrow> string" where "raw_url s = b64_encode url_alphabet False s"

definition jwtHeader :: string where
  "jwtHeader = json_object [json_field ''alg'' (json_string ''RS256''), json_field ''typ'' (json_string ''JWT'')]"

definition jwtClaims :: "'k ServiceAccountTokenSource \<Rightarrow> instant \<Rightarrow> string" where
  "jwtClaims src t =
     json_object [json_field ''iss'' (json_string (sa_email src)), json_field ''scope'' (json_string (sa_scope src)),
       json_field ''aud'' (json_string (sa_tokenURI src)), json_field ''iat'' (FormatInt (Unix t)),
       json_field ''exp'' (FormatInt (Unix (t + jwtAssertionTTL)))]"

definition signAssertion :: "'k network \<Rightarrow> 'k ServiceAccountTokenSource \<Rightarrow> instant \<Rightarrow> string + string" where
  "signAssertion nw src t =
     (let signingInput = raw_url jwtHeader @ ''.'' @ raw_url (jwtClaims src t)
      in case nw_sign nw (sa_privateKey src) (sha256 signingInput) of
           Inl e \<Rightarrow> Inl (''sign jwt: '' @ e)
         | Inr sig \<Rightarrow> Inr (signingInput @ ''.'' @ raw_url sig))"

record tokenResponse =
  AccessToken :: string
  ExpiresIn :: int

definition put_token :: "string \<Rightarrow> json \<Rightarrow> tokenResponse \<Rightarrow> tokenResponse option" where
  "put_token n v r =
     (if n = ''access_token'' then set_string (\<lambda>s r. r\<lparr>AccessToken := s\<rparr>) v r
      else map_option (\<lambda>x. case x of None \<Rightarrow> r | Some i \<Rightarrow> r\<lparr>ExpiresIn := i\<rparr>) (get_int64 v))"

text \<open>The body of a token reply, and the lifetime \<open>time.Duration(tr.ExpiresIn)*time.Second\<close> in 64 bits.\<close>

definition token_reply :: "runtime \<Rightarrow> string \<Rightarrow> tokenResponse option" where
  "token_reply rt body =
     (case json_parse rt body of
        None \<Rightarrow> None
      | Some (v, _) \<Rightarrow> decode_struct False [''access_token'', ''expires_in''] put_token v \<lparr>AccessToken = [], ExpiresIn = 0\<rparr>)"

definition token_ttl :: "tokenResponse \<Rightarrow> duration" where "token_ttl tr = wrap64 (ExpiresIn tr * second)"

definition grant_form :: "string \<Rightarrow> string" where
  "grant_form assertion =
     ''assertion='' @ QueryEscape assertion @ ''&grant_type='' @ QueryEscape ''urn:ietf:params:oauth:grant-type:jwt-bearer''"

definition exchange ::
  "'k network \<Rightarrow> 'k ServiceAccountTokenSource \<Rightarrow> string \<Rightarrow> traffic \<Rightarrow> (string + string \<times> duration) \<times> traffic" where
  "exchange nw src assertion io =
     (case nw_build nw (sa_tokenURI src) of
        Some e \<Rightarrow> (Inl (''build token request: '' @ e), io)
      | None \<Rightarrow>
          (case client_Do nw \<lparr>hr_url = sa_tokenURI src, hr_headers = [(''Content-Type'', ''application/x-www-form-urlencoded'')],
                  hr_body = FormBody (grant_form assertion)\<rparr> io of
             (Inl e, io1) \<Rightarrow> (Inl (''exchange jwt for access token: '' @ e), io1)
           | (Inr (status, body), io1) \<Rightarrow>
               if \<not> is_success status then (Inl (''token endpoint returned '' @ FormatInt status), io1)
               else case token_reply (nw_rt nw) body of
                      None \<Rightarrow> (Inl ''decode token response'', io1)
                    | Some tr \<Rightarrow>
                        if AccessToken tr = [] then (Inl ''token endpoint returned no access_token'', io1)
                        else (Inr (AccessToken tr, token_ttl tr), io1)))"

text \<open>\<open>Token\<close>: the clock is read for the cache only when there is a cached token.\<close>

definition still_fresh :: "'k network \<Rightarrow> 'k ServiceAccountTokenSource \<Rightarrow> traffic \<Rightarrow> bool \<times> traffic" where
  "still_fresh nw src io =
     (if sa_cached src = [] then (False, io)
      else case read_clock nw io of (t, io1) \<Rightarrow> (t < sa_expiry src - tokenExpiryGrace, io1))"

definition Token ::
  "'k network \<Rightarrow> 'k ServiceAccountTokenSource \<Rightarrow> traffic \<Rightarrow> (string + string) \<times> 'k ServiceAccountTokenSource \<times> traffic" where
  "Token nw src io =
     (case still_fresh nw src io of
        (True, io1) \<Rightarrow> (Inr (sa_cached src), src, io1)
      | (False, io1) \<Rightarrow>
          (case read_clock nw io1 of (t, io2) \<Rightarrow>
             case signAssertion nw src t of
               Inl e \<Rightarrow> (Inl e, src, io2)
             | Inr assertion \<Rightarrow>
                 (case exchange nw src assertion io2 of
                    (Inl e, io3) \<Rightarrow> (Inl e, src, io3)
                  | (Inr (tok, ttl), io3) \<Rightarrow>
                      (case read_clock nw io3 of (t', io4) \<Rightarrow>
                         (Inr tok, src\<lparr>sa_cached := tok, sa_expiry := t' + ttl\<rparr>, io4)))))"


section \<open>The senders\<close>

datatype 'k TokenSource = StaticTokenSource string | ServiceAccount "'k ServiceAccountTokenSource"

definition source_Token :: "'k network \<Rightarrow> 'k TokenSource \<Rightarrow> traffic \<Rightarrow> (string + string) \<times> 'k TokenSource \<times> traffic" where
  "source_Token nw ts io =
     (case ts of
        StaticTokenSource s \<Rightarrow> (Inr s, ts, io)
      | ServiceAccount src \<Rightarrow> (case Token nw src io of (r, src', io') \<Rightarrow> (r, ServiceAccount src', io')))"

record 'k FCMSender =
  projectID :: string
  tokens :: "'k TokenSource"
  baseURL :: string

definition NewFCMSender :: "string \<Rightarrow> 'k TokenSource \<Rightarrow> 'k FCMSender" where
  "NewFCMSender project ts = \<lparr>projectID = project, tokens = ts, baseURL = fcmDefaultBaseURL\<rparr>"

definition fcm_message :: "Delivery \<Rightarrow> fcmMessageBody" where
  "fcm_message d =
     \<lparr>fcm_token = Sub_Token (Sub d), fcm_title = Title (Note d), fcm_body = Body (Note d), fcm_data = Data (Note d),
      fcm_priority = ''high'', fcm_collapse_key = CollapseKey (Note d)\<rparr>"

text \<open>What a reply means to a sender: success, or the text of its error.\<close>

definition judge :: "string \<Rightarrow> string + int \<times> string \<Rightarrow> string option" where
  "judge name a =
     (case a of
        Inl e \<Rightarrow> Some (name @ '': send: '' @ e)
      | Inr (status, body) \<Rightarrow>
          if \<not> is_success status then Some (name @ '': send returned '' @ FormatInt status @ '': '' @ snippet body) else None)"

definition FCMSender_Send :: "'k network \<Rightarrow> Delivery \<Rightarrow> 'k FCMSender \<times> traffic \<Rightarrow> string option \<times> 'k FCMSender \<times> traffic" where
  "FCMSender_Send nw d st =
     (case st of (s, io) \<Rightarrow>
        case source_Token nw (tokens s) io of
          (Inl e, ts, io1) \<Rightarrow> (Some (''fcm: obtain access token: '' @ e), s\<lparr>tokens := ts\<rparr>, io1)
        | (Inr token, ts, io1) \<Rightarrow>
            (let url = baseURL s @ ''/v1/projects/'' @ projectID s @ ''/messages:send''
             in case nw_build nw url of
                  Some e \<Rightarrow> (Some (''fcm: build request: '' @ e), s\<lparr>tokens := ts\<rparr>, io1)
                | None \<Rightarrow>
                    (case client_Do nw \<lparr>hr_url = url, hr_headers = [(''Authorization'', ''Bearer '' @ token), (''Content-Type'', ''application/json'')],
                            hr_body = FcmBody (fcm_message d)\<rparr> io1 of
                       (a, io2) \<Rightarrow> (judge ''fcm'' a, s\<lparr>tokens := ts\<rparr>, io2))))"

definition unifiedpush_message :: "Delivery \<Rightarrow> unifiedPushMessage" where
  "unifiedpush_message d =
     \<lparr>up_title = Title (Note d), up_body = Body (Note d), up_priority = ''high'', up_collapse_key = CollapseKey (Note d),
      up_data = Data (Note d)\<rparr>"

definition UnifiedPushSender_Send :: "'k network \<Rightarrow> Delivery \<Rightarrow> traffic \<Rightarrow> string option \<times> traffic" where
  "UnifiedPushSender_Send nw d io =
     (case nw_build nw (Sub_Token (Sub d)) of
        Some e \<Rightarrow> (Some (''unifiedpush: build request: '' @ e), io)
      | None \<Rightarrow>
          (case client_Do nw \<lparr>hr_url = Sub_Token (Sub d), hr_headers = [(''Content-Type'', ''application/json''), (''Urgency'', ''high'')],
                  hr_body = UnifiedPushBody (unifiedpush_message d)\<rparr> io of
             (a, io1) \<Rightarrow> (judge ''unifiedpush'' a, io1)))"

text \<open>
  The senders as the dispatcher sees them, an answer for every delivery after those sent before: the
  state of the sender is the one those calls left.
\<close>

definition no_traffic :: traffic where "no_traffic = \<lparr>sent = [], readings = 0\<rparr>"

definition fcm_after :: "'k network \<Rightarrow> 'k FCMSender \<Rightarrow> Delivery list \<Rightarrow> 'k FCMSender \<times> traffic" where
  "fcm_after nw s ds = fold (\<lambda>d st. snd (FCMSender_Send nw d st)) ds (s, no_traffic)"

definition fcm_sender :: "'k network \<Rightarrow> 'k FCMSender \<Rightarrow> sender" where
  "fcm_sender nw s before d = fst (FCMSender_Send nw d (fcm_after nw s before))"

definition unifiedpush_after :: "'k network \<Rightarrow> Delivery list \<Rightarrow> traffic" where
  "unifiedpush_after nw ds = fold (\<lambda>d io. snd (UnifiedPushSender_Send nw d io)) ds no_traffic"

definition unifiedpush_sender :: "'k network \<Rightarrow> sender" where
  "unifiedpush_sender nw before d = fst (UnifiedPushSender_Send nw d (unifiedpush_after nw before))"

section \<open>The token cache\<close>

text \<open>
  What the token endpoint granted: an answer of the traffic, in reply to this source's request, that
  carries the token and a lifetime.
\<close>

definition grants :: "'k network \<Rightarrow> 'k ServiceAccountTokenSource \<Rightarrow> http_request \<times> (string + int \<times> string) \<Rightarrow> string \<Rightarrow> duration \<Rightarrow> bool" where
  "grants nw src entry tok ttl \<longleftrightarrow>
     (case entry of
        (q, Inl _) \<Rightarrow> False
      | (q, Inr (status, body)) \<Rightarrow>
          hr_url q = sa_tokenURI src \<and> is_success status
          \<and> (\<exists>tr. token_reply (nw_rt nw) body = Some tr \<and> AccessToken tr = tok \<and> token_ttl tr = ttl))"

definition granted :: "'k network \<Rightarrow> 'k ServiceAccountTokenSource \<Rightarrow> traffic \<Rightarrow> string \<Rightarrow> duration \<Rightarrow> bool" where
  "granted nw src io tok ttl \<longleftrightarrow> (\<exists>entry \<in> set (sent io). grants nw src entry tok ttl)"

definition cache_ok :: "'k network \<Rightarrow> 'k ServiceAccountTokenSource \<Rightarrow> traffic \<Rightarrow> bool" where
  "cache_ok nw src io \<longleftrightarrow>
     sa_cached src = [] \<or> (\<exists>k ttl. k < readings io \<and> granted nw src io (sa_cached src) ttl \<and> sa_expiry src = nw_now nw k + ttl)"

lemma granted_mono:
  "granted nw src io tok ttl \<Longrightarrow> set (sent io) \<subseteq> set (sent io') \<Longrightarrow> sa_tokenURI src' = sa_tokenURI src
     \<Longrightarrow> granted nw src' io' tok ttl"
proof -
  assume g: "granted nw src io tok ttl" "set (sent io) \<subseteq> set (sent io')" "sa_tokenURI src' = sa_tokenURI src"
  have "grants nw src' = grants nw src" by (intro ext) (simp only: grants_def g(3))
  then show ?thesis using g(1,2) unfolding granted_def by auto
qed

lemma exchange_sent:
  assumes "exchange nw src a io = (r, io')"
  shows "set (sent io) \<subseteq> set (sent io')" "readings io' = readings io"
  using assms by (auto simp: exchange_def client_Do_def Let_def split: option.splits sum.splits prod.splits if_splits)

lemma exchange_granted:
  assumes "exchange nw src a io = (Inr (tok, ttl), io')"
  shows "tok \<noteq> []" "granted nw src io' tok ttl" "sent io' \<noteq> sent io"
proof -
  let ?q = "\<lparr>hr_url = sa_tokenURI src, hr_headers = [(''Content-Type'', ''application/x-www-form-urlencoded'')],
    hr_body = FormBody (grant_form a)\<rparr>"
  obtain status body tr where x: "is_success status" "token_reply (nw_rt nw) body = Some tr" "AccessToken tr \<noteq> []"
    "tok = AccessToken tr" "ttl = token_ttl tr" "io' = io\<lparr>sent := sent io @ [(?q, Inr (status, body))]\<rparr>"
    using assms by (auto simp: exchange_def client_Do_def Let_def split: option.splits sum.splits prod.splits if_splits)
  show "tok \<noteq> []" "sent io' \<noteq> sent io" using x by simp_all
  have "grants nw src (?q, Inr (status, body)) tok ttl" using x by (simp add: grants_def)
  then show "granted nw src io' tok ttl" unfolding granted_def using x(6) by auto
qed

lemma Token_cases:
  assumes "Token nw src io = (r, src', io')"
  obtains (cached) "r = Inr (sa_cached src)" "src' = src" "sent io' = sent io" "readings io' = Suc (readings io)"
      "nw_now nw (readings io) < sa_expiry src - tokenExpiryGrace" "sa_cached src \<noteq> []"
    | (minted) tok ttl k where "r = Inr tok" "src' = src\<lparr>sa_cached := tok, sa_expiry := nw_now nw k + ttl\<rparr>" "tok \<noteq> []"
      "granted nw src io' tok ttl" "k < readings io'" "set (sent io) \<subseteq> set (sent io')" "sent io' \<noteq> sent io"
    | (failed) e where "r = Inl e" "src' = src" "set (sent io) \<subseteq> set (sent io')" "readings io \<le> readings io'"
proof -
  obtain fresh io1 where f: "still_fresh nw src io = (fresh, io1)" by fastforce
  have f1: "sent io1 = sent io" "readings io \<le> readings io1" using f by (auto simp: still_fresh_def read_clock_def split: if_splits)
  show thesis
  proof (cases fresh)
    case True
    then have "r = Inr (sa_cached src)" "src' = src" "io' = io1" using assms f by (auto simp: Token_def)
    moreover have "sa_cached src \<noteq> []" "nw_now nw (readings io) < sa_expiry src - tokenExpiryGrace" "readings io1 = Suc (readings io)"
      using f True by (auto simp: still_fresh_def read_clock_def split: if_splits)
    ultimately show thesis using cached f1(1) by simp
  next
    case False
    obtain t io2 where t: "read_clock nw io1 = (t, io2)" by fastforce
    then have io2: "sent io2 = sent io" "readings io2 = Suc (readings io1)" using f1 by (auto simp: read_clock_def)
    show thesis
    proof (cases "signAssertion nw src t")
      case (Inl e)
      then show thesis using assms f False t io2 f1 failed [of e] by (auto simp: Token_def)
    next
      case (Inr a)
      obtain x io3 where x: "exchange nw src a io2 = (x, io3)" by fastforce
      note g = exchange_sent [OF x]
      show thesis
      proof (cases x)
        case (Inl e)
        then show thesis using assms f False t Inr x g io2 f1 failed [of e] by (auto simp: Token_def)
      next
        case (Inr p)
        obtain tok ttl where p: "p = (tok, ttl)" by (cases p)
        have "r = Inr tok" "src' = src\<lparr>sa_cached := tok, sa_expiry := nw_now nw (readings io3) + ttl\<rparr>"
          "io' = io3\<lparr>readings := Suc (readings io3)\<rparr>"
          using assms f False t \<open>signAssertion nw src t = Inr a\<close> x Inr p by (auto simp: Token_def read_clock_def)
        then show thesis
          using minted [of tok "readings io3" ttl] g exchange_granted [OF x [unfolded Inr p]] io2
            granted_mono [of nw src io3 tok ttl io' src]
          by simp
      qed
    qed
  qed
qed



lemma cache_ok_new: "newServiceAccountTokenSource nw raw = Inr src \<Longrightarrow> cache_ok nw src io"
  by (auto simp: newServiceAccountTokenSource_def cache_ok_def split: option.splits prod.splits if_splits sum.splits)

text \<open>A network whose token endpoint grants an hour, and a source that holds such a token.\<close>

definition sample_network :: "unit network" where
  "sample_network =
     \<lparr>nw_build = (\<lambda>_. None), nw_do = (\<lambda>_ _. Inr (200, ''grant'')), nw_now = (\<lambda>n. int n * second),
      nw_rt = \<lparr>json_parse = (\<lambda>b. if b = ''grant'' then Some (JObject [(''access_token'', JString ''t''), (''expires_in'', JNumber ''3600'')], []) else None),
        parse_float = (\<lambda>_. None), per_3_6 = (\<lambda>x. x), unicode_lower = to_lower, uuid_parse = (\<lambda>_. False)\<rparr>,
      nw_pem = Some, nw_pkcs1 = (\<lambda>_. Some ()), nw_pkcs8 = (\<lambda>_. Inl []), nw_sign = (\<lambda>_ s. Inr s)\<rparr>"

definition sample_source :: "unit ServiceAccountTokenSource" where
  "sample_source = \<lparr>sa_email = ''e'', sa_privateKey = (), sa_tokenURI = ''https://token'', sa_scope = fcmMessagingScope,
     sa_cached = ''t'', sa_expiry = 3600 * second\<rparr>"

definition sample_traffic :: traffic where
  "sample_traffic = \<lparr>sent = [(\<lparr>hr_url = ''https://token'', hr_headers = [], hr_body = FormBody []\<rparr>, Inr (200, ''grant''))], readings = 1\<rparr>"

lemma sample_reply: "token_reply (nw_rt sample_network) ''grant'' = Some \<lparr>AccessToken = ''t'', ExpiresIn = 3600\<rparr>"
  by code_simp

lemma sample_grant: "granted sample_network sample_source sample_traffic ''t'' (3600 * second)"
  using sample_reply
  by (simp add: granted_def grants_def sample_traffic_def sample_source_def is_success_def token_ttl_def wrap64_id int64_def second_def)

lemma sample_cache: "cache_ok sample_network sample_source sample_traffic"
  unfolding cache_ok_def using sample_grant
  by (intro disjI2 exI [of _ 0] exI [of _ "3600 * second"]) (simp add: sample_source_def sample_traffic_def sample_network_def)


section \<open>What the two backends carry\<close>

fun alert :: "wire_body \<Rightarrow> (string \<times> string \<times> string \<times> string \<times> (string \<rightharpoonup> string)) option" where
  "alert (FcmBody b) = Some (fcm_title b, fcm_body b, fcm_priority b, fcm_collapse_key b, fcm_data b)"
| "alert (UnifiedPushBody b) = Some (up_title b, up_body b, up_priority b, up_collapse_key b, up_data b)"
| "alert (FormBody _) = None"

text \<open>A delivery reached the other side when the last request carries its alert and was answered with success.\<close>

definition reached :: "Delivery \<Rightarrow> string \<Rightarrow> traffic \<Rightarrow> bool" where
  "reached d url io \<longleftrightarrow>
     (\<exists>q status body ps. sent io = ps @ [(q, Inr (status, body))] \<and> hr_url q = url \<and> is_success status
        \<and> alert (hr_body q) = Some (Title (Note d), Body (Note d), ''high'', CollapseKey (Note d), Data (Note d)))"

lemma judge_None: "judge name a = None \<longleftrightarrow> (\<exists>status body. a = Inr (status, body) \<and> is_success status)"
  by (auto simp: judge_def split: sum.splits prod.splits)

text \<open>
  Both backends promise the same thing: a send reports success only when its last request was
  answered with a success status, and that request carried the title, the text, the high priority, the
  collapse key and the data of the delivery, to the project's address or to the subscription's own.
\<close>

theorem send_success:
  assumes "FCMSender_Send nw d (s, io) = (r, s', io')" "UnifiedPushSender_Send nw d io2 = (r2, io2')"
  shows "(r = None \<longrightarrow> reached d (baseURL s @ ''/v1/projects/'' @ projectID s @ ''/messages:send'') io')
    \<and> (r2 = None \<longrightarrow> reached d (Sub_Token (Sub d)) io2')"
proof (intro conjI impI)
  assume "r = None"
  then obtain token ts io1 where "source_Token nw (tokens s) io = (Inr token, ts, io1)"
    "nw_build nw (baseURL s @ ''/v1/projects/'' @ projectID s @ ''/messages:send'') = None"
    using assms(1) by (auto simp: FCMSender_Send_def Let_def split: prod.splits sum.splits option.splits)
  then show "reached d (baseURL s @ ''/v1/projects/'' @ projectID s @ ''/messages:send'') io'"
    using assms(1) \<open>r = None\<close>
    by (auto simp: FCMSender_Send_def Let_def client_Do_def judge_None reached_def fcm_message_def)
next
  assume "r2 = None"
  then have "nw_build nw (Sub_Token (Sub d)) = None"
    using assms(2) by (auto simp: UnifiedPushSender_Send_def split: option.splits)
  then show "reached d (Sub_Token (Sub d)) io2'"
    using assms(2) \<open>r2 = None\<close>
    by (auto simp: UnifiedPushSender_Send_def Let_def client_Do_def judge_None reached_def unifiedpush_message_def)
qed


theorem send_success_witness:
  "case (FCMSender_Send sample_network sample_delivery (NewFCMSender ''p'' (StaticTokenSource ''t''), no_traffic),
         UnifiedPushSender_Send sample_network sample_delivery no_traffic) of
     ((r, _, io'), (r2, io2')) \<Rightarrow>
       r = None \<and> r2 = None
       \<and> reached sample_delivery (fcmDefaultBaseURL @ ''/v1/projects/'' @ ''p'' @ ''/messages:send'') io'
       \<and> reached sample_delivery (Sub_Token (Sub sample_delivery)) io2'"
proof -
  obtain r s' io' where f: "FCMSender_Send sample_network sample_delivery (NewFCMSender ''p'' (StaticTokenSource ''t''), no_traffic) = (r, s', io')"
    by (metis prod_cases3)
  obtain r2 io2' where u: "UnifiedPushSender_Send sample_network sample_delivery no_traffic = (r2, io2')" by fastforce
  have "r = None" using f
    by (auto simp: FCMSender_Send_def NewFCMSender_def source_Token_def sample_network_def client_Do_def judge_def is_success_def Let_def)
  moreover have "r2 = None" using u
    by (auto simp: UnifiedPushSender_Send_def sample_network_def client_Do_def judge_def is_success_def Let_def)
  ultimately show ?thesis using send_success [OF f u] f u by (simp add: NewFCMSender_def)
qed

end
