(* ===== verification/Regex.thy ===== *)
theory Regex
  imports Prelude
begin

text \<open>
  The part of Go's \<open>regexp\<close> that the repository's scanners use: classes, concatenation, preference-ordered
  alternation, greedy and lazy repetition, captures, anchors of the text and of its lines, and word boundaries. Matching follows the documented
  leftmost-first rule by listing the ways to match in order of preference; the reference semantics is an
  inductive relation without any order, and the lemmas show that the two agree. Text is a list of bytes:
  the classes the sources use either hold ASCII characters only, or are negated and repeated, so that
  matching byte by byte and rune by rune consume the same text. No repetition in the sources has a body
  that matches the empty text.
\<close>

section \<open>Syntax\<close>

datatype rx =
    Eps
  | Cls "char \<Rightarrow> bool"
  | Cat rx rx
  | Alt rx rx
  | Many rx
  | Few rx
  | Cap nat rx
  | Bol
  | Eol
  | BolM
  | EolM
  | WordB

fun Lit :: "string \<Rightarrow> rx" where
  "Lit [] = Eps"
| "Lit (c # s) = Cat (Cls (\<lambda>x. x = c)) (Lit s)"

definition Many1 :: "rx \<Rightarrow> rx" where "Many1 r = Cat r (Many r)"
definition Few1 :: "rx \<Rightarrow> rx" where "Few1 r = Cat r (Few r)"
definition Opt :: "rx \<Rightarrow> rx" where "Opt r = Alt r Eps"

fun Times :: "nat \<Rightarrow> rx \<Rightarrow> rx" where
  "Times 0 r = Eps"
| "Times (Suc n) r = Cat r (Times n r)"

fun Seq :: "rx list \<Rightarrow> rx" where
  "Seq [] = Eps"
| "Seq [r] = r"
| "Seq (r # rs) = Cat r (Seq rs)"

definition is_digit :: "char \<Rightarrow> bool" where "is_digit c \<longleftrightarrow> CHR ''0'' \<le> c \<and> c \<le> CHR ''9''"
definition is_upper :: "char \<Rightarrow> bool" where "is_upper c \<longleftrightarrow> CHR ''A'' \<le> c \<and> c \<le> CHR ''Z''"
definition is_lower :: "char \<Rightarrow> bool" where "is_lower c \<longleftrightarrow> CHR ''a'' \<le> c \<and> c \<le> CHR ''z''"
definition is_alnum :: "char \<Rightarrow> bool" where "is_alnum c \<longleftrightarrow> is_digit c \<or> is_upper c \<or> is_lower c"
definition is_word :: "char \<Rightarrow> bool" where "is_word c \<longleftrightarrow> is_alnum c \<or> c = CHR ''_''"
definition rx_space :: "char \<Rightarrow> bool" where
  "rx_space c \<longleftrightarrow> c \<in> {CHR '' '', CHR 0x09, CHR 0x0A, CHR 0x0C, CHR 0x0D}"

section \<open>Matching\<close>

text \<open>A position in a text: what is before it, read backwards, what is after it, and the captures.\<close>

record pos =
  before :: string
  rest :: string
  caps :: "nat \<Rightarrow> string option"

definition line_edge :: "string \<Rightarrow> bool" where "line_edge p \<longleftrightarrow> p = [] \<or> hd p = CHR 0x0A"

definition word_before :: "string \<Rightarrow> bool" where "word_before p \<longleftrightarrow> p \<noteq> [] \<and> is_word (hd p)"

fun repeat :: "nat \<Rightarrow> (pos \<Rightarrow> pos list) \<Rightarrow> pos \<Rightarrow> pos list" where
  "repeat 0 f s = [s]"
| "repeat (Suc n) f s =
     concat (map (repeat n f) (filter (\<lambda>t. length (rest t) < length (rest s)) (f s))) @ [s]"

text \<open>The lazy repetition prefers to stop.\<close>

fun repeat_few :: "nat \<Rightarrow> (pos \<Rightarrow> pos list) \<Rightarrow> pos \<Rightarrow> pos list" where
  "repeat_few 0 f s = [s]"
| "repeat_few (Suc n) f s =
     s # concat (map (repeat_few n f) (filter (\<lambda>t. length (rest t) < length (rest s)) (f s)))"

lemma set_repeat_few: "set (repeat_few n f s) = set (repeat n f s)"
  by (induction n arbitrary: s) auto

fun ways :: "rx \<Rightarrow> pos \<Rightarrow> pos list" where
  "ways Eps s = [s]"
| "ways (Cls P) s =
     (case rest s of [] \<Rightarrow> [] | c # cs \<Rightarrow> if P c then [s\<lparr>before := c # before s, rest := cs\<rparr>] else [])"
| "ways (Cat r1 r2) s = concat (map (ways r2) (ways r1 s))"
| "ways (Alt r1 r2) s = ways r1 s @ ways r2 s"
| "ways (Many r) s = repeat (length (rest s)) (ways r) s"
| "ways (Few r) s = repeat_few (length (rest s)) (ways r) s"
| "ways (Cap n r) s =
     map (\<lambda>t. t\<lparr>caps := (caps t)(n \<mapsto> take (length (rest s) - length (rest t)) (rest s))\<rparr>) (ways r s)"
| "ways Bol s = (if before s = [] then [s] else [])"
| "ways Eol s = (if rest s = [] then [s] else [])"
| "ways BolM s = (if line_edge (before s) then [s] else [])"
| "ways EolM s = (if line_edge (rest s) then [s] else [])"
| "ways WordB s = (if word_before (before s) \<noteq> word_before (rest s) then [s] else [])"

text \<open>\<open>FindStringSubmatchIndex\<close>: the preferred match at the leftmost position that has one.\<close>

fun find_from :: "rx \<Rightarrow> string \<Rightarrow> string \<Rightarrow> (pos \<times> pos) option" where
  "find_from r p s =
     (let here = \<lparr>before = p, rest = s, caps = Map.empty\<rparr>
      in case ways r here of
           t # _ \<Rightarrow> Some (here, t)
         | [] \<Rightarrow> (case s of [] \<Rightarrow> None | c # cs \<Rightarrow> find_from r (c # p) cs))"

declare find_from.simps [simp del]

definition MatchString :: "rx \<Rightarrow> string \<Rightarrow> bool" where
  "MatchString r s \<longleftrightarrow> find_from r [] s \<noteq> None"

definition matched :: "pos \<times> pos \<Rightarrow> string" where
  "matched m = (case m of (s, t) \<Rightarrow> take (length (rest s) - length (rest t)) (rest s))"

text \<open>An empty string stands for no match, as in the source.\<close>

definition FindString :: "rx \<Rightarrow> string \<Rightarrow> string" where
  "FindString r s = (case find_from r [] s of None \<Rightarrow> [] | Some m \<Rightarrow> matched m)"

definition group :: "pos \<Rightarrow> nat \<Rightarrow> string" where
  "group t n = (case caps t n of None \<Rightarrow> [] | Some g \<Rightarrow> g)"

definition FindStringSubmatch :: "rx \<Rightarrow> string \<Rightarrow> (nat \<Rightarrow> string) option" where
  "FindStringSubmatch r s = map_option (\<lambda>(_, t). group t) (find_from r [] s)"

text \<open>\<open>FindAllStringSubmatch\<close> for an expression that consumes at least one character.\<close>

function find_all :: "rx \<Rightarrow> string \<Rightarrow> string \<Rightarrow> (pos \<times> pos) list" where
  "find_all r p s =
     (case find_from r p s of
        None \<Rightarrow> []
      | Some (h, t) \<Rightarrow> if length (rest t) < length s then (h, t) # find_all r (before t) (rest t) else [(h, t)])"
  by pat_completeness auto
termination by (relation "measure (\<lambda>(r, p, s). length s)") auto

declare find_all.simps [simp del]

definition FindAllStringSubmatch :: "rx \<Rightarrow> string \<Rightarrow> (nat \<Rightarrow> string) list" where
  "FindAllStringSubmatch r s = map (\<lambda>(_, t). group t) (find_all r [] s)"

section \<open>The reference semantics\<close>

text \<open>\<open>matches r p u q\<close>: with \<open>p\<close> before it, read backwards, and \<open>q\<close> after it, the text \<open>u\<close> matches \<open>r\<close>.\<close>

inductive matches :: "rx \<Rightarrow> string \<Rightarrow> string \<Rightarrow> string \<Rightarrow> bool" where
  eps: "matches Eps p [] q"
| cls: "P c \<Longrightarrow> matches (Cls P) p [c] q"
| cat: "matches r1 p u (v @ q) \<Longrightarrow> matches r2 (rev u @ p) v q \<Longrightarrow> matches (Cat r1 r2) p (u @ v) q"
| alt1: "matches r1 p u q \<Longrightarrow> matches (Alt r1 r2) p u q"
| alt2: "matches r2 p u q \<Longrightarrow> matches (Alt r1 r2) p u q"
| many_stop: "matches (Many r) p [] q"
| many_step: "u \<noteq> [] \<Longrightarrow> matches r p u (v @ q) \<Longrightarrow> matches (Many r) (rev u @ p) v q \<Longrightarrow> matches (Many r) p (u @ v) q"
| few: "matches (Many r) p u q \<Longrightarrow> matches (Few r) p u q"
| captured: "matches r p u q \<Longrightarrow> matches (Cap n r) p u q"
| bol: "matches Bol [] [] q"
| eol: "matches Eol p [] []"
| bolm: "line_edge p \<Longrightarrow> matches BolM p [] q"
| eolm: "line_edge q \<Longrightarrow> matches EolM p [] q"
| wordb: "word_before p \<noteq> word_before q \<Longrightarrow> matches WordB p [] q"

inductive_simps matches_simps [simp]:
  "matches Eps p u q" "matches (Cls P) p u q" "matches (Alt r1 r2) p u q" "matches (Cap n r) p u q"
  "matches Bol p u q" "matches Eol p u q" "matches BolM p u q" "matches EolM p u q" "matches WordB p u q"
  "matches (Few r) p u q"

inductive_cases matches_CatE: "matches (Cat r1 r2) p u q"
inductive_simps matches_Cat: "matches (Cat r1 r2) p u q"
inductive_cases matches_ManyE: "matches (Many r) p u q"

text \<open>The position after consuming \<open>u\<close>.\<close>

definition consumes :: "pos \<Rightarrow> string \<Rightarrow> pos \<Rightarrow> bool" where
  "consumes s u t \<longleftrightarrow> rest s = u @ rest t \<and> before t = rev u @ before s"

lemma consumes_trans: "consumes s u t \<Longrightarrow> consumes t v w \<Longrightarrow> consumes s (u @ v) w"
  by (auto simp: consumes_def)

lemma consumes_refl: "consumes s [] s"
  by (simp add: consumes_def)

lemma many_none: "\<exists>u. consumes s u s \<and> matches (Many r) (before s) u (rest s)"
  using consumes_refl many_stop by blast


lemma repeat_sound:
  assumes "\<And>s t. t \<in> set (f s) \<Longrightarrow> \<exists>u. consumes s u t \<and> matches r (before s) u (rest t)"
  shows "t \<in> set (repeat n f s) \<Longrightarrow> \<exists>u. consumes s u t \<and> matches (Many r) (before s) u (rest t)"
proof (induction n arbitrary: s)
  case 0
  then show ?case using many_none by simp
next
  case (Suc n)
  consider "t = s" | m where "m \<in> set (f s)" "length (rest m) < length (rest s)" "t \<in> set (repeat n f m)"
    using Suc.prems by auto
  then show ?case
  proof cases
    case 1
    then show ?thesis using many_none by simp
  next
    case 2
    obtain u where u: "consumes s u m" "matches r (before s) u (rest m)" using assms 2(1) by blast
    obtain v where v: "consumes m v t" "matches (Many r) (before m) v (rest t)" using Suc.IH 2(3) by blast
    have "u \<noteq> []" using u(1) 2(2) by (auto simp: consumes_def)
    moreover have "matches r (before s) u (v @ rest t)" "matches (Many r) (rev u @ before s) v (rest t)"
      using u v by (auto simp: consumes_def)
    ultimately have "matches (Many r) (before s) (u @ v) (rest t)" by (rule many_step)
    then show ?thesis using consumes_trans [OF u(1) v(1)] by blast
  qed
qed

lemma ways_sound: "t \<in> set (ways r s) \<Longrightarrow> \<exists>u. consumes s u t \<and> matches r (before s) u (rest t)"
proof (induction r arbitrary: s t)
  case (Cat r1 r2)
  then obtain m where m: "m \<in> set (ways r1 s)" "t \<in> set (ways r2 m)" by auto
  obtain u where u: "consumes s u m" "matches r1 (before s) u (rest m)" using Cat.IH(1) m(1) by blast
  obtain v where v: "consumes m v t" "matches r2 (before m) v (rest t)" using Cat.IH(2) m(2) by blast
  have "matches (Cat r1 r2) (before s) (u @ v) (rest t)"
    using u v by (intro cat) (auto simp: consumes_def)
  then show ?case using consumes_trans [OF u(1) v(1)] by blast
next
  case (Many r)
  show ?case by (rule repeat_sound [of "ways r"]) (use Many in auto)
next
  case (Few r)
  have "\<exists>u. consumes s u t \<and> matches (Many r) (before s) u (rest t)"
    by (rule repeat_sound [of "ways r"]) (use Few in \<open>auto simp: set_repeat_few\<close>)
  then show ?case using few by blast
next
  case (Cap n r)
  then obtain t' where t': "t' \<in> set (ways r s)" "rest t = rest t'" "before t = before t'" by auto
  then show ?case using Cap.IH [OF t'(1)] by (auto simp: consumes_def)
next
  case (Alt r1 r2)
  then have "t \<in> set (ways r1 s) \<or> t \<in> set (ways r2 s)" by simp
  then show ?case using Alt.IH by (elim disjE) (fastforce simp: matches_simps(3))+
qed (auto simp: consumes_def split: list.splits if_splits)

lemma repeat_complete:
  assumes "\<And>p u q s. matches r p u q \<Longrightarrow> before s = p \<Longrightarrow> rest s = u @ q \<Longrightarrow> \<exists>t \<in> set (f s). consumes s u t"
  shows "matches R p u q \<Longrightarrow> R = Many r \<Longrightarrow> before s = p \<Longrightarrow> rest s = u @ q \<Longrightarrow> length u \<le> n
    \<Longrightarrow> \<exists>t \<in> set (repeat n f s). consumes s u t"
proof (induction R p u q arbitrary: n s rule: matches.induct)
  case (many_stop r' p q)
  then show ?case using consumes_refl by (cases n) auto
next
  case (many_step u r' p v q)
  obtain m where m: "m \<in> set (f s)" "consumes s u m" 
    using assms [of p u "v @ q" s] many_step.hyps(2) many_step.prems by auto
  have pm: "before m = rev u @ p" "rest m = v @ q" using m(2) many_step.prems by (auto simp: consumes_def)
  obtain k where k: "n = Suc k" "length v \<le> k" using many_step.hyps(1) many_step.prems(4) by (cases n) (auto simp: Suc_le_eq neq_Nil_conv)
  obtain t where t: "t \<in> set (repeat k f m)" "consumes m v t"
    using many_step.IH(2) [OF many_step.prems(1) pm k(2)] by blast
  have "length (rest m) < length (rest s)" using pm many_step.prems many_step.hyps(1) by simp
  then have "t \<in> set (repeat n f s)" using k m(1) t(1) by auto
  then show ?case using consumes_trans [OF m(2) t(2)] by blast
qed auto

lemma ways_complete: "matches r p u q \<Longrightarrow> before s = p \<Longrightarrow> rest s = u @ q \<Longrightarrow> \<exists>t \<in> set (ways r s). consumes s u t"
proof (induction r arbitrary: p u q s)
  case (Cat r1 r2)
  then obtain a b where ab: "u = a @ b" "matches r1 p a (b @ q)" "matches r2 (rev a @ p) b q" by (auto simp: matches_Cat)
  obtain m where m: "m \<in> set (ways r1 s)" "consumes s a m" using Cat.IH(1) [OF ab(2), of s] Cat.prems ab(1) by auto
  have "before m = rev a @ p" "rest m = b @ q" using m(2) Cat.prems ab(1) by (auto simp: consumes_def)
  then obtain t where t: "t \<in> set (ways r2 m)" "consumes m b t" using Cat.IH(2) [OF ab(3)] by blast
  then show ?case using m consumes_trans [OF m(2) t(2)] ab(1) by auto
next
  case (Many r)
  then show ?case using repeat_complete [of r "ways r" "Many r" p u q s "length (rest s)"] by auto
next
  case (Few r)
  then show ?case using repeat_complete [of r "ways r" "Many r" p u q s "length (rest s)"] by (auto simp: set_repeat_few)
next
  case (Cap n r)
  then obtain t where "t \<in> set (ways r s)" "consumes s u t" by (metis matches_simps(4))
  then show ?case by (auto simp: consumes_def)
next
  case (Alt r1 r2)
  then show ?case by (metis Un_iff matches_simps(3) set_append ways.simps(4))
qed (auto simp: consumes_def)

lemma ways_nonempty: "ways r s \<noteq> [] \<longleftrightarrow> (\<exists>u q. rest s = u @ q \<and> matches r (before s) u q)"
proof
  assume "ways r s \<noteq> []"
  then obtain t where "t \<in> set (ways r s)" by (cases "ways r s") auto
  then show "\<exists>u q. rest s = u @ q \<and> matches r (before s) u q" using ways_sound by (fastforce simp: consumes_def)
next
  assume "\<exists>u q. rest s = u @ q \<and> matches r (before s) u q"
  then show "ways r s \<noteq> []" using ways_complete by fastforce
qed

text \<open>A search finds a match exactly when the text has one, and what it finds is one.\<close>

lemma find_from_None:
  "find_from r p s = None \<longleftrightarrow> (\<forall>a u q. s = a @ u @ q \<longrightarrow> \<not> matches r (rev a @ p) u q)"
proof (induction s arbitrary: p)
  case Nil
  show ?case
    using ways_nonempty [of r "\<lparr>before = p, rest = [], caps = Map.empty\<rparr>"]
    by (subst find_from.simps) (auto simp: Let_def split: list.split)
next
  case (Cons c s)
  let ?here = "\<lparr>before = p, rest = c # s, caps = Map.empty\<rparr>"
  have n: "(\<forall>a u q. c # s = a @ u @ q \<longrightarrow> \<not> matches r (rev a @ p) u q) \<longleftrightarrow>
      ways r ?here = [] \<and> (\<forall>a u q. s = a @ u @ q \<longrightarrow> \<not> matches r (rev (c # a) @ p) u q)"
    (is "?L = ?R")
  proof
    assume l: ?L
    have "\<not> matches r p u q" if "c # s = u @ q" for u q using l [rule_format, of "[]" u q] that by simp
    then have "ways r ?here = []" using ways_nonempty [of r ?here] by auto
    moreover have "\<not> matches r (rev (c # a) @ p) u q" if "s = a @ u @ q" for a u q
      using l [rule_format, of "c # a" u q] that by simp
    ultimately show ?R by blast
  next
    assume r: ?R
    show ?L
    proof (intro allI impI)
      fix a u q assume e: "c # s = a @ u @ q"
      show "\<not> matches r (rev a @ p) u q"
      proof (cases a)
        case Nil
        then show ?thesis using r ways_nonempty [of r ?here] e by auto
      next
        case (Cons x xs)
        then show ?thesis using r e by auto
      qed
    qed
  qed
  show ?case
    unfolding n by (subst find_from.simps) (simp add: Cons.IH Let_def split: list.split)
qed

definition leftmost :: "rx \<Rightarrow> string \<Rightarrow> string \<Rightarrow> string \<Rightarrow> bool" where
  "leftmost r p a s \<longleftrightarrow> (\<forall>b c u q. a = b @ c \<and> c \<noteq> [] \<and> c @ s = u @ q \<longrightarrow> \<not> matches r (rev b @ p) u q)"

lemma leftmost_Nil: "leftmost r p [] s"
  by (simp add: leftmost_def)

lemma leftmost_Cons:
  assumes "ways r \<lparr>before = p, rest = x # a @ s, caps = Map.empty\<rparr> = []" "leftmost r (x # p) a s"
  shows "leftmost r p (x # a) s"
  unfolding leftmost_def
proof (intro allI impI, elim conjE)
  fix b c u q assume e: "x # a = b @ c" "c \<noteq> []" "c @ s = u @ q"
  show "\<not> matches r (rev b @ p) u q"
  proof (cases b)
    case Nil
    then show ?thesis using ways_nonempty [of r "\<lparr>before = p, rest = x # a @ s, caps = Map.empty\<rparr>"] assms(1) e by auto
  next
    case (Cons y ys)
    then have "y = x" "a = ys @ c" using e(1) by simp_all
    then have "\<not> matches r (rev ys @ x # p) u q" using assms(2) e(2,3) unfolding leftmost_def by blast
    then show ?thesis using Cons \<open>y = x\<close> by simp
  qed
qed

lemma find_from_Some:
  "find_from r p s = Some (h, t) \<Longrightarrow>
     \<exists>a ts. s = a @ rest h \<and> before h = rev a @ p \<and> caps h = Map.empty \<and> ways r h = t # ts \<and> leftmost r p a (rest h)"
proof (induction s arbitrary: p)
  case Nil
  then have "h = \<lparr>before = p, rest = [], caps = Map.empty\<rparr>" "\<exists>ts. ways r h = t # ts"
    by (auto simp: find_from.simps [of r p "[]"] Let_def split: list.splits)
  then show ?case by (auto simp: leftmost_Nil)
next
  case (Cons c s)
  let ?here = "\<lparr>before = p, rest = c # s, caps = Map.empty\<rparr>"
  show ?case
  proof (cases "ways r ?here")
    case (Cons t' ts)
    then have "h = ?here" "t = t'" using Cons.prems by (auto simp: find_from.simps [of r p "c # s"] Let_def)
    then show ?thesis using Cons by (auto simp: leftmost_Nil)
  next
    case Nil
    then have f: "find_from r (c # p) s = Some (h, t)" using Cons.prems by (simp add: find_from.simps [of r p "c # s"] Let_def)
    obtain a ts where a: "s = a @ rest h" "before h = rev a @ c # p" "caps h = Map.empty" "ways r h = t # ts"
      "leftmost r (c # p) a (rest h)" using Cons.IH [OF f] by (elim exE conjE) (rule that)
    have "leftmost r p (c # a) (rest h)" by (rule leftmost_Cons) (use Nil a in simp_all)
    then show ?thesis using a by (intro exI [of _ "c # a"] exI [of _ ts]) simp
  qed
qed

lemma MatchString_iff: "MatchString r s \<longleftrightarrow> (\<exists>a u q. s = a @ u @ q \<and> matches r (rev a) u q)"
  by (auto simp: MatchString_def find_from_None)


lemma find_from_matched:
  assumes "find_from r p s = Some (h, t)"
  shows "\<exists>a. s = a @ matched (h, t) @ rest t \<and> matches r (rev a @ p) (matched (h, t)) (rest t)"
proof -
  obtain a ts where a: "s = a @ rest h" "before h = rev a @ p" "ways r h = t # ts" using find_from_Some [OF assms] by blast
  obtain u where u: "consumes h u t" "matches r (before h) u (rest t)" using ways_sound [of t r h] a(3) by auto
  then have "matched (h, t) = u" "rest h = u @ rest t" by (auto simp: matched_def consumes_def)
  then show ?thesis using a u by auto
qed

section \<open>The language of the derived forms\<close>

lemma matches_Lit [simp]: "matches (Lit w) p u q \<longleftrightarrow> u = w"
  by (induction w arbitrary: p u) (auto simp: matches_Cat)

lemma matches_Many_Cls [simp]: "matches (Many (Cls P)) p u q \<longleftrightarrow> (\<forall>c \<in> set u. P c)"
proof
  have "matches R p u q \<Longrightarrow> R = Many (Cls P) \<Longrightarrow> \<forall>c \<in> set u. P c" for R
    by (induction R p u q rule: matches.induct) auto
  then show "matches (Many (Cls P)) p u q \<Longrightarrow> \<forall>c \<in> set u. P c" by blast
  show "\<forall>c \<in> set u. P c \<Longrightarrow> matches (Many (Cls P)) p u q"
  proof (induction u arbitrary: p)
    case (Cons c u)
    then show ?case using many_step [of "[c]" "Cls P" p u q] by simp
  qed (rule many_stop)
qed

lemma matches_Cat_Cls: "matches (Cat (Cls P) r) p u q \<longleftrightarrow> (\<exists>c v. u = c # v \<and> P c \<and> matches r (c # p) v q)"
proof
  show "\<exists>c v. u = c # v \<and> P c \<and> matches r (c # p) v q \<Longrightarrow> matches (Cat (Cls P) r) p u q"
    using cat [of "Cls P" p "[_]" _ q r] by auto
qed (auto simp: matches_Cat)

lemma matches_Many1_Cls [simp]: "matches (Many1 (Cls P)) p u q \<longleftrightarrow> u \<noteq> [] \<and> (\<forall>c \<in> set u. P c)"
proof -
  have "matches (Many1 (Cls P)) p u q \<longleftrightarrow> (\<exists>c v. u = c # v \<and> P c \<and> (\<forall>c \<in> set v. P c))"
    by (simp add: Many1_def matches_Cat_Cls)
  then show ?thesis by (cases u) auto
qed

lemma matches_Few1_Cls [simp]: "matches (Few1 (Cls P)) p u q \<longleftrightarrow> u \<noteq> [] \<and> (\<forall>c \<in> set u. P c)"
proof -
  have "matches (Few1 (Cls P)) p u q \<longleftrightarrow> matches (Many1 (Cls P)) p u q"
    by (simp only: Few1_def Many1_def matches_Cat_Cls matches_simps(10))
  then show ?thesis by simp
qed

lemma matches_Times_Cls [simp]: "matches (Times n (Cls P)) p u q \<longleftrightarrow> length u = n \<and> (\<forall>c \<in> set u. P c)"
proof (induction n arbitrary: p u)
  case (Suc n)
  have "matches (Times (Suc n) (Cls P)) p u q \<longleftrightarrow> (\<exists>c v. u = c # v \<and> P c \<and> length v = n \<and> (\<forall>c \<in> set v. P c))"
    by (simp add: matches_Cat_Cls Suc.IH)
  then show ?case by (cases u) auto
qed auto

lemma matches_Opt [simp]: "matches (Opt r) p u q \<longleftrightarrow> matches r p u q \<or> u = []"
  by (auto simp: Opt_def)

lemma matches_WordB_Cat: "matches (Cat WordB r) p m q \<longleftrightarrow> word_before p \<noteq> word_before (m @ q) \<and> matches r p m q"
  by (simp add: matches_Cat)

lemma matches_Cat_WordB: "matches (Cat r WordB) p m q \<longleftrightarrow> matches r p m q \<and> word_before (rev m @ p) \<noteq> word_before q"
  by (simp add: matches_Cat)

lemma matches_Cat_assoc: "matches (Cat r1 (Cat r2 r3)) p m q \<longleftrightarrow> matches (Cat (Cat r1 r2) r3) p m q"
proof
  assume "matches (Cat r1 (Cat r2 r3)) p m q"
  then obtain a b c where m: "m = a @ b @ c" and x: "matches r1 p a (b @ c @ q)"
    and y: "matches r2 (rev a @ p) b (c @ q)" "matches r3 (rev b @ rev a @ p) c q"
    unfolding matches_Cat by auto
  have "matches (Cat r1 r2) p (a @ b) (c @ q)" using x y(1) by (intro cat) simp_all
  then have "matches (Cat (Cat r1 r2) r3) p ((a @ b) @ c) q"
    using cat [of "Cat r1 r2" p "a @ b" c q r3] y(2) by simp
  then show "matches (Cat (Cat r1 r2) r3) p m q" using m by simp
next
  assume "matches (Cat (Cat r1 r2) r3) p m q"
  then obtain a b c where m: "m = (a @ b) @ c" and x: "matches r1 p a (b @ c @ q)"
    and y: "matches r2 (rev a @ p) b (c @ q)" "matches r3 (rev b @ rev a @ p) c q"
    unfolding matches_Cat by auto
  have "matches (Cat r2 r3) (rev a @ p) (b @ c) q" using y by (intro cat) simp_all
  then have "matches (Cat r1 (Cat r2 r3)) p (a @ b @ c) q"
    using cat [of r1 p a "b @ c" q "Cat r2 r3"] x by simp
  then show "matches (Cat r1 (Cat r2 r3)) p m q" using m by simp
qed

text \<open>An expression without captures leaves them as they are.\<close>

fun no_cap :: "rx \<Rightarrow> bool" where
  "no_cap (Cat r1 r2) \<longleftrightarrow> no_cap r1 \<and> no_cap r2"
| "no_cap (Alt r1 r2) \<longleftrightarrow> no_cap r1 \<and> no_cap r2"
| "no_cap (Many r) \<longleftrightarrow> no_cap r"
| "no_cap (Few r) \<longleftrightarrow> no_cap r"
| "no_cap (Cap n r) \<longleftrightarrow> False"
| "no_cap _ \<longleftrightarrow> True"

lemma no_cap_derived [simp]:
  "no_cap (Lit w)" "no_cap (Many1 r) \<longleftrightarrow> no_cap r" "no_cap (Opt r) \<longleftrightarrow> no_cap r"
  "no_cap (Few1 r) \<longleftrightarrow> no_cap r"
  by (induction w) (auto simp: Many1_def Opt_def Few1_def)

declare Lit.simps [simp del] Times.simps [simp del]

lemma no_cap_keeps: "no_cap r \<Longrightarrow> t \<in> set (ways r s) \<Longrightarrow> caps t = caps s"
proof (induction r arbitrary: s t)
  case (Many r)
  have "t \<in> set (repeat n (ways r) s) \<Longrightarrow> caps t = caps s" for n t s
    using Many by (induction n arbitrary: s) auto
  then show ?case using Many.prems by auto
next
  case (Few r)
  have "t \<in> set (repeat n (ways r) s) \<Longrightarrow> caps t = caps s" for n t s
    using Few by (induction n arbitrary: s) auto
  then show ?case using Few.prems by (auto simp: set_repeat_few)
qed (auto split: list.splits if_splits)

text \<open>One step of a sequence: the part it consumes and what is left for the others.\<close>

lemma ways_CatE:
  assumes "t \<in> set (ways (Cat r1 r2) s)"
  obtains m u where "m \<in> set (ways r1 s)" "t \<in> set (ways r2 m)" "consumes s u m" "matches r1 (before s) u (rest m)"
proof -
  obtain m where m: "m \<in> set (ways r1 s)" "t \<in> set (ways r2 m)" using assms by auto
  then show ?thesis using ways_sound [OF m(1)] that by blast
qed

lemma ways_capE:
  assumes "t \<in> set (ways (Cap n r) s)" "no_cap r"
  obtains u where "consumes s u t" "matches r (before s) u (rest t)" "caps t = (caps s)(n \<mapsto> u)"
proof -
  obtain m where m: "m \<in> set (ways r s)"
    "t = m\<lparr>caps := (caps m)(n \<mapsto> take (length (rest s) - length (rest m)) (rest s))\<rparr>" using assms(1) by auto
  obtain u where u: "consumes s u m" "matches r (before s) u (rest m)" using ways_sound [OF m(1)] by blast
  have "take (length (rest s) - length (rest m)) (rest s) = u" using u(1) by (simp add: consumes_def)
  then show ?thesis using that [of u] u m(2) no_cap_keeps [OF assms(2) m(1)] by (simp add: consumes_def)
qed

end
