(* ===== verification/Commands.thy ===== *)
theory Commands
  imports Config Server Retention Backends SecretScan
begin

text \<open>
  The binary: the connection and migration helpers of \<open>internal/db/db.go\<close> over what pgx and goose do,
  and \<open>cmd/tracker/main.go\<close>: the start of the server up to the point where it listens, and the
  operator commands with their flags and what they print. The lemmas show that a server listens only
  when its configuration, schema and partitions are in order, that a command that is refused before it
  opens the database changes nothing, and what the token a command prints is good for.
\<close>

section \<open>Connections and migrations\<close>

text \<open>What the third-party packages do: a failure is \<open>False\<close> or \<open>None\<close>.\<close>

record drivers =
  goose_dialect :: bool
  sql_open :: "string \<Rightarrow> bool"
  goose_up :: "db \<Rightarrow> bool \<times> db"
  goose_down :: "int \<Rightarrow> db \<Rightarrow> bool \<times> db"
  goose_version :: "db \<Rightarrow> int option"
  pgxpool_new :: "string \<Rightarrow> bool"

definition openForMigration :: "drivers \<Rightarrow> string \<Rightarrow> bool" where
  "openForMigration dv dsn \<longleftrightarrow> goose_dialect dv \<and> sql_open dv dsn"

definition Up :: "drivers \<Rightarrow> string \<Rightarrow> db \<Rightarrow> bool \<times> db" where
  "Up dv dsn d = (if \<not> openForMigration dv dsn then (False, d) else goose_up dv d)"

definition DownTo :: "drivers \<Rightarrow> string \<Rightarrow> int \<Rightarrow> db \<Rightarrow> bool \<times> db" where
  "DownTo dv dsn version d = (if \<not> openForMigration dv dsn then (False, d) else goose_down dv version d)"

definition Version :: "drivers \<Rightarrow> string \<Rightarrow> db \<Rightarrow> int option" where
  "Version dv dsn d = (if \<not> openForMigration dv dsn then None else goose_version dv d)"

definition Open :: "drivers \<Rightarrow> string \<Rightarrow> db \<Rightarrow> bool \<times> db" where
  "Open dv dsn d =
     (if \<not> pgxpool_new dv dsn then (False, d)
      else case run ping d of (Inl e, d1) \<Rightarrow> (False, d1) | (Inr _, d1) \<Rightarrow> (True, d1))"

section \<open>The host\<close>

text \<open>
  What a run of the binary takes from its surroundings: environment, packages, randomness, clock, files
  (\<open>None\<close> for one that cannot be read), the tree under a path with the name of its root, the network, and
  the number formats of \<open>strconv\<close> and \<open>time\<close>.
\<close>

record 'k host =
  h_env :: env
  h_url :: url_parser
  h_drivers :: drivers
  h_random :: "string option"
  h_now :: instant
  h_pg :: pg
  h_rt :: runtime
  h_format_float :: "float64 \<Rightarrow> string"
  h_duration :: "string \<Rightarrow> duration option"
  h_files :: "string \<Rightarrow> string option"
  h_tree :: "string \<Rightarrow> string \<times> node"
  h_net :: "'k network"

datatype lint_problem = PlaintextProblem config_error | SecretProblem string

datatype cmd_error =
    BadFlags
  | Usage string
  | GenerateError
  | ConfigError config_error
  | MigrationError
  | VersionError
  | OpenError
  | PartitionError db_error
  | FCMError source_error
  | UnknownProvider string
  | StoreError store_error
  | NoSuch string
  | ScanFailed scan_error
  | LintProblems "lint_problem list"
  | UnknownCommand string
  | ListenError
  | ShutdownError

type_synonym printed = "(cmd_error + string list) \<times> db"

definition openForCommand :: "'k host \<Rightarrow> db \<Rightarrow> cmd_error option \<times> db" where
  "openForCommand h d =
     (case Load (h_url h) (h_env h) of
        Inl e \<Rightarrow> (Some (ConfigError e), d)
      | Inr cfg \<Rightarrow>
          (case Up (h_drivers h) (DatabaseURL cfg) d of
             (False, d1) \<Rightarrow> (Some MigrationError, d1)
           | (True, d1) \<Rightarrow>
               (case Open (h_drivers h) (DatabaseURL cfg) d1 of
                  (False, d2) \<Rightarrow> (Some OpenError, d2)
                | (True, d2) \<Rightarrow> (None, d2))))"

section \<open>Flags\<close>

text \<open>
  \<open>flag.FlagSet.Parse\<close> for flags that take a value: one or two dashes, the value after \<open>=\<close> or in the
  next argument, parsing stops at the first argument that is not a flag or at \<open>--\<close>. An unknown flag,
  a missing value and a value the flag refuses are errors, and so is a request for help.
\<close>

fun cut_eq :: "string \<Rightarrow> string \<times> string option" where
  "cut_eq [] = ([], None)"
| "cut_eq (c # s) = (if c = CHR ''='' then ([], Some s) else case cut_eq s of (n, v) \<Rightarrow> (c # n, v))"

type_synonym 'a flags = "string \<Rightarrow> (string \<Rightarrow> 'a \<Rightarrow> 'a option) option"

fun parse_flags :: "'a flags \<Rightarrow> string list \<Rightarrow> 'a \<Rightarrow> 'a option" where
  "parse_flags fl [] r = Some r"
| "parse_flags fl (s # args) r =
     (if length s < 2 \<or> hd s \<noteq> CHR ''-'' then Some r
      else if s = ''--'' then Some r
      else let name0 = drop (if s ! 1 = CHR ''-'' then 2 else 1) s
           in if hd name0 = CHR ''-'' \<or> hd name0 = CHR ''='' then None
              else case fl (fst (cut_eq name0)) of
                     None \<Rightarrow> None
                   | Some put \<Rightarrow>
                       (case snd (cut_eq name0) of
                          Some v \<Rightarrow> (case put v r of None \<Rightarrow> None | Some r' \<Rightarrow> parse_flags fl args r')
                        | None \<Rightarrow>
                            (case args of
                               [] \<Rightarrow> None
                             | v # args' \<Rightarrow> (case put v r of None \<Rightarrow> None | Some r' \<Rightarrow> parse_flags fl args' r'))))"

text \<open>The values of the flags of every command; a command registers the ones it has.\<close>

record flag_values =
  fv_family :: string
  fv_name :: string
  fv_email :: string
  fv_id :: string
  fv_repo :: string
  fv_ttl :: duration
  fv_points :: "Point list"

definition no_flags :: flag_values where
  "no_flags = \<lparr>fv_family = [], fv_name = [], fv_email = [], fv_id = [], fv_repo = ''.'', fv_ttl = 0, fv_points = []\<rparr>"

definition string_flag :: "string \<Rightarrow> string \<Rightarrow> flag_values \<Rightarrow> flag_values option" where
  "string_flag name v r =
     (if name = ''family'' then Some (r\<lparr>fv_family := v\<rparr>)
      else if name = ''name'' then Some (r\<lparr>fv_name := v\<rparr>)
      else if name = ''email'' then Some (r\<lparr>fv_email := v\<rparr>)
      else if name = ''id'' then Some (r\<lparr>fv_id := v\<rparr>)
      else if name = ''repo'' then Some (r\<lparr>fv_repo := v\<rparr>)
      else None)"

fun cut_comma :: "string \<Rightarrow> (string \<times> string) option" where
  "cut_comma [] = None"
| "cut_comma (c # s) = (if c = CHR '','' then Some ([], s) else map_option (\<lambda>(a, b). (c # a, b)) (cut_comma s))"

definition pointRing_Set :: "'k host \<Rightarrow> string \<Rightarrow> flag_values \<Rightarrow> flag_values option" where
  "pointRing_Set h v r =
     (case cut_comma v of
        None \<Rightarrow> None
      | Some (lonStr, latStr) \<Rightarrow>
          (case parse_float (h_rt h) (TrimSpace lonStr) of
             None \<Rightarrow> None
           | Some lon \<Rightarrow>
               (case parse_float (h_rt h) (TrimSpace latStr) of
                  None \<Rightarrow> None
                | Some lat \<Rightarrow> Some (r\<lparr>fv_points := fv_points r @ [\<lparr>Pt_Lon = lon, Pt_Lat = lat\<rparr>]\<rparr>))))"

definition duration_flag :: "'k host \<Rightarrow> string \<Rightarrow> flag_values \<Rightarrow> flag_values option" where
  "duration_flag h v r = map_option (\<lambda>t. r\<lparr>fv_ttl := t\<rparr>) (h_duration h v)"

definition flag_set :: "'k host \<Rightarrow> string list \<Rightarrow> flag_values flags" where
  "flag_set h names name =
     (if name \<notin> set names then None
      else if name = ''point'' then Some (pointRing_Set h)
      else if name = ''ttl'' then Some (duration_flag h)
      else Some (string_flag name))"

text \<open>The dash of the source's texts, in UTF-8.\<close>

definition em_dash :: string where "em_dash = [CHR 0xE2, CHR 0x80, CHR 0x94]"

section \<open>Accounts\<close>

definition runCreateFamily :: "'k host \<Rightarrow> string list \<Rightarrow> db \<Rightarrow> printed" where
  "runCreateFamily h args d =
     (case parse_flags (flag_set h [''name'']) args no_flags of
        None \<Rightarrow> (Inl BadFlags, d)
      | Some fv \<Rightarrow>
          if fv_name fv = [] then (Inl (Usage ''create-family needs -name''), d)
          else case openForCommand h d of
                 (Some e, d1) \<Rightarrow> (Inl e, d1)
               | (None, d1) \<Rightarrow>
                   (case CreateFamily (fv_name fv) d1 of
                      (Inl e, d2) \<Rightarrow> (Inl (StoreError e), d2)
                    | (Inr i, d2) \<Rightarrow> (Inr [''family created'', ''  id:   '' @ i, ''  name: '' @ fv_name fv], d2)))"

definition token_notice :: string where
  "token_notice = ''bearer token (store it now '' @ em_dash @ '' it is not recoverable):''"

definition runEnroll :: "'k host \<Rightarrow> string list \<Rightarrow> db \<Rightarrow> printed" where
  "runEnroll h args d =
     (case parse_flags (flag_set h [''family'', ''name'']) args no_flags of
        None \<Rightarrow> (Inl BadFlags, d)
      | Some fv \<Rightarrow>
          if fv_family fv = [] \<or> fv_name fv = [] then (Inl (Usage ''enroll needs -family and -name''), d)
          else case Generate (h_random h) of
                 Inl _ \<Rightarrow> (Inl GenerateError, d)
               | Inr token \<Rightarrow>
                   (case openForCommand h d of
                      (Some e, d1) \<Rightarrow> (Inl e, d1)
                    | (None, d1) \<Rightarrow>
                        (case CreateDevice (h_pg h) (fv_family fv) (fv_name fv) (Token_Hash token) d1 of
                           (Inl e, d2) \<Rightarrow> (Inl (StoreError e), d2)
                         | (Inr deviceID, d2) \<Rightarrow>
                             (Inr [''device enrolled'', ''  id:     '' @ deviceID, ''  family: '' @ fv_family fv,
                                ''  name:   '' @ fv_name fv, [], token_notice, ''  '' @ token], d2))))"

definition runAddViewer :: "'k host \<Rightarrow> string list \<Rightarrow> db \<Rightarrow> printed" where
  "runAddViewer h args d =
     (case parse_flags (flag_set h [''family'', ''email'', ''name'']) args no_flags of
        None \<Rightarrow> (Inl BadFlags, d)
      | Some fv \<Rightarrow>
          if fv_family fv = [] \<or> fv_email fv = [] \<or> fv_name fv = []
          then (Inl (Usage ''add-viewer needs -family, -email, and -name''), d)
          else case Generate (h_random h) of
                 Inl _ \<Rightarrow> (Inl GenerateError, d)
               | Inr token \<Rightarrow>
                   (case openForCommand h d of
                      (Some e, d1) \<Rightarrow> (Inl e, d1)
                    | (None, d1) \<Rightarrow>
                        (case CreateViewer (h_pg h) (fv_family fv) (fv_email fv) (fv_name fv) (Token_Hash token) d1 of
                           (Inl e, d2) \<Rightarrow> (Inl (StoreError e), d2)
                         | (Inr viewerID, d2) \<Rightarrow>
                             (Inr [''viewer added'', ''  id:     '' @ viewerID, ''  family: '' @ fv_family fv,
                                ''  email:  '' @ fv_email fv, ''  name:   '' @ fv_name fv, [], token_notice, ''  '' @ token], d2))))"

definition expiryFromTTL :: "instant \<Rightarrow> duration \<Rightarrow> instant option" where
  "expiryFromTTL t ttl = (if ttl \<le> 0 then None else Some (t + ttl))"

definition expiryDescription :: "instant option \<Rightarrow> string" where
  "expiryDescription e = (case e of None \<Rightarrow> ''never'' | Some t \<Rightarrow> format_utc t)"

definition rotation_notice :: string where
  "rotation_notice = ''new bearer token (store it now '' @ em_dash @ '' it is not recoverable, and the previous token no longer works):''"

definition runRotateDeviceToken :: "'k host \<Rightarrow> string list \<Rightarrow> db \<Rightarrow> printed" where
  "runRotateDeviceToken h args d =
     (case parse_flags (flag_set h [''id'', ''ttl'']) args no_flags of
        None \<Rightarrow> (Inl BadFlags, d)
      | Some fv \<Rightarrow>
          if fv_id fv = [] then (Inl (Usage ''rotate-device-token needs -id''), d)
          else case Generate (h_random h) of
                 Inl _ \<Rightarrow> (Inl GenerateError, d)
               | Inr token \<Rightarrow>
                   (let expiresAt = expiryFromTTL (h_now h) (fv_ttl fv)
                    in case openForCommand h d of
                         (Some e, d1) \<Rightarrow> (Inl e, d1)
                       | (None, d1) \<Rightarrow>
                           (case RotateDeviceToken (h_pg h) (fv_id fv) (Token_Hash token) expiresAt d1 of
                              (Inl e, d2) \<Rightarrow> (Inl (StoreError e), d2)
                            | (Inr False, d2) \<Rightarrow> (Inl (NoSuch (''no device has id '' @ fv_id fv)), d2)
                            | (Inr True, d2) \<Rightarrow>
                                (Inr [''device token rotated'', ''  id:      '' @ fv_id fv, ''  expires: '' @ expiryDescription expiresAt,
                                   [], rotation_notice, ''  '' @ token], d2))))"

definition runRotateViewerToken :: "'k host \<Rightarrow> string list \<Rightarrow> db \<Rightarrow> printed" where
  "runRotateViewerToken h args d =
     (case parse_flags (flag_set h [''id'', ''ttl'']) args no_flags of
        None \<Rightarrow> (Inl BadFlags, d)
      | Some fv \<Rightarrow>
          if fv_id fv = [] then (Inl (Usage ''rotate-viewer-token needs -id''), d)
          else case Generate (h_random h) of
                 Inl _ \<Rightarrow> (Inl GenerateError, d)
               | Inr token \<Rightarrow>
                   (let expiresAt = expiryFromTTL (h_now h) (fv_ttl fv)
                    in case openForCommand h d of
                         (Some e, d1) \<Rightarrow> (Inl e, d1)
                       | (None, d1) \<Rightarrow>
                           (case RotateViewerToken (h_pg h) (fv_id fv) (Token_Hash token) expiresAt d1 of
                              (Inl e, d2) \<Rightarrow> (Inl (StoreError e), d2)
                            | (Inr False, d2) \<Rightarrow> (Inl (NoSuch (''no viewer has id '' @ fv_id fv)), d2)
                            | (Inr True, d2) \<Rightarrow>
                                (Inr [''viewer token rotated'', ''  id:      '' @ fv_id fv, ''  expires: '' @ expiryDescription expiresAt,
                                   [], rotation_notice, ''  '' @ token], d2))))"

section \<open>Places\<close>

definition runAddPlace :: "'k host \<Rightarrow> string list \<Rightarrow> db \<Rightarrow> printed" where
  "runAddPlace h args d =
     (case parse_flags (flag_set h [''family'', ''name'', ''point'']) args no_flags of
        None \<Rightarrow> (Inl BadFlags, d)
      | Some fv \<Rightarrow>
          if fv_family fv = [] \<or> fv_name fv = [] then (Inl (Usage ''add-place needs -family and -name''), d)
          else if length (fv_points fv) < 3
            then (Inl (Usage (''add-place needs at least 3 -point lon,lat vertices, got '' @ show_nat (length (fv_points fv)))), d)
          else case openForCommand h d of
                 (Some e, d1) \<Rightarrow> (Inl e, d1)
               | (None, d1) \<Rightarrow>
                   (case CreateGeofence (h_pg h) (h_format_float h) (fv_family fv) (fv_name fv) (fv_points fv) d1 of
                      (Inl e, d2) \<Rightarrow> (Inl (StoreError e), d2)
                    | (Inr i, d2) \<Rightarrow>
                        (Inr [''place created'', ''  id:     '' @ i, ''  family: '' @ fv_family fv, ''  name:   '' @ fv_name fv,
                           ''  points: '' @ show_nat (length (fv_points fv))], d2)))"

definition runListPlaces :: "'k host \<Rightarrow> string list \<Rightarrow> db \<Rightarrow> printed" where
  "runListPlaces h args d =
     (case parse_flags (flag_set h [''family'']) args no_flags of
        None \<Rightarrow> (Inl BadFlags, d)
      | Some fv \<Rightarrow>
          if fv_family fv = [] then (Inl (Usage ''list-places needs -family''), d)
          else case openForCommand h d of
                 (Some e, d1) \<Rightarrow> (Inl e, d1)
               | (None, d1) \<Rightarrow>
                   (case ListGeofences (h_pg h) (fv_family fv) d1 of
                      (Inl e, d2) \<Rightarrow> (Inl (StoreError e), d2)
                    | (Inr places, d2) \<Rightarrow>
                        if places = [] then (Inr [''no places for family '' @ fv_family fv], d2)
                        else (Inr ((''places for family '' @ fv_family fv @ '':'')
                               # map (\<lambda>p. ''  '' @ GD_ID p @ ''  '' @ GD_Name p) places), d2)))"

definition runRemovePlace :: "'k host \<Rightarrow> string list \<Rightarrow> db \<Rightarrow> printed" where
  "runRemovePlace h args d =
     (case parse_flags (flag_set h [''family'', ''id'']) args no_flags of
        None \<Rightarrow> (Inl BadFlags, d)
      | Some fv \<Rightarrow>
          if fv_family fv = [] \<or> fv_id fv = [] then (Inl (Usage ''remove-place needs -family and -id''), d)
          else case openForCommand h d of
                 (Some e, d1) \<Rightarrow> (Inl e, d1)
               | (None, d1) \<Rightarrow>
                   (case DeleteGeofence (h_pg h) (fv_family fv) (fv_id fv) d1 of
                      (Inl e, d2) \<Rightarrow> (Inl (StoreError e), d2)
                    | (Inr False, d2) \<Rightarrow> (Inl (NoSuch (''no place '' @ fv_id fv @ '' in family '' @ fv_family fv)), d2)
                    | (Inr True, d2) \<Rightarrow> (Inr [''place removed'', ''  id:     '' @ fv_id fv, ''  family: '' @ fv_family fv], d2)))"

section \<open>The lint\<close>

definition runConfigLint :: "'k host \<Rightarrow> string list \<Rightarrow> cmd_error + string list" where
  "runConfigLint h args =
     (case parse_flags (flag_set h [''repo'']) args no_flags of
        None \<Rightarrow> Inl BadFlags
      | Some fv \<Rightarrow>
          (let tls = (case LintTLS (h_env h (EnvPrefix @ ''TLS_CERT_FILE'')) (h_env h (EnvPrefix @ ''TLS_KEY_FILE'')) of
                        None \<Rightarrow> [] | Some e \<Rightarrow> [PlaintextProblem e])
           in case (case h_tree h (fv_repo fv) of (rootName, tree) \<Rightarrow> Scan rootName tree) of
                Inl e \<Rightarrow> Inl (ScanFailed e)
              | Inr findings \<Rightarrow>
                  (let problems = tls @ map (\<lambda>f. SecretProblem (''checked-in secret: '' @ Finding_String f)) findings
                   in if problems \<noteq> [] then Inl (LintProblems problems)
                      else Inr [''config-lint: OK '' @ em_dash @ '' TLS enforced and no checked-in secrets found''])))"


section \<open>Serving\<close>

datatype slog_level = LevelDebug | LevelInfo | LevelWarn | LevelError

definition newLogger :: "string \<Rightarrow> slog_level" where
  "newLogger level =
     (if level = ''debug'' then LevelDebug else if level = ''warn'' then LevelWarn
      else if level = ''error'' then LevelError else LevelInfo)"

text \<open>The notifier for the handlers with the dispatcher it owns; \<open>None\<close> when push is disabled.\<close>

definition buildPushNotifier :: "'k host \<Rightarrow> Config \<Rightarrow> cmd_error + (dispatcher notifier \<times> dispatcher) option" where
  "buildPushNotifier h cfg =
     (let started = (\<lambda>snd. Some (EventNotifier (h_pg h), NewDispatcher [PushProvider cfg \<mapsto> snd] []))
      in if PushProvider cfg = PushProviderNone then Inr None
         else if PushProvider cfg = PushProviderFCM then
           (case NewServiceAccountTokenSourceFromFile (h_net h) (h_files h) (FCMCredentialsFile cfg) of
              Inl e \<Rightarrow> Inl (FCMError e)
            | Inr ts \<Rightarrow> Inr (started (fcm_sender (h_net h) (NewFCMSender (FCMProjectID cfg) (ServiceAccount ts)))))
         else if PushProvider cfg = PushProviderUnifiedPush then Inr (started (unifiedpush_sender (h_net h)))
         else Inl (UnknownProvider (PushProvider cfg)))"

definition partitionLookaheadMonths :: int where "partitionLookaheadMonths = 2"

text \<open>What is running once the server listens.\<close>

record served =
  sv_config :: Config
  sv_logger :: slog_level
  sv_version :: int
  sv_partitions :: "string list"
  sv_push :: "(dispatcher notifier \<times> dispatcher) option"
  sv_job :: "Job option"
  sv_handler :: "instant \<Rightarrow> route \<Rightarrow> request \<Rightarrow> db \<times> dispatcher \<Rightarrow> response \<times> db \<times> dispatcher"
  sv_tls :: bool

definition runServe :: "'k host \<Rightarrow> db \<Rightarrow> (cmd_error + served) \<times> db" where
  "runServe h d =
     (case Load (h_url h) (h_env h) of
        Inl e \<Rightarrow> (Inl (ConfigError e), d)
      | Inr cfg \<Rightarrow>
          (case RequireServable cfg of
             Some e \<Rightarrow> (Inl (ConfigError e), d)
           | None \<Rightarrow>
               (case Up (h_drivers h) (DatabaseURL cfg) d of
                  (False, d1) \<Rightarrow> (Inl MigrationError, d1)
                | (True, d1) \<Rightarrow>
                    (case Version (h_drivers h) (DatabaseURL cfg) d1 of
                       None \<Rightarrow> (Inl VersionError, d1)
                     | Some version \<Rightarrow>
                         (case Open (h_drivers h) (DatabaseURL cfg) d1 of
                            (False, d2) \<Rightarrow> (Inl OpenError, d2)
                          | (True, d2) \<Rightarrow>
                              (case EnsurePartitions (h_now h) partitionLookaheadMonths d2 of
                                 (Inl e, d3) \<Rightarrow> (Inl (PartitionError e), d3)
                               | (Inr names, d3) \<Rightarrow>
                                   (case buildPushNotifier h cfg of
                                      Inl e \<Rightarrow> (Inl e, d3)
                                    | Inr ntf \<Rightarrow>
                                        (Inr \<lparr>sv_config = cfg, sv_logger = newLogger (LogLevel cfg), sv_version = version,
                                           sv_partitions = names, sv_push = ntf, sv_job = startRetention (RetentionDays cfg),
                                           sv_handler = New (h_pg h) (h_rt h) (map_option fst ntf)
                                             \<lparr>LiveSeconds = LiveWindowSeconds cfg, StaleSeconds = StaleWindowSeconds cfg\<rparr>
                                             [WithConfiguredPushProvider (PushProvider cfg)],
                                           sv_tls = ServesTLS cfg\<rparr>, d3))))))))"

text \<open>
  How serving ends: the listener fails, the listener was closed, or a signal arrives and \<open>Shutdown\<close> does
  or does not finish in time. The deferred closer drains the dispatcher in every case.
\<close>

datatype stop = ListenerFailed | ListenerClosed | Signalled bool

definition stopServing :: "stop \<Rightarrow> dispatcher option \<Rightarrow> cmd_error option \<times> dispatcher option" where
  "stopServing s D =
     (case s of ListenerFailed \<Rightarrow> Some ListenError | ListenerClosed \<Rightarrow> None | Signalled ok \<Rightarrow> if ok then None else Some ShutdownError,
      map_option Close D)"

datatype outcome = Listening served | Printed "string list"

definition printed_outcome :: "printed \<Rightarrow> (cmd_error + outcome) \<times> db" where
  "printed_outcome r = (case r of (Inl e, d) \<Rightarrow> (Inl e, d) | (Inr ls, d) \<Rightarrow> (Inr (Printed ls), d))"

definition main :: "'k host \<Rightarrow> string list \<Rightarrow> db \<Rightarrow> (cmd_error + outcome) \<times> db" where
  "main h argv d =
     (case (case argv of a # as \<Rightarrow> if a \<noteq> [] \<and> hd a \<noteq> CHR ''-'' then (a, as) else (''serve'', argv) | [] \<Rightarrow> (''serve'', [])) of
        (sub, args) \<Rightarrow>
          if sub = ''serve'' then (case runServe h d of (Inl e, d1) \<Rightarrow> (Inl e, d1) | (Inr sv, d1) \<Rightarrow> (Inr (Listening sv), d1))
          else if sub = ''create-family'' then printed_outcome (runCreateFamily h args d)
          else if sub = ''enroll'' then printed_outcome (runEnroll h args d)
          else if sub = ''add-viewer'' then printed_outcome (runAddViewer h args d)
          else if sub = ''add-place'' then printed_outcome (runAddPlace h args d)
          else if sub = ''list-places'' then printed_outcome (runListPlaces h args d)
          else if sub = ''remove-place'' then printed_outcome (runRemovePlace h args d)
          else if sub = ''rotate-device-token'' then printed_outcome (runRotateDeviceToken h args d)
          else if sub = ''rotate-viewer-token'' then printed_outcome (runRotateViewerToken h args d)
          else if sub = ''config-lint'' then printed_outcome (runConfigLint h args, d)
          else (Inl (UnknownCommand sub), d))"


section \<open>Lemmas on the commands\<close>

text \<open>What \<open>goose\<close> promises of a migration: the accounts and the partitions that are there stay well-formed.\<close>

definition migrations_keep :: "pg \<Rightarrow> drivers \<Rightarrow> bool" where
  "migrations_keep pg dv \<longleftrightarrow>
     (\<forall>d. (accounts_ok pg d \<longrightarrow> accounts_ok pg (snd (goose_up dv d))) \<and> (parts_ok d \<longrightarrow> parts_ok (snd (goose_up dv d))))"

interpretation ping_query: query ping
  by unfold_locales (simp add: ping_def)

lemma Open_reads: "Open dv dsn d = (b, d') \<Longrightarrow> \<exists>fs. d' = d\<lparr>faults := fs\<rparr>"
  using ping_query.run_reads [of d] same_faults [of d]
  by (auto simp: Open_def split: if_splits prod.splits sum.splits)

lemma Up_True: "Up dv dsn d = (True, d') \<Longrightarrow> d' = snd (goose_up dv d)"
  by (auto simp: Up_def split: if_splits)

lemma openForCommand_ok:
  assumes "openForCommand h d = (None, d')"
  shows "\<exists>fs. d' = (snd (goose_up (h_drivers h) d))\<lparr>faults := fs\<rparr>"
  using assms Up_True Open_reads by (fastforce simp: openForCommand_def split: sum.splits prod.splits bool.splits)

lemma openForCommand_config:
  "openForCommand h d = (Some (ConfigError e), d') \<Longrightarrow> d' = d"
  by (auto simp: openForCommand_def split: sum.splits prod.splits bool.splits)

text \<open>The errors that end a command before it opens the database.\<close>

fun early :: "cmd_error \<Rightarrow> bool" where
  "early BadFlags \<longleftrightarrow> True"
| "early (Usage _) \<longleftrightarrow> True"
| "early GenerateError \<longleftrightarrow> True"
| "early (ConfigError _) \<longleftrightarrow> True"
| "early (ScanFailed _) \<longleftrightarrow> True"
| "early (LintProblems _) \<longleftrightarrow> True"
| "early (UnknownCommand _) \<longleftrightarrow> True"
| "early _ \<longleftrightarrow> False"

lemma openForCommand_early: "openForCommand h d = (Some e, d') \<Longrightarrow> early e \<Longrightarrow> d' = d"
  by (auto simp: openForCommand_def split: sum.splits prod.splits bool.splits)

lemmas command_splits = option.splits if_splits sum.splits prod.splits bool.splits

lemma accounts_early:
  "runCreateFamily h args d = (Inl e, d') \<Longrightarrow> early e \<Longrightarrow> d' = d"
  "runEnroll h args d = (Inl e, d') \<Longrightarrow> early e \<Longrightarrow> d' = d"
  "runAddViewer h args d = (Inl e, d') \<Longrightarrow> early e \<Longrightarrow> d' = d"
  "runRotateDeviceToken h args d = (Inl e, d') \<Longrightarrow> early e \<Longrightarrow> d' = d"
  "runRotateViewerToken h args d = (Inl e, d') \<Longrightarrow> early e \<Longrightarrow> d' = d"
  by (auto simp: runCreateFamily_def runEnroll_def runAddViewer_def runRotateDeviceToken_def runRotateViewerToken_def Let_def
      dest: openForCommand_early split: command_splits)

lemma places_early:
  "runAddPlace h args d = (Inl e, d') \<Longrightarrow> early e \<Longrightarrow> d' = d"
  "runListPlaces h args d = (Inl e, d') \<Longrightarrow> early e \<Longrightarrow> d' = d"
  "runRemovePlace h args d = (Inl e, d') \<Longrightarrow> early e \<Longrightarrow> d' = d"
  by (auto simp: runAddPlace_def runListPlaces_def runRemovePlace_def dest: openForCommand_early split: command_splits)

lemma buildPushNotifier_late: "buildPushNotifier h cfg = Inl e \<Longrightarrow> \<not> early e"
  by (auto simp: buildPushNotifier_def Let_def split: if_splits sum.splits)

lemma serve_early: "runServe h d = (Inl e, d') \<Longrightarrow> early e \<Longrightarrow> d' = d"
  by (auto simp: runServe_def dest: buildPushNotifier_late split: command_splits)


section \<open>Properties\<close>

text \<open>
  A command that is refused changes nothing. When the binary ends with an error of its flags, of a
  missing argument, of the configuration, of the random source, of the lint or with an unknown command,
  the database is untouched: not even the migrations ran.
\<close>

theorem refused_changes_nothing:
  assumes "main h argv d = (Inl e, d')" "early e"
  shows "d' = d"
proof -
  obtain sub args where s: "(case argv of a # as \<Rightarrow> if a \<noteq> [] \<and> hd a \<noteq> CHR ''-'' then (a, as) else (''serve'', argv)
      | [] \<Rightarrow> (''serve'', [])) = (sub, args)" by fastforce
  have p: "d' = d" if "printed_outcome r = (Inl e, d')" "\<And>e d'. r = (Inl e, d') \<Longrightarrow> early e \<Longrightarrow> d' = d" for r
    using that assms(2) by (auto simp: printed_outcome_def split: prod.splits sum.splits)
  note m = assms(1) [unfolded main_def s prod.case]
  show ?thesis
    using m accounts_early places_early serve_early assms(2)
    by (auto split: if_splits prod.splits sum.splits elim!: p)
qed


text \<open>A host on which the commands run: the sample environment, a database that is migrated already.\<close>

definition sample_drivers :: drivers where
  "sample_drivers = \<lparr>goose_dialect = True, sql_open = (\<lambda>_. True), goose_up = (\<lambda>d. (True, d)), goose_down = (\<lambda>_ d. (True, d)),
     goose_version = (\<lambda>_. Some 9), pgxpool_new = (\<lambda>_. True)\<rparr>"

definition sample_host :: "unit host" where
  "sample_host = \<lparr>h_env = tls_env, h_url = sample_parser, h_drivers = sample_drivers, h_random = Some (replicate 32 (CHR ''r'')),
     h_now = 0, h_pg = sample_pg, h_rt = sample_rt, h_format_float = (\<lambda>_. ''0''), h_duration = (\<lambda>_. None), h_files = (\<lambda>_. None),
     h_tree = (\<lambda>_. (''.'', Directory (Some []))), h_net = sample_network\<rparr>"

lemma sample_migrations: "migrations_keep pg sample_drivers"
  by (simp add: migrations_keep_def sample_drivers_def)

lemma sample_opens: "Up sample_drivers dsn d = (True, d)" "Version sample_drivers dsn d = Some 9"
  "faults d = [] \<Longrightarrow> Open sample_drivers dsn d = (True, d)"
  by (simp_all add: Up_def Version_def Open_def openForMigration_def sample_drivers_def run_clean ping_def)

lemma sample_config: "\<exists>cfg. Load sample_parser tls_env = Inr cfg \<and> RequireServable cfg = None \<and> PushProvider cfg = []
  \<and> \<not> AllowPlaintext cfg"
proof -
  have "case Load sample_parser tls_env of Inl e \<Rightarrow> False | Inr c \<Rightarrow> RequireServable c = None \<and> PushProvider c = []
    \<and> \<not> AllowPlaintext c" by code_simp
  then show ?thesis by (auto split: sum.splits)
qed

theorem refused_changes_nothing_witness:
  "fst (main sample_host [''enroll'', ''-name'', ''phone''] empty_db) = Inl (Usage ''enroll needs -family and -name'')
   \<and> snd (main sample_host [''enroll'', ''-name'', ''phone''] empty_db) = empty_db"
proof -
  obtain r d' where m: "main sample_host [''enroll'', ''-name'', ''phone''] empty_db = (r, d')" by fastforce
  have f: "parse_flags (flag_set sample_host [''family'', ''name'']) [''-name'', ''phone''] no_flags = Some (no_flags\<lparr>fv_name := ''phone''\<rparr>)"
    by (simp add: flag_set_def string_flag_def)
  have r: "r = Inl (Usage ''enroll needs -family and -name'')"
    using m f by (auto simp: main_def runEnroll_def no_flags_def printed_outcome_def)
  show ?thesis using refused_changes_nothing [OF m [unfolded r]] m r by simp
qed

lemma buildPushNotifier_ok:
  "buildPushNotifier h cfg = Inr ntf \<Longrightarrow>
     (case ntf of None \<Rightarrow> PushProvider cfg = [] | Some (N, D) \<Rightarrow> PushProvider cfg \<noteq> [] \<and> dom (senders D) = {PushProvider cfg})"
  by (auto simp: buildPushNotifier_def Let_def push_provider_defs NewDispatcher_def split: if_splits sum.splits)

lemma serve_steps:
  assumes "runServe h d = (Inr sv, d')"
  obtains fs where "Load (h_url h) (h_env h) = Inr (sv_config sv)" "RequireServable (sv_config sv) = None"
    "EnsurePartitions (h_now h) 2 ((snd (goose_up (h_drivers h) d))\<lparr>faults := fs\<rparr>) = (Inr (sv_partitions sv), d')"
    "buildPushNotifier h (sv_config sv) = Inr (sv_push sv)" "sv_job sv = startRetention (RetentionDays (sv_config sv))"
    "sv_tls sv = ServesTLS (sv_config sv)"
proof -
  obtain cfg version d1 d2 names ntf where s: "Load (h_url h) (h_env h) = Inr cfg" "RequireServable cfg = None"
    "Up (h_drivers h) (DatabaseURL cfg) d = (True, d1)" "Open (h_drivers h) (DatabaseURL cfg) d1 = (True, d2)"
    "EnsurePartitions (h_now h) 2 d2 = (Inr names, d')" "buildPushNotifier h cfg = Inr ntf"
    "sv_config sv = cfg" "sv_partitions sv = names" "sv_push sv = ntf" "sv_job sv = startRetention (RetentionDays cfg)"
    "sv_tls sv = ServesTLS cfg"
    using assms by (auto simp: runServe_def partitionLookaheadMonths_def split: command_splits)
  obtain fs where "d2 = (snd (goose_up (h_drivers h) d))\<lparr>faults := fs\<rparr>" using Up_True [OF s(3)] Open_reads [OF s(4)] by auto
  then show ?thesis using that s by metis
qed

text \<open>
  C10: The server listens only when it is ready. If \<open>runServe\<close> gets to the listener, the configuration has
  passed every rule, the endpoint is TLS or plaintext was asked for, every instant of this month and of
  the next one has a partition of its own month, push is running exactly when a backend is configured and
  then sends through that backend only, and the purge runs exactly when a retention is set.
\<close>

theorem serve_ready:
  assumes "runServe h d = (Inr sv, d')" "parts_ok d" "migrations_keep (h_pg h) (h_drivers h)"
  shows "config_ok (h_url h) (sv_config sv) \<and> (sv_tls sv \<or> AllowPlaintext (sv_config sv))
    \<and> (\<forall>t. month_of (h_now h) \<le> month_of t \<and> month_of t \<le> month_of (h_now h) + 1 \<longrightarrow>
         (\<exists>p. route d' t = Some p \<and> pt_bound p = Range (Some (month_begin (month_of t))) (Some (month_begin (month_of t + 1)))))
    \<and> (case sv_push sv of
         None \<Rightarrow> PushProvider (sv_config sv) = []
       | Some (N, D) \<Rightarrow> PushProvider (sv_config sv) \<noteq> [] \<and> dom (senders D) = {PushProvider (sv_config sv)})
    \<and> (sv_job sv \<noteq> None \<longleftrightarrow> 0 < RetentionDays (sv_config sv))"
proof -
  obtain fs where s: "Load (h_url h) (h_env h) = Inr (sv_config sv)" "RequireServable (sv_config sv) = None"
    "EnsurePartitions (h_now h) 2 ((snd (goose_up (h_drivers h) d))\<lparr>faults := fs\<rparr>) = (Inr (sv_partitions sv), d')"
    "buildPushNotifier h (sv_config sv) = Inr (sv_push sv)" "sv_job sv = startRetention (RetentionDays (sv_config sv))"
    "sv_tls sv = ServesTLS (sv_config sv)" using assms(1) by (rule serve_steps)
  have "parts_ok ((snd (goose_up (h_drivers h) d))\<lparr>faults := fs\<rparr>)"
    using assms(2,3) by (simp add: migrations_keep_def)
  then have "\<exists>p. route d' t = Some p \<and> pt_bound p = Range (Some (month_begin (month_of t))) (Some (month_begin (month_of t + 1)))"
    if "month_of (h_now h) \<le> month_of t" "month_of t \<le> month_of (h_now h) + 1" for t
    using EnsurePartitions_lookahead [OF _ s(3) that(1)] that(2) by simp
  moreover have "sv_tls sv \<or> AllowPlaintext (sv_config sv)" using s(2,6) by (auto simp: RequireServable_def split: if_splits)
  moreover note buildPushNotifier_ok [OF s(4)]
  ultimately show ?thesis using Load_sound [OF s(1)] s(5) by (auto simp: startRetention_def)
qed

theorem serve_ready_witness:
  "\<exists>sv d'. runServe sample_host empty_db = (Inr sv, d') \<and> sv_tls sv \<and> sv_push sv = None
    \<and> (\<exists>p. route d' 0 = Some p \<and> pt_bound p = Range (Some (month_begin (month_of 0))) (Some (month_begin (month_of 0 + 1))))"
proof -
  obtain cfg where c: "Load sample_parser tls_env = Inr cfg" "RequireServable cfg = None" "PushProvider cfg = []"
    "\<not> AllowPlaintext cfg" using sample_config by blast
  have "fst (EnsurePartitions 0 2 empty_db) = Inr [''fixes_1970_01'', ''fixes_1970_02'']" by code_simp
  then obtain d' where e: "EnsurePartitions 0 2 empty_db = (Inr [''fixes_1970_01'', ''fixes_1970_02''], d')" by (metis surjective_pairing)
  have "buildPushNotifier sample_host cfg = Inr None" using c(3) by (simp add: buildPushNotifier_def push_provider_defs)
  moreover have "Open sample_drivers dsn empty_db = (True, empty_db)" for dsn by (rule sample_opens(3)) (simp add: empty_db_def)
  ultimately have r: "fst (runServe sample_host empty_db) \<in> range Inr" "snd (runServe sample_host empty_db) = d'"
    using c e by (auto simp: runServe_def sample_opens partitionLookaheadMonths_def sample_host_def)
  then obtain sv where sv: "runServe sample_host empty_db = (Inr sv, d')" by (metis imageE surjective_pairing)
  have "Load sample_parser tls_env = Inr (sv_config sv)" using sv by (rule serve_steps) (simp add: sample_host_def)
  then have cfg: "sv_config sv = cfg" using c(1) by simp
  note c(4)
  moreover have "migrations_keep (h_pg sample_host) (h_drivers sample_host)" by (simp add: sample_host_def sample_migrations)
  note serve_ready [OF sv empty_db_ok(1) this]
  ultimately have "sv_tls sv" "sv_push sv = None"
    "\<exists>p. route d' 0 = Some p \<and> pt_bound p = Range (Some (month_begin (month_of 0))) (Some (month_begin (month_of 0 + 1)))"
    using cfg c(3) by (auto simp: sample_host_def split: option.splits)
  then show ?thesis using sv by blast
qed

end
