(* ===== verification/VulnGate.thy ===== *)
theory VulnGate
  imports Regex Requests
begin

text \<open>
  The vulnerability gate of the build, \<open>internal/vulngate\<close>: the report of \<open>govulncheck\<close> read from its JSON
  stream (\<open>report.go\<close>), the recorded suppressions (\<open>suppressions.go\<close>), the runner and the verdict
  (\<open>runner.go\<close>, \<open>gate.go\<close>). The lemmas show that reading the report keeps the deepest level and any fix
  that was reported, and what a green gate means. YAML, the file system and the processes are parameters.
\<close>

section \<open>Suppressions\<close>

definition SuppressionsFile :: string where "SuppressionsFile = ''.govulncheck-suppressions.yaml''"

definition reAdvisoryID :: rx where
  "reAdvisoryID = Seq [Bol, Lit ''GO-'', Times 4 (Cls is_digit), Lit ''-'', Many1 (Cls is_digit), Eol]"

definition requiredKeys :: "string list" where
  "requiredKeys = [''id'', ''reason'', ''reachability'', ''recorded'']"

record Entry =
  Entry_ID :: string
  Reason :: string
  Reachability :: string
  Recorded :: string

text \<open>
  A node of the YAML sequence: its line, whether it is a mapping, and what decoding it into a map of
  strings gives, with every key once, or an error.
\<close>

record yaml_node =
  node_line :: nat
  node_mapping :: bool
  node_fields :: "(string \<times> string) list option"

datatype record_problem =
    NotAMapping nat
  | Undecodable nat
  | MissingKeys nat "string list"
  | EmptyKeys nat "string list"
  | UnknownKeys nat "string list"
  | BadID nat string
  | BadDate nat string
  | Duplicate nat nat

text \<open>\<open>time.Parse("2006-01-02", s)\<close>: four, two and two digits, a month of the year and a day of the month.\<close>

definition digits :: "string \<Rightarrow> int" where "digits s = foldl (\<lambda>n c. n * 10 + (of_char c - 48)) 0 s"

definition iso_date :: "string \<Rightarrow> bool" where
  "iso_date s \<longleftrightarrow>
     length s = 10 \<and> s ! 4 = CHR ''-'' \<and> s ! 7 = CHR ''-''
     \<and> list_all is_digit (take 4 s @ take 2 (drop 5 s) @ drop 8 s)
     \<and> (let y = digits (take 4 s); m = digits (take 2 (drop 5 s)); dd = digits (drop 8 s); k = y * 12 + m - 1
        in 1 \<le> m \<and> m \<le> 12 \<and> 1 \<le> dd \<and> dd \<le> month_begin_day (k + 1) - month_begin_day k)"

definition isRequiredKey :: "string \<Rightarrow> bool" where "isRequiredKey key \<longleftrightarrow> key \<in> set requiredKeys"

text \<open>\<open>sorted\<close>: insertion sort from the left, each key moved down while it is smaller.\<close>

fun sink :: "string \<Rightarrow> string list \<Rightarrow> string list" where
  "sink x [] = [x]"
| "sink x (y # ys) = (if x < y then y # sink x ys else x # y # ys)"

definition sorted_keys :: "string list \<Rightarrow> string list" where
  "sorted_keys xs = rev (foldl (\<lambda>acc x. sink x acc) [] xs)"

definition field_of :: "(string \<times> string) list \<Rightarrow> string \<Rightarrow> string" where
  "field_of kvs key = TrimSpace (case map_of kvs key of None \<Rightarrow> [] | Some v \<Rightarrow> v)"

text \<open>
  One entry of the loop: the problems it adds, and the entry when it has none of its own. The last
  argument is the number of the entry that had the id first.
\<close>

definition parse_entry :: "nat \<Rightarrow> yaml_node \<Rightarrow> (string \<rightharpoonup> nat) \<Rightarrow> record_problem list \<times> Entry option \<times> (string \<rightharpoonup> nat)" where
  "parse_entry i node seen =
     (if \<not> node_mapping node then ([NotAMapping i], None, seen)
      else case node_fields node of
        None \<Rightarrow> ([Undecodable i], None, seen)
      | Some kvs \<Rightarrow>
          (let missing = filter (\<lambda>k. map_of kvs k = None) requiredKeys;
               empty = filter (\<lambda>k. case map_of kvs k of None \<Rightarrow> False | Some v \<Rightarrow> TrimSpace v = []) requiredKeys;
               unknown = filter (\<lambda>k. \<not> isRequiredKey k) (map fst kvs);
               i_d = field_of kvs ''id'';
               recorded = field_of kvs ''recorded'';
               problems =
                 (if missing \<noteq> [] then [MissingKeys i (sorted_keys missing)] else [])
                 @ (if empty \<noteq> [] then [EmptyKeys i (sorted_keys empty)] else [])
                 @ (if unknown \<noteq> [] then [UnknownKeys i (sorted_keys unknown)] else [])
                 @ (if i_d \<noteq> [] \<and> \<not> MatchString reAdvisoryID i_d then [BadID i i_d] else [])
                 @ (if recorded \<noteq> [] \<and> \<not> iso_date recorded then [BadDate i recorded] else [])
                 @ (if i_d \<noteq> [] then (case seen i_d of Some first \<Rightarrow> [Duplicate i first] | None \<Rightarrow> []) else []);
               seen' = (if i_d \<noteq> [] \<and> seen i_d = None then seen(i_d \<mapsto> i) else seen)
           in (problems,
               if problems = []
               then Some \<lparr>Entry_ID = i_d, Reason = field_of kvs ''reason'', Reachability = field_of kvs ''reachability'',
                      Recorded = recorded\<rparr>
               else None,
               seen')))"

fun parse_entries :: "nat \<Rightarrow> yaml_node list \<Rightarrow> (string \<rightharpoonup> nat) \<Rightarrow> record_problem list \<times> Entry list" where
  "parse_entries i [] seen = ([], [])"
| "parse_entries i (node # nodes) seen =
     (case parse_entry (Suc i) node seen of
        (ps, e, seen') \<Rightarrow>
          (case parse_entries (Suc i) nodes seen' of
             (qs, es) \<Rightarrow> (ps @ qs, (case e of None \<Rightarrow> es | Some x \<Rightarrow> x # es))))"

datatype suppression_error = Unreadable | NotASequence | Malformed "record_problem list"

definition ParseSuppressions :: "(string \<Rightarrow> yaml_node list option) \<Rightarrow> string \<Rightarrow> suppression_error + Entry list" where
  "ParseSuppressions yaml data =
     (case yaml data of
        None \<Rightarrow> Inl NotASequence
      | Some nodes \<Rightarrow>
          if nodes = [] then Inr []
          else case parse_entries 0 nodes Map.empty of
                 (problems, entries) \<Rightarrow> if problems \<noteq> [] then Inl (Malformed problems) else Inr entries)"

datatype file_read = Absent | ReadError | Contents string

definition LoadSuppressions :: "(string \<Rightarrow> yaml_node list option) \<Rightarrow> file_read \<Rightarrow> suppression_error + Entry list" where
  "LoadSuppressions yaml f =
     (case f of Absent \<Rightarrow> Inr [] | ReadError \<Rightarrow> Inl Unreadable | Contents data \<Rightarrow> ParseSuppressions yaml data)"

section \<open>The report\<close>

definition scannerName :: string where "scannerName = ''govulncheck''"
definition wantScanLevel :: string where "wantScanLevel = ''symbol''"
definition wantScanMode :: string where "wantScanMode = ''source''"

datatype Level = LevelModule | LevelPackage | LevelSymbol

fun level_rank :: "Level \<Rightarrow> nat" where
  "level_rank LevelModule = 0" | "level_rank LevelPackage = 1" | "level_rank LevelSymbol = 2"

instantiation Level :: linorder
begin

definition less_eq_Level :: "Level \<Rightarrow> Level \<Rightarrow> bool" where "less_eq_Level a b \<longleftrightarrow> level_rank a \<le> level_rank b"
definition less_Level :: "Level \<Rightarrow> Level \<Rightarrow> bool" where "less_Level a b \<longleftrightarrow> level_rank a < level_rank b"

instance
proof
  fix a b :: Level
  show "a \<le> b \<Longrightarrow> b \<le> a \<Longrightarrow> a = b" by (cases a; cases b) (simp_all add: less_eq_Level_def)
qed (auto simp: less_eq_Level_def less_Level_def)

end

fun Level_String :: "Level \<Rightarrow> string" where
  "Level_String LevelSymbol = ''symbol''" | "Level_String LevelPackage = ''package''" | "Level_String LevelModule = ''module''"

record Advisory =
  Advisory_ID :: string
  Advisory_Level :: Level
  Advisory_Module :: string
  Advisory_Version :: string
  FixedVersion :: string
  Summary :: string
  Trace :: string

definition no_advisory :: Advisory where
  "no_advisory = \<lparr>Advisory_ID = [], Advisory_Level = LevelModule, Advisory_Module = [], Advisory_Version = [], FixedVersion = [],
     Summary = [], Trace = []\<rparr>"

definition HasFix :: "Advisory \<Rightarrow> bool" where "HasFix a \<longleftrightarrow> FixedVersion a \<noteq> []"

record streamConfig =
  cf_scanner_name :: string
  cf_scanner_version :: string
  cf_db :: string
  cf_db_last_modified :: string
  cf_go_version :: string
  cf_scan_level :: string
  cf_scan_mode :: string

record streamOSV =
  osv_id :: string
  osv_summary :: string

record position =
  Filename :: string
  Pos_Line :: int
  Column :: int

record frame =
  fr_module :: string
  fr_version :: string
  fr_package :: string
  fr_function :: string
  fr_receiver :: string
  fr_position :: "position option"

record streamFinding =
  fi_osv :: string
  fi_fixed_version :: string
  fi_trace :: "frame list"

record streamMessage =
  ms_config :: "streamConfig option"
  ms_osv :: "streamOSV option"
  ms_finding :: "streamFinding option"

record Report =
  ScannerVersion :: string
  DB :: string
  DBLastModified :: string
  GoVersion :: string
  ScanLevel :: string
  ScanMode :: string
  Advisories :: "Advisory list"

section \<open>Decoding the stream\<close>

text \<open>
  How \<open>encoding/json\<close> fills the structs: strings and integers as in the requests, a pointer is cleared by
  \<open>null\<close> and allocated by anything else, a slice takes the elements of an array.
\<close>

definition set_int :: "(int \<Rightarrow> 'a \<Rightarrow> 'a) \<Rightarrow> json \<Rightarrow> 'a \<Rightarrow> 'a option" where
  "set_int upd v r = map_option (\<lambda>x. case x of None \<Rightarrow> r | Some i \<Rightarrow> upd i r) (get_int64 v)"

definition get_ptr :: "(json \<Rightarrow> 'b \<Rightarrow> 'b option) \<Rightarrow> 'b \<Rightarrow> 'b option \<Rightarrow> json \<Rightarrow> 'b option option" where
  "get_ptr dec zero old v =
     (if v = JNull then Some None else map_option Some (dec v (case old of None \<Rightarrow> zero | Some x \<Rightarrow> x)))"

definition put_position :: "string \<Rightarrow> json \<Rightarrow> position \<Rightarrow> position option" where
  "put_position n v r =
     (if n = ''filename'' then set_string (\<lambda>s r. r\<lparr>Filename := s\<rparr>) v r
      else if n = ''line'' then set_int (\<lambda>i r. r\<lparr>Pos_Line := i\<rparr>) v r
      else set_int (\<lambda>i r. r\<lparr>Column := i\<rparr>) v r)"

definition decode_position :: "json \<Rightarrow> position \<Rightarrow> position option" where
  "decode_position = decode_struct False [''filename'', ''line'', ''column''] put_position"

definition put_frame :: "string \<Rightarrow> json \<Rightarrow> frame \<Rightarrow> frame option" where
  "put_frame n v r =
     (if n = ''module'' then set_string (\<lambda>s r. r\<lparr>fr_module := s\<rparr>) v r
      else if n = ''version'' then set_string (\<lambda>s r. r\<lparr>fr_version := s\<rparr>) v r
      else if n = ''package'' then set_string (\<lambda>s r. r\<lparr>fr_package := s\<rparr>) v r
      else if n = ''function'' then set_string (\<lambda>s r. r\<lparr>fr_function := s\<rparr>) v r
      else if n = ''receiver'' then set_string (\<lambda>s r. r\<lparr>fr_receiver := s\<rparr>) v r
      else map_option (\<lambda>p. r\<lparr>fr_position := p\<rparr>)
             (get_ptr decode_position \<lparr>Filename = [], Pos_Line = 0, Column = 0\<rparr> (fr_position r) v))"

definition decode_frame :: "json \<Rightarrow> frame option" where
  "decode_frame v =
     decode_struct False [''module'', ''version'', ''package'', ''function'', ''receiver'', ''position''] put_frame v
       \<lparr>fr_module = [], fr_version = [], fr_package = [], fr_function = [], fr_receiver = [], fr_position = None\<rparr>"

definition decode_frames :: "json \<Rightarrow> frame list option" where
  "decode_frames v = (case v of JNull \<Rightarrow> Some [] | JArray vs \<Rightarrow> those (map decode_frame vs) | _ \<Rightarrow> None)"

definition put_finding :: "string \<Rightarrow> json \<Rightarrow> streamFinding \<Rightarrow> streamFinding option" where
  "put_finding n v r =
     (if n = ''osv'' then set_string (\<lambda>s r. r\<lparr>fi_osv := s\<rparr>) v r
      else if n = ''fixed_version'' then set_string (\<lambda>s r. r\<lparr>fi_fixed_version := s\<rparr>) v r
      else map_option (\<lambda>t. r\<lparr>fi_trace := t\<rparr>) (decode_frames v))"

definition put_osv :: "string \<Rightarrow> json \<Rightarrow> streamOSV \<Rightarrow> streamOSV option" where
  "put_osv n v r =
     (if n = ''id'' then set_string (\<lambda>s r. r\<lparr>osv_id := s\<rparr>) v r else set_string (\<lambda>s r. r\<lparr>osv_summary := s\<rparr>) v r)"

definition put_config :: "string \<Rightarrow> json \<Rightarrow> streamConfig \<Rightarrow> streamConfig option" where
  "put_config n v r =
     (if n = ''scanner_name'' then set_string (\<lambda>s r. r\<lparr>cf_scanner_name := s\<rparr>) v r
      else if n = ''scanner_version'' then set_string (\<lambda>s r. r\<lparr>cf_scanner_version := s\<rparr>) v r
      else if n = ''db'' then set_string (\<lambda>s r. r\<lparr>cf_db := s\<rparr>) v r
      else if n = ''db_last_modified'' then set_string (\<lambda>s r. r\<lparr>cf_db_last_modified := s\<rparr>) v r
      else if n = ''go_version'' then set_string (\<lambda>s r. r\<lparr>cf_go_version := s\<rparr>) v r
      else if n = ''scan_level'' then set_string (\<lambda>s r. r\<lparr>cf_scan_level := s\<rparr>) v r
      else set_string (\<lambda>s r. r\<lparr>cf_scan_mode := s\<rparr>) v r)"

definition no_config :: streamConfig where
  "no_config = \<lparr>cf_scanner_name = [], cf_scanner_version = [], cf_db = [], cf_db_last_modified = [], cf_go_version = [],
     cf_scan_level = [], cf_scan_mode = []\<rparr>"

definition config_names :: "string list" where
  "config_names = [''scanner_name'', ''scanner_version'', ''db'', ''db_last_modified'', ''go_version'', ''scan_level'', ''scan_mode'']"

definition put_message :: "string \<Rightarrow> json \<Rightarrow> streamMessage \<Rightarrow> streamMessage option" where
  "put_message n v r =
     (if n = ''config'' then
        map_option (\<lambda>p. r\<lparr>ms_config := p\<rparr>) (get_ptr (decode_struct False config_names put_config) no_config (ms_config r) v)
      else if n = ''osv'' then
        map_option (\<lambda>p. r\<lparr>ms_osv := p\<rparr>)
          (get_ptr (decode_struct False [''id'', ''summary''] put_osv) \<lparr>osv_id = [], osv_summary = []\<rparr> (ms_osv r) v)
      else
        map_option (\<lambda>p. r\<lparr>ms_finding := p\<rparr>)
          (get_ptr (decode_struct False [''osv'', ''fixed_version'', ''trace''] put_finding)
             \<lparr>fi_osv = [], fi_fixed_version = [], fi_trace = []\<rparr> (ms_finding r) v))"

definition decode_message :: "json \<Rightarrow> streamMessage option" where
  "decode_message v =
     decode_struct False [''config'', ''osv'', ''finding''] put_message v \<lparr>ms_config = None, ms_osv = None, ms_finding = None\<rparr>"

section \<open>Reading the report\<close>

definition levelOf :: "frame list \<Rightarrow> Level" where
  "levelOf trace =
     foldl (\<lambda>level f. if fr_function f \<noteq> [] then (if LevelSymbol > level then LevelSymbol else level)
        else if fr_package f \<noteq> [] then (if LevelPackage > level then LevelPackage else level) else level) LevelModule trace"

definition shortPackage :: "string \<Rightarrow> string" where
  "shortPackage path = rev (takeWhile (\<lambda>c. c \<noteq> CHR ''/'') (rev path))"

definition frameName :: "frame \<Rightarrow> string" where
  "frameName f =
     (let pkg = shortPackage (fr_package f)
      in if fr_function f \<noteq> [] \<and> fr_receiver f \<noteq> [] then pkg @ ''.'' @ fr_receiver f @ ''.'' @ fr_function f
         else if fr_function f \<noteq> [] then pkg @ ''.'' @ fr_function f
         else if fr_package f \<noteq> [] then fr_package f
         else fr_module f)"

definition renderTrace :: "frame list \<Rightarrow> string" where
  "renderTrace trace =
     (if trace = [] then []
      else if levelOf trace = LevelModule then ''required by the module graph; no vulnerable package imported and no call path found''
      else let line = join '' -> '' (rev (map frameName trace))
           in case fr_position (List.last trace) of
                None \<Rightarrow> line
              | Some p \<Rightarrow>
                  if Filename p = [] then line
                  else Filename p @ '':'' @ FormatInt (Pos_Line p) @ '':'' @ FormatInt (Column p) @ '': '' @ line)"

fun firstNonEmpty :: "string list \<Rightarrow> string" where
  "firstNonEmpty [] = []"
| "firstNonEmpty (v # vs) = (if v \<noteq> [] then v else firstNonEmpty vs)"

datatype report_error =
    NotTheStream
  | BadFindingID string
  | EmptyTrace string
  | NoConfig
  | WrongScanner string
  | WrongLevel string
  | WrongMode string

definition advisoryOf :: "streamFinding \<Rightarrow> report_error + Advisory" where
  "advisoryOf f =
     (if \<not> MatchString reAdvisoryID (fi_osv f) then Inl (BadFindingID (fi_osv f))
      else case fi_trace f of
        [] \<Rightarrow> Inl (EmptyTrace (fi_osv f))
      | vulnerable # _ \<Rightarrow>
          Inr \<lparr>Advisory_ID = fi_osv f, Advisory_Level = levelOf (fi_trace f), Advisory_Module = fr_module vulnerable,
            Advisory_Version = firstNonEmpty [fr_version vulnerable, ''(no version)''], FixedVersion = fi_fixed_version f,
            Summary = [], Trace = renderTrace (fi_trace f)\<rparr>)"

record reading_state =
  rs_cfg :: "streamConfig option"
  rs_summaries :: "string \<rightharpoonup> string"
  rs_deepest :: "string \<rightharpoonup> Advisory"
  rs_order :: "string list"

text \<open>Two findings of one advisory: the deepest trace, and a fixed version wherever it appeared.\<close>

definition deeper :: "Advisory \<Rightarrow> Advisory \<Rightarrow> Advisory" where
  "deeper prev a =
     (if Advisory_Level a > Advisory_Level prev
      then (if FixedVersion a = [] then a\<lparr>FixedVersion := FixedVersion prev\<rparr> else a)
      else if FixedVersion prev = [] \<and> FixedVersion a \<noteq> [] then prev\<lparr>FixedVersion := FixedVersion a\<rparr>
      else prev)"

definition read_message :: "streamMessage \<Rightarrow> reading_state \<Rightarrow> report_error + reading_state" where
  "read_message msg st =
     (case ms_config msg of
        Some cfg \<Rightarrow> Inr (st\<lparr>rs_cfg := Some cfg\<rparr>)
      | None \<Rightarrow>
          (case ms_osv msg of
             Some osv \<Rightarrow> Inr (st\<lparr>rs_summaries := (rs_summaries st)(osv_id osv \<mapsto> osv_summary osv)\<rparr>)
           | None \<Rightarrow>
               (case ms_finding msg of
                  None \<Rightarrow> Inr st
                | Some f \<Rightarrow>
                    (case advisoryOf f of
                       Inl e \<Rightarrow> Inl e
                     | Inr a \<Rightarrow>
                         (case rs_deepest st (Advisory_ID a) of
                            None \<Rightarrow> Inr (st\<lparr>rs_order := rs_order st @ [Advisory_ID a], rs_deepest := (rs_deepest st)(Advisory_ID a \<mapsto> a)\<rparr>)
                          | Some prev \<Rightarrow> Inr (st\<lparr>rs_deepest := (rs_deepest st)(Advisory_ID a \<mapsto> deeper prev a)\<rparr>))))))"

text \<open>The loop over the stream. A value takes at least one byte of it.\<close>

function read_stream :: "runtime \<Rightarrow> string \<Rightarrow> reading_state \<Rightarrow> report_error + reading_state" where
  "read_stream rt s st =
     (if dropWhile json_space s = [] then Inr st
      else case json_parse rt s of
        None \<Rightarrow> Inl NotTheStream
      | Some (v, s') \<Rightarrow>
          if length s \<le> length s' then Inl NotTheStream
          else (case decode_message v of
                  None \<Rightarrow> Inl NotTheStream
                | Some msg \<Rightarrow> (case read_message msg st of Inl e \<Rightarrow> Inl e | Inr st' \<Rightarrow> read_stream rt s' st')))"
  by pat_completeness auto
termination by (relation "measure (\<lambda>(rt, s, st). length s)") auto

declare read_stream.simps [simp del]

definition ParseReport :: "runtime \<Rightarrow> string \<Rightarrow> report_error + Report" where
  "ParseReport rt stdout =
     (case read_stream rt stdout \<lparr>rs_cfg = None, rs_summaries = Map.empty, rs_deepest = Map.empty, rs_order = []\<rparr> of
        Inl e \<Rightarrow> Inl e
      | Inr st \<Rightarrow>
          (case rs_cfg st of
             None \<Rightarrow> Inl NoConfig
           | Some cfg \<Rightarrow>
               if cf_scanner_name cfg \<noteq> scannerName then Inl (WrongScanner (cf_scanner_name cfg))
               else if cf_scan_level cfg \<noteq> wantScanLevel then Inl (WrongLevel (cf_scan_level cfg))
               else if cf_scan_mode cfg \<noteq> wantScanMode then Inl (WrongMode (cf_scan_mode cfg))
               else Inr \<lparr>ScannerVersion = cf_scanner_version cfg, DB = cf_db cfg, DBLastModified = cf_db_last_modified cfg,
                      GoVersion = cf_go_version cfg, ScanLevel = cf_scan_level cfg, ScanMode = cf_scan_mode cfg,
                      Advisories = map (\<lambda>i. (case rs_deepest st i of None \<Rightarrow> no_advisory | Some a \<Rightarrow> a)
                        \<lparr>Summary := (case rs_summaries st i of None \<Rightarrow> [] | Some t \<Rightarrow> t)\<rparr>) (sort_strings (rs_order st))\<rparr>))"

definition IDs :: "Report \<Rightarrow> string list" where "IDs r = map Advisory_ID (Advisories r)"


definition Report_String :: "Report \<Rightarrow> string list" where
  "Report_String r =
     (''govulncheck '' @ ScannerVersion r @ '' scanned '' @ GoVersion r @ '' (level '' @ ScanLevel r @ '', mode '' @ ScanMode r
        @ '') against '' @ DB r @ '', database last modified '' @ DBLastModified r)
     # (if Advisories r = []
        then [''no advisories reported at any level: no vulnerable symbol called, no vulnerable package imported, no vulnerable module required'']
        else (show_nat (length (Advisories r)) @ '' advisory(ies) reported across symbol, package and module level:'')
          # concat (map (\<lambda>a.
              [''  '' @ Advisory_ID a @ ''  ['' @ Level_String (Advisory_Level a) @ '' level]  '' @ Advisory_Module a @ ''@'' @ Advisory_Version a
                 @ ''  '' @ (if HasFix a then ''fixed in '' @ FixedVersion a else ''NO FIX AVAILABLE anywhere'')]
              @ (if Summary a \<noteq> [] then [''      '' @ Summary a] else [])
              @ (if Trace a \<noteq> [] then [''      trace: '' @ Trace a] else [])
              @ [''      https://pkg.go.dev/vuln/'' @ Advisory_ID a]) (Advisories r)))"

section \<open>The runner\<close>

definition rePinnedVersion :: rx where
  "rePinnedVersion =
     (let num = Many1 (Cls is_digit); tail = Many1 (Cls (\<lambda>c. is_alnum c \<or> c = CHR ''.'' \<or> c = CHR ''-''))
      in Seq [Bol, Lit ''v'', num, Lit ''.'', num, Lit ''.'', num, Opt (Cat (Lit ''-'') tail), Opt (Cat (Lit ''+'') tail), Eol])"

definition modulePath :: string where "modulePath = ''golang.org/x/vuln/cmd/govulncheck''"

record GovulncheckRunner =
  Runner_Version :: string
  Patterns :: "string list"

datatype run_error = NotPinned string | NoPatterns | NoDirectory | InstallFailed string | NotStarted

definition InstallArgs :: "GovulncheckRunner \<Rightarrow> run_error + string list" where
  "InstallArgs r =
     (if \<not> MatchString rePinnedVersion (Runner_Version r) then Inl (NotPinned (Runner_Version r))
      else Inr [''install'', modulePath @ ''@'' @ Runner_Version r])"

definition jsonFormat :: "string list" where "jsonFormat = [''-format'', ''json'']"

definition ScanArgs :: "GovulncheckRunner \<Rightarrow> run_error + string list" where
  "ScanArgs r = (if Patterns r = [] then Inl NoPatterns else Inr (jsonFormat @ Patterns r))"

record Result =
  Stdout :: string
  Stderr :: string
  ExitCode :: int

text \<open>
  The processes: whether a directory could be made, the output of the installation and whether it
  succeeded, and the output of the tool with its status, \<open>None\<close> when it never ran.
\<close>

record processes =
  pr_mkdir :: bool
  pr_install :: "string list \<Rightarrow> bool \<times> string"
  pr_scan :: "string list \<Rightarrow> string \<times> string \<times> int option"

definition no_result :: Result where "no_result = \<lparr>Stdout = [], Stderr = [], ExitCode = 0\<rparr>"

definition runner_Run :: "processes \<Rightarrow> GovulncheckRunner \<Rightarrow> Result \<times> run_error option" where
  "runner_Run ps r =
     (case InstallArgs r of
        Inl e \<Rightarrow> (no_result, Some e)
      | Inr installArgs \<Rightarrow>
          (case ScanArgs r of
             Inl e \<Rightarrow> (no_result, Some e)
           | Inr scanArgs \<Rightarrow>
               if \<not> pr_mkdir ps then (no_result, Some NoDirectory)
               else case pr_install ps installArgs of
                      (False, out) \<Rightarrow> (no_result\<lparr>Stderr := out\<rparr>, Some (InstallFailed (TrimSpace out)))
                    | (True, _) \<Rightarrow>
                        (case pr_scan ps scanArgs of
                           (out, err, Some status) \<Rightarrow> (\<lparr>Stdout = out, Stderr = err, ExitCode = status\<rparr>, None)
                         | (out, err, None) \<Rightarrow> (\<lparr>Stdout = out, Stderr = err, ExitCode = 0\<rparr>, Some NotStarted))))"

section \<open>The verdict\<close>

definition exitReportProduced :: int where "exitReportProduced = 0"
definition maxRawEcho :: nat where "maxRawEcho = 4000"

datatype verdict_problem = Unrecorded "string list" | Fixable "string list" | Stale "string list"

definition vuln_Evaluate :: "Advisory list \<Rightarrow> Entry list \<Rightarrow> verdict_problem list" where
  "vuln_Evaluate reported entries =
     (let recorded = Entry_ID ` set entries;
          isReported = Advisory_ID ` set reported;
          unrecorded = map (\<lambda>a. Advisory_ID a @ '' ('' @ Level_String (Advisory_Level a) @ '' level, '' @ Advisory_Module a @ ''@''
              @ Advisory_Version a @ '', '' @ (if HasFix a then ''fixed in '' @ FixedVersion a else ''no fix reported'') @ '')'')
            (filter (\<lambda>a. Advisory_ID a \<notin> recorded) reported);
          fixable = map (\<lambda>a. Advisory_ID a @ '' (fixed in '' @ FixedVersion a @ ''; found in '' @ Advisory_Module a @ ''@'' @ Advisory_Version a @ '')'')
            (filter (\<lambda>a. Advisory_ID a \<in> recorded \<and> HasFix a) reported);
          stale = map (\<lambda>e. Entry_ID e @ '' (recorded '' @ Recorded e @ '')'') (filter (\<lambda>e. Entry_ID e \<notin> isReported) entries)
      in (if unrecorded \<noteq> [] then [Unrecorded (sort_strings unrecorded)] else [])
       @ (if fixable \<noteq> [] then [Fixable (sort_strings fixable)] else [])
       @ (if stale \<noteq> [] then [Stale (sort_strings stale)] else []))"

datatype gate_error =
    BadRecords suppression_error
  | CouldNotRun run_error
  | BadStatus int string
  | BadReport report_error
  | Verdict "verdict_problem list"

definition echoStderr :: "string \<Rightarrow> string list" where
  "echoStderr stderr = (let out = TrimSpace stderr in if out \<noteq> [] then [out] else [])"

definition echoRaw :: "Result \<Rightarrow> string list" where
  "echoRaw res =
     (let out = TrimSpace (Stdout res)
      in (if out = [] then []
          else if length out > maxRawEcho
            then [take maxRawEcho out, ''... (truncated; '' @ show_nat (length (Stdout res)) @ '' bytes of output in total)'']
          else [out]) @ echoStderr (Stderr res))"

definition echoReport :: "Report \<Rightarrow> string \<Rightarrow> string list" where
  "echoReport report stderr = Report_String report @ echoStderr stderr"

record gate =
  gt_yaml :: "string \<Rightarrow> yaml_node list option"
  gt_records :: file_read
  gt_processes :: processes
  gt_runner :: GovulncheckRunner
  gt_rt :: runtime

definition Gate_Check :: "gate \<Rightarrow> gate_error option \<times> string list" where
  "Gate_Check g =
     (case LoadSuppressions (gt_yaml g) (gt_records g) of
        Inl e \<Rightarrow> (Some (BadRecords e), [])
      | Inr entries \<Rightarrow>
          (case runner_Run (gt_processes g) (gt_runner g) of
             (res, Some e) \<Rightarrow> (Some (CouldNotRun e), echoRaw res)
           | (res, None) \<Rightarrow>
               if ExitCode res \<noteq> exitReportProduced
               then (Some (BadStatus (ExitCode res) (firstNonEmpty [TrimSpace (Stderr res), TrimSpace (Stdout res), ''no output''])), echoRaw res)
               else case ParseReport (gt_rt g) (Stdout res) of
                      Inl e \<Rightarrow> (Some (BadReport e), echoRaw res)
                    | Inr report \<Rightarrow>
                        (case vuln_Evaluate (Advisories report) entries of
                           [] \<Rightarrow> (None, echoReport report (Stderr res))
                         | ps \<Rightarrow> (Some (Verdict ps), echoReport report (Stderr res)))))"

text \<open>\<open>cmd/vulngate\<close> after its flags: the exit status, what the gate prints, and the error on the standard error.\<close>

definition vulngate_main :: "gate \<Rightarrow> string \<Rightarrow> string list \<Rightarrow> int \<times> string list \<times> gate_error option" where
  "vulngate_main g version args =
     (case Gate_Check (g\<lparr>gt_runner := \<lparr>Runner_Version = version, Patterns = (if args = [] then [''./...''] else args)\<rparr>\<rparr>) of
        (Some e, out) \<Rightarrow> (1, out, Some e)
      | (None, out) \<Rightarrow>
          (0, out @ [''vulnerability gate OK: every advisory govulncheck reports, at symbol, package and module level, is remediated at source or recorded in ''
             @ SuppressionsFile], None))"


section \<open>What a report holds\<close>

text \<open>The messages of a stream, read without any state, and the findings among them.\<close>

function messages :: "runtime \<Rightarrow> string \<Rightarrow> streamMessage list option" where
  "messages rt s =
     (if dropWhile json_space s = [] then Some []
      else case json_parse rt s of
        None \<Rightarrow> None
      | Some (v, s') \<Rightarrow>
          if length s \<le> length s' then None
          else (case decode_message v of None \<Rightarrow> None | Some msg \<Rightarrow> map_option ((#) msg) (messages rt s')))"
  by pat_completeness auto
termination by (relation "measure (\<lambda>(rt, s). length s)") auto

declare messages.simps [simp del]

definition finding_in :: "streamMessage \<Rightarrow> streamFinding option" where
  "finding_in m = (if ms_config m = None \<and> ms_osv m = None then ms_finding m else None)"

definition findings_of :: "streamMessage list \<Rightarrow> streamFinding set" where
  "findings_of ms = {f. \<exists>m \<in> set ms. finding_in m = Some f}"

fun read_all :: "streamMessage list \<Rightarrow> reading_state \<Rightarrow> report_error + reading_state" where
  "read_all [] st = Inr st"
| "read_all (m # ms) st = (case read_message m st of Inl e \<Rightarrow> Inl e | Inr st' \<Rightarrow> read_all ms st')"

lemma read_all_append: "read_all (ms @ ns) st = (case read_all ms st of Inl e \<Rightarrow> Inl e | Inr st' \<Rightarrow> read_all ns st')"
  by (induction ms arbitrary: st) (auto split: sum.splits)

lemma read_stream_messages: "read_stream rt s st = Inr st' \<Longrightarrow> \<exists>ms. messages rt s = Some ms \<and> read_all ms st = Inr st'"
proof (induction rt s st arbitrary: st' rule: read_stream.induct)
  case (1 rt s st)
  show ?case
  proof (cases "dropWhile json_space s = []")
    case True
    then show ?thesis using 1(2) by (simp add: read_stream.simps [of rt s] messages.simps [of rt s])
  next
    case False
    then obtain v s1 msg st1 where p: "json_parse rt s = Some (v, s1)" "\<not> length s \<le> length s1" "decode_message v = Some msg"
      "read_message msg st = Inr st1" "read_stream rt s1 st1 = Inr st'"
      using 1(2) by (auto simp: read_stream.simps [of rt s] split: option.splits if_splits sum.splits)
    obtain ms where ms: "messages rt s1 = Some ms" "read_all ms st1 = Inr st'" using 1(1) [OF False p(1) refl p(2,3,4,5)] by blast
    then have "messages rt s = Some (msg # ms)" using False p by (simp add: messages.simps [of rt s])
    then show ?thesis using ms p(4) by auto
  qed
qed

definition about :: "string \<Rightarrow> streamFinding set \<Rightarrow> streamFinding set" where "about i F = {f \<in> F. fi_osv f = i}"

definition sums_up :: "Advisory \<Rightarrow> string \<Rightarrow> streamFinding set \<Rightarrow> bool" where
  "sums_up a i F \<longleftrightarrow> Advisory_ID a = i \<and> Advisory_Level a = Max ((\<lambda>f. levelOf (fi_trace f)) ` about i F)
     \<and> (HasFix a \<longleftrightarrow> (\<exists>f \<in> about i F. fi_fixed_version f \<noteq> []))"

definition report_inv :: "streamFinding set \<Rightarrow> reading_state \<Rightarrow> bool" where
  "report_inv F st \<longleftrightarrow> finite F \<and> distinct (rs_order st) \<and> set (rs_order st) = fi_osv ` F
     \<and> (\<forall>i. rs_deepest st i = None \<longleftrightarrow> i \<notin> fi_osv ` F) \<and> (\<forall>i a. rs_deepest st i = Some a \<longrightarrow> sums_up a i F)"

lemma advisoryOf_ok:
  "advisoryOf f = Inr a \<Longrightarrow> Advisory_ID a = fi_osv f \<and> Advisory_Level a = levelOf (fi_trace f) \<and> FixedVersion a = fi_fixed_version f"
  by (auto simp: advisoryOf_def split: if_splits list.splits)

lemma deeper_parts:
  "Advisory_ID prev = Advisory_ID a \<Longrightarrow> Advisory_ID (deeper prev a) = Advisory_ID a"
  "Advisory_Level (deeper prev a) = max (Advisory_Level prev) (Advisory_Level a)"
  "HasFix (deeper prev a) \<longleftrightarrow> HasFix prev \<or> HasFix a"
  by (auto simp: deeper_def HasFix_def max_def)

lemma about_insert: "about i (insert f F) = (if fi_osv f = i then insert f (about i F) else about i F)"
  by (auto simp: about_def)

lemma finite_about: "finite F \<Longrightarrow> finite (about i F)"
  by (simp add: about_def)

lemma sums_up_other: "fi_osv f \<noteq> i \<Longrightarrow> sums_up a i (insert f F) = sums_up a i F"
  by (simp add: sums_up_def about_insert)

lemma sums_up_first:
  assumes "advisoryOf f = Inr a" "fi_osv f \<notin> fi_osv ` F"
  shows "sums_up a (fi_osv f) (insert f F)"
proof -
  have "about (fi_osv f) F = {}" using assms(2) unfolding about_def by (metis (mono_tags, lifting) Collect_empty_eq image_eqI)
  then have "about (fi_osv f) (insert f F) = {f}" by (simp add: about_insert)
  then show ?thesis using advisoryOf_ok [OF assms(1)] by (simp add: sums_up_def HasFix_def)
qed

lemma sums_up_again:
  assumes "advisoryOf f = Inr a" "sums_up prev (fi_osv f) F" "fi_osv f \<in> fi_osv ` F" "finite F"
  shows "sums_up (deeper prev a) (fi_osv f) (insert f F)"
proof -
  have ne: "about (fi_osv f) F \<noteq> {}" using assms(3) by (auto simp: about_def)
  have "Max ((\<lambda>f. levelOf (fi_trace f)) ` about (fi_osv f) (insert f F))
      = max (levelOf (fi_trace f)) (Max ((\<lambda>f. levelOf (fi_trace f)) ` about (fi_osv f) F))"
    using ne finite_about [OF assms(4)] by (simp add: about_insert)
  then show ?thesis
    using advisoryOf_ok [OF assms(1)] assms(2) deeper_parts [of prev a]
    by (auto simp: sums_up_def about_insert max.commute HasFix_def)
qed


lemma report_inv_seen:
  assumes "report_inv F st" "rs_deepest st i = Some a"
  shows "i \<in> fi_osv ` F" "sums_up a i F"
proof -
  have "\<forall>j. rs_deepest st j = None \<longleftrightarrow> j \<notin> fi_osv ` F" "\<forall>j b. rs_deepest st j = Some b \<longrightarrow> sums_up b j F"
    using assms(1) unfolding report_inv_def by simp_all
  then show "i \<in> fi_osv ` F" "sums_up a i F" using assms(2) by (metis option.distinct(1), metis)
qed

lemma read_message_inv:
  assumes "report_inv F st" "read_message m st = Inr st'"
  shows "report_inv (case finding_in m of None \<Rightarrow> F | Some f \<Rightarrow> insert f F) st'"
proof (cases "finding_in m")
  case None
  then show ?thesis using assms by (auto simp: read_message_def finding_in_def report_inv_def split: option.splits if_splits)
next
  case (Some f)
  then have m: "ms_config m = None" "ms_osv m = None" "ms_finding m = Some f" by (auto simp: finding_in_def split: if_splits)
  obtain a where a: "advisoryOf f = Inr a" using assms(2) m by (auto simp: read_message_def split: sum.splits)
  note i = advisoryOf_ok [OF a]
  show ?thesis
  proof (cases "rs_deepest st (fi_osv f)")
    case None
    then have new: "fi_osv f \<notin> fi_osv ` F" using assms(1) by (simp add: report_inv_def)
    have st': "st' = st\<lparr>rs_order := rs_order st @ [fi_osv f], rs_deepest := (rs_deepest st)(fi_osv f \<mapsto> a)\<rparr>"
      using assms(2) m a i None by (simp add: read_message_def)
    have "sums_up b j (insert f F)" if "rs_deepest st' j = Some b" for j b
      using that sums_up_first [OF a new] assms(1) unfolding st'
      by (cases "j = fi_osv f") (auto simp: report_inv_def sums_up_other)
    then show ?thesis using assms(1) new Some by (auto simp: report_inv_def st')
  next
    case (Some prev)
    have old: "fi_osv f \<in> fi_osv ` F" "sums_up prev (fi_osv f) F"
      by (rule report_inv_seen [OF assms(1) Some])+
    have st': "st' = st\<lparr>rs_deepest := (rs_deepest st)(fi_osv f \<mapsto> deeper prev a)\<rparr>"
      using assms(2) m a i Some by (simp add: read_message_def)
    have "sums_up b j (insert f F)" if "rs_deepest st' j = Some b" for j b
      using that sums_up_again [OF a old(2,1)] assms(1) unfolding st'
      by (cases "j = fi_osv f") (auto simp: report_inv_def sums_up_other)
    then show ?thesis using assms(1) old(1) \<open>finding_in m = Some f\<close> by (auto simp: report_inv_def st')
  qed
qed

lemma findings_of_snoc: "findings_of (ms @ [m]) = (case finding_in m of None \<Rightarrow> findings_of ms | Some f \<Rightarrow> insert f (findings_of ms))"
  by (auto simp: findings_of_def split: option.splits)

lemma read_all_inv:
  "read_all ms \<lparr>rs_cfg = None, rs_summaries = Map.empty, rs_deepest = Map.empty, rs_order = []\<rparr> = Inr st \<Longrightarrow> report_inv (findings_of ms) st"
proof (induction ms arbitrary: st rule: rev_induct)
  case Nil
  then show ?case by (auto simp: report_inv_def findings_of_def)
next
  case (snoc m ms)
  then obtain st1 where "read_all ms \<lparr>rs_cfg = None, rs_summaries = Map.empty, rs_deepest = Map.empty, rs_order = []\<rparr> = Inr st1"
    "read_message m st1 = Inr st" by (auto simp: read_all_append split: sum.splits)
  then show ?case using snoc.IH read_message_inv by (simp add: findings_of_snoc)
qed

text \<open>
  Nothing \<open>govulncheck\<close> said is lost on the way. When \<open>ParseReport\<close> returns a report, the whole stream
  was read, it came from the deepest source scan, and the report lists exactly the advisories that have a
  finding, each once and in the order of their ids, at the deepest level of its findings and with a fix
  exactly when some finding names one.
\<close>

theorem report_complete:
  assumes "ParseReport rt s = Inr r"
  shows "\<exists>ms. messages rt s = Some ms \<and> ScanLevel r = ''symbol'' \<and> ScanMode r = ''source''
    \<and> set (IDs r) = fi_osv ` findings_of ms \<and> sorted_wrt (<) (IDs r)
    \<and> (\<forall>a \<in> set (Advisories r). sums_up a (Advisory_ID a) (findings_of ms))"
proof -
  obtain st cfg where st: "read_stream rt s \<lparr>rs_cfg = None, rs_summaries = Map.empty, rs_deepest = Map.empty, rs_order = []\<rparr> = Inr st"
    "ScanLevel r = ''symbol''" "ScanMode r = ''source''"
    "Advisories r = map (\<lambda>i. (case rs_deepest st i of None \<Rightarrow> no_advisory | Some a \<Rightarrow> a)
        \<lparr>Summary := (case rs_summaries st i of None \<Rightarrow> [] | Some t \<Rightarrow> t)\<rparr>) (sort_strings (rs_order st))"
    using assms by (auto simp: ParseReport_def wantScanLevel_def wantScanMode_def split: sum.splits option.splits if_splits)
  obtain ms where ms: "messages rt s = Some ms"
    "read_all ms \<lparr>rs_cfg = None, rs_summaries = Map.empty, rs_deepest = Map.empty, rs_order = []\<rparr> = Inr st"
    using read_stream_messages [OF st(1)] by blast
  note inv = read_all_inv [OF ms(2), unfolded report_inv_def]
  have ord: "set (sort_strings (rs_order st)) = fi_osv ` findings_of ms" using inv by (simp add: sort_strings_def)
  have a: "\<exists>b. rs_deepest st i = Some b \<and> sums_up b i (findings_of ms)" if "i \<in> set (sort_strings (rs_order st))" for i
    using that inv ord by (cases "rs_deepest st i") auto
  have ids: "IDs r = sort_strings (rs_order st)"
    unfolding IDs_def st(4) map_map using a by (intro map_idI) (fastforce simp: sums_up_def)
  have "sums_up x (Advisory_ID x) (findings_of ms)" if "x \<in> set (Advisories r)" for x
    using that a unfolding st(4) by (fastforce simp: sums_up_def HasFix_def)
  moreover have "sorted_wrt (<) (sort_strings (rs_order st))"
  proof -
    have "sorted_wrt (\<lambda>a b. \<not> b < a) (sort_strings (rs_order st))" unfolding sort_strings_def by (rule string_order.stable_sort_sorted)
    moreover have "distinct (sort_strings (rs_order st))"
      using inv distinct_map_stable_sort [of "\<lambda>x. x" "(<)" "rs_order st"] by (simp add: sort_strings_def)
    ultimately show ?thesis by (simp add: strict_sorted_iff not_less)
  qed
  ultimately show ?thesis using ms(1) st(2,3) ids ord by auto
qed


section \<open>What a green gate means\<close>

definition entry_ok :: "Entry \<Rightarrow> bool" where
  "entry_ok e \<longleftrightarrow> MatchString reAdvisoryID (Entry_ID e) \<and> Reason e \<noteq> [] \<and> Reachability e \<noteq> [] \<and> iso_date (Recorded e)"

lemma parse_entry_ok:
  assumes "parse_entry i node seen = ([], e, seen')"
  shows "\<exists>x. e = Some x \<and> entry_ok x \<and> seen (Entry_ID x) = None \<and> seen' = seen(Entry_ID x \<mapsto> i)"
proof -
  obtain kvs where n: "node_mapping node" "node_fields node = Some kvs"
    using assms by (auto simp: parse_entry_def split: if_splits option.splits)
  define i_d where "i_d = field_of kvs ''id''"
  have "filter (\<lambda>k. map_of kvs k = None) requiredKeys = []"
    "filter (\<lambda>k. case map_of kvs k of None \<Rightarrow> False | Some v \<Rightarrow> TrimSpace v = []) requiredKeys = []"
    and r: "i_d \<noteq> [] \<longrightarrow> MatchString reAdvisoryID i_d" "field_of kvs ''recorded'' \<noteq> [] \<longrightarrow> iso_date (field_of kvs ''recorded'')"
      "i_d \<noteq> [] \<longrightarrow> seen i_d = None"
    and e: "e = Some \<lparr>Entry_ID = i_d, Reason = field_of kvs ''reason'', Reachability = field_of kvs ''reachability'',
        Recorded = field_of kvs ''recorded''\<rparr>" "seen' = (if i_d \<noteq> [] \<and> seen i_d = None then seen(i_d \<mapsto> i) else seen)"
    using assms n by (auto simp: parse_entry_def i_d_def Let_def split: if_splits option.splits)
  then have "\<forall>k \<in> set requiredKeys. field_of kvs k \<noteq> []"
    by (auto simp: filter_empty_conv field_of_def split: option.splits)
  then have "i_d \<noteq> []" "field_of kvs ''reason'' \<noteq> []" "field_of kvs ''reachability'' \<noteq> []" "field_of kvs ''recorded'' \<noteq> []"
    by (simp_all add: requiredKeys_def i_d_def)
  then show ?thesis using r e by (simp add: entry_ok_def)
qed

lemma parse_entries_ok:
  "parse_entries i nodes seen = ([], es) \<Longrightarrow>
     length es = length nodes \<and> distinct (map Entry_ID es) \<and> (\<forall>e \<in> set es. entry_ok e \<and> seen (Entry_ID e) = None)"
proof (induction nodes arbitrary: i seen es)
  case (Cons node nodes)
  obtain ps e seen' where p: "parse_entry (Suc i) node seen = (ps, e, seen')" by (metis prod_cases3)
  obtain qs fs where q: "parse_entries (Suc i) nodes seen' = (qs, fs)" by fastforce
  have z: "ps = []" "qs = []" "es = (case e of None \<Rightarrow> fs | Some x \<Rightarrow> x # fs)" using Cons.prems p q by auto
  obtain x where x: "e = Some x" "entry_ok x" "seen (Entry_ID x) = None" "seen' = seen(Entry_ID x \<mapsto> Suc i)"
    using parse_entry_ok [OF p [unfolded z(1)]] by blast
  have "length fs = length nodes \<and> distinct (map Entry_ID fs) \<and> (\<forall>e \<in> set fs. entry_ok e \<and> seen' (Entry_ID e) = None)"
    using Cons.IH q z(2) by blast
  then show ?case using x z(3) by (auto split: if_splits)
qed simp

lemma LoadSuppressions_ok:
  "LoadSuppressions yaml f = Inr es \<Longrightarrow> distinct (map Entry_ID es) \<and> (\<forall>e \<in> set es. entry_ok e)"
  using parse_entries_ok [of 0 _ Map.empty]
  by (fastforce simp: LoadSuppressions_def ParseSuppressions_def split: file_read.splits option.splits prod.splits if_splits)

text \<open>The verdict in one line: covered, without a fix, and still reported.\<close>

lemma vuln_Evaluate_ok:
  "vuln_Evaluate reported entries = [] \<longleftrightarrow>
     (\<forall>a \<in> set reported. \<not> HasFix a \<and> (\<exists>e \<in> set entries. Entry_ID e = Advisory_ID a))
     \<and> (\<forall>e \<in> set entries. \<exists>a \<in> set reported. Advisory_ID a = Entry_ID e)"
proof -
  have "vuln_Evaluate reported entries = [] \<longleftrightarrow>
      filter (\<lambda>a. Advisory_ID a \<notin> Entry_ID ` set entries) reported = []
      \<and> filter (\<lambda>a. Advisory_ID a \<in> Entry_ID ` set entries \<and> HasFix a) reported = []
      \<and> filter (\<lambda>e. Entry_ID e \<notin> Advisory_ID ` set reported) entries = []"
    by (simp add: vuln_Evaluate_def Let_def)
  also have "\<dots> \<longleftrightarrow> (\<forall>a \<in> set reported. \<not> HasFix a \<and> Advisory_ID a \<in> Entry_ID ` set entries)
      \<and> (\<forall>e \<in> set entries. Entry_ID e \<in> Advisory_ID ` set reported)"
    by (auto simp: filter_empty_conv)
  finally show ?thesis by (simp add: image_iff eq_commute Ball_def Bex_def)
qed


text \<open>
  C30: A green gate means what it prints. When \<open>Check\<close> returns no error, the pinned tool ran over every
  pattern it was given and exited with the status of a produced report, its whole output was read, every finding in it,
  at whatever level, is covered by a record and names no fix, and every record is well-formed, about an
  advisory of its own, and still needed.
\<close>

theorem gate_green:
  assumes "Gate_Check g = (None, out)"
  shows "MatchString rePinnedVersion (Runner_Version (gt_runner g))
    \<and> (\<exists>stdout stderr ms entries. pr_scan (gt_processes g) (jsonFormat @ Patterns (gt_runner g)) = (stdout, stderr, Some 0)
        \<and> messages (gt_rt g) stdout = Some ms
        \<and> LoadSuppressions (gt_yaml g) (gt_records g) = Inr entries
        \<and> (\<forall>f \<in> findings_of ms. fi_fixed_version f = [] \<and> (\<exists>e \<in> set entries. Entry_ID e = fi_osv f))
        \<and> distinct (map Entry_ID entries)
        \<and> (\<forall>e \<in> set entries. entry_ok e \<and> (\<exists>f \<in> findings_of ms. fi_osv f = Entry_ID e)))"
proof -
  obtain entries res report where g: "LoadSuppressions (gt_yaml g) (gt_records g) = Inr entries"
    "runner_Run (gt_processes g) (gt_runner g) = (res, None)" "ExitCode res = 0"
    "ParseReport (gt_rt g) (Stdout res) = Inr report" "vuln_Evaluate (Advisories report) entries = []"
    using assms by (auto simp: Gate_Check_def exitReportProduced_def split: sum.splits prod.splits option.splits if_splits list.splits)
  obtain stderr where run: "MatchString rePinnedVersion (Runner_Version (gt_runner g))"
    "pr_scan (gt_processes g) (jsonFormat @ Patterns (gt_runner g)) = (Stdout res, stderr, Some 0)"
    using g(2,3) by (auto simp: runner_Run_def InstallArgs_def ScanArgs_def split: sum.splits if_splits prod.splits option.splits bool.splits)
  obtain ms where ms: "messages (gt_rt g) (Stdout res) = Some ms" "set (IDs report) = fi_osv ` findings_of ms"
    "\<forall>a \<in> set (Advisories report). sums_up a (Advisory_ID a) (findings_of ms)"
    using report_complete [OF g(4)] by blast
  note v = g(5) [unfolded vuln_Evaluate_ok]
  have ids: "Advisory_ID ` set (Advisories report) = fi_osv ` findings_of ms" using ms(2) by (simp add: IDs_def)
  have "fi_fixed_version f = [] \<and> (\<exists>e \<in> set entries. Entry_ID e = fi_osv f)" if f: "f \<in> findings_of ms" for f
  proof -
    obtain a where a: "a \<in> set (Advisories report)" "Advisory_ID a = fi_osv f" using ids f by (metis imageE imageI)
    have "f \<in> about (Advisory_ID a) (findings_of ms)" using f a(2) by (simp add: about_def)
    then show ?thesis using v a ms(3) unfolding sums_up_def by metis
  qed
  moreover have "\<exists>f \<in> findings_of ms. fi_osv f = Entry_ID e" if "e \<in> set entries" for e
    using v that ids by (metis imageE imageI)
  ultimately show ?thesis using run ms(1) g(1) LoadSuppressions_ok [OF g(1)] by blast
qed

definition sample_stream_rt :: runtime where
  "sample_stream_rt =
     \<lparr>json_parse = (\<lambda>s. case s of
          [] \<Rightarrow> None
        | c # s' \<Rightarrow>
            if c = CHR ''c'' then Some (JObject [(''config'', JObject [(''scanner_name'', JString ''govulncheck''),
                (''scan_level'', JString ''symbol''), (''scan_mode'', JString ''source'')])], s')
            else if c = CHR ''f'' then Some (JObject [(''finding'', JObject [(''osv'', JString ''GO-2024-1''),
                (''trace'', JArray [JObject [(''module'', JString ''m'')]])])], s')
            else None),
      parse_float = (\<lambda>_. None), per_3_6 = (\<lambda>x. x), unicode_lower = to_lower, uuid_parse = (\<lambda>_. False)\<rparr>"

definition sample_gate :: gate where
  "sample_gate =
     \<lparr>gt_yaml = (\<lambda>_. Some [\<lparr>node_line = 1, node_mapping = True,
          node_fields = Some [(''id'', ''GO-2024-1''), (''reason'', ''no fix''), (''reachability'', ''not called''), (''recorded'', ''2024-02-29'')]\<rparr>]),
      gt_records = Contents [],
      gt_processes = \<lparr>pr_mkdir = True, pr_install = (\<lambda>_. (True, [])), pr_scan = (\<lambda>_. (''cff'', [], Some 0))\<rparr>,
      gt_runner = \<lparr>Runner_Version = ''v1.1.4'', Patterns = [''./...'']\<rparr>, gt_rt = sample_stream_rt\<rparr>"

lemma sample_green: "fst (Gate_Check sample_gate) = None"
  by code_simp

theorem gate_green_witness:
  "\<exists>stdout stderr ms entries. pr_scan (gt_processes sample_gate) (jsonFormat @ Patterns (gt_runner sample_gate)) = (stdout, stderr, Some 0)
    \<and> messages (gt_rt sample_gate) stdout = Some ms
    \<and> LoadSuppressions (gt_yaml sample_gate) (gt_records sample_gate) = Inr entries
    \<and> (\<forall>f \<in> findings_of ms. fi_fixed_version f = [] \<and> (\<exists>e \<in> set entries. Entry_ID e = fi_osv f))"
proof -
  obtain out where "Gate_Check sample_gate = (None, out)" using sample_green by (metis surjective_pairing)
  then show ?thesis using gate_green by blast
qed

end
