(* ===== verification/Toolchain.thy ===== *)
theory Toolchain
  imports Regex
begin

text \<open>
  The agreement of the Go toolchain pins, \<open>internal/toolchain/pins.go\<close>: the patterns that find a pin, the
  scan of the files, the numeric order of versions and the verdict. The lemmas show that a verdict without
  problems means one version everywhere, not below the minimum and not below the language floor.
\<close>

section \<open>Pins\<close>

definition MinimumVersion :: string where "MinimumVersion = ''1.25.12''"

record Pin =
  Pin_File :: string
  Pin_Line :: nat
  Pin_Version :: string
  Kind :: string

definition Pin_String :: "Pin \<Rightarrow> string" where
  "Pin_String p = Pin_File p @ '':'' @ show_nat (Pin_Line p) @ '': '' @ Kind p @ '' = '' @ Pin_Version p"

definition spaces :: rx where "spaces = Many (Cls rx_space)"
definition spaces1 :: rx where "spaces1 = Many1 (Cls rx_space)"

text \<open>\<open>\d+(?:\.\d+){1,2}\<close>\<close>

definition version_rx :: rx where
  "version_rx = (let num = Many1 (Cls is_digit); part = Cat (Lit ''.'') num in Seq [num, part, Opt part])"

definition not_newline :: "char \<Rightarrow> bool" where "not_newline c \<longleftrightarrow> c \<noteq> CHR 0x0A"

definition reDockerfileGo :: rx where
  "reDockerfileGo = Seq [Bol, spaces, Lit ''FROM'', spaces1, Lit ''golang:'', Cap 1 version_rx,
     Cls (\<lambda>c. c = CHR ''-'' \<or> c = CHR ''@'' \<or> rx_space c)]"

definition quote_opt :: rx where "quote_opt = Opt (Cls (\<lambda>c. c = CHR 0x22 \<or> c = CHR 0x27))"

definition reWorkflowGo :: rx where
  "reWorkflowGo = Seq [Bol, spaces, Lit ''GO_VERSION:'', spaces, quote_opt, Cap 1 version_rx, quote_opt, spaces,
     Opt (Cat (Lit ''#'') (Many (Cls not_newline))), Eol]"

definition reGoDirective :: rx where
  "reGoDirective = Seq [Bol, Lit ''go'', spaces1, Cap 1 version_rx, spaces, Opt (Cat (Lit ''//'') (Many (Cls not_newline))), Eol]"

definition reToolchainDirective :: rx where
  "reToolchainDirective = Seq [Bol, Lit ''toolchain'', spaces1, Lit ''go'', Cap 1 version_rx, spaces,
     Opt (Cat (Lit ''//'') (Many (Cls not_newline))), Eol]"

section \<open>Scanning\<close>

fun scan_from :: "nat \<Rightarrow> string list \<Rightarrow> string \<Rightarrow> string \<Rightarrow> rx \<Rightarrow> Pin list" where
  "scan_from i [] rel kind re = []"
| "scan_from i (line # lines) rel kind re =
     (case FindStringSubmatch re line of
        None \<Rightarrow> []
      | Some m \<Rightarrow> [\<lparr>Pin_File = rel, Pin_Line = i + 1, Pin_Version = m 1, Kind = kind\<rparr>]) @ scan_from (i + 1) lines rel kind re"

definition scanBytes :: "string \<Rightarrow> string \<Rightarrow> string \<Rightarrow> rx \<Rightarrow> Pin list" where
  "scanBytes data rel kind re = scan_from 0 (split_at (CHR 0x0A) data) rel kind re"

datatype pin_error = Unread string | NoBuilder | NoWorkflow | GoDirectives nat

definition pin_scanFile :: "string option \<Rightarrow> string \<Rightarrow> string \<Rightarrow> rx \<Rightarrow> pin_error + Pin list" where
  "pin_scanFile content rel kind re =
     (case content of None \<Rightarrow> Inl (Unread rel) | Some data \<Rightarrow> Inr (scanBytes data rel kind re))"

text \<open>
  The files of a repository: the Dockerfile, the directory of workflows by name and \<open>go.mod\<close>; \<open>None\<close>
  cannot be read. The glob \<open>*.y*ml\<close> picks the workflows.
\<close>

definition workflow_glob :: rx where
  "workflow_glob = Seq [Bol, Many (Cls (\<lambda>_. True)), Lit ''.y'', Many (Cls (\<lambda>_. True)), Lit ''ml'', Eol]"

record repo =
  rp_dockerfile :: "string option"
  rp_workflows :: "(string \<times> string option) list"
  rp_gomod :: "string option"

fun scan_workflows :: "(string \<times> string option) list \<Rightarrow> pin_error + Pin list" where
  "scan_workflows [] = Inr []"
| "scan_workflows ((name, content) # wfs) =
     (case pin_scanFile content (''.github/workflows/'' @ name) ''Go version input to the workflow'' reWorkflowGo of
        Inl e \<Rightarrow> Inl e
      | Inr found \<Rightarrow> (case scan_workflows wfs of Inl e \<Rightarrow> Inl e | Inr others \<Rightarrow> Inr (found @ others)))"

definition CollectPins :: "repo \<Rightarrow> pin_error + Pin list" where
  "CollectPins r =
     (case pin_scanFile (rp_dockerfile r) ''Dockerfile'' ''container base image that builds the shipped binary'' reDockerfileGo of
        Inl e \<Rightarrow> Inl e
      | Inr found \<Rightarrow>
          if found = [] then Inl NoBuilder
          else case scan_workflows (stable_sort (\<lambda>a b. fst a < fst b)
                      (filter (\<lambda>w. MatchString workflow_glob (fst w)) (rp_workflows r))) of
                 Inl e \<Rightarrow> Inl e
               | Inr workflowPins \<Rightarrow>
                   if workflowPins = [] then Inl NoWorkflow
                   else case pin_scanFile (rp_gomod r) ''go.mod'' ''toolchain directive'' reToolchainDirective of
                          Inl e \<Rightarrow> Inl e
                        | Inr toolchainPins \<Rightarrow> Inr (found @ workflowPins @ toolchainPins))"

definition LanguageFloor :: "repo \<Rightarrow> pin_error + Pin" where
  "LanguageFloor r =
     (case pin_scanFile (rp_gomod r) ''go.mod'' ''language floor (`go` directive)'' reGoDirective of
        Inl e \<Rightarrow> Inl e
      | Inr [p] \<Rightarrow> Inr p
      | Inr found \<Rightarrow> Inl (GoDirectives (length found)))"

section \<open>The verdict\<close>

text \<open>\<open>strconv.Atoi\<close>; a component that is not a number counts as -1.\<close>

definition version_split :: "string \<Rightarrow> int list" where
  "version_split v = map (\<lambda>p. case ParseInt p of Inl _ \<Rightarrow> -1 | Inr n \<Rightarrow> n) (split_at (CHR ''.'') v)"

fun compare_parts :: "int list \<Rightarrow> int list \<Rightarrow> int" where
  "compare_parts [] [] = 0"
| "compare_parts (a # as) [] = (if a \<noteq> 0 then (if a < 0 then -1 else 1) else compare_parts as [])"
| "compare_parts [] (b # bs) = (if 0 \<noteq> b then (if 0 < b then -1 else 1) else compare_parts [] bs)"
| "compare_parts (a # as) (b # bs) = (if a \<noteq> b then (if a < b then -1 else 1) else compare_parts as bs)"

definition compare :: "string \<Rightarrow> string \<Rightarrow> int" where
  "compare a b = compare_parts (version_split a) (version_split b)"

datatype pin_problem =
    NoPins
  | Disagreement "string list" "Pin list"
  | BelowMinimum string
  | FloorAbove Pin string

text \<open>The versions that disagree are listed in order; two spellings of one version compare as equal.\<close>

fun lowest :: "string \<Rightarrow> Pin list \<Rightarrow> string" where
  "lowest x [] = x"
| "lowest x (p # ps) = lowest (if compare (Pin_Version p) x < 0 then Pin_Version p else x) ps"

definition Verify :: "Pin list \<Rightarrow> Pin \<Rightarrow> pin_problem list" where
  "Verify pins languageFloor =
     (case pins of
        [] \<Rightarrow> [NoPins]
      | p # ps \<Rightarrow>
          (let versions = remdups (map Pin_Version pins); x = lowest (Pin_Version p) ps
           in (if length versions > 1 then [Disagreement (stable_sort (\<lambda>a b. compare a b < 0) versions) pins] else [])
            @ (if compare x MinimumVersion < 0 then [BelowMinimum x] else [])
            @ (if compare (Pin_Version languageFloor) x > 0 then [FloorAbove languageFloor x] else [])))"


section \<open>Properties\<close>

text \<open>A version as an endless sequence of numbers, and the order of the first difference.\<close>

definition nth_part :: "int list \<Rightarrow> nat \<Rightarrow> int" where "nth_part xs i = (if i < length xs then xs ! i else 0)"

definition before_at :: "int list \<Rightarrow> int list \<Rightarrow> nat \<Rightarrow> bool" where
  "before_at xs ys k \<longleftrightarrow> (\<forall>i < k. nth_part xs i = nth_part ys i) \<and> nth_part xs k < nth_part ys k"

lemma nth_part_simps [simp]: "nth_part [] i = 0" "nth_part (x # xs) 0 = x" "nth_part (x # xs) (Suc i) = nth_part xs i"
  by (simp_all add: nth_part_def)

lemma before_at_step:
  assumes "nth_part xs 0 = a" "nth_part ys 0 = b" "\<And>i. nth_part xs (Suc i) = nth_part xs' i" "\<And>i. nth_part ys (Suc i) = nth_part ys' i"
  shows "(\<exists>k. before_at xs ys k) \<longleftrightarrow> a < b \<or> a = b \<and> (\<exists>k. before_at xs' ys' k)"
proof
  assume "\<exists>k. before_at xs ys k"
  then obtain k where k: "before_at xs ys k" by blast
  show "a < b \<or> a = b \<and> (\<exists>k. before_at xs' ys' k)"
  proof (cases k)
    case 0
    then show ?thesis using k assms(1,2) by (simp add: before_at_def)
  next
    case (Suc j)
    then have "a = b" using k assms(1,2) by (auto simp: before_at_def)
    moreover have "before_at xs' ys' j" using k Suc assms(3,4) by (fastforce simp: before_at_def)
    ultimately show ?thesis by blast
  qed
next
  assume "a < b \<or> a = b \<and> (\<exists>k. before_at xs' ys' k)"
  then show "\<exists>k. before_at xs ys k"
  proof
    assume "a < b"
    then show ?thesis using assms(1,2) by (intro exI [of _ 0]) (simp add: before_at_def)
  next
    assume h: "a = b \<and> (\<exists>k. before_at xs' ys' k)"
    then obtain k where k: "before_at xs' ys' k" by blast
    have "nth_part xs i = nth_part ys i" if "i < Suc k" for i
      using that h k assms by (cases i) (auto simp: before_at_def)
    then have "before_at xs ys (Suc k)" using k assms(3,4) by (simp add: before_at_def)
    then show ?thesis by blast
  qed
qed

lemma compare_parts_less: "compare_parts xs ys < 0 \<longleftrightarrow> (\<exists>k. before_at xs ys k)"
proof (induction xs ys rule: compare_parts.induct)
  case 1
  then show ?case by (simp add: before_at_def)
next
  case (2 a as)
  then show ?case using before_at_step [of "a # as" a "[]" 0 as "[]"] by auto
next
  case (3 b bs)
  then show ?case using before_at_step [of "[]" 0 "b # bs" b "[]" bs] by auto
next
  case (4 a as b bs)
  then show ?case using before_at_step [of "a # as" a "b # bs" b as bs] by auto
qed

lemma compare_parts_swap: "compare_parts ys xs = - compare_parts xs ys"
  by (induction xs ys rule: compare_parts.induct) auto

lemma compare_swap: "compare b a = - compare a b"
  unfolding compare_def by (rule compare_parts_swap)

lemma lowest_same: "(\<forall>p \<in> set ps. Pin_Version p = x) \<Longrightarrow> lowest x ps = x"
  by (induction ps) (auto simp: compare_def)

lemma one_version: "length (remdups xs) \<le> 1 \<longleftrightarrow> (\<forall>x \<in> set xs. \<forall>y \<in> set xs. x = y)"
proof -
  have "length (remdups xs) = card (set xs)" by (simp add: length_remdups_card_conv)
  then show ?thesis by (simp add: card_le_Suc0_iff_eq)
qed

text \<open>
  The verdict: there is no problem exactly when there is a pin, every pin names one version, that version
  is not below the minimum and the language floor is not above it, by the numbers and not by the text.
\<close>

theorem Verify_ok:
  "Verify pins fl = [] \<longleftrightarrow>
     pins \<noteq> [] \<and> (\<exists>x. (\<forall>p \<in> set pins. Pin_Version p = x)
       \<and> \<not> (\<exists>k. before_at (version_split x) (version_split MinimumVersion) k)
       \<and> \<not> (\<exists>k. before_at (version_split x) (version_split (Pin_Version fl)) k))"
proof (cases pins)
  case Nil
  then show ?thesis by (simp add: Verify_def)
next
  case (Cons p ps)
  have one: "length (remdups (map Pin_Version pins)) \<le> 1 \<longleftrightarrow> (\<forall>q \<in> set pins. Pin_Version q = Pin_Version p)"
    unfolding one_version using Cons by auto
  define same where "same \<longleftrightarrow> (\<forall>q \<in> set pins. Pin_Version q = Pin_Version p)"
  have low: "lowest (Pin_Version p) ps = Pin_Version p" if same
    by (rule lowest_same) (use that Cons in \<open>auto simp: same_def\<close>)
  have "Verify pins fl = [] \<longleftrightarrow> same \<and> \<not> compare (lowest (Pin_Version p) ps) MinimumVersion < 0
      \<and> \<not> compare (Pin_Version fl) (lowest (Pin_Version p) ps) > 0"
  proof -
    have "Verify pins fl = [] \<longleftrightarrow> length (remdups (map Pin_Version pins)) \<le> 1
        \<and> \<not> compare (lowest (Pin_Version p) ps) MinimumVersion < 0 \<and> \<not> compare (Pin_Version fl) (lowest (Pin_Version p) ps) > 0"
      unfolding Verify_def by (subst Cons) (simp add: Let_def not_less)
    then show ?thesis using one [folded same_def] by simp
  qed
  then have "Verify pins fl = [] \<longleftrightarrow> same \<and> \<not> compare (Pin_Version p) MinimumVersion < 0
      \<and> \<not> compare (Pin_Version fl) (Pin_Version p) > 0"
    using low by auto
  moreover have "compare (Pin_Version fl) (Pin_Version p) > 0 \<longleftrightarrow> compare (Pin_Version p) (Pin_Version fl) < 0"
    unfolding compare_swap [of "Pin_Version p" "Pin_Version fl"] by simp
  moreover have "same \<longleftrightarrow> (\<forall>q \<in> set ps. Pin_Version q = Pin_Version p)" using Cons by (simp add: same_def)
  ultimately show ?thesis using Cons unfolding compare_def compare_parts_less by simp
qed

end
