(* ===== verification/PinGate.thy ===== *)
theory PinGate
  imports SecretScan VulnGate Toolchain
begin

text \<open>
  The pin gate of the build, \<open>internal/pingate\<close>, first part: the verdict (\<open>pingate.go\<close>), the walk over the
  checkout, and the scanners of container images in Dockerfiles, compose files (\<open>images.go\<close>), workflows
  (\<open>workflows.go\<close>) and Go sources (\<open>gosource.go\<close>). The file system, git, the YAML decoder and the Go parser
  are parameters; what the gate computes from their answers is defined here.
\<close>

section \<open>The verdict\<close>

definition ConventionsFile :: string where "ConventionsFile = ''documentation/pinning-conventions.md''"

record Clause =
  Clause_ID :: string
  Clause_Summary :: string

definition P1 :: Clause where
  "P1 = \<lparr>Clause_ID = ''P1'', Clause_Summary = ''a container image is pinned by tag AND digest''\<rparr>"
definition P2 :: Clause where
  "P2 = \<lparr>Clause_ID = ''P2'', Clause_Summary = ''base images follow the same rule: a FROM line is an image reference like any other''\<rparr>"
definition P3 :: Clause where
  "P3 = \<lparr>Clause_ID = ''P3'', Clause_Summary = ''actions are pinned to a commit SHA with the human-readable version in a trailing comment''\<rparr>"
definition P4 :: Clause where
  "P4 = \<lparr>Clause_ID = ''P4'', Clause_Summary = ''dependency manifests are locked: lockfile committed, no latest, no unbounded range, node lifecycle scripts disabled unless the repo opts back in with a committed reason''\<rparr>"
definition P6 :: Clause where
  "P6 = \<lparr>Clause_ID = ''P6'', Clause_Summary = ''there is never a fallback: a build that cannot get exactly what it pinned stops''\<rparr>"

record Violation =
  V_File :: string
  V_Line :: nat
  Reference :: string
  V_Clause :: Clause
  Why :: string

definition Violation_String :: "Violation \<Rightarrow> string" where
  "Violation_String v = V_File v @ '':'' @ show_nat (V_Line v) @ '': '' @ Reference v @ '': breaks '' @ Clause_ID (V_Clause v)
     @ '' ('' @ Clause_Summary (V_Clause v) @ '') of '' @ ConventionsFile @ '': '' @ Why v"

record Category =
  Category_Name :: string
  Examined :: nat
  Detail :: string

record PinReport =
  Categories :: "Category list"
  Violations :: "Violation list"

definition EmptyCategories :: "PinReport \<Rightarrow> Category list" where
  "EmptyCategories r = filter (\<lambda>c. Examined c = 0) (Categories r)"

definition Report_Examined :: "PinReport \<Rightarrow> nat" where
  "Report_Examined r = sum_list (map Examined (Categories r))"

text \<open>A name in double quotes; the names of the categories need no escapes.\<close>

definition dquoted :: "string \<Rightarrow> string" where "dquoted s = CHR 0x22 # s @ [CHR 0x22]"

definition Report_Err :: "PinReport \<Rightarrow> string list" where
  "Report_Err r = map Violation_String (Violations r)
     @ map (\<lambda>c. ''category '' @ dquoted (Category_Name c) @ '' examined 0 references ('' @ Detail c
         @ ''): a pin check that has stopped looking is not a compliant tree, it is an unguarded one - fix the pattern or the path in internal/pingate, never the count'')
       (EmptyCategories r)"

section \<open>The checkout\<close>

text \<open>
  What the gate asks the operating system about one root: the base name of the root directory, the tree
  \<open>filepath.WalkDir\<close> sees, the contents of a path relative to the root, whether a path exists, and the
  three questions to git.
\<close>

datatype root_node = Missing | Unstattable | Tree node

record checkout =
  co_name :: string
  co_tree :: root_node
  co_read :: "string \<Rightarrow> file_read"
  co_stat :: "string \<Rightarrow> bool"
  co_worktree :: bool
  co_tracked :: "string \<Rightarrow> bool"
  co_ignored :: "string \<Rightarrow> bool"

datatype tree_error = WalkFailed string | ReadingFailed string

definition DemonstrationsDir :: string where "DemonstrationsDir = ''internal/pingate/testdata/refusals''"

definition pin_skipDirs :: "string list" where
  "pin_skipDirs = [''.git'', ''node_modules'', ''vendor'', ''build'', ''.gradle'', ''.idea'']"

text \<open>
  A walk that skips some directories, by their relative path and name, and picks some files, by their
  relative path and whether they are regular.
\<close>

function visit :: "(string \<Rightarrow> string \<Rightarrow> bool) \<Rightarrow> (string \<Rightarrow> bool \<Rightarrow> bool) \<Rightarrow> string \<Rightarrow> string \<Rightarrow> node \<Rightarrow> tree_error + string list"
  and visit_all :: "(string \<Rightarrow> string \<Rightarrow> bool) \<Rightarrow> (string \<Rightarrow> bool \<Rightarrow> bool) \<Rightarrow> string \<Rightarrow> (string \<times> node) list \<Rightarrow> tree_error + string list" where
  "visit skip pick rel name (Directory es) =
     (if skip rel name then Inr [] else case es of None \<Rightarrow> Inl (WalkFailed rel) | Some es \<Rightarrow> visit_all skip pick rel es)"
| "visit skip pick rel name Special = Inr (if pick rel False then [rel] else [])"
| "visit skip pick rel name (Regular sz con) = Inr (if pick rel True then [rel] else [])"
| "visit_all skip pick rel [] = Inr []"
| "visit_all skip pick rel ((name, nd) # es) =
     (case visit skip pick (join_path rel name) name nd of
        Inl e \<Rightarrow> Inl e
      | Inr fs \<Rightarrow> (case visit_all skip pick rel es of Inl e \<Rightarrow> Inl e | Inr gs \<Rightarrow> Inr (fs @ gs)))"
  by pat_completeness auto
termination by (relation "measure (case_sum (\<lambda>(_, _, _, _, nd). size nd) (\<lambda>(_, _, _, es). size_list (size_prod (\<lambda>_. 0) size) es))") auto

definition not_scanned :: "string \<Rightarrow> string \<Rightarrow> bool" where
  "not_scanned rel name \<longleftrightarrow> rel = DemonstrationsDir \<or> name \<in> set pin_skipDirs"

definition walkFiles :: "checkout \<Rightarrow> (string \<Rightarrow> bool) \<Rightarrow> tree_error + string list" where
  "walkFiles co keep =
     (case co_tree co of
        Missing \<Rightarrow> Inr []
      | Unstattable \<Rightarrow> Inl (WalkFailed ''.'')
      | Tree nd \<Rightarrow> (case visit not_scanned (\<lambda>rel regular. regular \<and> keep rel) ''.'' (co_name co) nd of Inl e \<Rightarrow> Inl e | Inr out \<Rightarrow> Inr (sort_strings out)))"

text \<open>Writing a file into a tree, with the directories above it.\<close>

fun put_node :: "string list \<Rightarrow> node \<Rightarrow> (string \<times> node) list \<Rightarrow> (string \<times> node) list" where
  "put_node [] nd es = es"
| "put_node [name] nd es = filter (\<lambda>e. fst e \<noteq> name) es @ [(name, nd)]"
| "put_node (name # seg # segs) nd es =
     (let inner = (case map_of es name of Some (Directory (Some inner)) \<Rightarrow> inner | _ \<Rightarrow> [])
      in filter (\<lambda>e. fst e \<noteq> name) es @ [(name, Directory (Some (put_node (seg # segs) nd inner)))])"

definition plain_file :: "string \<Rightarrow> node" where "plain_file data = Regular (Some (length data)) (Bytes data False)"

definition readFile :: "checkout \<Rightarrow> string \<Rightarrow> tree_error + string option" where
  "readFile co rel =
     (case co_read co rel of
        Absent \<Rightarrow> Inr None
      | ReadError \<Rightarrow> Inl (ReadingFailed rel)
      | Contents s \<Rightarrow> Inr (Some s))"

definition text_lines :: "string \<Rightarrow> string list" where
  "text_lines s = split_at (CHR 0x0A) (replace_all [CHR 0x0D, CHR 0x0A] [CHR 0x0A] s)"

definition readLines :: "checkout \<Rightarrow> string \<Rightarrow> tree_error + string list option" where
  "readLines co rel = map_sum id (map_option text_lines) (readFile co rel)"

text \<open>The loop over the files of a category: the first file that cannot be read ends it, an absent one is skipped.\<close>

fun read_each :: "checkout \<Rightarrow> string list \<Rightarrow> tree_error + (string \<times> string) list" where
  "read_each co [] = Inr []"
| "read_each co (rel # rels) =
     (case readFile co rel of
        Inl e \<Rightarrow> Inl e
      | Inr con \<Rightarrow>
          (case read_each co rels of
             Inl e \<Rightarrow> Inl e
           | Inr fs \<Rightarrow> Inr (case con of None \<Rightarrow> fs | Some s \<Rightarrow> (rel, s) # fs)))"

definition category_files :: "checkout \<Rightarrow> (string \<Rightarrow> bool) \<Rightarrow> tree_error + string list \<times> (string \<times> string) list" where
  "category_files co keep =
     (case walkFiles co keep of
        Inl e \<Rightarrow> Inl e
      | Inr files \<Rightarrow> map_sum id (Pair files) (read_each co files))"

text \<open>What a scanner adds to the report: a category and violations.\<close>

definition add_category :: "Category \<Rightarrow> Violation list \<Rightarrow> PinReport \<Rightarrow> PinReport" where
  "add_category c vs r = r\<lparr>Categories := Categories r @ [c], Violations := Violations r @ vs\<rparr>"

section \<open>Paths\<close>

text \<open>\<open>path.Base\<close>; and \<open>path.Dir\<close> of a path that is already clean, as those of a walk are.\<close>

fun strip_slashes :: "string \<Rightarrow> string" where
  "strip_slashes s = rev (dropWhile (\<lambda>c. c = CHR ''/'') (rev s))"

definition path_Base :: "string \<Rightarrow> string" where
  "path_Base s =
     (if s = [] then ''.''
      else if strip_slashes s = [] then ''/''
      else List.last (split_at (CHR ''/'') (strip_slashes s)))"

definition path_Dir :: "string \<Rightarrow> string" where
  "path_Dir s = (case butlast (split_at (CHR ''/'') s) of [] \<Rightarrow> ''.'' | segs \<Rightarrow> join ''/'' segs)"


section \<open>What is not the gate's own code\<close>

text \<open>
  A document as \<open>yaml.v3\<close> decodes it into a \<open>yaml.Node\<close>.
\<close>

datatype ykind = DocumentNode | SequenceNode | MappingNode | ScalarNode | AliasNode

datatype ynode = YNode (ykind: ykind) (yvalue: string) (yline: nat) (ycontent: "ynode list")

text \<open>
  A file as \<open>go/parser\<close> gives it: the nodes the gate distinguishes, every other node as its children. A
  literal has its identity, its line, whether it is a string, and the value \<open>strconv.Unquote\<close> finds.
\<close>

datatype gonode =
    BasicLit nat nat bool "string option"
  | Ident string
  | SelectorExpr gonode string
  | CallExpr nat gonode "gonode list"
  | ValueSpec "string list" "gonode list" "gonode list"
  | AssignStmt "gonode list" "gonode list"
  | KeyValueExpr gonode gonode
  | Node "gonode list"

record gofile =
  go_imports :: "string option list"
  go_tree :: gonode

text \<open>
  The libraries of the requests' runtime and, with the text of their errors, the decoders; \<open>strconv.Quote\<close>.
\<close>

record libraries = runtime +
  yaml_Unmarshal :: "string \<Rightarrow> string + ynode"
  parser_ParseFile :: "string \<Rightarrow> string + gofile"
  json_error :: "string \<Rightarrow> string"
  strconv_Quote :: "string \<Rightarrow> string"

section \<open>Image references\<close>

definition hex_lower :: "char \<Rightarrow> bool" where
  "hex_lower c \<longleftrightarrow> is_digit c \<or> CHR ''a'' \<le> c \<and> c \<le> CHR ''f''"

definition name_char :: "char \<Rightarrow> bool" where "name_char c \<longleftrightarrow> \<not> rx_space c \<and> c \<noteq> CHR ''@''"
definition tag_char :: "char \<Rightarrow> bool" where
  "tag_char c \<longleftrightarrow> \<not> rx_space c \<and> c \<notin> {CHR ''@'', CHR '':'', CHR ''/''}"

definition reImageRef :: rx where
  "reImageRef = Seq [Bol, Many1 (Cls name_char), Lit '':'', Many1 (Cls tag_char), Lit ''@sha256:'', Times 64 (Cls hex_lower), Eol]"

text \<open>A literal in either case, for letters whose only other case is the ASCII one.\<close>

fun LitI :: "string \<Rightarrow> rx" where
  "LitI [] = Eps"
| "LitI (c # s) = Cat (Cls (\<lambda>x. ascii_lower x = ascii_lower c)) (LitI s)"

definition reFrom :: rx where
  "reFrom = Seq [Bol, spaces, LitI ''FROM'', spaces1, Cap 1 (Many1 (Cls not_newline)), Eol]"

definition withDigestHint :: "string \<Rightarrow> string" where
  "withDigestHint r =
     (let ref = takeWhile (\<lambda>c. c \<noteq> CHR ''@'') r
      in if CHR '':'' \<notin> set (path_Base ref) then ref @ '':<tag>@sha256:<64 hex>'' else ref @ ''@sha256:<64 hex>'')"

definition isDockerfile :: "string \<Rightarrow> bool" where
  "isDockerfile rel =
     (let name = path_Base rel
      in name = ''Dockerfile'' \<or> has_prefix name ''Dockerfile.'' \<or> has_suffix (ToLower name) ''.dockerfile'')"

definition commented :: "string \<Rightarrow> bool" where "commented line \<longleftrightarrow> has_prefix (TrimSpace line) ''#''"

text \<open>\<open>strings.EqualFold\<close> with an ASCII word: the Kelvin sign folds to k and the long s to s.\<close>

definition fold_case :: "string \<Rightarrow> string" where
  "fold_case s = to_lower (replace_all [CHR 0xC5, CHR 0xBF] ''s'' (replace_all [CHR 0xE2, CHR 0x84, CHR 0xAA] ''k'' s))"

definition EqualFold :: "string \<Rightarrow> string \<Rightarrow> bool" where "EqualFold s w \<longleftrightarrow> fold_case s = to_lower w"

fun from_ref :: "string list \<Rightarrow> string" where
  "from_ref [] = []"
| "from_ref (f # fs) = (if has_prefix f ''--'' then from_ref fs else f)"

fun stage_names :: "libraries \<Rightarrow> string list \<Rightarrow> string list" where
  "stage_names lib (a # b # fs) = (if EqualFold a ''AS'' then [unicode_lower lib b] else []) @ stage_names lib (b # fs)"
| "stage_names lib _ = []"

definition grade_from :: "libraries \<Rightarrow> string list \<Rightarrow> string \<Rightarrow> nat \<Rightarrow> string \<Rightarrow> string \<Rightarrow> Violation list" where
  "grade_from lib stages rel n arg ref =
     (if ref = [] then [\<lparr>V_File = rel, V_Line = n, Reference = TrimSpace arg, V_Clause = P2, Why = ''this FROM names no image at all''\<rparr>]
      else if CHR ''$'' \<in> set ref
      then [\<lparr>V_File = rel, V_Line = n, Reference = ref, V_Clause = P6,
             Why = ''the base image is assembled from a build argument, so this file does not state what it will build on and a caller chooses it at build time; write the reference out in full as NAME:TAG@sha256:<64 hex>''\<rparr>]
      else if unicode_lower lib ref \<in> set stages then []
      else if \<not> MatchString reImageRef ref
      then [\<lparr>V_File = rel, V_Line = n, Reference = ref, V_Clause = P2,
             Why = ''a base image is an image reference like any other and takes BOTH halves; write '' @ withDigestHint ref\<rparr>]
      else [])"

fun dockerfile_lines :: "libraries \<Rightarrow> string \<Rightarrow> nat \<Rightarrow> string list \<Rightarrow> string list \<Rightarrow> nat \<times> Violation list" where
  "dockerfile_lines lib rel n stages [] = (0, [])"
| "dockerfile_lines lib rel n stages (line # lines) =
     (case (if commented line then None else FindStringSubmatch reFrom line) of
        None \<Rightarrow> dockerfile_lines lib rel (Suc n) stages lines
      | Some m \<Rightarrow>
          (let args = Fields (m 1); stages' = stages @ stage_names lib args
           in case dockerfile_lines lib rel (Suc n) stages' lines of
                (k, vs) \<Rightarrow> (Suc k, grade_from lib stages' rel (Suc n) (m 1) (from_ref args) @ vs)))"

definition scanDockerfiles :: "libraries \<Rightarrow> checkout \<Rightarrow> PinReport \<Rightarrow> tree_error + PinReport" where
  "scanDockerfiles lib co r =
     (case category_files co isDockerfile of
        Inl e \<Rightarrow> Inl e
      | Inr (files, texts) \<Rightarrow>
          (let res = map (\<lambda>(rel, s). dockerfile_lines lib rel 0 [] (text_lines s)) texts; examined = sum_list (map fst res)
           in Inr (add_category
                \<lparr>Category_Name = ''container base images (Dockerfile FROM)'', Examined = examined,
                 Detail = show_nat examined @ '' FROM instruction(s) across '' @ show_nat (length files) @ '' Dockerfile(s)''\<rparr>
                (concat (map snd res)) r)))"

section \<open>Compose files\<close>

definition yaml_suffix :: "string \<Rightarrow> string option" where
  "yaml_suffix name =
     (if has_suffix name ''.yml'' then Some (take (length name - 4) name)
      else if has_suffix name ''.yaml'' then Some (take (length name - 5) name)
      else None)"

definition isComposeFile :: "string \<Rightarrow> bool" where
  "isComposeFile rel =
     (case yaml_suffix (ToLower (path_Base rel)) of
        None \<Rightarrow> False
      | Some base \<Rightarrow> base = ''compose'' \<or> base = ''docker-compose'' \<or> has_prefix base ''compose.'' \<or> has_prefix base ''docker-compose.'')"

text \<open>The keys and values of a mapping node; a key without a value is not looked at.\<close>

fun ypairs :: "ynode list \<Rightarrow> (ynode \<times> ynode) list" where
  "ypairs (k # v # ns) = (k, v) # ypairs ns"
| "ypairs _ = []"

definition mappingValue :: "ynode \<Rightarrow> string \<Rightarrow> ynode option" where
  "mappingValue node key =
     (if ykind node \<noteq> MappingNode then None
      else map_option snd (List.find (\<lambda>(k, v). yvalue k = key) (ypairs (ycontent node))))"

definition composeServices :: "ynode \<Rightarrow> (string \<times> ynode) list" where
  "composeServices doc =
     (case ycontent doc of
        [] \<Rightarrow> []
      | first # _ \<Rightarrow>
          (case mappingValue first ''services'' of
             None \<Rightarrow> []
           | Some services \<Rightarrow>
               if ykind services \<noteq> MappingNode then []
               else map (\<lambda>(k, v). (yvalue k, v)) (ypairs (ycontent services))))"

definition grade_service :: "libraries \<Rightarrow> string \<Rightarrow> string \<Rightarrow> ynode \<Rightarrow> Violation list" where
  "grade_service lib rel name img =
     (let ref = yvalue img
      in if contains ref ''${'' \<or> contains ref ''$(''
         then [\<lparr>V_File = rel, V_Line = yline img, Reference = ref, V_Clause = P6,
                Why = ''service '' @ strconv_Quote lib name @ '' takes its image from an environment variable, so this file does not state what it runs; write the reference out in full''\<rparr>]
         else if \<not> MatchString reImageRef ref
         then [\<lparr>V_File = rel, V_Line = yline img, Reference = ref, V_Clause = P1,
                Why = ''service '' @ strconv_Quote lib name @ '' is not built from this repository, so it pulls a published image and takes BOTH a tag and a digest; write '' @ withDigestHint ref\<rparr>]
         else [])"

text \<open>One compose file: the images examined, those that are built here, and the violations.\<close>

definition compose_file :: "libraries \<Rightarrow> string \<Rightarrow> string \<Rightarrow> nat \<times> nat \<times> Violation list" where
  "compose_file lib rel data =
     (case yaml_Unmarshal lib data of
        Inl err \<Rightarrow> (0, 0, [\<lparr>V_File = rel, V_Line = 1, Reference = rel, V_Clause = P6,
          Why = ''this compose file does not parse as YAML, so its image references could not be checked: '' @ err\<rparr>])
      | Inr doc \<Rightarrow>
          (let images = filter (\<lambda>(name, svc). mappingValue svc ''image'' \<noteq> None) (composeServices doc);
               pulled = filter (\<lambda>(name, svc). mappingValue svc ''build'' = None) images
           in (length images, length images - length pulled,
               concat (map (\<lambda>(name, svc). case mappingValue svc ''image'' of
                  None \<Rightarrow> [] | Some img \<Rightarrow> grade_service lib rel name img) pulled))))"

definition scanComposeFiles :: "libraries \<Rightarrow> checkout \<Rightarrow> PinReport \<Rightarrow> tree_error + PinReport" where
  "scanComposeFiles lib co r =
     (case category_files co isComposeFile of
        Inl e \<Rightarrow> Inl e
      | Inr (files, texts) \<Rightarrow>
          (let res = map (\<lambda>(rel, s). compose_file lib rel s) texts;
               examined = sum_list (map fst res); built = sum_list (map (fst \<circ> snd) res)
           in Inr (add_category
                \<lparr>Category_Name = ''compose service images'', Examined = examined,
                 Detail = show_nat examined @ '' image: key(s) across '' @ show_nat (length files) @ '' compose file(s); ''
                   @ show_nat built @ '' belong to services built from this repo and need no digest''\<rparr>
                (concat (map (snd \<circ> snd) res)) r)))"


section \<open>Go sources\<close>

fun UpTo :: "nat \<Rightarrow> rx \<Rightarrow> rx" where
  "UpTo 0 r = Eps"
| "UpTo (Suc n) r = Opt (Cat r (UpTo n r))"

definition lower_alnum :: "char \<Rightarrow> bool" where "lower_alnum c \<longleftrightarrow> is_lower c \<or> is_digit c"

definition goImageNameComponent :: rx where
  "goImageNameComponent = Cat (Many1 (Cls lower_alnum))
     (Many (Cat (Alt (Cls (\<lambda>c. c = CHR ''.'' \<or> c = CHR ''_'')) (Alt (Lit ''__'') (Many1 (Cls (\<lambda>c. c = CHR ''-'')))))
             (Many1 (Cls lower_alnum))))"

definition reGoImageCandidate :: rx where
  "reGoImageCandidate = Seq [Bol, goImageNameComponent, Many (Cat (Lit ''/'') goImageNameComponent),
     Opt (Seq [Lit '':'', Cls is_word, UpTo 127 (Cls (\<lambda>c. is_word c \<or> c = CHR ''.'' \<or> c = CHR ''-''))]),
     Opt (Cat (Lit ''@sha256:'') (Many1 (Cls is_alnum))), Eol]"

definition reImageIdent :: rx where "reImageIdent = LitI ''image''"

definition containerStarters :: "string list" where
  "containerStarters = [''Run'', ''RunContainer'', ''GenericContainer'']"

definition isGoSource :: "string \<Rightarrow> bool" where "isGoSource rel \<longleftrightarrow> has_suffix rel ''.go''"

text \<open>\<open>ast.Inspect\<close> visits a node before its children, and the children in the order of the source.\<close>

fun inspect :: "gonode \<Rightarrow> gonode list" where
  "inspect (BasicLit i l s v) = [BasicLit i l s v]"
| "inspect (Ident x) = [Ident x]"
| "inspect (SelectorExpr e s) = SelectorExpr e s # inspect e @ [Ident s]"
| "inspect (CallExpr l f as) = CallExpr l f as # inspect f @ concat (map inspect as)"
| "inspect (ValueSpec ns ts vs) = ValueSpec ns ts vs # map Ident ns @ concat (map inspect ts) @ concat (map inspect vs)"
| "inspect (AssignStmt ls rs) = AssignStmt ls rs # concat (map inspect ls) @ concat (map inspect rs)"
| "inspect (KeyValueExpr k v) = KeyValueExpr k v # inspect k @ inspect v"
| "inspect (Node ns) = Node ns # concat (map inspect ns)"

fun exprName :: "gonode \<Rightarrow> string" where
  "exprName (Ident x) = x"
| "exprName (SelectorExpr e s) = s"
| "exprName (BasicLit i l s v) = (if s then (case v of Some x \<Rightarrow> x | None \<Rightarrow> []) else [])"
| "exprName _ = []"

fun bind_lit :: "string \<Rightarrow> gonode \<Rightarrow> (nat \<rightharpoonup> string) \<Rightarrow> (nat \<rightharpoonup> string)" where
  "bind_lit x (BasicLit i l s v) names = names(i \<mapsto> x)"
| "bind_lit x _ names = names"

fun note_names :: "gonode \<Rightarrow> (nat \<rightharpoonup> string) \<Rightarrow> (nat \<rightharpoonup> string)" where
  "note_names (ValueSpec ns ts vs) names = fold (\<lambda>(x, v). bind_lit x v) (zip ns vs) names"
| "note_names (AssignStmt ls rs) names = fold (\<lambda>(e, v). bind_lit (exprName e) v) (zip ls rs) names"
| "note_names (KeyValueExpr k v) names = bind_lit (exprName k) v names"
| "note_names _ names = names"

definition literalNames :: "gonode \<Rightarrow> (nat \<rightharpoonup> string)" where
  "literalNames file = fold note_names (inspect file) Map.empty"

definition isGoImageReference :: "string \<Rightarrow> string \<Rightarrow> bool" where
  "isGoImageReference v ident \<longleftrightarrow>
     MatchString reGoImageCandidate v
     \<and> (CHR '':'' \<in> set v \<or> CHR ''@'' \<in> set v)
     \<and> (CHR ''/'' \<in> set v \<or> contains v ''@sha256:'' \<or> MatchString reImageIdent ident)"

text \<open>The line of the first call, in the order of the visit, that starts a container; 0 when there is none.\<close>

fun starter_line :: "gonode list \<Rightarrow> nat" where
  "starter_line (CallExpr l (SelectorExpr e s) as # ns) =
     (if s \<in> set containerStarters \<and> l \<noteq> 0 then l else starter_line ns)"
| "starter_line (n # ns) = starter_line ns"
| "starter_line [] = 0"

definition startsAContainer :: "gofile \<Rightarrow> nat \<times> bool" where
  "startsAContainer file =
     (if \<exists>p \<in> set (go_imports file). case p of Some p \<Rightarrow> contains p ''testcontainers'' | None \<Rightarrow> False
      then let line = starter_line (inspect (go_tree file)) in (line, line \<noteq> 0)
      else (0, False))"

fun image_literals :: "(nat \<rightharpoonup> string) \<Rightarrow> gonode list \<Rightarrow> (nat \<times> string) list" where
  "image_literals names (BasicLit i l True (Some v) # ns) =
     (if isGoImageReference v (case names i of Some x \<Rightarrow> x | None \<Rightarrow> []) then [(l, v)] else []) @ image_literals names ns"
| "image_literals names (n # ns) = image_literals names ns"
| "image_literals names [] = []"

definition checkGoFile :: "string \<Rightarrow> gofile \<Rightarrow> nat \<times> Violation list" where
  "checkGoFile rel file =
     (let lits = image_literals (literalNames (go_tree file)) (inspect (go_tree file));
          out = map (\<lambda>(l, v). \<lparr>V_File = rel, V_Line = l, Reference = v, V_Clause = P1,
                   Why = ''this string is a container image reference that something here PULLS, so it takes both halves exactly as a compose `image:` does: the tag stays readable and the digest is what actually resolves, and a tag alone is moved by its publisher under every run; write '' @ withDigestHint v\<rparr>)
                 (filter (\<lambda>(l, v). \<not> MatchString reImageRef v) lits)
      in (length lits,
          out @ (case startsAContainer file of (line, starts) \<Rightarrow>
            if starts \<and> lits = []
            then [\<lparr>V_File = rel, V_Line = line, Reference = ''testcontainers'', V_Clause = P1,
                   Why = ''this file starts a container with testcontainers but names no image reference this gate can read, so what it runs is decided somewhere the pin check cannot see; keep the reference in this file as a single string literal pinned NAME:TAG@sha256:<64 hex>''\<rparr>]
            else [])))"

text \<open>One Go file: whether it parses, how many references it names, and the violations.\<close>

definition go_file :: "libraries \<Rightarrow> string \<Rightarrow> string \<Rightarrow> nat \<times> nat \<times> Violation list" where
  "go_file lib rel data =
     (case parser_ParseFile lib data of
        Inl err \<Rightarrow> (0, 0, [\<lparr>V_File = rel, V_Line = 1, Reference = rel, V_Clause = P6,
          Why = ''this Go file does not parse, so any image reference it names could not be checked: '' @ err\<rparr>])
      | Inr file \<Rightarrow> (1, checkGoFile rel file))"

definition scanGoSources :: "libraries \<Rightarrow> checkout \<Rightarrow> PinReport \<Rightarrow> tree_error + PinReport" where
  "scanGoSources lib co r =
     (case category_files co isGoSource of
        Inl e \<Rightarrow> Inl e
      | Inr (files, texts) \<Rightarrow>
          (let res = map (\<lambda>(rel, s). go_file lib rel s) texts;
               parsed = sum_list (map fst res); examined = sum_list (map (fst \<circ> snd) res)
           in Inr (add_category
                \<lparr>Category_Name = ''container image references in Go source'', Examined = examined,
                 Detail = show_nat examined @ '' whole-literal image reference(s) across '' @ show_nat parsed
                   @ '' parsed .go file(s); a literal is examined when it names a repository path, carries a digest, or is bound to an identifier that says image''\<rparr>
                (concat (map (snd \<circ> snd) res)) r)))"

section \<open>Workflows\<close>

definition not_space :: "char \<Rightarrow> bool" where "not_space c \<longleftrightarrow> \<not> rx_space c"

definition reUses :: rx where
  "reUses = Seq [Bol, spaces, Opt (Cat (Lit ''-'') spaces1), Lit ''uses:'', spaces, Cap 1 (Many1 (Cls not_space)), spaces,
     Cap 2 (Many (Cls not_newline)), Eol]"

definition reActionSHA :: rx where
  "reActionSHA = Seq [Bol, Many1 (Cls name_char), Lit ''@'', Times 40 (Cls hex_lower), Eol]"

definition reVersionComment :: rx where
  "reVersionComment = Seq [Bol, Lit ''#'', spaces, Cap 1 (Seq [Lit ''v'', Cls is_digit,
     Many (Cls (\<lambda>c. is_word c \<or> c = CHR ''.'' \<or> c = CHR ''-''))])]"

definition isWorkflow :: "string \<Rightarrow> bool" where
  "isWorkflow rel \<longleftrightarrow> path_Dir rel = ''.github/workflows'' \<and> yaml_suffix (ToLower (path_Base rel)) \<noteq> None"

text \<open>\<open>strings.Trim\<close> with the two quote characters.\<close>

definition is_quote :: "char \<Rightarrow> bool" where "is_quote c \<longleftrightarrow> c = CHR 0x22 \<or> c = CHR 0x27"
definition trim_quotes :: "string \<Rightarrow> string" where
  "trim_quotes s = rev (dropWhile is_quote (rev (dropWhile is_quote s)))"

definition is_local :: "string \<Rightarrow> bool" where
  "is_local ref \<longleftrightarrow> has_prefix ref ''./'' \<or> has_prefix ref (CHR ''.'' # [CHR 0x5C])"

definition grade_uses :: "string \<Rightarrow> nat \<Rightarrow> string \<Rightarrow> string \<Rightarrow> Violation list" where
  "grade_uses rel n ref trailing =
     (let v = \<lambda>c w. [\<lparr>V_File = rel, V_Line = n, Reference = ref, V_Clause = c, Why = w\<rparr>]
      in if is_local ref then []
         else if has_prefix ref ''docker://''
         then (let img = drop 9 ref
               in if MatchString reImageRef img then []
                  else v P1 (''a docker:// step runs a published container image, which takes both a tag and a digest; write docker://'' @ withDigestHint img))
         else if \<not> MatchString reActionSHA ref
         then v P3 ''this names a tag or a branch, and a publisher moves those under every consumer that wrote one; pin owner/action@<40-char lowercase commit sha> and put the version in a trailing `# v...` comment''
         else if FindStringSubmatch reVersionComment trailing = None
         then v P3 ''the commit SHA is pinned but nothing says which released version it is, so the next bump is a guess; add a trailing comment naming it, e.g. `# v4`''
         else [])"

text \<open>The \<open>uses:\<close> lines of a workflow, with their numbers, references and what trails them.\<close>

fun uses_lines :: "nat \<Rightarrow> string list \<Rightarrow> (nat \<times> string \<times> string) list" where
  "uses_lines n [] = []"
| "uses_lines n (line # lines) =
     (case (if commented line then None else FindStringSubmatch reUses line) of
        None \<Rightarrow> uses_lines (Suc n) lines
      | Some m \<Rightarrow> (Suc n, trim_quotes (m 1), TrimSpace (m 2)) # uses_lines (Suc n) lines)"

definition workflowImageViolation :: "string \<Rightarrow> ynode \<Rightarrow> string \<Rightarrow> Violation list" where
  "workflowImageViolation rel img whr =
     (let ref = yvalue img
      in if contains ref ''${{'' \<or> contains ref ''${''
         then [\<lparr>V_File = rel, V_Line = yline img, Reference = ref, V_Clause = P6,
                Why = whr @ '', and it is assembled from an expression, so this file does not state what it runs; write the reference out in full''\<rparr>]
         else if \<not> MatchString reImageRef ref
         then [\<lparr>V_File = rel, V_Line = yline img, Reference = ref, V_Clause = P1,
                Why = whr @ '', and a workflow pulls a published image it does not build, so it takes BOTH a tag and a digest; write '' @ withDigestHint ref\<rparr>]
         else [])"

text \<open>The images one job names, each with the words that say where.\<close>

definition scalar :: "ynode option \<Rightarrow> ynode list" where
  "scalar n = (case n of None \<Rightarrow> [] | Some n \<Rightarrow> if ykind n = ScalarNode then [n] else [])"

definition job_images :: "libraries \<Rightarrow> string \<Rightarrow> ynode \<Rightarrow> (ynode \<times> string) list" where
  "job_images lib job node =
     (if ykind node \<noteq> MappingNode then []
      else (case mappingValue node ''container'' of
              None \<Rightarrow> []
            | Some c \<Rightarrow> map (\<lambda>img. (img, ''job '' @ strconv_Quote lib job @ '' runs in this container''))
                         (scalar (if ykind c = MappingNode then mappingValue c ''image'' else Some c)))
         @ (case mappingValue node ''services'' of
              None \<Rightarrow> []
            | Some services \<Rightarrow>
                if ykind services \<noteq> MappingNode then []
                else concat (map (\<lambda>(k, svc). map (\<lambda>img. (img, ''job '' @ strconv_Quote lib job @ '' attaches service ''
                         @ strconv_Quote lib (yvalue k) @ '' from this image'')) (scalar (mappingValue svc ''image'')))
                       (ypairs (ycontent services)))))"

definition workflow_images :: "libraries \<Rightarrow> ynode \<Rightarrow> (ynode \<times> string) list" where
  "workflow_images lib doc =
     (case ycontent doc of
        [] \<Rightarrow> []
      | first # _ \<Rightarrow>
          (case mappingValue first ''jobs'' of
             None \<Rightarrow> []
           | Some jobs \<Rightarrow>
               if ykind jobs \<noteq> MappingNode then []
               else concat (map (\<lambda>(k, node). job_images lib (yvalue k) node) (ypairs (ycontent jobs)))))"

definition scanWorkflowImages :: "libraries \<Rightarrow> checkout \<Rightarrow> string \<Rightarrow> nat \<times> Violation list" where
  "scanWorkflowImages lib co rel =
     (case readFile co rel of
        Inr (Some data) \<Rightarrow>
          (case yaml_Unmarshal lib data of
             Inl err \<Rightarrow> (0, [\<lparr>V_File = rel, V_Line = 1, Reference = rel, V_Clause = P6,
               Why = ''this workflow does not parse as YAML, so the container images it names could not be checked: '' @ err\<rparr>])
           | Inr doc \<Rightarrow>
               (let images = workflow_images lib doc
                in (length images, concat (map (\<lambda>(img, whr). workflowImageViolation rel img whr) images))))
      | _ \<Rightarrow> (0, []))"

text \<open>One workflow: the images and the \<open>uses:\<close> lines examined, the local actions among them, and the violations.\<close>

definition workflow_file :: "libraries \<Rightarrow> checkout \<Rightarrow> string \<Rightarrow> string \<Rightarrow> nat \<times> nat \<times> nat \<times> Violation list" where
  "workflow_file lib co rel data =
     (case scanWorkflowImages lib co rel of (n, vs) \<Rightarrow>
        let uses = uses_lines 0 (text_lines data)
        in (n, length uses, length (filter (\<lambda>(_, ref, _). is_local ref) uses),
            vs @ concat (map (\<lambda>(l, ref, trailing). grade_uses rel l ref trailing) uses)))"

definition scanWorkflows :: "libraries \<Rightarrow> checkout \<Rightarrow> PinReport \<Rightarrow> tree_error + PinReport" where
  "scanWorkflows lib co r =
     (case category_files co isWorkflow of
        Inl e \<Rightarrow> Inl e
      | Inr (files, texts) \<Rightarrow>
          (let res = map (\<lambda>(rel, s). workflow_file lib co rel s) texts;
               images = sum_list (map fst res); uses = sum_list (map (fst \<circ> snd) res); local = sum_list (map (fst \<circ> snd \<circ> snd) res)
           in Inr (add_category
                \<lparr>Category_Name = ''workflow action and image references'', Examined = images + uses,
                 Detail = show_nat uses @ '' uses: line(s) and '' @ show_nat images @ '' job container/service image(s) across ''
                   @ show_nat (length files) @ '' workflow(s); '' @ show_nat local @ '' are local actions in this repo''\<rparr>
                (concat (map (snd \<circ> snd \<circ> snd) res)) r)))"

end
