(* ===== verification/PinManifests.thy ===== *)
theory PinManifests
  imports PinGate
begin

text \<open>
  The pin gate, second part: the scanners of dependency manifests. \<open>manifests.go\<close>: the Go module graph, the
  tool versions of the Makefile, node manifests; \<open>gradle.go\<close>: the wrapper's distribution, the version
  catalogs and the build scripts.
\<close>

section \<open>The Go module\<close>

definition not_paren :: "char \<Rightarrow> bool" where
  "not_paren c \<longleftrightarrow> \<not> rx_space c \<and> c \<noteq> CHR ''('' \<and> c \<noteq> CHR '')''"

definition line_comment :: rx where "line_comment = Opt (Cat (Lit ''//'') (Many (Cls not_newline)))"

definition reRequireLine :: rx where
  "reRequireLine = Seq [Bol, spaces, Opt (Cat (Lit ''require'') spaces1),
     Cap 1 (Alt (Seq [Cls is_alnum, Many (Cls not_paren), Lit ''.'', Many (Cls not_paren), Lit ''/'', Many (Cls not_paren)])
                (Seq [Cls is_alnum, Many (Cls not_paren), Lit ''.'', Many1 (Cls not_paren)])),
     spaces1, Cap 2 (Many1 (Cls not_space)), spaces, line_comment, Eol]"

definition num_rx :: rx where "num_rx = Many1 (Cls is_digit)"

definition pre_char :: "char \<Rightarrow> bool" where "pre_char c \<longleftrightarrow> is_alnum c \<or> c = CHR ''.'' \<or> c = CHR ''-''"

definition pre_release :: rx where "pre_release = Opt (Cat (Lit ''-'') (Many1 (Cls pre_char)))"

definition reGoVersion :: rx where
  "reGoVersion = Seq [Bol, Lit ''v'', num_rx, Lit ''.'', num_rx, Lit ''.'', num_rx, pre_release, Opt (Lit ''+incompatible''), Eol]"

fun require_lines :: "nat \<Rightarrow> bool \<Rightarrow> string list \<Rightarrow> (nat \<times> string \<times> string) list" where
  "require_lines n inBlock [] = []"
| "require_lines n inBlock (line # lines) =
     (let trimmed = TrimSpace line
      in if has_prefix trimmed ''//'' \<or> trimmed = [] then require_lines (Suc n) inBlock lines
         else if has_prefix trimmed ''require ('' then require_lines (Suc n) True lines
         else if inBlock \<and> trimmed = '')'' then require_lines (Suc n) False lines
         else if \<not> inBlock \<and> \<not> has_prefix trimmed ''require '' then require_lines (Suc n) inBlock lines
         else case FindStringSubmatch reRequireLine trimmed of
                None \<Rightarrow> require_lines (Suc n) inBlock lines
              | Some m \<Rightarrow> (Suc n, m 1, m 2) # require_lines (Suc n) inBlock lines)"

fun module_line :: "nat \<Rightarrow> nat \<Rightarrow> string list \<Rightarrow> nat" where
  "module_line found n [] = found"
| "module_line found n (line # lines) =
     module_line (if has_prefix (TrimSpace line) ''module '' then Suc n else found) (Suc n) lines"

definition grade_require :: "nat \<times> string \<times> string \<Rightarrow> Violation list" where
  "grade_require q = (case q of (n, modl, version) \<Rightarrow>
     if MatchString reGoVersion version then []
     else [\<lparr>V_File = ''go.mod'', V_Line = n, Reference = modl @ '' '' @ version, V_Clause = P4,
            Why = ''a require must name an exact version; `'' @ version @ ''` is not one, and a module graph that resolves to whatever is newest resolves to something different tomorrow''\<rparr>])"

definition grade_lockfile :: "checkout \<Rightarrow> nat \<Rightarrow> Violation list" where
  "grade_lockfile co n =
     (let v = \<lambda>w. [\<lparr>V_File = ''go.mod'', V_Line = n, Reference = ''go.sum'', V_Clause = P4, Why = w\<rparr>]
      in if \<not> co_stat co ''go.sum''
         then v ''the module lockfile is missing, so nothing records which bytes this module graph resolved to; run `go mod tidy` and commit go.sum''
         else if co_worktree co \<and> \<not> co_tracked co ''go.sum''
         then v ''go.sum exists but is not tracked by git, so it does not exist for anyone who clones this; `git add go.sum`''
         else if co_worktree co \<and> co_ignored co ''go.sum''
         then v ''go.sum is excluded by a .gitignore rule; the lockfile is the pin, and an ignored lockfile is an unpinned module graph''
         else [])"

definition scanGoModule :: "checkout \<Rightarrow> PinReport \<Rightarrow> tree_error + PinReport" where
  "scanGoModule co r =
     (case readLines co ''go.mod'' of
        Inl e \<Rightarrow> Inl e
      | Inr None \<Rightarrow> Inr (add_category \<lparr>Category_Name = ''go module requires'', Examined = 0, Detail = ''no go.mod at the root''\<rparr> [] r)
      | Inr (Some lines) \<Rightarrow>
          (let reqs = require_lines 0 False lines; examined = length reqs
           in Inr (add_category
                \<lparr>Category_Name = ''go module requires'', Examined = examined,
                 Detail = show_nat examined @ '' require(s) in go.mod, with go.sum committed and un-ignored''\<rparr>
                (concat (map grade_require reqs) @ grade_lockfile co (module_line 1 0 lines)) r)))"

section \<open>The Makefile\<close>

definition reMakeToolVersion :: rx where
  "reMakeToolVersion = Seq [Bol,
     Cap 1 (Seq [Cls is_upper, Many (Cls upper_or_digit), Many (Cat (Lit ''_'') (Many1 (Cls upper_or_digit))), Lit ''_VERSION'']),
     spaces, Opt (Cls (\<lambda>c. c \<in> {CHR '':'', CHR ''?'', CHR ''+''})), Lit ''='', spaces, Cap 2 (Many (Cls not_newline)), Eol]"

definition dotted_rx :: rx where "dotted_rx = Cat num_rx (Many (Cat (Lit ''.'') num_rx))"

definition reExactToolVersion :: rx where "reExactToolVersion = Seq [Bol, Opt (Lit ''v''), dotted_rx, Eol]"

text \<open>The text before a marker, or all of it.\<close>

definition before_char :: "char \<Rightarrow> string \<Rightarrow> string" where "before_char c s = takeWhile (\<lambda>x. x \<noteq> c) s"

definition tool_value :: "string \<Rightarrow> string" where
  "tool_value s = (let v = TrimSpace s in if CHR ''#'' \<in> set v then TrimSpace (before_char (CHR ''#'') v) else v)"

fun tool_lines :: "nat \<Rightarrow> string list \<Rightarrow> (nat \<times> string \<times> string) list" where
  "tool_lines n [] = []"
| "tool_lines n (line # lines) =
     (case FindStringSubmatch reMakeToolVersion line of
        None \<Rightarrow> tool_lines (Suc n) lines
      | Some m \<Rightarrow> (Suc n, m 1, tool_value (m 2)) # tool_lines (Suc n) lines)"

definition grade_tool :: "nat \<times> string \<times> string \<Rightarrow> Violation list" where
  "grade_tool q = (case q of (n, name, v) \<Rightarrow>
     if MatchString reExactToolVersion v then []
     else [\<lparr>V_File = ''Makefile'', V_Line = n, Reference = name @ '' = '' @ v, V_Clause = P4,
            Why = ''a tool version must be an exact version, never `latest` and never an expression evaluated at build time; the gate has to run the tool it names, or `make check` proves something about a version nobody chose''\<rparr>])"

definition scanMakefile :: "checkout \<Rightarrow> PinReport \<Rightarrow> tree_error + PinReport" where
  "scanMakefile co r =
     (case readLines co ''Makefile'' of
        Inl e \<Rightarrow> Inl e
      | Inr None \<Rightarrow> Inr (add_category \<lparr>Category_Name = ''Makefile tool versions'', Examined = 0, Detail = ''no Makefile at the root''\<rparr> [] r)
      | Inr (Some lines) \<Rightarrow>
          (let tools = tool_lines 0 lines; examined = length tools
           in Inr (add_category
                \<lparr>Category_Name = ''Makefile tool versions'', Examined = examined,
                 Detail = show_nat examined @ '' *_VERSION pin(s); the bare VERSION variable is this artefact'' @ [CHR 0x27] @ ''s own version, not a pin''\<rparr>
                (concat (map grade_tool tools)) r)))"

section \<open>Node manifests\<close>

definition lockfiles :: "string list" where
  "lockfiles = [''package-lock.json'', ''npm-shrinkwrap.json'', ''pnpm-lock.yaml'', ''yarn.lock'']"

definition reIgnoreScripts :: rx where
  "reIgnoreScripts = Seq [Bol, spaces, Lit ''ignore-scripts'', spaces, Lit ''='', spaces, Cap 1 (Many1 (Cls not_space)), spaces, Eol]"

definition floatingNodeSpec :: "string \<Rightarrow> string" where
  "floatingNodeSpec spec =
     (let s = TrimSpace spec
      in if s = [] \<or> s = ''*'' \<or> s = ''x'' \<or> s = ''X'' then ''an unbounded version spec resolves to whatever the registry serves at install time''
         else if EqualFold s ''latest'' \<or> EqualFold s ''next''
         then ''`'' @ s @ ''` is a dist-tag the publisher moves, which is the same supply-chain path a floating image tag is''
         else if has_prefix s ''>'' \<and> \<not> contains s ''<''
         then ''a `'' @ s @ ''` range has no upper bound, so a future major version installs itself''
         else [])"

definition trim_dot :: "string \<Rightarrow> string" where "trim_dot s = (if has_prefix s ''./'' then drop 2 s else s)"

fun first_lines :: "checkout \<Rightarrow> string list \<Rightarrow> (string list \<times> string) option" where
  "first_lines co [] = None"
| "first_lines co (c # cs) =
     (case readLines co (trim_dot c) of Inr (Some lines) \<Rightarrow> Some (lines, trim_dot c) | _ \<Rightarrow> first_lines co cs)"

definition findNpmrc :: "checkout \<Rightarrow> string \<Rightarrow> (string list \<times> string) option" where
  "findNpmrc co dir = first_lines co [join_path dir ''.npmrc'', ''.npmrc'']"

text \<open>The lines above the switch, from the nearest: the first that is not blank decides.\<close>

fun reason_above :: "string list \<Rightarrow> bool" where
  "reason_above [] = False"
| "reason_above (x # xs) =
     (let l = TrimSpace x
      in if l = [] then reason_above xs
         else if \<not> has_prefix l ''#'' \<and> \<not> has_prefix l '';'' then False
         else 3 \<le> length (Fields (dropWhile (\<lambda>c. c \<in> {CHR ''#'', CHR '';'', CHR '' ''}) l)))"

definition hasReasonComment :: "string list \<Rightarrow> nat \<Rightarrow> bool" where
  "hasReasonComment lines line = reason_above (rev (take (line - 1) lines))"

definition hasLockfile :: "checkout \<Rightarrow> string \<Rightarrow> bool" where
  "hasLockfile co dir \<longleftrightarrow> (\<exists>name \<in> set lockfiles. co_stat co (trim_dot (join_path dir name)))"

fun line_with :: "nat \<Rightarrow> string \<Rightarrow> string list \<Rightarrow> nat" where
  "line_with n key [] = 1"
| "line_with n key (l # ls) = (if contains l key then Suc n else line_with (Suc n) key ls)"

definition lineOfKey :: "string \<Rightarrow> string \<Rightarrow> nat" where
  "lineOfKey data key = line_with 0 key (split_at (CHR 0x0A) data)"

text \<open>The last \<open>ignore-scripts\<close> of an \<open>.npmrc\<close>, in lower case, with its line.\<close>

fun scripts_switch :: "libraries \<Rightarrow> nat \<Rightarrow> string \<times> nat \<Rightarrow> string list \<Rightarrow> string \<times> nat" where
  "scripts_switch lib n found [] = found"
| "scripts_switch lib n found (l # ls) =
     scripts_switch lib (Suc n)
       (case FindStringSubmatch reIgnoreScripts l of None \<Rightarrow> found | Some m \<Rightarrow> (unicode_lower lib (m 1), Suc n)) ls"

definition grade_npmrc :: "libraries \<Rightarrow> checkout \<Rightarrow> string \<Rightarrow> string \<Rightarrow> string \<Rightarrow> Violation list" where
  "grade_npmrc lib co rel dir data =
     (case findNpmrc co dir of
        None \<Rightarrow> [\<lparr>V_File = rel, V_Line = lineOfKey data (dquoted ''name''), Reference = rel, V_Clause = P4,
          Why = ''npm runs dependency lifecycle scripts by default, and no committed .npmrc beside this manifest (or at the repository root) turns them off; add `ignore-scripts=true`''\<rparr>]
      | Some (npmrc, npmrcRel) \<Rightarrow>
          (case scripts_switch lib 0 ([], 0) npmrc of (v, line) \<Rightarrow>
             if v = []
             then [\<lparr>V_File = npmrcRel, V_Line = 1, Reference = ''ignore-scripts'', V_Clause = P4,
                    Why = ''this .npmrc does not set ignore-scripts, so npm'' @ [CHR 0x27] @ ''s default applies and a dependency'' @ [CHR 0x27] @ ''s install script runs as this repository'' @ [CHR 0x27] @ ''s build; add `ignore-scripts=true`''\<rparr>]
             else if v = ''false''
             then (if hasReasonComment npmrc line then []
                   else [\<lparr>V_File = npmrcRel, V_Line = line, Reference = ''ignore-scripts=false'', V_Clause = P4,
                          Why = ''lifecycle scripts are switched back ON with no reason committed beside the switch; P4 allows the opt-back-in only with one, so put the reason on the comment line immediately above''\<rparr>])
             else if v \<noteq> ''true''
             then [\<lparr>V_File = npmrcRel, V_Line = line, Reference = ''ignore-scripts='' @ v, V_Clause = P4,
                    Why = ''ignore-scripts takes true or false; anything else is read by npm as false, which runs the scripts''\<rparr>]
             else []))"

text \<open>
  The four dependency maps of a manifest. A map takes the members of an object, the later of two members
  with one name; \<open>null\<close> empties it, and as a value stands for the empty string.
\<close>

record node_manifest =
  Dependencies :: "(string \<times> string) list"
  DevDependencies :: "(string \<times> string) list"
  OptionalDependencies :: "(string \<times> string) list"
  PeerDependencies :: "(string \<times> string) list"

fun put_members :: "(string \<times> json) list \<Rightarrow> (string \<times> string) list \<Rightarrow> (string \<times> string) list option" where
  "put_members [] xs = Some xs"
| "put_members ((k, v) # ms) xs =
     (case get_string v of
        None \<Rightarrow> None
      | Some s \<Rightarrow> put_members ms (filter (\<lambda>x. fst x \<noteq> k) xs @ [(k, case s of None \<Rightarrow> [] | Some t \<Rightarrow> t)]))"

definition decode_map :: "json \<Rightarrow> (string \<times> string) list \<Rightarrow> (string \<times> string) list option" where
  "decode_map v xs = (case v of JNull \<Rightarrow> Some [] | JObject ms \<Rightarrow> put_members ms xs | _ \<Rightarrow> None)"

definition put_manifest :: "string \<Rightarrow> json \<Rightarrow> node_manifest \<Rightarrow> node_manifest option" where
  "put_manifest n v r =
     (if n = ''dependencies'' then map_option (\<lambda>x. r\<lparr>Dependencies := x\<rparr>) (decode_map v (Dependencies r))
      else if n = ''devDependencies'' then map_option (\<lambda>x. r\<lparr>DevDependencies := x\<rparr>) (decode_map v (DevDependencies r))
      else if n = ''optionalDependencies'' then map_option (\<lambda>x. r\<lparr>OptionalDependencies := x\<rparr>) (decode_map v (OptionalDependencies r))
      else map_option (\<lambda>x. r\<lparr>PeerDependencies := x\<rparr>) (decode_map v (PeerDependencies r)))"

definition no_manifest :: node_manifest where
  "no_manifest = \<lparr>Dependencies = [], DevDependencies = [], OptionalDependencies = [], PeerDependencies = []\<rparr>"

text \<open>\<open>json.Unmarshal\<close>: one value and nothing but space after it.\<close>

definition decode_manifest :: "libraries \<Rightarrow> string \<Rightarrow> node_manifest option" where
  "decode_manifest lib data =
     (case json_parse lib data of
        None \<Rightarrow> None
      | Some (v, tail) \<Rightarrow>
          if list_all json_space tail
          then decode_struct False [''dependencies'', ''devDependencies'', ''optionalDependencies'', ''peerDependencies''] put_manifest v no_manifest
          else None)"

definition grade_specs :: "string \<Rightarrow> string \<Rightarrow> (string \<times> string) list \<Rightarrow> Violation list" where
  "grade_specs rel data deps =
     concat (map (\<lambda>(name, spec).
        if floatingNodeSpec spec \<noteq> []
        then [\<lparr>V_File = rel, V_Line = lineOfKey data (dquoted name), Reference = name @ '': '' @ spec, V_Clause = P4, Why = floatingNodeSpec spec\<rparr>]
        else []) (stable_sort (\<lambda>a b. fst a < fst b) deps))"

definition checkNodeManifest :: "libraries \<Rightarrow> checkout \<Rightarrow> string \<Rightarrow> string \<Rightarrow> Violation list" where
  "checkNodeManifest lib co rel dir =
     (case readFile co rel of
        Inr (Some data) \<Rightarrow>
          grade_npmrc lib co rel dir data
          @ (if hasLockfile co dir then []
             else [\<lparr>V_File = rel, V_Line = lineOfKey data (dquoted ''name''), Reference = rel, V_Clause = P4,
                    Why = ''no lockfile beside this manifest ('' @ join '', '' lockfiles @ ''), so the dependency tree resolves to whatever the registry serves at install time''\<rparr>])
          @ (case decode_manifest lib data of
               None \<Rightarrow> [\<lparr>V_File = rel, V_Line = 1, Reference = rel, V_Clause = P4,
                 Why = ''this manifest is not valid JSON, so its version specs could not be checked: '' @ json_error lib data\<rparr>]
             | Some m \<Rightarrow> concat (map (grade_specs rel data) [Dependencies m, DevDependencies m, OptionalDependencies m, PeerDependencies m]))
      | _ \<Rightarrow> [\<lparr>V_File = rel, V_Line = 1, Reference = rel, V_Clause = P4,
          Why = ''this manifest could not be read, so nothing about its pins has been checked''\<rparr>])"

definition scanNodeManifests :: "libraries \<Rightarrow> checkout \<Rightarrow> PinReport \<Rightarrow> tree_error + PinReport" where
  "scanNodeManifests lib co r =
     (case walkFiles co (\<lambda>rel. path_Base rel = ''package.json'') of
        Inl e \<Rightarrow> Inl e
      | Inr [] \<Rightarrow> Inr (add_category
          \<lparr>Category_Name = ''node manifests'', Examined = 1,
           Detail = ''asserted ABSENT: no package.json anywhere in the tree, so there is no install for a lifecycle script to run during''\<rparr> [] r)
      | Inr manifests \<Rightarrow> Inr (add_category
          \<lparr>Category_Name = ''node manifests'', Examined = length manifests,
           Detail = show_nat (length manifests) @ '' package.json, each checked for a committed lockfile, exact version specs and lifecycle scripts disabled''\<rparr>
          (concat (map (\<lambda>rel. checkNodeManifest lib co rel (path_Dir rel)) manifests)) r))"


section \<open>Gradle\<close>

definition reGradleDistribution :: rx where
  "reGradleDistribution = Seq [Lit ''gradle-'', Cap 1 (Cat dotted_rx pre_release), Lit ''-'', Cap 2 (Alt (Lit ''bin'') (Lit ''all'')), Lit ''.zip'']"

definition reSha256Hex :: rx where "reSha256Hex = Seq [Bol, Times 64 (Cls hex_lower), Eol]"

definition isGradleWrapperProperties :: "string \<Rightarrow> bool" where
  "isGradleWrapperProperties rel \<longleftrightarrow> path_Base rel = ''gradle-wrapper.properties''"

record wrapper =
  wr_url :: string
  wr_line :: nat
  wr_sum :: string

definition wrapper_line :: "nat \<Rightarrow> string \<Rightarrow> wrapper \<Rightarrow> wrapper" where
  "wrapper_line n line w =
     (let trimmed = TrimSpace line
      in if has_prefix trimmed ''#'' \<or> has_prefix trimmed ''!'' \<or> CHR ''='' \<notin> set trimmed then w
         else let key = TrimSpace (before_char (CHR ''='') trimmed);
                  v = replace_all [CHR 0x5C, CHR '':''] '':'' (TrimSpace (drop (Suc (length (before_char (CHR ''='') trimmed))) trimmed))
              in if key = ''distributionUrl'' then w\<lparr>wr_url := v, wr_line := n\<rparr>
                 else if key = ''distributionSha256Sum'' then w\<lparr>wr_sum := v\<rparr>
                 else w)"

fun wrapper_lines :: "nat \<Rightarrow> string list \<Rightarrow> wrapper \<Rightarrow> wrapper" where
  "wrapper_lines n [] w = w"
| "wrapper_lines n (l # ls) w = wrapper_lines (Suc n) ls (wrapper_line (Suc n) l w)"

definition grade_wrapper :: "string \<Rightarrow> wrapper \<Rightarrow> Violation list" where
  "grade_wrapper rel w =
     (let v = \<lambda>ref why. [\<lparr>V_File = rel, V_Line = wr_line w, Reference = ref, V_Clause = P6, Why = why\<rparr>]
      in if \<not> MatchString reGradleDistribution (wr_url w)
         then v (wr_url w) ''this distribution URL does not name an exact released Gradle version, so the build runs whichever Gradle the URL points at on the day it runs''
         else if wr_sum w = []
         then v (wr_url w) (''there is no distributionSha256Sum beside it, so the wrapper downloads and RUNS this archive without ever checking the bytes - P1 pins an image by the digest that actually resolves, and an executable zip fetched over the network is owed exactly the same; add `distributionSha256Sum=<64 hex>` from '' @ wr_url w @ ''.sha256'')
         else if \<not> MatchString reSha256Hex (wr_sum w)
         then v (''distributionSha256Sum='' @ wr_sum w) ''a distribution checksum must be 64 lowercase hexadecimal characters, or the wrapper has nothing it can compare the download against''
         else [])"

definition scanGradleWrapper :: "checkout \<Rightarrow> PinReport \<Rightarrow> tree_error + PinReport" where
  "scanGradleWrapper co r =
     (case category_files co isGradleWrapperProperties of
        Inl e \<Rightarrow> Inl e
      | Inr (files, texts) \<Rightarrow>
          (let ws = filter (\<lambda>(rel, w). wr_url w \<noteq> [])
                 (map (\<lambda>(rel, s). (rel, wrapper_lines 0 (text_lines s) \<lparr>wr_url = [], wr_line = 0, wr_sum = []\<rparr>)) texts)
           in Inr (add_category
                \<lparr>Category_Name = ''gradle wrapper distributions'', Examined = length ws,
                 Detail = show_nat (length ws) @ '' gradle-wrapper.properties with a distributionUrl, each checked for a committed distributionSha256Sum''\<rparr>
                (concat (map (\<lambda>(rel, w). grade_wrapper rel w) ws)) r)))"

definition key_char :: "char \<Rightarrow> bool" where "key_char c \<longleftrightarrow> is_word c \<or> c = CHR ''-''"
definition not_dquote :: "char \<Rightarrow> bool" where "not_dquote c \<longleftrightarrow> c \<noteq> CHR 0x22"
definition dquote_rx :: rx where "dquote_rx = Lit [CHR 0x22]"

definition reTomlSection :: rx where
  "reTomlSection = Seq [Bol, spaces, Lit ''['', Cap 1 (Many1 (Cls key_char)), Lit '']'', spaces, Eol]"

definition reTomlVersionEntry :: rx where
  "reTomlVersionEntry = Seq [Bol, spaces, Cap 1 (Many1 (Cls key_char)), spaces, Lit ''='', spaces,
     dquote_rx, Cap 2 (Many (Cls not_dquote)), dquote_rx, spaces, Eol]"

definition reTomlInlineVersion :: rx where
  "reTomlInlineVersion = Seq [Alt Bol (Cls (\<lambda>c. c = CHR '','' \<or> c = CHR ''{'' \<or> rx_space c)), Lit ''version'', spaces, Lit ''='', spaces,
     dquote_rx, Cap 1 (Many (Cls not_dquote)), dquote_rx]"

definition reTomlModuleCoordinate :: rx where
  "reTomlModuleCoordinate = (let part = Many1 (Cls (\<lambda>c. c \<noteq> CHR 0x22 \<and> c \<noteq> CHR '':''))
     in Seq [Lit ''module'', spaces, Lit ''='', spaces, dquote_rx, part, Lit '':'', part, Lit '':'', Cap 1 (Many1 (Cls not_dquote)), dquote_rx])"

definition reExactMavenVersion :: rx where "reExactMavenVersion = Seq [Bol, dotted_rx, pre_release, Eol]"

definition isVersionCatalog :: "string \<Rightarrow> bool" where
  "isVersionCatalog rel \<longleftrightarrow> path_Base rel = ''libs.versions.toml''"

text \<open>\<open>strings.ToUpper\<close> as far as a comparison with these words can tell: the long s is the one letter outside ASCII among them.\<close>

definition ascii_upper :: "char \<Rightarrow> char" where "ascii_upper c = (if is_lower c then char_of ((of_char c :: nat) - 32) else c)"
definition ToUpper :: "string \<Rightarrow> string" where "ToUpper s = map ascii_upper (replace_all [CHR 0xC5, CHR 0xBF] ''s'' s)"

definition dynamicVersionReason :: "string \<Rightarrow> string" where
  "dynamicVersionReason v =
     (let s = TrimSpace v; upper = ToUpper s
      in if s = [] then ''an empty version resolves to whatever the repository holds at build time''
         else if CHR ''+'' \<in> set s
         then ''a `+` is Gradle'' @ [CHR 0x27] @ ''s dynamic version: `'' @ s @ ''` resolves to whatever the repository holds when the build runs, which is a different dependency tomorrow''
         else if upper = ''LATEST'' \<or> upper = ''RELEASE'' \<or> has_prefix upper ''LATEST.''
         then ''`'' @ s @ ''` is a Gradle status keyword, not a version: it resolves to the newest artefact the repository is serving''
         else if set s \<inter> set ''[](),'' \<noteq> {}
         then ''`'' @ s @ ''` is a Maven version RANGE, so the resolved dependency is chosen by the repository and not by this file''
         else if contains upper ''SNAPSHOT''
         then ''a -SNAPSHOT is republished under the same coordinate, so `'' @ s @ ''` names different bytes on different days (P5: pin to something the publisher keeps)''
         else if \<not> MatchString reExactMavenVersion s then ''`'' @ s @ ''` is not an exact version literal''
         else [])"

definition catalog_entry :: "string \<Rightarrow> string \<Rightarrow> (string \<times> string) option" where
  "catalog_entry sect line =
     (if sect = ''versions'' then map_option (\<lambda>m. (m 1, m 2)) (FindStringSubmatch reTomlVersionEntry line)
      else let name = TrimSpace (before_char (CHR ''='') line)
           in case FindStringSubmatch reTomlInlineVersion line of
                Some m \<Rightarrow> Some (name, m 1)
              | None \<Rightarrow> map_option (\<lambda>m. (name, m 1)) (FindStringSubmatch reTomlModuleCoordinate line))"

text \<open>The version literals of a catalog, with their lines.\<close>

fun catalog_lines :: "nat \<Rightarrow> string \<Rightarrow> string list \<Rightarrow> (nat \<times> string \<times> string) list" where
  "catalog_lines n sect [] = []"
| "catalog_lines n sect (l # ls) =
     (let line = before_char (CHR ''#'') l
      in case FindStringSubmatch reTomlSection line of
           Some m \<Rightarrow> catalog_lines (Suc n) (m 1) ls
         | None \<Rightarrow>
             (case catalog_entry sect line of None \<Rightarrow> [] | Some (name, version) \<Rightarrow> [(Suc n, name, version)]) @ catalog_lines (Suc n) sect ls)"

definition grade_entry :: "string \<Rightarrow> nat \<times> string \<times> string \<Rightarrow> Violation list" where
  "grade_entry rel q = (case q of (n, name, version) \<Rightarrow>
     if dynamicVersionReason version \<noteq> []
     then [\<lparr>V_File = rel, V_Line = n, Reference = name @ '' = '' @ dquoted version, V_Clause = P4, Why = dynamicVersionReason version\<rparr>]
     else [])"

definition scanGradleCatalogs :: "checkout \<Rightarrow> PinReport \<Rightarrow> tree_error + PinReport" where
  "scanGradleCatalogs co r =
     (case category_files co isVersionCatalog of
        Inl e \<Rightarrow> Inl e
      | Inr (files, texts) \<Rightarrow>
          (let res = map (\<lambda>(rel, s). (rel, catalog_lines 0 [] (text_lines s))) texts; examined = sum_list (map (length \<circ> snd) res)
           in Inr (add_category
                \<lparr>Category_Name = ''gradle version catalog entries'', Examined = examined,
                 Detail = show_nat examined @ '' version literal(s) across '' @ show_nat (length files) @ '' catalog(s), each required to be exact''\<rparr>
                (concat (map (\<lambda>(rel, es). concat (map (grade_entry rel) es)) res)) r)))"

definition reScriptCoordinate :: rx where
  "reScriptCoordinate = (let part = Many1 (Cls (\<lambda>c. is_word c \<or> c = CHR ''.'' \<or> c = CHR ''-''))
     in Cap 0 (Seq [dquote_rx, Cap 1 part, Lit '':'', Cap 2 part, Lit '':'', Cap 3 (Cat (Cls is_digit) (Many (Cls not_dquote))), dquote_rx]))"

definition reScriptPluginVersion :: rx where
  "reScriptPluginVersion =
     Cap 0 (Seq [Lit ''id'', spaces, Lit ''('', spaces, dquote_rx, Cap 1 (Many1 (Cls not_dquote)), dquote_rx, spaces, Lit '')'', spaces1,
       Lit ''version'', spaces1, dquote_rx, Cap 2 (Many1 (Cls not_dquote)), dquote_rx])"

definition isGradleScript :: "string \<Rightarrow> bool" where
  "isGradleScript rel \<longleftrightarrow> has_suffix (path_Base rel) ''.gradle'' \<or> has_suffix (path_Base rel) ''.gradle.kts''"

fun before_slashes :: "string \<Rightarrow> string" where
  "before_slashes [] = []"
| "before_slashes (c # s) = (if has_prefix (c # s) ''//'' then [] else c # before_slashes s)"

definition grade_script_line :: "string \<Rightarrow> nat \<Rightarrow> string \<Rightarrow> Violation list" where
  "grade_script_line rel n line =
     (let src = before_slashes line; v = \<lambda>ref why. [\<lparr>V_File = rel, V_Line = n, Reference = ref, V_Clause = P4, Why = why\<rparr>]
      in case FindStringSubmatch reScriptCoordinate src of
           Some m \<Rightarrow> v (m 0) ''a dependency version written into a build script is a second place this pin lives; move it to the version catalog (gradle/libs.versions.toml) and reference it by alias''
         | None \<Rightarrow>
             (case FindStringSubmatch reScriptPluginVersion src of
                Some m \<Rightarrow> v (m 0) (''a plugin version written into a build script is a second place this pin lives; declare the plugin in the version catalog'' @ [CHR 0x27] @ ''s [plugins] section and apply it by alias'')
              | None \<Rightarrow> []))"

fun script_lines :: "string \<Rightarrow> nat \<Rightarrow> string list \<Rightarrow> Violation list" where
  "script_lines rel n [] = []"
| "script_lines rel n (l # ls) = grade_script_line rel (Suc n) l @ script_lines rel (Suc n) ls"

definition scanGradleScripts :: "checkout \<Rightarrow> PinReport \<Rightarrow> tree_error + PinReport" where
  "scanGradleScripts co r =
     (case category_files co isGradleScript of
        Inl e \<Rightarrow> Inl e
      | Inr (files, texts) \<Rightarrow>
          Inr (add_category
                \<lparr>Category_Name = ''gradle build scripts'', Examined = length files,
                 Detail = show_nat (length files) @ '' build script(s) checked for version literals restated outside the catalog''\<rparr>
                (concat (map (\<lambda>(rel, s). script_lines rel 0 (text_lines s)) texts)) r))"

end
