(* ===== verification/PinCheck.thy ===== *)
theory PinCheck
  imports PinManifests
begin

text \<open>
  The pin gate, third part: the scan of a checkout, the committed demonstrations that the gate still refuses
  what it must (\<open>demonstrations.go\<close>) and \<open>CheckRepo\<close>. The lemmas give the image references their shape
  independently of the expressions that recognise them, and show what a scan without violations says about
  every file of the checkout.
\<close>

section \<open>The scan\<close>

definition pin_scanners :: "libraries \<Rightarrow> (checkout \<Rightarrow> PinReport \<Rightarrow> tree_error + PinReport) list" where
  "pin_scanners lib =
     [scanDockerfiles lib, scanComposeFiles lib, scanGoSources lib, scanWorkflows lib, scanGoModule, scanMakefile,
      scanGradleWrapper, scanGradleCatalogs, scanGradleScripts, scanNodeManifests lib]"

fun run_scanners :: "(checkout \<Rightarrow> PinReport \<Rightarrow> tree_error + PinReport) list \<Rightarrow> checkout \<Rightarrow> PinReport \<Rightarrow> tree_error + PinReport" where
  "run_scanners [] co r = Inr r"
| "run_scanners (s # ss) co r = (case s co r of Inl e \<Rightarrow> Inl e | Inr r' \<Rightarrow> run_scanners ss co r')"

definition violation_less :: "Violation \<Rightarrow> Violation \<Rightarrow> bool" where
  "violation_less a b = (if V_File a \<noteq> V_File b then V_File a < V_File b else V_Line a < V_Line b)"

definition pin_Scan :: "libraries \<Rightarrow> checkout \<Rightarrow> tree_error + PinReport" where
  "pin_Scan lib co =
     (case run_scanners (pin_scanners lib) co \<lparr>Categories = [], Violations = []\<rparr> of
        Inl e \<Rightarrow> Inl e
      | Inr r \<Rightarrow> Inr (r\<lparr>Violations := stable_sort violation_less (Violations r)\<rparr>))"

section \<open>Demonstrations\<close>

record Demonstration =
  D_Name :: string
  Shape :: string
  D_Clause :: Clause
  D_File :: string
  WhyContains :: string
  CommittedAs :: "(string \<times> string) list"

definition Demonstrations :: "Demonstration list" where
  "Demonstrations =
     [\<lparr>D_Name = ''dockerfile-tag-only'', Shape = ''a Dockerfile FROM carrying a tag and no digest'', D_Clause = P2,
       D_File = ''Dockerfile'', WhyContains = ''takes BOTH halves'', CommittedAs = []\<rparr>,
      \<lparr>D_Name = ''compose-image-no-digest'', Shape = ''a compose image: for a service the file does not build, with no digest'', D_Clause = P1,
       D_File = ''docker-compose.yml'', WhyContains = ''so it pulls a published image'', CommittedAs = []\<rparr>,
      \<lparr>D_Name = ''workflow-mutable-tag'', Shape = ''a workflow uses: naming a mutable tag instead of a commit SHA'', D_Clause = P3,
       D_File = ''.github/workflows/ci.yml'', WhyContains = ''names a tag or a branch'', CommittedAs = []\<rparr>,
      \<lparr>D_Name = ''manifest-dynamic-version'', Shape = ''a dependency manifest carrying a dynamic version'', D_Clause = P4,
       D_File = ''android/gradle/libs.versions.toml'', WhyContains = ''Gradle'' @ [CHR 0x27] @ ''s dynamic version'', CommittedAs = []\<rparr>,
      \<lparr>D_Name = ''node-lifecycle-scripts'', Shape = ''a node manifest with lifecycle scripts enabled and no committed reason'', D_Clause = P4,
       D_File = ''package.json'', WhyContains = ''npm runs dependency lifecycle scripts by default'',
       CommittedAs = [(''package.json.committed'', ''package.json'')]\<rparr>]"

text \<open>
  A repository: its root, the entries of a directory with whether they are directories, each case directory
  as a root of its own, and the scratch directory of the operating system: whether it can be made, whether a
  path in it can be written, and its name and git's answers there.
\<close>

record repository =
  rp_root :: checkout
  rp_readdir :: "string \<Rightarrow> (string \<times> bool) list option"
  rp_case :: "string \<Rightarrow> checkout"
  rp_mkdir :: bool
  rp_write :: "string \<Rightarrow> bool"
  rp_scratch :: checkout

definition case_path :: "string \<Rightarrow> string" where "case_path name = DemonstrationsDir @ ''/'' @ name"

datatype demo_problem =
    CaseMissing string
  | NotMaterialised string
  | CaseUnscanned string tree_error
  | NotRed string "Violation list"
  | TreeUnread
  | Stray "string list"
  | NoReason string
  | NotCommitted string
  | FixtureMissing string string

text \<open>
  Copying a case: every file of the tree is read and written, under its new name where it has one. A
  directory comes with the files in it.
\<close>

definition scratch_tree :: "checkout \<Rightarrow> (string \<times> string) list \<Rightarrow> checkout" where
  "scratch_tree base files =
     base\<lparr>co_tree := Tree (Directory (Some (foldl (\<lambda>es (f, data). put_node (split_at (CHR ''/'') f) (plain_file data) es) [] files))),
          co_read := (\<lambda>rel. case map_of (rev files) rel of Some data \<Rightarrow> Contents data | None \<Rightarrow> Absent),
          co_stat := (\<lambda>rel. \<exists>f \<in> set (map fst files). f = rel \<or> has_prefix f (rel @ ''/''))\<rparr>"

definition renamed :: "Demonstration \<Rightarrow> string \<Rightarrow> string" where
  "renamed d rel = (case map_of (CommittedAs d) rel of Some to \<Rightarrow> to | None \<Rightarrow> rel)"

fun copy_files :: "repository \<Rightarrow> Demonstration \<Rightarrow> string list \<Rightarrow> (string \<times> string) list option" where
  "copy_files rp d [] = Some []"
| "copy_files rp d (rel # rels) =
     (case co_read (rp_case rp (D_Name d)) rel of
        Contents data \<Rightarrow> if rp_write rp (renamed d rel) then map_option ((#) (renamed d rel, data)) (copy_files rp d rels) else None
      | _ \<Rightarrow> None)"

definition CaseTree :: "repository \<Rightarrow> Demonstration \<Rightarrow> checkout option" where
  "CaseTree rp d =
     (let src = rp_case rp (D_Name d)
      in if CommittedAs d = [] then Some src
         else if \<not> rp_mkdir rp then None
         else case co_tree src of
                Tree nd \<Rightarrow>
                  (case visit (\<lambda>_ _. False) (\<lambda>_ _. True) ''.'' (co_name src) nd of
                     Inl _ \<Rightarrow> None
                   | Inr files \<Rightarrow> map_option (scratch_tree (rp_scratch rp)) (copy_files rp d files))
              | _ \<Rightarrow> None)"

definition matchingViolation :: "Violation list \<Rightarrow> Demonstration \<Rightarrow> Violation option" where
  "matchingViolation vs d =
     List.find (\<lambda>v. Clause_ID (V_Clause v) = Clause_ID (D_Clause d) \<and> V_File v = D_File d
       \<and> (WhyContains d = [] \<or> contains (Why v) (WhyContains d))) vs"

text \<open>One demonstration is red, or says why it is not.\<close>

definition run_demonstration :: "libraries \<Rightarrow> repository \<Rightarrow> Demonstration \<Rightarrow> demo_problem option" where
  "run_demonstration lib rp d =
     (if \<not> co_stat (rp_root rp) (case_path (D_Name d)) then Some (CaseMissing (D_Name d))
      else case CaseTree rp d of
             None \<Rightarrow> Some (NotMaterialised (D_Name d))
           | Some co \<Rightarrow>
               (case pin_Scan lib co of
                  Inl e \<Rightarrow> Some (CaseUnscanned (D_Name d) e)
                | Inr r \<Rightarrow> if matchingViolation (Violations r) d \<noteq> None then None else Some (NotRed (D_Name d) (Violations r))))"

definition RunDemonstrations :: "libraries \<Rightarrow> repository \<Rightarrow> nat \<times> demo_problem list" where
  "RunDemonstrations lib rp =
     (let res = map (run_demonstration lib rp) Demonstrations
      in (length (filter (\<lambda>p. p = None) res), concat (map (\<lambda>p. case p of None \<Rightarrow> [] | Some p \<Rightarrow> [p]) res)))"

definition is_stray :: "string \<times> bool \<Rightarrow> bool" where
  "is_stray e = (case e of (name, dir) \<Rightarrow> if dir then name \<notin> set (map D_Name Demonstrations) else name \<noteq> ''README.md'')"

definition verifyDemonstrationTree :: "repository \<Rightarrow> demo_problem list" where
  "verifyDemonstrationTree rp =
     (case rp_readdir rp DemonstrationsDir of
        None \<Rightarrow> [TreeUnread]
      | Some entries \<Rightarrow>
          (let stray = map fst (filter is_stray entries)
           in (if stray \<noteq> [] then [Stray (sort_strings stray)] else [])
            @ concat (map (\<lambda>d.
                (if WhyContains d = [] then [NoReason (D_Name d)] else [])
                @ (if (D_Name d, True) \<notin> set entries then [NotCommitted (D_Name d)]
                   else concat (map (\<lambda>(committed, as).
                     if co_stat (rp_root rp) (case_path (D_Name d) @ ''/'' @ committed) then [] else [FixtureMissing (D_Name d) committed])
                     (CommittedAs d)))) Demonstrations)))"

datatype gate_refusal =
    NotAWorkTree
  | DemonstrationTree "demo_problem list"
  | ScanFailed tree_error
  | Unpinned "string list"
  | Quiet "demo_problem list"
  | TooFewRed nat

definition CheckRepo :: "libraries \<Rightarrow> repository \<Rightarrow> gate_refusal list" where
  "CheckRepo lib rp =
     (if co_worktree (rp_root rp) then [] else [NotAWorkTree])
     @ (if verifyDemonstrationTree rp = [] then [] else [DemonstrationTree (verifyDemonstrationTree rp)])
     @ (case pin_Scan lib (rp_root rp) of
          Inl e \<Rightarrow> [ScanFailed e]
        | Inr r \<Rightarrow> if Report_Err r = [] then [] else [Unpinned (Report_Err r)])
     @ (case RunDemonstrations lib rp of (red, problems) \<Rightarrow>
          (if problems = [] then [] else [Quiet problems])
          @ (if red < length Demonstrations then [TooFewRed red] else []))"


text \<open>\<open>cmd/pincheck\<close> after its flags: the refusals, the failure of the second scan, or the report it sums up.\<close>

datatype pin_outcome = PinRefused "gate_refusal list" | PinFailed tree_error | PinOK PinReport nat nat

definition pincheck_main :: "libraries \<Rightarrow> repository \<Rightarrow> pin_outcome" where
  "pincheck_main lib rp =
     (if CheckRepo lib rp \<noteq> [] then PinRefused (CheckRepo lib rp)
      else case pin_Scan lib (rp_root rp) of
             Inl e \<Rightarrow> PinFailed e
           | Inr r \<Rightarrow> PinOK r (Report_Examined r) (length Demonstrations))"

section \<open>Shapes\<close>

text \<open>What P1 asks of an image: a name, a tag and a digest.\<close>

definition pinned_image :: "string \<Rightarrow> bool" where
  "pinned_image ref \<longleftrightarrow>
     (\<exists>name tag hex. ref = name @ '':'' @ tag @ ''@sha256:'' @ hex \<and> name \<noteq> [] \<and> (\<forall>c \<in> set name. name_char c)
        \<and> tag \<noteq> [] \<and> (\<forall>c \<in> set tag. tag_char c) \<and> length hex = 64 \<and> (\<forall>c \<in> set hex. hex_lower c))"

text \<open>What P3 asks of an action: the commit.\<close>

definition pinned_action :: "string \<Rightarrow> bool" where
  "pinned_action ref \<longleftrightarrow>
     (\<exists>name hex. ref = name @ ''@'' @ hex \<and> name \<noteq> [] \<and> (\<forall>c \<in> set name. name_char c)
        \<and> length hex = 40 \<and> (\<forall>c \<in> set hex. hex_lower c))"

text \<open>An expression between the two anchors matches the whole text or nothing.\<close>

lemma matches_Bol_Cat: "matches (Cat Bol r) p u q \<longleftrightarrow> p = [] \<and> matches r [] u q"
  by (auto simp: matches_Cat)

lemma matches_Cat_Eol: "matches (Cat r Eol) p u q \<longleftrightarrow> q = [] \<and> matches r p u []"
  by (auto simp: matches_Cat)

lemma MatchString_anchored: "(\<And>p u q. matches r p u q \<longleftrightarrow> q = [] \<and> P u) \<Longrightarrow> MatchString (Cat Bol r) s \<longleftrightarrow> P s"
  unfolding MatchString_iff matches_Bol_Cat by simp

lemma matches_LitCat: "matches (Cat (Lit w) r) p u q \<longleftrightarrow> (\<exists>v. u = w @ v \<and> matches r (rev w @ p) v q)"
  by (auto simp: matches_Cat)

lemma matches_ImageRef:
  "matches (Seq [Many1 (Cls name_char), Lit '':'', Many1 (Cls tag_char), Lit ''@sha256:'', Times 64 (Cls hex_lower), Eol]) p u q
   \<longleftrightarrow> q = [] \<and> pinned_image u"
proof -
  have hex: "matches (Cat (Times 64 (Cls hex_lower)) Eol) p u q \<longleftrightarrow> q = [] \<and> length u = 64 \<and> (\<forall>c \<in> set u. hex_lower c)" for p u q
    by (auto simp: matches_Cat_Eol)
  show ?thesis
    unfolding Seq.simps matches_Cat [of "Many1 _"] matches_LitCat hex pinned_image_def matches_Many1_Cls by blast
qed

lemma reImageRef_iff: "MatchString reImageRef s \<longleftrightarrow> pinned_image s"
proof -
  have "reImageRef = Cat Bol (Seq [Many1 (Cls name_char), Lit '':'', Many1 (Cls tag_char), Lit ''@sha256:'', Times 64 (Cls hex_lower), Eol])"
    by (simp only: reImageRef_def Seq.simps)
  then show ?thesis using MatchString_anchored [OF matches_ImageRef] by (simp only:)
qed

lemma reActionSHA_iff: "MatchString reActionSHA s \<longleftrightarrow> pinned_action s"
proof -
  have m: "matches (Seq [Many1 (Cls name_char), Lit ''@'', Times 40 (Cls hex_lower), Eol]) p u q \<longleftrightarrow> q = [] \<and> pinned_action u" for p u q
  proof -
    have hex: "matches (Cat (Times 40 (Cls hex_lower)) Eol) p u q \<longleftrightarrow> q = [] \<and> length u = 40 \<and> (\<forall>c \<in> set u. hex_lower c)" for p u q
      by (auto simp: matches_Cat_Eol)
    show ?thesis unfolding Seq.simps matches_Cat [of "Many1 _"] matches_LitCat hex pinned_action_def matches_Many1_Cls by blast
  qed
  have "reActionSHA = Cat Bol (Seq [Many1 (Cls name_char), Lit ''@'', Times 40 (Cls hex_lower), Eol])"
    by (simp only: reActionSHA_def Seq.simps)
  then show ?thesis using MatchString_anchored [OF m] by (simp only:)
qed

section \<open>What a walk visits\<close>

text \<open>The regular files in no directory that the gate skips.\<close>

inductive scanned_file :: "string \<Rightarrow> string \<Rightarrow> node \<Rightarrow> string \<Rightarrow> bool" where
  regular: "scanned_file rel name (Regular sz con) rel"
| inside: "\<not> not_scanned rel name \<Longrightarrow> (x, nd) \<in> set es \<Longrightarrow> scanned_file (join_path rel x) x nd f
    \<Longrightarrow> scanned_file rel name (Directory (Some es)) f"

lemma visit_all_member:
  "visit_all skip pick rel es = Inr out \<Longrightarrow> (x, nd) \<in> set es
   \<Longrightarrow> \<exists>fs. visit skip pick (join_path rel x) x nd = Inr fs \<and> set fs \<subseteq> set out"
  by (induction es arbitrary: out) (fastforce split: sum.splits)+

lemma visit_scanned:
  "scanned_file rel name nd f \<Longrightarrow> visit not_scanned (\<lambda>rel regular. regular \<and> keep rel) rel name nd = Inr out \<Longrightarrow> keep f \<Longrightarrow> f \<in> set out"
proof (induction arbitrary: out rule: scanned_file.induct)
  case (inside rel name x nd es f)
  then obtain fs where "visit not_scanned (\<lambda>rel regular. regular \<and> keep rel) (join_path rel x) x nd = Inr fs" "set fs \<subseteq> set out"
    using visit_all_member by (simp split: if_splits) blast
  then show ?case using inside by blast
qed simp

definition in_checkout :: "checkout \<Rightarrow> string \<Rightarrow> string \<Rightarrow> bool" where
  "in_checkout co rel s \<longleftrightarrow> (\<exists>nd. co_tree co = Tree nd \<and> scanned_file ''.'' (co_name co) nd rel) \<and> co_read co rel = Contents s"

lemma read_each_member: "read_each co files = Inr texts \<Longrightarrow> rel \<in> set files \<Longrightarrow> co_read co rel = Contents s \<Longrightarrow> (rel, s) \<in> set texts"
  by (induction files arbitrary: texts) (auto simp: readFile_def split: sum.splits option.splits)

lemma category_files_member:
  assumes "category_files co keep = Inr (files, texts)" "in_checkout co rel s" "keep rel"
  shows "(rel, s) \<in> set texts"
proof -
  obtain nd where nd: "co_tree co = Tree nd" "scanned_file ''.'' (co_name co) nd rel" "co_read co rel = Contents s"
    using assms(2) unfolding in_checkout_def by blast
  obtain out where out: "visit not_scanned (\<lambda>rel regular. regular \<and> keep rel) ''.'' (co_name co) nd = Inr out"
    "files = sort_strings out" "read_each co files = Inr texts"
    using assms(1) nd(1) by (auto simp: category_files_def walkFiles_def map_sum_def split: sum.splits)
  have "rel \<in> set files" using visit_scanned [OF nd(2) out(1) assms(3)] out(2) by (simp add: sort_strings_def)
  then show ?thesis using read_each_member [OF out(3)] nd(3) by blast
qed

section \<open>The report of a scan\<close>

text \<open>
  What a scanner promises to the scan: whatever report it is given, it adds one category and some
  violations that depend on the checkout alone, or fails.
\<close>

locale pin_scanner =
  fixes scan :: "checkout \<Rightarrow> PinReport \<Rightarrow> tree_error + PinReport"
  assumes appends: "scan co r = Inr r' \<Longrightarrow> \<exists>c vs. r' = add_category c vs r \<and> (\<forall>q. scan co q = Inr (add_category c vs q))"
begin

lemma keeps: "scan co r = Inr r' \<Longrightarrow> set (Categories r) \<subseteq> set (Categories r') \<and> set (Violations r) \<subseteq> set (Violations r')"
  using appends by (fastforce simp: add_category_def)

end

interpretation dockerfiles: pin_scanner "scanDockerfiles lib" for lib
  by unfold_locales (auto simp: scanDockerfiles_def Let_def split: sum.splits)
interpretation compose_files: pin_scanner "scanComposeFiles lib" for lib
  by unfold_locales (auto simp: scanComposeFiles_def Let_def split: sum.splits)
interpretation go_sources: pin_scanner "scanGoSources lib" for lib
  by unfold_locales (auto simp: scanGoSources_def Let_def split: sum.splits)
interpretation workflows: pin_scanner "scanWorkflows lib" for lib
  by unfold_locales (auto simp: scanWorkflows_def Let_def split: sum.splits)
interpretation go_module: pin_scanner scanGoModule
  by unfold_locales (auto simp: scanGoModule_def Let_def split: sum.splits option.splits)
interpretation makefile: pin_scanner scanMakefile
  by unfold_locales (auto simp: scanMakefile_def Let_def split: sum.splits option.splits)
interpretation gradle_wrapper: pin_scanner scanGradleWrapper
  by unfold_locales (auto simp: scanGradleWrapper_def Let_def split: sum.splits)
interpretation gradle_catalogs: pin_scanner scanGradleCatalogs
  by unfold_locales (auto simp: scanGradleCatalogs_def Let_def split: sum.splits)
interpretation gradle_scripts: pin_scanner scanGradleScripts
  by unfold_locales (auto simp: scanGradleScripts_def split: sum.splits)
interpretation node_manifests: pin_scanner "scanNodeManifests lib" for lib
  by unfold_locales (auto simp: scanNodeManifests_def split: sum.splits list.splits)


lemma scanners_append: "s \<in> set (pin_scanners lib) \<Longrightarrow> pin_scanner s"
  unfolding pin_scanners_def
  using dockerfiles.pin_scanner_axioms compose_files.pin_scanner_axioms go_sources.pin_scanner_axioms workflows.pin_scanner_axioms
    go_module.pin_scanner_axioms makefile.pin_scanner_axioms gradle_wrapper.pin_scanner_axioms gradle_catalogs.pin_scanner_axioms
    gradle_scripts.pin_scanner_axioms node_manifests.pin_scanner_axioms
  by auto

lemma run_scanners_keep:
  "\<forall>s \<in> set ss. pin_scanner s \<Longrightarrow> run_scanners ss co r = Inr out
   \<Longrightarrow> set (Categories r) \<subseteq> set (Categories out) \<and> set (Violations r) \<subseteq> set (Violations out)"
proof (induction ss arbitrary: r)
  case (Cons s ss)
  then obtain r' where "s co r = Inr r'" "run_scanners ss co r' = Inr out" by (auto split: sum.splits)
  then show ?case using Cons pin_scanner.keeps [of s co r r'] by fastforce
qed simp

lemma run_scanners_contribute:
  "\<forall>s \<in> set ss. pin_scanner s \<Longrightarrow> run_scanners ss co r = Inr out \<Longrightarrow> s \<in> set ss
   \<Longrightarrow> \<exists>c vs. (\<forall>q. s co q = Inr (add_category c vs q)) \<and> c \<in> set (Categories out) \<and> set vs \<subseteq> set (Violations out)"
proof (induction ss arbitrary: r)
  case (Cons t ss)
  then obtain r' where r': "t co r = Inr r'" "run_scanners ss co r' = Inr out" by (auto split: sum.splits)
  show ?case
  proof (cases "s = t")
    case True
    then obtain c vs where c: "r' = add_category c vs r" "\<forall>q. s co q = Inr (add_category c vs q)"
      using pin_scanner.appends [of t co r r'] Cons.prems(1) r'(1) by auto
    then have "c \<in> set (Categories r')" "set vs \<subseteq> set (Violations r')" by (simp_all add: add_category_def)
    then show ?thesis using run_scanners_keep [OF _ r'(2)] Cons.prems(1) c(2) by fastforce
  next
    case False
    then show ?thesis using Cons.IH [OF _ r'(2)] Cons.prems by simp
  qed
qed simp

lemma pin_Scan_contribute:
  assumes "pin_Scan lib co = Inr r" "s \<in> set (pin_scanners lib)"
  obtains c vs where "\<forall>q. s co q = Inr (add_category c vs q)" "c \<in> set (Categories r)" "set vs \<subseteq> set (Violations r)"
proof -
  obtain r' where r': "run_scanners (pin_scanners lib) co \<lparr>Categories = [], Violations = []\<rparr> = Inr r'"
    "r = r'\<lparr>Violations := stable_sort violation_less (Violations r')\<rparr>"
    using assms(1) by (auto simp: pin_Scan_def split: sum.splits)
  have "\<exists>c vs. (\<forall>q. s co q = Inr (add_category c vs q)) \<and> c \<in> set (Categories r') \<and> set vs \<subseteq> set (Violations r')"
    using run_scanners_contribute [OF _ r'(1) assms(2)] scanners_append by blast
  then show ?thesis using r'(2) that by auto
qed

text \<open>The violations a scanner adds to any report are the whole difference.\<close>

lemma add_category_eq [simp]:
  "add_category c vs r = add_category c' vs' r \<longleftrightarrow> c = c' \<and> vs = vs'"
  by (cases r) (auto simp: add_category_def)

section \<open>Each kind of reference\<close>

definition from_argument :: "string \<Rightarrow> string option" where
  "from_argument line = (if commented line then None else map_option (\<lambda>m. m 1) (FindStringSubmatch reFrom line))"

definition stages_upto :: "libraries \<Rightarrow> string list \<Rightarrow> string list" where
  "stages_upto lib lines = concat (map (\<lambda>l. case from_argument l of None \<Rightarrow> [] | Some a \<Rightarrow> stage_names lib (Fields a)) lines)"

lemma dockerfile_lines_step:
  "dockerfile_lines lib rel n stages (line # lines) =
     (case from_argument line of
        None \<Rightarrow> dockerfile_lines lib rel (Suc n) stages lines
      | Some a \<Rightarrow> (case dockerfile_lines lib rel (Suc n) (stages @ stage_names lib (Fields a)) lines of
          (k, vs) \<Rightarrow> (Suc k, grade_from lib (stages @ stage_names lib (Fields a)) rel (Suc n) a (from_ref (Fields a)) @ vs)))"
  by (auto simp: from_argument_def Let_def split: option.splits prod.splits)

definition from_ok :: "libraries \<Rightarrow> string list \<Rightarrow> string \<Rightarrow> bool" where
  "from_ok lib stages a \<longleftrightarrow> pinned_image (from_ref (Fields a)) \<or> unicode_lower lib (from_ref (Fields a)) \<in> set stages"

lemma grade_from_clean: "grade_from lib stages rel n a (from_ref (Fields a)) = [] \<Longrightarrow> from_ok lib stages a"
  by (auto simp: grade_from_def from_ok_def reImageRef_iff split: if_splits)

lemma dockerfile_clean:
  "snd (dockerfile_lines lib rel n stages lines) = [] \<Longrightarrow> i < length lines \<Longrightarrow> from_argument (lines ! i) = Some a
   \<Longrightarrow> from_ok lib (stages @ stages_upto lib (take (Suc i) lines)) a"
proof (induction lines arbitrary: n stages i)
  case (Cons l ls)
  define st where "st = (case from_argument l of None \<Rightarrow> [] | Some b \<Rightarrow> stage_names lib (Fields b))"
  have step: "stages_upto lib (l # xs) = st @ stages_upto lib xs" for xs by (simp add: stages_upto_def st_def)
  have tail: "snd (dockerfile_lines lib rel (Suc n) (stages @ st) ls) = []"
    using Cons.prems(1) by (auto simp: dockerfile_lines_step st_def simp del: dockerfile_lines.simps split: option.splits prod.splits)
  show ?case
  proof (cases i)
    case 0
    then have "from_argument l = Some a" using Cons.prems(3) by simp
    then have "grade_from lib (stages @ st) rel (Suc n) a (from_ref (Fields a)) = []"
      using Cons.prems(1) by (auto simp: dockerfile_lines_step st_def simp del: dockerfile_lines.simps split: prod.splits)
    then have "from_ok lib (stages @ st) a" by (rule grade_from_clean)
    then show ?thesis using 0 by (simp add: step stages_upto_def [of _ "[]"])
  next
    case (Suc j)
    then show ?thesis using Cons.IH [OF tail, of j] Cons.prems by (simp add: step)
  qed
qed simp


lemma scanDockerfiles_clean:
  assumes "\<forall>q. scanDockerfiles lib co q = Inr (add_category c [] q)" "in_checkout co rel s" "isDockerfile rel"
  shows "snd (dockerfile_lines lib rel 0 [] (text_lines s)) = []"
proof -
  obtain files texts where t: "category_files co isDockerfile = Inr (files, texts)"
    using assms(1) by (cases "category_files co isDockerfile") (auto simp: scanDockerfiles_def)
  then have "\<forall>p \<in> set texts. (case p of (rel, s) \<Rightarrow> snd (dockerfile_lines lib rel 0 [] (text_lines s))) = []"
    using assms(1) by (simp add: scanDockerfiles_def Let_def case_prod_unfold)
  then show ?thesis using category_files_member [OF t assms(2,3)] by fastforce
qed

text \<open>The images of the services that a compose file does not build.\<close>

definition pulls :: "ynode \<Rightarrow> string \<Rightarrow> bool" where
  "pulls doc ref \<longleftrightarrow> (\<exists>name svc img. (name, svc) \<in> set (composeServices doc) \<and> mappingValue svc ''build'' = None
     \<and> mappingValue svc ''image'' = Some img \<and> ref = yvalue img)"

lemma grade_service_clean: "grade_service lib rel name img = [] \<Longrightarrow> pinned_image (yvalue img)"
  by (auto simp: grade_service_def Let_def reImageRef_iff split: if_splits)

lemma compose_file_clean:
  assumes "snd (snd (compose_file lib rel s)) = []"
  shows "\<exists>doc. yaml_Unmarshal lib s = Inr doc \<and> (\<forall>ref. pulls doc ref \<longrightarrow> pinned_image ref)"
proof -
  obtain doc where doc: "yaml_Unmarshal lib s = Inr doc" using assms by (auto simp: compose_file_def split: sum.splits)
  have "pinned_image (yvalue img)" if "(name, svc) \<in> set (composeServices doc)" "mappingValue svc ''build'' = None"
    "mappingValue svc ''image'' = Some img" for name svc img
    using assms that by (intro grade_service_clean [of lib rel name]) (force simp: compose_file_def doc Let_def)
  then show ?thesis using doc by (auto simp: pulls_def)
qed

lemma scanComposeFiles_clean:
  assumes "\<forall>q. scanComposeFiles lib co q = Inr (add_category c [] q)" "in_checkout co rel s" "isComposeFile rel"
  shows "snd (snd (compose_file lib rel s)) = []"
proof -
  obtain files texts where t: "category_files co isComposeFile = Inr (files, texts)"
    using assms(1) by (cases "category_files co isComposeFile") (auto simp: scanComposeFiles_def)
  then have "\<forall>p \<in> set texts. (case p of (rel, s) \<Rightarrow> snd (snd (compose_file lib rel s))) = []"
    using assms(1) by (simp add: scanComposeFiles_def Let_def case_prod_unfold)
  then show ?thesis using category_files_member [OF t assms(2,3)] by fastforce
qed

text \<open>An action of the workflow, with its three acceptable forms; and the images of its jobs.\<close>

definition uses_ok :: "string \<Rightarrow> bool" where
  "uses_ok ref \<longleftrightarrow> is_local ref \<or> (\<exists>img. ref = ''docker://'' @ img \<and> pinned_image img) \<or> pinned_action ref"

lemma has_prefix_append: "has_prefix s p \<Longrightarrow> s = p @ drop (length p) s"
  by (induction s p rule: has_prefix.induct) auto

lemma grade_uses_clean: "grade_uses rel n ref trailing = [] \<Longrightarrow> uses_ok ref"
proof -
  assume g: "grade_uses rel n ref trailing = []"
  have "ref = ''docker://'' @ drop 9 ref" if "has_prefix ref ''docker://''" using has_prefix_append [OF that] by (simp add: eval_nat_numeral)
  then show ?thesis using g
    by (auto simp: grade_uses_def uses_ok_def Let_def reImageRef_iff reActionSHA_iff simp del: append.simps split: if_splits)
qed

lemma workflowImage_clean: "workflowImageViolation rel img whr = [] \<Longrightarrow> pinned_image (yvalue img)"
  by (auto simp: workflowImageViolation_def Let_def reImageRef_iff split: if_splits)

lemma workflow_file_clean:
  assumes "snd (snd (snd (workflow_file lib co rel s))) = []" "co_read co rel = Contents s"
  shows "\<forall>(n, ref, trailing) \<in> set (uses_lines 0 (text_lines s)). uses_ok ref"
    and "\<exists>doc. yaml_Unmarshal lib s = Inr doc \<and> (\<forall>(img, whr) \<in> set (workflow_images lib doc). pinned_image (yvalue img))"
proof -
  have vs: "snd (scanWorkflowImages lib co rel) = []"
    "\<forall>(n, ref, trailing) \<in> set (uses_lines 0 (text_lines s)). grade_uses rel n ref trailing = []"
    using assms(1) by (auto simp: workflow_file_def Let_def split: prod.splits)
  then show "\<forall>(n, ref, trailing) \<in> set (uses_lines 0 (text_lines s)). uses_ok ref"
    using grade_uses_clean by blast
  obtain doc where doc: "yaml_Unmarshal lib s = Inr doc"
    "\<forall>(img, whr) \<in> set (workflow_images lib doc). workflowImageViolation rel img whr = []"
    using vs(1) assms(2) by (fastforce simp: scanWorkflowImages_def readFile_def Let_def split: sum.splits)
  then show "\<exists>doc. yaml_Unmarshal lib s = Inr doc \<and> (\<forall>(img, whr) \<in> set (workflow_images lib doc). pinned_image (yvalue img))"
    using workflowImage_clean by blast
qed

lemma scanWorkflows_clean:
  assumes "\<forall>q. scanWorkflows lib co q = Inr (add_category c [] q)" "in_checkout co rel s" "isWorkflow rel"
  shows "snd (snd (snd (workflow_file lib co rel s))) = []"
proof -
  obtain files texts where t: "category_files co isWorkflow = Inr (files, texts)"
    using assms(1) by (cases "category_files co isWorkflow") (auto simp: scanWorkflows_def)
  then have "\<forall>p \<in> set texts. (case p of (rel, s) \<Rightarrow> snd (snd (snd (workflow_file lib co rel s)))) = []"
    using assms(1) by (simp add: scanWorkflows_def Let_def case_prod_unfold)
  then show ?thesis using category_files_member [OF t assms(2,3)] by fastforce
qed

lemma clean_contribution:
  assumes "pin_Scan lib co = Inr r" "Violations r = []" "s \<in> set (pin_scanners lib)"
  shows "\<exists>c. \<forall>q. s co q = Inr (add_category c [] q)"
  using pin_Scan_contribute [OF assms(1,3)] assms(2) by (metis set_empty subset_empty)

text \<open>
  C26: A scan of the pin gate without violations means that what it scanned is pinned. For every regular
  file of the checkout outside the skipped directories: a Dockerfile builds each stage on an image with a
  tag and a digest, or on a stage whose name that file declares up to this line; a compose file is YAML and
  every service it does not build names an image with a tag and a digest; every action of a workflow is
  in the checkout, an image with a tag and a digest, or at a commit, and the workflow is YAML whose jobs and
  services run such images only.
\<close>

theorem scan_pins:
  assumes "pin_Scan lib co = Inr r" "Violations r = []" "in_checkout co rel s"
  shows "(isDockerfile rel \<longrightarrow> (\<forall>i a. i < length (text_lines s) \<and> from_argument (text_lines s ! i) = Some a \<longrightarrow>
            from_ok lib (stages_upto lib (take (Suc i) (text_lines s))) a))
    \<and> (isComposeFile rel \<longrightarrow> (\<exists>doc. yaml_Unmarshal lib s = Inr doc \<and> (\<forall>ref. pulls doc ref \<longrightarrow> pinned_image ref)))
    \<and> (isWorkflow rel \<longrightarrow> (\<forall>(n, ref, trailing) \<in> set (uses_lines 0 (text_lines s)). uses_ok ref)
         \<and> (\<exists>doc. yaml_Unmarshal lib s = Inr doc \<and> (\<forall>(img, whr) \<in> set (workflow_images lib doc). pinned_image (yvalue img))))"
proof (intro conjI impI allI)
  note clean = clean_contribution [OF assms(1,2)]
  fix i a assume "isDockerfile rel" "i < length (text_lines s) \<and> from_argument (text_lines s ! i) = Some a"
  moreover obtain c where "\<forall>q. scanDockerfiles lib co q = Inr (add_category c [] q)"
    using clean [of "scanDockerfiles lib"] by (auto simp: pin_scanners_def)
  ultimately show "from_ok lib (stages_upto lib (take (Suc i) (text_lines s))) a"
    using dockerfile_clean [OF scanDockerfiles_clean [OF _ assms(3)], of lib c i a] by simp
next
  assume "isComposeFile rel"
  moreover obtain c where "\<forall>q. scanComposeFiles lib co q = Inr (add_category c [] q)"
    using clean_contribution [OF assms(1,2), of "scanComposeFiles lib"] by (auto simp: pin_scanners_def)
  ultimately show "\<exists>doc. yaml_Unmarshal lib s = Inr doc \<and> (\<forall>ref. pulls doc ref \<longrightarrow> pinned_image ref)"
    using compose_file_clean scanComposeFiles_clean [OF _ assms(3)] by blast
next
  assume w: "isWorkflow rel"
  obtain c where c: "\<forall>q. scanWorkflows lib co q = Inr (add_category c [] q)"
    using clean_contribution [OF assms(1,2), of "scanWorkflows lib"] by (auto simp: pin_scanners_def)
  have "co_read co rel = Contents s" using assms(3) by (simp add: in_checkout_def)
  note ok = workflow_file_clean [OF scanWorkflows_clean [OF c assms(3) w] this]
  show "\<forall>(n, ref, trailing) \<in> set (uses_lines 0 (text_lines s)). uses_ok ref" by (rule ok(1))
  show "\<exists>doc. yaml_Unmarshal lib s = Inr doc \<and> (\<forall>(img, whr) \<in> set (workflow_images lib doc). pinned_image (yvalue img))" by (rule ok(2))
qed


definition sample_digest :: string where "sample_digest = replicate 64 (CHR ''a'')"

definition sample_compose :: ynode where
  "sample_compose = (let key = \<lambda>k. YNode ScalarNode k 1 [];
       svc = YNode MappingNode [] 3 [key ''image'', YNode ScalarNode (''postgis/postgis:16-3.4@sha256:'' @ sample_digest) 3 []]
     in YNode DocumentNode [] 1 [YNode MappingNode [] 1 [key ''services'', YNode MappingNode [] 2 [key ''db'', svc]]])"

definition sample_libraries :: libraries where
  "sample_libraries = runtime.extend sample_stream_rt
     \<lparr>yaml_Unmarshal = (\<lambda>_. Inr sample_compose), parser_ParseFile = (\<lambda>_. Inl ''no Go here''), json_error = (\<lambda>_. []), strconv_Quote = dquoted\<rparr>"

definition sample_checkout :: checkout where
  "sample_checkout = \<lparr>co_name = ''tracker'',
     co_tree = Tree (Directory (Some [(''.git'', Directory None), (''compose.yml'', Regular (Some 9) (Bytes ''services:'' False))])),
     co_read = (\<lambda>rel. if rel = ''compose.yml'' then Contents ''services:'' else Absent),
     co_stat = (\<lambda>rel. rel = ''compose.yml''), co_worktree = True, co_tracked = (\<lambda>_. True), co_ignored = (\<lambda>_. False)\<rparr>"

lemma sample_pinned: "pinned_image (''postgis/postgis:16-3.4@sha256:'' @ sample_digest)"
  unfolding pinned_image_def
  by (intro exI [of _ "''postgis/postgis''"] exI [of _ "''16-3.4''"] exI [of _ sample_digest])
    (simp add: name_char_def tag_char_def hex_lower_def rx_space_def sample_digest_def is_digit_def)

lemma sample_pulls: "pulls sample_compose ref \<longleftrightarrow> ref = ''postgis/postgis:16-3.4@sha256:'' @ sample_digest"
  by (simp add: pulls_def sample_compose_def composeServices_def mappingValue_def Let_def)

lemma sample_walk: "walkFiles sample_checkout keep = Inr (if keep ''compose.yml'' then [''compose.yml''] else [])"
  by (simp add: walkFiles_def sample_checkout_def not_scanned_def DemonstrationsDir_def pin_skipDirs_def join_path_def sort_strings_def)

lemma sample_files:
  "category_files sample_checkout keep =
     Inr (if keep ''compose.yml'' then ([''compose.yml''], [(''compose.yml'', ''services:'')]) else ([], []))"
proof -
  have "readFile sample_checkout ''compose.yml'' = Inr (Some ''services:'')" by (simp add: readFile_def sample_checkout_def)
  then show ?thesis by (simp add: category_files_def sample_walk)
qed

lemma sample_kinds:
  "\<not> isDockerfile ''compose.yml''" "isComposeFile ''compose.yml''" "\<not> isGoSource ''compose.yml''" "\<not> isWorkflow ''compose.yml''"
  "\<not> isGradleWrapperProperties ''compose.yml''" "\<not> isVersionCatalog ''compose.yml''" "\<not> isGradleScript ''compose.yml''"
  "path_Base ''compose.yml'' \<noteq> ''package.json''"
  by (simp_all add: isDockerfile_def isComposeFile_def isGoSource_def isWorkflow_def isGradleWrapperProperties_def isVersionCatalog_def
      isGradleScript_def path_Base_def path_Dir_def has_suffix_def yaml_suffix_def ascii_lower_def)

lemma sample_service: "snd (snd (compose_file sample_libraries ''compose.yml'' ''services:'')) = []"
proof -
  let ?ref = "''postgis/postgis:16-3.4@sha256:'' @ sample_digest"
  have "\<not> contains ?ref ''${''" "\<not> contains ?ref ''$(''" by (simp_all add: sample_digest_def eval_nat_numeral)
  then have "grade_service sample_libraries ''compose.yml'' ''db'' (YNode ScalarNode ?ref 3 []) = []"
    using sample_pinned by (simp only: grade_service_def Let_def ynode.sel reImageRef_iff if_False simp_thms)
  then show ?thesis
    by (simp add: compose_file_def sample_libraries_def runtime.extend_def sample_compose_def composeServices_def mappingValue_def Let_def)
qed

lemma sample_scan: "\<exists>r. pin_Scan sample_libraries sample_checkout = Inr r \<and> Violations r = []"
proof -
  have none: "readLines sample_checkout ''go.mod'' = Inr None" "readLines sample_checkout ''Makefile'' = Inr None"
    by (simp_all add: readLines_def readFile_def sample_checkout_def)
  show ?thesis
    using sample_service
    by (simp add: pin_Scan_def pin_scanners_def scanDockerfiles_def scanComposeFiles_def scanGoSources_def scanWorkflows_def scanGoModule_def
        scanMakefile_def scanGradleWrapper_def scanGradleCatalogs_def scanGradleScripts_def scanNodeManifests_def sample_files sample_walk
        sample_kinds none Let_def add_category_def)
qed

theorem scan_pins_witness:
  "\<exists>r. pin_Scan sample_libraries sample_checkout = Inr r \<and> Violations r = [] \<and> in_checkout sample_checkout ''compose.yml'' ''services:''
     \<and> (\<exists>doc. yaml_Unmarshal sample_libraries ''services:'' = Inr doc \<and> pulls doc (''postgis/postgis:16-3.4@sha256:'' @ sample_digest)
          \<and> pinned_image (''postgis/postgis:16-3.4@sha256:'' @ sample_digest))"
proof -
  obtain r where r: "pin_Scan sample_libraries sample_checkout = Inr r" "Violations r = []" using sample_scan by blast
  have "scanned_file ''.'' ''tracker'' (Directory (Some [(''.git'', Directory None), (''compose.yml'', Regular (Some 9) (Bytes ''services:'' False))])) ''compose.yml''"
    by (rule scanned_file.inside [where x = "''compose.yml''"])
      (simp_all add: not_scanned_def DemonstrationsDir_def pin_skipDirs_def join_path_def, rule scanned_file.regular)
  then have f: "in_checkout sample_checkout ''compose.yml'' ''services:''" by (simp add: in_checkout_def sample_checkout_def)
  have doc: "yaml_Unmarshal sample_libraries ''services:'' = Inr sample_compose" by (simp add: sample_libraries_def runtime.extend_def)
  then have "pinned_image (''postgis/postgis:16-3.4@sha256:'' @ sample_digest)"
    using scan_pins [OF r f] sample_kinds(2) sample_pulls by (metis Inr_inject)
  then show ?thesis using r f doc sample_pulls by blast
qed

text \<open>
  C39: A stage may be named after the image it is built on. The scanner enters the stage name of a
  \<open>FROM\<close> line before it looks at the reference of that line, so \<open>FROM alpine AS alpine\<close>, whatever comes
  before it in the file, counts as examined and earns no violation.
\<close>

theorem own_stage_name_accepted:
  "snd (dockerfile_lines lib rel n stages [''FROM alpine AS alpine'']) = []
   \<and> fst (dockerfile_lines lib rel n stages [''FROM alpine AS alpine'']) = 1 \<and> \<not> pinned_image ''alpine''"
proof -
  have "from_argument ''FROM alpine AS alpine'' = Some ''alpine AS alpine''" by code_simp
  moreover have "Fields ''alpine AS alpine'' = [''alpine'', ''AS'', ''alpine'']" by code_simp
  moreover have "EqualFold ''AS'' ''AS''" "\<not> EqualFold ''alpine'' ''AS''" by code_simp+
  moreover have "\<not> pinned_image ''alpine''" unfolding reImageRef_iff [symmetric] by code_simp
  ultimately show ?thesis by (simp add: dockerfile_lines_step grade_from_def del: dockerfile_lines.simps(2))
qed

end
