(* ===== verification/ProseGate.thy ===== *)
theory ProseGate
  imports PinGate
begin

text \<open>
  The prose gate of the build, \<open>internal/prosegate\<close>: counting the prose lines of a Go file (\<open>count.go\<close>), the
  sweep of a tree and its verdict (\<open>sweep.go\<close>), the record that holds the thresholds to what was written
  down (\<open>record.go\<close>, \<open>prosegate.go\<close>). The Go parser and scanner, git and the file system are parameters. The lemmas
  show what a passing gate says about every file, that the ceiling it derives is the least one, and that
  the section it writes into the record is read back as it was written.
\<close>

section \<open>Thresholds and refusals\<close>

definition RecordFile :: string where "RecordFile = ''COMMENT-DENSITY-RECORD.md''"

record Thresholds =
  CeilingPercent :: int
  BandPercent :: int
  MinimumLines :: int

definition Enforced :: Thresholds where
  "Enforced = \<lparr>CeilingPercent = 45, BandPercent = 35, MinimumLines = 30\<rparr>"

datatype prose_category = OverCeiling | Unparseable | UnreadableFile | EmptySweep | RecordDrift

fun category_text :: "prose_category \<Rightarrow> string" where
  "category_text OverCeiling = ''over-ceiling''"
| "category_text Unparseable = ''unparseable''"
| "category_text UnreadableFile = ''unreadable''"
| "category_text EmptySweep = ''empty-sweep''"
| "category_text RecordDrift = ''record-drift''"

definition prose_Categories :: "prose_category list" where
  "prose_Categories = [OverCeiling, Unparseable, UnreadableFile, EmptySweep, RecordDrift]"

record Refusal =
  R_Category :: prose_category
  R_File :: string
  R_Why :: string

definition Refusal_Error :: "Refusal \<Rightarrow> string" where
  "Refusal_Error r =
     (if R_File r = [] then ''['' @ category_text (R_Category r) @ ''] '' @ R_Why r
      else ''['' @ category_text (R_Category r) @ ''] '' @ R_File r @ '': '' @ R_Why r)"

text \<open>An error: a refusal, the join of several errors, a wrapped one, or any other.\<close>

datatype go_error = Refuse Refusal | Joined "go_error list" | Wrapped go_error | OtherError string

fun RefusalsIn :: "go_error \<Rightarrow> Refusal list" where
  "RefusalsIn (Refuse r) = [r]"
| "RefusalsIn (Joined es) = concat (map RefusalsIn es)"
| "RefusalsIn (Wrapped e) = RefusalsIn e"
| "RefusalsIn (OtherError s) = []"

definition CategoriesIn :: "go_error \<Rightarrow> string list" where
  "CategoriesIn e = sort_strings (remdups (map (category_text \<circ> R_Category) (RefusalsIn e)))"

definition errors_Join :: "go_error list \<Rightarrow> go_error option" where
  "errors_Join es = (if es = [] then None else Some (Joined es))"

section \<open>Counting\<close>

record Count =
  Prose :: nat
  Code :: nat

definition Counted :: "Count \<Rightarrow> nat" where "Counted c = Prose c + Code c"

definition Above :: "Count \<Rightarrow> int \<Rightarrow> bool" where "Above c pct \<longleftrightarrow> int (Prose c) * 100 > pct * int (Counted c)"

definition Count_MajorityProse :: "Count \<Rightarrow> bool" where "Count_MajorityProse c \<longleftrightarrow> Prose c \<ge> Code c"

definition generatedMarker :: rx where
  "generatedMarker = Seq [Bol, Lit ''// Code generated '', Many (Cls not_newline), Lit '' DO NOT EDIT.'', Eol]"

definition licenceWords :: "string list" where
  "licenceWords = [''copyright'', ''spdx-license-identifier'', ''licensed under'', ''all rights reserved'']"

text \<open>
  What \<open>go/parser\<close> and \<open>go/scanner\<close> give of a file: whether it is marked as generated, the position of its
  package clause, its comment groups and its tokens. A comment has its text and the lines it begins and
  ends on in the file itself; a group has its position and the text without the comment markers.
\<close>

record comment =
  cm_text :: string
  cm_from :: nat
  cm_to :: nat

record comment_group =
  cg_pos :: nat
  cg_text :: string
  cg_list :: "comment list"

datatype token = COMMENT | SEMICOLON string | Token

record gosource =
  gs_generated :: bool
  gs_package :: nat
  gs_comments :: "comment_group list"
  gs_tokens :: "(nat \<times> token) list"

text \<open>The two tests of \<open>go/build/constraint\<close>: what follows the marker is set off by space.\<close>

definition set_off :: "string \<Rightarrow> bool" where "set_off s \<longleftrightarrow> s = [] \<or> length (TrimSpace s) \<noteq> length s"

definition one_line :: "string \<Rightarrow> string option" where
  "one_line s =
     (let t = (if s \<noteq> [] \<and> List.last s = CHR 0x0A then butlast s else s)
      in if CHR 0x0A \<in> set t then None else Some t)"

definition IsGoBuild :: "string \<Rightarrow> bool" where
  "IsGoBuild s =
     (case one_line s of
        None \<Rightarrow> False
      | Some t \<Rightarrow> has_prefix t ''//go:build'' \<and> set_off (drop 10 (TrimSpace t)))"

definition IsPlusBuild :: "string \<Rightarrow> bool" where
  "IsPlusBuild s =
     (case one_line s of
        None \<Rightarrow> False
      | Some t \<Rightarrow> has_prefix t ''//'' \<and> (let l = TrimSpace (drop 2 t) in has_prefix l ''+build'' \<and> set_off (drop 6 l)))"

definition directive_char :: "char \<Rightarrow> bool" where "directive_char c \<longleftrightarrow> is_lower c \<or> is_digit c"

definition isToolDirective :: "string \<Rightarrow> bool" where
  "isToolDirective body =
     (if has_prefix body ''line '' \<or> has_prefix body ''extern '' \<or> has_prefix body ''export '' then True
      else let colon = length (takeWhile (\<lambda>c. c \<noteq> CHR '':'') body)
           in if colon = 0 \<or> colon + 1 \<ge> length body then False
              else list_all directive_char (take colon body @ [body ! (colon + 1)]))"

definition isDirectiveComment :: "string \<Rightarrow> bool" where
  "isDirectiveComment txt =
     (if IsGoBuild txt \<or> IsPlusBuild txt \<or> MatchString generatedMarker txt then True
      else if has_prefix txt ''/*line '' \<or> has_prefix txt (''/*line'' @ [CHR 0x09]) then True
      else if \<not> has_prefix txt ''//'' then False
      else let body = drop 2 txt
           in if body = ''nolint'' \<or> has_prefix body ''nolint '' then True else isToolDirective body)"

definition tokenLines :: "(nat \<times> token) list \<Rightarrow> nat list" where
  "tokenLines toks = map fst (filter (\<lambda>(n, t). t \<noteq> COMMENT \<and> t \<noteq> SEMICOLON [CHR 0x0A]) toks)"

definition group_lines :: "comment_group \<Rightarrow> nat list" where
  "group_lines g = (case cg_list g of [] \<Rightarrow> [] | cs \<Rightarrow> [cm_from (hd cs)..<Suc (cm_to (List.last cs))])"

definition licenceLines :: "gosource \<Rightarrow> nat list" where
  "licenceLines f =
     (case gs_comments f of
        [] \<Rightarrow> []
      | first # _ \<Rightarrow>
          if cg_pos first > gs_package f then []
          else if \<exists>w \<in> set licenceWords. contains (ToLower (cg_text first)) w then group_lines first
          else [])"

definition proseLines :: "gosource \<Rightarrow> nat list" where
  "proseLines f =
     concat (map (\<lambda>c. [cm_from c..<Suc (cm_to c)])
       (filter (\<lambda>c. \<not> isDirectiveComment (cm_text c)) (concat (map cg_list (gs_comments f)))))"

fun count_lines :: "nat list \<Rightarrow> nat list \<Rightarrow> nat list \<Rightarrow> nat \<Rightarrow> string list \<Rightarrow> Count" where
  "count_lines skip prose src n [] = \<lparr>Prose = 0, Code = 0\<rparr>"
| "count_lines skip prose src n (l # ls) =
     (let c = count_lines skip prose src (Suc n) ls
      in if Suc n \<in> set skip \<or> TrimSpace l = [] then c
         else if Suc n \<in> set prose \<and> Suc n \<notin> set src then c\<lparr>Prose := Suc (Prose c)\<rparr>
         else c\<lparr>Code := Suc (Code c)\<rparr>)"

text \<open>A file that does not parse is an error, with its text; a generated one is left out.\<close>

definition CountSource :: "(string \<Rightarrow> string + gosource) \<Rightarrow> string \<Rightarrow> string + Count \<times> bool" where
  "CountSource parse s =
     (case parse s of
        Inl err \<Rightarrow> Inl err
      | Inr f \<Rightarrow>
          if gs_generated f then Inr (\<lparr>Prose = 0, Code = 0\<rparr>, True)
          else Inr (count_lines (licenceLines f) (proseLines f) (tokenLines (gs_tokens f)) 0 (split_at (CHR 0x0A) s), False))"

section \<open>The swept files\<close>

text \<open>
  What the gate asks about a tree: whether there is a git directory, the answer of \<open>git ls-files -z\<close> or its
  error, the tree, the text of a walk's error, the contents of a path or the error, and the two
  libraries: the parser, the percentage with one decimal and \<open>strconv.Quote\<close>.
\<close>

record swept =
  sw_git :: bool
  sw_ls_files :: "string + string"
  sw_tree :: node
  sw_walk_error :: "tree_error \<Rightarrow> string"
  sw_read :: "string \<Rightarrow> string + string"
  sw_parse :: "string \<Rightarrow> string + gosource"
  sw_percent :: "nat \<Rightarrow> nat \<Rightarrow> string"
  sw_quote :: "string \<Rightarrow> string"
  sw_root :: string

definition prose_skipDirs :: "string list" where "prose_skipDirs = [''.git'', ''testdata'', ''vendor'']"

definition skipped :: "string \<Rightarrow> bool" where
  "skipped rel \<longleftrightarrow> set (split_at (CHR ''/'') (path_Dir rel)) \<inter> set prose_skipDirs \<noteq> {}"

definition gitTrackedGoFiles :: "swept \<Rightarrow> go_error + string list" where
  "gitTrackedGoFiles sw =
     (case sw_ls_files sw of
        Inl err \<Rightarrow> Inl (Refuse \<lparr>R_Category = EmptySweep, R_File = [],
          R_Why = ''listing the tracked Go files of '' @ sw_quote sw (sw_root sw) @ '' failed, so nothing was measured: '' @ err\<rparr>)
      | Inr out \<Rightarrow> Inr (sort_strings (filter (\<lambda>rel. rel \<noteq> [] \<and> \<not> skipped rel) (split_at (CHR 0x00) out))))"

definition not_swept :: "string \<Rightarrow> string \<Rightarrow> bool" where
  "not_swept rel name \<longleftrightarrow> rel \<noteq> ''.'' \<and> (name \<in> set prose_skipDirs \<or> has_prefix name ''.'' \<or> has_prefix name ''_'')"

definition walkGoFiles :: "swept \<Rightarrow> go_error + string list" where
  "walkGoFiles sw =
     (case visit not_swept (\<lambda>rel _. has_suffix rel ''.go'') ''.'' (sw_root sw) (sw_tree sw) of
        Inl e \<Rightarrow> Inl (Refuse \<lparr>R_Category = EmptySweep, R_File = [],
          R_Why = ''walking '' @ sw_quote sw (sw_root sw) @ '' for Go files failed, so nothing was measured: '' @ sw_walk_error sw e\<rparr>)
      | Inr out \<Rightarrow> Inr (sort_strings out))"

definition listGoFiles :: "swept \<Rightarrow> go_error + string list \<times> string" where
  "listGoFiles sw =
     (if sw_git sw then map_sum id (\<lambda>ps. (ps, ''git-tracked'')) (gitTrackedGoFiles sw)
      else map_sum id (\<lambda>ps. (ps, ''walked'')) (walkGoFiles sw))"

section \<open>The sweep\<close>

record FileReport =
  FR_Path :: string
  FR_Count :: Count
  FR_Eligible :: bool

record ProseReport =
  PR_Thresholds :: Thresholds
  PR_Files :: "FileReport list"
  PR_Generated :: "string list"
  PR_Listing :: string

text \<open>One file of the sweep: a refusal, a generated file, or a measured one.\<close>

datatype measured = Refused Refusal | GeneratedFile string | Measured FileReport

definition measure_file :: "swept \<Rightarrow> Thresholds \<Rightarrow> string \<Rightarrow> measured" where
  "measure_file sw th rel =
     (case sw_read sw rel of
        Inl err \<Rightarrow> Refused \<lparr>R_Category = UnreadableFile, R_File = rel,
          R_Why = ''cannot be read, so it cannot be counted and will not be dropped from the denominator instead: '' @ err\<rparr>
      | Inr src \<Rightarrow>
          (case CountSource (sw_parse sw) src of
             Inl err \<Rightarrow> Refused \<lparr>R_Category = Unparseable, R_File = rel,
               R_Why = ''cannot be parsed, so it is neither clean nor skipped: '' @ err\<rparr>
           | Inr (c, generated) \<Rightarrow>
               if generated then GeneratedFile rel
               else Measured \<lparr>FR_Path = rel, FR_Count = c, FR_Eligible = (int (Counted c) \<ge> MinimumLines th)\<rparr>))"

definition Measure :: "swept \<Rightarrow> Thresholds \<Rightarrow> go_error + ProseReport" where
  "Measure sw th =
     (case listGoFiles sw of
        Inl e \<Rightarrow> Inl e
      | Inr (paths, listing) \<Rightarrow>
          (let ms = map (measure_file sw th) paths;
               problems = concat (map (\<lambda>m. case m of Refused r \<Rightarrow> [Refuse r] | _ \<Rightarrow> []) ms);
               files = concat (map (\<lambda>m. case m of Measured f \<Rightarrow> [f] | _ \<Rightarrow> []) ms);
               generated = concat (map (\<lambda>m. case m of GeneratedFile p \<Rightarrow> [p] | _ \<Rightarrow> []) ms)
           in if problems \<noteq> [] then Inl (Joined problems)
              else if files = [] then Inl (Refuse \<lparr>R_Category = EmptySweep, R_File = [],
                R_Why = ''measured nothing: '' @ listing @ '' under '' @ sw_quote sw (sw_root sw)
                  @ '' holds no Go file to count, which is not a clean tree, it is a sweep that found nothing''\<rparr>)
              else Inr \<lparr>PR_Thresholds = th, PR_Files = stable_sort (\<lambda>a b. FR_Path a < FR_Path b) files,
                PR_Generated = sort_strings generated, PR_Listing = listing\<rparr>))"

definition Report_Eligible :: "ProseReport \<Rightarrow> FileReport list" where
  "Report_Eligible r = filter FR_Eligible (PR_Files r)"

definition worse :: "FileReport \<Rightarrow> FileReport \<Rightarrow> bool" where
  "worse f g =
     (let a = FR_Count f; b = FR_Count g
      in if Prose a * Counted b \<noteq> Prose b * Counted a then Prose a * Counted b > Prose b * Counted a else FR_Path f < FR_Path g)"

definition rank :: "ProseReport \<Rightarrow> (FileReport \<Rightarrow> bool) \<Rightarrow> FileReport list" where
  "rank r want = stable_sort worse (filter want (Report_Eligible r))"

definition Report_Over :: "ProseReport \<Rightarrow> FileReport list" where
  "Report_Over r = rank r (\<lambda>f. Above (FR_Count f) (CeilingPercent (PR_Thresholds r)))"

definition Report_Near :: "ProseReport \<Rightarrow> FileReport list" where
  "Report_Near r = rank r (\<lambda>f. Above (FR_Count f) (BandPercent (PR_Thresholds r)) \<and> \<not> Above (FR_Count f) (CeilingPercent (PR_Thresholds r)))"

definition Report_MajorityProse :: "ProseReport \<Rightarrow> FileReport list" where
  "Report_MajorityProse r = rank r (\<lambda>f. Count_MajorityProse (FR_Count f))"

definition Overall :: "ProseReport \<Rightarrow> Count" where
  "Overall r = \<lparr>Prose = sum_list (map (Prose \<circ> FR_Count) (PR_Files r)), Code = sum_list (map (Code \<circ> FR_Count) (PR_Files r))\<rparr>"

definition Worst :: "ProseReport \<Rightarrow> FileReport option" where
  "Worst r = (case rank r (\<lambda>_. True) of [] \<Rightarrow> None | f # _ \<Rightarrow> Some f)"

definition clean_at :: "ProseReport \<Rightarrow> int \<Rightarrow> bool" where
  "clean_at r candidate \<longleftrightarrow> list_all (\<lambda>f. \<not> Above (FR_Count f) candidate) (Report_Eligible r)"

function derive_from :: "ProseReport \<Rightarrow> int \<Rightarrow> int option" where
  "derive_from r candidate =
     (if candidate > 50 then None else if clean_at r candidate then Some candidate else derive_from r (candidate + 5))"
  by pat_completeness auto
termination by (relation "measure (\<lambda>(_, c). nat (51 - c))") auto

declare derive_from.simps [simp del]

definition DeriveCeiling :: "ProseReport \<Rightarrow> int option" where "DeriveCeiling r = derive_from r 0"

definition Band :: "int \<Rightarrow> int" where "Band c = (if c < 10 then 0 else c - 10)"

definition percent :: "swept \<Rightarrow> Count \<Rightarrow> string" where
  "percent sw c = (if Counted c = 0 then ''0.0%'' else TrimSpace (sw_percent sw (Prose c) (Counted c)))"

definition prose_CheckRepo :: "swept \<Rightarrow> Thresholds \<Rightarrow> ProseReport option \<times> go_error option" where
  "prose_CheckRepo sw th =
     (case Measure sw th of
        Inl e \<Rightarrow> (None, Some e)
      | Inr r \<Rightarrow> (Some r, errors_Join (map (\<lambda>f. Refuse \<lparr>R_Category = OverCeiling, R_File = FR_Path f,
            R_Why = percent sw (FR_Count f) @ '' of its counted lines are prose ('' @ show_nat (Prose (FR_Count f)) @ '' prose, ''
              @ show_nat (Code (FR_Count f)) @ '' code), over the '' @ FormatInt (CeilingPercent th)
              @ ''% ceiling. Say why once and delete the restatements''\<rparr>) (Report_Over r))))"

section \<open>The record\<close>

definition recordLine :: rx where
  "recordLine = Seq [BolM, Lit ''- '', Cap 1 (Alt (Lit ''error ceiling'') (Alt (Lit ''warning band'') (Lit ''minimum counted lines''))),
     Lit '': '', Cap 2 (Many1 (Cls is_digit)), Opt (Lit ''%''), EolM]"

definition drift :: "string \<Rightarrow> go_error" where
  "drift why = Refuse \<lparr>R_Category = RecordDrift, R_File = RecordFile, R_Why = why\<rparr>"

text \<open>The numbers the record states, by key and in order; a number out of range ends the reading.\<close>

fun record_numbers :: "(string \<times> string) list \<Rightarrow> (string \<times> string) + (string \<times> int) list" where
  "record_numbers [] = Inr []"
| "record_numbers ((key, num) # ms) =
     (case ParseInt num of
        Inl _ \<Rightarrow> Inl (key, num)
      | Inr n \<Rightarrow> (case record_numbers ms of Inl e \<Rightarrow> Inl e | Inr xs \<Rightarrow> Inr ((key, n) # xs)))"

definition stated :: "(string \<times> int) list \<Rightarrow> string \<Rightarrow> int list" where
  "stated xs key = map snd (filter (\<lambda>x. fst x = key) xs)"

definition record_value :: "(string \<times> int) list \<Rightarrow> string \<Rightarrow> int" where
  "record_value xs key = (case stated xs key of [n] \<Rightarrow> n | _ \<Rightarrow> 0)"

definition record_complaint :: "(string \<times> int) list \<Rightarrow> string \<Rightarrow> go_error list" where
  "record_complaint xs key =
     (case stated xs key of
        [n] \<Rightarrow> []
      | [] \<Rightarrow> [drift (''states no '' @ dquoted key @ '' line, so the number '' @ RecordFile @ '' enforces is written down nowhere'')]
      | ns \<Rightarrow> [drift (''states '' @ dquoted key @ '' '' @ show_nat (length ns) @ '' times; one record cannot hold the gate to two numbers'')])"

definition record_keys :: "string list" where
  "record_keys = [''error ceiling'', ''warning band'', ''minimum counted lines'']"

definition ReadRecordThresholds :: "swept \<Rightarrow> Thresholds \<times> go_error option" where
  "ReadRecordThresholds sw =
     (let none = \<lparr>CeilingPercent = 0, BandPercent = 0, MinimumLines = 0\<rparr>
      in case sw_read sw RecordFile of
           Inl err \<Rightarrow> (none, Some (drift (''cannot be read, so the thresholds the gate enforces answer to nothing: '' @ err)))
         | Inr body \<Rightarrow>
             (case record_numbers (map (\<lambda>m. (m 1, m 2)) (FindAllStringSubmatch recordLine body)) of
                Inl (key, num) \<Rightarrow> (none, Some (drift (''states '' @ dquoted num @ '' for '' @ dquoted key @ '', which is not a whole number'')))
              | Inr xs \<Rightarrow>
                  (\<lparr>CeilingPercent = record_value xs ''error ceiling'', BandPercent = record_value xs ''warning band'',
                    MinimumLines = record_value xs ''minimum counted lines''\<rparr>,
                   errors_Join (concat (map (record_complaint xs) record_keys)))))"

definition disagree :: "string \<Rightarrow> int \<Rightarrow> int \<Rightarrow> go_error list" where
  "disagree key want got =
     (if want = got then [] else [drift (''states '' @ key @ '' '' @ FormatInt got @ '', and the gate enforces '' @ FormatInt want)])"

definition CheckRecord :: "swept \<Rightarrow> Thresholds \<Rightarrow> go_error option" where
  "CheckRecord sw th =
     (case ReadRecordThresholds sw of
        (_, Some e) \<Rightarrow> Some e
      | (recorded, None) \<Rightarrow>
          errors_Join
            (disagree ''error ceiling'' (CeilingPercent th) (CeilingPercent recorded)
             @ disagree ''warning band'' (BandPercent th) (BandPercent recorded)
             @ disagree ''minimum counted lines'' (MinimumLines th) (MinimumLines recorded)
             @ (if Band (CeilingPercent th) \<noteq> BandPercent th
                then [drift (''the band is ten points below the ceiling by derivation, so a '' @ FormatInt (CeilingPercent th)
                  @ ''% ceiling makes it '' @ FormatInt (Band (CeilingPercent th)) @ ''%, not '' @ FormatInt (BandPercent th) @ ''%'')]
                else [])
             @ (if CeilingPercent th > 50
                then [drift (''the ceiling is never above fifty percent, and '' @ FormatInt (CeilingPercent th) @ ''% is'')] else [])
             @ (if CeilingPercent th mod 5 \<noteq> 0
                then [drift (''the ceiling is a whole multiple of five percentage points, and '' @ FormatInt (CeilingPercent th) @ ''% is not'')]
                else [])))"

definition RecordSection :: "int \<Rightarrow> int \<Rightarrow> string" where
  "RecordSection c minimum =
     ''- error ceiling: '' @ FormatInt c @ ''%'' @ [CHR 0x0A]
     @ ''- warning band: '' @ FormatInt (Band c) @ ''%'' @ [CHR 0x0A]
     @ ''- minimum counted lines: '' @ FormatInt minimum @ [CHR 0x0A]"


section \<open>What a run prints\<close>

definition counts_text :: "Count \<Rightarrow> string" where
  "counts_text c = ''('' @ show_nat (Prose c) @ '' prose, '' @ show_nat (Code c) @ '' code)''"

definition file_text :: "swept \<Rightarrow> FileReport \<Rightarrow> string" where
  "file_text sw f = ''  '' @ FR_Path f @ '' '' @ percent sw (FR_Count f) @ '' '' @ counts_text (FR_Count f)"

definition WriteSummary :: "swept \<Rightarrow> ProseReport \<Rightarrow> string list" where
  "WriteSummary sw r =
     (let th = PR_Thresholds r; overall = Overall r; near = Report_Near r
      in [''thresholds: error ceiling '' @ FormatInt (CeilingPercent th) @ ''%, warning band '' @ FormatInt (BandPercent th)
            @ ''%, minimum counted lines '' @ FormatInt (MinimumLines th) @ '' ('' @ RecordFile @ '')'',
          PR_Listing r @ '': '' @ show_nat (length (PR_Files r)) @ '' file(s) measured, '' @ show_nat (length (Report_Eligible r))
            @ '' eligible, '' @ show_nat (length (PR_Generated r)) @ '' generated and excluded'',
          ''repository-wide: '' @ percent sw overall @ '' prose '' @ counts_text overall]
         @ (case Worst r of
              None \<Rightarrow> []
            | Some w \<Rightarrow> [''highest eligible file: '' @ FR_Path w @ '' at '' @ percent sw (FR_Count w) @ '' '' @ counts_text (FR_Count w)])
         @ (if near = [] then [''no file is above the '' @ FormatInt (BandPercent th) @ ''% warning band'']
            else (show_nat (length near) @ '' file(s) above the '' @ FormatInt (BandPercent th) @ ''% warning band:'') # map (file_text sw) near))"

definition table_row :: "swept \<Rightarrow> Thresholds \<Rightarrow> FileReport \<Rightarrow> string" where
  "table_row sw th f =
     (let c = FR_Count f
      in ''| '' @ FR_Path f @ '' | '' @ show_nat (Prose c) @ '' | '' @ show_nat (Code c) @ '' | '' @ show_nat (Counted c) @ '' | ''
         @ percent sw c @ '' | '' @ (if FR_Eligible f then ''yes'' else ''no (under '' @ FormatInt (MinimumLines th) @ '')'') @ '' |'')"

definition WriteTable :: "swept \<Rightarrow> ProseReport \<Rightarrow> string list" where
  "WriteTable sw r =
     (let overall = Overall r; majority = Report_MajorityProse r
      in [''| file | prose | code | counted | ratio | eligible |'', ''|---|---:|---:|---:|---:|---|'']
         @ map (table_row sw (PR_Thresholds r)) (PR_Files r)
         @ [[], ''files measured: '' @ show_nat (length (PR_Files r)), ''files eligible: '' @ show_nat (length (Report_Eligible r)),
            ''files generated and excluded: '' @ show_nat (length (PR_Generated r)),
            ''repository-wide prose lines: '' @ show_nat (Prose overall), ''repository-wide code lines: '' @ show_nat (Code overall),
            ''repository-wide ratio: '' @ percent sw overall]
         @ (case Worst r of
              None \<Rightarrow> []
            | Some w \<Rightarrow> [''highest eligible per-file ratio: '' @ percent sw (FR_Count w) @ '' ('' @ FR_Path w @ '', ''
                @ show_nat (Prose (FR_Count w)) @ '' prose, '' @ show_nat (Code (FR_Count w)) @ '' code)''])
         @ (case DeriveCeiling r of
              None \<Rightarrow> []
            | Some c \<Rightarrow> [''smallest whole multiple of five percentage points no eligible file exceeds: '' @ FormatInt c @ ''%'', [],
                butlast (RecordSection c (MinimumLines (PR_Thresholds r)))])
         @ (if majority = [] then []
            else (''eligible files whose prose lines reach their code lines: '' @ show_nat (length majority)) # map (file_text sw) majority))"

text \<open>\<open>cmd/prosecheck\<close>, after its flags: a failure, the table, or the summary.\<close>

datatype prose_outcome = ProseFailed go_error | ProsePrinted "string list"

definition prosecheck_main :: "swept \<Rightarrow> bool \<Rightarrow> prose_outcome" where
  "prosecheck_main sw table =
     (if table then (case Measure sw Enforced of Inl e \<Rightarrow> ProseFailed e | Inr r \<Rightarrow> ProsePrinted (WriteTable sw r))
      else case prose_CheckRepo sw Enforced of
             (_, Some e) \<Rightarrow> ProseFailed e
           | (None, None) \<Rightarrow> ProsePrinted []
           | (Some r, None) \<Rightarrow>
               (case CheckRecord sw Enforced of
                  Some e \<Rightarrow> ProseFailed e
                | None \<Rightarrow> ProsePrinted ((''prose gate OK: no file is over the '' @ FormatInt (CeilingPercent Enforced) @ ''% ceiling ''
                    @ RecordFile @ '' records'') # [] # WriteSummary sw r)))"

section \<open>Demonstrations\<close>

definition prose_DemonstrationsDir :: string where "prose_DemonstrationsDir = ''internal/prosegate/testdata/refusals''"
definition committedSuffix :: string where "committedSuffix = ''.committed''"
definition symlinkSuffix :: string where "symlinkSuffix = ''.symlink''"

record ProseDemonstration =
  PD_Name :: string
  PD_Shape :: string
  PD_Category :: prose_category
  PD_File :: string
  PD_WhyContains :: string

definition prose_Demonstrations :: "ProseDemonstration list" where
  "prose_Demonstrations =
     [\<lparr>PD_Name = ''over-ceiling'', PD_Shape = ''an eligible file with more narration than code'', PD_Category = OverCeiling,
       PD_File = ''narrated.go'', PD_WhyContains = ''of its counted lines are prose''\<rparr>,
      \<lparr>PD_Name = ''unparseable'', PD_Shape = ''a Go file inside the swept set that does not parse'', PD_Category = Unparseable,
       PD_File = ''broken.go'', PD_WhyContains = ''neither clean nor skipped''\<rparr>,
      \<lparr>PD_Name = ''unreadable'', PD_Shape = ''a Go file the sweep expected to read and cannot'', PD_Category = UnreadableFile,
       PD_File = ''gone.go'', PD_WhyContains = ''dropped from the denominator''\<rparr>,
      \<lparr>PD_Name = ''empty-sweep'', PD_Shape = ''a tree holding no Go file at all'', PD_Category = EmptySweep,
       PD_File = [], PD_WhyContains = ''measured nothing''\<rparr>]"

text \<open>
  The committed cases, each as a tree of its own; the scratch directory: whether it can be made, whether a
  path in it can be written, and what reading through a link to a target gives.
\<close>

record demonstrated =
  dm_root :: swept
  dm_case :: "string \<Rightarrow> swept"
  dm_readdir :: "string \<Rightarrow> (string \<times> bool) list option"
  dm_mkdir :: bool
  dm_write :: "string \<Rightarrow> bool"
  dm_follow :: "string \<Rightarrow> string + string"

datatype fixture = Plain string | Link string

definition trim_suffix :: "string \<Rightarrow> string \<Rightarrow> string" where
  "trim_suffix s suf = (if has_suffix s suf then take (length s - length suf) s else s)"

definition materialised :: "string \<Rightarrow> string \<Rightarrow> string \<times> fixture" where
  "materialised rel data =
     (if has_suffix rel symlinkSuffix then (trim_suffix rel symlinkSuffix, Link (TrimSpace data))
      else (trim_suffix rel committedSuffix, Plain data))"

fun copy_fixtures :: "demonstrated \<Rightarrow> string \<Rightarrow> string list \<Rightarrow> (string \<times> fixture) list option" where
  "copy_fixtures dm name [] = Some []"
| "copy_fixtures dm name (rel # rels) =
     (case sw_read (dm_case dm name) rel of
        Inl _ \<Rightarrow> None
      | Inr data \<Rightarrow>
          (let f = materialised rel data
           in if dm_write dm (fst f) then map_option ((#) f) (copy_fixtures dm name rels) else None))"

definition fixture_node :: "fixture \<Rightarrow> node" where
  "fixture_node x = (case x of Plain data \<Rightarrow> plain_file data | Link _ \<Rightarrow> Special)"

definition scratch_swept :: "demonstrated \<Rightarrow> (string \<times> fixture) list \<Rightarrow> swept" where
  "scratch_swept dm files =
     (dm_root dm)\<lparr>sw_git := (\<exists>f \<in> set (map fst files). f = ''.git'' \<or> has_prefix f ''.git/''),
       sw_tree := Directory (Some (foldl (\<lambda>es (f, x). put_node (split_at (CHR ''/'') f) (fixture_node x) es) [] files)),
       sw_read := (\<lambda>rel. case map_of (rev files) rel of
          None \<Rightarrow> Inl ''no such file or directory'' | Some (Plain data) \<Rightarrow> Inr data | Some (Link target) \<Rightarrow> dm_follow dm target)\<rparr>"

definition prose_CaseTree :: "demonstrated \<Rightarrow> ProseDemonstration \<Rightarrow> swept option" where
  "prose_CaseTree dm d =
     (if \<not> dm_mkdir dm then None
      else case visit (\<lambda>_ _. False) (\<lambda>_ _. True) ''.'' (PD_Name d) (sw_tree (dm_case dm (PD_Name d))) of
             Inl _ \<Rightarrow> None
           | Inr files \<Rightarrow> map_option (scratch_swept dm) (copy_fixtures dm (PD_Name d) files))"

definition matchingRefusal :: "Refusal list \<Rightarrow> ProseDemonstration \<Rightarrow> Refusal option" where
  "matchingRefusal rs d =
     List.find (\<lambda>r. R_Category r = PD_Category d \<and> (PD_File d = [] \<or> R_File r = PD_File d)
       \<and> (PD_WhyContains d = [] \<or> contains (R_Why r) (PD_WhyContains d))) rs"

datatype demo_failure =
    CaseNotMade string
  | StillGreen string "Refusal list"
  | NotFired "string list"
  | CasesUnread
  | StrayEntries "string list"
  | NoExplanation string
  | CaseNotCommitted string

definition prose_red :: "demonstrated \<Rightarrow> Thresholds \<Rightarrow> ProseDemonstration \<Rightarrow> demo_failure option" where
  "prose_red dm th d =
     (case prose_CaseTree dm d of
        None \<Rightarrow> Some (CaseNotMade (PD_Name d))
      | Some sw \<Rightarrow>
          (let rs = (case snd (prose_CheckRepo sw th) of None \<Rightarrow> [] | Some e \<Rightarrow> RefusalsIn e)
           in if matchingRefusal rs d \<noteq> None then None else Some (StillGreen (PD_Name d) rs)))"

definition missingCategories :: "string list \<Rightarrow> string list" where
  "missingCategories demonstrated =
     map category_text (filter (\<lambda>c. c \<noteq> RecordDrift \<and> category_text c \<notin> set demonstrated) prose_Categories)"

definition prose_RunDemonstrations :: "demonstrated \<Rightarrow> Thresholds \<Rightarrow> nat \<times> string list \<times> demo_failure list" where
  "prose_RunDemonstrations dm th =
     (let red = filter (\<lambda>d. prose_red dm th d = None) prose_Demonstrations;
          fired = sort_strings (remdups (map (category_text \<circ> PD_Category) red))
      in (length red, fired,
          concat (map (\<lambda>d. case prose_red dm th d of None \<Rightarrow> [] | Some p \<Rightarrow> [p]) prose_Demonstrations)
          @ (if missingCategories fired \<noteq> [] then [NotFired (missingCategories fired)] else [])))"

definition stray_case :: "string \<times> bool \<Rightarrow> bool" where
  "stray_case e = (case e of (name, dir) \<Rightarrow> if dir then name \<notin> set (map PD_Name prose_Demonstrations) else name \<noteq> ''README.md'')"

definition prose_verifyDemonstrationTree :: "demonstrated \<Rightarrow> demo_failure list" where
  "prose_verifyDemonstrationTree dm =
     (case dm_readdir dm prose_DemonstrationsDir of
        None \<Rightarrow> [CasesUnread]
      | Some entries \<Rightarrow>
          (let stray = map fst (filter stray_case entries)
           in (if stray \<noteq> [] then [StrayEntries (sort_strings stray)] else [])
            @ concat (map (\<lambda>d. (if PD_WhyContains d = [] then [NoExplanation (PD_Name d)] else [])
                @ (if (PD_Name d, True) \<notin> set entries then [CaseNotCommitted (PD_Name d)] else [])) prose_Demonstrations)))"


section \<open>What the counts are\<close>

definition counted_line :: "gosource \<Rightarrow> string list \<Rightarrow> nat \<Rightarrow> bool" where
  "counted_line f ls i \<longleftrightarrow> i < length ls \<and> Suc i \<notin> set (licenceLines f) \<and> TrimSpace (ls ! i) \<noteq> []"

definition prose_line :: "gosource \<Rightarrow> string list \<Rightarrow> nat \<Rightarrow> bool" where
  "prose_line f ls i \<longleftrightarrow> counted_line f ls i \<and> Suc i \<in> set (proseLines f) \<and> Suc i \<notin> set (tokenLines (gs_tokens f))"

lemma card_shift:
  "card {i. i < length (l # ls) \<and> P (n + i) ((l # ls) ! i)} = (if P n l then 1 else 0) + card {i. i < length ls \<and> P (Suc n + i) (ls ! i)}"
proof -
  have "{i. i < length (l # ls) \<and> P (n + i) ((l # ls) ! i)}
      = (if P n l then {0} else {}) \<union> Suc ` {i. i < length ls \<and> P (Suc n + i) (ls ! i)}"
    by (auto simp: less_Suc_eq_0_disj)
  then show ?thesis by (simp add: card_image card_insert_if)
qed

lemma count_lines_card:
  "Prose (count_lines skip prose src n ls)
     = card {i. i < length ls \<and> (Suc (n + i) \<notin> set skip \<and> TrimSpace (ls ! i) \<noteq> [] \<and> Suc (n + i) \<in> set prose \<and> Suc (n + i) \<notin> set src)}"
  "Counted (count_lines skip prose src n ls)
     = card {i. i < length ls \<and> (Suc (n + i) \<notin> set skip \<and> TrimSpace (ls ! i) \<noteq> [])}"
proof (induction ls arbitrary: n)
  case (Cons l ls)
  {
    case 1
    show ?case
      using Cons.IH(1) [of "Suc n"]
        card_shift [where P = "\<lambda>k x. Suc k \<notin> set skip \<and> TrimSpace x \<noteq> [] \<and> Suc k \<in> set prose \<and> Suc k \<notin> set src"]
      by (simp add: Let_def)
  next
    case 2
    show ?case
      using Cons.IH(2) [of "Suc n"] card_shift [where P = "\<lambda>k x. Suc k \<notin> set skip \<and> TrimSpace x \<noteq> []"]
      by (simp add: Let_def Counted_def)
  }
qed (simp_all add: Counted_def)

lemma CountSource_counts:
  assumes "CountSource parse s = Inr (c, False)"
  shows "\<exists>f. parse s = Inr f \<and> \<not> gs_generated f \<and> Prose c = card {i. prose_line f (split_at (CHR 0x0A) s) i}
    \<and> Counted c = card {i. counted_line f (split_at (CHR 0x0A) s) i}"
proof -
  obtain f where f: "parse s = Inr f" "\<not> gs_generated f"
    "c = count_lines (licenceLines f) (proseLines f) (tokenLines (gs_tokens f)) 0 (split_at (CHR 0x0A) s)"
    using assms by (auto simp: CountSource_def split: sum.splits if_splits)
  then show ?thesis
    using count_lines_card [of "licenceLines f" "proseLines f" "tokenLines (gs_tokens f)" 0 "split_at (CHR 0x0A) s"]
    by (auto simp: prose_line_def counted_line_def conj_assoc)
qed

section \<open>A passing gate\<close>

lemma Measure_member:
  assumes "Measure sw th = Inr r" "listGoFiles sw = Inr (paths, listing)" "rel \<in> set paths"
  shows "(\<exists>p. measure_file sw th rel = GeneratedFile p) \<or> (\<exists>f \<in> set (PR_Files r). measure_file sw th rel = Measured f)"
    and "PR_Thresholds r = th"
proof -
  have none: "\<not> (\<exists>q. measure_file sw th rel = Refused q)"
    using assms by (auto simp: Measure_def Let_def split: if_splits)
  have files: "\<And>f. measure_file sw th rel = Measured f \<Longrightarrow> f \<in> set (PR_Files r)"
    using assms by (auto simp: Measure_def Let_def split: if_splits) force
  show "(\<exists>p. measure_file sw th rel = GeneratedFile p) \<or> (\<exists>f \<in> set (PR_Files r). measure_file sw th rel = Measured f)"
    using none files by (cases "measure_file sw th rel") auto
  show "PR_Thresholds r = th" using assms by (auto simp: Measure_def Let_def split: if_splits)
qed

text \<open>
  C34: What a passing prose gate says. Every Go file of the listing could be read and parsed, and either it is
  marked as generated, or it has fewer counted lines than the minimum, or the lines that are nothing but
  comment are within the ceiling, as a share of the lines that are neither blank nor in the licence notice.
\<close>

theorem prose_gate_passes:
  assumes "prose_CheckRepo sw th = (Some r, None)" "listGoFiles sw = Inr (paths, listing)" "rel \<in> set paths"
  shows "\<exists>s f. sw_read sw rel = Inr s \<and> sw_parse sw s = Inr f
    \<and> (gs_generated f
       \<or> int (card {i. counted_line f (split_at (CHR 0x0A) s) i}) < MinimumLines th
       \<or> int (card {i. prose_line f (split_at (CHR 0x0A) s) i}) * 100
           \<le> CeilingPercent th * int (card {i. counted_line f (split_at (CHR 0x0A) s) i}))"
proof -
  have r: "Measure sw th = Inr r" "Report_Over r = []"
    using assms(1) by (auto simp: prose_CheckRepo_def errors_Join_def split: sum.splits if_splits)
  consider p where "measure_file sw th rel = GeneratedFile p" | f where "f \<in> set (PR_Files r)" "measure_file sw th rel = Measured f"
    using Measure_member(1) [OF r(1) assms(2,3)] by blast
  then show ?thesis
  proof cases
    case 1
    then show ?thesis by (auto simp: measure_file_def CountSource_def split: sum.splits if_splits)
  next
    case (2 g)
    then obtain s c where s: "sw_read sw rel = Inr s" "CountSource (sw_parse sw) s = Inr (c, False)" "FR_Count g = c"
      "FR_Eligible g = (int (Counted c) \<ge> MinimumLines th)"
      by (auto simp: measure_file_def split: sum.splits if_splits)
    have "set (Report_Over r) = {}" using r(2) by simp
    then have "FR_Eligible g \<longrightarrow> \<not> Above (FR_Count g) (CeilingPercent th)"
      using 2(1) Measure_member(2) [OF r(1) assms(2,3)] by (auto simp: Report_Over_def rank_def Report_Eligible_def)
    then show ?thesis using s CountSource_counts [OF s(2)] by (fastforce simp: Above_def)
  qed
qed

section \<open>The derived ceiling\<close>

lemma Above_mono: "a \<le> b \<Longrightarrow> Above c b \<Longrightarrow> Above c a"
  unfolding Above_def by (meson le_less_trans mult_right_mono of_nat_0_le_iff)

lemma clean_at_mono: "a \<le> b \<Longrightarrow> clean_at r a \<Longrightarrow> clean_at r b"
  using Above_mono by (fastforce simp: clean_at_def list_all_iff)

lemma derive_from_least:
  "derive_from r a = Some c \<longleftrightarrow> (\<exists>k. c = a + 5 * int k \<and> c \<le> 50 \<and> clean_at r c \<and> (\<forall>j < k. \<not> clean_at r (a + 5 * int j)))"
proof (induction r a rule: derive_from.induct)
  case (1 r a)
  show ?case
  proof (cases "a > 50 \<or> clean_at r a")
    case True
    then show ?thesis by (subst derive_from.simps) (auto intro: exI [of _ 0], (metis add.right_neutral mult_zero_right not_gr_zero of_nat_0)+)
  next
    case False
    have "derive_from r a = derive_from r (a + 5)" using False by (subst derive_from.simps) simp
    also have "\<dots> = Some c \<longleftrightarrow> (\<exists>k. c = a + 5 * int (Suc k) \<and> c \<le> 50 \<and> clean_at r c \<and> (\<forall>j < Suc k. \<not> clean_at r (a + 5 * int j)))"
      using 1 False by (simp add: All_less_Suc2 algebra_simps)
    finally show ?thesis using False by (metis add.right_neutral mult_zero_right not0_implies_Suc of_nat_0)
  qed
qed


text \<open>
  The derived ceiling is the least multiple of five percentage points, from nought to fifty, that no
  eligible file exceeds, and there is none exactly when some eligible file is over fifty percent.
\<close>

theorem DeriveCeiling_least:
  "DeriveCeiling r = (if clean_at r 50 then Some (Min {c \<in> {0, 5, 10, 15, 20, 25, 30, 35, 40, 45, 50}. clean_at r c}) else None)"
proof (cases "DeriveCeiling r")
  case None
  have "\<not> clean_at r 50"
  proof
    assume ex: "clean_at r 50"
    define k where "k = (LEAST k. clean_at r (5 * int k))"
    have "clean_at r (5 * int k)" "k \<le> 10" "\<forall>j < k. \<not> clean_at r (5 * int j)"
      using ex unfolding k_def by (auto intro: LeastI [of "\<lambda>k. clean_at r (5 * int k)" 10] Least_le [of "\<lambda>k. clean_at r (5 * int k)" 10] dest: not_less_Least)
    then show False using None derive_from_least [of r 0 "5 * int k"] by (auto simp: DeriveCeiling_def)
  qed
  then show ?thesis using None by simp
next
  case (Some c)
  let ?S = "{0, 5, 10, 15, 20, 25, 30, 35, 40, 45, 50} :: int set"
  obtain k where k: "c = 5 * int k" "c \<le> 50" "clean_at r c" "\<forall>j < k. \<not> clean_at r (5 * int j)"
    using Some derive_from_least [of r 0 c] by (auto simp: DeriveCeiling_def)
  have mult: "x \<in> ?S \<longleftrightarrow> (\<exists>j. x = 5 * int j \<and> j \<le> 10)" for x
    by (auto, presburger+)
  have "Min {x \<in> ?S. clean_at r x} = c"
  proof (rule Min_eqI)
    show "c \<in> {x \<in> ?S. clean_at r x}" using k(1-3) mult [of c] by auto
    fix y assume y: "y \<in> {x \<in> ?S. clean_at r x}"
    then obtain j where "y = 5 * int j" "clean_at r y" using mult [of y] by blast
    then show "c \<le> y" using k(1,4) by (meson linorder_not_le mult_le_cancel_left_pos of_nat_le_iff zero_less_numeral)
  qed simp
  moreover have "clean_at r 50" using clean_at_mono [OF k(2,3)] .
  ultimately show ?thesis using Some by simp
qed

section \<open>The record is read back\<close>

definition record_text :: "string \<Rightarrow> string \<Rightarrow> string \<Rightarrow> string" where
  "record_text key num pc = ''- '' @ key @ '': '' @ num @ pc"

definition record_parts :: "string \<Rightarrow> string \<Rightarrow> string \<Rightarrow> bool" where
  "record_parts key num pc \<longleftrightarrow> key \<in> set record_keys \<and> num \<noteq> [] \<and> (\<forall>c \<in> set num. is_digit c) \<and> pc \<in> {[], ''%''}"

lemma record_ways:
  assumes "t \<in> set (ways recordLine s)" "caps s = Map.empty"
  shows "\<exists>key num pc. consumes s (record_text key num pc) t \<and> record_parts key num pc \<and> group t 1 = key \<and> group t 2 = num
    \<and> line_edge (before s) \<and> line_edge (rest t)"
proof -
  let ?keys = "Alt (Lit ''error ceiling'') (Alt (Lit ''warning band'') (Lit ''minimum counted lines''))"
  from assms(1) obtain m1 m2 m3 m4 m5 m6 u1 u2 u4 u6 where
    "consumes s u1 m1" "u1 = [] \<and> line_edge (before s)" "m1 \<in> set (ways BolM s)"
    "m2 \<in> set (ways (Lit ''- '') m1)" "consumes m1 u2 m2" "u2 = ''- ''"
    "m3 \<in> set (ways (Cap 1 ?keys) m2)"
    "m4 \<in> set (ways (Lit '': '') m3)" "consumes m3 u4 m4" "u4 = '': ''"
    "m5 \<in> set (ways (Cap 2 (Many1 (Cls is_digit))) m4)"
    "m6 \<in> set (ways (Opt (Lit ''%'')) m5)" "consumes m5 u6 m6" "u6 = ''%'' \<or> u6 = []"
    "t \<in> set (ways EolM m6)"
    unfolding recordLine_def Seq.simps
    by (elim ways_CatE) (simp only: matches_Lit matches_Opt matches_simps)
  note steps = this
  obtain key where key: "consumes m2 key m3" "matches ?keys (before m2) key (rest m3)" "caps m3 = (caps m2)(1 \<mapsto> key)"
    using ways_capE [OF steps(7)] by auto
  obtain num where num: "consumes m4 num m5" "matches (Many1 (Cls is_digit)) (before m4) num (rest m5)" "caps m5 = (caps m4)(2 \<mapsto> num)"
    using ways_capE [OF steps(11)] by auto
  have eol: "t = m6" "line_edge (rest t)" using steps(15) by (auto split: if_splits)
  have "caps m4 = caps m3" "caps m6 = caps m5" using no_cap_keeps [OF _ steps(8)] no_cap_keeps [OF _ steps(12)] by simp_all
  then have g: "group t 1 = key" "group t 2 = num" using key(3) num(3) eol(1) by (simp_all add: group_def)
  have "consumes s (record_text key num u6) t"
    using steps(1,2,5,6,9,10,13) key(1) num(1) eol(1) by (simp add: record_text_def consumes_def)
  moreover have "record_parts key num u6" using key(2) num(2) steps(14) by (auto simp: record_parts_def record_keys_def)
  ultimately show ?thesis using g eol(2) steps(2) by blast
qed


lemma record_text_nonempty [simp]: "record_text key num pc \<noteq> []"
  by (simp add: record_text_def)

lemma record_matches:
  assumes "record_parts key num pc" "line_edge p" "line_edge q"
  shows "matches recordLine p (record_text key num pc) q"
proof -
  have "matches (Cat (Opt (Lit ''%'')) EolM) p' pc q" for p'
    using cat [of "Opt (Lit ''%'')" p' pc "[]" q EolM] assms(1,3) by (auto simp: record_parts_def)
  then have "matches (Cat (Cap 2 (Many1 (Cls is_digit))) (Cat (Opt (Lit ''%'')) EolM)) p' (num @ pc) q" for p'
    using cat [of "Cap 2 (Many1 (Cls is_digit))" p' num pc q] assms(1) by (simp add: record_parts_def)
  then have "matches (Cat (Lit '': '') (Cat (Cap 2 (Many1 (Cls is_digit))) (Cat (Opt (Lit ''%'')) EolM))) p' ('': '' @ num @ pc) q" for p'
    by (rule cat [rotated]) simp
  then have "matches (Seq [Cap 1 (Alt (Lit ''error ceiling'') (Alt (Lit ''warning band'') (Lit ''minimum counted lines''))),
      Lit '': '', Cap 2 (Many1 (Cls is_digit)), Opt (Lit ''%''), EolM]) p' (key @ '': '' @ num @ pc) q" for p'
    unfolding Seq.simps by (rule cat [rotated]) (use assms(1) in \<open>auto simp: record_parts_def record_keys_def\<close>)
  then have "matches (Seq [Lit ''- '', Cap 1 (Alt (Lit ''error ceiling'') (Alt (Lit ''warning band'') (Lit ''minimum counted lines''))),
      Lit '': '', Cap 2 (Many1 (Cls is_digit)), Opt (Lit ''%''), EolM]) p (record_text key num pc) q"
    unfolding Seq.simps record_text_def by (rule cat [rotated]) simp
  then show ?thesis
    using cat [of BolM p "[]" "record_text key num pc" q] assms(2) unfolding recordLine_def Seq.simps by simp
qed

lemma digits_prefix: "\<forall>c \<in> set u. is_digit c \<Longrightarrow> v = [] \<or> \<not> is_digit (hd v) \<Longrightarrow> takeWhile is_digit (u @ v) = u"
  by (induction u) (cases v, auto)

lemma record_unique:
  assumes "record_text key num pc @ q = record_text key' num' pc' @ q'" "record_parts key num pc" "record_parts key' num' pc'"
    and "line_edge q" "line_edge q'"
  shows "key = key' \<and> num = num' \<and> pc @ q = pc' @ q'"
proof -
  have free: "CHR '':'' \<notin> set key" "CHR '':'' \<notin> set key'" using assms(2,3) by (auto simp: record_parts_def record_keys_def)
  have "key @ CHR '':'' # ('' '' @ num @ pc @ q) = key' @ CHR '':'' # ('' '' @ num' @ pc' @ q')"
    using assms(1) by (simp add: record_text_def)
  from append_stop_unique [OF this free] have e: "key = key'" "num @ pc @ q = num' @ pc' @ q'" by simp_all
  have "takeWhile is_digit (n @ x @ y) = n" if "record_parts k n x" "line_edge y" for k n x y
    using that by (intro digits_prefix) (auto simp: record_parts_def line_edge_def is_digit_def)
  from this [OF assms(2,4)] this [OF assms(3,5)] have "takeWhile is_digit (num @ pc @ q) = num" "takeWhile is_digit (num' @ pc' @ q') = num'" .
  then show ?thesis using e by simp
qed

lemma record_tail:
  assumes "pc @ q = pc' @ q'" "pc \<in> {[], ''%''}" "pc' \<in> {[], ''%''}" "line_edge q" "line_edge q'"
  shows "pc = pc' \<and> q = q'"
  using assms by (auto simp: line_edge_def)

lemma record_find:
  assumes "record_parts key num pc" "line_edge p" "line_edge q"
  shows "\<exists>h t. find_from recordLine p (record_text key num pc @ q) = Some (h, t) \<and> rest t = q
    \<and> before t = rev (record_text key num pc) @ p \<and> group t 1 = key \<and> group t 2 = num"
proof -
  let ?h = "\<lparr>before = p, rest = record_text key num pc @ q, caps = Map.empty\<rparr>"
  have "ways recordLine ?h \<noteq> []" using record_matches [OF assms] by (auto simp: ways_nonempty)
  then obtain t ts where t: "ways recordLine ?h = t # ts" by (cases "ways recordLine ?h") auto
  obtain key' num' pc' where u: "consumes ?h (record_text key' num' pc') t" "record_parts key' num' pc'" "group t 1 = key'" "group t 2 = num'"
    "line_edge (rest t)" using record_ways [of t ?h] t by auto
  have eq: "record_text key num pc @ q = record_text key' num' pc' @ rest t" using u(1) by (simp add: consumes_def)
  have k: "key = key'" "num = num'" "pc @ q = pc' @ rest t" using record_unique [OF eq assms(1) u(2) assms(3) u(5)] by auto
  have "pc = pc'" "q = rest t" using record_tail [OF k(3) _ _ assms(3) u(5)] assms(1) u(2) by (auto simp: record_parts_def)
  then show ?thesis using t u k by (subst find_from.simps) (auto simp: Let_def consumes_def)
qed

lemma record_not_here: "\<not> line_edge (before s) \<or> rest s = [] \<Longrightarrow> caps s = Map.empty \<Longrightarrow> ways recordLine s = []"
proof (rule ccontr)
  assume a: "\<not> line_edge (before s) \<or> rest s = []" "caps s = Map.empty" "ways recordLine s \<noteq> []"
  then obtain t where "t \<in> set (ways recordLine s)" by (cases "ways recordLine s") auto
  from record_ways [OF this a(2)] a(1) show False by (auto simp: consumes_def)
qed

lemma record_shorter: "find_from recordLine p s = Some (h, t) \<Longrightarrow> length (rest t) < length s"
proof -
  assume "find_from recordLine p s = Some (h, t)"
  then obtain a ts where a: "s = a @ rest h" "caps h = Map.empty" "ways recordLine h = t # ts" using find_from_Some by metis
  then obtain u where "consumes h u t" "u \<noteq> []" using record_ways [of t h] by (metis list.set_intros(1) record_text_nonempty)
  then show ?thesis using a(1) by (auto simp: consumes_def)
qed

text \<open>The keys and numbers a text states, and what a line of the record adds to them.\<close>

definition statements :: "string \<Rightarrow> string \<Rightarrow> (string \<times> string) list" where
  "statements p s = map (\<lambda>(_, t). (group t 1, group t 2)) (find_all recordLine p s)"

lemma statements_newline: "\<not> line_edge p \<Longrightarrow> statements p (CHR 0x0A # s) = statements (CHR 0x0A # p) s"
proof -
  assume "\<not> line_edge p"
  then have f: "find_from recordLine p (CHR 0x0A # s) = find_from recordLine (CHR 0x0A # p) s"
    by (subst find_from.simps) (simp add: record_not_here)
  show ?thesis
    unfolding statements_def find_all.simps [of _ p] find_all.simps [of _ "CHR 0x0A # p"] f
    using record_shorter by (auto simp: less_SucI split: option.splits prod.splits)
qed

lemma statements_line:
  assumes "record_parts key num pc" "line_edge p"
  shows "\<exists>p'. line_edge p' \<and> statements p (record_text key num pc @ CHR 0x0A # s) = (key, num) # statements p' s"
proof -
  have q: "line_edge (CHR 0x0A # s)" by (simp add: line_edge_def)
  obtain h t where f: "find_from recordLine p (record_text key num pc @ CHR 0x0A # s) = Some (h, t)" "rest t = CHR 0x0A # s"
    "before t = rev (record_text key num pc) @ p" "group t 1 = key" "group t 2 = num" using record_find [OF assms q] by blast
  have "\<not> line_edge (before t)"
    using assms(1) f(3) by (cases num rule: rev_cases) (auto simp: line_edge_def record_text_def record_parts_def is_digit_def)
  then have "statements (before t) (rest t) = statements (CHR 0x0A # before t) s" using f(2) statements_newline by simp
  moreover have "statements p (record_text key num pc @ CHR 0x0A # s) = (key, num) # statements (before t) (rest t)"
    using f record_shorter [OF f(1)] by (simp add: statements_def find_all.simps [of _ p])
  ultimately show ?thesis by (intro exI [of _ "CHR 0x0A # before t"]) (simp add: line_edge_def)
qed

lemma statements_Nil: "statements p [] = []"
  by (simp add: statements_def find_all.simps find_from.simps record_not_here)

lemma FormatInt_digits: "0 \<le> n \<Longrightarrow> FormatInt n \<noteq> [] \<and> (\<forall>c \<in> set (FormatInt n). is_digit c)"
proof -
  have "\<forall>c \<in> set (show_nat m). is_digit c" for m
  proof (induction m rule: show_nat.induct)
    case (1 m)
    have "list_all (\<lambda>d. is_digit (digit_char d)) [0..<10]" by code_simp
    then have "is_digit (digit_char d)" if "d < 10" for d using that by (simp add: list_all_iff)
    then show ?case using 1 by (subst show_nat.simps) auto
  qed
  then show "0 \<le> n \<Longrightarrow> ?thesis" by (simp add: FormatInt_def show_nat_nonempty)
qed

text \<open>
  The section that a measurement writes into the record is what the gate reads from it: for every ceiling
  and minimum that fit Go's integers, reading gives the same ceiling, the band derived from it and the same
  minimum, without a problem.
\<close>

theorem record_roundtrip:
  assumes "sw_read sw RecordFile = Inr (RecordSection c m)" "0 \<le> c" "int64 c" "0 \<le> m" "int64 m"
  shows "ReadRecordThresholds sw = (\<lparr>CeilingPercent = c, BandPercent = Band c, MinimumLines = m\<rparr>, None)"
proof -
  have b: "0 \<le> Band c" "int64 (Band c)" using assms(2,3) by (auto simp: Band_def int64_def)
  have parts: "record_parts ''error ceiling'' (FormatInt c) ''%''" "record_parts ''warning band'' (FormatInt (Band c)) ''%''"
    "record_parts ''minimum counted lines'' (FormatInt m) []"
    using FormatInt_digits assms(2,4) b(1) by (auto simp: record_parts_def record_keys_def)
  have body: "RecordSection c m = record_text ''error ceiling'' (FormatInt c) ''%'' @ CHR 0x0A #
      record_text ''warning band'' (FormatInt (Band c)) ''%'' @ CHR 0x0A # record_text ''minimum counted lines'' (FormatInt m) [] @ CHR 0x0A # []"
    by (simp add: RecordSection_def record_text_def)
  have edge: "line_edge []" by (simp add: line_edge_def)
  have "statements [] (RecordSection c m)
      = [(''error ceiling'', FormatInt c), (''warning band'', FormatInt (Band c)), (''minimum counted lines'', FormatInt m)]"
    using statements_line [OF parts(1) edge] statements_line [OF parts(2)] statements_line [OF parts(3)] statements_Nil
    unfolding body by metis
  then have "map (\<lambda>m. (m 1, m 2)) (FindAllStringSubmatch recordLine (RecordSection c m))
      = [(''error ceiling'', FormatInt c), (''warning band'', FormatInt (Band c)), (''minimum counted lines'', FormatInt m)]"
    by (simp add: statements_def FindAllStringSubmatch_def case_prod_unfold comp_def)
  then show ?thesis
    using assms b
    by (simp add: ReadRecordThresholds_def ParseInt_FormatInt record_value_def stated_def record_complaint_def record_keys_def errors_Join_def)
qed


section \<open>Examples\<close>

text \<open>A tree with one file of two lines, a comment and a declaration, and a record.\<close>

definition sample_source :: gosource where
  "sample_source = \<lparr>gs_generated = False, gs_package = 5,
     gs_comments = [\<lparr>cg_pos = 0, cg_text = ''why'', cg_list = [\<lparr>cm_text = ''// why'', cm_from = 1, cm_to = 1\<rparr>]\<rparr>],
     gs_tokens = [(1, COMMENT), (2, Token), (2, SEMICOLON [CHR 0x0A])]\<rparr>"

definition sample_text :: string where "sample_text = ''// why'' @ [CHR 0x0A] @ ''package a''"

definition sample_swept :: swept where
  "sample_swept = \<lparr>sw_git = False, sw_ls_files = Inl [], sw_tree = Directory (Some [(''a.go'', plain_file [])]), sw_walk_error = (\<lambda>_. []),
     sw_read = (\<lambda>rel. if rel = ''a.go'' then Inr sample_text else Inr (RecordSection 45 30)),
     sw_parse = (\<lambda>_. Inr sample_source), sw_percent = (\<lambda>_ _. []), sw_quote = dquoted, sw_root = ''repo''\<rparr>"

lemma sample_listing: "listGoFiles sample_swept = Inr ([''a.go''], ''walked'')"
  by (simp add: listGoFiles_def walkGoFiles_def sample_swept_def plain_file_def not_swept_def join_path_def has_suffix_def sort_strings_def)

lemma sample_count: "CountSource (sw_parse sample_swept) sample_text = Inr (\<lparr>Prose = 1, Code = 1\<rparr>, False)"
proof -
  have "licenceLines sample_source = []" "proseLines sample_source = [1]" "tokenLines (gs_tokens sample_source) = [2]" by code_simp+
  moreover have "TrimSpace ''// why'' = ''// why''" "TrimSpace ''package a'' = ''package a''"
    by (simp_all add: TrimSpace_visible visible_def)
  moreover have "split_at (CHR 0x0A) sample_text = [''// why'', ''package a'']" by (simp add: sample_text_def)
  ultimately show ?thesis by (simp add: CountSource_def sample_swept_def sample_source_def Let_def)
qed

lemma sample_measured:
  "prose_CheckRepo sample_swept \<lparr>CeilingPercent = 50, BandPercent = 40, MinimumLines = 2\<rparr>
   = (Some \<lparr>PR_Thresholds = \<lparr>CeilingPercent = 50, BandPercent = 40, MinimumLines = 2\<rparr>,
       PR_Files = [\<lparr>FR_Path = ''a.go'', FR_Count = \<lparr>Prose = 1, Code = 1\<rparr>, FR_Eligible = True\<rparr>], PR_Generated = [], PR_Listing = ''walked''\<rparr>, None)"
proof -
  have "sw_read sample_swept ''a.go'' = Inr sample_text" by (simp add: sample_swept_def)
  then have "measure_file sample_swept \<lparr>CeilingPercent = 50, BandPercent = 40, MinimumLines = 2\<rparr> ''a.go''
      = Measured \<lparr>FR_Path = ''a.go'', FR_Count = \<lparr>Prose = 1, Code = 1\<rparr>, FR_Eligible = True\<rparr>"
    by (simp add: measure_file_def sample_count Counted_def)
  then show ?thesis
    by (simp add: prose_CheckRepo_def Measure_def sample_listing Counted_def Let_def Report_Over_def rank_def Report_Eligible_def
        Above_def errors_Join_def sort_strings_def)
qed

theorem prose_gate_passes_witness:
  "\<exists>s f. sw_read sample_swept ''a.go'' = Inr s \<and> sw_parse sample_swept s = Inr f \<and> \<not> gs_generated f
     \<and> int (card {i. prose_line f (split_at (CHR 0x0A) s) i}) * 100
         \<le> 50 * int (card {i. counted_line f (split_at (CHR 0x0A) s) i})"
proof -
  obtain s f where s: "sw_read sample_swept ''a.go'' = Inr s" "sw_parse sample_swept s = Inr f"
    "gs_generated f \<or> int (card {i. counted_line f (split_at (CHR 0x0A) s) i}) < 2
       \<or> int (card {i. prose_line f (split_at (CHR 0x0A) s) i}) * 100 \<le> 50 * int (card {i. counted_line f (split_at (CHR 0x0A) s) i})"
    using prose_gate_passes [OF sample_measured sample_listing, of "''a.go''"] by auto
  moreover have "\<not> gs_generated f" using s(2) by (auto simp: sample_swept_def sample_source_def)
  moreover have "card {i. counted_line f (split_at (CHR 0x0A) s) i} = 2"
    using CountSource_counts [OF sample_count] s(1,2) by (auto simp: sample_swept_def Counted_def)
  ultimately show ?thesis by auto
qed

theorem record_roundtrip_witness:
  "ReadRecordThresholds sample_swept = (\<lparr>CeilingPercent = 45, BandPercent = 35, MinimumLines = 30\<rparr>, None)"
proof -
  have "sw_read sample_swept RecordFile = Inr (RecordSection 45 30)" by (simp add: sample_swept_def RecordFile_def)
  from record_roundtrip [OF this] show ?thesis by (simp add: int64_def Band_def)
qed

end
