(* ===== verification/UiStack.thy ===== *)
theory UiStack
  imports Pages PinGate
begin

text \<open>
  What the browser is pointed at when the map page is graded, \<open>internal/uiverify/stack.go\<close> and
  \<open>mutation.go\<close>: the server's own pages, two scripted routes, and a mutation that breaks the served_as page in
  one way. The production handler is a parameter; \<open>Pages\<close> models its documents. The stack's fields under
  its mutex are a record, and every locked section of the source is one function on it.
\<close>

section \<open>Text\<close>

text \<open>\<open>strings.Replace(s, old, new, 1)\<close> for a non-empty \<open>old\<close>.\<close>

fun replace_first :: "string \<Rightarrow> string \<Rightarrow> string \<Rightarrow> string" where
  "replace_first old new [] = []"
| "replace_first old new (c # s) =
     (if has_prefix (c # s) old then new @ drop (length old) (c # s) else c # replace_first old new s)"

definition short :: "string \<Rightarrow> string" where
  "short s =
     (let t = join '' '' (Fields s)
      in if length t > 70 then CHR 0x22 # take 70 t @ ''...'' @ [CHR 0x22] else CHR 0x22 # t @ [CHR 0x22])"

text \<open>\<open>origin\<close>: a URL down to its scheme and host.\<close>

fun before_scheme :: "string \<Rightarrow> (string \<times> string) option" where
  "before_scheme [] = None"
| "before_scheme (c # s) =
     (if has_prefix (c # s) ''://'' then Some ([], drop 3 (c # s))
      else map_option (\<lambda>(a, b). (c # a, b)) (before_scheme s))"

definition origin :: "string \<Rightarrow> string" where
  "origin rawurl =
     (case before_scheme rawurl of
        None \<Rightarrow> rawurl
      | Some (scheme, authority) \<Rightarrow> scheme @ ''://'' @ takeWhile (\<lambda>c. c \<notin> {CHR ''/'', CHR ''?'', CHR ''#''}) authority)"

section \<open>Headers\<close>

definition token_char :: "char \<Rightarrow> bool" where
  "token_char c \<longleftrightarrow> is_alnum c \<or> c \<in> {CHR ''!'', CHR ''#'', CHR ''$'', CHR 0x25, CHR ''&'', CHR 0x27, CHR ''*'', CHR ''+'',
     CHR ''-'', CHR ''.'', CHR ''^'', CHR ''_'', CHR 0x60, CHR ''|'', CHR ''~''}"

definition upper_char :: "char \<Rightarrow> char" where
  "upper_char c = (let n = (of_char c :: nat) in if 97 \<le> n \<and> n \<le> 122 then char_of (n - 32) else c)"

fun canonical_from :: "bool \<Rightarrow> string \<Rightarrow> string" where
  "canonical_from up [] = []"
| "canonical_from up (c # s) = (if up then upper_char c else ascii_lower c) # canonical_from (c = CHR ''-'') s"

definition CanonicalHeaderKey :: "string \<Rightarrow> string" where
  "CanonicalHeaderKey k = (if list_all token_char k then canonical_from True k else k)"

definition header_Get :: "string \<Rightarrow> (string \<times> string) list \<Rightarrow> string" where
  "header_Get k hs = (case map_of hs (CanonicalHeaderKey k) of None \<Rightarrow> [] | Some v \<Rightarrow> v)"

definition header_Del :: "string \<Rightarrow> (string \<times> string) list \<Rightarrow> (string \<times> string) list" where
  "header_Del k hs = filter (\<lambda>h. fst h \<noteq> CanonicalHeaderKey k) hs"

definition header_Set :: "string \<Rightarrow> string \<Rightarrow> (string \<times> string) list \<Rightarrow> (string \<times> string) list" where
  "header_Set k v hs = header_Del k hs @ [(CanonicalHeaderKey k, v)]"

definition http_Error :: "string \<Rightarrow> int \<Rightarrow> page" where
  "http_Error text status =
     \<lparr>pg_status = status,
      pg_headers = [(''Content-Type'', ''text/plain; charset=utf-8''), (''X-Content-Type-Options'', ''nosniff'')],
      pg_body = text @ [CHR 0x0A]\<rparr>"

section \<open>A mutation\<close>

record Mutation =
  Mut_ID :: string
  Mut_Path :: string
  Find :: string
  Replace :: string
  CSPFind :: string
  CSPReplace :: string
  DropHeader :: string

definition csp_header :: string where "csp_header = ''Content-Security-Policy''"

definition mutation_target :: "Mutation \<Rightarrow> string" where
  "mutation_target m = (if Mut_Path m = [] then ''/map'' else Mut_Path m)"

text \<open>The three substitutions of \<open>apply\<close>, each an error where what it rewrites is no longer there.\<close>

definition rewrite_body :: "Mutation \<Rightarrow> string \<Rightarrow> string + string" where
  "rewrite_body m body =
     (if Find m = [] then Inr body
      else if \<not> contains body (Find m) then Inl (Mut_ID m @ '': the page no longer contains '' @ short (Find m))
      else Inr (replace_first (Find m) (Replace m) body))"

definition rewrite_policy :: "Mutation \<Rightarrow> (string \<times> string) list \<Rightarrow> string + (string \<times> string) list" where
  "rewrite_policy m hs =
     (if CSPFind m = [] then Inr hs
      else let csp = header_Get csp_header hs in
        if \<not> contains csp (CSPFind m) then Inl (Mut_ID m @ '': the policy no longer contains '' @ short (CSPFind m))
        else Inr (header_Set csp_header (replace_first (CSPFind m) (CSPReplace m) csp) hs))"

definition drop_header :: "Mutation \<Rightarrow> (string \<times> string) list \<Rightarrow> string + (string \<times> string) list" where
  "drop_header m hs =
     (if DropHeader m = [] then Inr hs
      else if header_Get (DropHeader m) hs = [] then Inl (Mut_ID m @ '': the response no longer carries '' @ DropHeader m)
      else Inr (header_Del (DropHeader m) hs))"

definition apply_mutation :: "Mutation \<Rightarrow> string \<Rightarrow> string \<Rightarrow> (string \<times> string) list \<Rightarrow> string + string \<times> (string \<times> string) list" where
  "apply_mutation m path body hs =
     (if path \<noteq> mutation_target m then Inr (body, hs)
      else case rewrite_body m body of
        Inl e \<Rightarrow> Inl e
      | Inr body' \<Rightarrow>
          (case rewrite_policy m hs of
             Inl e \<Rightarrow> Inl e
           | Inr hs1 \<Rightarrow>
               (case drop_header m hs1 of
                  Inl e \<Rightarrow> Inl e
                | Inr hs2 \<Rightarrow>
                    if Find m = [] \<and> CSPFind m = [] \<and> DropHeader m = [] then Inl (Mut_ID m @ '': mutation changes nothing'')
                    else Inr (body', hs2))))"

section \<open>The stack\<close>

text \<open>An open stream is known by the number of its connection.\<close>

record Stack =
  positionsStatus :: int
  positionsBody :: string
  positionsFail :: bool
  positionsDelay :: duration
  streamOpen :: bool
  streamClosers :: "nat list"
  streamRefuse :: bool
  mutation :: "Mutation option"
  mutationErr :: "string option"

definition NewStack :: Stack where
  "NewStack = \<lparr>positionsStatus = 200, positionsBody = ''[]'', positionsFail = False, positionsDelay = 0, streamOpen = True,
     streamClosers = [], streamRefuse = False, mutation = None, mutationErr = None\<rparr>"

definition SetMutation :: "Mutation option \<Rightarrow> Stack \<Rightarrow> Stack" where
  "SetMutation m s = s\<lparr>mutation := m, mutationErr := None\<rparr>"

definition MutationError :: "Stack \<Rightarrow> string option" where
  "MutationError s = mutationErr s"

definition DelayPositions :: "duration \<Rightarrow> int \<Rightarrow> string \<Rightarrow> Stack \<Rightarrow> Stack" where
  "DelayPositions d status body s =
     s\<lparr>positionsStatus := status, positionsBody := body, positionsFail := False, positionsDelay := d\<rparr>"

definition SetPositions :: "int \<Rightarrow> string \<Rightarrow> Stack \<Rightarrow> Stack" where
  "SetPositions status body s =
     s\<lparr>positionsStatus := status, positionsBody := body, positionsFail := False, positionsDelay := 0\<rparr>"

definition FailPositions :: "Stack \<Rightarrow> Stack" where
  "FailPositions s = s\<lparr>positionsFail := True, positionsDelay := 0\<rparr>"

definition HoldPositions :: "Stack \<Rightarrow> Stack" where
  "HoldPositions s = s\<lparr>positionsStatus := 0, positionsFail := False, positionsDelay := 0\<rparr>"

text \<open>Severing yields the streams whose channels are closed.\<close>

definition Sever :: "Stack \<Rightarrow> nat list \<times> Stack" where
  "Sever s = (streamClosers s, s\<lparr>streamClosers := [], streamRefuse := True\<rparr>)"

definition Restore :: "Stack \<Rightarrow> Stack" where
  "Restore s = s\<lparr>streamRefuse := False\<rparr>"

definition RefuseCredential :: "Stack \<Rightarrow> nat list \<times> Stack" where
  "RefuseCredential s =
     (streamClosers s,
      s\<lparr>positionsStatus := 401,
        positionsBody := ''{'' @ dquoted ''error'' @ '':'' @ dquoted ''unauthorized'' @ '','' @ dquoted ''message'' @ '':''
          @ dquoted ''unknown or revoked token'' @ ''}'',
        positionsFail := False, positionsDelay := 0, streamClosers := [], streamRefuse := True\<rparr>)"

subsection \<open>What it answers\<close>

datatype served_as = ClientGone | Aborted | HeldOpen | Answered page

text \<open>\<open>servePositions\<close>; the flag says that the client goes away while the answer is delayed.\<close>

definition servePositions :: "bool \<Rightarrow> Stack \<Rightarrow> served_as" where
  "servePositions leaves s =
     (if 0 < positionsDelay s \<and> leaves then ClientGone
      else if positionsFail s then Aborted
      else if positionsStatus s = 0 then HeldOpen
      else Answered \<lparr>pg_status = positionsStatus s, pg_headers = [(''Content-Type'', ''application/json'')], pg_body = positionsBody s\<rparr>)"

text \<open>
  \<open>serveStream\<close> has two locked sections: it reads whether it has to refuse, and later, after the response
  has begun, it registers the channel that severs it.
\<close>

definition stream_enter :: "bool \<Rightarrow> Stack \<Rightarrow> page" where
  "stream_enter flusher s =
     (if streamRefuse s then \<lparr>pg_status = 503, pg_headers = [], pg_body = []\<rparr>
      else if \<not> flusher then http_Error ''no flusher'' 500
      else \<lparr>pg_status = 200, pg_headers = [(''Content-Type'', ''text/event-stream''), (''Cache-Control'', ''no-cache'')],
             pg_body = '': open'' @ [CHR 0x0A, CHR 0x0A]\<rparr>)"

definition stream_register :: "nat \<Rightarrow> Stack \<Rightarrow> Stack" where
  "stream_register conn s = s\<lparr>streamClosers := streamClosers s @ [conn]\<rparr>"

text \<open>\<open>mutating\<close>: the production response as it is, or with the installed mutation applied.\<close>

definition mutating :: "(string \<Rightarrow> page) \<Rightarrow> string \<Rightarrow> Stack \<Rightarrow> page \<times> Stack" where
  "mutating production path s =
     (case mutation s of
        None \<Rightarrow> (production path, s)
      | Some m \<Rightarrow>
          (let rec = production path
           in case apply_mutation m path (pg_body rec) (pg_headers rec) of
                Inl err \<Rightarrow>
                  (http_Error (''uiverify: mutation did not apply: '' @ err) 500,
                   s\<lparr>mutationErr := Some (case mutationErr s of None \<Rightarrow> err | Some e \<Rightarrow> e)\<rparr>)
              | Inr (body, hs) \<Rightarrow>
                  (\<lparr>pg_status = pg_status rec, pg_headers = header_Set ''Content-Length'' (show_nat (length body)) hs, pg_body = body\<rparr>, s)))"

subsection \<open>The fixture family\<close>

text \<open>\<open>Entry\<close> and \<open>PositionsJSON\<close>: an object's members in the order \<open>json.Marshal\<close> gives a map, by key, the values as JSON text.\<close>

definition ui_Entry :: "string \<Rightarrow> string \<Rightarrow> string \<Rightarrow> string option \<Rightarrow> string option \<Rightarrow> (string \<times> string) list" where
  "ui_Entry i name state lat lon =
     [(''device_id'', dquoted i), (''device_name'', dquoted name)]
     @ (case lat of None \<Rightarrow> [] | Some v \<Rightarrow> [(''lat'', v)]) @ (case lon of None \<Rightarrow> [] | Some v \<Rightarrow> [(''lon'', v)])
     @ [(''presentation'', dquoted state)]"

definition PositionsJSON :: "(string \<times> string) list list \<Rightarrow> string" where
  "PositionsJSON entries =
     ''['' @ join '','' (map (\<lambda>e. ''{'' @ join '','' (map (\<lambda>(k, v). dquoted k @ '':'' @ v) e) @ ''}'') entries) @ '']''"

definition theFamily :: string where
  "theFamily = PositionsJSON
     [ui_Entry ''11111111-1111-1111-1111-111111111111'' ''Alice phone'' ''live'' (Some ''41.9028'') (Some ''12.4964''),
      ui_Entry ''22222222-2222-2222-2222-222222222222'' ''Bob phone'' ''recent'' (Some ''45.4642'') (Some ''9.19''),
      ui_Entry ''33333333-3333-3333-3333-333333333333'' ''Carol phone'' ''stale'' (Some ''48.8566'') (Some ''2.3522''),
      ui_Entry ''44444444-4444-4444-4444-444444444444'' ''Dan phone'' ''no-position'' None None,
      ui_Entry ''55555555-5555-5555-5555-555555555555'' ''Erin phone'' ''live'' (Some (dquoted ''not-a-number'')) None]"

section \<open>A mutation breaks the page in one place, or says that it cannot\<close>

lemma has_prefix_split: "has_prefix s p \<longleftrightarrow> (\<exists>b. s = p @ b)"
  by (induction s p rule: has_prefix.induct) auto

lemma contains_split: "contains s p \<longleftrightarrow> (\<exists>a b. s = a @ p @ b)"
proof (induction s)
  case (Cons c s)
  have "contains (c # s) p \<longleftrightarrow> (\<exists>b. c # s = p @ b) \<or> (\<exists>a b. s = a @ p @ b)" using Cons has_prefix_split by simp
  also have "\<dots> \<longleftrightarrow> (\<exists>a b. c # s = a @ p @ b)" by (metis append_Cons append_Nil list.exhaust list.inject)
  finally show ?case .
qed simp

text \<open>The first occurrence is the one that is replaced.\<close>

lemma replace_first_at:
  assumes "contains s old" "old \<noteq> []"
  shows "\<exists>a b. s = a @ old @ b \<and> replace_first old new s = a @ new @ b \<and> (\<forall>c d. s = c @ old @ d \<longrightarrow> length a \<le> length c)"
  using assms(1)
proof (induction s)
  case Nil
  then show ?case using assms(2) by simp
next
  case (Cons x s)
  show ?case
  proof (cases "has_prefix (x # s) old")
    case True
    then obtain b where "x # s = old @ b" using has_prefix_split by blast
    then have "drop (length old) (x # s) = b" by (simp del: drop_Suc_Cons)
    then have "replace_first old new (x # s) = new @ b" using True by (simp del: drop_Suc_Cons)
    then show ?thesis using \<open>x # s = old @ b\<close> by (intro exI [of _ "[]"] exI [of _ b]) simp
  next
    case False
    then obtain a b where ab: "s = a @ old @ b" "replace_first old new s = a @ new @ b" and
      first: "\<forall>c d. s = c @ old @ d \<longrightarrow> length a \<le> length c" using Cons by auto
    have "length (x # a) \<le> length c" if c: "x # s = c @ old @ d" for c d
    proof (cases c)
      case Nil
      then show ?thesis using False c has_prefix_split by auto
    next
      case (Cons y c')
      then show ?thesis using first c by auto
    qed
    then show ?thesis using ab False by (intro exI [of _ "x # a"] exI [of _ b]) auto
  qed
qed

definition replaced_in :: "string \<Rightarrow> string \<Rightarrow> string \<Rightarrow> string \<Rightarrow> bool" where
  "replaced_in old new s t \<longleftrightarrow>
     (\<exists>a b. s = a @ old @ b \<and> t = a @ new @ b \<and> (\<forall>c d. s = c @ old @ d \<longrightarrow> length a \<le> length c))"

text \<open>What a page is after a mutation that applied to it, part by part.\<close>

definition broken_by :: "Mutation \<Rightarrow> page \<Rightarrow> page \<Rightarrow> bool" where
  "broken_by m p q \<longleftrightarrow>
     pg_status q = pg_status p
   \<and> (if Find m = [] then pg_body q = pg_body p else replaced_in (Find m) (Replace m) (pg_body p) (pg_body q))
   \<and> (CSPFind m \<noteq> [] \<and> CanonicalHeaderKey (DropHeader m) \<noteq> csp_header \<longrightarrow>
        replaced_in (CSPFind m) (CSPReplace m) (header_Get csp_header (pg_headers p)) (header_Get csp_header (pg_headers q)))
   \<and> (DropHeader m \<noteq> [] \<and> CanonicalHeaderKey (DropHeader m) \<noteq> ''Content-Length'' \<longrightarrow> header_Get (DropHeader m) (pg_headers q) = [])
   \<and> (Find m \<noteq> [] \<or> CSPFind m \<noteq> [] \<or> DropHeader m \<noteq> [])"

lemma csp_canonical: "CanonicalHeaderKey csp_header = csp_header"
  by (simp add: CanonicalHeaderKey_def csp_header_def) code_simp

lemma length_canonical: "CanonicalHeaderKey ''Content-Length'' = ''Content-Length''"
  by code_simp

lemma header_Get_Del: "header_Get j (header_Del k hs) = (if CanonicalHeaderKey j = CanonicalHeaderKey k then [] else header_Get j hs)"
  by (induction hs) (auto simp: header_Get_def header_Del_def split: option.splits)

lemma header_Get_Set: "header_Get j (header_Set k v hs) = (if CanonicalHeaderKey j = CanonicalHeaderKey k then v else header_Get j hs)"
proof -
  have "map_of (header_Del k hs) (CanonicalHeaderKey k) = None" by (induction hs) (auto simp: header_Del_def)
  then show ?thesis using header_Get_Del [of j k hs] by (auto simp: header_Get_def header_Set_def map_add_def split: option.splits)
qed

lemma rewrite_body_Inr:
  "rewrite_body m s = Inr t \<Longrightarrow> if Find m = [] then t = s else replaced_in (Find m) (Replace m) s t"
  using replace_first_at by (auto simp: rewrite_body_def replaced_in_def split: if_splits)

lemma rewrite_policy_Inr:
  "rewrite_policy m hs = Inr hs' \<Longrightarrow>
     (CSPFind m \<noteq> [] \<longrightarrow> replaced_in (CSPFind m) (CSPReplace m) (header_Get csp_header hs) (header_Get csp_header hs'))"
  using replace_first_at by (auto simp: rewrite_policy_def replaced_in_def header_Get_Set Let_def split: if_splits)

lemma drop_header_Inr:
  "drop_header m hs = Inr hs' \<Longrightarrow>
     (DropHeader m \<noteq> [] \<longrightarrow> header_Get (DropHeader m) hs' = [])
   \<and> (CanonicalHeaderKey (DropHeader m) \<noteq> CanonicalHeaderKey k \<longrightarrow> header_Get k hs' = header_Get k hs)"
  by (auto simp: drop_header_def header_Get_Del split: if_splits)

lemma apply_mutation_Inr:
  assumes "apply_mutation m (mutation_target m) (pg_body p) (pg_headers p) = Inr (body, hs)"
  shows "broken_by m p \<lparr>pg_status = pg_status p, pg_headers = header_Set ''Content-Length'' v hs, pg_body = body\<rparr>"
proof -
  obtain hs1 where r: "rewrite_body m (pg_body p) = Inr body" "rewrite_policy m (pg_headers p) = Inr hs1" "drop_header m hs1 = Inr hs"
    and some: "Find m \<noteq> [] \<or> CSPFind m \<noteq> [] \<or> DropHeader m \<noteq> []"
    using assms by (auto simp: apply_mutation_def split: sum.splits if_splits)
  have k: "CanonicalHeaderKey csp_header \<noteq> CanonicalHeaderKey ''Content-Length''"
    by (simp add: csp_canonical length_canonical) (simp add: csp_header_def)
  show ?thesis
    using rewrite_body_Inr [OF r(1)] rewrite_policy_Inr [OF r(2)] drop_header_Inr [OF r(3), of csp_header] drop_header_Inr [OF r(3), of "[]"] some k
    by (auto simp: broken_by_def header_Get_Set length_canonical csp_canonical split: if_splits)
qed

text \<open>
  A demonstration is made on a page that really is broken, or the stack says that it is not. With a
  mutation installed, a request for the page it targets is answered either with an error page, and the
  stack remembers the failure, or with the production page in which exactly what the mutation names has
  changed: the first occurrence of its text in the body, the first occurrence in the policy, the header it
  drops; and a mutation that names nothing is never counted as applied.
\<close>

theorem mutated_or_reported:
  assumes "mutation s = Some m" "mutating production (mutation_target m) s = (q, s')"
  shows "MutationError s' \<noteq> None \<and> pg_status q = 500 \<or> s' = s \<and> broken_by m (production (mutation_target m)) q"
  using assms apply_mutation_Inr
  by (auto simp: mutating_def MutationError_def http_Error_def Let_def split: sum.splits)

lemma mutating_elsewhere:
  assumes "\<And>m. mutation s = Some m \<Longrightarrow> path \<noteq> mutation_target m"
  shows "pg_body (fst (mutating production path s)) = pg_body (production path)"
    and "pg_status (fst (mutating production path s)) = pg_status (production path)" and "snd (mutating production path s) = s"
  using assms by (auto simp: mutating_def apply_mutation_def Let_def split: option.splits)

text \<open>A failure stays on record until the next mutation is installed.\<close>

lemma mutation_error_sticks: "MutationError s = Some e \<Longrightarrow> MutationError (snd (mutating production path s)) = Some e"
  by (auto simp: mutating_def MutationError_def Let_def split: option.splits sum.splits)

text \<open>The policy mutation of the checks applies to every document the server sends, whatever its nonce.\<close>

definition policy_mutation :: Mutation where
  "policy_mutation = \<lparr>Mut_ID = ''AC21-policy'', Mut_Path = [], Find = [], Replace = [],
     CSPFind = ''script-src '' @ quoted ''self'' @ '' '' @ CHR 0x27 # ''nonce-'',
     CSPReplace = ''script-src '' @ quoted ''self'' @ '' '' @ CHR 0x27 # ''nonce-BROKEN'', DropHeader = []\<rparr>"

lemma documentCSP_split:
  "\<exists>a b. documentCSP nonce = a @ CSPFind policy_mutation @ b"
  unfolding documentCSP_def policy_mutation_def quoted_def
  by (rule exI [of _ "''default-src '' @ (CHR 0x27 # ''none'' @ [CHR 0x27]) @ ''; '' @ ''base-uri '' @ (CHR 0x27 # ''none'' @ [CHR 0x27]) @ ''; ''
     @ ''form-action '' @ (CHR 0x27 # ''none'' @ [CHR 0x27]) @ ''; '' @ ''frame-ancestors '' @ (CHR 0x27 # ''none'' @ [CHR 0x27]) @ ''; ''
     @ ''object-src '' @ (CHR 0x27 # ''none'' @ [CHR 0x27]) @ ''; ''"]) simp

lemma policy_mutation_applies:
  assumes "fs ''static/map.html'' = Some doc"
  obtains p q where "serveMapPage fs (Some rnd) = Inr p"
    and "mutating (\<lambda>_. p) ''/map'' (SetMutation (Some policy_mutation) s) = (q, SetMutation (Some policy_mutation) s)"
    and "broken_by policy_mutation p q"
proof -
  obtain nonce p where p: "serveMapPage fs (Some rnd) = Inr p" "header_Get csp_header (pg_headers p) = documentCSP nonce"
    using assms by (auto simp: serveMapPage_def serveDocument_def newNonce_def header_Get_def setCommonSecurityHeaders_def csp_canonical)
      (simp add: csp_header_def)
  have "contains (header_Get csp_header (pg_headers p)) (CSPFind policy_mutation)"
    using documentCSP_split [of nonce] p(2) contains_split by auto
  moreover have "mutation_target policy_mutation = ''/map''" "Find policy_mutation = []" "DropHeader policy_mutation = []" "CSPFind policy_mutation \<noteq> []"
    by (simp_all add: mutation_target_def policy_mutation_def)
  ultimately obtain body hs where a: "apply_mutation policy_mutation ''/map'' (pg_body p) (pg_headers p) = Inr (body, hs)"
    by (simp add: apply_mutation_def rewrite_body_def rewrite_policy_def drop_header_def Let_def)
  then show ?thesis
    using that [OF p(1)] apply_mutation_Inr [of policy_mutation p] \<open>mutation_target policy_mutation = ''/map''\<close>
    by (auto simp: mutating_def SetMutation_def Let_def)
qed

text \<open>
  Severing misses a stream that is between its two locked sections: the route has answered 200, the
  stack refuses new streams, and the stream is registered afterwards and stays open.
\<close>

lemma sever_misses_a_stream:
  assumes "\<not> streamRefuse s" "conn \<notin> set (streamClosers s)" "Sever s = (gone, s1)"
  shows "pg_status (stream_enter True s) = 200" "conn \<notin> set gone"
    and "streamRefuse (stream_register conn s1)" "streamClosers (stream_register conn s1) = [conn]"
  using assms by (auto simp: stream_enter_def Sever_def stream_register_def)

text \<open>The witness: a page whose status line the mutation empties.\<close>

theorem mutated_or_reported_witness:
  "let m = \<lparr>Mut_ID = ''AC1'', Mut_Path = [], Find = ''live now'', Replace = [], CSPFind = [], CSPReplace = [], DropHeader = []\<rparr>;
       s = SetMutation (Some m) NewStack;
       production = (\<lambda>_. \<lparr>pg_status = 200, pg_headers = [], pg_body = ''is live now''\<rparr>);
       r = mutating production (mutation_target m) s
   in MutationError (snd r) \<noteq> None \<and> pg_status (fst r) = 500 \<or> snd r = s \<and> broken_by m (production (mutation_target m)) (fst r) \<and> pg_body (fst r) = ''is ''"
proof -
  let ?m = "\<lparr>Mut_ID = ''AC1'', Mut_Path = [], Find = ''live now'', Replace = [], CSPFind = [], CSPReplace = [], DropHeader = []\<rparr>"
  let ?p = "\<lambda>_. \<lparr>pg_status = 200, pg_headers = [], pg_body = ''is live now''\<rparr>"
  let ?s = "SetMutation (Some ?m) NewStack"
  have "MutationError (snd (mutating ?p (mutation_target ?m) ?s)) \<noteq> None \<and> pg_status (fst (mutating ?p (mutation_target ?m) ?s)) = 500
      \<or> snd (mutating ?p (mutation_target ?m) ?s) = ?s \<and> broken_by ?m (?p (mutation_target ?m)) (fst (mutating ?p (mutation_target ?m) ?s))"
    by (rule mutated_or_reported) (simp_all add: SetMutation_def)
  moreover have "pg_body (fst (mutating ?p (mutation_target ?m) ?s)) = ''is ''"
    by (simp add: mutating_def SetMutation_def apply_mutation_def rewrite_body_def rewrite_policy_def drop_header_def)
  ultimately show ?thesis unfolding Let_def by blast
qed

end
