(* ===== verification/UiRoute.thy ===== *)
theory UiRoute
  imports UiStack
begin

text \<open>
  The browser route that grades the map page, \<open>internal/uiverify/run.go\<close> with the engine search and the refusal
  of \<open>browser.go\<close>, and the check that the routes refuse, \<open>refusal.go\<close>. The engine, the measuring code of a
  check, the emulator script, \<open>make\<close> and the file system are parameters; a check is a function on the
  state of the engine and the stack. Progress lines and the durations they print are left out.
\<close>

section \<open>Steps\<close>

text \<open>A step that may fail, on whatever state it drives.\<close>

definition ret :: "'a \<Rightarrow> 's \<Rightarrow> ('e + 'a) \<times> 's" where "ret a = (\<lambda>s. (Inr a, s))"
definition refuse :: "'e \<Rightarrow> 's \<Rightarrow> ('e + 'a) \<times> 's" where "refuse e = (\<lambda>s. (Inl e, s))"
definition bnd :: "('s \<Rightarrow> ('e + 'a) \<times> 's) \<Rightarrow> ('a \<Rightarrow> 's \<Rightarrow> ('e + 'b) \<times> 's) \<Rightarrow> 's \<Rightarrow> ('e + 'b) \<times> 's" where
  "bnd m f = (\<lambda>s. case m s of (Inl e, s') \<Rightarrow> (Inl e, s') | (Inr a, s') \<Rightarrow> f a s')"

lemma bnd_Inr: "bnd m f s = (Inr b, s'') \<longleftrightarrow> (\<exists>a s'. m s = (Inr a, s') \<and> f a s' = (Inr b, s''))"
  by (auto simp: bnd_def split: prod.splits sum.splits)

lemma bnd_ret: "bnd m ret = m"
  by (auto simp: bnd_def ret_def split: prod.splits sum.splits)

section \<open>Refusals\<close>

record ui_Refusal =
  R_Criterion :: string
  Prerequisite :: string
  HowToObtain :: string
  Underlying :: "string option"

definition nl :: string where "nl = [CHR 0x0A]"

definition ui_Refusal_Error :: "ui_Refusal \<Rightarrow> string" where
  "ui_Refusal_Error r =
     nl @ ''REFUSED: cannot grade '' @ R_Criterion r @ nl
     @ ''  missing prerequisite: '' @ Prerequisite r @ nl
     @ ''  how to obtain it:     '' @ HowToObtain r @ nl
     @ (case Underlying r of None \<Rightarrow> [] | Some e \<Rightarrow> ''  underlying error:     '' @ e @ nl)
     @ nl @ ''  No clause is reported as passed, skipped or green by this run.'' @ nl
     @ ''  F2 admits one grader for a rendered claim: the runtime that draws it. Reading the'' @ nl
     @ ''  page'' @ [CHR 0x27] @ ''s source, or a recorded manual observation, is not offered here as a substitute.'' @ nl"

text \<open>A refusal another program wrote is carried as its text.\<close>

datatype ui_error = Refused ui_Refusal | Passthrough string | Plain string

fun error_text :: "ui_error \<Rightarrow> string" where
  "error_text (Refused r) = ui_Refusal_Error r"
| "error_text (Passthrough t) = t"
| "error_text (Plain t) = t"

section \<open>Finding an engine\<close>

record ui_host =
  ui_getenv :: "string \<Rightarrow> string"
  ui_stat :: "string \<Rightarrow> string option"
  look_path :: "string \<Rightarrow> string \<Rightarrow> string option"
  temp_dir :: string
  mkdir_temp :: "string \<Rightarrow> string + string"
  write_error :: "string \<Rightarrow> string option"

definition webCriteria :: string where
  "webCriteria = ''AC1-AC11, AC21, AC22 (the map'' @ [CHR 0x27] @ ''s rendered claims, F1/F2/F9/F10/F11)''"

definition browserCandidates :: "string list" where
  "browserCandidates = [''google-chrome-stable'', ''google-chrome'', ''chromium'', ''chromium-browser'', ''chrome'']"

definition FindEngines :: "ui_host \<Rightarrow> ui_Refusal + string list" where
  "FindEngines h =
     (let p = ui_getenv h ''TRACKER_BROWSER'' in
      if p \<noteq> [] then
        (case ui_stat h p of
           Some err \<Rightarrow> Inl \<lparr>R_Criterion = webCriteria, Prerequisite = ''the browser engine named by TRACKER_BROWSER ('' @ p @ '')'',
             HowToObtain = ''unset TRACKER_BROWSER to search PATH, or point it at an installed Chromium'', Underlying = Some err\<rparr>
         | None \<Rightarrow> Inr [p])
      else
        (let found = List.map_filter (look_path h (ui_getenv h ''PATH'')) browserCandidates in
         if found = [] then
           Inl \<lparr>R_Criterion = webCriteria,
             Prerequisite = ''a Chromium-family browser engine on PATH (tried: '' @ join '', '' browserCandidates @ '')'',
             HowToObtain = ''install chromium (Debian: the chromium package) or Google Chrome, or set TRACKER_BROWSER to its path'',
             Underlying = None\<rparr>
         else Inr found))"

definition first_plain_line :: "string \<Rightarrow> string option" where
  "first_plain_line t =
     find (\<lambda>l. l \<noteq> [] \<and> \<not> has_prefix l ''REFUSED'') (map TrimSpace (split_at (CHR 0x0A) t))"

definition firstLine :: "ui_error \<Rightarrow> string" where
  "firstLine err =
     (let plain = (case first_plain_line (error_text err) of Some l \<Rightarrow> l | None \<Rightarrow> error_text err)
      in case err of
           Refused r \<Rightarrow> (case Underlying r of Some u \<Rightarrow> TrimSpace u | None \<Rightarrow> plain)
         | _ \<Rightarrow> plain)"

fun try_engines :: "(string \<Rightarrow> ui_error + 'b) \<Rightarrow> string list \<Rightarrow> string list \<Rightarrow> string list + 'b \<times> string" where
  "try_engines start reasons [] = Inl reasons"
| "try_engines start reasons (e # es) =
     (case start e of
        Inr b \<Rightarrow> Inr (b, e)
      | Inl err \<Rightarrow> try_engines start (reasons @ [e @ '': '' @ firstLine err]) es)"

definition NewSessionFrom :: "(string \<Rightarrow> ui_error + 'b) \<Rightarrow> string list \<Rightarrow> ui_Refusal + 'b \<times> string" where
  "NewSessionFrom start engines =
     (case try_engines start [] engines of
        Inr s \<Rightarrow> Inr s
      | Inl reasons \<Rightarrow>
          Inl \<lparr>R_Criterion = webCriteria, Prerequisite = ''a browser engine that will actually START under a driver'',
            HowToObtain = ''install Google Chrome, or a NON-SNAP chromium (a snap-confined browser starts but ''
              @ ''never publishes a DevTools endpoint), or set TRACKER_BROWSER to one that does'',
            Underlying = Some (''every engine found on PATH failed:'' @ nl @ ''      '' @ join (nl @ ''      '') reasons)\<rparr>)"

section \<open>Running the checks\<close>

text \<open>The state a check drives: the page under measurement and the stack.\<close>

record 'b Check =
  Check_ID :: string
  Check_Criterion :: string
  Check_Mutation :: "Mutation option"
  Check_Run :: "'b \<times> Stack \<Rightarrow> string option \<times> 'b \<times> Stack"

record ui_Result =
  Result_ID :: string
  Result_Criterion :: string
  Passed :: bool
  Err :: "string option"
  Demonstrated :: bool
  DemoErr :: "string option"
  MutationBroke :: "string option"

text \<open>Both halves of a check begin on a stack with the fixture family and an open stream.\<close>

definition surface_with :: "Mutation option \<Rightarrow> Stack \<Rightarrow> Stack" where
  "surface_with m s = Restore (SetPositions 200 theFamily (SetMutation m s))"

definition grade_check :: "'b Check \<Rightarrow> 'b \<times> Stack \<Rightarrow> ui_Result \<times> 'b \<times> Stack" where
  "grade_check c = (\<lambda>(b, s).
     (case Check_Run c (b, surface_with None s) of (err, b1, s1) \<Rightarrow>
        (let res = \<lparr>Result_ID = Check_ID c, Result_Criterion = Check_Criterion c, Passed = (err = None), Err = err,
                    Demonstrated = False, DemoErr = None, MutationBroke = None\<rparr>
         in case Check_Mutation c of
              None \<Rightarrow> (res\<lparr>MutationBroke := Some (Check_ID c @ '' has no mutation, so it can never be demonstrated'')\<rparr>, b1, s1)
            | Some m \<Rightarrow>
                (case Check_Run c (b1, surface_with (Some m) s1) of (derr, b2, s2) \<Rightarrow>
                   (case MutationError s2 of
                      None \<Rightarrow> (res\<lparr>DemoErr := derr, Demonstrated := derr \<noteq> None\<rparr>, b2, SetMutation None s2)
                    | Some merr \<Rightarrow>
                        (res\<lparr>DemoErr := derr, Demonstrated := False,
                           MutationBroke := Some (''the mutation never applied, so this check was never run against a broken surface: '' @ merr)\<rparr>,
                         b2, SetMutation None s2))))))"

fun grade_all :: "'b Check list \<Rightarrow> 'b \<times> Stack \<Rightarrow> ui_Result list \<times> 'b \<times> Stack" where
  "grade_all [] w = ([], w)"
| "grade_all (c # cs) w =
     (case grade_check c w of (r, w1) \<Rightarrow> (case grade_all cs w1 of (rs, w2) \<Rightarrow> (r # rs, w2)))"

definition RunWeb :: "ui_host \<Rightarrow> (string \<Rightarrow> ui_error + 'b) \<Rightarrow> 'b Check list \<Rightarrow> ui_error + ui_Result list" where
  "RunWeb h start checks =
     (case FindEngines h of
        Inl r \<Rightarrow> Inl (Refused r)
      | Inr engines \<Rightarrow>
          (case NewSessionFrom start engines of
             Inl r \<Rightarrow> Inl (Refused r)
           | Inr (b, engine) \<Rightarrow> Inr (fst (grade_all checks (b, NewStack)))))"

definition Summarise :: "string \<Rightarrow> ui_Result list \<Rightarrow> ui_error option" where
  "Summarise surface results =
     (let n = length results; passed = length (filter Passed results); demos = length (filter Demonstrated results) in
      if passed \<noteq> n then Some (Plain (surface @ '': '' @ show_nat (n - passed) @ '' of '' @ show_nat n @ '' clause assertions failed''))
      else if demos \<noteq> n then
        Some (Plain (surface @ '': '' @ show_nat n @ '' rendered claims but only '' @ show_nat demos
          @ '' demonstrations (AC18): a check that was never shown going red is not evidence''))
      else None)"

text \<open>What \<open>RecordRun\<close> writes: the ids that passed and those that were demonstrated.\<close>

record RunRecord =
  Rec_Surface :: string
  Ran :: "string list"
  Rec_Demonstrated :: "string list"

definition RecordRun :: "string \<Rightarrow> ui_Result list \<Rightarrow> RunRecord" where
  "RecordRun surface results =
     \<lparr>Rec_Surface = surface, Ran = map Result_ID (filter Passed results), Rec_Demonstrated = map Result_ID (filter Demonstrated results)\<rparr>"

text \<open>
  \<open>runWeb\<close> of the command: the run, its record, and the verdict. The flag is the error of writing the record,
  if there is one.
\<close>

definition cmd_runWeb :: "ui_host \<Rightarrow> (string \<Rightarrow> ui_error + 'b) \<Rightarrow> 'b Check list \<Rightarrow> string option \<Rightarrow> ui_error option \<times> RunRecord option" where
  "cmd_runWeb h start checks disk =
     (case RunWeb h start checks of
        Inl e \<Rightarrow> (Some e, None)
      | Inr results \<Rightarrow>
          (case disk of
             Some e \<Rightarrow> (Some (Plain e), None)
           | None \<Rightarrow> (Summarise ''browser map'' results, Some (RecordRun ''web'' results))))"

section \<open>The refusals are graded too\<close>

definition refusal_needles :: "(string \<times> string) list" where
  "refusal_needles =
     [(''the criterion it was verifying'', ''cannot grade''), (''the missing prerequisite'', ''missing prerequisite''),
      (''how to obtain it'', ''how to obtain'')]"

definition negations :: "string list" where
  "negations = [''no clause'', ''not offered'', ''never'', ''rather than'', ''no android clause'', ''is not'']"

definition forbidden_words :: "string list" where
  "forbidden_words = [''skipping'', ''skipped'', '' green'', ''satisfied'', ''clause passed'']"

text \<open>A line that claims a clause came out green; a line with a negation claims nothing.\<close>

definition claims_in :: "string \<Rightarrow> string list" where
  "claims_in line = (if \<exists>n \<in> set negations. contains line n then [] else filter (contains line) forbidden_words)"

definition checkRefusalText :: "(string \<Rightarrow> string) \<Rightarrow> string \<Rightarrow> string \<Rightarrow> string list" where
  "checkRefusalText lower what text =
     map (\<lambda>(label, _). what @ '' refusal does not name '' @ label @ '': '' @ TrimSpace text)
       (filter (\<lambda>(_, needle). \<not> contains (lower text) needle) refusal_needles)
     @ concat (map (\<lambda>line. map (\<lambda>w. what @ '' refusal claims a clause was '' @ TrimSpace w @ '': '' @ TrimSpace line) (claims_in line))
         (split_at (CHR 0x0A) (lower text)))"

subsection \<open>The browser route\<close>

record browserAbsence =
  ba_what :: string
  ba_names :: string
  ba_stage :: "ui_host \<Rightarrow> string + string \<times> ui_host"

definition path_join :: "string \<Rightarrow> string \<Rightarrow> string" where "path_join a b = a @ ''/'' @ b"

text \<open>An engine that exits at once is an executable file that is there.\<close>

definition stage_dead_browser :: "ui_host \<Rightarrow> string + string \<times> ui_host" where
  "stage_dead_browser h =
     (case mkdir_temp h ''uiverify-dead-browser-'' of
        Inl e \<Rightarrow> Inl e
      | Inr dir \<Rightarrow>
          (let p = path_join dir ''chromium''
           in case write_error h p of Some e \<Rightarrow> Inl e | None \<Rightarrow> Inr (p, h\<lparr>ui_stat := (ui_stat h)(p := None)\<rparr>)))"

definition browserAbsences :: "browserAbsence list" where
  "browserAbsences =
     [\<lparr>ba_what = ''no browser engine'', ba_names = ''the browser engine named by TRACKER_BROWSER'',
       ba_stage = (\<lambda>h. Inr (path_join (temp_dir h) ''uiverify-no-such-browser'', h))\<rparr>,
      \<lparr>ba_what = ''an engine that will not start under a driver'', ba_names = ''a browser engine that will actually START under a driver'',
       ba_stage = stage_dead_browser\<rparr>]"

text \<open>
  The environment of the route while a prerequisite is away. \<open>RunWeb\<close> prints nothing before it returns an
  error, so the text it has printed by then is empty.
\<close>

definition without_engine :: "ui_host \<Rightarrow> string \<Rightarrow> ui_host" where
  "without_engine h p =
     h\<lparr>ui_getenv := (ui_getenv h)(''TRACKER_BROWSER'' := p, ''PATH'' := path_join (temp_dir h) ''uiverify-empty-path'')\<rparr>"

definition printed_before_error :: string where "printed_before_error = []"

definition judge_browser :: "(string \<Rightarrow> string) \<Rightarrow> browserAbsence \<Rightarrow> ui_error + ui_Result list \<Rightarrow> string list" where
  "judge_browser lower a res =
     (case res of
        Inr _ \<Rightarrow> [''with '' @ ba_what a @ '' the browser route returned NO error; it would have reported a clause green without rendering it'']
      | Inl err \<Rightarrow>
          (case err of
             Refused r \<Rightarrow>
               checkRefusalText lower (''browser route ('' @ ba_what a @ '')'') (ui_Refusal_Error r)
               @ (if contains (ui_Refusal_Error r) (ba_names a) then []
                  else [''the refusal for '' @ ba_what a @ '' does not name it (looked for '' @ dquoted (ba_names a) @ ''): '' @ TrimSpace (ui_Refusal_Error r)])
           | _ \<Rightarrow> [''with '' @ ba_what a @ '' the browser route failed with a bare error rather than a refusal naming the prerequisite: '' @ error_text err])
          @ (if contains (lower printed_before_error) ''pass''
             then [''the browser route printed a PASS line before refusing: '' @ TrimSpace printed_before_error] else []))"

fun judge_browsers :: "(string \<Rightarrow> string) \<Rightarrow> ui_host \<Rightarrow> (string \<Rightarrow> ui_error + 'b) \<Rightarrow> 'b Check list \<Rightarrow> browserAbsence list \<Rightarrow> string + string list" where
  "judge_browsers lower h start checks [] = Inr []"
| "judge_browsers lower h start checks (a # as) =
     (case ba_stage a h of
        Inl e \<Rightarrow> Inl e
      | Inr (p, h') \<Rightarrow>
          map_sum id ((@) (judge_browser lower a (RunWeb (without_engine h' p) start checks))) (judge_browsers lower h start checks as))"

subsection \<open>The emulator route\<close>

record sdkPins =
  sdk_avd :: string
  sdk_image :: string

text \<open>A staged SDK is a tree of files; the parameter \<open>fails\<close> is the error of writing a path.\<close>

definition stage_file :: "(string \<Rightarrow> string option) \<Rightarrow> string \<Rightarrow> string \<Rightarrow> (string \<times> node) list \<Rightarrow> string + (string \<times> node) list" where
  "stage_file fails p data es =
     (case fails p of Some e \<Rightarrow> Inl e | None \<Rightarrow> Inr (put_node (split_at (CHR ''/'') p) (plain_file data) es))"

fun stage_files :: "(string \<Rightarrow> string option) \<Rightarrow> (string \<times> string) list \<Rightarrow> (string \<times> node) list \<Rightarrow> string + (string \<times> node) list" where
  "stage_files fails [] es = Inr es"
| "stage_files fails ((p, data) # fs) es =
     (case stage_file fails p data es of Inl e \<Rightarrow> Inl e | Inr es' \<Rightarrow> stage_files fails fs es')"

definition stub :: string where "stub = ''#!/usr/bin/env bash'' @ nl @ ''exit 0'' @ nl"

definition stageSDK :: "bool \<Rightarrow> bool \<Rightarrow> (string \<Rightarrow> string option) \<Rightarrow> string \<Rightarrow> sdkPins \<Rightarrow> string + (string \<times> node) list" where
  "stageSDK withImage withAVD fails dir p =
     stage_files fails
       ([(''emulator/emulator'', stub), (''platform-tools/adb'', stub)]
        @ (if withImage then [(replace_all '';'' ''/'' (sdk_image p) @ ''/system.img'', ''stub'')] else [])
        @ (if withAVD then [(''avd/'' @ sdk_avd p @ ''.ini'', ''path='' @ path_join dir ''avd'' @ nl)] else [])) []"

record androidAbsence =
  aa_what :: string
  aa_subcommand :: string
  aa_names :: string
  aa_stage :: "((string \<Rightarrow> string option) \<Rightarrow> string \<Rightarrow> sdkPins \<Rightarrow> string + (string \<times> node) list) option"

definition stage_licenses :: "(string \<Rightarrow> string option) \<Rightarrow> string \<Rightarrow> sdkPins \<Rightarrow> string + (string \<times> node) list" where
  "stage_licenses fails dir p =
     (case fails ''licenses'' of Some e \<Rightarrow> Inl e | None \<Rightarrow> Inr [(''licenses'', Directory (Some []))])"

definition androidAbsences :: "androidAbsence list" where
  "androidAbsences =
     [\<lparr>aa_what = ''no SDK'', aa_subcommand = ''require'', aa_names = ''an Android SDK'', aa_stage = None\<rparr>,
      \<lparr>aa_what = ''no emulator binary'', aa_subcommand = ''require'', aa_names = ''the Android emulator binary'', aa_stage = Some stage_licenses\<rparr>,
      \<lparr>aa_what = ''no system image'', aa_subcommand = ''require'', aa_names = ''the system image'', aa_stage = Some (stageSDK False False)\<rparr>,
      \<lparr>aa_what = ''no AVD'', aa_subcommand = ''require'', aa_names = ''an AVD named'', aa_stage = Some (stageSDK True False)\<rparr>,
      \<lparr>aa_what = ''no booted device'', aa_subcommand = ''boot'', aa_names = ''a BOOTED emulator device'', aa_stage = Some (stageSDK True True)\<rparr>]"

text \<open>
  The machine the script runs on: \<open>make\<close>, the errors of staging, and the script itself, which is given its
  subcommand, the variables set for it and the staged tree. It answers with its output and the error of a
  non-zero exit.
\<close>

record script_host =
  sh_make :: "string \<Rightarrow> string option"
  sh_mkdir_temp :: "string \<Rightarrow> string + string"
  sh_fails :: "string \<Rightarrow> string option"
  sh_script :: "string \<Rightarrow> (string \<times> string) list \<Rightarrow> (string \<times> node) list option \<Rightarrow> string \<times> string option"

definition makeVar :: "script_host \<Rightarrow> string \<Rightarrow> string" where
  "makeVar h target = (case sh_make h target of None \<Rightarrow> [] | Some out \<Rightarrow> TrimSpace out)"

definition stage_absence :: "script_host \<Rightarrow> sdkPins \<Rightarrow> androidAbsence \<Rightarrow> string + string \<times> (string \<times> node) list option" where
  "stage_absence h pins a =
     (case aa_stage a of
        None \<Rightarrow> Inr ([], None)
      | Some stage \<Rightarrow>
          (case sh_mkdir_temp h ''uiverify-sdk-'' of
             Inl e \<Rightarrow> Inl e
           | Inr dir \<Rightarrow> map_sum id (\<lambda>es. (dir, Some es)) (stage (sh_fails h) dir pins)))"

definition runAndroidScript :: "script_host \<Rightarrow> androidAbsence \<Rightarrow> string \<times> string option" where
  "runAndroidScript h a =
     (let avd = makeVar h ''print-avd''; img = makeVar h ''print-sys-image''
      in case stage_absence h \<lparr>sdk_avd = avd, sdk_image = img\<rparr> a of
           Inl e \<Rightarrow> ([], Some e)
         | Inr (sdk, es) \<Rightarrow>
             (case sh_mkdir_temp h ''uiverify-home-'' of
                Inl e \<Rightarrow> ([], Some e)
              | Inr home \<Rightarrow>
                  sh_script h (aa_subcommand a)
                    [(''ANDROID_SDK_ROOT'', sdk), (''ANDROID_HOME'', []), (''ANDROID_AVD_HOME'', if sdk = [] then ''avd'' else path_join sdk ''avd''),
                     (''ANDROID_PREFS_ROOT'', []), (''ANDROID_SDK_HOME'', []), (''HOME'', home), (''TRACKER_AVD'', avd),
                     (''TRACKER_SYS_IMAGE'', img), (''TRACKER_EMULATOR_BOOT_TIMEOUT'', ''0'')] es))"

definition judge_script :: "(string \<Rightarrow> string) \<Rightarrow> androidAbsence \<Rightarrow> string \<times> string option \<Rightarrow> string list" where
  "judge_script lower a = (\<lambda>(out, err).
     (case err of
        None \<Rightarrow> [''with '' @ aa_what a @ '' scripts/android-emulator.sh exited ZERO; a route that goes quiet when a prerequisite is missing reports green while proving nothing'']
      | Some _ \<Rightarrow>
          checkRefusalText lower (''android route ('' @ aa_what a @ '')'') out
          @ (if contains out (aa_names a) then []
             else [''the refusal for '' @ aa_what a @ '' does not name it (looked for '' @ dquoted (aa_names a) @ ''): '' @ TrimSpace out])))"

definition CheckRefusal :: "(string \<Rightarrow> string) \<Rightarrow> ui_host \<Rightarrow> (string \<Rightarrow> ui_error + 'b) \<Rightarrow> 'b Check list \<Rightarrow> script_host \<Rightarrow> ui_error option" where
  "CheckRefusal lower h start checks sh =
     (case judge_browsers lower h start checks browserAbsences of
        Inl e \<Rightarrow> Some (Plain e)
      | Inr problems \<Rightarrow>
          (let all = problems @ concat (map (\<lambda>a. judge_script lower a (runAndroidScript sh a)) androidAbsences)
           in if all = [] then None
              else Some (Plain (''the refusal paths do not bite:'' @ nl @ ''  - '' @ join (nl @ ''  - '') all))))"

section \<open>What a green run shows\<close>

lemma length_filter_all: "length (filter P xs) = length xs \<longleftrightarrow> (\<forall>x \<in> set xs. P x)"
  by (metis filter_True filter_id_conv length_filter_less less_irrefl)

lemma Summarise_None: "Summarise surface rs = None \<longleftrightarrow> (\<forall>r \<in> set rs. Passed r \<and> Demonstrated r)"
  by (auto simp: Summarise_def Let_def length_filter_all)

lemma grade_all_append:
  "grade_all (xs @ ys) w =
     (case grade_all xs w of (rs, w1) \<Rightarrow> (case grade_all ys w1 of (rs', w2) \<Rightarrow> (rs @ rs', w2)))"
  by (induction xs arbitrary: w) (auto split: prod.splits)

lemma grade_all_ids: "map Result_ID (fst (grade_all cs w)) = map Check_ID cs"
proof (induction cs arbitrary: w)
  case (Cons c cs)
  have "Result_ID (fst (grade_check c w)) = Check_ID c"
    by (auto simp: grade_check_def Let_def split: prod.splits option.splits)
  then show ?case using Cons by (auto split: prod.splits) (metis fst_conv)
qed simp

text \<open>The two runs of one check: silent on the surface as it is, an error on the surface with its mutation.\<close>

definition shown_able_to_fail :: "'b Check \<Rightarrow> 'b \<times> Stack \<Rightarrow> bool" where
  "shown_able_to_fail c = (\<lambda>(b, s).
     (case Check_Run c (b, surface_with None s) of (err, b1, s1) \<Rightarrow>
        err = None \<and>
        (case Check_Mutation c of
           None \<Rightarrow> False
         | Some m \<Rightarrow> (case Check_Run c (b1, surface_with (Some m) s1) of (derr, b2, s2) \<Rightarrow> derr \<noteq> None \<and> MutationError s2 = None))))"

lemma grade_check_green:
  "Passed (fst (grade_check c w)) \<and> Demonstrated (fst (grade_check c w)) \<longleftrightarrow> shown_able_to_fail c w"
  by (cases w) (auto simp: grade_check_def shown_able_to_fail_def Let_def split: prod.splits option.splits)

lemma grade_all_green:
  "(\<forall>r \<in> set (fst (grade_all cs w)). Passed r \<and> Demonstrated r) \<longleftrightarrow>
   (\<forall>pre c post. cs = pre @ c # post \<longrightarrow> shown_able_to_fail c (snd (grade_all pre w)))"
proof (induction cs arbitrary: w)
  case (Cons c cs)
  obtain r w1 where g: "grade_check c w = (r, w1)" by (cases "grade_check c w")
  have hd: "fst (grade_all (c # cs) w) = r # fst (grade_all cs w1)" using g by (auto split: prod.splits)
  have tl: "snd (grade_all (c # pre) w) = snd (grade_all pre w1)" for pre using g by (auto split: prod.splits)
  have "(\<forall>pre d post. c # cs = pre @ d # post \<longrightarrow> shown_able_to_fail d (snd (grade_all pre w))) \<longleftrightarrow>
      shown_able_to_fail c w \<and> (\<forall>pre d post. cs = pre @ d # post \<longrightarrow> shown_able_to_fail d (snd (grade_all (c # pre) w)))"
    (is "?all \<longleftrightarrow> ?here \<and> ?later")
  proof
    assume a: ?all
    then have ?here using a [rule_format, of "[]" c cs] by simp
    moreover have ?later using a by (metis append_Cons)
    ultimately show "?here \<and> ?later" by blast
  next
    assume h: "?here \<and> ?later"
    show ?all
    proof (intro allI impI)
      fix pre d post assume "c # cs = pre @ d # post"
      then show "shown_able_to_fail d (snd (grade_all pre w))" using h by (cases pre) auto
    qed
  qed
  then show ?case unfolding hd tl using Cons.IH [of w1] grade_check_green [of c w] g by simp
qed simp


definition sample_ui_host :: ui_host where
  "sample_ui_host = \<lparr>ui_getenv = (\<lambda>k. if k = ''TRACKER_BROWSER'' then ''/opt/chrome'' else []), ui_stat = (\<lambda>_. None),
     look_path = (\<lambda>_ _. None), temp_dir = ''/tmp'', mkdir_temp = Inr, write_error = (\<lambda>_. None)\<rparr>"

text \<open>A check that reads the page through the stack, and a mutation that empties what it looks for.\<close>

definition sample_check :: "unit Check" where
  "sample_check = \<lparr>Check_ID = ''AC1'', Check_Criterion = ''the state is in words'',
     Check_Mutation = Some \<lparr>Mut_ID = ''AC1'', Mut_Path = [], Find = ''live now'', Replace = [], CSPFind = [], CSPReplace = [], DropHeader = []\<rparr>,
     Check_Run = (\<lambda>(b, s).
       (case mutating (\<lambda>_. \<lparr>pg_status = 200, pg_headers = [], pg_body = ''is live now''\<rparr>) ''/map'' s of
          (p, s') \<Rightarrow> (if contains (pg_body p) ''live now'' then None else Some ''no state'', b, s')))\<rparr>"

lemma sample_run:
  "cmd_runWeb sample_ui_host (\<lambda>_. Inr ()) [sample_check] None =
     (None, Some \<lparr>Rec_Surface = ''web'', Ran = [''AC1''], Rec_Demonstrated = [''AC1'']\<rparr>)"
  by (simp add: cmd_runWeb_def RunWeb_def FindEngines_def sample_ui_host_def NewSessionFrom_def sample_check_def grade_check_def surface_with_def
      mutating_def SetMutation_def SetPositions_def Restore_def MutationError_def apply_mutation_def mutation_target_def rewrite_body_def
      rewrite_policy_def drop_header_def Summarise_def RecordRun_def Let_def NewStack_def)


text \<open>
  A demonstration can be counted although no broken page was ever shown. An engine that answers the
  first run of the last check and is gone afterwards makes the second run fail before it has asked the stack
  for anything: no mutation is on record as not applied, the check counts as demonstrated, and the route is
  green.
\<close>

theorem engine_loss_counts:
  "let c = \<lparr>Check_ID = i, Check_Criterion = k, Check_Mutation = Some m,
            Check_Run = (\<lambda>(n, s). if n = (0 :: nat) then (Some ''websocket: close 1006'', n, s) else (None, n - 1, s))\<rparr>
   in Summarise ''browser map'' (fst (grade_all [c] (1, NewStack))) = None"
  by (simp add: Summarise_None grade_check_def Let_def MutationError_def surface_with_def SetMutation_def SetPositions_def Restore_def)

end
