(* ===== verification/UiChecks.thy ===== *)
theory UiChecks
  imports UiRoute
begin

text \<open>
  The checks of the browser route, \<open>internal/uiverify/checks.go\<close>, with the readouts of \<open>readouts.go\<close> and the
  records a session keeps (\<open>browser.go\<close>). The engine is a parameter: a state that takes commands and shows,
  to each measuring script, a report. A check is what the source does with them: the commands it sends, the
  stack it drives, what it waits for and how it judges a report. Readings are rational numbers, and the
  message of a failure names the claim and leaves out the readings.
\<close>

section \<open>The engine\<close>

datatype driver_command =
    SetTheme string
  | SetViewport int int bool
  | SetVisionDeficiency string
  | Navigate string
  | PressTab
  | PressKey string
  | TypeInto string string
  | Script string
  | Look

record snapshot =
  DeviceSetKnown :: bool
  DeviceCount :: int
  LocatedCount :: int
  Interrupted :: bool
  InterruptedWhy :: string
  ReceivedCount :: int
  RejectedCount :: int
  LastRejection :: string
  Snap_PanelState :: string
  Snap_PanelStateText :: string
  Status :: string
  StatusHealth :: string
  MarkerIDs :: "string list"

record deviceRow =
  Row_ID :: string
  Row_State :: string
  Row_Text :: string
  Row_List :: string

record control =
  Path :: string
  Tag :: string
  Width :: rat
  Height :: rat
  Left :: rat
  Right :: rat
  Control_Top :: rat
  TabIndex :: int

record figureReport =
  Fig_Located :: string
  Fig_Rejected :: string
  Fig_RejectedDetail :: string
  Fig_Status :: string

record panelStateReport =
  Panel_State :: string
  Panel_Text :: string
  Panel_Action :: string
  Panel_Visible :: bool

text \<open>A property of an accessibility node is its raw JSON; no property is a null pointer.\<close>

record axNode =
  NodeID :: string
  Ignored :: bool
  ax_Role :: "string option"
  ax_Name :: "string option"
  BackendDOMNodeID :: int

record rendering =
  im_min :: "int \<times> int"
  im_max :: "int \<times> int"
  im_at :: "int \<Rightarrow> int \<Rightarrow> nat \<times> nat \<times> nat \<times> nat"

record focusReport =
  OutlineStyle :: string
  OutlineWidth :: rat
  Focus_Ratio :: rat

record box =
  Box_Path :: string
  Box_Left :: rat
  Box_Right :: rat
  Box_Top :: rat
  Box_Width :: rat
  Box_Height :: rat
  Box_FontSize :: rat

record worksReport =
  Leaflet :: bool
  Hook :: bool
  Styled :: bool
  Markers :: int

record region =
  Region :: string
  Hrefs :: "string list"

record 'b engine =
  eng_do :: "driver_command \<Rightarrow> 'b \<times> Stack \<Rightarrow> string option \<times> nat \<times> 'b"
  eng_sleep :: "nat \<Rightarrow> 'b \<times> Stack \<Rightarrow> 'b"
  eng_url :: string
  eng_lower :: "string \<Rightarrow> string"
  json_string :: "string \<Rightarrow> string option"
  png_decode :: "string \<Rightarrow> string + rendering"
  see_path :: "'b \<times> Stack \<Rightarrow> string + string"
  see_snapshot :: "'b \<times> Stack \<Rightarrow> string + snapshot"
  see_rows :: "'b \<times> Stack \<Rightarrow> string + deviceRow list"
  see_controls :: "'b \<times> Stack \<Rightarrow> string + control list"
  see_figures :: "'b \<times> Stack \<Rightarrow> string + figureReport"
  see_panel :: "'b \<times> Stack \<Rightarrow> string + panelStateReport"
  see_ax :: "'b \<times> Stack \<Rightarrow> string + axNode list"
  see_textRuns :: "'b \<times> Stack \<Rightarrow> string + (rat \<times> rat) list"
  see_boundaries :: "'b \<times> Stack \<Rightarrow> string + rat list"
  see_shot :: "string \<Rightarrow> 'b \<times> Stack \<Rightarrow> string + string"
  see_focus :: "'b \<times> Stack \<Rightarrow> string + focusReport"
  see_backgrounds :: "'b \<times> Stack \<Rightarrow> string + (string \<times> rat) list"
  see_reflow :: "'b \<times> Stack \<Rightarrow> string + rat \<times> rat"
  see_boxes :: "'b \<times> Stack \<Rightarrow> string + box list"
  see_names :: "'b \<times> Stack \<Rightarrow> string + bool list"
  see_texts :: "'b \<times> Stack \<Rightarrow> string + (bool \<times> int) list"
  see_regions :: "'b \<times> Stack \<Rightarrow> string + region list"
  see_title :: "'b \<times> Stack \<Rightarrow> string + string"
  see_bodyWords :: "'b \<times> Stack \<Rightarrow> string + int"
  see_id :: "string \<Rightarrow> 'b \<times> Stack \<Rightarrow> string + bool"
  see_stateCount :: "'b \<times> Stack \<Rightarrow> string + int"
  see_works :: "'b \<times> Stack \<Rightarrow> string + worksReport"
  see_violations :: "'b \<times> Stack \<Rightarrow> string + string list"
  see_requests :: "'b \<Rightarrow> string list"
  see_console :: "'b \<Rightarrow> string list"
  see_headers :: "'b \<Rightarrow> (string \<times> (string \<times> string) list) list"

text \<open>What a check drives: the engine with the host's clock, and the stack.\<close>

type_synonym 'b site = "('b \<times> instant) \<times> Stack"
type_synonym ('b, 'a) drive = "'b site \<Rightarrow> (string + 'a) \<times> 'b site"

definition cmd :: "'b engine \<Rightarrow> driver_command \<Rightarrow> ('b, unit) drive" where
  "cmd E c = (\<lambda>((b, t), s). case eng_do E c (b, s) of (e, took, b') \<Rightarrow>
     (case e of None \<Rightarrow> Inr () | Some m \<Rightarrow> Inl m, (b', t + int took), s))"

text \<open>Reading takes time, in which the page goes on.\<close>

definition see :: "'b engine \<Rightarrow> ('b \<times> Stack \<Rightarrow> string + 'a) \<Rightarrow> ('b, 'a) drive" where
  "see E f = (\<lambda>((b, t), s). case eng_do E Look (b, s) of (_, took, b') \<Rightarrow> (f (b', s), (b', t + int took), s))"

definition on_stack :: "(Stack \<Rightarrow> Stack) \<Rightarrow> ('b, unit) drive" where
  "on_stack f = (\<lambda>(p, s). (Inr (), p, f s))"

definition ms :: duration where "ms = 1000000"

definition doze :: "'b engine \<Rightarrow> nat \<Rightarrow> 'b site \<Rightarrow> 'b site" where
  "doze E n = (\<lambda>((b, t), s). ((eng_sleep E n (b, s), t + int n * ms), s))"

fun steps :: "('s \<Rightarrow> ('e + unit) \<times> 's) list \<Rightarrow> 's \<Rightarrow> ('e + unit) \<times> 's" where
  "steps [] = ret ()"
| "steps (m # more_steps) = bnd m (\<lambda>_. steps more_steps)"

definition demand :: "bool \<Rightarrow> string \<Rightarrow> ('b, unit) drive" where
  "demand P why = (if P then ret () else refuse why)"

lemma see_clock: "see E f w = (r, (b, t), s) \<Longrightarrow> snd (fst w) \<le> t"
  by (auto simp: see_def split: prod.splits)

section \<open>The runner\<close>

definition viewerToken :: string where "viewerToken = ''s0056-viewer-token''"

definition mapURL :: "'b engine \<Rightarrow> string" where "mapURL E = eng_url E @ ''/map?token='' @ viewerToken"

definition open_page :: "'b engine \<Rightarrow> string \<Rightarrow> int \<Rightarrow> int \<Rightarrow> ('b, unit) drive" where
  "open_page E theme w h =
     steps [cmd E (SetTheme theme), cmd E (SetViewport w h (w \<le> 480)), cmd E (SetVisionDeficiency ''none''), cmd E (Navigate (mapURL E))]"

text \<open>The loops of \<open>waitSnapshot\<close> and \<open>awaitPanelState\<close>: a failed reading is one that does not satisfy.\<close>

function wait_loop :: "'b engine \<Rightarrow> ('b \<times> Stack \<Rightarrow> snapshot \<Rightarrow> bool) \<Rightarrow> instant \<Rightarrow> 'b site \<Rightarrow> bool \<times> 'b site" where
  "wait_loop E ok deadline w =
     (if snd (fst w) < deadline
      then (case see E (see_snapshot E) w of (res, ((b, t), s)) \<Rightarrow>
        if (case res of Inr snap \<Rightarrow> ok (b, s) snap | Inl _ \<Rightarrow> False) then (True, ((b, t), s))
        else wait_loop E ok deadline (doze E 150 ((b, t), s)))
      else (False, w))"
  by pat_completeness auto
termination
  by (relation "measure (\<lambda>(E, ok, deadline, w). nat (deadline - snd (fst w)))")
     (auto simp: doze_def ms_def dest!: see_clock see_clock [OF sym])

declare wait_loop.simps [simp del]

definition waitSnapshot :: "'b engine \<Rightarrow> ('b \<times> Stack \<Rightarrow> snapshot \<Rightarrow> bool) \<Rightarrow> duration \<Rightarrow> string \<Rightarrow> ('b, unit) drive" where
  "waitSnapshot E ok patience why = (\<lambda>w.
     case wait_loop E ok (snd (fst w) + patience) w of (found, w') \<Rightarrow> (if found then Inr () else Inl why, w'))"

function panel_loop :: "'b engine \<Rightarrow> string \<Rightarrow> instant \<Rightarrow> 'b site \<Rightarrow> panelStateReport option \<times> 'b site" where
  "panel_loop E want deadline w =
     (if snd (fst w) < deadline
      then (case see E (see_panel E) w of (res, ((b, t), s)) \<Rightarrow>
        (case res of
           Inr ps \<Rightarrow> if Panel_State ps = want \<and> Panel_Visible ps then (Some ps, ((b, t), s)) else panel_loop E want deadline (doze E 150 ((b, t), s))
         | Inl _ \<Rightarrow> panel_loop E want deadline (doze E 150 ((b, t), s))))
      else (None, w))"
  by pat_completeness auto
termination
  by (relation "measure (\<lambda>(E, want, deadline, w). nat (deadline - snd (fst w)))")
     (auto simp: doze_def ms_def dest!: see_clock see_clock [OF sym])

declare panel_loop.simps [simp del]

definition awaitPanelState :: "'b engine \<Rightarrow> string \<Rightarrow> duration \<Rightarrow> ('b, panelStateReport) drive" where
  "awaitPanelState E want patience = (\<lambda>w.
     case panel_loop E want (snd (fst w) + patience) w of
       (Some ps, w') \<Rightarrow> (Inr ps, w') | (None, w') \<Rightarrow> (Inl (''the panel never reached the '' @ dquoted want @ '' state''), w'))"

definition openWatched :: "'b engine \<Rightarrow> string \<Rightarrow> int \<Rightarrow> int \<Rightarrow> ('b, unit) drive" where
  "openWatched E theme w h =
     steps [on_stack (SetPositions 200 theFamily), on_stack Restore, open_page E theme w h,
       waitSnapshot E (\<lambda>_ s. DeviceSetKnown s \<and> DeviceCount s = 5) (15000 * ms) ''the page never rendered the fixture family'']"

text \<open>\<open>inject\<close>: the two texts are quoted by \<open>%q\<close> for the script; here they are the script's arguments.\<close>

definition inject :: "'b engine \<Rightarrow> string \<Rightarrow> string \<Rightarrow> ('b, unit) drive" where
  "inject E eventType data = cmd E (Script (''onStreamEvent '' @ eventType @ '' '' @ data))"

definition stripQuery :: "string \<Rightarrow> string" where
  "stripQuery u = takeWhile (\<lambda>c. c \<noteq> CHR ''?'' \<and> c \<noteq> CHR ''#'') u"

text \<open>The recorded headers are in the order the Go map is iterated in; the first URL with the suffix decides.\<close>

definition ResponseHeader :: "'b engine \<Rightarrow> string \<Rightarrow> string \<Rightarrow> 'b \<Rightarrow> string option" where
  "ResponseHeader E urlSuffix header b =
     (case find (\<lambda>(u, _). has_suffix (stripQuery u) urlSuffix) (see_headers E b) of
        None \<Rightarrow> None
      | Some (_, hs) \<Rightarrow> map_of hs (eng_lower E header))"

definition recorded :: "('b \<Rightarrow> 'a) \<Rightarrow> ('b, 'a) drive" where
  "recorded f = (\<lambda>w. (Inr (f (fst (fst w))), w))"

definition Violations_seen :: "'b engine \<Rightarrow> ('b, string list) drive" where
  "Violations_seen E =
     bnd (see E (see_violations E)) (\<lambda>page_said. bnd (recorded (see_console E)) (\<lambda>console.
       ret (page_said @ filter (\<lambda>c. contains c ''Refused to'' \<or> contains c ''Content Security Policy'') console)))"

section \<open>The accessibility tree\<close>

definition interactiveRoles :: "string list" where
  "interactiveRoles = [''button'', ''link'', ''textbox'', ''checkbox'', ''combobox'', ''radio'', ''slider'', ''switch'', ''searchbox'', ''menuitem'',
     ''spinbutton'', ''application'']"

definition strip_quotes :: "string \<Rightarrow> string" where
  "strip_quotes s = rev (dropWhile (\<lambda>c. c = CHR 0x22) (rev (dropWhile (\<lambda>c. c = CHR 0x22) s)))"

definition decodeAX :: "'b engine \<Rightarrow> string option \<Rightarrow> string" where
  "decodeAX E v =
     (case v of
        None \<Rightarrow> []
      | Some raw \<Rightarrow> if raw = [] then [] else (case json_string E raw of Some s \<Rightarrow> s | None \<Rightarrow> strip_quotes raw))"

definition nodeRole :: "'b engine \<Rightarrow> axNode \<Rightarrow> string" where "nodeRole E n = decodeAX E (ax_Role n)"
definition nodeName :: "'b engine \<Rightarrow> axNode \<Rightarrow> string" where "nodeName E n = TrimSpace (decodeAX E (ax_Name n))"

definition unnamedInteractive :: "'b engine \<Rightarrow> axNode list \<Rightarrow> string list" where
  "unnamedInteractive E nodes =
     map (\<lambda>n. nodeRole E n @ '' (axNodeId '' @ NodeID n @ '')'')
       (filter (\<lambda>n. \<not> Ignored n \<and> nodeRole E n \<in> set interactiveRoles \<and> nodeName E n = []) nodes)"

definition nameOfStatus :: "'b engine \<Rightarrow> axNode list \<Rightarrow> string" where
  "nameOfStatus E nodes =
     (case find (\<lambda>n. \<not> Ignored n \<and> nodeRole E n = ''status'') nodes of None \<Rightarrow> [] | Some n \<Rightarrow> nodeName E n)"

definition axTree :: "'b engine \<Rightarrow> ('b, axNode list) drive" where
  "axTree E = bnd (see E (see_ax E)) (\<lambda>nodes.
     if nodes = [] then refuse ''the engine returned an empty accessibility tree, so any assertion over it would pass vacuously'' else ret nodes)"

end
