(* ===== verification/UiRecord.thy ===== *)
theory UiRecord
  imports UiRoute
begin

text \<open>
  The record of the frontend conventions, \<open>internal/uiverify/record.go\<close>, and the count of the emulator
  route, \<open>android.go\<close>: every clause on either surface has to be answered by assertions that rans and were shown
  able to fail, or by an exemption. The checkout is that of \<open>PinGate\<close>; decoding the sr record and the
  JUnit reports is a parameter. A Go map whose iteration order reaches a message is a list here: every
  such list of problems is sorted before it is shown.
\<close>

section \<open>Text\<close>

definition TrimPrefix_opt :: "string \<Rightarrow> string \<Rightarrow> string option" where
  "TrimPrefix_opt s p = (if has_prefix s p then Some (drop (length p) s) else None)"

definition CutSuffix :: "string \<Rightarrow> string \<Rightarrow> string option" where
  "CutSuffix s suf = (if has_suffix s suf then Some (take (length s - length suf) s) else None)"

definition TrimSuffix :: "string \<Rightarrow> string \<Rightarrow> string" where
  "TrimSuffix s suf = (case CutSuffix s suf of None \<Rightarrow> s | Some t \<Rightarrow> t)"

definition strings_Trim :: "char \<Rightarrow> string \<Rightarrow> string" where
  "strings_Trim c s = rev (dropWhile (\<lambda>x. x = c) (rev (dropWhile (\<lambda>x. x = c) s)))"

text \<open>\<open>strings.Split\<close> at a non-empty text, and \<open>strings.Index\<close> as the text before the first occurrence.\<close>

fun cut_text :: "string \<Rightarrow> string \<Rightarrow> (string \<times> string) option" where
  "cut_text sep [] = (if sep = [] then Some ([], []) else None)"
| "cut_text sep (c # s) =
     (if has_prefix (c # s) sep then Some ([], drop (length sep) (c # s))
      else map_option (\<lambda>(a, b). (c # a, b)) (cut_text sep s))"

lemma cut_text_shorter: "cut_text sep s = Some (a, b) \<Longrightarrow> s = a @ sep @ b"
  by (induction s arbitrary: a) (auto simp: has_prefix_split split: if_splits)

function split_text :: "string \<Rightarrow> string \<Rightarrow> string list" where
  "split_text sep s =
     (if sep = [] then [s] else case cut_text sep s of None \<Rightarrow> [s] | Some (a, b) \<Rightarrow> a # split_text sep b)"
  by pat_completeness auto
termination by (relation "measure (\<lambda>(sep, s). length s)") (auto dest: cut_text_shorter)

declare split_text.simps [simp del]

section \<open>The record\<close>

definition ui_RecordFile :: string where "ui_RecordFile = ''FRONTEND-CONVENTIONS-RECORD.md''"
definition AndroidSurface :: string where "AndroidSurface = ''android screen''"
definition BrowserSurface :: string where "BrowserSurface = ''browser map''"
definition Surfaces :: "string list" where "Surfaces = [BrowserSurface, AndroidSurface]"
definition DemonstrationSuffix :: string where "DemonstrationSuffix = ''_demonstration''"
definition Clauses :: "string list" where
  "Clauses = [''F1'', ''F2'', ''F3'', ''F4'', ''F5'', ''F6'', ''F7'', ''F8'', ''F9'', ''F10'', ''F11'']"
definition deferralPrefix :: string where "deferralPrefix = ''deferred to ''"
definition splitPairs :: "(string \<times> string) list" where "splitPairs = []"
definition parkedSuite :: string where
  "parkedSuite = ''android/app/src/androidTest/java/com/nschatz/tracker/ui/UiClaimTest.kt''"
definition runsDir :: string where "runsDir = ''build/uiverify''"

record recordRow =
  Row_Clause :: string
  Row_Surface :: string
  Assertions :: "string list"
  Exemption :: string
  DeferredTo :: string
  Deferred :: "string list"
  Row_Line :: nat

definition sp :: rx where "sp = Many (Cls rx_space)"
definition bar :: rx where "bar = Cls (\<lambda>c. c = CHR ''|'')"
definition not_bar :: "char \<Rightarrow> bool" where "not_bar c \<longleftrightarrow> c \<noteq> CHR ''|''"

definition rowPattern :: rx where
  "rowPattern = Seq [Bol, bar, sp, Cap 1 (Cat (Cls (\<lambda>c. c = CHR ''F'')) (Many1 (Cls is_digit))), sp,
     bar, sp, Cap 2 (Few1 (Cls not_bar)), sp,
     bar, sp, Cap 3 (Few (Cls not_bar)), sp,
     bar, sp, Cap 4 (Few (Cls not_bar)), sp, bar, sp, Eol]"

definition splitNames :: "string \<Rightarrow> string list" where
  "splitNames cell =
     filter (\<lambda>a. a \<noteq> [] \<and> a \<noteq> ''-'')
       (map (\<lambda>a. TrimSpace (strings_Trim (CHR 0x60) (TrimSpace a))) (split_at (CHR '','') cell))"

text \<open>One row from its four cells.\<close>

definition row_of :: "(string \<Rightarrow> string) \<Rightarrow> nat \<Rightarrow> string \<Rightarrow> string \<Rightarrow> string \<Rightarrow> string \<Rightarrow> recordRow" where
  "row_of lower n clause surface cell ex =
     (let row = \<lparr>Row_Clause = clause, Row_Surface = lower (TrimSpace surface), Assertions = [],
                 Exemption = (if TrimSpace ex \<noteq> ''-'' \<and> TrimSpace ex \<noteq> [] then TrimSpace ex else []),
                 DeferredTo = [], Deferred = [], Row_Line = n\<rparr>
      in case TrimPrefix_opt (TrimSpace cell) deferralPrefix of
           Some d \<Rightarrow>
             (let item = takeWhile (\<lambda>c. c \<noteq> CHR '':'') d; names = drop (Suc (length item)) d
              in row\<lparr>DeferredTo := TrimSpace item, Deferred := splitNames names\<rparr>)
         | None \<Rightarrow> row\<lparr>Assertions := splitNames cell\<rparr>)"

fun parse_rows :: "(string \<Rightarrow> string) \<Rightarrow> nat \<Rightarrow> string list \<Rightarrow> recordRow list" where
  "parse_rows lower n [] = []"
| "parse_rows lower n (line # ls) =
     (case FindStringSubmatch rowPattern line of
        None \<Rightarrow> parse_rows lower (Suc n) ls
      | Some m \<Rightarrow> row_of lower n (m 1) (m 2) (m 3) (m 4) # parse_rows lower (Suc n) ls)"

datatype ui_failure =
    RecordUnreadable
  | RunUnreadable
  | RunUndecodable
  | NoResults
  | WalkError tree_error
  | NothingRecorded
  | DoesNotHold "string list"

definition read_text :: "checkout \<Rightarrow> string \<Rightarrow> string option" where
  "read_text co p = (case co_read co p of Contents s \<Rightarrow> Some s | _ \<Rightarrow> None)"

definition ParseRecord :: "(string \<Rightarrow> string) \<Rightarrow> checkout \<Rightarrow> recordRow list option" where
  "ParseRecord lower co = map_option (\<lambda>body. parse_rows lower 1 (split_at (CHR 0x0A) body)) (read_text co ui_RecordFile)"

section \<open>What ran\<close>

record surfaceRun =
  Run_Ran :: "string list"
  Run_Demonstrated :: "string list"

record testcase =
  tc_Name :: string
  tc_Failure :: bool
  tc_Skipped :: bool

text \<open>Decoders of the run record and of a JUnit file, and the text of an error of reading a path.\<close>

record readers =
  decode_run :: "string \<Rightarrow> RunRecord option"
  decode_junit :: "string \<Rightarrow> testcase list option"
  read_error :: "string \<Rightarrow> string"
  ui_lower :: "string \<Rightarrow> string"

definition resultsDir :: string where
  "resultsDir = ''android/app/build/outputs/androidTest-results/connected''"

fun node_at :: "string list \<Rightarrow> node \<Rightarrow> node option" where
  "node_at [] nd = Some nd"
| "node_at (s # ss) (Directory (Some es)) = (case map_of es s of None \<Rightarrow> None | Some nd \<Rightarrow> node_at ss nd)"
| "node_at (s # ss) nd = None"

definition tree_at :: "checkout \<Rightarrow> string \<Rightarrow> node option" where
  "tree_at co p = (case co_tree co of Tree nd \<Rightarrow> node_at (split_at (CHR ''/'') p) nd | _ \<Rightarrow> None)"

fun count_cases :: "testcase list \<Rightarrow> surfaceRun \<Rightarrow> surfaceRun" where
  "count_cases [] sr = sr"
| "count_cases (tc # tcs) sr =
     count_cases tcs
       (if tc_Failure tc \<or> tc_Skipped tc then sr
        else case CutSuffix (tc_Name tc) DemonstrationSuffix of
          Some claim \<Rightarrow> sr\<lparr>Run_Demonstrated := List.insert claim (Run_Demonstrated sr)\<rparr>
        | None \<Rightarrow> sr\<lparr>Run_Ran := List.insert (tc_Name tc) (Run_Ran sr)\<rparr>)"

fun count_files :: "readers \<Rightarrow> checkout \<Rightarrow> string list \<Rightarrow> surfaceRun \<Rightarrow> ui_failure + surfaceRun" where
  "count_files rd co [] sr = Inr sr"
| "count_files rd co (p # ps) sr =
     (case read_text co p of
        None \<Rightarrow> Inl (WalkError (ReadingFailed p))
      | Some body \<Rightarrow>
          count_files rd co ps (case decode_junit rd body of None \<Rightarrow> sr | Some tcs \<Rightarrow> count_cases tcs sr))"

definition androidRun :: "readers \<Rightarrow> checkout \<Rightarrow> ui_failure + surfaceRun" where
  "androidRun rd co =
     (case tree_at co resultsDir of
        Some (Directory es) \<Rightarrow>
          (case visit (\<lambda>_ _. False) (\<lambda>rel _. has_suffix rel ''.xml'') resultsDir ''connected'' (Directory es) of
             Inl e \<Rightarrow> Inl (WalkError e)
           | Inr files \<Rightarrow> count_files rd co files \<lparr>Run_Ran = [], Run_Demonstrated = []\<rparr>)
      | _ \<Rightarrow> Inl NoResults)"

definition assertionsThatRan :: "readers \<Rightarrow> checkout \<Rightarrow> ui_failure + (string \<Rightarrow> surfaceRun)" where
  "assertionsThatRan rd co =
     (case read_text co (runsDir @ ''/last-run-web.json'') of
        None \<Rightarrow> Inl RunUnreadable
      | Some body \<Rightarrow>
          (case decode_run rd body of
             None \<Rightarrow> Inl RunUndecodable
           | Some rec \<Rightarrow>
               (case androidRun rd co of
                  Inl e \<Rightarrow> Inl e
                | Inr android \<Rightarrow>
                    Inr (\<lambda>surface. if surface = AndroidSurface then android
                           else if surface = BrowserSurface then \<lparr>Run_Ran = remdups (Ran rec), Run_Demonstrated = remdups (Rec_Demonstrated rec)\<rparr>
                           else \<lparr>Run_Ran = [], Run_Demonstrated = []\<rparr>))))"

section \<open>The problems of a record\<close>

definition pair_key :: "string \<Rightarrow> string \<Rightarrow> string" where "pair_key clause surface = clause @ ''|'' @ surface"
definition row_key :: "recordRow \<Rightarrow> string" where "row_key row = pair_key (Row_Clause row) (Row_Surface row)"

fun by_pair :: "(string \<rightharpoonup> recordRow) \<Rightarrow> recordRow list \<Rightarrow> (string \<rightharpoonup> recordRow) \<times> string list" where
  "by_pair m [] = (m, [])"
| "by_pair m (row # rows) =
     (if m (row_key row) \<noteq> None
      then (case by_pair m rows of (m', ps) \<Rightarrow>
        (m', (Row_Clause row @ '' on the '' @ Row_Surface row @ '' is recorded twice (line '' @ show_nat (Row_Line row) @ '')'') # ps))
      else by_pair (m(row_key row \<mapsto> row)) rows)"

definition sortedKeys :: "(string \<times> string) list \<Rightarrow> string list" where
  "sortedKeys m = sort_strings (map fst m)"

definition deferralProblems :: "string \<Rightarrow> recordRow \<Rightarrow> surfaceRun \<Rightarrow> string list" where
  "deferralProblems key row sr =
     (let place = Row_Clause row @ '' on the '' @ Row_Surface row @ '' (line '' @ show_nat (Row_Line row) @ '')'' in
      (case map_of splitPairs key of
         None \<Rightarrow>
           (let legal = join '', '' (sortedKeys splitPairs);
                legal = (if legal = [] then ''none: no clause is split to another item today'' else legal)
            in [place @ '' is recorded as deferred to '' @ dquoted (DeferredTo row)
                @ '', but a deferral is only legal on the clause/surface pairs the narrowed spec marks SPLIT ('' @ legal
                @ ''); every other pair must name an assertion that ran or an exemption saying the clause cannot apply''])
       | Some owner \<Rightarrow>
           if DeferredTo row \<noteq> owner
           then [place @ '' is deferred to '' @ dquoted (DeferredTo row) @ '', but this pair is carried by '' @ dquoted owner
                 @ ''; a deferral naming the wrong item points a reader at work nobody is doing'']
           else [])
      @ (if Exemption row \<noteq> [] then [place @ '' carries BOTH a deferral and an exemption; a clause is answered once''] else [])
      @ (if Assertions row \<noteq> [] then [place @ '' carries BOTH a deferral and an assertion; a clause is answered once''] else [])
      @ (if Deferred row = [] then [place @ '' is deferred but names no assertion that moved with it, so nothing pins what the other item owes''] else [])
      @ map (\<lambda>a. place @ '' defers the assertion '' @ dquoted a
               @ '', and the last recorded invocation of that route reports it PASSING; a clause that is graded is not deferred'')
          (filter (\<lambda>a. a \<in> set (Run_Ran sr)) (Deferred row)))"

definition demonstrationHint :: "string \<Rightarrow> string \<Rightarrow> string" where
  "demonstrationHint surface assertion =
     (if surface = AndroidSurface
      then '' (the instrumented suite reported no passing case named '' @ dquoted (assertion @ DemonstrationSuffix) @ '')'' else [])"

definition assertion_problem :: "string \<Rightarrow> string \<Rightarrow> surfaceRun \<Rightarrow> string \<Rightarrow> string list" where
  "assertion_problem place surface sr a =
     (if a \<notin> set (Run_Ran sr)
      then [place @ '' names the assertion '' @ dquoted a @ '', which did not run in the last recorded invocation of that route'']
      else if a \<notin> set (Run_Demonstrated sr)
      then [place @ '' names the assertion '' @ dquoted a
            @ '', which ran but carries no demonstration in the last recorded invocation of that route (AC18): a check that was never shown going red is not evidence''
            @ demonstrationHint surface a]
      else [])"

text \<open>The problems of one clause on one surface, and the assertions its row defers.\<close>

definition pair_problems :: "(string \<rightharpoonup> recordRow) \<Rightarrow> (string \<Rightarrow> surfaceRun) \<Rightarrow> string \<times> string \<Rightarrow> string list \<times> string list" where
  "pair_problems m rans = (\<lambda>(clause, surface).
     (case m (pair_key clause surface) of
        None \<Rightarrow> ([clause @ '' on the '' @ surface @ '' is not in the record at all''], [])
      | Some row \<Rightarrow>
          if DeferredTo row \<noteq> [] then (deferralProblems (pair_key clause surface) row (rans surface), Deferred row)
          else
            (let place = clause @ '' on the '' @ surface @ '' (line '' @ show_nat (Row_Line row) @ '')'' in
             ((if Assertions row = [] \<and> Exemption row = [] then [place @ '' names neither an assertion, an exemption nor a deferral'']
               else if Assertions row \<noteq> [] \<and> Exemption row \<noteq> [] then [place @ '' carries BOTH an assertion and an exemption'']
               else [])
              @ concat (map (assertion_problem place surface (rans surface)) (Assertions row)), []))))"

definition all_pairs :: "(string \<times> string) list" where
  "all_pairs = concat (map (\<lambda>c. map (Pair c) Surfaces) Clauses)"

section \<open>The suite that runs on the emulator\<close>

definition ignoreDirective :: rx where
  "ignoreDirective = Seq [Lit ''@Ignore'', sp, Lit ''('']"

definition funDeclaration :: rx where
  "funDeclaration = Seq [Bol, sp, Lit ''fun'', Many1 (Cls rx_space), Cap 1 (Many1 (Cls is_word)), sp, Lit ''('']"

text \<open>The case an ignored line sits on is the next one declared within the 23 lines below; what is between is the reason.\<close>

definition declares :: "string \<Rightarrow> bool" where "declares line \<longleftrightarrow> MatchString funDeclaration line"

definition parked_case :: "string \<Rightarrow> string list \<Rightarrow> (string \<times> string) option" where
  "parked_case line below =
     (case find declares (take 23 below) of
        None \<Rightarrow> None
      | Some decl \<Rightarrow>
          (case FindStringSubmatch funDeclaration decl of
             None \<Rightarrow> None
           | Some m \<Rightarrow>
               Some (m 1, concat (map (\<lambda>l. l @ '' '') (line # takeWhile (\<lambda>l. \<not> declares l) (take 23 below))))))"

fun parked_cases :: "nat \<Rightarrow> string list \<Rightarrow> string + (string \<times> string) list" where
  "parked_cases n [] = Inr []"
| "parked_cases n (line # ls) =
     (if \<not> MatchString ignoreDirective line then parked_cases (Suc n) ls
      else case parked_case line ls of
        None \<Rightarrow> Inl (parkedSuite @ '':'' @ show_nat n @ '' carries an @Ignore that sits on no test case'')
      | Some c \<Rightarrow> map_sum id ((#) c) (parked_cases (Suc n) ls))"

definition parked_problem :: "(string \<times> string) list \<Rightarrow> string \<Rightarrow> string list" where
  "parked_problem ignored name =
     (let claim = TrimSuffix name DemonstrationSuffix;
          reason = (case map_of (rev ignored) name of None \<Rightarrow> [] | Some r \<Rightarrow> r);
          partner = (if name = claim then claim @ DemonstrationSuffix else claim)
      in (if \<exists>owner \<in> set (map snd splitPairs). contains reason owner then []
          else [parkedSuite @ '' @Ignore'' @ [CHR 0x27] @ ''s '' @ dquoted name
                @ '' without naming the item that owns it; a parked case with no owner is a hole nobody is accountable for''])
       @ (if partner \<in> set (map fst ignored) then []
          else [parkedSuite @ '' @Ignore'' @ [CHR 0x27] @ ''s '' @ dquoted name @ '' but not '' @ dquoted partner
                @ ''; a claim and its demonstration are parked together, or the surviving half is not evidence (AC18)'']))"

definition parkedSuiteProblems :: "readers \<Rightarrow> checkout \<Rightarrow> string list \<Rightarrow> string list" where
  "parkedSuiteProblems rd co deferred =
     (case read_text co parkedSuite of
        None \<Rightarrow> [''could not read the instrumented suite at '' @ parkedSuite @ '' to check the record'' @ [CHR 0x27]
                   @ ''s deferrals against what it actually parks: '' @ read_error rd parkedSuite]
      | Some body \<Rightarrow>
          (case parked_cases 1 (split_at (CHR 0x0A) body) of
             Inl p \<Rightarrow> [p]
           | Inr ignored \<Rightarrow>
               (let names = remdups (map fst ignored);
                    claims = remdups (map (\<lambda>n. TrimSuffix n DemonstrationSuffix) names)
                in concat (map (parked_problem ignored) names)
                   @ map (\<lambda>c. parkedSuite @ '' @Ignore'' @ [CHR 0x27] @ ''s '' @ dquoted c @ '', and no row of '' @ ui_RecordFile
                         @ '' defers it; a case may only stop running once the record says which item owns the clause it carried'')
                       (filter (\<lambda>c. c \<notin> set deferred) claims)
                   @ map (\<lambda>c. ui_RecordFile @ '' defers the assertion '' @ dquoted c @ '', and '' @ parkedSuite
                         @ '' does not @Ignore it; a clause written off while its assertion is still in the suite is a record that does not describe the repository'')
                       (filter (\<lambda>c. c \<notin> set claims) (remdups deferred)))))"

section \<open>A web view\<close>

text \<open>A walk that stops at the first file with something to say, or at the first error.\<close>

function search :: "(string \<Rightarrow> bool) \<Rightarrow> (string \<Rightarrow> (tree_error + 'a) option) \<Rightarrow> string \<Rightarrow> string \<Rightarrow> node \<Rightarrow> (tree_error + 'a) option"
  and search_all :: "(string \<Rightarrow> bool) \<Rightarrow> (string \<Rightarrow> (tree_error + 'a) option) \<Rightarrow> string \<Rightarrow> (string \<times> node) list \<Rightarrow> (tree_error + 'a) option" where
  "search skip f rel name (Directory es) =
     (if skip name then None else case es of None \<Rightarrow> Some (Inl (WalkFailed rel)) | Some es \<Rightarrow> search_all skip f rel es)"
| "search skip f rel name Special = f rel"
| "search skip f rel name (Regular sz con) = f rel"
| "search_all skip f rel [] = None"
| "search_all skip f rel ((name, nd) # es) =
     (case search skip f (join_path rel name) name nd of
        None \<Rightarrow> search_all skip f rel es
      | Some r \<Rightarrow> Some r)"
  by pat_completeness auto
termination by (relation "measure (case_sum (\<lambda>(_, _, _, _, nd). size nd) (\<lambda>(_, _, _, es). size_list (size_prod (\<lambda>_. 0) size) es))") auto

definition web_needles :: "string list" where
  "web_needles = [''WebView'', ''CustomTabsIntent'', ''androidx.browser'', ''webkit'']"

definition app_source :: "string \<Rightarrow> bool" where
  "app_source p \<longleftrightarrow> (\<exists>ext \<in> set [''.kt'', ''.java'', ''.xml'', ''.kts'', ''.toml'']. has_suffix p ext)"

definition web_view_in :: "checkout \<Rightarrow> string \<Rightarrow> (tree_error + string) option" where
  "web_view_in co p =
     (if \<not> app_source p then None
      else case read_text co p of
        None \<Rightarrow> Some (Inl (ReadingFailed p))
      | Some body \<Rightarrow> map_option (\<lambda>n. Inr (p @ '' (contains '' @ n @ '')'')) (find (contains body) web_needles))"

definition androidRendersAWebView :: "checkout \<Rightarrow> (tree_error + string) option" where
  "androidRendersAWebView co =
     (case tree_at co ''android'' of
        None \<Rightarrow> Some (Inl (WalkFailed ''android''))
      | Some nd \<Rightarrow> search (\<lambda>name. name = ''build'' \<or> name = ''.gradle'') (web_view_in co) ''android'' ''android'' nd)"

fun tree_error_path :: "tree_error \<Rightarrow> string" where
  "tree_error_path (WalkFailed p) = p"
| "tree_error_path (ReadingFailed p) = p"

definition exemption_problems :: "readers \<Rightarrow> checkout \<Rightarrow> (string \<rightharpoonup> recordRow) \<Rightarrow> string list" where
  "exemption_problems rd co m =
     (case m (pair_key ''F11'' AndroidSurface) of
        None \<Rightarrow> []
      | Some row \<Rightarrow>
          if Exemption row = [] then []
          else case androidRendersAWebView co of
            None \<Rightarrow> []
          | Some (Inl e) \<Rightarrow> [''could not check whether the Android client renders a web view: '' @ read_error rd (tree_error_path e)]
          | Some (Inr found) \<Rightarrow>
              [''the F11 Android exemption stands on the app having no browser surface, but '' @ found
               @ '' renders one; the exemption has lapsed and a policy is now required''])"

section \<open>The record check\<close>

definition ui_CheckRecord :: "readers \<Rightarrow> checkout \<Rightarrow> ui_failure option" where
  "ui_CheckRecord rd co =
     (case ParseRecord (ui_lower rd) co of
        None \<Rightarrow> Some RecordUnreadable
      | Some rows \<Rightarrow>
          (case assertionsThatRan rd co of
             Inl e \<Rightarrow> Some e
           | Inr rans \<Rightarrow>
               (case by_pair Map.empty rows of (m, twice) \<Rightarrow>
                  (let judged = map (pair_problems m rans) all_pairs;
                       problems = twice @ concat (map fst judged) @ parkedSuiteProblems rd co (concat (map snd judged)) @ exemption_problems rd co m
                   in if problems = [] then None else Some (DoesNotHold (sort_strings problems))))))"

section \<open>The emulator route\<close>

definition recordedAssertions :: "recordRow list \<Rightarrow> string \<Rightarrow> string list" where
  "recordedAssertions rows surface =
     sort_strings (remdups (concat (map Assertions (filter (\<lambda>row. Row_Surface row = surface) rows))))"

definition deferredAssertions :: "recordRow list \<Rightarrow> string list" where
  "deferredAssertions rows =
     remdups (concat (map Deferred (filter (\<lambda>row. DeferredTo row \<noteq> [] \<and> map_of splitPairs (row_key row) \<noteq> None) rows)))"

definition test_block :: "string \<Rightarrow> string" where
  "test_block block = (case cut_text (CHR 0x0A # ''    private '') block of None \<Rightarrow> block | Some (a, _) \<Rightarrow> a)"

definition block_name :: "string \<Rightarrow> string option" where
  "block_name block =
     (case FindStringSubmatch funDeclaration block of
        Some m \<Rightarrow> Some (m 1)
      | None \<Rightarrow>
          (case find declares (split_at (CHR 0x0A) block) of
             None \<Rightarrow> None
           | Some l \<Rightarrow> map_option (\<lambda>m. m 1) (FindStringSubmatch funDeclaration l)))"

text \<open>The claims of the suite: the named blocks that are not demonstrations.\<close>

definition claim_blocks :: "string \<Rightarrow> (string \<times> string) list" where
  "claim_blocks body =
     List.map_filter
       (\<lambda>b. let block = test_block b in
          case block_name block of None \<Rightarrow> None | Some name \<Rightarrow> if has_suffix name DemonstrationSuffix then None else Some (name, block))
       (tl (split_text ''@Test'' body))"

definition unmutatedClaimProblems :: "readers \<Rightarrow> checkout \<Rightarrow> string list" where
  "unmutatedClaimProblems rd co =
     (case read_text co parkedSuite of
        None \<Rightarrow> [''could not read the instrumented suite at '' @ parkedSuite @ '' to check that its claims are graded on an unmutated screen: ''
                   @ read_error rd parkedSuite]
      | Some body \<Rightarrow>
          map (\<lambda>(name, _). parkedSuite @ '' grades the claim '' @ dquoted name
                @ '' against a mutated screen; a claim is graded on the screen with NO mutation applied, and only its '' @ DemonstrationSuffix @ '' may select one'')
            (filter (\<lambda>(_, block). contains block ''UiMutation.'') (claim_blocks body))
          @ (if claim_blocks body = [] then [parkedSuite @ '' declares no claim case at all, so this check would pass over an empty set''] else []))"

definition EvidenceLog :: string where "EvidenceLog = ''build/uiverify/android-grading.log''"

definition evidenceMarkers :: "string list" where
  "evidenceMarkers =
     [''AC13 contrast [light]:'', ''AC13 contrast [dark]:'', ''AC13 target-size [light]:'', ''AC13 target-size [dark]:'',
      ''AC13 no-state-by-colour-alone [light]:'', ''AC13 no-state-by-colour-alone [dark]:'', ''AC14 operable without a pointer:'',
      ''AC14 focus indicator:'']"

definition minimumMeasurementLines :: nat where "minimumMeasurementLines = 100"

definition gradingEvidenceProblems :: "readers \<Rightarrow> checkout \<Rightarrow> string list" where
  "gradingEvidenceProblems rd co =
     (case read_text co EvidenceLog of
        None \<Rightarrow> [''there is no grading evidence at '' @ EvidenceLog @ '': '' @ read_error rd EvidenceLog
           @ ''. android/README.md and the Makefile both state that every number the sweep measured is written there and printed by `make verify-ui-android`, ''
           @ ''so a route that reports green without it is reporting on a mechanism that did not run'']
      | Some text \<Rightarrow>
          if TrimSpace text = []
          then [EvidenceLog @ '' is empty. The emulator ran and measured, and wrote none of it down; two committed documents say it wrote all of it. ''
             @ ''Either the device log tag (`UiHarness.EVIDENCE_TAG`, mirrored as ANDROID_EVIDENCE_TAG in the Makefile) stopped matching, ''
             @ ''or the suite stopped calling UiHarness.evidence'']
          else
            (let missing = filter (\<lambda>marker. \<not> contains text marker) evidenceMarkers;
                 measured = length (filter (\<lambda>line. contains line ''contrast='') (split_at (CHR 0x0A) text))
             in (if missing = [] then []
                 else [EvidenceLog @ '' carries no line for '' @ show_nat (length missing)
                   @ '' of the claims it is supposed to carry every measured number for: '' @ dquoted (join '', '' missing)
                   @ ''. A claim whose numbers are absent was either not graded or graded silently, and either way the documents describing this file are wrong about it''])
              @ (if minimumMeasurementLines \<le> measured then []
                 else [EvidenceLog @ '' carries '' @ show_nat measured @ '' per-view measurements and the floor is '' @ show_nat minimumMeasurementLines
                   @ '': the sweep names every view it looked at, so a file with the summaries and none of the numbers is not the file android/README.md describes''])))"

definition ran_problems :: "string list \<Rightarrow> surfaceRun \<Rightarrow> string list" where
  "ran_problems expected sr =
     map (\<lambda>a. ui_RecordFile @ '' names the assertion '' @ dquoted a @ '' on the '' @ AndroidSurface
           @ '', and the emulator did not report it passing: a claim that did not run is not evidence'')
       (filter (\<lambda>a. a \<notin> set (Run_Ran sr)) expected)
     @ map (\<lambda>a. ''the claim '' @ dquoted a @ '' ran, but no passing case named '' @ dquoted (a @ DemonstrationSuffix)
           @ '' did: it was never shown going red, so its pass is not evidence (AC18)'')
       (filter (\<lambda>a. a \<notin> set (Run_Demonstrated sr)) (sort_strings (Run_Ran sr)))
     @ (if length (Run_Demonstrated sr) < length (Run_Ran sr)
        then [AndroidSurface @ '': '' @ show_nat (length (Run_Ran sr)) @ '' rendered claims but only ''
              @ show_nat (length (Run_Demonstrated sr)) @ '' demonstrations (AC18): a check that was never shown going red is not evidence'']
        else [])"

definition CheckAndroidRun :: "readers \<Rightarrow> checkout \<Rightarrow> ui_failure option" where
  "CheckAndroidRun rd co =
     (case ParseRecord (ui_lower rd) co of
        None \<Rightarrow> Some RecordUnreadable
      | Some rows \<Rightarrow>
          (let expected = recordedAssertions rows AndroidSurface in
           if expected = [] then Some NothingRecorded
           else case androidRun rd co of
             Inl e \<Rightarrow> Some e
           | Inr sr \<Rightarrow>
               (let problems = ran_problems expected sr @ parkedSuiteProblems rd co (deferredAssertions rows)
                      @ unmutatedClaimProblems rd co @ gradingEvidenceProblems rd co
                in if problems = [] then None else Some (DoesNotHold (sort_strings problems)))))"

section \<open>The documents\<close>

definition documentedStrings :: "string list" where
  "documentedStrings =
     [''permission_step_foreground_body'', ''permission_step_background_dialog_body'', ''permission_step_background_settings_body'',
      ''permission_step_denied_body'', ''permission_ready_body'', ''warning_foreground_only'', ''warning_approximate'',
      ''warning_notifications_blocked'', ''config_plaintext_note'', ''config_verdict_note'', ''collection_trouble'', ''collection_restart'',
      ''collection_limitation'', ''counter_delivered'', ''counter_queued'', ''counter_dropped'', ''counter_not_recorded'', ''collection_freshness'']"

definition map_explained :: string where "map_explained = ''internal/server/static/map-explained.html''"
definition app_explained :: string where "app_explained = ''internal/server/static/app-explained.html''"

definition document_problems :: "readers \<Rightarrow> checkout \<Rightarrow> string \<Rightarrow> string list" where
  "document_problems rd co doc =
     (case read_text co doc of
        None \<Rightarrow> [doc @ '' is missing: '' @ read_error rd doc]
      | Some body \<Rightarrow>
          if length body < 1000
          then [doc @ '' is '' @ show_nat (length body) @ '' bytes; that is not the explanation the labels'' @ [CHR 0x27] @ '' claims moved into'']
          else [])"

definition CheckDocuments :: "readers \<Rightarrow> checkout \<Rightarrow> ui_failure option" where
  "CheckDocuments rd co =
     (let problems = document_problems rd co map_explained @ document_problems rd co app_explained
            @ (case read_text co app_explained of
                 None \<Rightarrow> []
               | Some body \<Rightarrow>
                   map (\<lambda>i. ''app-explained.html carries no section for '' @ dquoted i @ ''; that claim left the screen without landing anywhere'')
                     (filter (\<lambda>i. \<not> contains body (''id='' @ dquoted i)) documentedStrings))
      in if problems = [] then None else Some (DoesNotHold problems))"

section \<open>A row is its cells\<close>

subsection \<open>Padding\<close>

lemma is_wide_length: "is_wide s \<Longrightarrow> length s = 2 \<or> length s = 3"
  by (auto simp: is_wide_def wide_spaces_def dest!: arg_cong [of "map of_char s" _ length])

lemma is_wide_not_ascii: "is_wide s \<Longrightarrow> c \<in> set s \<Longrightarrow> \<not> ascii_space c"
  by (auto simp: is_wide_def wide_spaces_def ascii_space_def Let_def)

lemma is_wide_take_append:
  assumes "\<forall>c \<in> set w. ascii_space c" "is_wide (take n (s @ w))"
  shows "is_wide (take n s)"
proof -
  have "set (take (n - length s) w) \<subseteq> set (take n (s @ w))" by simp
  then have "take (n - length s) w = []"
    using assms is_wide_not_ascii by (metis in_set_takeD last_in_set subsetD)
  then show ?thesis using assms(2) by (auto simp del: take_eq_Nil)
qed

lemma trim_left_append:
  assumes w: "\<forall>c \<in> set w. ascii_space c"
  shows "trim_left (s @ w) = (if trim_left s = [] then [] else trim_left s @ w)"
proof (induction s rule: trim_left.induct)
  case (1 s)
  note step = trim_left.simps [of s] trim_left.simps [of "s @ w"]
  have nil: "trim_left [] = []" by (simp add: trim_left.simps)
  consider "s = []" | "s \<noteq> [] \<and> ascii_space (hd s)"
    | "s \<noteq> []" "\<not> ascii_space (hd s)" "is_wide (take 2 s)"
    | "s \<noteq> []" "\<not> ascii_space (hd s)" "\<not> is_wide (take 2 s)" "is_wide (take 3 s)"
    | "s \<noteq> []" "\<not> ascii_space (hd s)" "\<not> is_wide (take 2 s)" "\<not> is_wide (take 3 s)" by blast
  then show ?case
  proof cases
    case a: 1
    then show ?thesis using trim_left_spaces [OF w, of "[]"] nil by simp
  next
    case a: 2
    then show ?thesis using 1(1) step by (cases s) simp_all
  next
    case a: 3
    then have "2 \<le> length s" using is_wide_length [of "take 2 s"] by auto
    then show ?thesis using 1(2) a step by simp
  next
    case a: 4
    then have "3 \<le> length s" using is_wide_length [of "take 3 s"] by (cases "length s = 2") auto
    moreover have "\<not> is_wide (take 2 (s @ w))" using a(3) is_wide_take_append [OF w] by blast
    ultimately show ?thesis using 1(3) a step by simp
  next
    case a: 5
    then have "\<not> is_wide (take 2 (s @ w))" "\<not> is_wide (take 3 (s @ w))" using is_wide_take_append [OF w] by blast+
    then show ?thesis using a step by simp
  qed
qed

lemma TrimSpace_pad:
  assumes "\<forall>c \<in> set w. ascii_space c" "\<forall>c \<in> set w'. ascii_space c"
  shows "TrimSpace (w @ s @ w') = TrimSpace s"
  using assms by (simp add: TrimSpace_def trim_left_spaces trim_left_append trim_right_spaces)

definition blank :: "string \<Rightarrow> bool" where "blank w \<longleftrightarrow> (\<forall>c \<in> set w. rx_space c)"

lemma blank_ascii: "blank w \<Longrightarrow> \<forall>c \<in> set w. ascii_space c"
  unfolding blank_def rx_space_def ascii_space_def by force

lemma TrimSpace_blank_pad [simp]: "blank w \<Longrightarrow> blank w' \<Longrightarrow> TrimSpace (w @ s @ w') = TrimSpace s"
  using TrimSpace_pad blank_ascii by blast

lemma split_at_nonempty [simp]: "split_at c s \<noteq> []"
  by (induction s) (auto split: list.splits)

lemma split_at_prefix: "c \<notin> set w \<Longrightarrow> split_at c (w @ s) = (w @ hd (split_at c s)) # tl (split_at c s)"
  by (induction w) (auto split: list.splits)

lemma split_at_suffix: "c \<notin> set w \<Longrightarrow> split_at c (s @ w) = butlast (split_at c s) @ [List.last (split_at c s) @ w]"
proof (induction s)
  case Nil
  then show ?case using split_at_prefix [of c w "[]"] by simp
next
  case (Cons x s)
  then show ?case by (cases "split_at c s") (auto split: list.splits)
qed

lemma map_TrimSpace_ends:
  assumes "xs \<noteq> []" "blank w"
  shows "map TrimSpace ((w @ hd xs) # tl xs) = map TrimSpace xs" "map TrimSpace (butlast xs @ [List.last xs @ w]) = map TrimSpace xs"
proof -
  have n: "blank []" by (simp add: blank_def)
  have t: "TrimSpace (w @ s) = TrimSpace s" "TrimSpace (s @ w) = TrimSpace s" for s
    using TrimSpace_blank_pad [OF assms(2) n, of s] TrimSpace_blank_pad [OF n assms(2), of s] by simp_all
  show "map TrimSpace ((w @ hd xs) # tl xs) = map TrimSpace xs" using assms(1) t(1) by (cases xs) simp_all
  have "map TrimSpace (butlast xs @ [List.last xs @ w]) = map TrimSpace (butlast xs @ [List.last xs])" using t(2) by simp
  then show "map TrimSpace (butlast xs @ [List.last xs @ w]) = map TrimSpace xs" using assms(1) by simp
qed

lemma blank_free: "\<not> rx_space c \<Longrightarrow> blank w \<Longrightarrow> c \<notin> set w"
  by (auto simp: blank_def)

lemma splitNames_pad: "blank w \<Longrightarrow> blank w' \<Longrightarrow> splitNames (w @ s @ w') = splitNames s"
proof -
  assume b: "blank w" "blank w'"
  have "\<not> rx_space (CHR '','')" by (simp add: rx_space_def)
  then have c: "CHR '','' \<notin> set w" "CHR '','' \<notin> set w'" using b blank_free by blast+
  have "map TrimSpace (split_at (CHR '','') (w @ s @ w')) = map TrimSpace (split_at (CHR '','') (s @ w'))"
    unfolding split_at_prefix [OF c(1)] by (rule map_TrimSpace_ends(1) [OF split_at_nonempty b(1)])
  also have "\<dots> = map TrimSpace (split_at (CHR '','') s)"
    unfolding split_at_suffix [OF c(2)] by (rule map_TrimSpace_ends(2) [OF split_at_nonempty b(2)])
  finally have m: "map TrimSpace (split_at (CHR '','') (w @ s @ w')) = map TrimSpace (split_at (CHR '','') s)" .
  have "splitNames x = filter (\<lambda>a. a \<noteq> [] \<and> a \<noteq> ''-'')
      (map (\<lambda>a. TrimSpace (strings_Trim (CHR 0x60) a)) (map TrimSpace (split_at (CHR '','') x)))" for x
    by (simp add: splitNames_def comp_def)
  then show ?thesis by (simp only: m)
qed

subsection \<open>The pattern\<close>

text \<open>The pattern is a sequence of cells, each of which opens with a bar.\<close>

definition cell :: "nat \<Rightarrow> rx \<Rightarrow> rx \<Rightarrow> rx" where
  "cell n r R = Cat bar (Cat sp (Cat (Cap n r) (Cat sp R)))"

lemma rowPattern_cells:
  "rowPattern = Cat Bol (cell 1 (Cat (Cls (\<lambda>c. c = CHR ''F'')) (Many1 (Cls is_digit)))
     (cell 2 (Few1 (Cls not_bar)) (cell 3 (Few (Cls not_bar)) (cell 4 (Few (Cls not_bar)) (Cat bar (Cat sp Eol))))))"
  by (simp add: rowPattern_def cell_def)

lemma matches_sp [simp]: "matches sp p u q \<longleftrightarrow> blank u"
  by (simp add: sp_def blank_def)

lemma matches_bar [simp]: "matches bar p u q \<longleftrightarrow> u = ''|''"
  by (auto simp: bar_def)

lemma no_cap_sp [simp]: "no_cap sp" "no_cap bar"
  by (simp_all add: sp_def bar_def)

lemma ways_cell:
  assumes "t \<in> set (ways (cell n r R) s)" "no_cap r"
  shows "\<exists>w u w' m p q. consumes s (''|'' @ w @ u @ w') m \<and> blank w \<and> blank w' \<and> matches r p u q
    \<and> caps m = (caps s)(n \<mapsto> u) \<and> t \<in> set (ways R m)"
proof -
  obtain m1 m2 m3 m4 u1 w w' where
    s1: "m1 \<in> set (ways bar s)" "consumes s u1 m1" "matches bar (before s) u1 (rest m1)" and
    s2: "m2 \<in> set (ways sp m1)" "consumes m1 w m2" "matches sp (before m1) w (rest m2)" and
    s3: "m3 \<in> set (ways (Cap n r) m2)" and
    s4: "m4 \<in> set (ways sp m3)" "consumes m3 w' m4" "matches sp (before m3) w' (rest m4)" and
    s5: "t \<in> set (ways R m4)"
    using assms(1) unfolding cell_def by (elim ways_CatE) (rule that)
  obtain u where u: "consumes m2 u m3" "matches r (before m2) u (rest m3)" "caps m3 = (caps m2)(n \<mapsto> u)"
    using ways_capE [OF s3 assms(2)] .
  have "consumes s (u1 @ w @ u @ w') m4"
    using consumes_trans [OF s1(2) consumes_trans [OF s2(2) consumes_trans [OF u(1) s4(2)]]] .
  moreover have "u1 = ''|''" "blank w" "blank w'" using s1(3) s2(3) s4(3) by simp_all
  moreover have "caps m4 = caps m3" "caps m2 = caps m1" "caps m1 = caps s"
    using no_cap_keeps [OF _ s4(1)] no_cap_keeps [OF _ s2(1)] no_cap_keeps [OF _ s1(1)] by simp_all
  ultimately show ?thesis using u(2,3) s5 by (metis (no_types))
qed

lemma matches_cell:
  assumes "blank w" "blank w'" "\<And>p q. matches r p u q" "\<And>p. matches R p v q"
  shows "matches (cell n r R) p (''|'' @ w @ u @ w' @ v) q"
proof -
  have "matches (Cat sp R) p (w' @ v) q" for p by (rule cat) (use assms in simp_all)
  then have "matches (Cat (Cap n r) (Cat sp R)) p (u @ w' @ v) q" for p by (rule cat [rotated]) (use assms in simp_all)
  then have "matches (Cat sp (Cat (Cap n r) (Cat sp R))) p (w @ u @ w' @ v) q" for p by (rule cat [rotated]) (use assms in simp_all)
  then show ?thesis unfolding cell_def by (rule cat [rotated]) simp
qed

definition clause_name :: "string \<Rightarrow> bool" where
  "clause_name s \<longleftrightarrow> (case s of [] \<Rightarrow> False | c # d \<Rightarrow> c = CHR ''F'' \<and> d \<noteq> [] \<and> (\<forall>x \<in> set d. is_digit x))"

lemma matches_clause [simp]: "matches (Cat (Cls (\<lambda>c. c = CHR ''F'')) (Many1 (Cls is_digit))) p u q \<longleftrightarrow> clause_name u"
  by (cases u) (auto simp: matches_Cat_Cls clause_name_def)

text \<open>A line that the pattern accepts, from its cells with the white space around them.\<close>

definition row_text :: "string \<Rightarrow> string \<Rightarrow> string \<Rightarrow> string \<Rightarrow> string \<Rightarrow> string" where
  "row_text c1 c2 c3 c4 w = ''|'' @ c1 @ ''|'' @ c2 @ ''|'' @ c3 @ ''|'' @ c4 @ ''|'' @ w"

definition no_bar :: "string \<Rightarrow> bool" where "no_bar s \<longleftrightarrow> (\<forall>c \<in> set s. not_bar c)"

text \<open>\<open>g\<close> is the cell \<open>c\<close> up to white space.\<close>

definition unpads :: "string \<Rightarrow> string \<Rightarrow> bool" where "unpads c g \<longleftrightarrow> (\<exists>w w'. c = w @ g @ w' \<and> blank w \<and> blank w')"

lemma row_ways:
  assumes "t \<in> set (ways rowPattern s)"
  shows "\<exists>c1 c2 c3 c4 w. before s = [] \<and> rest s = row_text c1 c2 c3 c4 w \<and> blank w
    \<and> unpads c1 (group t 1) \<and> clause_name (group t 1)
    \<and> unpads c2 (group t 2) \<and> group t 2 \<noteq> [] \<and> no_bar (group t 2)
    \<and> unpads c3 (group t 3) \<and> no_bar (group t 3) \<and> unpads c4 (group t 4) \<and> no_bar (group t 4)"
proof -
  obtain s' where s: "s' \<in> set (ways Bol s)" and
    t0: "t \<in> set (ways (cell 1 (Cat (Cls (\<lambda>c. c = CHR ''F'')) (Many1 (Cls is_digit)))
     (cell 2 (Few1 (Cls not_bar)) (cell 3 (Few (Cls not_bar)) (cell 4 (Few (Cls not_bar)) (Cat bar (Cat sp Eol)))))) s')"
    using assms unfolding rowPattern_cells by (elim ways_CatE)
  have s': "s' = s" "before s = []" using s by (auto split: if_splits)
  obtain v1 u1 w1 m1 where 1: "consumes s' (''|'' @ v1 @ u1 @ w1) m1" "blank v1" "blank w1" "clause_name u1" "caps m1 = (caps s')(1 \<mapsto> u1)" and
    t1: "t \<in> set (ways (cell 2 (Few1 (Cls not_bar)) (cell 3 (Few (Cls not_bar)) (cell 4 (Few (Cls not_bar)) (Cat bar (Cat sp Eol))))) m1)"
    using ways_cell [OF t0] by auto
  obtain v2 u2 w2 m2 where 2: "consumes m1 (''|'' @ v2 @ u2 @ w2) m2" "blank v2" "blank w2" "u2 \<noteq> [] \<and> no_bar u2" "caps m2 = (caps m1)(2 \<mapsto> u2)" and
    t2: "t \<in> set (ways (cell 3 (Few (Cls not_bar)) (cell 4 (Few (Cls not_bar)) (Cat bar (Cat sp Eol)))) m2)"
    using ways_cell [OF t1] by (auto simp: no_bar_def)
  obtain v3 u3 w3 m3 where 3: "consumes m2 (''|'' @ v3 @ u3 @ w3) m3" "blank v3" "blank w3" "no_bar u3" "caps m3 = (caps m2)(3 \<mapsto> u3)" and
    t3: "t \<in> set (ways (cell 4 (Few (Cls not_bar)) (Cat bar (Cat sp Eol))) m3)"
    using ways_cell [OF t2] by (auto simp: no_bar_def)
  obtain v4 u4 w4 m4 where 4: "consumes m3 (''|'' @ v4 @ u4 @ w4) m4" "blank v4" "blank w4" "no_bar u4" "caps m4 = (caps m3)(4 \<mapsto> u4)" and
    t4: "t \<in> set (ways (Cat bar (Cat sp Eol)) m4)"
    using ways_cell [OF t3] by (auto simp: no_bar_def simp del: ways.simps)
  obtain w where w: "rest m4 = ''|'' @ w" "blank w" "caps t = caps m4"
  proof -
    obtain b m5 m6 u where b: "m5 \<in> set (ways bar m4)" "consumes m4 b m5" "b = ''|''" "m6 \<in> set (ways sp m5)" "consumes m5 u m6" "blank u"
      "t \<in> set (ways Eol m6)" using t4 by (elim ways_CatE) simp
    have "t = m6" "rest m6 = []" using b(7) by (auto split: if_splits)
    moreover have "caps m5 = caps m4" "caps m6 = caps m5" using no_cap_keeps [OF _ b(1)] no_cap_keeps [OF _ b(4)] by simp_all
    ultimately show ?thesis using that [of u] b by (simp add: consumes_def)
  qed
  have g: "group t 1 = u1" "group t 2 = u2" "group t 3 = u3" "group t 4 = u4"
    using w(3) 1(5) 2(5) 3(5) 4(5) by (simp_all add: group_def)
  have "rest s = row_text (v1 @ u1 @ w1) (v2 @ u2 @ w2) (v3 @ u3 @ w3) (v4 @ u4 @ w4) w"
    using 1(1) 2(1) 3(1) 4(1) w(1) s'(1) by (simp add: row_text_def consumes_def)
  then show ?thesis unfolding g unpads_def using 1 2 3 4 w(2) s'(2) by blast
qed

lemma row_matches:
  assumes "clause_name g1" "unpads c1 g1" "unpads c2 g2" "g2 \<noteq> []" "no_bar g2" "no_bar c3" "no_bar c4" "blank w"
  shows "matches rowPattern [] (row_text c1 c2 c3 c4 w) []"
proof -
  obtain v1 w1 v2 w2 where c: "c1 = v1 @ g1 @ w1" "blank v1" "blank w1" "c2 = v2 @ g2 @ w2" "blank v2" "blank w2"
    using assms(2,3) unfolding unpads_def by blast
  have n: "blank []" by (simp add: blank_def)
  have k5: "matches (Cat bar (Cat sp Eol)) p (''|'' @ w) []" for p
    using cat [of bar p "''|''" w "[]" "Cat sp Eol"] cat [of sp _ w "[]" "[]" Eol] assms(8) by simp
  have k4: "matches (cell 4 (Few (Cls not_bar)) (Cat bar (Cat sp Eol))) p (''|'' @ [] @ c4 @ [] @ ''|'' @ w) []" for p
    by (rule matches_cell [OF n n _ k5]) (use assms(7) in \<open>auto simp: no_bar_def\<close>)
  have k3: "matches (cell 3 (Few (Cls not_bar)) (cell 4 (Few (Cls not_bar)) (Cat bar (Cat sp Eol)))) p
      (''|'' @ [] @ c3 @ [] @ ''|'' @ [] @ c4 @ [] @ ''|'' @ w) []" for p
    by (rule matches_cell [OF n n _ k4]) (use assms(6) in \<open>auto simp: no_bar_def\<close>)
  have k2: "matches (cell 2 (Few1 (Cls not_bar)) (cell 3 (Few (Cls not_bar)) (cell 4 (Few (Cls not_bar)) (Cat bar (Cat sp Eol))))) p
      (''|'' @ v2 @ g2 @ w2 @ ''|'' @ [] @ c3 @ [] @ ''|'' @ [] @ c4 @ [] @ ''|'' @ w) []" for p
    by (rule matches_cell [OF c(5,6) _ k3]) (use assms(4,5) in \<open>auto simp: no_bar_def\<close>)
  have "matches (cell 1 (Cat (Cls (\<lambda>c. c = CHR ''F'')) (Many1 (Cls is_digit)))
      (cell 2 (Few1 (Cls not_bar)) (cell 3 (Few (Cls not_bar)) (cell 4 (Few (Cls not_bar)) (Cat bar (Cat sp Eol)))))) []
      (''|'' @ v1 @ g1 @ w1 @ ''|'' @ v2 @ g2 @ w2 @ ''|'' @ [] @ c3 @ [] @ ''|'' @ [] @ c4 @ [] @ ''|'' @ w) []"
    by (rule matches_cell [OF c(2,3) _ k2]) (use assms(1) in simp)
  then show ?thesis
    unfolding rowPattern_cells using cat [of Bol "[]" "[]" "row_text c1 c2 c3 c4 w" "[]"] by (simp add: row_text_def c)
qed

subsection \<open>The reference\<close>

text \<open>
  Without a regular expression: a row is a line of four cells between bars; its first cell is a clause up
  to white space, its second is not empty, and only white space follows the last bar.
\<close>

definition strip :: "string \<Rightarrow> string" where
  "strip s = rev (dropWhile rx_space (rev (dropWhile rx_space s)))"

definition row_cells :: "string \<Rightarrow> (string \<times> string \<times> string \<times> string) option" where
  "row_cells line =
     (case split_at (CHR ''|'') line of
        [a, c1, c2, c3, c4, w] \<Rightarrow>
          if a = [] \<and> clause_name (strip c1) \<and> c2 \<noteq> [] \<and> list_all rx_space w then Some (strip c1, c2, c3, c4) else None
      | _ \<Rightarrow> None)"

lemma strip_unpads: "unpads s (strip s)"
proof -
  have 1: "s = takeWhile rx_space s @ dropWhile rx_space s" by simp
  define t where "t = dropWhile rx_space s"
  have 2: "t = rev (dropWhile rx_space (rev t)) @ rev (takeWhile rx_space (rev t))"
    by (metis rev_append rev_rev_ident takeWhile_dropWhile_id)
  have "s = takeWhile rx_space s @ strip s @ rev (takeWhile rx_space (rev t))"
    using 1 2 by (simp add: strip_def t_def [symmetric])
  moreover have "blank (takeWhile rx_space s)" "blank (rev (takeWhile rx_space (rev t)))"
    by (auto simp: blank_def dest: set_takeWhileD)
  ultimately show ?thesis unfolding unpads_def by blast
qed

lemma dropWhile_pad: "blank w \<Longrightarrow> dropWhile rx_space (w @ s) = dropWhile rx_space s"
  by (simp add: blank_def dropWhile_append2)

lemma strip_pad:
  assumes "unpads c g" "clause_name g"
  shows "strip c = g"
proof -
  obtain w w' where c: "c = w @ g @ w'" "blank w" "blank w'" using assms(1) unfolding unpads_def by blast
  have digit: "\<not> rx_space x" if "is_digit x" for x using that unfolding is_digit_def rx_space_def by auto
  have g: "g \<noteq> []" "\<not> rx_space (hd g)" "\<not> rx_space (List.last g)"
    using assms(2) digit by (auto simp: clause_name_def rx_space_def split: list.splits)
  have "dropWhile rx_space c = g @ w'" using c g(1,2) by (cases g) (simp_all add: dropWhile_pad)
  moreover have "dropWhile rx_space (rev w' @ rev g) = rev g"
  proof -
    have "rev g = List.last g # rev (butlast g)" using g(1) by (metis append_butlast_last_id rev_eq_Cons_iff rev_rev_ident)
    then have "dropWhile rx_space (rev g) = rev g" using g(3) by (metis dropWhile.simps(2))
    then show ?thesis using c(3) dropWhile_pad [of "rev w'" "rev g"] by (simp add: blank_def)
  qed
  ultimately show ?thesis by (simp add: strip_def)
qed

lemma split_at_row:
  assumes "no_bar c1" "no_bar c2" "no_bar c3" "no_bar c4" "no_bar w"
  shows "split_at (CHR ''|'') (row_text c1 c2 c3 c4 w) = [[], c1, c2, c3, c4, w]"
proof -
  have s: "split_at (CHR ''|'') (c @ ''|'' @ v) = c # split_at (CHR ''|'') v" if "no_bar c" for c v
    using that by (subst split_at_prefix) (auto simp: no_bar_def not_bar_def)
  have "split_at (CHR ''|'') w = [w]" using assms(5) split_at_prefix [of "CHR ''|''" w "[]"] by (auto simp: no_bar_def not_bar_def)
  then show ?thesis using assms by (simp add: row_text_def s [simplified])
qed

lemma split_at_join: "join [c] (split_at c s) = s"
proof (induction s)
  case (Cons x s)
  then show ?case by (cases "split_at c s"; cases "tl (split_at c s)") auto
qed simp

lemma split_at_free: "p \<in> set (split_at c s) \<Longrightarrow> c \<notin> set p"
  by (induction s arbitrary: p) (auto split: if_splits list.splits)

lemma no_bar_iff: "no_bar s \<longleftrightarrow> CHR ''|'' \<notin> set s"
  by (auto simp: no_bar_def not_bar_def)

lemma blank_no_bar: "blank w \<Longrightarrow> no_bar w"
  unfolding no_bar_iff by (rule blank_free) (simp add: rx_space_def)

lemma unpads_no_bar: "unpads c g \<Longrightarrow> no_bar g \<Longrightarrow> no_bar c"
  using blank_no_bar by (auto simp: unpads_def no_bar_iff)

lemma clause_no_bar: "clause_name g \<Longrightarrow> no_bar g"
  by (auto simp: clause_name_def no_bar_iff is_digit_def split: list.splits)

text \<open>What the later steps make of a cell does not depend on the white space around it.\<close>

lemma row_of_unpads:
  assumes "unpads c2 g2" "unpads c3 g3" "unpads c4 g4"
  shows "row_of lower n g1 g2 g3 g4 = row_of lower n g1 c2 c3 c4"
proof -
  have t: "TrimSpace c = TrimSpace g" "splitNames c = splitNames g" if "unpads c g" for c g
    using that splitNames_pad by (auto simp: unpads_def)
  show ?thesis
    by (simp only: row_of_def t [OF assms(1)] t [OF assms(2)] t [OF assms(3)])
qed

lemma row_cells_text:
  assumes "row_cells line = Some (c, c2, c3, c4)"
  shows "\<exists>c1 w. line = row_text c1 c2 c3 c4 w \<and> strip c1 = c \<and> clause_name c \<and> c2 \<noteq> [] \<and> blank w \<and> no_bar c2 \<and> no_bar c3 \<and> no_bar c4"
proof -
  obtain c1 w where s: "split_at (CHR ''|'') line = [[], c1, c2, c3, c4, w]" and c: "strip c1 = c" "clause_name c" "c2 \<noteq> []" "list_all rx_space w"
    using assms by (auto simp: row_cells_def split: list.splits if_splits)
  have "line = join ''|'' [[], c1, c2, c3, c4, w]" using split_at_join [of "CHR ''|''" line] s by simp
  moreover have "CHR ''|'' \<notin> set p" if "p \<in> {c2, c3, c4}" for p using split_at_free [of p "CHR ''|''" line] s that by auto
  ultimately show ?thesis using c by (auto simp: row_text_def no_bar_iff blank_def list_all_iff)
qed

lemma row_reference:
  "case row_cells line of
     None \<Rightarrow> FindStringSubmatch rowPattern line = None
   | Some (c, c2, c3, c4) \<Rightarrow>
       (\<exists>m. FindStringSubmatch rowPattern line = Some m \<and> row_of lower n (m 1) (m 2) (m 3) (m 4) = row_of lower n c c2 c3 c4)"
proof -
  have found: "\<exists>c2 c3 c4. row_cells line = Some (m 1, c2, c3, c4) \<and> row_of lower n (m 1) (m 2) (m 3) (m 4) = row_of lower n (m 1) c2 c3 c4"
    if f: "FindStringSubmatch rowPattern line = Some m" for m
  proof -
    obtain h t where ht: "find_from rowPattern [] line = Some (h, t)" "m = group t" using f by (auto simp: FindStringSubmatch_def)
    obtain a where a: "line = a @ rest h" "before h = rev a" "t \<in> set (ways rowPattern h)" using find_from_Some [OF ht(1)] by auto
    obtain c1 c2 c3 c4 w where r: "before h = []" "rest h = row_text c1 c2 c3 c4 w" "blank w" "unpads c1 (m 1)" "clause_name (m 1)"
      "unpads c2 (m 2)" "m 2 \<noteq> []" "no_bar (m 2)" "unpads c3 (m 3)" "no_bar (m 3)" "unpads c4 (m 4)" "no_bar (m 4)"
      using row_ways [OF a(3)] ht(2) by blast
    have "line = row_text c1 c2 c3 c4 w" using a r(1,2) by simp
    moreover have "c2 \<noteq> []" using r(6,7) by (auto simp: unpads_def)
    ultimately have "row_cells line = Some (m 1, c2, c3, c4)"
      using split_at_row [of c1 c2 c3 c4 w] r strip_pad unpads_no_bar clause_no_bar blank_no_bar
      by (auto simp: row_cells_def blank_def list_all_iff)
    then show ?thesis using row_of_unpads r by blast
  qed
  show ?thesis
  proof (cases "row_cells line")
    case None
    then show ?thesis using found by (cases "FindStringSubmatch rowPattern line") auto
  next
    case (Some x)
    obtain c c2 c3 c4 where x: "x = (c, c2, c3, c4)" by (cases x)
    obtain c1 w where l: "line = row_text c1 c2 c3 c4 w" "strip c1 = c" "clause_name c" "c2 \<noteq> []" "blank w" "no_bar c2" "no_bar c3" "no_bar c4"
      using row_cells_text [OF Some [unfolded x]] by blast
    have "unpads c2 c2" unfolding unpads_def by (intro exI [of _ "[]"]) (simp add: blank_def)
    then have "matches rowPattern [] line []" unfolding l(1) using row_matches l strip_unpads by blast
    then have "MatchString rowPattern line" unfolding MatchString_iff by (intro exI [of _ "[]"] exI [of _ line]) simp
    then obtain m where "FindStringSubmatch rowPattern line = Some m" by (auto simp: MatchString_def FindStringSubmatch_def)
    then show ?thesis using found Some x by auto
  qed
qed

text \<open>Reading the record row by row, from the cells.\<close>

fun cell_rows :: "(string \<Rightarrow> string) \<Rightarrow> nat \<Rightarrow> string list \<Rightarrow> recordRow list" where
  "cell_rows lower n [] = []"
| "cell_rows lower n (line # ls) =
     (case row_cells line of
        None \<Rightarrow> cell_rows lower (Suc n) ls
      | Some (c, c2, c3, c4) \<Rightarrow> row_of lower n c c2 c3 c4 # cell_rows lower (Suc n) ls)"

lemma parse_rows_cells: "parse_rows lower n ls = cell_rows lower n ls"
proof (induction ls arbitrary: n)
  case (Cons line ls)
  then show ?case using row_reference [of line lower n] by (auto split: option.splits)
qed simp

text \<open>
  The record is read as a table. What the row pattern, with its lazy groups, makes of a file is what
  one gets by cutting every line at its bars: a row is a line of exactly four cells whose first cell is a
  clause and whose second is not empty, and the white space around a cell does not matter.
\<close>

theorem ParseRecord_is_a_table:
  "ParseRecord lower co = map_option (\<lambda>body. cell_rows lower 1 (split_at (CHR 0x0A) body)) (read_text co ui_RecordFile)"
  by (simp add: ParseRecord_def parse_rows_cells)

section \<open>What a record that holds says\<close>

lemma row_clause: "Row_Clause (row_of lower n c s a x) = c"
  by (simp add: row_of_def Let_def split: option.splits)

lemma parsed_clause: "row \<in> set (parse_rows lower n ls) \<Longrightarrow> clause_name (Row_Clause row)"
proof (induction ls arbitrary: n)
  case (Cons l ls)
  then show ?case
    by (auto simp: parse_rows_cells row_clause dest!: row_cells_text split: option.splits)
qed simp

lemma Clauses_named: "c \<in> set Clauses \<Longrightarrow> no_bar c"
  by (auto simp: Clauses_def no_bar_iff)

lemma pair_key_inj: "no_bar c \<Longrightarrow> no_bar c' \<Longrightarrow> pair_key c s = pair_key c' s' \<Longrightarrow> c = c' \<and> s = s'"
  using append_stop_unique [of c "CHR ''|''" s c' s'] by (simp add: pair_key_def no_bar_iff)

lemma by_pair_sound:
  "by_pair m rows = (m', []) \<Longrightarrow>
     distinct (map row_key rows) \<and> (\<forall>row \<in> set rows. m (row_key row) = None)
   \<and> (\<forall>k row. m' k = Some row \<longrightarrow> m k = Some row \<or> row \<in> set rows \<and> row_key row = k)"
proof (induction rows arbitrary: m)
  case (Cons row rows)
  then have new: "m (row_key row) = None" "by_pair (m(row_key row \<mapsto> row)) rows = (m', [])" by (auto split: if_splits prod.splits)
  show ?case using Cons.IH [OF new(2)] new(1) by (auto split: if_splits)
qed auto

text \<open>How a row answers its clause: an exemption alone, or assertions alone, all of which ran and were shown able to fail.\<close>

definition answered :: "surfaceRun \<Rightarrow> recordRow \<Rightarrow> bool" where
  "answered sr row \<longleftrightarrow>
     DeferredTo row = [] \<and>
     (Assertions row = [] \<and> Exemption row \<noteq> []
      \<or> Assertions row \<noteq> [] \<and> Exemption row = [] \<and> set (Assertions row) \<subseteq> set (Run_Ran sr) \<inter> set (Run_Demonstrated sr))"

lemma pair_problems_none:
  assumes "fst (pair_problems m rans (c, s)) = []"
  shows "\<exists>row. m (pair_key c s) = Some row \<and> answered (rans s) row"
proof -
  obtain row where row: "m (pair_key c s) = Some row" using assms by (auto simp: pair_problems_def split: option.splits)
  have "deferralProblems k row sr \<noteq> []" for k sr by (simp add: deferralProblems_def splitPairs_def Let_def)
  then have d: "DeferredTo row = []" using assms row by (auto simp: pair_problems_def split: if_splits)
  let ?place = "c @ '' on the '' @ s @ '' (line '' @ show_nat (Row_Line row) @ '')''"
  have "fst (pair_problems m rans (c, s)) =
      (if Assertions row = [] \<and> Exemption row = [] then [?place @ '' names neither an assertion, an exemption nor a deferral'']
       else if Assertions row \<noteq> [] \<and> Exemption row \<noteq> [] then [?place @ '' carries BOTH an assertion and an exemption'']
       else []) @ concat (map (assertion_problem ?place s (rans s)) (Assertions row))"
    by (simp only: pair_problems_def row d Let_def option.case prod.case fst_conv simp_thms if_False)
  then have e: "\<not> (Assertions row = [] \<and> Exemption row = [])" "\<not> (Assertions row \<noteq> [] \<and> Exemption row \<noteq> [])"
    "\<forall>a \<in> set (Assertions row). assertion_problem ?place s (rans s) a = []"
    using assms by (auto simp del: append.simps split: if_splits)
  have "a \<in> set (Run_Ran (rans s)) \<inter> set (Run_Demonstrated (rans s))" if "assertion_problem ?place s (rans s) a = []" for a
    using that unfolding assertion_problem_def by (metis IntI list.distinct(1))
  then show ?thesis using row d e by (auto simp: answered_def)
qed

text \<open>No case of the suite is parked: nothing owns one.\<close>

definition parks_nothing :: "checkout \<Rightarrow> bool" where
  "parks_nothing co \<longleftrightarrow>
     (\<exists>body. read_text co parkedSuite = Some body \<and> (\<forall>l \<in> set (split_at (CHR 0x0A) body). \<not> MatchString ignoreDirective l))"

lemma parked_cases_Nil: "parked_cases n ls = Inr [] \<Longrightarrow> \<forall>l \<in> set ls. \<not> MatchString ignoreDirective l"
proof (induction ls arbitrary: n)
  case (Cons l ls)
  then show ?case by (cases "parked_cases (Suc n) ls") (auto split: if_splits option.splits)
qed simp

lemma parkedSuite_clean: "parkedSuiteProblems rd co deferred = [] \<Longrightarrow> parks_nothing co"
proof -
  assume c: "parkedSuiteProblems rd co deferred = []"
  then obtain body ignored where b: "read_text co parkedSuite = Some body" "parked_cases 1 (split_at (CHR 0x0A) body) = Inr ignored"
    by (auto simp: parkedSuiteProblems_def split: option.splits sum.splits)
  have "parked_problem ignored x \<noteq> []" for x by (simp add: parked_problem_def splitPairs_def Let_def)
  then have "remdups (map fst ignored) = []"
    using c b by (cases "remdups (map fst ignored)") (auto simp: parkedSuiteProblems_def Let_def)
  then have "ignored = []" by simp
  then show ?thesis using b parked_cases_Nil unfolding parks_nothing_def by blast
qed

text \<open>
  C31: A record that holds is an account of the surfaces. When the record check reports nothing, no pair of
  clause and surface is recorded twice; every clause has exactly one row on either surface, and that row is
  an exemption, or it names assertions, every one of which passed in the last run of that surface's route
  and was shown able to fail there; nothing is deferred; no case of the emulator's suite is ignored; and
  when the one clause about browser policy is exempt on the phone, no source of the app has a web view.
\<close>

theorem record_holds:
  assumes "ui_CheckRecord rd co = None"
  shows "\<exists>rows rans. ParseRecord (ui_lower rd) co = Some rows \<and> assertionsThatRan rd co = Inr rans
    \<and> distinct (map row_key rows)
    \<and> (\<forall>c \<in> set Clauses. \<forall>s \<in> set Surfaces. \<exists>row \<in> set rows. Row_Clause row = c \<and> Row_Surface row = s \<and> answered (rans s) row
          \<and> (c = ''F11'' \<and> s = AndroidSurface \<and> Exemption row \<noteq> [] \<longrightarrow> androidRendersAWebView co = None))
    \<and> parks_nothing co"
proof -
  obtain rows rans m twice where p: "ParseRecord (ui_lower rd) co = Some rows" "assertionsThatRan rd co = Inr rans"
    and b: "by_pair Map.empty rows = (m, twice)"
    using assms by (cases "by_pair Map.empty (the (ParseRecord (ui_lower rd) co))") (auto simp: ui_CheckRecord_def split: option.splits sum.splits)
  let ?judged = "map (pair_problems m rans) all_pairs"
  have none: "twice = []" "concat (map fst ?judged) = []" "parkedSuiteProblems rd co (concat (map snd ?judged)) = []" "exemption_problems rd co m = []"
    using assms p b by (simp_all add: ui_CheckRecord_def Let_def split: if_splits)
  note bp = by_pair_sound [OF b [unfolded none(1)]]
  have "\<exists>row \<in> set rows. Row_Clause row = c \<and> Row_Surface row = s \<and> answered (rans s) row
      \<and> (c = ''F11'' \<and> s = AndroidSurface \<and> Exemption row \<noteq> [] \<longrightarrow> androidRendersAWebView co = None)"
    if cs: "c \<in> set Clauses" "s \<in> set Surfaces" for c s
  proof -
    have "(c, s) \<in> set all_pairs" using cs by (auto simp: all_pairs_def)
    then have "fst (pair_problems m rans (c, s)) = []" using none(2) by auto
    then obtain row where row: "m (pair_key c s) = Some row" "answered (rans s) row" using pair_problems_none by blast
    then have r: "row \<in> set rows" "row_key row = pair_key c s" using bp by auto
    then have "clause_name (Row_Clause row)" using p(1) parsed_clause by (auto simp: ParseRecord_def)
    then have "Row_Clause row = c \<and> Row_Surface row = s"
      using r(2) pair_key_inj [of "Row_Clause row" c] clause_no_bar Clauses_named [OF cs(1)] by (simp add: row_key_def)
    moreover have "androidRendersAWebView co = None" if "c = ''F11''" "s = AndroidSurface" "Exemption row \<noteq> []"
      using none(4) row(1) that by (auto simp: exemption_problems_def split: option.splits sum.splits)
    ultimately show ?thesis using r(1) row(2) by blast
  qed
  then show ?thesis using p bp parkedSuite_clean [OF none(3)] by blast
qed

text \<open>A checkout whose record holds: every clause is answered by one assertion on either surface.\<close>

definition sample_suite :: string where
  "sample_suite = ''    @Test'' @ nl @ ''    fun A() {'' @ nl @ ''    }''"

definition sample_line :: "string \<times> string \<Rightarrow> string" where
  "sample_line = (\<lambda>(c, s). row_text ('' '' @ c @ '' '') ('' '' @ s @ '' '') '' `A` '' '' - '' [])"

definition sample_record :: string where
  "sample_record = concat (map (\<lambda>l. l @ nl) (map sample_line all_pairs))"

fun sample_rows_from :: "nat \<Rightarrow> (string \<times> string) list \<Rightarrow> recordRow list" where
  "sample_rows_from n [] = []"
| "sample_rows_from n ((c, s) # ps) =
     \<lparr>Row_Clause = c, Row_Surface = s, Assertions = [''A''], Exemption = [], DeferredTo = [], Deferred = [], Row_Line = n\<rparr>
     # sample_rows_from (Suc n) ps"

definition sample_rows :: "recordRow list" where "sample_rows = sample_rows_from 1 all_pairs"

definition sample_results :: node where
  "sample_results = Directory (Some (put_node (split_at (CHR ''/'') (resultsDir @ ''/TEST.xml'')) (plain_file ''report'') []))"

definition record_checkout :: checkout where
  "record_checkout = \<lparr>co_name = ''tracker'', co_tree = Tree sample_results,
     co_read = (\<lambda>p. if p = ui_RecordFile then Contents sample_record else if p = parkedSuite then Contents sample_suite
                 else if p = runsDir @ ''/last-run-web.json'' \<or> p = resultsDir @ ''/TEST.xml'' then Contents ''report'' else Absent),
     co_stat = (\<lambda>_. True), co_worktree = True, co_tracked = (\<lambda>_. True), co_ignored = (\<lambda>_. False)\<rparr>"

definition sample_readers :: readers where
  "sample_readers = \<lparr>decode_run = (\<lambda>_. Some \<lparr>Rec_Surface = ''web'', Ran = [''A''], Rec_Demonstrated = [''A'']\<rparr>),
     decode_junit = (\<lambda>_. Some [\<lparr>tc_Name = ''A'', tc_Failure = False, tc_Skipped = False\<rparr>,
       \<lparr>tc_Name = ''A_demonstration'', tc_Failure = False, tc_Skipped = False\<rparr>]),
     read_error = (\<lambda>_. []), ui_lower = to_lower\<rparr>"

lemma split_lines: "\<forall>l \<in> set ls. CHR 0x0A \<notin> set l \<Longrightarrow> split_at (CHR 0x0A) (concat (map (\<lambda>l. l @ nl) ls)) = ls @ [[]]"
  by (induction ls) (auto simp: split_at_prefix nl_def)

lemma Surfaces_cases: "s \<in> set Surfaces \<Longrightarrow> no_bar s \<and> s \<noteq> [] \<and> visible (hd s) \<and> visible (List.last s) \<and> to_lower s = s \<and> CHR 0x0A \<notin> set s"
proof -
  have "to_lower BrowserSurface = BrowserSurface" "to_lower AndroidSurface = AndroidSurface" by code_simp+
  then show "s \<in> set Surfaces \<Longrightarrow> ?thesis"
    by (auto simp: Surfaces_def BrowserSurface_def AndroidSurface_def no_bar_iff visible_def)
qed

lemma Clauses_cases: "c \<in> set Clauses \<Longrightarrow> clause_name c \<and> CHR 0x0A \<notin> set c"
  by (auto simp: Clauses_def clause_name_def is_digit_def)

lemma blank_space: "blank '' ''"
  by (simp add: blank_def rx_space_def)

lemma sample_cells:
  assumes "c \<in> set Clauses" "s \<in> set Surfaces"
  shows "row_cells (sample_line (c, s)) = Some (c, '' '' @ s @ '' '', '' `A` '', '' - '')"
proof -
  have "unpads ('' '' @ c @ '' '') c" using blank_space unfolding unpads_def by blast
  then have "strip ('' '' @ c @ '' '') = c" "clause_name c" "no_bar ('' '' @ c @ '' '')" "no_bar ('' '' @ s @ '' '')"
    using Clauses_cases [OF assms(1)] strip_pad clause_no_bar Surfaces_cases [OF assms(2)] by (auto simp: no_bar_iff)
  then show ?thesis
    using split_at_row [of "'' '' @ c @ '' ''" "'' '' @ s @ '' ''" "'' `A` ''" "'' - ''" "[]"]
    by (simp add: row_cells_def sample_line_def no_bar_iff)
qed

lemma sample_row:
  assumes "s \<in> set Surfaces"
  shows "row_of to_lower n c ('' '' @ s @ '' '') '' `A` '' '' - '' =
    \<lparr>Row_Clause = c, Row_Surface = s, Assertions = [''A''], Exemption = [], DeferredTo = [], Deferred = [], Row_Line = n\<rparr>"
proof -
  have "TrimSpace '' - '' = ''-''" by code_simp
  moreover have "TrimPrefix_opt (TrimSpace '' `A` '') deferralPrefix = None" by code_simp
  moreover have "splitNames '' `A` '' = [''A'']"
  proof -
    have "TrimSpace '' `A` '' = ''`A`''" "TrimSpace ''A'' = ''A''" by code_simp+
    then show ?thesis by (simp add: splitNames_def strings_Trim_def)
  qed
  moreover have "TrimSpace ('' '' @ s @ '' '') = s"
    using Surfaces_cases [OF assms] by (intro TrimSpace_padded) (auto simp: ascii_space_def Let_def)
  ultimately show ?thesis using Surfaces_cases [OF assms] by (simp add: row_of_def Let_def)
qed

lemma sample_parsed_from:
  "\<forall>(c, s) \<in> set ps. c \<in> set Clauses \<and> s \<in> set Surfaces \<Longrightarrow>
     cell_rows to_lower n (map sample_line ps @ [[]]) = sample_rows_from n ps"
proof (induction ps arbitrary: n)
  case Nil
  have "row_cells [] = None" by (simp add: row_cells_def)
  then show ?case by simp
next
  case (Cons p ps)
  then show ?case using sample_cells sample_row by (cases p) auto
qed

lemma all_pairs_mem: "(c, s) \<in> set all_pairs \<longleftrightarrow> c \<in> set Clauses \<and> s \<in> set Surfaces"
  by (auto simp: all_pairs_def)

lemma sample_parsed: "ParseRecord to_lower record_checkout = Some sample_rows"
proof -
  have "CHR 0x0A \<notin> set (sample_line p)" if "p \<in> set all_pairs" for p
  proof -
    obtain c s where p: "p = (c, s)" by (cases p)
    then have "CHR 0x0A \<notin> set c" "CHR 0x0A \<notin> set s" using that all_pairs_mem Clauses_cases Surfaces_cases by blast+
    then show ?thesis using p by (simp add: sample_line_def row_text_def)
  qed
  then have "split_at (CHR 0x0A) sample_record = map sample_line all_pairs @ [[]]"
    unfolding sample_record_def by (intro split_lines) auto
  moreover have "cell_rows to_lower 1 (map sample_line all_pairs @ [[]]) = sample_rows"
    unfolding sample_rows_def by (rule sample_parsed_from) (use all_pairs_mem in blast)
  ultimately show ?thesis by (simp add: ParseRecord_def parse_rows_cells record_checkout_def read_text_def)
qed

lemma sample_ran:
  "assertionsThatRan sample_readers record_checkout =
     Inr (\<lambda>s. if s = AndroidSurface \<or> s = BrowserSurface then \<lparr>Run_Ran = [''A''], Run_Demonstrated = [''A'']\<rparr> else \<lparr>Run_Ran = [], Run_Demonstrated = []\<rparr>)"
proof -
  have "androidRun sample_readers record_checkout = Inr \<lparr>Run_Ran = [''A''], Run_Demonstrated = [''A'']\<rparr>" by code_simp
  moreover have "read_text record_checkout (runsDir @ ''/last-run-web.json'') = Some ''report''" by code_simp
  ultimately show ?thesis by (auto simp: assertionsThatRan_def sample_readers_def)
qed

lemma sample_holds: "ui_CheckRecord sample_readers record_checkout = None"
proof -
  let ?rans = "\<lambda>s. if s = AndroidSurface \<or> s = BrowserSurface then \<lparr>Run_Ran = [''A''], Run_Demonstrated = [''A'']\<rparr> else \<lparr>Run_Ran = [], Run_Demonstrated = []\<rparr>"
  have twice: "snd (by_pair Map.empty sample_rows) = []" by code_simp
  have judged: "map (pair_problems (fst (by_pair Map.empty sample_rows)) ?rans) all_pairs = replicate 22 ([], [])" by code_simp
  have parked: "parkedSuiteProblems sample_readers record_checkout [] = []" by code_simp
  have exempt: "exemption_problems sample_readers record_checkout (fst (by_pair Map.empty sample_rows)) = []" by code_simp
  have low: "ui_lower sample_readers = to_lower" by (simp add: sample_readers_def)
  have "concat (map fst (replicate 22 ([] :: string list, [] :: string list))) = []" "concat (map snd (replicate 22 ([] :: string list, [] :: string list))) = []"
    by simp_all
  then show ?thesis
    by (simp only: ui_CheckRecord_def low sample_parsed sample_ran option.case sum.case split_beta Let_def judged twice parked exempt append.simps simp_thms if_True)
qed

theorem record_holds_witness:
  "\<exists>rows rans. ParseRecord (ui_lower sample_readers) record_checkout = Some rows \<and> assertionsThatRan sample_readers record_checkout = Inr rans
    \<and> distinct (map row_key rows)
    \<and> (\<forall>c \<in> set Clauses. \<forall>s \<in> set Surfaces. \<exists>row \<in> set rows. Row_Clause row = c \<and> Row_Surface row = s \<and> answered (rans s) row
          \<and> (c = ''F11'' \<and> s = AndroidSurface \<and> Exemption row \<noteq> [] \<longrightarrow> androidRendersAWebView record_checkout = None))
    \<and> parks_nothing record_checkout"
  by (rule record_holds [OF sample_holds])

section \<open>What a green emulator route shows\<close>

text \<open>A report on disk has a case of this name that neither failed nor was skipped.\<close>

definition passed_case :: "readers \<Rightarrow> checkout \<Rightarrow> string \<Rightarrow> bool" where
  "passed_case rd co name \<longleftrightarrow>
     (\<exists>p body tcs tc. read_text co p = Some body \<and> decode_junit rd body = Some tcs \<and> tc \<in> set tcs
        \<and> tc_Name tc = name \<and> \<not> tc_Failure tc \<and> \<not> tc_Skipped tc)"

lemma CutSuffix_Some: "CutSuffix s suf = Some t \<Longrightarrow> s = t @ suf"
  by (auto simp: CutSuffix_def has_suffix_def split: if_splits) (metis append_take_drop_id)

lemma count_cases_sound:
  "(a \<in> set (Run_Ran (count_cases tcs sr)) \<longrightarrow> a \<in> set (Run_Ran sr) \<or> (\<exists>tc \<in> set tcs. tc_Name tc = a \<and> \<not> tc_Failure tc \<and> \<not> tc_Skipped tc))
   \<and> (a \<in> set (Run_Demonstrated (count_cases tcs sr)) \<longrightarrow>
        a \<in> set (Run_Demonstrated sr) \<or> (\<exists>tc \<in> set tcs. tc_Name tc = a @ DemonstrationSuffix \<and> \<not> tc_Failure tc \<and> \<not> tc_Skipped tc))"
proof (induction tcs arbitrary: sr)
  case (Cons tc tcs)
  show ?case
  proof (cases "tc_Failure tc \<or> tc_Skipped tc")
    case True
    then show ?thesis using Cons [of sr] by auto
  next
    case False
    then show ?thesis
    proof (cases "CutSuffix (tc_Name tc) DemonstrationSuffix")
      case None
      then show ?thesis using False Cons [of "sr\<lparr>Run_Ran := List.insert (tc_Name tc) (Run_Ran sr)\<rparr>"] by auto
    next
      case (Some claim)
      then show ?thesis
        using False Cons [of "sr\<lparr>Run_Demonstrated := List.insert claim (Run_Demonstrated sr)\<rparr>"] CutSuffix_Some [OF Some] by auto
    qed
  qed
qed simp

lemma count_files_sound:
  assumes "count_files rd co ps sr = Inr sr'"
    and "\<And>a. a \<in> set (Run_Ran sr) \<Longrightarrow> passed_case rd co a"
    and "\<And>a. a \<in> set (Run_Demonstrated sr) \<Longrightarrow> passed_case rd co (a @ DemonstrationSuffix)"
  shows "(a \<in> set (Run_Ran sr') \<longrightarrow> passed_case rd co a) \<and> (a \<in> set (Run_Demonstrated sr') \<longrightarrow> passed_case rd co (a @ DemonstrationSuffix))"
  using assms
proof (induction rd co ps sr rule: count_files.induct)
  case (2 rd co p ps sr)
  obtain body where b: "read_text co p = Some body" using 2(2) by (auto split: option.splits)
  show ?case
  proof (cases "decode_junit rd body")
    case None
    then show ?thesis using 2 b by simp
  next
    case (Some tcs)
    have "passed_case rd co x" if "x \<in> set (Run_Ran (count_cases tcs sr))" for x
      using count_cases_sound [of x tcs sr] that 2(3) b Some unfolding passed_case_def by blast
    moreover have "passed_case rd co (x @ DemonstrationSuffix)" if "x \<in> set (Run_Demonstrated (count_cases tcs sr))" for x
      using count_cases_sound [of x tcs sr] that 2(4) b Some unfolding passed_case_def by blast
    ultimately show ?thesis using 2(1) [OF b] 2(2) b Some by simp
  qed
qed simp

lemma androidRun_sound:
  assumes "androidRun rd co = Inr sr"
  shows "a \<in> set (Run_Ran sr) \<Longrightarrow> passed_case rd co a" "a \<in> set (Run_Demonstrated sr) \<Longrightarrow> passed_case rd co (a @ DemonstrationSuffix)"
  using assms count_files_sound [of rd co _ "\<lparr>Run_Ran = [], Run_Demonstrated = []\<rparr>" sr a]
  by (auto simp: androidRun_def split: option.splits node.splits sum.splits)

lemma set_sort_strings [simp]: "set (sort_strings xs) = set xs"
  by (metis mset_eq_setD mset_stable_sort sort_strings_def)

text \<open>
  A green emulator route graded what the record names. When the count reports nothing, every assertion
  that the record names on the phone's screen has a passing case in a report on disk, and so has its
  demonstration; no case of the suite is ignored, no claim of the suite was taken on a mutated screen, and
  the evidence log carries a line for every marker and at least a hundred measurements.
\<close>

theorem android_route_green:
  assumes "CheckAndroidRun rd co = None"
  shows "\<exists>rows body evidence. ParseRecord (ui_lower rd) co = Some rows
    \<and> (\<exists>row \<in> set rows. Row_Surface row = AndroidSurface \<and> Assertions row \<noteq> [])
    \<and> (\<forall>row \<in> set rows. Row_Surface row = AndroidSurface \<longrightarrow>
         (\<forall>a \<in> set (Assertions row). passed_case rd co a \<and> passed_case rd co (a @ DemonstrationSuffix)))
    \<and> parks_nothing co
    \<and> read_text co parkedSuite = Some body \<and> claim_blocks body \<noteq> [] \<and> (\<forall>(name, block) \<in> set (claim_blocks body). \<not> contains block ''UiMutation.'')
    \<and> read_text co EvidenceLog = Some evidence \<and> list_all (contains evidence) evidenceMarkers
    \<and> 100 \<le> length (filter (\<lambda>line. contains line ''contrast='') (split_at (CHR 0x0A) evidence))"
proof -
  obtain rows sr where p: "ParseRecord (ui_lower rd) co = Some rows" "recordedAssertions rows AndroidSurface \<noteq> []" "androidRun rd co = Inr sr"
    using assms by (auto simp: CheckAndroidRun_def Let_def split: option.splits sum.splits if_splits)
  have clean: "ran_problems (recordedAssertions rows AndroidSurface) sr = []" and none:
    "parkedSuiteProblems rd co (deferredAssertions rows) = []" "unmutatedClaimProblems rd co = []" "gradingEvidenceProblems rd co = []"
    using assms p by (simp_all add: CheckAndroidRun_def Let_def split: if_splits)
  have "filter (\<lambda>a. a \<notin> set (Run_Ran sr)) (recordedAssertions rows AndroidSurface) = []"
    "filter (\<lambda>a. a \<notin> set (Run_Demonstrated sr)) (sort_strings (Run_Ran sr)) = []"
    using clean unfolding ran_problems_def append_is_Nil_conv map_is_Nil_conv by blast+
  note none = this none
  have rec: "set (recordedAssertions rows AndroidSurface) = (\<Union>row \<in> {row \<in> set rows. Row_Surface row = AndroidSurface}. set (Assertions row))"
    by (auto simp: recordedAssertions_def)
  have "a \<in> set (Run_Ran sr) \<and> a \<in> set (Run_Demonstrated sr)" if "a \<in> set (recordedAssertions rows AndroidSurface)" for a
    using none(1,2) that by (auto simp: filter_empty_conv)
  then have asserted: "\<forall>row \<in> set rows. Row_Surface row = AndroidSurface \<longrightarrow>
      (\<forall>a \<in> set (Assertions row). passed_case rd co a \<and> passed_case rd co (a @ DemonstrationSuffix))"
    using androidRun_sound [OF p(3)] rec by blast
  obtain a where "a \<in> set (recordedAssertions rows AndroidSurface)" using p(2) by (meson last_in_set)
  then have "\<exists>row \<in> set rows. Row_Surface row = AndroidSurface \<and> Assertions row \<noteq> []" using rec by force
  moreover obtain body where "read_text co parkedSuite = Some body" "claim_blocks body \<noteq> []"
    "\<forall>(name, block) \<in> set (claim_blocks body). \<not> contains block ''UiMutation.''"
    using none(4) by (auto simp: unmutatedClaimProblems_def filter_empty_conv split: option.splits if_splits)
  moreover obtain evidence where "read_text co EvidenceLog = Some evidence" "list_all (contains evidence) evidenceMarkers"
    "100 \<le> length (filter (\<lambda>line. contains line ''contrast='') (split_at (CHR 0x0A) evidence))"
    using none(5) by (auto simp: gradingEvidenceProblems_def filter_empty_conv list_all_iff minimumMeasurementLines_def Let_def split: option.splits if_splits)
  ultimately show ?thesis using p(1) asserted parkedSuite_clean [OF none(3)] by blast
qed

end
