(* ===== verification/UiClaims.thy ===== *)
theory UiClaims
  imports UiChecks UiRecord
begin

text \<open>
  The seventeen checks of the map page, \<open>Checks\<close> of \<open>internal/uiverify/checks.go\<close>, in the tabbed of the file, each
  a run on the engine of \<open>UiChecks\<close> and the mutation that has to turn it red; and what a run that passes has
  seen. The message of a failure is the fixed text of the source without the readings it prints.
\<close>

named_theorems ui_passes \<open>when a run of a check succeeds\<close>

section \<open>Shared\<close>

definition for_each :: "('a \<Rightarrow> ('b, unit) drive) \<Rightarrow> 'a list \<Rightarrow> ('b, unit) drive" where
  "for_each f xs = steps (map f xs)"

definition annotate :: "string \<Rightarrow> ('b, 'a) drive \<Rightarrow> ('b, 'a) drive" where
  "annotate pre m = (\<lambda>w. case m w of (Inl e, w') \<Rightarrow> (Inl (pre @ e), w') | (Inr a, w') \<Rightarrow> (Inr a, w'))"

definition host_clock :: "('b, instant) drive" where "host_clock = (\<lambda>w. (Inr (snd (fst w)), w))"

definition sleep :: "'b engine \<Rightarrow> nat \<Rightarrow> ('b, unit) drive" where "sleep E n = (\<lambda>w. (Inr (), doze E n w))"

text \<open>A run as \<open>UiRoute\<close> grades it: an error or none, and the state it leaves.\<close>

definition judged :: "('b, unit) drive \<Rightarrow> 'b site \<Rightarrow> string option \<times> 'b site" where
  "judged m w = (case m w of (Inl e, w') \<Rightarrow> (Some e, w') | (Inr _, w') \<Rightarrow> (None, w'))"

definition source_mutation :: "string \<Rightarrow> string \<Rightarrow> string \<Rightarrow> Mutation" where
  "source_mutation i old new =
     \<lparr>Mut_ID = i, Mut_Path = [], Find = old, Replace = new, CSPFind = [], CSPReplace = [], DropHeader = []\<rparr>"

definition ui_check :: "string \<Rightarrow> string \<Rightarrow> Mutation \<Rightarrow> ('b, unit) drive \<Rightarrow> ('b \<times> instant) Check" where
  "ui_check i criterion m run_it =
     \<lparr>Check_ID = i, Check_Criterion = criterion, Check_Mutation = Some m, Check_Run = judged run_it\<rparr>"

definition squoted :: "string \<Rightarrow> string" where "squoted s = CHR 0x27 # s @ [CHR 0x27]"

definition attr :: "string \<Rightarrow> string \<Rightarrow> string" where "attr k v = '' '' @ k @ ''='' @ dquoted v"

definition jmember :: "string \<Rightarrow> string \<Rightarrow> string" where "jmember k v = dquoted k @ '':'' @ dquoted v"

definition jobject :: "string list \<Rightarrow> string" where "jobject ps = ''{'' @ join '','' ps @ ''}''"

definition Sprint_int :: "int \<Rightarrow> string" where
  "Sprint_int i = (if i < 0 then ''-'' @ show_nat (nat (- i)) else show_nat (nat i))"

definition alice :: string where "alice = ''11111111-1111-1111-1111-111111111111''"
definition bob :: string where "bob = ''22222222-2222-2222-2222-222222222222''"
definition dan :: string where "dan = ''44444444-4444-4444-4444-444444444444''"
definition erin :: string where "erin = ''55555555-5555-5555-5555-555555555555''"

fun indexOf_from :: "int \<Rightarrow> string list \<Rightarrow> string \<Rightarrow> int" where
  "indexOf_from i [] needle = -1"
| "indexOf_from i (h # hay) needle = (if h = needle then i else indexOf_from (i + 1) hay needle)"

definition indexOf :: "string list \<Rightarrow> string \<Rightarrow> int" where "indexOf hay needle = indexOf_from 0 hay needle"

text \<open>A value stored under a key twice is the later one.\<close>

definition last_by :: "('a \<Rightarrow> string) \<Rightarrow> 'a list \<Rightarrow> string \<Rightarrow> 'a option" where
  "last_by key xs k = find (\<lambda>x. key x = k) (rev xs)"

section \<open>Reachable by keyboard, named, and legible without colour\<close>

fun tab_order :: "'b engine \<Rightarrow> nat \<Rightarrow> string list \<Rightarrow> ('b, string list) drive" where
  "tab_order E 0 tabbed = ret tabbed"
| "tab_order E (Suc n) tabbed =
     bnd (cmd E PressTab) (\<lambda>_. bnd (see E (see_path E)) (\<lambda>p.
       if p = ''#watch'' then ret (tabbed @ [p]) else tab_order E n (tabbed @ [p])))"

definition run_Keyboard :: "'b engine \<Rightarrow> ('b, unit) drive" where
  "run_Keyboard E =
     bnd (steps [on_stack (SetPositions 200 theFamily), on_stack Restore, cmd E (SetTheme ''light''), cmd E (SetViewport 1280 800 False),
                 cmd E (Navigate (eng_url E @ ''/map''))]) (\<lambda>_.
     bnd (tab_order E 8 []) (\<lambda>tabbed.
     let ti = indexOf tabbed ''#token''; wi = indexOf tabbed ''#watch'' in
     bnd (steps [demand (\<not> ti < 0) ''the token field is not reachable by Tab'',
                 demand (\<not> wi < 0) ''the watch control is not reachable by Tab'',
                 demand (\<not> ti > wi) ''tabbing reaches the watch control before the token field, which is not the order they read'',
                 cmd E (Script ''focus #token''), cmd E (TypeInto ''#token'' viewerToken), cmd E PressTab]) (\<lambda>_.
     bnd (see E (see_path E)) (\<lambda>focused.
     steps [demand (focused = ''#watch'') ''tabbing from the token field did not focus the watch control'',
            cmd E (PressKey [CHR 0x0D]),
            waitSnapshot E (\<lambda>_ s. DeviceCount s = 5) (15000 * ms) ''activating the watch control from the keyboard did not start watching'']))))"

definition checkKeyboard :: "'b engine \<Rightarrow> ('b \<times> instant) Check" where
  "checkKeyboard E = ui_check ''AC1-keyboard'' ''AC1 F1-web: reachable and operable by keyboard alone, in reading order''
     (source_mutation ''AC1-keyboard''
        (''<button'' @ attr ''id'' ''watch'' @ ''>Watch</button>'')
        (''<button'' @ attr ''id'' ''watch'' @ attr ''tabindex'' ''-1'' @ ''>Watch</button>''))
     (run_Keyboard E)"

definition run_AccessibleNames :: "'b engine \<Rightarrow> ('b, unit) drive" where
  "run_AccessibleNames E =
     bnd (openWatched E ''light'' 1280 800) (\<lambda>_. bnd (axTree E) (\<lambda>nodes.
       let missing = unnamedInteractive E nodes in
       steps [demand (missing = []) (''these controls have no accessible name in the engine'' @ [CHR 0x27] @ ''s accessibility tree: '' @ join '', '' missing),
              demand (nameOfStatus E nodes \<noteq> []) (''the status line has no accessible name in the accessibility tree, so a screen reader is told ''
                @ ''a region changed without being told which one'')]))"

definition checkAccessibleNames :: "'b engine \<Rightarrow> ('b \<times> instant) Check" where
  "checkAccessibleNames E = ui_check ''AC1-names''
     ''AC1 F1-web: every interactive control and the status line has a non-empty accessible name''
     (source_mutation ''AC1-names''
        (''<label'' @ attr ''for'' ''token'' @ attr ''id'' ''token-label'' @ ''>Viewer token</label>'')
        (''<span'' @ attr ''id'' ''token-label'' @ ''>Viewer token</span>''))
     (run_AccessibleNames E)"

definition state_words :: "string \<Rightarrow> string" where
  "state_words state =
     (if state = ''no-position'' then ''no position recorded'' else if state = ''live'' then ''live now''
      else if state = ''recent'' then ''seen recently'' else if state = ''stale'' then ''not seen lately'' else [])"

definition colour_free_row :: "deviceRow \<Rightarrow> ('b, unit) drive" where
  "colour_free_row row =
     steps [demand (Row_Text row \<noteq> []) (''device '' @ Row_ID row @ '' renders no text at all with colour removed''),
            demand (state_words (Row_State row) \<noteq> []) (''device '' @ Row_ID row @ '' carries the unknown state '' @ dquoted (Row_State row)),
            demand (contains (Row_Text row) (state_words (Row_State row)))
              (''device '' @ Row_ID row @ '' (state '' @ Row_State row @ '') renders text which does not contain the state in words''),
            demand (contains (Row_Text row) ''unconfirmed'')
              (''device '' @ Row_ID row @ '': the unconfirmed annotation is not in the text, so it exists only as colour'')]"

definition run_ColourFree :: "'b engine \<Rightarrow> ('b, unit) drive" where
  "run_ColourFree E =
     bnd (steps [openWatched E ''light'' 1280 800, on_stack (\<lambda>s. snd (Sever s)),
                 waitSnapshot E (\<lambda>_ s. Interrupted s) (12000 * ms) ''the page never noticed the severed feed'',
                 cmd E (SetVisionDeficiency ''achromatopsia'')]) (\<lambda>_.
     bnd (see E (see_rows E)) (\<lambda>rows.
     steps [demand (length rows = 5) ''expected 5 device rows'', for_each colour_free_row rows,
            for_each (\<lambda>state. demand (state \<in> Row_State ` set rows)
              (''no device rendered the state '' @ dquoted state @ '', so this check passed over it vacuously''))
              [''no-position'', ''live'', ''recent'', ''stale'']]))"

definition checkColourFree :: "'b engine \<Rightarrow> ('b \<times> instant) Check" where
  "checkColourFree E = ui_check ''AC1-colour-free''
     ''AC1 F1-web: every device state and the unconfirmed annotation survives colour being removed''
     (source_mutation ''AC1-colour-free'' ''span.textContent = stateText(d.state);'' (''span.textContent = '' @ squoted [] @ '';''))
     (run_ColourFree E)"

section \<open>Contrast, focus and theme\<close>

text \<open>A reading is short of its floor by more than five thousandths.\<close>

definition below_floor :: "rat \<Rightarrow> rat \<Rightarrow> bool" where "below_floor ratio floor_at = (ratio + 1/200 < floor_at)"

definition run_Contrast :: "string \<Rightarrow> 'b engine \<Rightarrow> ('b, unit) drive" where
  "run_Contrast theme E =
     bnd (steps [openWatched E theme 1280 800,
                 inject E ''error'' (jobject [jmember ''message'' ''the server cannot read this family'']),
                 waitSnapshot E (\<lambda>_ s. Interrupted s) (5000 * ms) ''the page never entered its interrupted paint'']) (\<lambda>_.
     bnd (see E (see_textRuns E)) (\<lambda>text_runs.
     bnd (demand (\<not> length text_runs < 8) ''the page cannot be that empty, so this check would pass vacuously'') (\<lambda>_.
     bnd (see E (see_boundaries E)) (\<lambda>bounds.
     demand (filter (\<lambda>(ratio, required). below_floor ratio required) text_runs = [] \<and> filter (\<lambda>ratio. below_floor ratio 3) bounds = [])
       (''contrast failures in the '' @ theme @ '' theme'')))))"

definition checkContrast :: "string \<Rightarrow> 'b engine \<Rightarrow> ('b \<times> instant) Check" where
  "checkContrast theme E = ui_check (''AC2-contrast-'' @ theme)
     (''AC2 F1/F10-web: text 4.5:1 (3:1 large) and control boundaries 3:1, '' @ theme @ '' theme, from live engine colours'')
     (if theme = ''dark'' then source_mutation ''AC2-contrast-dark'' ''--muted: #b6bfc9;'' ''--muted: #3a4149;''
      else source_mutation (''AC2-contrast-'' @ theme) ''--muted: #4d5359;'' ''--muted: #b9bec3;'')
     (run_Contrast theme E)"

fun focus_loop :: "'b engine \<Rightarrow> string \<Rightarrow> nat \<Rightarrow> ('b, unit) drive" where
  "focus_loop E selector 0 = refuse (selector @ '' was not reachable by Tab within 12 presses'')"
| "focus_loop E selector (Suc n) =
     bnd (cmd E PressTab) (\<lambda>_. bnd (see E (see_path E)) (\<lambda>p. if p = selector then ret () else focus_loop E selector n))"

definition tab_budget :: "string + control list \<Rightarrow> nat" where
  "tab_budget res = (case res of Inr controls \<Rightarrow> if 2 * length controls + 4 > 12 then 2 * length controls + 4 else 12 | Inl _ \<Rightarrow> 12)"

definition focusByTab :: "'b engine \<Rightarrow> string \<Rightarrow> ('b, unit) drive" where
  "focusByTab E selector =
     bnd (cmd E (Script ''blur'')) (\<lambda>_ w. case see E (see_controls E) w of (res, w') \<Rightarrow> focus_loop E selector (tab_budget res) w')"

definition sameColor :: "rendering \<Rightarrow> rendering \<Rightarrow> int \<Rightarrow> int \<Rightarrow> bool" where
  "sameColor a b x y = (im_at a x y = im_at b x y)"

definition im_area :: "rendering \<Rightarrow> int" where
  "im_area a = (fst (im_max a) - fst (im_min a)) * (snd (im_max a) - snd (im_min a))"

definition pixels :: "rendering \<Rightarrow> (int \<times> int) list" where
  "pixels a = concat (map (\<lambda>y. map (\<lambda>x. (x, y)) [fst (im_min a) .. fst (im_max a) - 1]) [snd (im_min a) .. snd (im_max a) - 1])"

definition pixelDifference :: "'b engine \<Rightarrow> string \<Rightarrow> string \<Rightarrow> string + int" where
  "pixelDifference E a b =
     (case png_decode E a of
        Inl e \<Rightarrow> Inl (''decoding the unfocused rendering: '' @ e)
      | Inr ia \<Rightarrow>
          (case png_decode E b of
             Inl e \<Rightarrow> Inl (''decoding the focused rendering: '' @ e)
           | Inr ib \<Rightarrow>
               if (im_min ia, im_max ia) \<noteq> (im_min ib, im_max ib) then Inr (im_area ia + im_area ib)
               else Inr (int (length (filter (\<lambda>(x, y). \<not> sameColor ia ib x y) (pixels ia))))))"

definition focus_of_control :: "'b engine \<Rightarrow> string \<Rightarrow> control \<Rightarrow> ('b, unit) drive" where
  "focus_of_control E theme c =
     (let sel = Path c in
      bnd (annotate (''screenshotting '' @ sel @ '' unfocused ('' @ theme @ ''): '') (see E (see_shot E sel))) (\<lambda>unfocused.
      bnd (annotate (theme @ '' theme: '') (focusByTab E sel)) (\<lambda>_.
      bnd (annotate (''screenshotting '' @ sel @ '' focused ('' @ theme @ ''): '') (see E (see_shot E sel))) (\<lambda>focused.
      bnd (\<lambda>w. (pixelDifference E unfocused focused, w)) (\<lambda>diff.
      bnd (demand (diff \<noteq> 0) (theme @ '' theme: focusing '' @ sel @ '' changes not one rendered pixel, so the focus indicator is suppressed'')) (\<lambda>_.
      bnd (see E (see_focus E)) (\<lambda>fi.
      steps [demand (\<not> (OutlineWidth fi \<le> 0 \<or> OutlineStyle fi = ''none'')) (theme @ '' theme: '' @ sel @ '' is focused with no outline painted''),
             demand (\<not> below_floor (Focus_Ratio fi) 3) (theme @ '' theme: '' @ sel @ '' focus indicator is below the 3:1 floor'')])))))))"

definition run_FocusIndicator :: "'b engine \<Rightarrow> ('b, unit) drive" where
  "run_FocusIndicator E =
     for_each (\<lambda>theme.
       bnd (openWatched E theme 1280 800) (\<lambda>_.
       bnd (see E (see_controls E)) (\<lambda>controls.
       steps [demand (\<not> length controls < 4) (''too few controls were found in the '' @ theme @ '' theme, so this check would measure almost nothing''),
              for_each (focus_of_control E theme) controls]))) [''light'', ''dark'']"

definition checkFocusIndicator :: "'b engine \<Rightarrow> ('b \<times> instant) Check" where
  "checkFocusIndicator E = ui_check ''AC3-focus''
     ''AC3 F1/F10-web: a focus indicator that differs by rendered pixels and clears 3:1, in both themes''
     (source_mutation ''AC3-focus''
        ('':focus-visible {'' @ nl @ ''      outline: 3px solid var(--focus);'' @ nl @ ''      outline-offset: 2px;'' @ nl @ ''    }'')
        ('':focus-visible {'' @ nl @ ''      outline: none;'' @ nl @ ''    }''))
     (run_FocusIndicator E)"

definition theme_reading :: "'b engine \<Rightarrow> string \<Rightarrow> ('b, (string \<times> rat) list) drive" where
  "theme_reading E theme =
     bnd (openWatched E theme 1280 800) (\<lambda>_. bnd (see E (see_backgrounds E)) (\<lambda>got.
       if length got < 2 then refuse (''the '' @ theme @ '' rendering reported too few surfaces; body and the panel are both required'') else ret got))"

definition theme_surface :: "(string \<times> rat) list \<Rightarrow> (string \<times> rat) list \<Rightarrow> string \<Rightarrow> ('b, unit) drive" where
  "theme_surface lights darks sel =
     (case (last_by fst lights sel, last_by fst darks sel) of
        (Some (_, lum_light), Some (_, lum_dark)) \<Rightarrow>
          steps [demand (\<not> lum_light < 1/2) (''at a LIGHT operating-system preference '' @ sel @ '' renders a dark slab''),
                 demand (\<not> lum_dark > 1/5) (''at a DARK operating-system preference '' @ sel @ '' is not dark'')]
      | _ \<Rightarrow> refuse (sel @ '' was not measured in both themes''))"

definition run_ThemeFollowsPreference :: "'b engine \<Rightarrow> ('b, unit) drive" where
  "run_ThemeFollowsPreference E =
     bnd (theme_reading E ''light'') (\<lambda>lights. bnd (theme_reading E ''dark'') (\<lambda>darks.
       for_each (theme_surface lights darks) [''body'', ''#panel'', ''#bar'']))"

definition checkThemeFollowsPreference :: "'b engine \<Rightarrow> ('b \<times> instant) Check" where
  "checkThemeFollowsPreference E = ui_check ''AC3-theme''
     ''AC3 F10-web: the page and its panel render light at a light preference and dark at a dark one''
     (source_mutation ''AC3-theme'' ''--bg: #12161b;'' ''--bg: #ffffff;'')
     (run_ThemeFollowsPreference E)"

section \<open>Size and reflow\<close>

definition too_small :: "control \<Rightarrow> bool" where
  "too_small c \<longleftrightarrow> Width c + 1/2 < 24 \<or> Height c + 1/2 < 24"

definition target_sizes_at :: "'b engine \<Rightarrow> int \<times> int \<Rightarrow> ('b, unit) drive" where
  "target_sizes_at E = (\<lambda>(w, h).
     bnd (openWatched E ''light'' w h) (\<lambda>_. bnd (see E (see_controls E)) (\<lambda>controls.
       steps [demand (\<not> length controls < 4) ''the page has more interactive controls, so the measurement is not reaching them'',
              demand (filter too_small controls = []) ''these controls are painted below 24x24 CSS pixels''])))"

definition run_TargetSize :: "'b engine \<Rightarrow> ('b, unit) drive" where
  "run_TargetSize E = for_each (target_sizes_at E) [(1280, 800), (360, 640)]"

definition checkTargetSize :: "'b engine \<Rightarrow> ('b \<times> instant) Check" where
  "checkTargetSize E = ui_check ''AC4-target-size''
     ''AC4 F1-web: every interactive control is at least 24x24 CSS pixels, desktop and 360x640''
     (source_mutation ''AC4-target-size''
        (''#watch {'' @ nl @ ''      min-height: 32px; min-width: 44px; padding: .35rem .8rem; font: inherit; cursor: pointer;'')
        (''#watch {'' @ nl @ ''      height: 14px; min-height: 0; min-width: 0; padding: 0; font-size: 8px; cursor: pointer;''))
     (run_TargetSize E)"

text \<open>\<open>reflow\<close> reads the scroll width and the client width of the document.\<close>

definition beyond_edges :: "rat \<Rightarrow> rat \<Rightarrow> rat \<Rightarrow> bool" where
  "beyond_edges clientWidth left_edge right_edge \<longleftrightarrow> left_edge < - (1/2) \<or> right_edge > clientWidth + 1/2"

definition reflow_box :: "rat \<Rightarrow> box \<Rightarrow> ('b, unit) drive" where
  "reflow_box clientWidth b =
     steps [demand (\<not> (Box_Width b \<le> 0 \<or> Box_Height b \<le> 0)) (Box_Path b @ '' is not rendered at a 360px viewport''),
            demand (\<not> beyond_edges clientWidth (Box_Left b) (Box_Right b)) (Box_Path b @ '' spans outside the viewport''),
            demand (\<not> Box_Top b > 640) (Box_Path b @ '' is laid out below a 640px-tall viewport''),
            demand (\<not> Box_FontSize b < 12) (Box_Path b @ '' renders below a legible floor of 12px'')]"

definition reflow_control :: "rat \<Rightarrow> control list \<Rightarrow> string \<Rightarrow> ('b, unit) drive" where
  "reflow_control clientWidth controls sel =
     (case last_by Path controls sel of
        None \<Rightarrow> refuse (sel @ '' is not rendered at a 360px viewport'')
      | Some c \<Rightarrow> demand (\<not> beyond_edges clientWidth (Left c) (Right c)) (sel @ '' is laid out outside the viewport''))"

definition run_Reflow :: "'b engine \<Rightarrow> ('b, unit) drive" where
  "run_Reflow E =
     bnd (openWatched E ''light'' 360 640) (\<lambda>_. bnd (see E (see_reflow E)) (\<lambda>(scrollWidth, clientWidth).
     bnd (demand (\<not> scrollWidth > clientWidth + 1/2) ''at 360 CSS pixels the document scrolls sideways'') (\<lambda>_.
     bnd (see E (see_controls E)) (\<lambda>controls.
     bnd (for_each (reflow_control clientWidth controls) [''#token'', ''#watch'']) (\<lambda>_.
     bnd (see E (see_boxes E)) (\<lambda>boxes. for_each (reflow_box clientWidth) boxes))))))"

definition checkReflow :: "'b engine \<Rightarrow> ('b \<times> instant) Check" where
  "checkReflow E = ui_check ''AC11-reflow''
     ''AC11 F9-web: at 360x640 the body does not scroll sideways and the controls stay inside it''
     (source_mutation ''AC11-reflow''
        (''html, body {'' @ nl @ ''      margin: 0; height: 100%;'')
        (''html, body {'' @ nl @ ''      margin: 0; height: 100%; min-width: 700px;''))
     (run_Reflow E)"

section \<open>Absences, figures and bad events\<close>

definition read_unlocated :: "deviceRow \<Rightarrow> bool" where
  "read_unlocated row \<longleftrightarrow> Row_List row = ''unlocated'' \<and> contains (Row_Text row) ''not readable''"

text \<open>One of the four words is looked for and never reported.\<close>

definition forbidden_words_of_absence :: "string \<Rightarrow> string list" where
  "forbidden_words_of_absence text = filter (\<lambda>f. contains text f \<and> f \<noteq> ''-'') [''0,0'', '' 0 '', ''-'', ''no-position'']"

definition absence_rows :: "deviceRow list \<Rightarrow> ('b, unit) drive" where
  "absence_rows rows =
     (case last_by Row_ID rows dan of
        None \<Rightarrow> refuse ''the no-position device is not rendered at all''
      | Some d \<Rightarrow>
          bnd (steps [demand (contains (Row_Text d) ''no position recorded'') ''the no-position device does not render words a reader understands as an absence'',
                      demand (forbidden_words_of_absence (Row_Text d) = []) ''the no-position device renders the bare token or a zero'',
                      demand (Row_List d = ''unlocated'') ''the no-position device is not listed among the devices without a position'']) (\<lambda>_.
          (case last_by Row_ID rows erin of
             None \<Rightarrow> refuse ''the device whose coordinate could not be read is not rendered at all''
           | Some e \<Rightarrow>
               steps [demand (Row_List e = ''unlocated'') ''the device with an unusable coordinate must render present but unlocated'',
                      demand (contains (Row_Text e) ''not readable'') ''the device with an unusable coordinate does not say the position could not be read''])))"

definition unreadable_position :: string where
  "unreadable_position = jobject [jmember ''device_id'' alice, jmember ''device_name'' ''Alice phone'', jmember ''presentation'' ''live'',
     jmember ''lat'' ''nope'', dquoted ''lon'' @ '':null'']"

definition run_Absence :: "'b engine \<Rightarrow> ('b, unit) drive" where
  "run_Absence E =
     bnd (openWatched E ''light'' 1280 800) (\<lambda>_. bnd (see E (see_rows E)) (\<lambda>rows.
     bnd (absence_rows rows) (\<lambda>_. bnd (see E (see_snapshot E)) (\<lambda>s.
     bnd (steps [for_each (\<lambda>i. demand (\<not> (i = dan \<or> i = erin)) (''device '' @ i @ '' has a map marker despite having no usable position'')) (MarkerIDs s),
                 demand (length (MarkerIDs s) = 3) ''the map does not hold 3 markers for a family of 5 with 2 unlocated'',
                 inject E ''position'' unreadable_position,
                 waitSnapshot E (\<lambda>_ s. length (MarkerIDs s) = 2) (5000 * ms)
                   (''a position event with an unreadable coordinate left the device'' @ [CHR 0x27] @ ''s marker in place'')]) (\<lambda>_.
     bnd (see E (see_rows E)) (\<lambda>rows'.
     for_each (\<lambda>row. demand (Row_ID row = alice \<longrightarrow> read_unlocated row) ''after an unreadable coordinate the device must read as present but unlocated'') rows'))))))"

definition checkAbsence :: "'b engine \<Rightarrow> ('b \<times> instant) Check" where
  "checkAbsence E = ui_check ''AC5-absence''
     (''AC5 F3-web: a no-position device reads as an absence in words and gets no marker; ''
      @ ''an unusable coordinate renders present but unlocated'')
     (source_mutation ''AC5-absence''
        (squoted ''no-position'' @ '': '' @ squoted ''no position recorded'' @ '','')
        (squoted ''no-position'' @ '': '' @ squoted ''0'' @ '',''))
     (run_Absence E)"

definition bareCount :: "string \<Rightarrow> bool" where "bareCount s = (length (Fields s) \<le> 2)"

definition teleport :: string where "teleport = jobject [jmember ''device_id'' alice, jmember ''presentation'' ''live'']"

definition figures_ok :: "figureReport \<Rightarrow> ('b, unit) drive" where
  "figures_ok fig =
     steps [demand (Fig_Located fig \<noteq> []) ''the device-set figure is not rendered at all'',
            for_each (\<lambda>want. demand (contains (Fig_Located fig) want)
              ''the device-set figure must name the whole set it counted over (5) and how many it left off the map (2)'') [''of'', ''5'', ''3''],
            demand (contains (Fig_Located fig) ''without position'') ''the rows excluded for want of a position are not reported'',
            demand (\<not> bareCount (Fig_Located fig)) ''the device-set figure is a bare count a reader would take for the whole family'',
            demand (Fig_Rejected fig \<noteq> []) ''one event was rejected but no figure says so'',
            demand (contains (Fig_Rejected fig) '' of '') ''the rejected figure must state the set it was counted over'']"

definition run_Aggregates :: "'b engine \<Rightarrow> ('b, unit) drive" where
  "run_Aggregates E =
     bnd (steps [openWatched E ''light'' 1280 800, inject E ''teleport'' teleport,
                 waitSnapshot E (\<lambda>_ s. RejectedCount s > 0) (5000 * ms) ''the page never rejected the unknown event type'']) (\<lambda>_.
     bnd (see E (see_figures E)) (\<lambda>fig. bnd (figures_ok fig) (\<lambda>_. bnd (see E (see_snapshot E)) (\<lambda>s.
     steps [demand (contains (Fig_Rejected fig) (Sprint_int (ReceivedCount s))) ''the denominator is not the set it counted over'',
            demand (Fig_RejectedDetail fig \<noteq> []) ''the rejected figure names no reason, so a reader cannot tell what was left out'']))))"

definition checkAggregates :: "'b engine \<Rightarrow> ('b \<times> instant) Check" where
  "checkAggregates E = ui_check ''AC6-aggregates''
     ''AC6 F4-web: every figure states which rows it counted and how many it left out''
     (source_mutation ''AC6-aggregates''
        (''locatedCount + '' @ squoted '' of '' @ '' + ids.length + '' @ squoted '' on map, '' @ '' + unlocatedCount + '' @ squoted '' without position'')
        (''ids.length + '' @ squoted '' devices''))
     (run_Aggregates E)"

definition bad_events :: "(string \<times> string) list" where
  "bad_events =
     [(''presentation'', ''{not json at all''),
      (''teleport'', teleport),
      (''presentation'', jobject [jmember ''device_id'' alice, jmember ''presentation'' ''offline'']),
      (''presentation'', jobject [jmember ''presentation'' ''live''])]"

definition bad_event_step :: "'b engine \<Rightarrow> snapshot \<Rightarrow> nat \<times> string \<times> string \<Rightarrow> ('b, unit) drive" where
  "bad_event_step E start = (\<lambda>(i, typ, data).
     bnd (steps [inject E typ data,
                 waitSnapshot E (\<lambda>_ s. RejectedCount s = RejectedCount start + int i + 1) (5000 * ms)
                   (''update '' @ show_nat i @ '' ('' @ typ @ '') was not rejected'')]) (\<lambda>_.
     bnd (see E (see_snapshot E)) (\<lambda>s.
     bnd (steps [demand (DeviceCount s = DeviceCount start) ''one bad update removed a device'',
                 demand (length (MarkerIDs s) = length (MarkerIDs start)) ''after the unreadable update the map holds another number of markers'',
                 demand (Status s \<noteq> []) ''after the unreadable update the status line is blank'']) (\<lambda>_.
     bnd (see E (see_panel E)) (\<lambda>ps.
     bnd (demand (Panel_Visible ps \<and> Panel_Text ps \<noteq> []) ''after the unreadable update the panel has gone blank'') (\<lambda>_.
     bnd (see E (see_rows E)) (\<lambda>rows. demand (length rows = 5) ''after the unreadable update not all 5 device rows are drawn'')))))))"

text \<open>The predicate of the last wait reads the rows of the page itself; an error there is no row.\<close>

definition bob_is_stale :: "'b engine \<Rightarrow> 'b \<times> Stack \<Rightarrow> bool" where
  "bob_is_stale E p =
     (case see_rows E p of Inl _ \<Rightarrow> False | Inr rows \<Rightarrow> \<exists>row \<in> set rows. Row_ID row = bob \<and> Row_State row = ''stale'')"

definition run_OneBadEvent :: "'b engine \<Rightarrow> ('b, unit) drive" where
  "run_OneBadEvent E =
     bnd (openWatched E ''light'' 1280 800) (\<lambda>_. bnd (see E (see_snapshot E)) (\<lambda>start.
     steps [for_each (bad_event_step E start) (zip [0..<length bad_events] bad_events),
            inject E ''presentation'' (jobject [jmember ''device_id'' bob, jmember ''device_name'' ''Bob phone'', jmember ''presentation'' ''stale'']),
            waitSnapshot E (\<lambda>p _. bob_is_stale E p) (5000 * ms)
              ''after four unreadable updates the page no longer accepts a good one, so the session was lost rather than the update'']))"

definition checkOneBadEvent :: "'b engine \<Rightarrow> ('b \<times> instant) Check" where
  "checkOneBadEvent E = ui_check ''AC7-one-bad-event'' ''AC7 F5-web: one unreadable update costs only itself''
     (source_mutation ''AC7-one-bad-event''
        (''function reject(why) {'' @ nl @ ''      rejectedCount++;'')
        (''function reject(why) {'' @ nl @ ''      devices = {}; markers = {};'' @ nl @ ''      rejectedCount++;''))
     (run_OneBadEvent E)"

section \<open>A severed feed, and the three states of the panel\<close>

definition confirmed_row :: "string \<Rightarrow> deviceRow \<Rightarrow> ('b, unit) drive" where
  "confirmed_row why row = demand (\<not> contains (Row_Text row) ''unconfirmed'') (''device '' @ Row_ID row @ why)"

definition run_StaleFeed :: "'b engine \<Rightarrow> ('b, unit) drive" where
  "run_StaleFeed E =
     bnd (openWatched E ''light'' 1280 800) (\<lambda>_. bnd (see E (see_rows E)) (\<lambda>beforeRows.
     bnd (steps [demand (length beforeRows = 5) ''expected 5 device rows before severing'',
                 for_each (confirmed_row '' already reads as unconfirmed before the feed was severed'') beforeRows]) (\<lambda>_.
     bnd host_clock (\<lambda>severed.
     bnd (steps [on_stack (\<lambda>s. snd (Sever s)),
                 waitSnapshot E (\<lambda>_ s. Interrupted s) (10000 * ms)
                   ''ten seconds after the feed was severed the page still does not say the connection is interrupted'']) (\<lambda>_.
     bnd host_clock (\<lambda>noticed.
     bnd (demand (\<not> noticed - severed > 10000 * ms) ''the page took too long to say the connection was interrupted; the floor is ten seconds'') (\<lambda>_.
     bnd (see E (see_figures E)) (\<lambda>fig.
     bnd (demand (contains (eng_lower E (Fig_Status fig)) ''interrupt'') ''the status line does not read as interrupted'') (\<lambda>_.
     bnd (see E (see_rows E)) (\<lambda>rows.
     bnd (steps [demand (length rows = 5) ''severing the feed left fewer device rows; a device was silently removed'',
                 for_each (\<lambda>row. demand (contains (Row_Text row) ''last known'' \<and> contains (Row_Text row) ''unconfirmed'')
                   (''with the feed severed device '' @ Row_ID row @ '' does not read as last known rather than current'')) rows,
                 on_stack Restore,
                 waitSnapshot E (\<lambda>_ s. \<not> Interrupted s) (20000 * ms) ''the restored feed never cleared the interruption'']) (\<lambda>_.
     bnd (see E (see_rows E)) (\<lambda>afterRows.
     steps [demand (length afterRows = 5) ''after the feed was restored a device was silently removed'',
            for_each (confirmed_row '' still reads as unconfirmed after the feed was restored'') afterRows]))))))))))))"

definition checkStaleFeed :: "'b engine \<Rightarrow> ('b \<times> instant) Check" where
  "checkStaleFeed E = ui_check ''AC8-stale''
     ''AC8 F6-web: a severed feed reads as interrupted and every device as last known, and a restored one clears it''
     (source_mutation ''AC8-stale'' ''mark.textContent = MSG_UNCONFIRMED;'' (''mark.textContent = '' @ squoted [] @ '';''))
     (run_StaleFeed E)"

definition actionable :: "string \<Rightarrow> panelStateReport \<Rightarrow> ('b, unit) drive" where
  "actionable which ps = demand (\<not> (Panel_Text ps = [] \<or> Panel_Action ps = [])) (''the '' @ which @ '' state must carry text a person can act on'')"

definition run_ThreeStates :: "'b engine \<Rightarrow> ('b, unit) drive" where
  "run_ThreeStates E =
     bnd (steps [on_stack Restore, on_stack HoldPositions, open_page E ''light'' 1280 800]) (\<lambda>_.
     bnd (awaitPanelState E ''loading'' (15000 * ms)) (\<lambda>loading.
     bnd (steps [actionable ''loading'' loading, on_stack (DelayPositions (1200 * ms) 200 ''[]''), open_page E ''light'' 1280 800]) (\<lambda>_.
     bnd (annotate ''a slow device set did not put the page in its loading state: '' (awaitPanelState E ''loading'' (10000 * ms))) (\<lambda>_.
     bnd (annotate ''the loading state was never resolved by the device set arriving: '' (awaitPanelState E ''empty'' (15000 * ms))) (\<lambda>emptied.
     bnd (steps [actionable ''empty'' emptied,
                 demand (Panel_Text emptied \<noteq> Panel_Text loading) ''the empty state and the loading state are not distinct'',
                 on_stack (\<lambda>s. snd (RefuseCredential s)), open_page E ''light'' 1280 800]) (\<lambda>_.
     bnd (awaitPanelState E ''error'' (15000 * ms)) (\<lambda>errState.
     bnd (steps [actionable ''error'' errState,
                 demand (\<not> (Panel_Text errState = Panel_Text loading \<or> Panel_Text errState = Panel_Text emptied))
                   ''the error state reads as one of the other two states'',
                 on_stack Restore, on_stack FailPositions, open_page E ''light'' 1280 800]) (\<lambda>_.
     bnd (annotate ''an unreachable server did not produce the error state: '' (awaitPanelState E ''error'' (15000 * ms))) (\<lambda>_.
     bnd (see E (see_stateCount E)) (\<lambda>state_count.
     demand (state_count = 1) ''the panel does not draw one state element; two of the three could be shown at once''))))))))))"

definition checkThreeStates :: "'b engine \<Rightarrow> ('b \<times> instant) Check" where
  "checkThreeStates E = ui_check ''AC9-three-states''
     ''AC9 F7-web: loading, empty and error are distinct, actionable and never two at once''
     (source_mutation ''AC9-three-states''
        (''if (!deviceSetKnown) { return '' @ squoted ''loading'' @ ''; }'') (''if (true) { return '' @ squoted ''loading'' @ ''; }''))
     (run_ThreeStates E)"

section \<open>Explanations\<close>

definition maxLabelWords :: int where "maxLabelWords = 8"

definition documentation_links :: "region \<Rightarrow> string list" where
  "documentation_links reg = filter (\<lambda>h. has_prefix h ''/static/'' \<or> has_prefix h ''/docs/'') (Hrefs reg)"

definition page_part :: "string \<Rightarrow> string" where "page_part href = takeWhile (\<lambda>c. c \<noteq> CHR ''#'') href"
definition fragment_part :: "string \<Rightarrow> string" where "fragment_part href = drop 1 (dropWhile (\<lambda>c. c \<noteq> CHR ''#'') href)"

definition follow_link :: "'b engine \<Rightarrow> string \<Rightarrow> ('b, unit) drive" where
  "follow_link E href =
     (let docPath = page_part href; fragment = fragment_part href in
      bnd (annotate (''following '' @ href @ '': '') (cmd E (Navigate (eng_url E @ docPath)))) (\<lambda>_.
      bnd (recorded (ResponseHeader E docPath ''content-type'')) (\<lambda>ctype.
      bnd (steps [demand (ctype \<noteq> None) (''the engine recorded no response for '' @ docPath @ '', so the link is dead''),
                  demand (has_prefix (case ctype of Some t \<Rightarrow> t | None \<Rightarrow> []) ''text/html'') (docPath @ '' did not answer with a document'')]) (\<lambda>_.
      bnd (see E (see_title E)) (\<lambda>title.
      bnd (demand (title \<noteq> []) (docPath @ '' answered with a document that has no title; a 404 page reads like that'')) (\<lambda>_.
      bnd (see E (see_bodyWords E)) (\<lambda>bodyWords.
      bnd (demand (\<not> bodyWords < 100) (docPath @ '' is not the explanation the claims of the label moved into'')) (\<lambda>_.
      if fragment = [] then ret ()
      else bnd (see E (see_id E fragment)) (\<lambda>landed.
        demand landed (href @ '' links to #'' @ fragment @ '', which is not in the document; that is a dead file reference''))))))))))"

definition run_Explanation :: "'b engine \<Rightarrow> ('b, unit) drive" where
  "run_Explanation E =
     bnd (steps [openWatched E ''light'' 1280 800,
                 inject E ''teleport'' (jobject [jmember ''device_id'' ''x'', jmember ''presentation'' ''live'']),
                 on_stack (\<lambda>s. snd (Sever s)),
                 waitSnapshot E (\<lambda>_ s. Interrupted s) (12000 * ms) ''the page never entered its interrupted paint'']) (\<lambda>_.
     bnd (see E (see_names E)) (\<lambda>in_rows.
     bnd (steps [demand (in_rows \<noteq> []) ''no device name was rendered, so the exclusion the brevity floor relies on was never exercised'',
                 for_each (\<lambda>in_row. demand in_row ''the name class may not be used for authored text'') in_rows]) (\<lambda>_.
     bnd (see E (see_texts E)) (\<lambda>texts.
     bnd (steps [demand (\<not> length texts < 8) ''too few chrome texts were measured'',
                 demand (filter (\<lambda>(inRegion, _). \<not> inRegion) texts \<noteq> []) ''every chrome text measured was inside a declared region'',
                 demand (filter (\<lambda>(_, word_count). word_count > maxLabelWords) texts = []) ''these are paragraphs, not labels'']) (\<lambda>_.
     bnd (see E (see_regions E)) (\<lambda>regions.
     steps [demand (\<not> length regions < 2) ''the control bar and the device panel both need explanation'',
            for_each (\<lambda>reg. demand (length (documentation_links reg) = 1)
              (''region '' @ dquoted (Region reg) @ '': the clause is exactly one documentation link per region'')) regions,
            for_each (follow_link E) (map (\<lambda>reg. hd (documentation_links reg)) regions)]))))))"

definition checkExplanation :: "'b engine \<Rightarrow> ('b \<times> instant) Check" where
  "checkExplanation E = ui_check ''AC10-explanation''
     ''AC10 F8-web: labels stay to a few words and each region carries exactly one resolving documentation link''
     (source_mutation ''AC10-explanation'' ''>How watching works</a>''
        ''>A full explanation of how watching your family live map actually works from end to end</a>'')
     (run_Explanation E)"

section \<open>The policy, and where the page goes\<close>

definition tile_host :: string where "tile_host = ''tile.openstreetmap.org''"

definition the_text :: "string option \<Rightarrow> string" where "the_text v = (case v of Some t \<Rightarrow> t | None \<Rightarrow> [])"

definition run_Policy :: "'b engine \<Rightarrow> ('b, unit) drive" where
  "run_Policy E =
     bnd (steps [on_stack (SetPositions 200 theFamily), on_stack Restore, open_page E ''light'' 1280 800]) (\<lambda>_.
     bnd (recorded (ResponseHeader E ''/map'' ''content-security-policy'')) (\<lambda>csp.
     bnd (demand (the_text csp \<noteq> []) ''GET /map was served with no Content-Security-Policy'') (\<lambda>_.
     bnd (recorded (ResponseHeader E ''/static/leaflet.js'' ''content-security-policy'')) (\<lambda>assetCSP.
     bnd (demand (the_text assetCSP \<noteq> []) ''GET /static/leaflet.js was served with no Content-Security-Policy'') (\<lambda>_.
     bnd (Violations_seen E) (\<lambda>violations.
     bnd (steps [demand (violations = []) (''the browser reported policy violations against the shipped page:'' @ concat (map (\<lambda>v. nl @ ''    '' @ v) violations)),
                 waitSnapshot E (\<lambda>_ s. DeviceSetKnown s \<and> StatusHealth s = ''live'') (20000 * ms)
                   ''under the policy the page never completed its positions request and its event stream'']) (\<lambda>_.
     bnd (see E (see_works E)) (\<lambda>works.
     bnd (steps [demand (Leaflet works) ''the vendored Leaflet library did not run under the policy'',
                 demand (Hook works) (''the page'' @ [CHR 0x27] @ ''s own inline script did not run under the policy''),
                 demand (Styled works) (''the page'' @ [CHR 0x27] @ ''s inline stylesheet did not apply under the policy''),
                 demand (Markers works \<noteq> 0) ''no device marker was drawn under the policy, so the map is silenced even though nothing was formally refused'']) (\<lambda>_.
     bnd (recorded (see_requests E)) (\<lambda>requests.
     demand (\<exists>u \<in> set requests. contains u tile_host) ''the page made no map tile request under the policy''))))))))))"

definition checkPolicy :: "'b engine \<Rightarrow> ('b \<times> instant) Check" where
  "checkPolicy E = ui_check ''AC21-policy''
     ''AC21 F11-web: a Content-Security-Policy is sent for the page and for /static, and nothing it needs is refused''
     policy_mutation
     (run_Policy E)"

definition allowed_origins :: "'b engine \<Rightarrow> string list" where
  "allowed_origins E =
     [origin (eng_url E), ''https://'' @ tile_host, ''chrome-extension://'', ''data:'', ''about:'', ''devtools://devtools'',
      ''https://'' @ tile_host @ ''/'', origin (eng_url E) @ ''/'', ''chrome://'', ''blob:'', ''http://127.0.0.1'', TrimSuffix (eng_url E) ''/'']"

definition on_the_wire :: "string list \<Rightarrow> string list" where
  "on_the_wire requests = filter (\<lambda>u. \<not> (has_prefix u ''data:'' \<or> has_prefix u ''blob:'' \<or> has_prefix u ''about:'')) requests"

definition tileURLs :: "string list \<Rightarrow> string list" where
  "tileURLs requests = filter (\<lambda>u. contains (origin u) tile_host) (on_the_wire requests)"

definition foreign_urls :: "'b engine \<Rightarrow> string list \<Rightarrow> string list" where
  "foreign_urls E requests =
     filter (\<lambda>u. \<not> contains (origin u) tile_host \<and> origin u \<notin> set (allowed_origins E)) (on_the_wire requests)"

text \<open>\<open>unique\<close> reports each foreign address once, in tabbed.\<close>

definition unique :: "string list \<Rightarrow> string list" where
  "unique xs = sort_key (map (of_char :: char \<Rightarrow> nat)) (remdups xs)"

definition policy_names_host :: "string \<Rightarrow> string list" where
  "policy_names_host csp =
     filter (\<lambda>f. (has_prefix f ''http://'' \<or> has_prefix f ''https://'') \<and> f \<noteq> ''https://'' @ tile_host) (Fields (replace_all '';'' '' '' csp))"

definition run_Egress :: "'b engine \<Rightarrow> ('b, unit) drive" where
  "run_Egress E =
     bnd (steps [on_stack (SetPositions 200 theFamily), on_stack Restore, open_page E ''light'' 1280 800,
                 waitSnapshot E (\<lambda>_ s. DeviceSetKnown s \<and> StatusHealth s = ''live'') (20000 * ms)
                   ''the page never got as far as watching, so its network record proves nothing'',
                 sleep E 1500]) (\<lambda>_.
     bnd (recorded (see_requests E)) (\<lambda>requests.
     bnd (steps [demand (on_the_wire requests \<noteq> []) ''the engine recorded no requests at all, so this check would pass vacuously'',
                 demand (foreign_urls E requests = [])
                   (''the page made requests to an origin that is neither its own server nor the tile host:''
                    @ concat (map (\<lambda>u. nl @ ''    '' @ u) (unique (foreign_urls E requests)))),
                 demand (tileURLs requests \<noteq> []) ''the page requested no map tiles, so the no-token-to-the-tile-host claim was not exercised'',
                 for_each (\<lambda>u. demand (\<not> contains u viewerToken) (''a tile request carries the viewer token: '' @ u)) (tileURLs requests)]) (\<lambda>_.
     bnd (recorded (ResponseHeader E ''/map'' ''referrer-policy'')) (\<lambda>ref.
     bnd (demand (ref = Some ''no-referrer'') ''the page URL carries a live viewer token, so anything but no-referrer hands it to the tile host'') (\<lambda>_.
     bnd (recorded (ResponseHeader E ''/map'' ''content-security-policy'')) (\<lambda>csp.
     steps [for_each (\<lambda>reporter. demand (\<not> contains (the_text csp) reporter) (''the policy names a '' @ reporter)) [''report-uri'', ''report-to''],
            demand (policy_names_host (the_text csp) = []) ''the policy names a host beyond the server and the tile imagery'']))))))"

definition checkEgress :: "'b engine \<Rightarrow> ('b \<times> instant) Check" where
  "checkEgress E = ui_check ''AC22-egress''
     ''AC22 F11-web: no origin beyond the server and the tile host, no token to the tile host, no reporting endpoint''
     \<lparr>Mut_ID = ''AC22-egress'', Mut_Path = [], Find = ''https://tile.openstreetmap.org/{z}/{x}/{y}.png'',
      Replace = ''https://tiles.example.net/{z}/{x}/{y}.png'',
      CSPFind = ''img-src '' @ squoted ''self'' @ '' data: https://tile.openstreetmap.org'',
      CSPReplace = ''img-src '' @ squoted ''self'' @ '' data: https://tile.openstreetmap.org https://tiles.example.net'', DropHeader = []\<rparr>
     (run_Egress E)"

definition Checks :: "'b engine \<Rightarrow> ('b \<times> instant) Check list" where
  "Checks E =
     [checkKeyboard E, checkAccessibleNames E, checkColourFree E, checkContrast ''light'' E, checkContrast ''dark'' E, checkFocusIndicator E,
      checkThemeFollowsPreference E, checkTargetSize E, checkAbsence E, checkAggregates E, checkOneBadEvent E, checkStaleFeed E,
      checkThreeStates E, checkExplanation E, checkReflow E, checkPolicy E, checkEgress E]"

section \<open>What passing means\<close>

text \<open>One rule a combinator: the run succeeds exactly when its parts do.\<close>

lemma judged_None [ui_passes]: "judged m w = (None, w') \<longleftrightarrow> m w = (Inr (), w')"
  by (auto simp: judged_def split: prod.splits sum.splits)

lemma ret_ok [ui_passes]: "ret a w = (Inr b, w') \<longleftrightarrow> b = a \<and> w' = w"
  by (auto simp: ret_def)

lemma steps_ok [ui_passes]:
  "steps (m # more_steps) w = (Inr u, w'') \<longleftrightarrow> (\<exists>w'. m w = (Inr (), w') \<and> steps more_steps w' = (Inr u, w''))"
  by (simp add: bnd_Inr)

lemma steps_nil [ui_passes]: "steps [] w = (Inr u, w') \<longleftrightarrow> w' = w"
  by (auto simp: ret_def)

lemma demand_ok [ui_passes]: "demand P why w = (Inr u, w') \<longleftrightarrow> P \<and> w' = w"
  by (auto simp: demand_def ret_def refuse_def)

lemma on_stack_ok [ui_passes]: "on_stack f w = (Inr u, w') \<longleftrightarrow> w' = (fst w, f (snd w))"
  by (cases w) (auto simp: on_stack_def)

lemma recorded_ok [ui_passes]: "recorded f w = (Inr a, w') \<longleftrightarrow> a = f (fst (fst w)) \<and> w' = w"
  by (auto simp: recorded_def)

lemma sleep_ok [ui_passes]: "sleep E n w = (Inr u, w') \<longleftrightarrow> w' = doze E n w"
  by (auto simp: sleep_def)

lemma for_each_nil [ui_passes]: "for_each f [] w = (Inr u, w') \<longleftrightarrow> w' = w"
  by (auto simp: for_each_def ret_def)

lemma for_each_cons [ui_passes]:
  "for_each f (x # xs) w = (Inr u, w'') \<longleftrightarrow> (\<exists>w'. f x w = (Inr (), w') \<and> for_each f xs w' = (Inr u, w''))"
  by (simp add: for_each_def bnd_Inr)

lemma for_each_demand [ui_passes]:
  "for_each (\<lambda>x. demand (P x) (why x)) xs w = (Inr u, w') \<longleftrightarrow> (\<forall>x \<in> set xs. P x) \<and> w' = w"
proof (induction xs arbitrary: w)
  case Nil
  show ?case by (simp add: for_each_nil)
next
  case (Cons x xs)
  then show ?case by (auto simp: for_each_cons demand_ok)
qed

lemmas [ui_passes] = bnd_Inr

lemma see_ok:
  assumes "see E f w = (Inr a, w')"
  shows "f (fst (fst w'), snd w') = Inr a"
  using assms by (auto simp: see_def split: prod.splits)

text \<open>A wait that succeeds ends on a reading that satisfies it; one that gives up has used its time.\<close>

lemma wait_loop_ok:
  "wait_loop E ok deadline w = (found, w') \<Longrightarrow>
     (found \<longrightarrow> (\<exists>s. see_snapshot E (fst (fst w'), snd w') = Inr s \<and> ok (fst (fst w'), snd w') s))
     \<and> (\<not> found \<longrightarrow> deadline \<le> snd (fst w'))"
proof (induction E ok deadline w rule: wait_loop.induct)
  case (1 E ok deadline w)
  show ?case
  proof (cases "snd (fst w) < deadline")
    case False
    then show ?thesis using "1.prems" by (subst (asm) wait_loop.simps) auto
  next
    case True
    obtain res b t s where r: "see E (see_snapshot E) w = (res, (b, t), s)" by (metis surj_pair)
    show ?thesis
    proof (cases "case res of Inr snap \<Rightarrow> ok (b, s) snap | Inl _ \<Rightarrow> False")
      case sat: True
      then obtain snap where "res = Inr snap" "ok (b, s) snap" by (cases res) auto
      then show ?thesis using "1.prems" True r sat see_ok [of E "see_snapshot E" w snap]
        by (subst (asm) wait_loop.simps) auto
    next
      case unsat: False
      have "wait_loop E ok deadline (doze E 150 ((b, t), s)) = (found, w')"
        using "1.prems" True r unsat by (subst (asm) wait_loop.simps) auto
      then show ?thesis using "1.IH" [OF True r [symmetric] refl refl unsat] by blast
    qed
  qed
qed

lemma waitSnapshot_ok:
  "waitSnapshot E ok patience why w = (Inr u, w') \<Longrightarrow>
     \<exists>s. see_snapshot E (fst (fst w'), snd w') = Inr s \<and> ok (fst (fst w'), snd w') s"
  using wait_loop_ok [of E ok "snd (fst w) + patience" w] by (auto simp: waitSnapshot_def split: prod.splits if_splits)

lemma waitSnapshot_gave_up:
  "waitSnapshot E ok patience why w = (Inl e, w') \<Longrightarrow> e = why \<and> snd (fst w) + patience \<le> snd (fst w')"
  using wait_loop_ok [of E ok "snd (fst w) + patience" w] by (auto simp: waitSnapshot_def split: prod.splits if_splits)

lemma panel_loop_ok:
  "panel_loop E want deadline w = (Some ps, w') \<Longrightarrow> Panel_State ps = want \<and> Panel_Visible ps"
proof (induction E want deadline w rule: panel_loop.induct)
  case (1 E want deadline w)
  have before_deadline: "snd (fst w) < deadline" using "1.prems" by (subst (asm) panel_loop.simps) (auto split: if_splits)
  obtain res b t s where r: "see E (see_panel E) w = (res, (b, t), s)" by (metis surj_pair)
  show ?case
  proof (cases res)
    case (Inl e)
    then show ?thesis using "1.prems" "1.IH"(1) [OF before_deadline r [symmetric] refl refl Inl] before_deadline r
      by (subst (asm) panel_loop.simps) auto
  next
    case (Inr q)
    show ?thesis
    proof (cases "Panel_State q = want \<and> Panel_Visible q")
      case True
      then show ?thesis using "1.prems" before_deadline r Inr by (subst (asm) panel_loop.simps) auto
    next
      case False
      then show ?thesis using "1.prems" "1.IH"(2) [OF before_deadline r [symmetric] refl refl Inr False] before_deadline r Inr
        by (subst (asm) panel_loop.simps) (auto split: if_splits)
    qed
  qed
qed

lemma awaitPanelState_ok:
  "awaitPanelState E want patience w = (Inr ps, w') \<Longrightarrow> Panel_State ps = want \<and> Panel_Visible ps"
  by (auto simp: awaitPanelState_def split: prod.splits option.splits dest: panel_loop_ok)

lemma annotate_ok [ui_passes]: "annotate pre m w = (Inr a, w') \<longleftrightarrow> m w = (Inr a, w')"
  by (auto simp: annotate_def split: prod.splits sum.splits)

text \<open>
  The names check is not vacuous and not partial. When it passes, the accessibility tree the engine shows
  at that moment has nodes, every node in it that is not ignored and has an interactive role has a non-blank
  name, and there is a status node that is not ignored and has one.
\<close>

theorem names_check_passes:
  assumes "Check_Run (checkAccessibleNames E) w = (None, w')"
  shows "\<exists>nodes. see_ax E (fst (fst w'), snd w') = Inr nodes \<and> nodes \<noteq> []
    \<and> (\<forall>n \<in> set nodes. \<not> Ignored n \<longrightarrow> nodeRole E n \<in> set interactiveRoles \<longrightarrow> nodeName E n \<noteq> [])
    \<and> (\<exists>n \<in> set nodes. \<not> Ignored n \<and> nodeRole E n = ''status'' \<and> nodeName E n \<noteq> [])"
proof -
  obtain w1 nodes where t: "axTree E w1 = (Inr nodes, w')"
    and m: "unnamedInteractive E nodes = []" and st: "nameOfStatus E nodes \<noteq> []"
    using assms by (auto simp: checkAccessibleNames_def ui_check_def run_AccessibleNames_def Let_def ui_passes)
  from t have a: "see_ax E (fst (fst w'), snd w') = Inr nodes" "nodes \<noteq> []"
    by (auto simp: axTree_def bnd_Inr ret_def refuse_def dest: see_ok split: if_splits)
  from m have n: "\<forall>n \<in> set nodes. \<not> Ignored n \<longrightarrow> nodeRole E n \<in> set interactiveRoles \<longrightarrow> nodeName E n \<noteq> []"
    by (auto simp: unnamedInteractive_def filter_empty_conv)
  from st have "\<exists>n \<in> set nodes. \<not> Ignored n \<and> nodeRole E n = ''status'' \<and> nodeName E n \<noteq> []"
    by (auto simp: nameOfStatus_def find_Some_iff split: option.splits)
  with a n show ?thesis by blast
qed

text \<open>
  The page's three states are told apart. When the check passes, the page was seen in its loading,
  its empty and its error state, each visible with a text and an action, and the three texts are pairwise
  different.
\<close>

theorem three_states_distinct:
  assumes "Check_Run (checkThreeStates E) w = (None, w')"
  shows "\<exists>(loading :: panelStateReport) emptied failed.
    map Panel_State [loading, emptied, failed] = [''loading'', ''empty'', ''error'']
    \<and> (\<forall>ps \<in> set [loading, emptied, failed]. Panel_Visible ps \<and> Panel_Text ps \<noteq> [] \<and> Panel_Action ps \<noteq> [])
    \<and> distinct (map Panel_Text [loading, emptied, failed])
    \<and> see_stateCount E (fst (fst w'), snd w') = Inr 1"
proof -
  from assms obtain l e f w1 w2 w3 w4 w5 w6 w7
    where a: "awaitPanelState E ''loading'' (15000 * ms) w1 = (Inr l, w2)" "awaitPanelState E ''empty'' (15000 * ms) w3 = (Inr e, w4)"
      "awaitPanelState E ''error'' (15000 * ms) w5 = (Inr f, w6)" and c: "see E (see_stateCount E) w7 = (Inr 1, w')"
      and t: "\<not> (Panel_Text l = [] \<or> Panel_Action l = [])" "\<not> (Panel_Text e = [] \<or> Panel_Action e = [])"
        "\<not> (Panel_Text f = [] \<or> Panel_Action f = [])" "Panel_Text e \<noteq> Panel_Text l"
        "\<not> (Panel_Text f = Panel_Text l \<or> Panel_Text f = Panel_Text e)"
    unfolding checkThreeStates_def ui_check_def run_ThreeStates_def Check.select_convs actionable_def ui_passes by blast
  have p: "Panel_State l = ''loading'' \<and> Panel_Visible l" "Panel_State e = ''empty'' \<and> Panel_Visible e"
      "Panel_State f = ''error'' \<and> Panel_Visible f"
    using a [THEN awaitPanelState_ok] by simp_all
  have "map Panel_State [l, e, f] = [''loading'', ''empty'', ''error'']" using p by simp
  moreover have "\<forall>ps \<in> set [l, e, f]. Panel_Visible ps \<and> Panel_Text ps \<noteq> [] \<and> Panel_Action ps \<noteq> []" using p t by simp
  moreover have "distinct (map Panel_Text [l, e, f])" using t by auto
  ultimately show ?thesis using see_ok [OF c] by - (rule exI, rule exI, rule exI, intro conjI, assumption+)
qed


text \<open>Two renderings of the same box differ by no pixel exactly when every pixel of the box has the same colour.\<close>

lemma pixelDifference_zero:
  assumes "png_decode E a = Inr ia" "png_decode E b = Inr ib" "im_min ia = im_min ib" "im_max ia = im_max ib"
  shows "pixelDifference E a b = Inr 0 \<longleftrightarrow>
    (\<forall>x y. fst (im_min ia) \<le> x \<longrightarrow> x < fst (im_max ia) \<longrightarrow> snd (im_min ia) \<le> y \<longrightarrow> y < snd (im_max ia) \<longrightarrow> im_at ia x y = im_at ib x y)"
  using assms by (auto simp: pixelDifference_def filter_empty_conv pixels_def sameColor_def)

text \<open>
  A page to run the checks on: its state counts what the engine did since it last navigated, its panel
  follows the stack, and its requests are given.
\<close>

definition panel_report :: "string \<Rightarrow> string \<Rightarrow> panelStateReport" where
  "panel_report state text = \<lparr>Panel_State = state, Panel_Text = text, Panel_Action = ''reload'', Panel_Visible = True\<rparr>"

definition sample_panel :: "nat \<times> Stack \<Rightarrow> panelStateReport" where
  "sample_panel = (\<lambda>(n, s).
     if positionsFail s then panel_report ''error'' ''no answer'' else if positionsStatus s = 401 then panel_report ''error'' ''not allowed''
     else if positionsStatus s = 0 \<or> 0 < positionsDelay s \<and> n < 3 then panel_report ''loading'' ''one moment'' else panel_report ''empty'' ''nobody yet'')"

definition sample_page :: "string list \<Rightarrow> nat engine" where
  "sample_page requests =
     \<lparr>eng_do = (\<lambda>c (n, s). (None, 1, case c of Navigate _ \<Rightarrow> 0 | _ \<Rightarrow> Suc n)), eng_sleep = (\<lambda>k (n, s). Suc n),
      eng_url = ''http://127.0.0.1:8080'', eng_lower = map ascii_lower, json_string = (\<lambda>_. None), png_decode = (\<lambda>_. Inl ''no png''),
      see_path = (\<lambda>_. Inl ''no path''),
      see_snapshot = (\<lambda>_. Inr \<lparr>DeviceSetKnown = True, DeviceCount = 5, LocatedCount = 3, Interrupted = False, InterruptedWhy = [], ReceivedCount = 5,
        RejectedCount = 0, LastRejection = [], Snap_PanelState = ''ready'', Snap_PanelStateText = [], Status = ''watching'', StatusHealth = ''live'', MarkerIDs = []\<rparr>),
      see_rows = (\<lambda>_. Inl ''no rows''), see_controls = (\<lambda>_. Inl ''no controls''), see_figures = (\<lambda>_. Inl ''no figures''),
      see_panel = (\<lambda>p. Inr (sample_panel p)),
      see_ax = (\<lambda>_. Inr [\<lparr>NodeID = ''1'', Ignored = False, ax_Role = Some (dquoted ''button''), ax_Name = Some (dquoted ''Watch''), BackendDOMNodeID = 4\<rparr>,
        \<lparr>NodeID = ''2'', Ignored = True, ax_Role = Some (dquoted ''link''), ax_Name = None, BackendDOMNodeID = 5\<rparr>,
        \<lparr>NodeID = ''3'', Ignored = False, ax_Role = Some (dquoted ''status''), ax_Name = Some (dquoted ''Connection''), BackendDOMNodeID = 6\<rparr>]),
      see_textRuns = (\<lambda>_. Inl ''no text''), see_boundaries = (\<lambda>_. Inl ''no boundaries''), see_shot = (\<lambda>_ _. Inl ''no shot''),
      see_focus = (\<lambda>_. Inl ''no focus''), see_backgrounds = (\<lambda>_. Inl ''no surface''), see_reflow = (\<lambda>_. Inl ''no widths''),
      see_boxes = (\<lambda>_. Inl ''no boxes''), see_names = (\<lambda>_. Inl ''no names''), see_texts = (\<lambda>_. Inl ''no texts''),
      see_regions = (\<lambda>_. Inl ''no regions''), see_title = (\<lambda>_. Inl ''no title''), see_bodyWords = (\<lambda>_. Inl ''no words''),
      see_id = (\<lambda>_ _. Inl ''no id''), see_stateCount = (\<lambda>_. Inr 1), see_works = (\<lambda>_. Inl ''no page''),
      see_violations = (\<lambda>_. Inr []), see_requests = (\<lambda>_. requests), see_console = (\<lambda>_. []),
      see_headers = (\<lambda>_. [(''http://127.0.0.1:8080/map?token=x'', [(''referrer-policy'', ''no-referrer''),
        (''content-security-policy'', ''img-src https://tile.openstreetmap.org; object-src none'')])])\<rparr>"

definition sample_start :: "nat site" where "sample_start = ((0, 0), NewStack)"

lemma passed_run: "fst (Check_Run c w) = None \<Longrightarrow> Check_Run c w = (None, snd (Check_Run c w))"
  by (metis prod.collapse)

lemma sample_names: "fst (Check_Run (checkAccessibleNames (sample_page [])) sample_start) = None"
  by code_simp

lemma sample_three: "fst (Check_Run (checkThreeStates (sample_page [])) sample_start) = None"
  by code_simp

lemma sample_egress:
  "fst (Check_Run (checkEgress (sample_page [''http://127.0.0.1:8080/map?token=s0056-viewer-token'', ''https://tile.openstreetmap.org/5/17/11.png'']))
     sample_start) = None"
  by code_simp

lemma sample_lookalike:
  "fst (Check_Run (checkEgress (sample_page [''https://tile.openstreetmap.org.evil.net/5/17/11.png''])) sample_start) = None"
  by code_simp

theorem names_check_passes_witness:
  "\<exists>nodes. see_ax (sample_page []) (fst (fst (snd (Check_Run (checkAccessibleNames (sample_page [])) sample_start))),
        snd (snd (Check_Run (checkAccessibleNames (sample_page [])) sample_start))) = Inr nodes \<and> nodes \<noteq> []
    \<and> (\<forall>n \<in> set nodes. \<not> Ignored n \<longrightarrow> nodeRole (sample_page []) n \<in> set interactiveRoles \<longrightarrow> nodeName (sample_page []) n \<noteq> [])
    \<and> (\<exists>n \<in> set nodes. \<not> Ignored n \<and> nodeRole (sample_page []) n = ''status'' \<and> nodeName (sample_page []) n \<noteq> [])"
  by (rule names_check_passes [OF passed_run [OF sample_names]])

theorem three_states_distinct_witness:
  "\<exists>(loading :: panelStateReport) emptied failed.
    map Panel_State [loading, emptied, failed] = [''loading'', ''empty'', ''error'']
    \<and> (\<forall>ps \<in> set [loading, emptied, failed]. Panel_Visible ps \<and> Panel_Text ps \<noteq> [] \<and> Panel_Action ps \<noteq> [])
    \<and> distinct (map Panel_Text [loading, emptied, failed])
    \<and> see_stateCount (sample_page []) (fst (fst (snd (Check_Run (checkThreeStates (sample_page [])) sample_start))),
        snd (snd (Check_Run (checkThreeStates (sample_page [])) sample_start))) = Inr 1"
  by (rule three_states_distinct [OF passed_run [OF sample_three]])


text \<open>
  The tile host is recognised by a name that occurs in the origin, not by the origin. A page that asks
  a host whose name only begins with the tile host's, and no other, passes the check.
\<close>

theorem egress_accepts_lookalike:
  "let E = sample_page [''https://tile.openstreetmap.org.evil.net/5/17/11.png'']; r = Check_Run (checkEgress E) sample_start in
   fst r = None \<and> origin (hd (see_requests E (fst (fst (snd r))))) = ''https://tile.openstreetmap.org.evil.net''
   \<and> origin (hd (see_requests E (fst (fst (snd r))))) \<notin> set (allowed_origins E)"
proof -
  have "origin ''https://tile.openstreetmap.org.evil.net/5/17/11.png'' = ''https://tile.openstreetmap.org.evil.net''" by code_simp
  moreover have "''https://tile.openstreetmap.org.evil.net'' \<notin> set (allowed_origins (sample_page rs))" for rs
    by (simp add: sample_page_def allowed_origins_def tile_host_def origin_def TrimSuffix_def CutSuffix_def has_suffix_def)
  ultimately show ?thesis using sample_lookalike by (simp add: Let_def) (simp add: sample_page_def)
qed

text \<open>
  Every claim of the web surface can be demonstrated. There are seventeen checks with different names, and
  each carries a mutation with its own name that rewrites the map page or its policy.
\<close>

theorem Checks_demonstrable:
  "length (Checks E) = 17 \<and> distinct (map Check_ID (Checks E))
   \<and> (\<forall>c \<in> set (Checks E). \<exists>m. Check_Mutation c = Some m \<and> Mut_ID m = Check_ID c \<and> mutation_target m = ''/map''
        \<and> (Find m \<noteq> [] \<or> CSPFind m \<noteq> []))"
proof -
  have ids: "map Check_ID (Checks E) =
    [''AC1-keyboard'', ''AC1-names'', ''AC1-colour-free'', ''AC2-contrast-light'', ''AC2-contrast-dark'', ''AC3-focus'', ''AC3-theme'', ''AC4-target-size'',
     ''AC5-absence'', ''AC6-aggregates'', ''AC7-one-bad-event'', ''AC8-stale'', ''AC9-three-states'', ''AC10-explanation'', ''AC11-reflow'',
     ''AC21-policy'', ''AC22-egress'']"
    unfolding Checks_def list.map ui_check_def Check.select_convs checkKeyboard_def checkAccessibleNames_def checkColourFree_def checkContrast_def
      checkFocusIndicator_def checkThemeFollowsPreference_def checkTargetSize_def checkAbsence_def checkAggregates_def checkOneBadEvent_def
      checkStaleFeed_def checkThreeStates_def checkExplanation_def checkReflow_def checkPolicy_def checkEgress_def by simp
  have "length (Checks E) = 17" by (simp add: Checks_def)
  moreover have "distinct (map Check_ID (Checks E))" unfolding ids by code_simp
  moreover have "\<exists>m. Check_Mutation c = Some m \<and> Mut_ID m = Check_ID c \<and> mutation_target m = ''/map'' \<and> (Find m \<noteq> [] \<or> CSPFind m \<noteq> [])"
    if "c \<in> set (Checks E)" for c
    using that unfolding Checks_def list.set
    by (elim insertE emptyE)
       (simp_all only: checkKeyboard_def checkAccessibleNames_def checkColourFree_def checkContrast_def
         checkFocusIndicator_def checkThemeFollowsPreference_def checkTargetSize_def checkAbsence_def checkAggregates_def checkOneBadEvent_def
         checkStaleFeed_def checkThreeStates_def checkExplanation_def checkReflow_def checkPolicy_def checkEgress_def ui_check_def
         source_mutation_def policy_mutation_def mutation_target_def Check.select_convs Mutation.select_convs, simp_all)
  ultimately show ?thesis by blast
qed

end
