(* ===== verification/BootRestart.thy ===== *)
theory BootRestart
  imports UiRecord
begin

text \<open>
  The reboot route, \<open>internal/uiverify/bootrestart.go\<close>: a device is prepared, rebooted and read four times. The
  emulator is a parameter, a state that answers \<open>adb\<close> commands and goes on while the route sleeps; the
  route's own state has the clock of the host, which every command moves forward and every sleep by its length.
  A step is a function on that state with a result or an error. The lines of the evidence log are left out,
  the commands sent for it are not. \<open>lab_disk\<close> is the error of writing, or of finding, a path on the host.
\<close>

section \<open>Steps on a device\<close>

record 'd lab =
  lab_adb :: "string list \<Rightarrow> 'd \<Rightarrow> (string \<times> string option) \<times> nat \<times> 'd"
  lab_sleep :: "nat \<Rightarrow> 'd \<Rightarrow> 'd"
  lab_script :: "string \<Rightarrow> string \<times> string option"
  lab_getenv :: "string \<Rightarrow> string"
  lab_duration :: "string \<Rightarrow> duration option"
  lab_disk :: "string \<Rightarrow> string option"
  lab_temp :: "string + string"
  lab_checkout :: checkout

record 'd rig =
  rig_dev :: 'd
  rig_now :: instant
  serial :: string
  rooted :: bool

type_synonym ('d, 'a) step = "'d rig \<Rightarrow> (ui_error + 'a) \<times> 'd rig"

definition adb :: "'d lab \<Rightarrow> string list \<Rightarrow> 'd rig \<Rightarrow> (string \<times> string option) \<times> 'd rig" where
  "adb L args r =
     (case lab_adb L (''-s'' # serial r # args) (rig_dev r) of (res, took, d) \<Rightarrow> (res, r\<lparr>rig_dev := d, rig_now := rig_now r + int took\<rparr>))"

definition shell :: "'d lab \<Rightarrow> string \<Rightarrow> 'd rig \<Rightarrow> (string \<times> string option) \<times> 'd rig" where
  "shell L command = adb L (''shell'' # Fields command)"

definition sleep :: "'d lab \<Rightarrow> nat \<Rightarrow> 'd rig \<Rightarrow> 'd rig" where
  "sleep L secs r = r\<lparr>rig_dev := lab_sleep L secs (rig_dev r), rig_now := rig_now r + int secs * second\<rparr>"

text \<open>A command whose failure is an error; one whose output is read whatever happens; one that is only sent.\<close>

definition must :: "'d lab \<Rightarrow> string \<Rightarrow> string \<Rightarrow> ('d, string) step" where
  "must L command what = (\<lambda>r. case shell L command r of ((out, err), r') \<Rightarrow>
     (case err of Some e \<Rightarrow> (Inl (Plain (what @ '': '' @ e @ nl @ out)), r') | None \<Rightarrow> (Inr out, r')))"

definition ask :: "'d lab \<Rightarrow> string \<Rightarrow> ('d, string) step" where
  "ask L command = (\<lambda>r. case shell L command r of ((out, _), r') \<Rightarrow> (Inr out, r'))"

definition send :: "'d lab \<Rightarrow> string list \<Rightarrow> ('d, string) step" where
  "send L args = (\<lambda>r. case adb L args r of ((out, _), r') \<Rightarrow> (Inr out, r'))"

definition pause :: "'d lab \<Rightarrow> nat \<Rightarrow> ('d, unit) step" where
  "pause L secs = (\<lambda>r. (Inr (), sleep L secs r))"

fun each :: "('a \<Rightarrow> ('d, unit) step) \<Rightarrow> 'a list \<Rightarrow> ('d, unit) step" where
  "each f [] = ret ()"
| "each f (x # xs) = bnd (f x) (\<lambda>_. each f xs)"

section \<open>Names and words\<close>

definition bootRestartCriterion :: string where
  "bootRestartCriterion = ''the reboot restart (collection resumes after a boot with nobody touching the phone)''"
definition trackerPackage :: string where "trackerPackage = ''com.nschatz.tracker''"
definition bootReceiver :: string where "bootReceiver = trackerPackage @ ''/.collect.BootCompletedReceiver''"
definition mainActivity :: string where "mainActivity = trackerPackage @ ''/.ui.MainActivity''"
definition debugAPKPath :: string where "debugAPKPath = ''android/app/build/outputs/apk/debug/app-debug.apk''"
definition prefsFileName :: string where "prefsFileName = ''tracker_client.xml''"

definition boot_refusal :: "string \<Rightarrow> string \<Rightarrow> ui_error" where
  "boot_refusal pre how = Refused \<lparr>R_Criterion = bootRestartCriterion, Prerequisite = pre, HowToObtain = how, Underlying = None\<rparr>"

definition bootRestartTimeout :: "'d lab \<Rightarrow> duration" where
  "bootRestartTimeout L =
     (let v = lab_getenv L ''TRACKER_BOOT_RESTART_TIMEOUT'' in
      case (if v = [] then None else lab_duration L v) of Some d \<Rightarrow> d | None \<Rightarrow> 360 * second)"

definition show_bool :: "bool \<Rightarrow> string" where "show_bool b = (if b then ''true'' else ''false'')"

definition headLine :: "string \<Rightarrow> string" where "headLine s = takeWhile (\<lambda>c. c \<noteq> CHR 0x0A) s"

definition lastLine :: "string \<Rightarrow> string" where
  "lastLine s = TrimSpace (List.last (split_at (CHR 0x0A) (rev (dropWhile (\<lambda>c. c = CHR 0x0A) (rev s)))))"

definition indent :: "string \<Rightarrow> string" where
  "indent s = concat (map (\<lambda>l. ''    '' @ l @ nl) (split_at (CHR 0x0A) (rev (dropWhile (\<lambda>c. c = CHR 0x0A) (rev s)))))"

record screenWords =
  w_running :: string
  w_stopped :: string
  w_enabledNotRunning :: string

definition string_resource :: "string \<Rightarrow> rx" where
  "string_resource name =
     Seq [Lit (''<string name='' @ dquoted name @ ''>''), Cap 1 (Many (Cls (\<lambda>c. c \<noteq> CHR ''<''))), Lit ''</string>'']"

definition read_word :: "string \<Rightarrow> string \<Rightarrow> ui_error + string" where
  "read_word body name =
     (case FindStringSubmatch (string_resource name) body of
        Some m \<Rightarrow> Inr (m 1)
      | None \<Rightarrow> Inl (boot_refusal (''the string resource '' @ dquoted name @ '', which this route looks for in what the app publishes'')
          ''restore it in android/app/src/main/res/values/strings.xml, or re-derive this route against its new name''))"

definition strings_xml :: string where "strings_xml = ''android/app/src/main/res/values/strings.xml''"

text \<open>The three labels; which of several missing ones is named depends on the order of a Go map, here the first.\<close>

definition renderedWords :: "checkout \<Rightarrow> ui_error + screenWords" where
  "renderedWords co =
     (case read_text co strings_xml of
        None \<Rightarrow> Inl (Refused \<lparr>R_Criterion = bootRestartCriterion, Prerequisite = ''the app'' @ [CHR 0x27] @ ''s string resources at '' @ strings_xml,
           HowToObtain = ''run this route from the repository root, or set TRACKER_REPO_ROOT'', Underlying = Some strings_xml\<rparr>)
      | Some body \<Rightarrow>
          (case read_word body ''collection_running'' of
             Inl e \<Rightarrow> Inl e
           | Inr running \<Rightarrow>
               (case read_word body ''collection_stopped'' of
                  Inl e \<Rightarrow> Inl e
                | Inr stopped \<Rightarrow>
                    map_sum id (\<lambda>enr. \<lparr>w_running = running, w_stopped = stopped, w_enabledNotRunning = enr\<rparr>)
                      (read_word body ''collection_enabled_not_running''))))"

section \<open>What the platform says\<close>

definition service_needle :: string where "service_needle = ''LocationCollectionService''"

text \<open>The window of the dump that begins at the service's name, of at most 2000 bytes.\<close>

definition service_window :: "string \<Rightarrow> string option" where
  "service_window out = map_option (\<lambda>(_, b). take 2000 (service_needle @ b)) (cut_text service_needle out)"

definition in_foreground :: "string \<Rightarrow> bool" where
  "in_foreground out \<longleftrightarrow> (case service_window out of None \<Rightarrow> False | Some w \<Rightarrow> contains w ''isForeground=true'')"

definition indentOf :: "string \<Rightarrow> nat" where
  "indentOf line = length line - length (dropWhile (\<lambda>c. c = CHR '' '' \<or> c = CHR 0x09) line)"

fun listed_below :: "nat \<Rightarrow> string \<Rightarrow> string list \<Rightarrow> bool" where
  "listed_below heading component [] = False"
| "listed_below heading component (entry # ls) =
     (if TrimSpace entry = [] then listed_below heading component ls
      else if indentOf entry \<le> heading then False
      else contains entry component \<or> listed_below heading component ls)"

fun disabled_in :: "string \<Rightarrow> string list \<Rightarrow> bool" where
  "disabled_in component [] = False"
| "disabled_in component (line # ls) =
     (contains line ''disabledComponents:'' \<and> listed_below (indentOf line) component ls \<or> disabled_in component ls)"

definition componentIsDisabled :: "string \<Rightarrow> string \<Rightarrow> bool" where
  "componentIsDisabled dump component = disabled_in component (split_at (CHR 0x0A) dump)"

definition field_true :: "string \<Rightarrow> rx" where
  "field_true name = Seq [Alt Bol (Cls rx_space), Lit (name @ ''=true''), Alt (Cls rx_space) Eol]"

definition userStateLine :: rx where
  "userStateLine = Seq [BolM, Many (Cls rx_space), Lit ''User '', Many1 (Cls is_digit), Lit '':'', Many (Cls (\<lambda>c. c \<noteq> CHR 0x0A)), EolM]"

record packageState =
  ps_stopped :: bool
  ps_notLaunched :: bool
  ps_receiverDisabled :: bool
  ps_userLine :: string

definition read_state :: "string \<Rightarrow> packageState" where
  "read_state out =
     (let line = FindString userStateLine out in
      \<lparr>ps_stopped = MatchString (field_true ''stopped'') line, ps_notLaunched = MatchString (field_true ''notLaunched'') line,
       ps_receiverDisabled = componentIsDisabled out ''BootCompletedReceiver'', ps_userLine = TrimSpace line\<rparr>)"

definition package_state :: "'d lab \<Rightarrow> ('d, packageState) step" where
  "package_state L = bnd (ask L (''dumpsys package '' @ trackerPackage)) (\<lambda>out. ret (read_state out))"

text \<open>The loops end because every round sleeps: the host's clock moves towards the deadline.\<close>

lemma rig_now_adb: "adb L args r = (res, r') \<Longrightarrow> rig_now r \<le> rig_now r'"
  by (auto simp: adb_def split: prod.splits)

lemma rig_now_shell: "shell L c r = (res, r') \<Longrightarrow> rig_now r \<le> rig_now r'"
  by (simp add: shell_def rig_now_adb)

lemma rig_now_sleep: "rig_now (sleep L n r) = rig_now r + int n * second"
  by (simp add: sleep_def)

function service_poll :: "'d lab \<Rightarrow> instant \<Rightarrow> 'd rig \<Rightarrow> (bool \<times> string) \<times> 'd rig" where
  "service_poll L deadline r =
     (case shell L (''dumpsys activity services '' @ trackerPackage) r of ((out, _), r1) \<Rightarrow>
        if in_foreground out then ((True, the (service_window out)), r1)
        else if \<not> rig_now r1 < deadline then ((False, out), r1)
        else service_poll L deadline (sleep L 5 r1))"
  by pat_completeness auto
termination
  by (relation "measure (\<lambda>(L, deadline, r). nat (deadline - rig_now r))")
    (auto simp: rig_now_sleep second_def dest!: rig_now_shell [OF sym])

declare service_poll.simps [simp del]

definition locationServiceIsRunning :: "'d lab \<Rightarrow> ('d, bool \<times> string) step" where
  "locationServiceIsRunning L = (\<lambda>r. case service_poll L (rig_now r + 150 * second) r of (res, r') \<Rightarrow> (Inr res, r'))"

function boot_poll :: "'d lab \<Rightarrow> instant \<Rightarrow> 'd rig \<Rightarrow> bool \<times> 'd rig" where
  "boot_poll L deadline r =
     (if rig_now r < deadline
      then (case shell L ''getprop sys.boot_completed'' r of ((out, _), r1) \<Rightarrow>
        if TrimSpace out = ''1'' then (True, sleep L 20 r1) else boot_poll L deadline (sleep L 5 r1))
      else (False, r))"
  by pat_completeness auto
termination
  by (relation "measure (\<lambda>(L, deadline, r). nat (deadline - rig_now r))")
    (auto simp: rig_now_sleep second_def dest!: rig_now_shell [OF sym])

declare boot_poll.simps [simp del]

section \<open>Preparing the device\<close>

definition grant_permissions :: "string list" where
  "grant_permissions = [''android.permission.ACCESS_COARSE_LOCATION'', ''android.permission.ACCESS_FINE_LOCATION'',
     ''android.permission.ACCESS_BACKGROUND_LOCATION'', ''android.permission.POST_NOTIFICATIONS'']"

definition grantLocation :: "'d lab \<Rightarrow> ('d, unit) step" where
  "grantLocation L =
     bnd (each (\<lambda>p. bnd (must L (''pm grant '' @ trackerPackage @ '' '' @ p) (''granting '' @ p)) (\<lambda>_. ret ())) grant_permissions) (\<lambda>_.
     bnd (ask L (''dumpsys package '' @ trackerPackage)) (\<lambda>out r.
       if MatchString (Lit ''ACCESS_BACKGROUND_LOCATION: granted=true'') out then ret () r
       else refuse (boot_refusal (''a granted ACCESS_BACKGROUND_LOCATION on '' @ serial r)
         (''adb -s '' @ serial r @ '' shell pm grant '' @ trackerPackage @ '' android.permission.ACCESS_BACKGROUND_LOCATION'')) r))"

definition stored_state :: "string \<Rightarrow> string \<Rightarrow> bool \<Rightarrow> string" where
  "stored_state url token enabled =
     ''<?xml version='' @ quoted ''1.0'' @ '' encoding='' @ quoted ''utf-8'' @ '' standalone='' @ quoted ''yes'' @ '' ?>'' @ nl
     @ ''<map>'' @ nl
     @ ''    <string name='' @ dquoted ''base_url'' @ ''>'' @ url @ ''</string>'' @ nl
     @ ''    <string name='' @ dquoted ''device_token'' @ ''>'' @ token @ ''</string>'' @ nl
     @ ''    <boolean name='' @ dquoted ''collection_enabled'' @ '' value='' @ dquoted (show_bool enabled) @ '' />'' @ nl
     @ ''</map>'' @ nl"

definition prefs_dir :: string where "prefs_dir = ''/data/data/'' @ trackerPackage @ ''/shared_prefs''"
definition staged_prefs :: string where "staged_prefs = ''/data/local/tmp/'' @ prefsFileName"

text \<open>The local file is written before it is pushed; its text is a parameter of the push only through the file.\<close>

definition push_prefs :: "'d lab \<Rightarrow> bool \<Rightarrow> bool \<Rightarrow> ('d, string) step" where
  "push_prefs L enabled configured = (\<lambda>r.
     let (url, token) = (if configured then (''https://tracker.invalid'', ''a-device-token'') else ([], []));
         body = stored_state url token enabled
     in case lab_temp L of
          Inl e \<Rightarrow> (Inl (Plain e), r)
        | Inr name \<Rightarrow>
            (case lab_disk L name of
               Some e \<Rightarrow> (Inl (Plain e), r)
             | None \<Rightarrow>
                 (case adb L [''push'', name, staged_prefs] r of ((out, err), r') \<Rightarrow>
                    (case err of Some e \<Rightarrow> (Inl (Plain (''pushing the stored state: '' @ e @ nl @ out)), r') | None \<Rightarrow> (Inr body, r')))))"

definition writeStoredState :: "'d lab \<Rightarrow> bool \<Rightarrow> bool \<Rightarrow> ('d, unit) step" where
  "writeStoredState L enabled configured =
     bnd (must L (''am force-stop '' @ trackerPackage) (''force-stopping '' @ trackerPackage)) (\<lambda>_.
     bnd (push_prefs L enabled configured) (\<lambda>_.
     bnd (must L (''run-as '' @ trackerPackage @ '' mkdir -p '' @ prefs_dir) (''making '' @ prefs_dir)) (\<lambda>_.
     bnd (must L (''run-as '' @ trackerPackage @ '' cp '' @ staged_prefs @ '' '' @ prefs_dir @ ''/'' @ prefsFileName) ''writing the stored state'') (\<lambda>_.
     bnd (ask L (''run-as '' @ trackerPackage @ '' cat '' @ prefs_dir @ ''/'' @ prefsFileName)) (\<lambda>back r.
       if contains back (''value='' @ dquoted (show_bool enabled)) then ret () r
       else refuse (boot_refusal
         (''a stored collection ask of '' @ show_bool enabled @ '' on '' @ serial r @ '' (read back: '' @ dquoted (TrimSpace back) @ '')'')
         (''the debug build must be debuggable so `run-as '' @ trackerPackage @ ''` can write its own data directory'')) r)))))"

definition openTheApp :: "'d lab \<Rightarrow> ('d, unit) step" where
  "openTheApp L = bnd (must L (''am start -W -n '' @ mainActivity) (''launching '' @ mainActivity)) (\<lambda>_. pause L 5)"

definition leaveTheStoppedState :: "'d lab \<Rightarrow> ('d, unit) step" where
  "leaveTheStoppedState L =
     bnd (openTheApp L) (\<lambda>_. bnd (package_state L) (\<lambda>st r.
       if ps_stopped st
       then refuse (boot_refusal
         (''an app the boot broadcast can reach on '' @ serial r @ '' (the platform still records it as stopped after a launch: '' @ ps_userLine st @ '')'')
         (''adb -s '' @ serial r @ '' shell am start -W -n '' @ mainActivity @ '', or launch it from the launcher'')) r
       else ret () r))"

definition settleBeforeReboot :: "'d lab \<Rightarrow> ('d, unit) step" where
  "settleBeforeReboot L = bnd (pause L 25) (\<lambda>_. bnd (ask L ''sync'') (\<lambda>_. ret ()))"

definition adb_must :: "'d lab \<Rightarrow> string list \<Rightarrow> string \<Rightarrow> ('d, unit) step" where
  "adb_must L args what = (\<lambda>r. case adb L args r of ((out, err), r') \<Rightarrow>
     (case err of Some e \<Rightarrow> (Inl (Plain (what @ '': '' @ e @ nl @ out)), r') | None \<Rightarrow> (Inr (), r')))"

text \<open>The duration in a refusal's text is left out: it is only shown.\<close>

definition rebootAndWait :: "'d lab \<Rightarrow> ('d, unit) step" where
  "rebootAndWait L =
     bnd (settleBeforeReboot L) (\<lambda>_ r.
     bnd (adb_must L [''reboot''] (''rebooting '' @ serial r)) (\<lambda>_ r1.
     (let deadline = rig_now r1 + bootRestartTimeout L in
      bnd (adb_must L [''wait-for-device''] (''waiting for '' @ serial r1 @ '' to come back'')) (\<lambda>_ r2.
        case boot_poll L deadline r2 of
          (True, r3) \<Rightarrow> (Inr (), r3)
        | (False, r3) \<Rightarrow> (Inl (boot_refusal (''a device that finished rebooting (waited for sys.boot_completed on '' @ serial r3 @ '')'')
                            ''give the runner /dev/kvm, or raise TRACKER_BOOT_RESTART_TIMEOUT''), r3)) r1)) r)"

definition recordBootLog :: "'d lab \<Rightarrow> ('d, unit) step" where
  "recordBootLog L = bnd (send L [''logcat'', ''-b'', ''all'', ''-d'', ''-v'', ''raw'', ''-s'', ''TrackerBoot:V'']) (\<lambda>_. ret ())"

section \<open>The boot receiver\<close>

text \<open>\<open>becomeRoot\<close>: the verdict is the user id the device reports.\<close>

definition tried_line :: "string \<Rightarrow> string \<times> string option \<Rightarrow> string" where
  "tried_line command = (\<lambda>(out, err).
     command @ '' -> err='' @ (case err of None \<Rightarrow> ''<nil>'' | Some e \<Rightarrow> e) @ '' '' @ TrimSpace (headLine out))"

definition becomeRoot :: "'d lab \<Rightarrow> ('d, bool \<times> string list) step" where
  "becomeRoot L = (\<lambda>r. case adb L [''root''] r of (res, r1) \<Rightarrow>
     bnd (send L [''wait-for-device'']) (\<lambda>_. bnd (ask L ''id -u'') (\<lambda>who r2.
       (Inr (TrimSpace who = ''0'', [tried_line ''adb root'' res, ''id -u after adb root -> '' @ dquoted (TrimSpace who)]),
        r2\<lparr>rooted := (TrimSpace who = ''0'')\<rparr>))) r1)"

definition leaveRootIfTaken :: "'d lab \<Rightarrow> bool \<Rightarrow> ('d, unit) step" where
  "leaveRootIfTaken L restoring = (\<lambda>r.
     if \<not> rooted r \<or> \<not> restoring then (Inr (), r)
     else bnd (send L [''unroot'']) (\<lambda>_. bnd (send L [''wait-for-device'']) (\<lambda>_ r'. (Inr (), r'\<lparr>rooted := False\<rparr>))) r)"

text \<open>One rung of the ladder: the command, and what the platform lists afterwards.\<close>

definition rung :: "'d lab \<Rightarrow> bool \<Rightarrow> string \<Rightarrow> ('d, bool \<times> string) step" where
  "rung L enabled command = (\<lambda>r. case shell L command r of (res, r1) \<Rightarrow>
     bnd (package_state L) (\<lambda>st. ret (ps_receiverDisabled st \<noteq> enabled, tried_line command res)) r1)"

fun climb :: "'d lab \<Rightarrow> bool \<Rightarrow> string list \<Rightarrow> ('d, bool \<times> string list) step" where
  "climb L enabled [] = ret (False, [])"
| "climb L enabled (c # cs) =
     bnd (rung L enabled c) (\<lambda>(ok, line).
       if ok then ret (True, [line]) else bnd (climb L enabled cs) (\<lambda>(ok', lines). ret (ok', line # lines)))"

definition privileged_verb :: "bool \<Rightarrow> string" where "privileged_verb enabled = (if enabled then ''enable'' else ''disable-user --user 0'')"
definition own_verb :: "bool \<Rightarrow> string" where "own_verb enabled = (if enabled then ''enable'' else ''disable'')"

definition first_rungs :: "bool \<Rightarrow> string list" where
  "first_rungs enabled =
     [''pm '' @ privileged_verb enabled @ '' '' @ bootReceiver,
      ''run-as '' @ trackerPackage @ '' cmd package '' @ privileged_verb enabled @ '' '' @ bootReceiver,
      ''run-as '' @ trackerPackage @ '' cmd package '' @ own_verb enabled @ '' '' @ bootReceiver]"

definition root_rungs :: "bool \<Rightarrow> string list" where
  "root_rungs enabled = [''pm '' @ privileged_verb enabled @ '' '' @ bootReceiver, ''pm '' @ own_verb enabled @ '' '' @ bootReceiver]"

definition receiver_refusal :: "bool \<Rightarrow> string \<Rightarrow> string list \<Rightarrow> ui_error" where
  "receiver_refusal enabled sn tried =
     boot_refusal (''a '' @ (if enabled then ''enabled'' else ''disabled'') @ '' boot receiver on '' @ sn
         @ ''; every route to it was refused:'' @ nl @ ''    '' @ join (nl @ ''    '') tried)
       (''a platform that lets the app'' @ [CHR 0x27] @ ''s own uid change its own component state (run-as on a debuggable build), a shell with ''
         @ ''CHANGE_COMPONENT_ENABLED_STATE, or an emulator built from a userdebug system image, where `adb root` reaches it'')"

definition setBootReceiverEnabled :: "'d lab \<Rightarrow> bool \<Rightarrow> ('d, unit) step" where
  "setBootReceiverEnabled L enabled =
     bnd (climb L enabled (first_rungs enabled)) (\<lambda>(ok, tried).
       if ok then leaveRootIfTaken L enabled
       else bnd (becomeRoot L) (\<lambda>(root, root_tried).
         bnd (if root then climb L enabled (root_rungs enabled) else ret (False, [])) (\<lambda>(ok', more_tried).
           bnd (leaveRootIfTaken L enabled) (\<lambda>_ r.
             if ok' then (Inr (), r) else (Inl (receiver_refusal enabled (serial r) (tried @ root_tried @ more_tried)), r)))))"

section \<open>What the screen shows\<close>

record renderProfile =
  rp_cell :: string
  rp_size :: string
  rp_density :: string

definition renderProfiles :: "renderProfile list" where
  "renderProfiles = [\<lparr>rp_cell = ''360'', rp_size = ''720x2400'', rp_density = ''320''\<rparr>, \<lparr>rp_cell = ''desktop'', rp_size = ''1200x2400'', rp_density = ''320''\<rparr>]"

definition renderThemes :: "(string \<times> string) list" where "renderThemes = [(''light'', ''no''), (''dark'', ''yes'')]"

definition useTallProfile :: "'d lab \<Rightarrow> renderProfile \<Rightarrow> ('d, unit) step" where
  "useTallProfile L p =
     bnd (must L (''wm size '' @ rp_size p) (''setting the display to '' @ rp_size p)) (\<lambda>_.
     bnd (must L (''wm density '' @ rp_density p) (''setting the density to '' @ rp_density p)) (\<lambda>_. pause L 3))"

definition resetDisplay :: "'d lab \<Rightarrow> ('d, unit) step" where
  "resetDisplay L =
     bnd (ask L ''wm size reset'') (\<lambda>_. bnd (ask L ''wm density reset'') (\<lambda>_. bnd (ask L ''cmd uimode night no'') (\<lambda>_. pause L 2)))"

definition publishedScreenText :: "'d lab \<Rightarrow> ('d, string) step" where
  "publishedScreenText L =
     bnd (must L ''uiautomator dump /sdcard/tracker-window-dump.xml'' ''dumping the published tree'') (\<lambda>_.
       must L ''cat /sdcard/tracker-window-dump.xml'' ''reading the published tree'')"

definition png_signature :: string where "png_signature = CHR 0x89 # ''PNG''"

definition shot_problem :: "string \<Rightarrow> renderProfile \<Rightarrow> string \<Rightarrow> string option" where
  "shot_problem theme p png =
     (if \<not> has_prefix png png_signature
      then Some (''the screenshot for '' @ theme @ ''/'' @ rp_cell p @ '' is '' @ show_nat (length png)
        @ '' bytes and does not begin with a PNG signature, so it is not a picture of anything'')
      else if length png < 20000
      then Some (''the screenshot for '' @ theme @ ''/'' @ rp_cell p @ '' is '' @ show_nat (length png)
        @ '' bytes, which is too small to be a rendered screen at '' @ rp_size p)
      else None)"

definition shots_dir :: string where "shots_dir = ''build/uiverify/shots''"

definition capture_cell :: "'d lab \<Rightarrow> renderProfile \<Rightarrow> string \<times> string \<Rightarrow> ('d, string) step" where
  "capture_cell L p = (\<lambda>(theme, night).
     bnd (must L (''cmd uimode night '' @ night) (''setting night mode to '' @ night)) (\<lambda>_. bnd (pause L 3) (\<lambda>_. bnd (openTheApp L) (\<lambda>_ r.
       case adb L [''exec-out'', ''screencap'', ''-p''] r of ((png, err), r1) \<Rightarrow>
         (case err of
            Some e \<Rightarrow> (Inl (Plain (''screenshotting '' @ theme @ ''/'' @ rp_cell p @ '': '' @ e)), r1)
          | None \<Rightarrow>
              (let name = ''collection.'' @ theme @ ''.'' @ rp_cell p @ ''.png'' in
               case shot_problem theme p png of
                 Some e \<Rightarrow> (Inl (Plain e), r1)
               | None \<Rightarrow> (case lab_disk L (path_join shots_dir name) of Some e \<Rightarrow> (Inl (Plain e), r1) | None \<Rightarrow> (Inr name, r1))))))))"

fun capture_themes :: "'d lab \<Rightarrow> renderProfile \<Rightarrow> (string \<times> string) list \<Rightarrow> ('d, string list) step" where
  "capture_themes L p [] = ret []"
| "capture_themes L p (th # ths) =
     bnd (capture_cell L p th) (\<lambda>name. bnd (capture_themes L p ths) (\<lambda>names. ret (name # names)))"

text \<open>Each profile is set once, before its themes; the display is reset on every way out.\<close>

fun capture_profiles :: "'d lab \<Rightarrow> renderProfile list \<Rightarrow> ('d, string list) step" where
  "capture_profiles L [] = ret []"
| "capture_profiles L (p # ps) =
     bnd (useTallProfile L p) (\<lambda>_. bnd (capture_themes L p renderThemes) (\<lambda>names.
       bnd (capture_profiles L ps) (\<lambda>names'. ret (names @ names'))))"

definition captureRenderedEvidence :: "'d lab \<Rightarrow> ('d, unit) step" where
  "captureRenderedEvidence L = (\<lambda>r.
     case lab_disk L shots_dir of
       Some e \<Rightarrow> (Inl (Plain e), r)
     | None \<Rightarrow>
         (case capture_profiles L renderProfiles r of (res, r1) \<Rightarrow>
            (case resetDisplay L r1 of (_, r2) \<Rightarrow>
               (case res of
                  Inl e \<Rightarrow> (Inl e, r2)
                | Inr written \<Rightarrow>
                    if length written \<noteq> length renderProfiles * length renderThemes
                    then (Inl (Plain (show_nat (length written) @ '' of the '' @ show_nat (length renderProfiles * length renderThemes)
                           @ '' theme-and-width cells were captured'')), r2)
                    else (Inr (), r2)))))"

section \<open>The runs\<close>

text \<open>An assertion has a verdict, which is not an error of the route.\<close>

definition verdict :: "('d, unit) step \<Rightarrow> 'd rig \<Rightarrow> ui_error option \<times> 'd rig" where
  "verdict m r = (case m r of (Inl e, r') \<Rightarrow> (Some e, r') | (Inr _, r') \<Rightarrow> (None, r'))"

definition theAppIsStillReachable :: "'d lab \<Rightarrow> ('d, unit) step" where
  "theAppIsStillReachable L = bnd (package_state L) (\<lambda>st r.
     if ps_stopped st \<or> ps_notLaunched st
     then refuse (boot_refusal
       (''an app the boot broadcast could reach, still recorded as launched after the reboot on '' @ serial r @ '' (it reports: '' @ ps_userLine st @ '')'')
       ''the platform writes its package state on a delayed write; raise the settle in settleBeforeReboot, or reboot through a path that flushes it'') r
     else ret () r)"

definition theAppIsStillStopped :: "'d lab \<Rightarrow> ('d, unit) step" where
  "theAppIsStillStopped L = bnd (package_state L) (\<lambda>st r.
     if \<not> ps_stopped st
     then refuse (boot_refusal
       (''the app still in the platform'' @ [CHR 0x27] @ ''s STOPPED state after the reboot on '' @ serial r @ '' (it reports: '' @ ps_userLine st @ '')'')
       ''the platform writes its package state on a delayed write; raise the settle in settleBeforeReboot, or reboot through a path that flushes it'') r
     else ret () r)"

fun keep_mentioning :: "nat \<Rightarrow> string list \<Rightarrow> string list \<Rightarrow> string list" where
  "keep_mentioning 0 fragments ls = []"
| "keep_mentioning (Suc n) fragments [] = []"
| "keep_mentioning (Suc n) fragments (l # ls) =
     (if \<exists>f \<in> set fragments. contains l f then TrimSpace l # keep_mentioning n fragments ls else keep_mentioning (Suc n) fragments ls)"

definition linesMentioning :: "string \<Rightarrow> string list \<Rightarrow> string" where
  "linesMentioning text fragments = join nl (keep_mentioning 60 fragments (split_at (CHR 0x0A) text))"

definition logcat :: "string list \<Rightarrow> string list" where "logcat more_args = [''logcat'', ''-b''] @ more_args"

definition diagnose :: "'d lab \<Rightarrow> ('d, string) step" where
  "diagnose L =
     bnd (package_state L) (\<lambda>st.
     bnd (ask L (''run-as '' @ trackerPackage @ '' cat '' @ prefs_dir @ ''/'' @ prefsFileName)) (\<lambda>prefs.
     bnd (send L (logcat [''all'', ''-d'', ''-v'', ''brief'', ''-s'', ''TrackerBoot:V'', ''TrackerCollection:V''])) (\<lambda>boot.
     bnd (send L (logcat [''all'', ''-d'', ''-v'', ''brief'', ''-s'', ''ActivityManager:I'', ''BroadcastQueue:I''])) (\<lambda>broadcasts.
     bnd (send L (logcat [''crash'', ''-d'', ''-v'', ''brief''])) (\<lambda>crash.
       ret (join nl
         [''package state:     '' @ ps_userLine st, ''receiver disabled: '' @ show_bool (ps_receiverDisabled st),
          ''stored state:'' @ nl @ indent (TrimSpace prefs), ''the app'' @ [CHR 0x27] @ ''s own log (every buffer):'' @ nl @ indent (TrimSpace boot),
          ''what the platform says about this package'' @ [CHR 0x27] @ ''s broadcasts:'' @ nl
            @ indent (linesMentioning broadcasts [trackerPackage, ''BOOT_COMPLETED'']),
          ''the crash buffer:'' @ nl @ indent (TrimSpace crash)]))))))"

definition collectionIsRunningAfterTheBoot :: "'d lab \<Rightarrow> ('d, unit) step" where
  "collectionIsRunningAfterTheBoot L =
     bnd (locationServiceIsRunning L) (\<lambda>(running, dump).
       if running then ret ()
       else bnd (diagnose L) (\<lambda>why.
         refuse (Plain (''the location foreground service is not running after the boot; the platform'' @ [CHR 0x27] @ ''s own service list for ''
           @ trackerPackage @ '' reports:'' @ nl @ indent (TrimSpace dump) @ nl @ ''and this is the state it was in:'' @ nl @ indent why))))"

definition collectionIsNotRunningAfterTheBoot :: "'d lab \<Rightarrow> ('d, unit) step" where
  "collectionIsNotRunningAfterTheBoot L =
     bnd (locationServiceIsRunning L) (\<lambda>(running, dump).
       if running
       then refuse (Plain (''the location foreground service IS running after the boot, and nothing asked it to be; the platform'' @ [CHR 0x27]
         @ ''s own service list reports:'' @ nl @ indent (TrimSpace dump)))
       else ret ())"

definition shows_text :: "string \<Rightarrow> string \<Rightarrow> bool" where "shows_text tree text = contains tree (''text='' @ dquoted text)"

definition theReopenedAppSaysItIsNotCollecting :: "'d lab \<Rightarrow> screenWords \<Rightarrow> ('d, unit) step" where
  "theReopenedAppSaysItIsNotCollecting L words =
     bnd (useTallProfile L (hd renderProfiles)) (\<lambda>_. bnd (openTheApp L) (\<lambda>_. bnd (publishedScreenText L) (\<lambda>tree.
       if shows_text tree (w_running words)
       then refuse (Plain (''the reopened app publishes '' @ dquoted (w_running words)
         @ ''; a stored intent to collect must never be presented as a running collection''))
       else if \<not> shows_text tree (w_stopped words)
       then refuse (Plain (''the reopened app publishes neither '' @ dquoted (w_stopped words)
         @ '' nor anything this route recognises as the collection state:'' @ nl @ indent tree))
       else if \<not> shows_text tree (w_enabledNotRunning words)
       then refuse (Plain (''the reopened app publishes '' @ dquoted (w_stopped words) @ '' but not '' @ dquoted (w_enabledNotRunning words)
         @ '', so a restart that did not happen reads exactly like a deliberate stop''))
       else ret ())))"

record 'd bootRestartRun =
  run_name :: string
  run_prepare :: "('d, unit) step"
  run_survived :: "('d, unit) step"
  run_assert :: "('d, unit) step"
  run_restore :: "('d, unit) step"
  run_capture :: "('d, unit) step option"
  run_mustFail :: bool

definition force_stopped :: "'d lab \<Rightarrow> ('d, unit) step" where
  "force_stopped L =
     bnd (must L (''am force-stop '' @ trackerPackage) (''force-stopping '' @ trackerPackage)) (\<lambda>_. bnd (package_state L) (\<lambda>st r.
       if ps_stopped st then ret () r
       else refuse (boot_refusal (''the app in the platform'' @ [CHR 0x27] @ ''s STOPPED state on '' @ serial r @ '' (it reports: '' @ ps_userLine st @ '')'')
         (''adb -s '' @ serial r @ '' shell am force-stop '' @ trackerPackage)) r))"

definition prepare_with :: "'d lab \<Rightarrow> bool \<Rightarrow> ('d, unit) step" where
  "prepare_with L enabled = bnd (writeStoredState L enabled True) (\<lambda>_. leaveTheStoppedState L)"

definition bootRestartRuns :: "'d lab \<Rightarrow> screenWords \<Rightarrow> 'd bootRestartRun list" where
  "bootRestartRuns L words =
     [\<lparr>run_name = ''collection was enabled'', run_prepare = prepare_with L True, run_survived = theAppIsStillReachable L,
       run_assert = collectionIsRunningAfterTheBoot L, run_restore = ret (), run_capture = None, run_mustFail = False\<rparr>,
      \<lparr>run_name = ''collection was stopped by a person'', run_prepare = prepare_with L False, run_survived = theAppIsStillReachable L,
       run_assert = collectionIsNotRunningAfterTheBoot L, run_restore = ret (), run_capture = None, run_mustFail = False\<rparr>,
      \<lparr>run_name = ''the app was force-stopped'', run_prepare = bnd (prepare_with L True) (\<lambda>_. force_stopped L),
       run_survived = theAppIsStillStopped L,
       run_assert = bnd (collectionIsNotRunningAfterTheBoot L) (\<lambda>_. theReopenedAppSaysItIsNotCollecting L words),
       run_restore = ret (), run_capture = Some (captureRenderedEvidence L), run_mustFail = False\<rparr>,
      \<lparr>run_name = ''the boot path is disabled'', run_prepare = bnd (prepare_with L True) (\<lambda>_. setBootReceiverEnabled L False),
       run_survived = theAppIsStillReachable L, run_assert = collectionIsRunningAfterTheBoot L,
       run_restore = setBootReceiverEnabled L True, run_capture = None, run_mustFail = True\<rparr>]"

definition judge_verdict :: "'d bootRestartRun \<Rightarrow> ui_error option \<Rightarrow> string list" where
  "judge_verdict rn v =
     (case v of
        None \<Rightarrow> if run_mustFail rn
          then [run_name rn @ '': the restart assertion PASSED against a build whose boot path is disabled, so a green ''
            @ ''run of it is not evidence - the assertion cannot go red''] else []
      | Some e \<Rightarrow> if run_mustFail rn then [] else [run_name rn @ '': '' @ error_text e])"

definition capture_problems :: "'d bootRestartRun \<Rightarrow> 'd rig \<Rightarrow> string list \<times> 'd rig" where
  "capture_problems rn r =
     (case run_capture rn of
        None \<Rightarrow> ([], r)
      | Some c \<Rightarrow>
          (case verdict c r of
             (None, r') \<Rightarrow> ([], r')
           | (Some e, r') \<Rightarrow> ([run_name rn @ '': the rendered evidence for this state was not taken (F12 of the umbrella'' @ [CHR 0x27] @ ''s ''
               @ ''frontend conventions asks for it in both themes at both widths): '' @ error_text e], r')))"

text \<open>One reboot: an error of the route ends it, a verdict adds to the problems.\<close>

definition one_run :: "'d lab \<Rightarrow> 'd bootRestartRun \<Rightarrow> ('d, string list) step" where
  "one_run L rn =
     bnd (run_prepare rn) (\<lambda>_. bnd (rebootAndWait L) (\<lambda>_. bnd (recordBootLog L) (\<lambda>_. bnd (run_survived rn) (\<lambda>_ r.
       case verdict (run_assert rn) r of (v, r1) \<Rightarrow>
         (case capture_problems rn r1 of (ps, r2) \<Rightarrow>
            bnd (run_restore rn) (\<lambda>_. ret (judge_verdict rn v @ ps)) r2)))))"

fun all_runs :: "'d lab \<Rightarrow> 'd bootRestartRun list \<Rightarrow> ('d, string list) step" where
  "all_runs L [] = ret []"
| "all_runs L (x # xs) = bnd (one_run L x) (\<lambda>ps. bnd (all_runs L xs) (\<lambda>qs. ret (ps @ qs)))"

text \<open>\<open>bootedDeviceFor\<close>: the serial number the emulator script names, or its refusal.\<close>

definition bootedDeviceFor :: "'d lab \<Rightarrow> ui_error + string" where
  "bootedDeviceFor L =
     (case lab_script L ''require'' of
        (out, Some _) \<Rightarrow> Inl (Passthrough out)
      | (_, None) \<Rightarrow>
          (case lab_script L ''boot'' of
             (out, Some _) \<Rightarrow> Inl (Passthrough out)
           | (out, None) \<Rightarrow>
               if lastLine out = [] \<or> \<not> has_prefix (lastLine out) ''emulator-''
               then Inl (boot_refusal ''a BOOTED emulator device (the emulator script exited 0 and named none)''
                      ''give the runner /dev/kvm, or raise TRACKER_EMULATOR_BOOT_TIMEOUT for a TCG boot'')
               else Inr (lastLine out)))"

definition on_device :: "'d lab \<Rightarrow> screenWords \<Rightarrow> ('d, string list) step" where
  "on_device L words =
     bnd (\<lambda>r. adb_must L [''install'', ''-r'', ''-d'', debugAPKPath] (''installing '' @ debugAPKPath @ '' on '' @ serial r) r) (\<lambda>_.
     bnd (ask L ''setprop persist.logd.size 16M'') (\<lambda>_.
     bnd (grantLocation L) (\<lambda>_. all_runs L (bootRestartRuns L words))))"

definition bootRestartFile :: string where "bootRestartFile = ''build/uiverify/boot-restart.log''"

definition RunBootRestart :: "'d lab \<Rightarrow> 'd \<Rightarrow> instant \<Rightarrow> ui_error option" where
  "RunBootRestart L d t =
     (case lab_disk L bootRestartFile of
        Some e \<Rightarrow> Some (Plain e)
      | None \<Rightarrow>
          (case bootedDeviceFor L of
             Inl e \<Rightarrow> Some e
           | Inr sn \<Rightarrow>
               (case lab_disk L debugAPKPath of
                  Some e \<Rightarrow> Some (Refused \<lparr>R_Criterion = bootRestartCriterion, Prerequisite = ''the debug build at '' @ debugAPKPath,
                     HowToObtain = ''`make verify-boot-restart` assembles it first; on its own, (cd android && ./gradlew assembleDebug)'', Underlying = Some e\<rparr>)
                | None \<Rightarrow>
                    (case renderedWords (lab_checkout L) of
                       Inl e \<Rightarrow> Some e
                     | Inr words \<Rightarrow>
                         (case on_device L words \<lparr>rig_dev = d, rig_now = t, serial = sn, rooted = False\<rparr> of
                            (Inl e, _) \<Rightarrow> Some e
                          | (Inr [], _) \<Rightarrow> None
                          | (Inr problems, _) \<Rightarrow>
                              Some (Plain (''the reboot restart does not hold:'' @ nl @ ''  - '' @ join (nl @ ''  - '') problems)))))))"

section \<open>Reading the list of disabled components\<close>

text \<open>A component is listed under a heading when it is on a line that is deeper than the heading, with only deeper or blank lines between.\<close>

lemma listed_below_block:
  "listed_below h component ls \<longleftrightarrow>
     (\<exists>blk entry post. ls = blk @ entry # post \<and> TrimSpace entry \<noteq> [] \<and> contains entry component
        \<and> (\<forall>l \<in> set (blk @ [entry]). TrimSpace l = [] \<or> h < indentOf l))"
  (is "_ \<longleftrightarrow> ?block ls")
proof (induction ls)
  case (Cons x ls)
  let ?here = "TrimSpace x \<noteq> [] \<and> contains x component \<and> h < indentOf x"
  let ?skip = "TrimSpace x = [] \<or> h < indentOf x"
  have "?block (x # ls) \<longleftrightarrow> ?here \<or> ?skip \<and> ?block ls"
  proof
    assume "?block (x # ls)"
    then obtain blk entry post where b: "x # ls = blk @ entry # post" "TrimSpace entry \<noteq> []" "contains entry component"
      "\<forall>l \<in> set (blk @ [entry]). TrimSpace l = [] \<or> h < indentOf l" by blast
    show "?here \<or> ?skip \<and> ?block ls"
    proof (cases blk)
      case Nil
      then show ?thesis using b by auto
    next
      case (Cons y blk')
      then have "ls = blk' @ entry # post" "y = x" using b(1) by simp_all
      then show ?thesis using b(2-4) Cons by auto
    qed
  next
    assume "?here \<or> ?skip \<and> ?block ls"
    then show "?block (x # ls)"
    proof
      assume ?here
      then show ?thesis by (intro exI [of _ "[]"] exI [of _ x] exI [of _ ls]) simp
    next
      assume s: "?skip \<and> ?block ls"
      then obtain blk entry post where b: "ls = blk @ entry # post" "TrimSpace entry \<noteq> []" "contains entry component"
        "\<forall>l \<in> set (blk @ [entry]). TrimSpace l = [] \<or> h < indentOf l" by blast
      then show ?thesis using s by (intro exI [of _ "x # blk"] exI [of _ entry] exI [of _ post]) simp
    qed
  qed
  then show ?case using Cons.IH by auto
qed simp

lemma disabled_in_split:
  "disabled_in component ls \<longleftrightarrow>
     (\<exists>pre heading post. ls = pre @ heading # post \<and> contains heading ''disabledComponents:'' \<and> listed_below (indentOf heading) component post)"
proof (induction ls)
  case (Cons x ls)
  then show ?case by (auto simp: Cons_eq_append_conv)
qed simp

text \<open>
  The list of disabled components is read block by block. A component counts as disabled exactly when
  some heading of the dump that announces disabled components is followed by a line that names the component
  and is indented deeper, and every line between that is not blank is deeper too: what stands under the next
  heading, such as the list of enabled components, is never taken for it.
\<close>

theorem componentIsDisabled_block:
  "componentIsDisabled dump component \<longleftrightarrow>
     (\<exists>pre heading blk entry post. split_at (CHR 0x0A) dump = pre @ heading # blk @ entry # post
        \<and> contains heading ''disabledComponents:'' \<and> TrimSpace entry \<noteq> [] \<and> contains entry component
        \<and> (\<forall>l \<in> set (blk @ [entry]). TrimSpace l = [] \<or> indentOf heading < indentOf l))"
  unfolding componentIsDisabled_def disabled_in_split listed_below_block by blast

section \<open>What a green route shows\<close>

lemma ex_unit: "(\<exists>a. P (a :: unit)) \<longleftrightarrow> P ()"
  by (metis unit.exhaust)

text \<open>The state in which a run makes its assertion, after a reboot its preparation survived.\<close>

definition after_boot :: "'d lab \<Rightarrow> 'd bootRestartRun \<Rightarrow> 'd rig \<Rightarrow> bool" where
  "after_boot L x r \<longleftrightarrow>
     (\<exists>r0 r1 r2 r3. run_prepare x r0 = (Inr (), r1) \<and> rebootAndWait L r1 = (Inr (), r2) \<and> recordBootLog L r2 = (Inr (), r3)
        \<and> run_survived x r3 = (Inr (), r))"

definition collecting :: "'d lab \<Rightarrow> 'd rig \<Rightarrow> bool" where
  "collecting L r \<longleftrightarrow> fst (fst (service_poll L (rig_now r + 150 * second) r))"

lemma judge_verdict_Nil: "judge_verdict x v = [] \<longleftrightarrow> (v = None \<longleftrightarrow> \<not> run_mustFail x)"
  by (cases v) (simp_all add: judge_verdict_def)

lemma one_run_clean:
  assumes "one_run L x r = (Inr [], r')"
  shows "\<exists>s. after_boot L x s \<and> (fst (verdict (run_assert x) s) = None \<longleftrightarrow> \<not> run_mustFail x)"
proof -
  obtain r1 r2 r3 r4 where s: "run_prepare x r = (Inr (), r1)" "rebootAndWait L r1 = (Inr (), r2)" "recordBootLog L r2 = (Inr (), r3)"
    "run_survived x r3 = (Inr (), r4)" and
    e: "(case verdict (run_assert x) r4 of (v, r5) \<Rightarrow>
      (case capture_problems x r5 of (ps, r6) \<Rightarrow> bnd (run_restore x) (\<lambda>_. ret (judge_verdict x v @ ps)) r6)) = (Inr [], r')"
    using assms unfolding one_run_def by (simp only: bnd_Inr ex_unit) blast
  obtain v r5 where v: "verdict (run_assert x) r4 = (v, r5)" by (cases "verdict (run_assert x) r4")
  obtain ps r6 where p: "capture_problems x r5 = (ps, r6)" by (cases "capture_problems x r5")
  have "judge_verdict x v = []" using e v p by (auto simp: bnd_Inr ret_def)
  then have "v = None \<longleftrightarrow> \<not> run_mustFail x" using judge_verdict_Nil [of x v] by simp
  then show ?thesis using s v unfolding after_boot_def by (metis fst_conv)
qed

lemma all_runs_clean:
  "all_runs L xs r = (Inr [], r') \<Longrightarrow> x \<in> set xs \<Longrightarrow> \<exists>s. after_boot L x s \<and> (fst (verdict (run_assert x) s) = None \<longleftrightarrow> \<not> run_mustFail x)"
proof (induction xs arbitrary: r)
  case (Cons y ys)
  then show ?case using one_run_clean by (fastforce simp: bnd_Inr ret_def)
qed simp

lemma verdict_None: "fst (verdict m r) = None \<longleftrightarrow> (\<exists>r'. m r = (Inr (), r'))"
  by (auto simp: verdict_def split: prod.splits sum.splits)

lemma not_running_verdict: "fst (verdict (bnd (collectionIsNotRunningAfterTheBoot L) f) r) = None \<Longrightarrow> \<not> collecting L r"
  by (auto simp: verdict_None bnd_Inr collectionIsNotRunningAfterTheBoot_def locationServiceIsRunning_def collecting_def refuse_def
      split: prod.splits if_splits)

lemma running_verdict: "fst (verdict (collectionIsRunningAfterTheBoot L) r) = None \<longleftrightarrow> collecting L r"
  by (auto simp: verdict_None bnd_Inr collectionIsRunningAfterTheBoot_def locationServiceIsRunning_def collecting_def refuse_def ret_def
      split: prod.splits if_splits)

text \<open>
  A green reboot route is an account of four reboots. When it reports nothing, there was a device that,
  each time after a boot that its preparation had survived, was collecting when collection had been asked
  for, was not when a person had stopped it, was not and said so when the app had been force-stopped, and was
  not when the boot path had been switched off, so that the assertion is one that can fail.
\<close>

theorem boot_restart_green:
  assumes "RunBootRestart L d t = None"
  shows "\<exists>words enabled stopped forced disabled. renderedWords (lab_checkout L) = Inr words
    \<and> after_boot L (bootRestartRuns L words ! 0) enabled \<and> collecting L enabled
    \<and> after_boot L (bootRestartRuns L words ! 1) stopped \<and> \<not> collecting L stopped
    \<and> after_boot L (bootRestartRuns L words ! 2) forced \<and> \<not> collecting L forced
    \<and> (\<exists>r r'. theReopenedAppSaysItIsNotCollecting L words r = (Inr (), r'))
    \<and> after_boot L (bootRestartRuns L words ! 3) disabled \<and> \<not> collecting L disabled"
proof -
  obtain words r r' where w: "renderedWords (lab_checkout L) = Inr words" "on_device L words r = (Inr [], r')"
    using assms by (auto simp: RunBootRestart_def split: option.splits sum.splits prod.splits list.splits)
  then obtain r1 where a: "all_runs L (bootRestartRuns L words) r1 = (Inr [], r')" unfolding on_device_def bnd_Inr by blast
  have held: "\<exists>s. after_boot L (bootRestartRuns L words ! i) s
      \<and> (fst (verdict (run_assert (bootRestartRuns L words ! i)) s) = None \<longleftrightarrow> \<not> run_mustFail (bootRestartRuns L words ! i))" if "i < 4" for i
    using all_runs_clean [OF a, of "bootRestartRuns L words ! i"] that nth_mem [of i "bootRestartRuns L words"] by (simp add: bootRestartRuns_def)
  obtain s0 where s0: "after_boot L (bootRestartRuns L words ! 0) s0" "fst (verdict (collectionIsRunningAfterTheBoot L) s0) = None"
    using held [of 0] by (auto simp: bootRestartRuns_def)
  obtain s1 where s1: "after_boot L (bootRestartRuns L words ! 1) s1" "fst (verdict (collectionIsNotRunningAfterTheBoot L) s1) = None"
    using held [of 1] by (auto simp: bootRestartRuns_def)
  obtain s2 where s2: "after_boot L (bootRestartRuns L words ! 2) s2"
    "fst (verdict (bnd (collectionIsNotRunningAfterTheBoot L) (\<lambda>_. theReopenedAppSaysItIsNotCollecting L words)) s2) = None"
    using held [of 2] by (auto simp: bootRestartRuns_def eval_nat_numeral)
  obtain s3 where s3: "after_boot L (bootRestartRuns L words ! 3) s3" "fst (verdict (collectionIsRunningAfterTheBoot L) s3) \<noteq> None"
    using held [of 3] by (auto simp: bootRestartRuns_def eval_nat_numeral)
  have c1: "\<not> collecting L s1" using s1(2) not_running_verdict [of L ret] by (simp add: bnd_ret)
  have c0: "collecting L s0" and c3: "\<not> collecting L s3" using s0(2) s3(2) by (simp_all add: running_verdict)
  have c2: "\<not> collecting L s2" by (rule not_running_verdict [OF s2(2)])
  have t: "\<exists>r r'. theReopenedAppSaysItIsNotCollecting L words r = (Inr (), r')" using s2(2) by (auto simp: verdict_None bnd_Inr)
  show ?thesis
    by (intro exI [of _ words] exI [of _ s0] exI [of _ s1] exI [of _ s2] exI [of _ s3] conjI w(1) s0(1) c0 s1(1) c1 s2(1) c2 t s3(1) c3)
qed

section \<open>Where the readings are too generous\<close>

lemma read_state_nothing: "read_state [] = \<lparr>ps_stopped = False, ps_notLaunched = False, ps_receiverDisabled = False, ps_userLine = []\<rparr>"
proof -
  have "Lit (CHR ''U'' # w) = Cat (Cls (\<lambda>c. c = CHR ''U'')) (Lit w)" for w by (simp add: Lit.simps)
  then have "ways userStateLine \<lparr>before = [], rest = [], caps = Map.empty\<rparr> = []"
    by (simp add: userStateLine_def line_edge_def)
  then have line: "FindString userStateLine [] = []" by (simp add: FindString_def find_from.simps)
  have "\<not> matches (field_true (c # w)) p [] q" for c w p q
    by (auto simp: field_true_def matches_Cat)
  then have "\<not> MatchString (field_true ''stopped'') []" "\<not> MatchString (field_true ''notLaunched'') []" by (simp_all add: MatchString_iff)
  then show ?thesis by (simp add: read_state_def Let_def line componentIsDisabled_def TrimSpace_blank)
qed

lemma in_foreground_nothing: "\<not> in_foreground []"
  by (simp add: in_foreground_def service_window_def service_needle_def)

lemma service_poll_silent:
  "(\<And>args d. fst (fst (lab_adb L args d)) = []) \<Longrightarrow> \<not> fst (fst (service_poll L deadline r))"
proof (induction L deadline r rule: service_poll.induct)
  case (1 L deadline r)
  obtain out err r1 where sh: "shell L (''dumpsys activity services '' @ trackerPackage) r = ((out, err), r1)" by (metis surj_pair)
  then have "out = []" using 1(2) by (auto simp: shell_def adb_def split: prod.splits) (metis fst_conv)
  then have f: "\<not> in_foreground out" using in_foreground_nothing by simp
  show ?case
  proof (cases "rig_now r1 < deadline")
    case True
    have "\<not> fst (fst (service_poll L deadline (sleep L 5 r1)))" using 1(1) [OF sh [symmetric] refl f] 1(2) True by simp
    then show ?thesis using sh f True by (subst service_poll.simps) simp
  next
    case False
    then show ?thesis using sh f by (subst service_poll.simps) simp
  qed
qed

text \<open>
  C40: A device that answers nothing passes for one on which collection was stopped. When every command sent
  after the boot fails, the state that is read is neither stopped nor never launched, so the check that the
  app could be reached passes; and no service is seen, so the assertion that nothing is collecting passes too.
\<close>

theorem silent_device_passes:
  "let L = L0\<lparr>lab_adb := (\<lambda>args d. (([], Some ''error: device offline''), took, d))\<rparr>
   in fst (theAppIsStillReachable L r) = Inr () \<and> fst (collectionIsNotRunningAfterTheBoot L r) = Inr ()"
proof -
  let ?L = "L0\<lparr>lab_adb := (\<lambda>args d. (([], Some ''error: device offline''), took, d))\<rparr>"
  have "fst (theAppIsStillReachable ?L r) = Inr ()"
    by (simp add: theAppIsStillReachable_def package_state_def bnd_def ask_def shell_def adb_def ret_def read_state_nothing)
  moreover have "\<not> fst (fst (service_poll ?L deadline r))" for deadline by (rule service_poll_silent) simp
  then have "fst (collectionIsNotRunningAfterTheBoot ?L r) = Inr ()"
    by (auto simp: collectionIsNotRunningAfterTheBoot_def locationServiceIsRunning_def bnd_def ret_def split: prod.splits) (metis fst_conv)+
  ultimately show ?thesis by (simp add: Let_def)
qed

text \<open>
  The foreground flag of another service is taken for the location service's. A dump that lists the
  location service, not in the foreground, before a second service of the app that is, is read as a running
  collection, because the window of the dump that is searched does not end where the service's record ends.
\<close>

theorem foreground_of_another_service:
  "in_foreground
     (''  * ServiceRecord{1 u0 com.nschatz.tracker/.collect.LocationCollectionService}'' @ nl
      @ ''    isForeground=false foregroundId=0'' @ nl
      @ ''  * ServiceRecord{2 u0 com.nschatz.tracker/.alert.TrackerMessagingService}'' @ nl
      @ ''    isForeground=true foregroundId=7'' @ nl)"
  by code_simp

end
